(* ===== verification/Prelude.thy ===== *)
theory Prelude
  imports Complex_Main "HOL-Library.Word" "HOL-Library.Mapping" "HOL-Library.AList_Mapping"
begin

text \<open>
  What the component theories share: the sender's integer arithmetic at its machine width,
  lemmas about finite maps and lists, the collections the component proofs draw on, and the
  two generic interfaces of the development. The locale \<open>machine\<close> is a component seen as a
  state with events and an invariant; the locale \<open>scan_order\<close> is the linear scan
  that keeps the first strictly best element, which every link selector of the program uses.

  Integers. A clock value or a counter of type \<^verbatim>\<open>u64\<close> is a \<open>nat\<close>; the operations below
  write out the width, so that every function of the model maps values below \<open>2 ^ 64\<close> to values
  below \<open>2 ^ 64\<close>. Subtraction on \<open>nat\<close> is exactly \<^verbatim>\<open>saturating_sub\<close>. An \<^verbatim>\<open>i32\<close> that is used as
  a quantity is an \<open>int\<close>, again with the width written out; an \<^verbatim>\<open>i32\<close> or \<^verbatim>\<open>u32\<close> that is
  used as a sequence number or as a bit pattern is a \<open>32 word\<close>, on which the casts between the
  two types are the identity. The build has no overflow checks in the release profile, so the plain
  operators \<^verbatim>\<open>+\<close>, \<^verbatim>\<open>-\<close> and \<^verbatim>\<open>*\<close> wrap around.
\<close>

named_theorems width_defs \<open>definitions of the fixed-width operations\<close>
named_theorems frame_simps \<open>fields an operation leaves unchanged\<close>
named_theorems inv_intros \<open>operations that keep an invariant\<close>

type_synonym u8 = "8 word"
type_synonym u16 = "16 word"
type_synonym u32 = "32 word"
type_synonym u64 = nat
type_synonym usize = nat
type_synonym i32 = int
type_synonym seqno = "32 word"
type_synonym bytes = "8 word list"

section \<open>Integers at their width\<close>

abbreviation U64_MAX :: u64 where
  "U64_MAX \<equiv> 2 ^ 64 - 1"

abbreviation U32_MAX :: nat where
  "U32_MAX \<equiv> 2 ^ 32 - 1"

abbreviation I32_MAX :: i32 where
  "I32_MAX \<equiv> 2 ^ 31 - 1"

abbreviation I32_MIN :: i32 where
  "I32_MIN \<equiv> - (2 ^ 31)"

definition u64_add :: "u64 \<Rightarrow> u64 \<Rightarrow> u64" where
  [width_defs]: "u64_add a b = (a + b) mod 2 ^ 64"

definition u64_saturating_add :: "u64 \<Rightarrow> u64 \<Rightarrow> u64" where
  [width_defs]: "u64_saturating_add a b = min U64_MAX (a + b)"

definition u64_saturating_mul :: "u64 \<Rightarrow> u64 \<Rightarrow> u64" where
  [width_defs]: "u64_saturating_mul a b = min U64_MAX (a * b)"

definition u32_add :: "nat \<Rightarrow> nat \<Rightarrow> nat" where
  [width_defs]: "u32_add a b = (a + b) mod 2 ^ 32"

definition u32_saturating_add :: "nat \<Rightarrow> nat \<Rightarrow> nat" where
  [width_defs]: "u32_saturating_add a b = min U32_MAX (a + b)"

definition u32_saturating_mul :: "nat \<Rightarrow> nat \<Rightarrow> nat" where
  [width_defs]: "u32_saturating_mul a b = min U32_MAX (a * b)"

text \<open>Reading the low 32 bits of an integer as two's complement: a cast to \<^verbatim>\<open>i32\<close>, and what
  the plain operators do with their exact result.\<close>

definition i32_wrap :: "int \<Rightarrow> i32" where
  [width_defs]: "i32_wrap n = (n + 2 ^ 31) mod 2 ^ 32 - 2 ^ 31"

definition i32_add :: "i32 \<Rightarrow> i32 \<Rightarrow> i32" where
  [width_defs]: "i32_add a b = i32_wrap (a + b)"

definition i32_sub :: "i32 \<Rightarrow> i32 \<Rightarrow> i32" where
  [width_defs]: "i32_sub a b = i32_wrap (a - b)"

definition i32_clip :: "int \<Rightarrow> i32" where
  [width_defs]: "i32_clip n = max I32_MIN (min I32_MAX n)"

definition i32_saturating_add :: "i32 \<Rightarrow> i32 \<Rightarrow> i32" where
  [width_defs]: "i32_saturating_add a b = i32_clip (a + b)"

definition i32_saturating_mul :: "i32 \<Rightarrow> i32 \<Rightarrow> i32" where
  [width_defs]: "i32_saturating_mul a b = i32_clip (a * b)"

text \<open>Rust's integer division truncates towards zero; the divisors of the model are positive.\<close>

definition i32_div :: "i32 \<Rightarrow> i32 \<Rightarrow> i32" where
  [width_defs]: "i32_div a b = sgn a * sgn b * (\<bar>a\<bar> div \<bar>b\<bar>)"

definition in_i32 :: "int \<Rightarrow> bool" where
  "in_i32 n \<longleftrightarrow> I32_MIN \<le> n \<and> n \<le> I32_MAX"

lemma i32_wrap_id [simp]: "in_i32 n \<Longrightarrow> i32_wrap n = n"
  by (simp add: in_i32_def i32_wrap_def)

lemma in_i32_wrap [simp]: "in_i32 (i32_wrap n)"
proof -
  have "0 \<le> (n + 2 ^ 31) mod 2 ^ 32" "(n + 2 ^ 31) mod (2 ^ 32 :: int) < 2 ^ 32"
    by simp_all
  then show ?thesis by (auto simp: in_i32_def i32_wrap_def)
qed

lemma in_i32_clip [simp]: "in_i32 (i32_clip n)"
  by (simp add: in_i32_def i32_clip_def)

lemma i32_clip_id [simp]: "in_i32 n \<Longrightarrow> i32_clip n = n"
  by (simp add: in_i32_def i32_clip_def)

lemma i32_add_id: "in_i32 (a + b) \<Longrightarrow> i32_add a b = a + b"
  by (simp add: i32_add_def)

lemma i32_sub_id: "in_i32 (a - b) \<Longrightarrow> i32_sub a b = a - b"
  by (simp add: i32_sub_def)

lemma u64_add_id: "a + b < 2 ^ 64 \<Longrightarrow> u64_add a b = a + b"
  by (simp add: u64_add_def)

lemma u64_add_bound [simp]: "u64_add a b < 2 ^ 64"
  by (simp add: u64_add_def)

lemma i32_div_nonneg [simp]: "0 \<le> a \<Longrightarrow> 0 < b \<Longrightarrow> i32_div a b = a div b"
  by (cases "a = 0") (simp_all add: i32_div_def)

lemma unat_u32_less: "unat (w :: 32 word) < 2 ^ 32"
  using unsigned_less [of w] by simp

lemma u32_bit_31: "bit (w :: 32 word) 31 \<longleftrightarrow> 2 ^ 31 \<le> unat w"
proof -
  have "bit w 31 \<longleftrightarrow> bit (unat w) 31" by (simp add: bit_unsigned_iff)
  also have "\<dots> \<longleftrightarrow> odd (unat w div 2 ^ 31)" by (rule bit_iff_odd)
  also have "\<dots> \<longleftrightarrow> 2 ^ 31 \<le> unat w"
  proof (cases "unat w < 2 ^ 31")
    case False
    then have "unat w div 2 ^ 31 = 1"
      using unat_u32_less [of w] by (intro div_nat_eqI) simp_all
    with False show ?thesis by simp
  qed simp
  finally show ?thesis .
qed

lemma u32_msb_clear: "and (w :: 32 word) 0x80000000 = 0 \<longleftrightarrow> unat w < 2 ^ 31"
proof -
  have "and w (2 ^ 31) = 0 \<longleftrightarrow> \<not> bit w 31" by (rule and_exp_eq_0_iff_not_bit)
  then show ?thesis by (simp add: u32_bit_31 not_le)
qed

section \<open>Finite maps\<close>

text \<open>
  A \<^verbatim>\<open>HashMap\<close> whose iteration order is never observed is a \<open>mapping\<close>. The number of
  entries is \<open>Mapping.size\<close>.
\<close>

definition map_len :: "('k, 'v) mapping \<Rightarrow> nat" where
  "map_len m = Mapping.size m"

definition finite_keys :: "('k, 'v) mapping \<Rightarrow> bool" where
  "finite_keys m \<longleftrightarrow> finite (Mapping.keys m)"

lemma map_len_card: "map_len m = card (Mapping.keys m)"
  by (simp add: map_len_def Mapping.size_def)

lemma map_len_empty [simp]: "map_len Mapping.empty = 0"
  by (simp add: map_len_card)

lemma keys_lookup: "k \<in> Mapping.keys m \<longleftrightarrow> Mapping.lookup m k \<noteq> None"
  by (simp add: keys_is_none_rep Option.is_none_def)

lemma lookup_delete_if: "Mapping.lookup (Mapping.delete k m) x = (if x = k then None else Mapping.lookup m x)"
  by (simp add: lookup_delete lookup_delete_neq)

lemma finite_keys_empty [simp]: "finite_keys Mapping.empty"
  by (simp add: finite_keys_def)

lemma finite_keys_update [simp]: "finite_keys m \<Longrightarrow> finite_keys (Mapping.update k v m)"
  by (simp add: finite_keys_def)

lemma finite_keys_delete [simp]: "finite_keys m \<Longrightarrow> finite_keys (Mapping.delete k m)"
  by (simp add: finite_keys_def)

lemma keys_filter_subset: "Mapping.keys (Mapping.filter P m) \<subseteq> Mapping.keys m"
  by (auto simp: keys_lookup lookup_filter split: option.splits)

lemma finite_keys_filter [simp]: "finite_keys m \<Longrightarrow> finite_keys (Mapping.filter P m)"
  unfolding finite_keys_def by (rule finite_subset [OF keys_filter_subset])

lemma map_len_filter_le: "finite_keys m \<Longrightarrow> map_len (Mapping.filter P m) \<le> map_len m"
  unfolding map_len_card finite_keys_def by (rule card_mono) (auto intro: keys_filter_subset [THEN subsetD])

lemma map_len_update:
  "finite_keys m \<Longrightarrow> map_len (Mapping.update k v m) =
     (if Mapping.lookup m k = None then Suc (map_len m) else map_len m)"
  by (auto simp: map_len_card finite_keys_def keys_lookup card_insert_if)

lemma map_len_update_le: "finite_keys m \<Longrightarrow> map_len (Mapping.update k v m) \<le> Suc (map_len m)"
  by (simp add: map_len_update)

lemma map_len_delete_le: "finite_keys m \<Longrightarrow> map_len (Mapping.delete k m) \<le> map_len m"
  unfolding map_len_card finite_keys_def by (rule card_mono) auto

section \<open>Components as machines\<close>

text \<open>
  A component is a state, a step per event, a set of admissible events and an invariant. What the
  component theory proves once per operation holds after every sequence of operations.
\<close>

locale machine =
  fixes step :: "'s \<Rightarrow> 'e \<Rightarrow> 's"
    and admissible :: "'e \<Rightarrow> bool"
    and inv :: "'s \<Rightarrow> bool"
  assumes step_inv: "inv s \<Longrightarrow> admissible e \<Longrightarrow> inv (step s e)"
begin

lemma run_inv: "inv s \<Longrightarrow> list_all admissible es \<Longrightarrow> inv (foldl step s es)"
  by (induction es arbitrary: s) (auto intro: step_inv)

lemma run_prefix_inv:
  assumes "inv s" "list_all admissible es"
  shows "inv (foldl step s (take n es))"
proof -
  have "list_all admissible (take n es)"
    using assms(2) by (auto simp: list_all_iff dest: in_set_takeD)
  with assms(1) show ?thesis by (rule run_inv)
qed

end

text \<open>
  A quantity that no step of the machine lowers: the counters and deadlines of the components.
\<close>

locale monotone_machine = machine +
  fixes level :: "'s \<Rightarrow> 'l::preorder"
  assumes step_level: "inv s \<Longrightarrow> admissible e \<Longrightarrow> level s \<le> level (step s e)"
begin

lemma run_level: "inv s \<Longrightarrow> list_all admissible es \<Longrightarrow> level s \<le> level (foldl step s es)"
proof (induction es arbitrary: s)
  case Nil
  then show ?case by simp
next
  case (Cons e es)
  then have "level s \<le> level (step s e)" "inv (step s e)"
    by (auto intro: step_level step_inv)
  with Cons show ?case by (auto intro: order_trans)
qed

end

section \<open>Keeping the first strictly best element\<close>

text \<open>
  The selectors walk the links in order, skip the ones that may not be used, and replace the current
  best only by a strictly better score. \<open>sc\<close> is \<open>None\<close> for a skipped link.
\<close>

fun scan_best ::
  "('s \<Rightarrow> 's \<Rightarrow> bool) \<Rightarrow> ('a \<Rightarrow> 's option) \<Rightarrow> nat \<Rightarrow> nat option \<Rightarrow> 's \<Rightarrow> 'a list \<Rightarrow> nat option \<times> 's"
where
  "scan_best gt sc i bi bs [] = (bi, bs)"
| "scan_best gt sc i bi bs (c # cs) =
     (case sc c of
        None \<Rightarrow> scan_best gt sc (Suc i) bi bs cs
      | Some s \<Rightarrow> if gt s bs then scan_best gt sc (Suc i) (Some i) s cs
                  else scan_best gt sc (Suc i) bi bs cs)"

text \<open>What a scan that started at position \<open>i\<close> with best score \<open>bs\<close> has found.\<close>

definition scan_found ::
  "('s \<Rightarrow> 's \<Rightarrow> bool) \<Rightarrow> ('a \<Rightarrow> 's option) \<Rightarrow> nat \<Rightarrow> 's \<Rightarrow> 'a list \<Rightarrow> nat option \<Rightarrow> 's \<Rightarrow> bool"
where
  "scan_found gt sc i bs cs r s \<longleftrightarrow>
     (\<exists>k < length cs. r = Some (i + k) \<and> sc (cs ! k) = Some s \<and> gt s bs)"

locale scan_order =
  fixes gt :: "'s \<Rightarrow> 's \<Rightarrow> bool"
  assumes gt_irrefl: "\<not> gt a a"
    and gt_trans: "gt a b \<Longrightarrow> gt b c \<Longrightarrow> gt a c"
begin

lemma scan_found_shift:
  assumes "scan_found gt sc (Suc i) b cs r s" "b = bs \<or> gt b bs"
  shows "scan_found gt sc i bs (c # cs) r s"
proof -
  from assms(1) obtain k where "k < length cs" "r = Some (Suc i + k)" "sc (cs ! k) = Some s" "gt s b"
    by (auto simp: scan_found_def)
  moreover from \<open>gt s b\<close> assms(2) have "gt s bs" by (auto dest: gt_trans)
  ultimately show ?thesis unfolding scan_found_def by (intro exI [of _ "Suc k"]) simp
qed

lemma scan_found_here: "sc c = Some s \<Longrightarrow> gt s bs \<Longrightarrow> scan_found gt sc i bs (c # cs) (Some i) s"
  unfolding scan_found_def by (intro exI [of _ 0]) simp

lemma scan_result:
  assumes "scan_best gt sc i bi bs cs = (r, s)"
  shows "(r = bi \<and> s = bs) \<or> scan_found gt sc i bs cs r s"
  using assms
proof (induction cs arbitrary: i bi bs)
  case Nil
  then show ?case by simp
next
  case (Cons c cs)
  then show ?case
    by (fastforce split: option.splits if_splits dest: Cons.IH intro: scan_found_shift scan_found_here)
qed

lemma scan_grows: "scan_best gt sc i bi bs cs = (r, s) \<Longrightarrow> s = bs \<or> gt s bs"
  using scan_result by (fastforce simp: scan_found_def)

lemma scan_max:
  assumes "scan_best gt sc i bi bs cs = (r, s)" "c \<in> set cs" "sc c = Some t"
  shows "\<not> gt t s"
  using assms
proof (induction cs arbitrary: i bi bs)
  case Nil
  then show ?case by simp
next
  case (Cons d cs)
  show ?case
  proof (cases "c = d")
    case True
    with Cons.prems have "\<exists>j bj b. scan_best gt sc j bj b cs = (r, s) \<and> \<not> gt t b"
      by (simp split: if_splits) (use gt_irrefl in blast)+
    then show ?thesis by (auto dest!: scan_grows dest: gt_trans)
  next
    case False
    with Cons show ?thesis by (auto split: option.splits if_splits)
  qed
qed

lemma scan_none:
  assumes "scan_best gt sc i None bs cs = (None, s)" "c \<in> set cs" "sc c = Some t"
  shows "\<not> gt t bs"
proof -
  from scan_result [OF assms(1)] have "s = bs" by (auto simp: scan_found_def)
  with scan_max [OF assms] show ?thesis by simp
qed

lemma scan_some_if:
  assumes "c \<in> set cs" "sc c = Some t" "gt t bs"
  shows "\<exists>k s. scan_best gt sc i None bs cs = (Some k, s)"
proof (cases "fst (scan_best gt sc i None bs cs)")
  case None
  then have "scan_best gt sc i None bs cs = (None, snd (scan_best gt sc i None bs cs))"
    by (simp add: prod_eq_iff)
  from scan_none [OF this assms(1,2)] assms(3) show ?thesis by simp
next
  case (Some k)
  then show ?thesis by (metis prod.collapse)
qed

end

text \<open>On a linear order the scan also takes the earliest of the best elements.\<close>

locale scan_total = scan_order +
  assumes gt_total: "a \<noteq> b \<Longrightarrow> gt a b \<or> gt b a"
begin

lemma scan_first:
  assumes "scan_best gt sc i bi bs cs = (Some r, s)" "bi = None \<or> (\<exists>b < i. bi = Some b)"
    and "i + j < r" "j < length cs" "sc (cs ! j) = Some t"
  shows "gt s t"
  using assms
proof (induction cs arbitrary: i bi bs j)
  case Nil
  then show ?case by simp
next
  case (Cons c cs)
  obtain bj b where step: "scan_best gt sc (Suc i) bj b cs = (Some r, s)"
    and bj: "bj = None \<or> (\<exists>b < Suc i. bj = Some b)"
    and cb: "\<And>u. sc c = Some u \<Longrightarrow> \<not> gt u b"
    using Cons.prems(1,2) by (auto split: option.splits if_splits simp: gt_irrefl dest: less_SucI)
  show ?case
  proof (cases j)
    case 0
    with Cons.prems(3) bj have "bj \<noteq> Some r" by auto
    with scan_result [OF step] have "gt s b" by (auto simp: scan_found_def)
    moreover from 0 Cons.prems(5) cb have "\<not> gt t b" by simp
    ultimately show ?thesis by (metis gt_total gt_trans)
  next
    case (Suc j')
    with Cons.prems(3,4,5) Cons.IH [OF step bj, of j'] show ?thesis by simp
  qed
qed

end

interpretation int_scan: scan_total "(>) :: int \<Rightarrow> int \<Rightarrow> bool"
  by unfold_locales auto

end
