(* ===== verification/Protocol.thy ===== *)
theory Protocol
  imports Prelude
begin

unbundle bit_operations_syntax

text \<open>
  The wire protocol (\<^verbatim>\<open>crates/srtla-protocol\<close>): constants, packet-type helpers, the builders and the
  parsers. A packet is a list of bytes; a multi-byte field is read and written big-endian by
  \<open>from_be\<close> and \<open>to_be\<close>. A parser returns \<open>None\<close> (or the empty list) exactly where the
  Rust function returns it. The loops over a packet recurse on the bytes not yet read.

  The lemmas show that the parsers invert the builders, that a NAK decodes to the loss list it
  encodes, which ids a NAK can produce and how many, and that the handshake walk finds the latency
  block behind any other extension blocks.
\<close>

named_theorems protocol_consts \<open>constants of the wire format\<close>

section \<open>Constants\<close>

definition SRTLA_TYPE_KEEPALIVE :: u16 where [protocol_consts]: "SRTLA_TYPE_KEEPALIVE = 0x9000"
definition SRTLA_TYPE_ACK :: u16 where [protocol_consts]: "SRTLA_TYPE_ACK = 0x9100"
definition SRTLA_TYPE_REG1 :: u16 where [protocol_consts]: "SRTLA_TYPE_REG1 = 0x9200"
definition SRTLA_TYPE_REG2 :: u16 where [protocol_consts]: "SRTLA_TYPE_REG2 = 0x9201"
definition SRTLA_TYPE_REG3 :: u16 where [protocol_consts]: "SRTLA_TYPE_REG3 = 0x9202"
definition SRTLA_TYPE_REG_ERR :: u16 where [protocol_consts]: "SRTLA_TYPE_REG_ERR = 0x9210"
definition SRTLA_TYPE_REG_NGP :: u16 where [protocol_consts]: "SRTLA_TYPE_REG_NGP = 0x9211"

definition SRT_TYPE_HANDSHAKE :: u16 where [protocol_consts]: "SRT_TYPE_HANDSHAKE = 0x8000"
definition SRT_TYPE_ACK :: u16 where [protocol_consts]: "SRT_TYPE_ACK = 0x8002"
definition SRT_TYPE_NAK :: u16 where [protocol_consts]: "SRT_TYPE_NAK = 0x8003"

definition SRT_CONTROL_HEADER_LEN :: usize where [protocol_consts]: "SRT_CONTROL_HEADER_LEN = 16"
definition SRT_HANDSHAKE_CIF_LEN :: usize where [protocol_consts]: "SRT_HANDSHAKE_CIF_LEN = 48"
definition SRT_HS_VERSION_5 :: u32 where [protocol_consts]: "SRT_HS_VERSION_5 = 5"
definition SRT_HS_REQTYPE_CONCLUSION :: int where [protocol_consts]: "SRT_HS_REQTYPE_CONCLUSION = -1"
definition SRT_HS_EXT_FLAG_HSREQ :: u32 where [protocol_consts]: "SRT_HS_EXT_FLAG_HSREQ = 1"
definition SRT_HS_EXT_CMD_HSREQ :: u16 where [protocol_consts]: "SRT_HS_EXT_CMD_HSREQ = 1"
definition SRT_HS_EXT_CMD_HSRSP :: u16 where [protocol_consts]: "SRT_HS_EXT_CMD_HSRSP = 2"
definition SRT_HS_EXT_HSREQ_WORDS :: usize where [protocol_consts]: "SRT_HS_EXT_HSREQ_WORDS = 3"
definition SRT_HS_OPT_TSBPDSND :: u32 where [protocol_consts]: "SRT_HS_OPT_TSBPDSND = 1"
definition SRT_HS_OPT_TSBPDRCV :: u32 where [protocol_consts]: "SRT_HS_OPT_TSBPDRCV = 2"

definition SRTLA_ID_LEN :: usize where [protocol_consts]: "SRTLA_ID_LEN = 256"
definition SRTLA_TYPE_REG1_LEN :: usize where [protocol_consts]: "SRTLA_TYPE_REG1_LEN = 258"
definition SRTLA_TYPE_REG2_LEN :: usize where [protocol_consts]: "SRTLA_TYPE_REG2_LEN = 258"
definition SRTLA_TYPE_REG3_LEN :: usize where [protocol_consts]: "SRTLA_TYPE_REG3_LEN = 2"

definition CONN_TIMEOUT :: u64 where [protocol_consts]: "CONN_TIMEOUT = 5"
definition REG2_TIMEOUT :: u64 where [protocol_consts]: "REG2_TIMEOUT = 4"
definition REG3_TIMEOUT :: u64 where [protocol_consts]: "REG3_TIMEOUT = 4"
definition IDLE_TIME :: u64 where [protocol_consts]: "IDLE_TIME = 1"

definition WINDOW_MIN :: i32 where [protocol_consts]: "WINDOW_MIN = 1"
definition WINDOW_DEF :: i32 where [protocol_consts]: "WINDOW_DEF = 20"
definition WINDOW_MAX :: i32 where [protocol_consts]: "WINDOW_MAX = 60"
definition WINDOW_MULT :: i32 where [protocol_consts]: "WINDOW_MULT = 1000"
definition WINDOW_DECR :: i32 where [protocol_consts]: "WINDOW_DECR = 100"
definition WINDOW_INCR :: i32 where [protocol_consts]: "WINDOW_INCR = 30"

definition SRTLA_KEEPALIVE_MAGIC :: u16 where [protocol_consts]: "SRTLA_KEEPALIVE_MAGIC = 0xc01f"
definition SRTLA_KEEPALIVE_EXT_LEN :: usize where [protocol_consts]: "SRTLA_KEEPALIVE_EXT_LEN = 38"
definition SRTLA_KEEPALIVE_EXT_VERSION :: u16 where [protocol_consts]: "SRTLA_KEEPALIVE_EXT_VERSION = 1"

section \<open>Big-endian fields\<close>

primrec to_be :: "nat \<Rightarrow> 'a::len word \<Rightarrow> bytes" where
  "to_be 0 w = []"
| "to_be (Suc n) w = to_be n (drop_bit 8 w) @ [ucast w]"

definition from_be :: "bytes \<Rightarrow> 'a::len word" where
  "from_be bs = foldl (\<lambda>acc b. push_bit 8 acc OR ucast b) 0 bs"

text \<open>The \<open>n\<close> bytes at offset \<open>i\<close>.\<close>

definition slice :: "bytes \<Rightarrow> nat \<Rightarrow> nat \<Rightarrow> bytes" where
  "slice buf i n = take n (drop i buf)"

lemma length_to_be [simp]: "length (to_be n w) = n"
  by (induction n arbitrary: w) auto

lemma from_be_snoc: "from_be (bs @ [b]) = push_bit 8 (from_be bs) OR ucast b"
  by (simp add: from_be_def)

lemma from_be_to_be: "from_be (to_be n w) = take_bit (8 * n) (w :: 'a::len word)"
proof (induction n arbitrary: w)
  case 0
  then show ?case by (simp add: from_be_def)
next
  case (Suc n)
  show ?case
    unfolding to_be.simps from_be_snoc Suc
    by (rule bit_word_eqI) (auto simp: bit_simps)
qed

lemma from_be_to_be_id: "8 * n = LENGTH('a) \<Longrightarrow> from_be (to_be n w) = (w :: 'a::len word)"
  by (simp add: from_be_to_be)

lemma to_be_from_be:
  "8 * length bs \<le> LENGTH('a) \<Longrightarrow> to_be (length bs) (from_be bs :: 'a::len word) = bs"
proof (induction bs rule: rev_induct)
  case Nil
  then show ?case by simp
next
  case (snoc b bs)
  have bnd: "\<not> bit (from_be bs :: 'a word) i" if "8 * length bs \<le> i" for i
    using that
  proof (induction bs arbitrary: i rule: rev_induct)
    case Nil
    then show ?case by (simp add: from_be_def)
  next
    case (snoc c bs)
    then show ?case by (auto simp: from_be_snoc bit_simps dest: bit_imp_le_length)
  qed
  have "drop_bit 8 (push_bit 8 (from_be bs) OR ucast b) = (from_be bs :: 'a word)"
  proof (rule bit_word_eqI)
    fix n
    have "n < 8 * length bs" if "bit (from_be bs :: 'a word) n"
      using that bnd by (meson not_le)
    then show "bit (drop_bit 8 (push_bit 8 (from_be bs) OR ucast b) :: 'a word) n = bit (from_be bs :: 'a word) n"
      using snoc.prems by (auto simp: bit_simps dest: bit_imp_le_length)
  qed
  moreover have "ucast (push_bit 8 (from_be bs :: 'a word) OR ucast b) = b"
    using snoc.prems by (intro bit_word_eqI) (auto simp: bit_simps)
  ultimately show ?case using snoc by (simp add: from_be_snoc)
qed

lemma slice_append_skip [simp]: "length a = i \<Longrightarrow> slice (a @ b) i n = take n b"
  by (simp add: slice_def)

section \<open>Packet types and helpers\<close>

record ConnectionInfo =
  ci_conn_id :: u32
  ci_window :: u32
  ci_in_flight :: u32
  ci_rtt_ms :: u32
  ci_nak_count :: u32
  ci_bitrate_bytes_per_sec :: u32

record SrtHandshakeLatency =
  is_response :: bool
  rcv_ms :: "u16 option"
  snd_ms :: "u16 option"

definition get_packet_type :: "bytes \<Rightarrow> u16 option" where
  "get_packet_type buf = (if length buf < 2 then None else Some (from_be (slice buf 0 2)))"

definition get_srt_sequence_number :: "bytes \<Rightarrow> u32 option" where
  "get_srt_sequence_number buf =
     (if length buf < 4 then None
      else let sn = from_be (slice buf 0 4) in
        if sn AND 0x80000000 = 0 then Some sn else None)"

definition is_srtla_reg1 :: "bytes \<Rightarrow> bool" where
  "is_srtla_reg1 buf \<longleftrightarrow> length buf = SRTLA_TYPE_REG1_LEN \<and> get_packet_type buf = Some SRTLA_TYPE_REG1"

definition is_srtla_reg2 :: "bytes \<Rightarrow> bool" where
  "is_srtla_reg2 buf \<longleftrightarrow> length buf = SRTLA_TYPE_REG2_LEN \<and> get_packet_type buf = Some SRTLA_TYPE_REG2"

definition is_srtla_reg3 :: "bytes \<Rightarrow> bool" where
  "is_srtla_reg3 buf \<longleftrightarrow> length buf = SRTLA_TYPE_REG3_LEN \<and> get_packet_type buf = Some SRTLA_TYPE_REG3"

definition is_srtla_keepalive :: "bytes \<Rightarrow> bool" where
  "is_srtla_keepalive buf \<longleftrightarrow> get_packet_type buf = Some SRTLA_TYPE_KEEPALIVE"

definition is_srt_ack :: "bytes \<Rightarrow> bool" where
  "is_srt_ack buf \<longleftrightarrow> get_packet_type buf = Some SRT_TYPE_ACK"

definition is_srt_data_retransmit :: "bytes \<Rightarrow> bool" where
  "is_srt_data_retransmit buf \<longleftrightarrow>
     8 \<le> length buf \<and> (buf ! 0) AND 0x80 = 0 \<and> (buf ! 4) AND 0x04 \<noteq> 0"

definition set_srt_data_retransmit :: "bytes \<Rightarrow> bytes" where
  "set_srt_data_retransmit buf =
     (if 8 \<le> length buf \<and> (buf ! 0) AND 0x80 = 0 then buf[4 := (buf ! 4) OR 0x04] else buf)"

section \<open>Builders\<close>

definition create_reg1_packet :: "bytes \<Rightarrow> bytes" where
  "create_reg1_packet ident = to_be 2 SRTLA_TYPE_REG1 @ ident"

definition create_reg2_packet :: "bytes \<Rightarrow> bytes" where
  "create_reg2_packet ident = to_be 2 SRTLA_TYPE_REG2 @ ident"

definition create_keepalive_packet :: "u64 \<Rightarrow> bytes" where
  "create_keepalive_packet now = to_be 2 SRTLA_TYPE_KEEPALIVE @ to_be 8 (of_nat now :: 64 word)"

definition create_keepalive_packet_ext :: "ConnectionInfo \<Rightarrow> u64 \<Rightarrow> bytes" where
  "create_keepalive_packet_ext info now =
     to_be 2 SRTLA_TYPE_KEEPALIVE @ to_be 8 (of_nat now :: 64 word) @
     to_be 2 SRTLA_KEEPALIVE_MAGIC @ to_be 2 SRTLA_KEEPALIVE_EXT_VERSION @
     to_be 4 (ci_conn_id info) @ to_be 4 (ci_window info) @ to_be 4 (ci_in_flight info) @
     to_be 4 (ci_rtt_ms info) @ to_be 4 (ci_nak_count info) @
     to_be 4 (ci_bitrate_bytes_per_sec info)"

definition create_ack_packet :: "u32 list \<Rightarrow> bytes" where
  "create_ack_packet acks = to_be 2 SRTLA_TYPE_ACK @ [0, 0] @ concat (map (to_be 4) acks)"

section \<open>Parsers\<close>

definition be32 :: "bytes \<Rightarrow> usize \<Rightarrow> u32 option" where
  "be32 buf off = (if off + 4 \<le> length buf then Some (from_be (slice buf off 4)) else None)"

text \<open>The walk over the extension blocks: \<open>rest\<close> is what follows the blocks already skipped.\<close>

function hs_blocks :: "bytes \<Rightarrow> SrtHandshakeLatency option" where
  "hs_blocks rest =
     (if length rest < 4 then None
      else let spec = from_be (slice rest 0 4) :: u32;
               cmd = ucast (drop_bit 16 spec) :: u16;
               block_len = unat (spec AND 0xffff) * 4
        in if length rest < 4 + block_len then None
           else let block = slice rest 4 block_len in
             if cmd = SRT_HS_EXT_CMD_HSREQ \<or> cmd = SRT_HS_EXT_CMD_HSRSP then
               (if length block < SRT_HS_EXT_HSREQ_WORDS * 4 then None
                else case (be32 block 4, be32 block 8) of
                  (Some flags, Some latency) \<Rightarrow>
                    Some \<lparr>is_response = (cmd = SRT_HS_EXT_CMD_HSRSP),
                          rcv_ms = (if flags AND SRT_HS_OPT_TSBPDRCV \<noteq> 0
                                    then Some (ucast (drop_bit 16 latency)) else None),
                          snd_ms = (if flags AND SRT_HS_OPT_TSBPDSND \<noteq> 0
                                    then Some (ucast (latency AND 0xffff)) else None)\<rparr>
                | _ \<Rightarrow> None)
             else hs_blocks (drop (4 + block_len) rest))"
  by pat_completeness auto
termination
  by (relation "measure length") auto

declare hs_blocks.simps [simp del]

definition parse_srt_handshake_latency :: "bytes \<Rightarrow> SrtHandshakeLatency option" where
  "parse_srt_handshake_latency buf =
     (if get_packet_type buf \<noteq> Some SRT_TYPE_HANDSHAKE then None
      else if length buf < SRT_CONTROL_HEADER_LEN then None
      else let body = drop SRT_CONTROL_HEADER_LEN buf in
        if length body < SRT_HANDSHAKE_CIF_LEN then None
        else if be32 body 0 \<noteq> Some SRT_HS_VERSION_5 then None
        else case be32 body 20 of
          None \<Rightarrow> None
        | Some reqtype \<Rightarrow>
            if sint reqtype \<noteq> SRT_HS_REQTYPE_CONCLUSION then None
            else case be32 body 4 of
              None \<Rightarrow> None
            | Some ext \<Rightarrow>
                if (ext AND 0xffff) AND SRT_HS_EXT_FLAG_HSREQ = 0 then None
                else hs_blocks (drop SRT_HANDSHAKE_CIF_LEN body))"

definition extract_keepalive_timestamp :: "bytes \<Rightarrow> u64 option" where
  "extract_keepalive_timestamp buf =
     (if length buf < 10 then None
      else if get_packet_type buf \<noteq> Some SRTLA_TYPE_KEEPALIVE then None
      else Some (unat (from_be (slice buf 2 8) :: 64 word)))"

definition extract_keepalive_conn_info :: "bytes \<Rightarrow> ConnectionInfo option" where
  "extract_keepalive_conn_info buf =
     (if length buf < SRTLA_KEEPALIVE_EXT_LEN then None
      else if get_packet_type buf \<noteq> Some SRTLA_TYPE_KEEPALIVE then None
      else if from_be (slice buf 10 2) \<noteq> SRTLA_KEEPALIVE_MAGIC then None
      else if from_be (slice buf 12 2) \<noteq> SRTLA_KEEPALIVE_EXT_VERSION then None
      else Some \<lparr>ci_conn_id = from_be (slice buf 14 4), ci_window = from_be (slice buf 18 4),
                 ci_in_flight = from_be (slice buf 22 4), ci_rtt_ms = from_be (slice buf 26 4),
                 ci_nak_count = from_be (slice buf 30 4),
                 ci_bitrate_bytes_per_sec = from_be (slice buf 34 4)\<rparr>)"

definition parse_srt_ack :: "bytes \<Rightarrow> u32 option" where
  "parse_srt_ack buf =
     (if length buf < 20 then None
      else if get_packet_type buf \<noteq> Some SRT_TYPE_ACK then None
      else Some (from_be (slice buf 16 4)))"

definition SRT_NAK_RANGE_FLAG :: u32 where
  [protocol_consts]: "SRT_NAK_RANGE_FLAG = 0x80000000"

definition SRT_NAK_MAX_LOSS_IDS :: usize where
  [protocol_consts]: "SRT_NAK_MAX_LOSS_IDS = 1000"

text \<open>The inner \<^verbatim>\<open>loop\<close> of \<^verbatim>\<open>parse_srt_nak\<close>, then its outer \<^verbatim>\<open>while\<close>.\<close>

function nak_expand :: "u32 list \<Rightarrow> u32 \<Rightarrow> u32 \<Rightarrow> u32 list" where
  "nak_expand out seq end' =
     (if SRT_NAK_MAX_LOSS_IDS \<le> length out then out
      else if seq = end' then out @ [seq]
      else nak_expand (out @ [seq]) (seq + 1) end')"
  by pat_completeness auto
termination
  by (relation "measure (\<lambda>(out, _, _). SRT_NAK_MAX_LOSS_IDS - length out)") auto

declare nak_expand.simps [simp del]

function nak_loop :: "u32 list \<Rightarrow> bytes \<Rightarrow> u32 list" where
  "nak_loop out rest =
     (if length rest < 4 then out
      else let ident = from_be (slice rest 0 4) :: u32; rest1 = drop 4 rest in
        if ident AND SRT_NAK_RANGE_FLAG = 0 then nak_loop (out @ [ident]) rest1
        else let start = ident AND NOT SRT_NAK_RANGE_FLAG in
          if length rest1 < 4 then out
          else let end' = from_be (slice rest1 0 4) :: u32; rest2 = drop 4 rest1 in
            if end' AND SRT_NAK_RANGE_FLAG \<noteq> 0 \<or> end' < start then nak_loop out rest2
            else nak_loop (nak_expand out start end') rest2)"
  by pat_completeness auto
termination
  by (relation "measure (\<lambda>(_, rest). length rest)") auto

declare nak_loop.simps [simp del]

definition parse_srt_nak :: "bytes \<Rightarrow> u32 list" where
  "parse_srt_nak buf =
     (if length buf < SRT_CONTROL_HEADER_LEN + 4 then []
      else if get_packet_type buf \<noteq> Some SRT_TYPE_NAK then []
      else nak_loop [] (drop SRT_CONTROL_HEADER_LEN buf))"

function ack_loop :: "bytes \<Rightarrow> u32 list" where
  "ack_loop rest =
     (if length rest < 4 then [] else from_be (slice rest 0 4) # ack_loop (drop 4 rest))"
  by pat_completeness auto
termination
  by (relation "measure length") auto

declare ack_loop.simps [simp del]

definition parse_srtla_ack :: "bytes \<Rightarrow> u32 list" where
  "parse_srtla_ack buf =
     (if length buf < 8 then []
      else if get_packet_type buf \<noteq> Some SRTLA_TYPE_ACK then []
      else ack_loop (drop 4 buf))"

section \<open>Parsers invert builders\<close>

lemmas from_be_to_be_width [simp] =
  from_be_to_be_id [where 'a = 16 and n = 2, simplified]
  from_be_to_be_id [where 'a = 32 and n = 4, simplified]
  from_be_to_be_id [where 'a = 64 and n = 8, simplified]

lemma get_packet_type_to_be [simp]: "get_packet_type (to_be 2 t @ xs) = Some t"
  by (simp add: get_packet_type_def slice_def)

lemma take_4_to_be [simp]: "take 4 (to_be 4 w @ xs) = to_be 4 w"
  by simp

lemma ack_loop_concat: "ack_loop (concat (map (to_be 4) acks)) = acks"
proof (induction acks)
  case Nil
  then show ?case by (simp add: ack_loop.simps)
next
  case (Cons a acks)
  then show ?case by (subst ack_loop.simps) (simp add: slice_def)
qed

text \<open>An extended keepalive carries its connection info, its timestamp and its type: what the
  receiver extracts is what the sender put in, and an old receiver that reads only the first ten bytes
  reads the same timestamp.\<close>

theorem keepalive_ext_roundtrip:
  assumes "now < 2 ^ 64"
  shows "extract_keepalive_conn_info (create_keepalive_packet_ext info now) = Some info \<and>
    extract_keepalive_timestamp (create_keepalive_packet_ext info now) = Some now \<and>
    extract_keepalive_timestamp (take 10 (create_keepalive_packet_ext info now)) = Some now \<and>
    length (create_keepalive_packet_ext info now) = SRTLA_KEEPALIVE_EXT_LEN"
  using assms
  by (simp add: extract_keepalive_conn_info_def extract_keepalive_timestamp_def
      create_keepalive_packet_ext_def slice_def get_packet_type_def SRTLA_KEEPALIVE_EXT_LEN_def
      unat_of_nat)

theorem keepalive_ext_roundtrip_witness:
  "extract_keepalive_conn_info (create_keepalive_packet_ext
      \<lparr>ci_conn_id = 42, ci_window = 25000, ci_in_flight = 8, ci_rtt_ms = 120, ci_nak_count = 5,
       ci_bitrate_bytes_per_sec = 2500000\<rparr> 123456) =
    Some \<lparr>ci_conn_id = 42, ci_window = 25000, ci_in_flight = 8, ci_rtt_ms = 120, ci_nak_count = 5,
       ci_bitrate_bytes_per_sec = 2500000\<rparr>"
  using keepalive_ext_roundtrip [of 123456 "\<lparr>ci_conn_id = 42, ci_window = 25000, ci_in_flight = 8,
    ci_rtt_ms = 120, ci_nak_count = 5, ci_bitrate_bytes_per_sec = 2500000\<rparr>"]
  by simp

lemma keepalive_std_roundtrip:
  "now < 2 ^ 64 \<Longrightarrow> extract_keepalive_timestamp (create_keepalive_packet now) = Some now"
  "extract_keepalive_conn_info (create_keepalive_packet now) = None"
  by (simp_all add: extract_keepalive_timestamp_def extract_keepalive_conn_info_def
      create_keepalive_packet_def slice_def get_packet_type_def unat_of_nat protocol_consts)

text \<open>The SRTLA ACK parser inverts the ACK builder for every list of sequence numbers.\<close>

theorem srtla_ack_roundtrip: "parse_srtla_ack (create_ack_packet acks) = acks"
proof (cases acks)
  case Nil
  then show ?thesis by (simp add: parse_srtla_ack_def create_ack_packet_def)
next
  case (Cons a as)
  then have "\<not> length (create_ack_packet acks) < 8"
    by (simp add: create_ack_packet_def)
  moreover have "drop 4 (create_ack_packet acks) = concat (map (to_be 4) acks)"
    by (simp add: create_ack_packet_def)
  ultimately show ?thesis
    by (simp add: parse_srtla_ack_def ack_loop_concat) (simp add: create_ack_packet_def)
qed

section \<open>The NAK loss list\<close>

text \<open>
  The loss list as SRT defines it: single sequence numbers and inclusive ranges of 31-bit sequence
  numbers. \<open>loss_words\<close> is its encoding, \<open>loss_ids\<close> the sequence numbers it reports.
\<close>

datatype loss = Single u32 | Range u32 u32

fun valid_loss :: "loss \<Rightarrow> bool" where
  "valid_loss (Single a) \<longleftrightarrow> a AND SRT_NAK_RANGE_FLAG = 0"
| "valid_loss (Range a b) \<longleftrightarrow> a AND SRT_NAK_RANGE_FLAG = 0 \<and> b AND SRT_NAK_RANGE_FLAG = 0 \<and> a \<le> b"

fun loss_words :: "loss \<Rightarrow> u32 list" where
  "loss_words (Single a) = [a]"
| "loss_words (Range a b) = [a OR SRT_NAK_RANGE_FLAG, b]"

fun loss_ids :: "loss \<Rightarrow> u32 list" where
  "loss_ids (Single a) = [a]"
| "loss_ids (Range a b) = map of_nat [unat a..<Suc (unat b)]"

definition loss_bytes :: "loss list \<Rightarrow> bytes" where
  "loss_bytes ls = concat (map (\<lambda>l. concat (map (to_be 4) (loss_words l))) ls)"

lemma nak_expand_spec:
  "seq \<le> end' \<Longrightarrow> nak_expand out seq end' =
     out @ take (SRT_NAK_MAX_LOSS_IDS - length out) (map of_nat [unat seq..<Suc (unat end')])"
proof (induction out seq end' rule: nak_expand.induct)
  case (1 out seq end')
  show ?case
  proof (cases "SRT_NAK_MAX_LOSS_IDS \<le> length out")
    case True
    then show ?thesis by (simp add: nak_expand.simps)
  next
    case False
    then obtain m where m: "SRT_NAK_MAX_LOSS_IDS - length out = Suc m"
      by (metis Suc_diff_Suc not_le)
    then have m': "SRT_NAK_MAX_LOSS_IDS - length (out @ [seq]) = m" by simp
    show ?thesis
    proof (cases "seq = end'")
      case True
      with False m show ?thesis by (simp add: nak_expand.simps)
    next
      case neq: False
      with "1.prems" have lt: "unat seq < unat end'" by (simp add: word_less_nat_alt [symmetric])
      moreover have "unat end' < 2 ^ 32" using unat_u32_less .
      ultimately have suc: "unat (seq + 1) = Suc (unat seq)" by (simp add: unat_word_ariths)
      with lt have le: "seq + 1 \<le> end'" by (simp add: word_le_nat_alt)
      have "[unat seq..<Suc (unat end')] = unat seq # [Suc (unat seq)..<Suc (unat end')]"
        using lt by (simp add: upt_conv_Cons)
      then show ?thesis
        using False neq "1.IH" [OF False neq le] m m' suc by (simp add: nak_expand.simps del: upt_Suc)
    qed
  qed
qed

lemma nak_expand_length: "length (nak_expand out seq end') \<le> max (length out) SRT_NAK_MAX_LOSS_IDS"
proof (induction out seq end' rule: nak_expand.induct)
  case (1 out seq end')
  then show ?case by (subst nak_expand.simps) auto
qed

lemma nak_loop_Single:
  assumes "a AND SRT_NAK_RANGE_FLAG = 0"
  shows "nak_loop out (to_be 4 a @ rest) = nak_loop (out @ [a]) rest"
  using assms by (subst nak_loop.simps) (simp add: slice_def)

lemma flag_or_and [simp]:
  "(a OR SRT_NAK_RANGE_FLAG) AND SRT_NAK_RANGE_FLAG \<noteq> 0"
  "a AND SRT_NAK_RANGE_FLAG = 0 \<Longrightarrow> (a OR SRT_NAK_RANGE_FLAG) AND NOT SRT_NAK_RANGE_FLAG = a"
proof -
  have "(a OR SRT_NAK_RANGE_FLAG) AND SRT_NAK_RANGE_FLAG = SRT_NAK_RANGE_FLAG"
    by (rule bit_word_eqI) (auto simp: bit_simps)
  then show "(a OR SRT_NAK_RANGE_FLAG) AND SRT_NAK_RANGE_FLAG \<noteq> 0"
    by (simp add: SRT_NAK_RANGE_FLAG_def)
next
  assume "a AND SRT_NAK_RANGE_FLAG = 0"
  then have "\<not> (bit a n \<and> bit SRT_NAK_RANGE_FLAG n)" for n
    by (metis bit_and_iff bit_0_eq bot_apply bot_bool_def)
  then show "(a OR SRT_NAK_RANGE_FLAG) AND NOT SRT_NAK_RANGE_FLAG = a"
    by (intro bit_word_eqI) (auto simp: bit_simps)
qed

lemma nak_loop_Range:
  assumes "valid_loss (Range a b)"
  shows "nak_loop out (to_be 4 (a OR SRT_NAK_RANGE_FLAG) @ to_be 4 b @ rest) =
     nak_loop (nak_expand out a b) rest"
proof -
  have "SRT_NAK_RANGE_FLAG \<noteq> 0" by (simp add: SRT_NAK_RANGE_FLAG_def)
  then show ?thesis
    using assms by (subst nak_loop.simps) (auto simp: slice_def Let_def not_less)
qed

lemma nak_loop_loss_bytes:
  assumes "\<forall>l \<in> set ls. valid_loss l" "length out + length (concat (map loss_ids ls)) \<le> SRT_NAK_MAX_LOSS_IDS"
  shows "nak_loop out (loss_bytes ls) = out @ concat (map loss_ids ls)"
  using assms
proof (induction ls arbitrary: out)
  case Nil
  then show ?case by (simp add: loss_bytes_def nak_loop.simps)
next
  case (Cons l ls)
  have rest: "nak_loop (out @ loss_ids l) (loss_bytes ls) = out @ concat (map loss_ids (l # ls))"
    using Cons.IH [of "out @ loss_ids l"] Cons.prems by simp
  show ?case
  proof (cases l)
    case (Single a)
    with Cons.prems rest show ?thesis by (simp add: loss_bytes_def nak_loop_Single)
  next
    case (Range a b)
    then have v: "valid_loss (Range a b)" using Cons.prems by simp
    have "nak_expand out a b = out @ loss_ids l"
      using nak_expand_spec [of a b out] v Cons.prems(2) Range by (simp del: upt_Suc)
    with Range rest nak_loop_Range [OF v, of out "loss_bytes ls"] show ?thesis
      by (simp add: loss_bytes_def)
  qed
qed

text \<open>C37: a NAK whose loss list holds at most a thousand sequence numbers decodes to exactly the
  sequence numbers it reports, in wire order.\<close>

theorem nak_roundtrip:
  assumes "length hdr = SRT_CONTROL_HEADER_LEN" "get_packet_type hdr = Some SRT_TYPE_NAK"
    and "\<forall>l \<in> set ls. valid_loss l" "length (concat (map loss_ids ls)) \<le> SRT_NAK_MAX_LOSS_IDS"
  shows "parse_srt_nak (hdr @ loss_bytes ls) = concat (map loss_ids ls)"
proof (cases ls)
  case Nil
  with assms(1) show ?thesis by (simp add: parse_srt_nak_def loss_bytes_def)
next
  case (Cons l rest)
  then have "4 \<le> length (loss_bytes ls)" by (cases l) (simp_all add: loss_bytes_def)
  moreover have "get_packet_type (hdr @ loss_bytes ls) = Some SRT_TYPE_NAK"
    using assms(1,2) by (simp add: get_packet_type_def slice_def SRT_CONTROL_HEADER_LEN_def)
  ultimately show ?thesis
    using assms nak_loop_loss_bytes [of ls "[]"] by (simp add: parse_srt_nak_def)
qed

theorem nak_roundtrip_witness:
  "parse_srt_nak ((to_be 2 SRT_TYPE_NAK @ replicate 14 0) @ loss_bytes [Single 50, Range 100 102, Single 60])
     = [50, 100, 101, 102, 60]"
  using nak_roundtrip [of "to_be 2 SRT_TYPE_NAK @ replicate 14 0" "[Single 50, Range 100 102, Single 60]"]
  by (simp add: protocol_consts upt_rec)

section \<open>What a NAK can produce\<close>

lemma nak_flag_clear: "x AND SRT_NAK_RANGE_FLAG = 0 \<longleftrightarrow> unat x < 2 ^ 31"
  by (simp add: SRT_NAK_RANGE_FLAG_def u32_msb_clear)

lemma nak_expand_msb_clear:
  assumes "end' AND SRT_NAK_RANGE_FLAG = 0" "seq \<le> end'" "\<forall>x \<in> set out. x AND SRT_NAK_RANGE_FLAG = 0"
  shows "\<forall>x \<in> set (nak_expand out seq end'). x AND SRT_NAK_RANGE_FLAG = 0"
proof -
  have "unat end' < 2 ^ 31" using assms(1) by (simp add: nak_flag_clear)
  moreover have "x \<in> set out \<or> (\<exists>n. x = of_nat n \<and> n \<le> unat end')"
    if "x \<in> set (nak_expand out seq end')" for x
    using that by (fastforce simp: nak_expand_spec [OF assms(2)] less_Suc_eq_le simp del: upt_Suc dest!: in_set_takeD)
  moreover have "unat (of_nat n :: u32) < 2 ^ 31" if "n < 2 ^ 31" for n
    using that by (simp add: unat_of_nat)
  ultimately show ?thesis
    using assms(3) by (metis nak_flag_clear le_less_trans)
qed

text \<open>The invariant rule of the outer loop: \<open>Q\<close> relates what is collected to the bytes still to
  read, and holds again after each of its three ways to continue.\<close>

lemma nak_loop_rule:
  assumes "Q out rest"
    and stop: "\<And>out rest. Q out rest \<Longrightarrow> R out"
    and single: "\<And>out rest x. Q out rest \<Longrightarrow> 4 \<le> length rest \<Longrightarrow> x AND SRT_NAK_RANGE_FLAG = 0 \<Longrightarrow>
      Q (out @ [x]) (drop 4 rest)"
    and skip: "\<And>out rest. Q out rest \<Longrightarrow> 8 \<le> length rest \<Longrightarrow> Q out (drop 4 (drop 4 rest))"
    and range: "\<And>out rest a b. Q out rest \<Longrightarrow> 8 \<le> length rest \<Longrightarrow> b AND SRT_NAK_RANGE_FLAG = 0 \<Longrightarrow>
      a \<le> b \<Longrightarrow> Q (nak_expand out a b) (drop 4 (drop 4 rest))"
  shows "R (nak_loop out rest)"
  using assms(1)
proof (induction out rest rule: nak_loop.induct)
  case (1 out rest)
  define x where "x = (from_be (slice rest 0 4) :: u32)"
  define y where "y = (from_be (slice (drop 4 rest) 0 4) :: u32)"
  define a where "a = x AND NOT SRT_NAK_RANGE_FLAG"
  consider "length rest < 4" | "4 \<le> length rest" "x AND SRT_NAK_RANGE_FLAG = 0"
    | "4 \<le> length rest" "x AND SRT_NAK_RANGE_FLAG \<noteq> 0" "length (drop 4 rest) < 4"
    | "8 \<le> length rest" "x AND SRT_NAK_RANGE_FLAG \<noteq> 0" "y AND SRT_NAK_RANGE_FLAG \<noteq> 0 \<or> y < a"
    | "8 \<le> length rest" "x AND SRT_NAK_RANGE_FLAG \<noteq> 0" "y AND SRT_NAK_RANGE_FLAG = 0" "a \<le> y"
    by (cases "length rest < 4"; cases "length (drop 4 rest) < 4") force+
  then show ?case
  proof cases
    case 1
    then show ?thesis using stop "1.prems" by (simp add: nak_loop.simps)
  next
    case 2
    then have "nak_loop out rest = nak_loop (out @ [x]) (drop 4 rest)"
      by (subst nak_loop.simps) (simp add: x_def Let_def)
    with "1.IH"(1) [OF _ x_def refl] single [OF "1.prems"] 2 show ?thesis by simp
  next
    case 3
    then have "nak_loop out rest = out"
      by (subst nak_loop.simps) (simp add: x_def Let_def)
    with stop "1.prems" show ?thesis by simp
  next
    case 4
    then have len: "\<not> length rest < 4" "\<not> length rest - 4 < 4" by auto
    with 4 have "nak_loop out rest = nak_loop out (drop 4 (drop 4 rest))"
      by (subst nak_loop.simps) (simp add: x_def y_def a_def Let_def)
    moreover have "R (nak_loop out (drop 4 (drop 4 rest)))"
      using 4 by (intro "1.IH"(2) [OF _ x_def refl _ a_def _ y_def refl] skip "1.prems") auto
    ultimately show ?thesis by simp
  next
    case 5
    then have len: "\<not> length rest < 4" "\<not> length rest - 4 < 4" by auto
    moreover from 5 have "\<not> y < a" by simp
    ultimately have "nak_loop out rest = nak_loop (nak_expand out a y) (drop 4 (drop 4 rest))"
      using 5 by (subst nak_loop.simps) (simp add: x_def y_def a_def Let_def)
    moreover have "R (nak_loop (nak_expand out a y) (drop 4 (drop 4 rest)))"
      using 5 by (intro "1.IH"(3) [OF _ x_def refl _ a_def _ y_def refl] range "1.prems") auto
    ultimately show ?thesis by simp
  qed
qed

text \<open>Every sequence number the NAK parser reports has its top bit clear, whatever the packet
  holds; corrupt range ends never turn into loss reports outside the 31-bit space.\<close>

theorem nak_ids_31_bit: "list_all (\<lambda>x. unat x < 2 ^ 31) (parse_srt_nak buf)"
proof -
  let ?P = "\<lambda>out. \<forall>x \<in> set out. x AND SRT_NAK_RANGE_FLAG = 0"
  have "?P (nak_loop [] rest)" for rest
  proof (rule nak_loop_rule [where Q = "\<lambda>out _. ?P out" and R = ?P])
    show "?P (nak_expand out a b)" if "?P out" "b AND SRT_NAK_RANGE_FLAG = 0" "a \<le> b" for out a b
      using that by (rule nak_expand_msb_clear [rotated -1])
  qed simp_all
  then show ?thesis by (simp add: parse_srt_nak_def nak_flag_clear list_all_iff)
qed

lemma nak_loop_length: "length (nak_loop out rest) \<le> max (length out) SRT_NAK_MAX_LOSS_IDS + length rest div 4"
proof (rule nak_loop_rule [where Q = "\<lambda>o' r. max (length o') SRT_NAK_MAX_LOSS_IDS + length r div 4
      \<le> max (length out) SRT_NAK_MAX_LOSS_IDS + length rest div 4"
    and R = "\<lambda>o'. length o' \<le> max (length out) SRT_NAK_MAX_LOSS_IDS + length rest div 4"])
  fix out' :: "u32 list" and rest' :: bytes and a b
  assume "max (length out') SRT_NAK_MAX_LOSS_IDS + length rest' div 4
      \<le> max (length out) SRT_NAK_MAX_LOSS_IDS + length rest div 4"
  moreover have "max (length (nak_expand out' a b)) SRT_NAK_MAX_LOSS_IDS \<le> max (length out') SRT_NAK_MAX_LOSS_IDS"
    using nak_expand_length [of out' a b] by simp
  moreover have "length (drop 4 (drop 4 rest')) div 4 \<le> length rest' div 4"
    by (intro div_le_mono) simp
  ultimately show "max (length (nak_expand out' a b)) SRT_NAK_MAX_LOSS_IDS + length (drop 4 (drop 4 rest')) div 4
      \<le> max (length out) SRT_NAK_MAX_LOSS_IDS + length rest div 4"
    by linarith
qed auto

text \<open>C40: how many sequence numbers one NAK can produce. Range expansion stops at a thousand, but a
  single entry is appended without looking at the cap: the bound for a packet is the cap plus one per
  32-bit word of the loss list, and a NAK can produce more than the thousand ids the cap names.\<close>

theorem nak_ids_bound:
  "length (parse_srt_nak buf) \<le> SRT_NAK_MAX_LOSS_IDS + (length buf - SRT_CONTROL_HEADER_LEN) div 4 \<and>
   (\<exists>pkt. length pkt = 28 \<and> SRT_NAK_MAX_LOSS_IDS < length (parse_srt_nak pkt))"
proof
  show "length (parse_srt_nak buf) \<le> SRT_NAK_MAX_LOSS_IDS + (length buf - SRT_CONTROL_HEADER_LEN) div 4"
    using nak_loop_length [of "[]" "drop SRT_CONTROL_HEADER_LEN buf"] by (simp add: parse_srt_nak_def)
  define hdr where "hdr = to_be 2 SRT_TYPE_NAK @ replicate 14 0"
  define pkt where "pkt = hdr @ to_be 4 (1 OR SRT_NAK_RANGE_FLAG) @ to_be 4 (100000 :: u32) @ to_be 4 (7 :: u32)"
  have v: "valid_loss (Range 1 100000)" by (simp add: nak_flag_clear)
  have h: "length hdr = 16" by (simp add: hdr_def)
  have "drop 16 pkt = to_be 4 (1 OR SRT_NAK_RANGE_FLAG) @ to_be 4 (100000 :: u32) @ to_be 4 (7 :: u32) @ []"
    by (simp add: pkt_def h)
  then have "nak_loop [] (drop 16 pkt) = nak_loop (nak_expand [] 1 100000 @ [7]) []"
    using nak_loop_Range [OF v] nak_loop_Single [of 7 _ "[]"] by (simp add: nak_flag_clear)
  also have "\<dots> = nak_expand [] 1 100000 @ [7]" by (simp add: nak_loop.simps)
  finally have "length (nak_loop [] (drop 16 pkt)) = 1001"
    by (simp add: nak_expand_spec protocol_consts del: upt_Suc)
  moreover have "get_packet_type pkt = Some SRT_TYPE_NAK" by (simp add: pkt_def hdr_def)
  moreover have "length pkt = 28" by (simp add: pkt_def h)
  ultimately show "\<exists>pkt. length pkt = 28 \<and> SRT_NAK_MAX_LOSS_IDS < length (parse_srt_nak pkt)"
    by (intro exI [of _ pkt]) (simp add: parse_srt_nak_def protocol_consts)
qed

section \<open>The handshake latency\<close>

text \<open>An SRT extension block: the command and the length of the body in words, then the body.\<close>

definition spec_word :: "u16 \<Rightarrow> nat \<Rightarrow> u32" where
  "spec_word cmd n = push_bit 16 (ucast cmd) OR of_nat n"

definition ext_block :: "u16 \<Rightarrow> u32 list \<Rightarrow> bytes" where
  "ext_block cmd ws = to_be 4 (spec_word cmd (length ws)) @ concat (map (to_be 4) ws)"

lemma length_concat_to_be [simp]: "length (concat (map (to_be 4) ws)) = 4 * length ws"
  by (induction ws) simp_all

lemma ext_block_spec:
  assumes "n < 2 ^ 16"
  shows "(ucast (drop_bit 16 (spec_word cmd n)) :: u16) = cmd"
    and "unat (spec_word cmd n AND 0xffff) = n"
proof -
  have hi: "\<not> bit n k" if "16 \<le> k" for k
    using assms that by (metis bit_iff_odd div_less even_zero less_le_trans one_le_numeral power_increasing)
  show "(ucast (drop_bit 16 (spec_word cmd n)) :: u16) = cmd"
    by (rule bit_word_eqI) (auto simp: spec_word_def bit_simps hi)
  have "spec_word cmd n AND mask 16 = of_nat n"
    by (rule bit_word_eqI) (auto simp: spec_word_def bit_simps hi; metis hi not_le)
  then show "unat (spec_word cmd n AND 0xffff) = n"
    using assms by (simp add: mask_eq_exp_minus_1 unat_of_nat)
qed

lemma hs_blocks_skip:
  assumes "length ws < 2 ^ 16" "cmd \<noteq> SRT_HS_EXT_CMD_HSREQ" "cmd \<noteq> SRT_HS_EXT_CMD_HSRSP"
  shows "hs_blocks (ext_block cmd ws @ rest) = hs_blocks rest"
  using assms
  by (subst hs_blocks.simps) (simp add: ext_block_def slice_def Let_def ext_block_spec)

lemma hs_blocks_found:
  assumes "length ws' + 3 < 2 ^ 16" "cmd = SRT_HS_EXT_CMD_HSREQ \<or> cmd = SRT_HS_EXT_CMD_HSRSP"
  shows "hs_blocks (ext_block cmd (ver # flags # latency # ws') @ rest) =
     Some \<lparr>is_response = (cmd = SRT_HS_EXT_CMD_HSRSP),
           rcv_ms = (if flags AND SRT_HS_OPT_TSBPDRCV \<noteq> 0 then Some (ucast (drop_bit 16 latency)) else None),
           snd_ms = (if flags AND SRT_HS_OPT_TSBPDSND \<noteq> 0 then Some (ucast (latency AND 0xffff)) else None)\<rparr>"
proof -
  let ?ws = "ver # flags # latency # ws'"
  have "length ?ws < 2 ^ 16" using assms(1) by simp
  note spec = ext_block_spec [OF this, of cmd]
  show ?thesis
    using assms(2)
    by (subst hs_blocks.simps)
       (simp add: ext_block_def slice_def Let_def spec [simplified] be32_def SRT_HS_EXT_HSREQ_WORDS_def)
qed

lemma hs_blocks_found_after:
  assumes "\<forall>(c, ws) \<in> set blocks. length ws < 2 ^ 16 \<and> c \<noteq> SRT_HS_EXT_CMD_HSREQ \<and> c \<noteq> SRT_HS_EXT_CMD_HSRSP"
  shows "hs_blocks (concat (map (\<lambda>(c, ws). ext_block c ws) blocks) @ tail) = hs_blocks tail"
  using assms by (induction blocks) (auto simp: hs_blocks_skip)

text \<open>An HSv5 conclusion handshake that carries an HSREQ or HSRSP block yields the latency of that
  block, whichever other extension blocks come before it and whatever follows.\<close>

theorem handshake_latency_found:
  assumes "length hdr = SRT_CONTROL_HEADER_LEN" "get_packet_type hdr = Some SRT_TYPE_HANDSHAKE"
    and cif: "length cif = 12" "cif ! 0 = SRT_HS_VERSION_5" "cif ! 1 AND SRT_HS_EXT_FLAG_HSREQ \<noteq> 0" "cif ! 5 = - 1"
    and "\<forall>(c, ws) \<in> set blocks. length ws < 2 ^ 16 \<and> c \<noteq> SRT_HS_EXT_CMD_HSREQ \<and> c \<noteq> SRT_HS_EXT_CMD_HSRSP"
    and "length ws' + 3 < 2 ^ 16" "cmd = SRT_HS_EXT_CMD_HSREQ \<or> cmd = SRT_HS_EXT_CMD_HSRSP"
  shows "parse_srt_handshake_latency
      (hdr @ concat (map (to_be 4) cif) @ concat (map (\<lambda>(c, ws). ext_block c ws) blocks) @
       ext_block cmd (ver # flags # latency # ws') @ rest) =
     Some \<lparr>is_response = (cmd = SRT_HS_EXT_CMD_HSRSP),
           rcv_ms = (if flags AND SRT_HS_OPT_TSBPDRCV \<noteq> 0 then Some (ucast (drop_bit 16 latency)) else None),
           snd_ms = (if flags AND SRT_HS_OPT_TSBPDSND \<noteq> 0 then Some (ucast (latency AND 0xffff)) else None)\<rparr>"
proof -
  obtain c0 c1 c2 c3 c4 c5 cs where c: "cif = c0 # c1 # c2 # c3 # c4 # c5 # cs" "length cs = 6"
    using cif(1) by (auto simp: length_Suc_conv numeral_eq_Suc)
  define blk where "blk = concat (map (\<lambda>(c, ws). ext_block c ws) blocks) @
       ext_block cmd (ver # flags # latency # ws') @ rest"
  define body where "body = concat (map (to_be 4) cif) @ blk"
  have w: "be32 body 0 = Some SRT_HS_VERSION_5" "be32 body 20 = Some (- 1)" "be32 body 4 = Some c1"
    using c cif by (simp_all add: body_def be32_def slice_def)
  have "(c1 AND 0xffff) AND SRT_HS_EXT_FLAG_HSREQ = c1 AND SRT_HS_EXT_FLAG_HSREQ"
    by (simp add: SRT_HS_EXT_FLAG_HSREQ_def and.assoc)
  then have f: "(c1 AND 0xffff) AND SRT_HS_EXT_FLAG_HSREQ \<noteq> 0" using c cif by simp
  have t: "get_packet_type (hdr @ body) = Some SRT_TYPE_HANDSHAKE"
    using assms(1,2) by (simp add: get_packet_type_def slice_def SRT_CONTROL_HEADER_LEN_def)
  have "drop SRT_HANDSHAKE_CIF_LEN body = blk" "SRT_HANDSHAKE_CIF_LEN \<le> length body"
    using cif(1) by (simp_all add: body_def SRT_HANDSHAKE_CIF_LEN_def)
  then have "parse_srt_handshake_latency (hdr @ body) = hs_blocks blk"
    using t w f assms(1) by (simp add: parse_srt_handshake_latency_def SRT_HS_REQTYPE_CONCLUSION_def)
  then show ?thesis
    using hs_blocks_found_after [OF assms(7)] hs_blocks_found [OF assms(8,9)]
    by (simp add: body_def blk_def)
qed

theorem handshake_latency_found_witness:
  "parse_srt_handshake_latency ((to_be 2 SRT_TYPE_HANDSHAKE @ replicate 14 0) @
     concat (map (to_be 4) [5, 1, 0, 0, 0, - 1, 0, 0, 0, 0, 0, 0 :: u32]) @
     concat (map (\<lambda>(c, ws). ext_block c ws) [(5, [1, 2])]) @
     ext_block 2 (0x10402 # 3 # 0x07d00078 # []) @ []) =
   Some \<lparr>is_response = True, rcv_ms = Some 2000, snd_ms = Some 120\<rparr>"
  using handshake_latency_found [of "to_be 2 SRT_TYPE_HANDSHAKE @ replicate 14 0"
      "[5, 1, 0, 0, 0, - 1, 0, 0, 0, 0, 0, 0]" "[(5, [1, 2])]" "[]" 2 "0x10402" 3 "0x07d00078" "[]"]
  by (simp add: protocol_consts)

section \<open>The retransmission flag\<close>

text \<open>Flagging a copy of a packet as a retransmission makes a data packet of at least eight bytes read
  as one, changes nothing else, keeps the sequence number and the length, and leaves every other packet
  alone.\<close>

theorem set_retransmit_effect:
  "(is_srt_data_retransmit (set_srt_data_retransmit buf) \<longleftrightarrow> 8 \<le> length buf \<and> (buf ! 0) AND 0x80 = 0) \<and>
   length (set_srt_data_retransmit buf) = length buf \<and>
   take 4 (set_srt_data_retransmit buf) = take 4 buf \<and>
   drop 5 (set_srt_data_retransmit buf) = drop 5 buf \<and>
   get_srt_sequence_number (set_srt_data_retransmit buf) = get_srt_sequence_number buf \<and>
   set_srt_data_retransmit (set_srt_data_retransmit buf) = set_srt_data_retransmit buf"
proof (intro conjI)
  have bit4: "(x OR 4) AND 4 \<noteq> (0 :: 8 word)" for x
  proof -
    have "(x OR 4) AND 4 = (4 :: 8 word)" by (rule bit_word_eqI) (auto simp: bit_simps)
    then show ?thesis by simp
  qed
  show "is_srt_data_retransmit (set_srt_data_retransmit buf) \<longleftrightarrow> 8 \<le> length buf \<and> (buf ! 0) AND 0x80 = 0"
    using bit4 by (auto simp: is_srt_data_retransmit_def set_srt_data_retransmit_def)
qed (auto simp: set_srt_data_retransmit_def get_srt_sequence_number_def slice_def or.assoc)

end
