(* ===== verification/Floats.thy ===== *)
theory Floats
  imports Prelude "HOL-Library.Log_Nat"
begin

text \<open>
  The floating-point arithmetic of the program: Rust's \<^verbatim>\<open>f64\<close> and \<^verbatim>\<open>f32\<close>, that is IEEE 754
  binary64 and binary32 with rounding to nearest, ties to even. A value is not-a-number, an infinity or
  a finite rational; an operation computes its exact rational result and rounds it. The sign of a zero is
  not kept: no modelled computation divides by a quantity that can be a negative zero, and Rust's
  comparisons identify the two zeros.

  The rounding function is executable. The locale \<open>rounding\<close> states what the bounds proofs of the
  other theories need of it (monotone, exact on what it returns) and is interpreted for both formats.
\<close>

section \<open>Rounding to a format\<close>

definition ilog2 :: "rat \<Rightarrow> int" where
  "ilog2 x = (let (a, b) = quotient_of x;
                  e = int (floorlog 2 (nat a)) - int (floorlog 2 (nat b))
              in if 2 powi e \<le> x then e else e - 1)"

definition round_half_even :: "rat \<Rightarrow> int" where
  "round_half_even x =
     (let f = \<lfloor>x\<rfloor>; r = x - of_int f
      in if r < 1 / 2 then f else if 1 / 2 < r then f + 1 else if even f then f else f + 1)"

text \<open>\<open>p\<close> significant bits, least exponent \<open>emin\<close> of a unit in the last place.\<close>

definition ulp_exp :: "int \<Rightarrow> int \<Rightarrow> rat \<Rightarrow> int" where
  "ulp_exp p emin x = max emin (ilog2 \<bar>x\<bar> + 1 - p)"

definition fl_round :: "int \<Rightarrow> int \<Rightarrow> rat \<Rightarrow> rat" where
  "fl_round p emin x =
     (if x = 0 then 0
      else let e = ulp_exp p emin x in of_int (round_half_even (x / 2 powi e)) * 2 powi e)"

text \<open>The exponent of a positive rational.\<close>

lemma ilog2_bounds:
  assumes "0 < x"
  shows "2 powi (ilog2 x) \<le> x" "x < 2 powi (ilog2 x + 1)"
proof -
  obtain a b where q: "quotient_of x = (a, b)" by (cases "quotient_of x")
  then have b: "0 < b" and x: "x = of_int a / of_int b"
    by (simp_all add: quotient_of_denom_pos quotient_of_div)
  with assms have a: "0 < a" by (simp add: zero_less_divide_iff)
  define la lb where "la = floorlog 2 (nat a)" and "lb = floorlog 2 (nat b)"
  have na: "2 ^ (la - 1) \<le> nat a" "nat a < 2 ^ la" and nb: "2 ^ (lb - 1) \<le> nat b" "nat b < 2 ^ lb"
    using floorlog_bounds [of "nat a" 2] floorlog_bounds [of "nat b" 2] a b
    unfolding la_def lb_def by auto
  have pos: "0 < la" "0 < lb"
    using na nb a b by (auto intro: gr0I)
  have ra: "2 powi (int la - 1) \<le> (of_int a :: rat)" "(of_int a :: rat) < 2 powi int la"
  proof -
    have "int (2 ^ (la - 1)) \<le> a" "a < int (2 ^ la)"
      using na a by linarith+
    then have "(of_int (2 ^ (la - 1)) :: rat) \<le> of_int a" "(of_int a :: rat) < of_int (2 ^ la)"
      by (simp_all del: of_int_power)
    then show "2 powi (int la - 1) \<le> (of_int a :: rat)" "(of_int a :: rat) < 2 powi int la"
      using pos by (simp_all add: power_int_def nat_diff_distrib)
  qed
  have rb: "2 powi (int lb - 1) \<le> (of_int b :: rat)" "(of_int b :: rat) < 2 powi int lb"
  proof -
    have "int (2 ^ (lb - 1)) \<le> b" "b < int (2 ^ lb)"
      using nb b by linarith+
    then have "(of_int (2 ^ (lb - 1)) :: rat) \<le> of_int b" "(of_int b :: rat) < of_int (2 ^ lb)"
      by (simp_all del: of_int_power)
    then show "2 powi (int lb - 1) \<le> (of_int b :: rat)" "(of_int b :: rat) < 2 powi int lb"
      using pos by (simp_all add: power_int_def nat_diff_distrib)
  qed
  define e where "e = int la - int lb"
  have il: "ilog2 x = (if 2 powi e \<le> x then e else e - 1)"
    by (simp add: ilog2_def q e_def la_def lb_def)
  have lo: "2 powi (e - 1) \<le> x"
  proof -
    have "2 powi (e - 1) * of_int b \<le> 2 powi (e - 1) * (2 powi int lb :: rat)"
      using rb(2) by (intro mult_left_mono) auto
    also have "\<dots> = 2 powi (e - 1 + int lb)"
      by (rule power_int_add [symmetric]) simp
    also have "e - 1 + int lb = int la - 1"
      by (simp add: e_def)
    also have "2 powi (int la - 1) \<le> (of_int a :: rat)" by (rule ra)
    finally show ?thesis using b by (simp add: x pos_le_divide_eq)
  qed
  have hi: "x < 2 powi (e + 1)"
  proof -
    have "of_int a < (2 powi int la :: rat)" by (rule ra)
    also have "\<dots> = 2 powi (e + 1) * 2 powi (int lb - 1)"
      by (simp add: e_def flip: power_int_add)
    also have "\<dots> \<le> 2 powi (e + 1) * of_int b"
      using rb(1) by (intro mult_left_mono) auto
    finally show ?thesis using b by (simp add: x pos_divide_less_eq)
  qed
  show "2 powi (ilog2 x) \<le> x" "x < 2 powi (ilog2 x + 1)"
    using lo hi by (auto simp: il)
qed

lemma ilog2_mono:
  assumes "0 < x" "x \<le> y"
  shows "ilog2 x \<le> ilog2 y"
proof (rule ccontr)
  assume "\<not> ?thesis"
  then have "(2 :: rat) powi (ilog2 y + 1) \<le> 2 powi (ilog2 x)"
    by (intro power_int_increasing) auto
  moreover have "y < 2 powi (ilog2 y + 1)" "2 powi (ilog2 x) \<le> x"
    using ilog2_bounds [of x] ilog2_bounds [of y] assms by auto
  ultimately show False using assms(2) by linarith
qed

text \<open>Rounding to an integer.\<close>

lemma round_half_even_of_int [simp]: "round_half_even (of_int n) = n"
  by (simp add: round_half_even_def)

lemma round_half_even_floor: "\<lfloor>x\<rfloor> \<le> round_half_even x" "round_half_even x \<le> \<lfloor>x\<rfloor> + 1"
  by (simp_all add: round_half_even_def Let_def)

lemma round_half_even_mono:
  assumes "x \<le> y"
  shows "round_half_even x \<le> round_half_even y"
proof (cases "\<lfloor>x\<rfloor> = \<lfloor>y\<rfloor>")
  case True
  with assms show ?thesis by (auto simp: round_half_even_def Let_def)
next
  case False
  with floor_mono [OF assms] have "\<lfloor>x\<rfloor> + 1 \<le> \<lfloor>y\<rfloor>" by simp
  with round_half_even_floor [of x] round_half_even_floor [of y] show ?thesis by linarith
qed

lemma round_half_even_minus: "round_half_even (- x) = - round_half_even x"
proof (cases "x = of_int \<lfloor>x\<rfloor>")
  case True
  then show ?thesis by (metis of_int_minus round_half_even_of_int)
next
  case False
  define f r where "f = \<lfloor>x\<rfloor>" and "r = x - of_int f"
  have r: "0 < r" "r < 1" using False unfolding r_def f_def by linarith+
  have fm: "\<lfloor>- x\<rfloor> = - f - 1"
    using r by (intro floor_unique) (auto simp: r_def)
  have rm: "- x - of_int (- f - 1) = 1 - r" by (simp add: r_def)
  have "r < 1 / 2 \<longleftrightarrow> 1 / 2 < 1 - r" "1 / 2 < r \<longleftrightarrow> 1 - r < 1 / 2" by auto
  then show ?thesis
    unfolding round_half_even_def Let_def fm rm
    by (auto simp: f_def [symmetric] r_def [symmetric])
qed

text \<open>
  A rational on the grid of \<open>x\<close> (an integral multiple of its unit in the last place) is never
  crossed by rounding \<open>x\<close>.
\<close>

lemma powi_diff_int:
  assumes "e \<le> e'"
  shows "\<exists>k. (2 :: rat) powi e' = of_int k * 2 powi e"
proof -
  have "(2 :: rat) powi (e' - e + e) = 2 powi (e' - e) * 2 powi e"
    by (rule power_int_add) simp
  moreover have "(2 :: rat) powi (e' - e) = of_int (2 ^ nat (e' - e))"
    using assms by (simp add: power_int_def)
  ultimately show ?thesis by (intro exI [of _ "2 ^ nat (e' - e)"]) simp
qed

lemma fl_round_nz:
  "x \<noteq> 0 \<Longrightarrow> fl_round p emin x =
     of_int (round_half_even (x / 2 powi (ulp_exp p emin x))) * 2 powi (ulp_exp p emin x)"
  by (simp add: fl_round_def Let_def)

lemma fl_round_grid:
  assumes "x \<noteq> 0" "c = of_int m * 2 powi e" "ulp_exp p emin x \<le> e"
  shows "x \<le> c \<Longrightarrow> fl_round p emin x \<le> c" "c \<le> x \<Longrightarrow> c \<le> fl_round p emin x"
proof -
  define u where "u = (2 :: rat) powi (ulp_exp p emin x)"
  have u: "0 < u" by (simp add: u_def)
  obtain k where "(2 :: rat) powi e = of_int k * u"
    using powi_diff_int [OF assms(3)] by (auto simp: u_def)
  with assms(2) have c: "c = of_int (m * k) * u" by simp
  then have cu: "c / u = of_int (m * k)" using u by simp
  have r: "fl_round p emin x = of_int (round_half_even (x / u)) * u"
    using assms(1) by (simp add: fl_round_nz u_def)
  show "fl_round p emin x \<le> c" if "x \<le> c"
  proof -
    have "x / u \<le> c / u" using that u by (simp add: divide_right_mono)
    then have "x / u \<le> of_int (m * k)" unfolding cu .
    from round_half_even_mono [OF this] have "round_half_even (x / u) \<le> m * k"
      by (simp only: round_half_even_of_int)
    then have "(of_int (round_half_even (x / u)) :: rat) \<le> of_int (m * k)" by (simp only: of_int_le_iff)
    then show ?thesis unfolding r c using u by (intro mult_right_mono) simp_all
  qed
  show "c \<le> fl_round p emin x" if "c \<le> x"
  proof -
    have "c / u \<le> x / u" using that u by (simp add: divide_right_mono)
    then have "of_int (m * k) \<le> x / u" unfolding cu .
    from round_half_even_mono [OF this] have "m * k \<le> round_half_even (x / u)"
      by (simp only: round_half_even_of_int)
    then have "(of_int (m * k) :: rat) \<le> of_int (round_half_even (x / u))" by (simp only: of_int_le_iff)
    then show ?thesis unfolding r c using u by (intro mult_right_mono) simp_all
  qed
qed

lemma fl_round_0 [simp]: "fl_round p emin 0 = 0"
  by (simp add: fl_round_def)

lemma fl_round_minus: "fl_round p emin (- x) = - fl_round p emin x"
  by (simp add: fl_round_def ulp_exp_def Let_def round_half_even_minus)

text \<open>What is representable: an integer of at most \<open>p\<close> bits times a power of two.\<close>

lemma fl_round_representable:
  assumes "\<bar>m\<bar> < 2 ^ nat p" "emin \<le> e" "0 \<le> p"
  shows "fl_round p emin (of_int m * 2 powi e) = of_int m * 2 powi e"
proof (cases "m = 0")
  case False
  define x where "x = (of_int m :: rat) * 2 powi e"
  have nz: "x \<noteq> 0" using False by (simp add: x_def)
  have "2 powi (ilog2 \<bar>x\<bar>) \<le> \<bar>x\<bar>" using nz ilog2_bounds [of "\<bar>x\<bar>"] by simp
  also have "\<bar>x\<bar> = of_int \<bar>m\<bar> * 2 powi e" by (simp add: x_def abs_mult)
  also have "\<dots> < 2 powi p * 2 powi e"
  proof -
    have "(of_int \<bar>m\<bar> :: rat) < of_int (2 ^ nat p)" using assms(1) by (simp del: of_int_power)
    then show ?thesis using assms(3) by (simp add: power_int_def)
  qed
  also have "\<dots> = 2 powi (p + e)" by (rule power_int_add [symmetric]) simp
  finally have lt: "(2 :: rat) powi (ilog2 \<bar>x\<bar>) < 2 powi (p + e)" .
  have "ilog2 \<bar>x\<bar> < p + e"
  proof (rule ccontr)
    assume "\<not> ?thesis"
    then have "(2 :: rat) powi (p + e) \<le> 2 powi (ilog2 \<bar>x\<bar>)"
      by (intro power_int_increasing) auto
    with lt show False by simp
  qed
  with assms(2) have u: "ulp_exp p emin x \<le> e" by (simp add: ulp_exp_def)
  have "fl_round p emin x \<le> x" "x \<le> fl_round p emin x"
    using fl_round_grid [OF nz _ u, of x m] by (auto simp: x_def)
  then show ?thesis unfolding x_def by simp
qed simp

lemma fl_round_pow2:
  assumes "emin \<le> e" "1 \<le> p"
  shows "fl_round p emin (2 powi e) = 2 powi e"
  using fl_round_representable [of 1 p emin e] assms by (simp add: power_int_def)

lemma fl_round_mono_pos:
  assumes "0 < x" "x \<le> y" "1 \<le> p"
  shows "fl_round p emin x \<le> fl_round p emin y"
proof (cases "ulp_exp p emin x = ulp_exp p emin y")
  case True
  define u where "u = (2 :: rat) powi (ulp_exp p emin y)"
  have u: "0 < u" by (simp add: u_def)
  have "x / u \<le> y / u" using assms(2) u by (simp add: divide_right_mono)
  then have "round_half_even (x / u) \<le> round_half_even (y / u)" by (rule round_half_even_mono)
  then have "of_int (round_half_even (x / u)) * u \<le> of_int (round_half_even (y / u)) * u"
    using u by (intro mult_right_mono) simp_all
  then show ?thesis using assms True by (simp add: fl_round_nz u_def)
next
  case False
  have le: "ilog2 x \<le> ilog2 y" using assms by (intro ilog2_mono)
  with False assms have lt: "ilog2 x < ilog2 y" and uy: "ulp_exp p emin y = ilog2 y + 1 - p"
    by (auto simp: ulp_exp_def)
  define c where "c = (2 :: rat) powi (ilog2 y)"
  have c: "c = of_int 1 * 2 powi (ilog2 y)" by (simp add: c_def)
  have ux: "ulp_exp p emin x \<le> ilog2 y" "ulp_exp p emin y \<le> ilog2 y"
    using False assms uy le lt by (auto simp: ulp_exp_def)
  have "x < 2 powi (ilog2 x + 1)" using assms ilog2_bounds by blast
  also have "\<dots> \<le> c" unfolding c_def using lt by (intro power_int_increasing) auto
  finally have "fl_round p emin x \<le> c" using fl_round_grid(1) [OF _ c ux(1)] assms by simp
  also have "c \<le> fl_round p emin y"
    using fl_round_grid(2) [OF _ c ux(2)] ilog2_bounds(1) [of y] assms by (simp add: c_def)
  finally show ?thesis .
qed

lemma fl_round_nonneg: "0 \<le> x \<Longrightarrow> 0 \<le> fl_round p emin x"
proof (cases "x = 0")
  case False
  assume "0 \<le> x"
  then show ?thesis
    using fl_round_grid(2) [of x 0 0 "ulp_exp p emin x"] False by simp
qed simp

lemma fl_round_mono:
  assumes "x \<le> y" "1 \<le> p"
  shows "fl_round p emin x \<le> fl_round p emin y"
proof -
  consider "0 < x" | "x \<le> 0" "0 \<le> y" | "y < 0" by linarith
  then show ?thesis
  proof cases
    case 1
    then show ?thesis using assms by (rule fl_round_mono_pos)
  next
    case 2
    then have "0 \<le> fl_round p emin y" "0 \<le> fl_round p emin (- x)"
      by (auto intro: fl_round_nonneg)
    then show ?thesis by (simp add: fl_round_minus)
  next
    case 3
    then have "fl_round p emin (- y) \<le> fl_round p emin (- x)"
      using assms by (intro fl_round_mono_pos) auto
    then show ?thesis by (simp add: fl_round_minus)
  qed
qed

lemma fl_round_idem:
  assumes "1 \<le> p"
  shows "fl_round p emin (fl_round p emin x) = fl_round p emin x"
proof (cases "x = 0")
  case False
  define e n where "e = ulp_exp p emin x" and "n = round_half_even (x / 2 powi e)"
  have r: "fl_round p emin x = of_int n * 2 powi e"
    using False by (simp add: fl_round_nz e_def n_def)
  have ge: "emin \<le> e" "ilog2 \<bar>x\<bar> + 1 - p \<le> e" by (simp_all add: e_def ulp_exp_def)
  have "\<bar>x\<bar> < 2 powi (ilog2 \<bar>x\<bar> + 1)" using False ilog2_bounds by simp
  also have "\<dots> \<le> 2 powi (p + e)" using ge by (intro power_int_increasing) auto
  also have "\<dots> = 2 powi p * 2 powi e" by (rule power_int_add) simp
  finally have "\<bar>x / 2 powi e\<bar> \<le> of_int (2 ^ nat p)"
    using assms by (simp add: abs_divide field_simps power_int_def)
  then have "x / 2 powi e \<le> of_int (2 ^ nat p)" "of_int (- (2 ^ nat p)) \<le> x / 2 powi e"
    by (simp_all only: abs_le_iff of_int_minus) linarith+
  then have "n \<le> 2 ^ nat p" "- (2 ^ nat p) \<le> n"
    unfolding n_def by (metis round_half_even_mono round_half_even_of_int)+
  then consider "\<bar>n\<bar> < 2 ^ nat p" | "n = 2 ^ nat p" | "n = - (2 ^ nat p)" by linarith
  then show ?thesis
  proof cases
    case 1
    then show ?thesis unfolding r using fl_round_representable ge assms by simp
  next
    case 2
    have "(of_int n :: rat) = 2 powi p"
      using assms 2 by (simp add: power_int_def)
    then have "(of_int n :: rat) * 2 powi e = 2 powi (p + e)"
      by (simp add: power_int_add)
    then show ?thesis unfolding r using fl_round_pow2 [of emin "p + e" p] ge assms by simp
  next
    case 3
    have "(of_int n :: rat) = - (2 powi p)"
      using assms 3 by (simp add: power_int_def)
    then have "(of_int n :: rat) * 2 powi e = - (2 powi (p + e))"
      by (simp add: power_int_add)
    then show ?thesis
      unfolding r using fl_round_pow2 [of emin "p + e" p] ge assms by (simp add: fl_round_minus)
  qed
qed simp

section \<open>What the bounds proofs need of a rounding function\<close>

locale rounding =
  fixes rnd :: "rat \<Rightarrow> rat"
  assumes rnd_mono: "x \<le> y \<Longrightarrow> rnd x \<le> rnd y"
    and rnd_idem: "rnd (rnd x) = rnd x"
    and rnd_zero: "rnd 0 = 0"
begin

lemma rnd_le: "rnd c = c \<Longrightarrow> x \<le> c \<Longrightarrow> rnd x \<le> c"
  using rnd_mono [of x c] by simp

lemma rnd_ge: "rnd c = c \<Longrightarrow> c \<le> x \<Longrightarrow> c \<le> rnd x"
  using rnd_mono [of c x] by simp

lemma rnd_nonneg: "0 \<le> x \<Longrightarrow> 0 \<le> rnd x"
  using rnd_ge [of 0] rnd_zero by simp

lemma rnd_nonpos: "x \<le> 0 \<Longrightarrow> rnd x \<le> 0"
  using rnd_le [of 0] rnd_zero by simp

lemma rnd_between: "rnd a = a \<Longrightarrow> rnd b = b \<Longrightarrow> a \<le> x \<Longrightarrow> x \<le> b \<Longrightarrow> a \<le> rnd x \<and> rnd x \<le> b"
  by (simp add: rnd_le rnd_ge)

text \<open>Scaling a non-negative representable number by a factor up to one does not raise it.\<close>

lemma rnd_mult_le: "rnd a = a \<Longrightarrow> 0 \<le> a \<Longrightarrow> k \<le> 1 \<Longrightarrow> rnd (a * k) \<le> a"
  by (intro rnd_le) (simp_all add: mult_left_le)

end

definition rnd64 :: "rat \<Rightarrow> rat" where
  "rnd64 = fl_round 53 (-1074)"

definition rnd32 :: "rat \<Rightarrow> rat" where
  "rnd32 = fl_round 24 (-149)"

interpretation b64: rounding rnd64
  by unfold_locales (simp_all add: rnd64_def fl_round_mono fl_round_idem)

interpretation b32: rounding rnd32
  by unfold_locales (simp_all add: rnd32_def fl_round_mono fl_round_idem)

lemma rnd64_of_int [simp]: "\<bar>m\<bar> < 2 ^ 53 \<Longrightarrow> rnd64 (of_int m) = of_int m"
  using fl_round_representable [of m 53 "-1074" 0] by (simp add: rnd64_def)

lemma rnd64_dyadic: "\<bar>m\<bar> < 2 ^ 53 \<Longrightarrow> k \<le> 1074 \<Longrightarrow> rnd64 (of_int m / 2 ^ k) = of_int m / 2 ^ k"
  using fl_round_representable [of m 53 "-1074" "- int k"]
  by (simp add: rnd64_def power_int_minus divide_inverse)

lemma rnd32_of_int [simp]: "\<bar>m\<bar> < 2 ^ 24 \<Longrightarrow> rnd32 (of_int m) = of_int m"
  using fl_round_representable [of m 24 "-149" 0] by (simp add: rnd32_def)

lemma rnd64_simps [simp]: "rnd64 0 = 0" "rnd64 1 = 1" "rnd64 (-1) = -1"
  using rnd64_of_int [of 0] rnd64_of_int [of 1] rnd64_of_int [of "-1"] by simp_all

lemma rnd64_numeral [simp]: "numeral w < (2 ^ 53 :: int) \<Longrightarrow> rnd64 (numeral w) = numeral w"
  using rnd64_of_int [of "numeral w"] by simp

lemma rnd32_simps [simp]: "rnd32 0 = 0" "rnd32 1 = 1"
  using rnd32_of_int [of 0] rnd32_of_int [of 1] by simp_all

lemma rnd32_numeral [simp]: "numeral w < (2 ^ 24 :: int) \<Longrightarrow> rnd32 (numeral w) = numeral w"
  using rnd32_of_int [of "numeral w"] by simp

section \<open>Values and operations\<close>

datatype fval = NaN | PInf | NInf | Fin rat

type_synonym f64 = fval
type_synonym f32 = fval

definition fl_make :: "(rat \<Rightarrow> rat) \<Rightarrow> rat \<Rightarrow> rat \<Rightarrow> fval" where
  "fl_make rnd bnd x =
     (let y = rnd x in if bnd \<le> y then PInf else if y \<le> - bnd then NInf else Fin y)"

definition f64_of_rat :: "rat \<Rightarrow> f64" where
  "f64_of_rat = fl_make rnd64 (2 ^ 1024)"

definition f32_of_rat :: "rat \<Rightarrow> f32" where
  "f32_of_rat = fl_make rnd32 (2 ^ 128)"

definition signed_inf :: "bool \<Rightarrow> fval" where
  "signed_inf neg = (if neg then NInf else PInf)"

fun fl_neg :: "fval \<Rightarrow> fval" where
  "fl_neg NaN = NaN"
| "fl_neg PInf = NInf"
| "fl_neg NInf = PInf"
| "fl_neg (Fin a) = Fin (- a)"

fun fl_add :: "(rat \<Rightarrow> fval) \<Rightarrow> fval \<Rightarrow> fval \<Rightarrow> fval" where
  "fl_add mk (Fin a) (Fin b) = mk (a + b)"
| "fl_add mk NaN _ = NaN"
| "fl_add mk _ NaN = NaN"
| "fl_add mk PInf NInf = NaN"
| "fl_add mk NInf PInf = NaN"
| "fl_add mk PInf _ = PInf"
| "fl_add mk NInf _ = NInf"
| "fl_add mk _ PInf = PInf"
| "fl_add mk _ NInf = NInf"

definition fl_sub :: "(rat \<Rightarrow> fval) \<Rightarrow> fval \<Rightarrow> fval \<Rightarrow> fval" where
  "fl_sub mk a b = fl_add mk a (fl_neg b)"

fun fl_mul :: "(rat \<Rightarrow> fval) \<Rightarrow> fval \<Rightarrow> fval \<Rightarrow> fval" where
  "fl_mul mk (Fin a) (Fin b) = mk (a * b)"
| "fl_mul mk NaN _ = NaN"
| "fl_mul mk _ NaN = NaN"
| "fl_mul mk (Fin a) PInf = (if a = 0 then NaN else signed_inf (a < 0))"
| "fl_mul mk (Fin a) NInf = (if a = 0 then NaN else signed_inf (0 < a))"
| "fl_mul mk PInf (Fin a) = (if a = 0 then NaN else signed_inf (a < 0))"
| "fl_mul mk NInf (Fin a) = (if a = 0 then NaN else signed_inf (0 < a))"
| "fl_mul mk PInf PInf = PInf"
| "fl_mul mk NInf NInf = PInf"
| "fl_mul mk PInf NInf = NInf"
| "fl_mul mk NInf PInf = NInf"

text \<open>Division by a zero yields a signed infinity; the zero is taken as positive.\<close>

fun fl_div :: "(rat \<Rightarrow> fval) \<Rightarrow> fval \<Rightarrow> fval \<Rightarrow> fval" where
  "fl_div mk (Fin a) (Fin b) =
     (if b = 0 then (if a = 0 then NaN else signed_inf (a < 0)) else mk (a / b))"
| "fl_div mk NaN _ = NaN"
| "fl_div mk _ NaN = NaN"
| "fl_div mk (Fin a) PInf = Fin 0"
| "fl_div mk (Fin a) NInf = Fin 0"
| "fl_div mk PInf (Fin b) = signed_inf (b < 0)"
| "fl_div mk NInf (Fin b) = signed_inf (0 \<le> b)"
| "fl_div mk _ _ = NaN"

abbreviation f64_add :: "f64 \<Rightarrow> f64 \<Rightarrow> f64" where "f64_add \<equiv> fl_add f64_of_rat"
abbreviation f64_sub :: "f64 \<Rightarrow> f64 \<Rightarrow> f64" where "f64_sub \<equiv> fl_sub f64_of_rat"
abbreviation f64_mul :: "f64 \<Rightarrow> f64 \<Rightarrow> f64" where "f64_mul \<equiv> fl_mul f64_of_rat"
abbreviation f64_div :: "f64 \<Rightarrow> f64 \<Rightarrow> f64" where "f64_div \<equiv> fl_div f64_of_rat"
abbreviation f32_add :: "f32 \<Rightarrow> f32 \<Rightarrow> f32" where "f32_add \<equiv> fl_add f32_of_rat"
abbreviation f32_sub :: "f32 \<Rightarrow> f32 \<Rightarrow> f32" where "f32_sub \<equiv> fl_sub f32_of_rat"
abbreviation f32_mul :: "f32 \<Rightarrow> f32 \<Rightarrow> f32" where "f32_mul \<equiv> fl_mul f32_of_rat"
abbreviation f32_div :: "f32 \<Rightarrow> f32 \<Rightarrow> f32" where "f32_div \<equiv> fl_div f32_of_rat"

text \<open>Comparisons are false on not-a-number.\<close>

fun fl_lt :: "fval \<Rightarrow> fval \<Rightarrow> bool" where
  "fl_lt (Fin a) (Fin b) = (a < b)"
| "fl_lt NaN _ = False"
| "fl_lt _ NaN = False"
| "fl_lt NInf b = (b \<noteq> NInf)"
| "fl_lt a PInf = (a \<noteq> PInf)"
| "fl_lt _ _ = False"

definition fl_eq :: "fval \<Rightarrow> fval \<Rightarrow> bool" where
  "fl_eq a b \<longleftrightarrow> a \<noteq> NaN \<and> a = b"

definition fl_le :: "fval \<Rightarrow> fval \<Rightarrow> bool" where
  "fl_le a b \<longleftrightarrow> fl_lt a b \<or> fl_eq a b"

abbreviation fl_gt :: "fval \<Rightarrow> fval \<Rightarrow> bool" where
  "fl_gt a b \<equiv> fl_lt b a"

abbreviation fl_ge :: "fval \<Rightarrow> fval \<Rightarrow> bool" where
  "fl_ge a b \<equiv> fl_le b a"

text \<open>\<^verbatim>\<open>f64::max\<close> and \<^verbatim>\<open>f64::min\<close> return the other argument when one is not a number;
  \<^verbatim>\<open>clamp\<close> keeps a not-a-number (its bounds are constants with the lower one below the upper).\<close>

definition fl_max :: "fval \<Rightarrow> fval \<Rightarrow> fval" where
  "fl_max a b = (if a = NaN then b else if b = NaN then a else if fl_lt a b then b else a)"

definition fl_min :: "fval \<Rightarrow> fval \<Rightarrow> fval" where
  "fl_min a b = (if a = NaN then b else if b = NaN then a else if fl_lt b a then b else a)"

definition fl_clamp :: "fval \<Rightarrow> fval \<Rightarrow> fval \<Rightarrow> fval" where
  "fl_clamp lo hi x = (if fl_lt x lo then lo else if fl_lt hi x then hi else x)"

fun fl_abs :: "fval \<Rightarrow> fval" where
  "fl_abs NaN = NaN"
| "fl_abs PInf = PInf"
| "fl_abs NInf = PInf"
| "fl_abs (Fin a) = Fin \<bar>a\<bar>"

fun fl_floor :: "fval \<Rightarrow> fval" where
  "fl_floor (Fin a) = Fin (of_int \<lfloor>a\<rfloor>)"
| "fl_floor x = x"

definition is_finite :: "fval \<Rightarrow> bool" where
  "is_finite x \<longleftrightarrow> x \<noteq> NaN \<and> x \<noteq> PInf \<and> x \<noteq> NInf"

text \<open>Casts from float to integer truncate and saturate, and send not-a-number to zero.\<close>

definition trunc :: "rat \<Rightarrow> int" where
  "trunc a = (if 0 \<le> a then \<lfloor>a\<rfloor> else \<lceil>a\<rceil>)"

fun fl_to_int :: "int \<Rightarrow> int \<Rightarrow> fval \<Rightarrow> int" where
  "fl_to_int lo hi NaN = 0"
| "fl_to_int lo hi PInf = hi"
| "fl_to_int lo hi NInf = lo"
| "fl_to_int lo hi (Fin a) = max lo (min hi (trunc a))"

definition fl_to_i32 :: "fval \<Rightarrow> i32" where
  "fl_to_i32 = fl_to_int I32_MIN I32_MAX"

definition fl_to_u64 :: "fval \<Rightarrow> u64" where
  "fl_to_u64 x = nat (fl_to_int 0 (2 ^ 64 - 1) x)"

definition fl_to_u32 :: "fval \<Rightarrow> nat" where
  "fl_to_u32 x = nat (fl_to_int 0 (2 ^ 32 - 1) x)"

definition u64_to_f64 :: "u64 \<Rightarrow> f64" where
  "u64_to_f64 n = f64_of_rat (of_nat n)"

definition i32_to_f64 :: "i32 \<Rightarrow> f64" where
  "i32_to_f64 n = f64_of_rat (of_int n)"

definition i32_to_f32 :: "i32 \<Rightarrow> f32" where
  "i32_to_f32 n = f32_of_rat (of_int n)"

section \<open>Ranges of floating-point values\<close>

text \<open>\<open>fl_in a b x\<close>: the value is finite and between two rationals.\<close>

definition fl_in :: "rat \<Rightarrow> rat \<Rightarrow> fval \<Rightarrow> bool" where
  "fl_in a b x \<longleftrightarrow> (case x of Fin y \<Rightarrow> a \<le> y \<and> y \<le> b | _ \<Rightarrow> False)"

lemma fl_in_Fin [simp]: "fl_in a b (Fin y) \<longleftrightarrow> a \<le> y \<and> y \<le> b"
  by (simp add: fl_in_def)

lemma fl_inE: "fl_in a b x \<Longrightarrow> (\<And>y. x = Fin y \<Longrightarrow> a \<le> y \<Longrightarrow> y \<le> b \<Longrightarrow> P) \<Longrightarrow> P"
  by (auto simp: fl_in_def split: fval.splits)

lemma fl_in_weaken: "fl_in a b x \<Longrightarrow> a' \<le> a \<Longrightarrow> b \<le> b' \<Longrightarrow> fl_in a' b' x"
  by (auto elim!: fl_inE)

lemma f64_of_rat_in:
  assumes "rnd64 a = a" "rnd64 b = b" "a \<le> x" "x \<le> b" "- (2 ^ 1024) < a" "b < 2 ^ 1024"
  shows "fl_in a b (f64_of_rat x)"
proof -
  have "a \<le> rnd64 x" "rnd64 x \<le> b" using assms by (auto intro: b64.rnd_le b64.rnd_ge)
  then show ?thesis using assms by (simp add: f64_of_rat_def fl_make_def Let_def)
qed

lemma f64_of_rat_exact: "rnd64 x = x \<Longrightarrow> - (2 ^ 1024) < x \<Longrightarrow> x < 2 ^ 1024 \<Longrightarrow> f64_of_rat x = Fin x"
  by (simp add: f64_of_rat_def fl_make_def Let_def)

lemma f64_of_rat_0 [simp]: "f64_of_rat 0 = Fin 0"
  by (simp add: f64_of_rat_exact)

lemma f64_of_rat_1 [simp]: "f64_of_rat 1 = Fin 1"
  by (simp add: f64_of_rat_exact)

lemma f64_of_int: "\<bar>m\<bar> < 2 ^ 53 \<Longrightarrow> f64_of_rat (of_int m) = Fin (of_int m)"
proof -
  assume m: "\<bar>m\<bar> < 2 ^ 53"
  then have "\<bar>of_int m :: rat\<bar> < 2 ^ 53"
    by (metis of_int_abs of_int_less_iff of_int_numeral of_int_power)
  also have "(2 :: rat) ^ 53 \<le> 2 ^ 1024" by (rule power_increasing) simp_all
  finally show ?thesis using m by (intro f64_of_rat_exact) (auto simp: abs_less_iff)
qed

lemma f64_numeral [simp]: "numeral w < (2 ^ 53 :: int) \<Longrightarrow> f64_of_rat (numeral w) = Fin (numeral w)"
  using f64_of_int [of "numeral w"] by simp

text \<open>Halves of small integers are exact.\<close>

lemma f64_of_half: "\<bar>m\<bar> < 2 ^ 53 \<Longrightarrow> f64_of_rat (of_int m / 2) = Fin (of_int m / 2)"
proof -
  assume m: "\<bar>m\<bar> < 2 ^ 53"
  then have "\<bar>of_int m :: rat\<bar> < 2 ^ 53"
    by (metis of_int_abs of_int_less_iff of_int_numeral of_int_power)
  also have "(2 :: rat) ^ 53 \<le> 2 ^ 1024" by (rule power_increasing) simp_all
  finally show ?thesis using m rnd64_dyadic [of m 1] by (intro f64_of_rat_exact) (auto simp: abs_less_iff)
qed

lemma u64_to_f64_exact: "n < 2 ^ 53 \<Longrightarrow> u64_to_f64 n = Fin (of_nat n)"
proof -
  assume n: "n < 2 ^ 53"
  then have "rnd64 (of_nat n) = of_nat n" using rnd64_of_int [of "int n"] by simp
  moreover have "(of_nat n :: rat) < 2 ^ 1024"
  proof -
    have "(of_nat n :: rat) < of_nat (2 ^ 53)" using n by (simp only: of_nat_less_iff)
    also have "\<dots> < 2 ^ 1024" by simp
    finally show ?thesis .
  qed
  moreover have "- (2 ^ 1024) < (of_nat n :: rat)"
    by (rule less_le_trans [of _ 0]) simp_all
  ultimately show ?thesis by (simp add: u64_to_f64_def f64_of_rat_exact)
qed

lemma f64_mul_in:
  assumes "fl_in a b x" "fl_in c d y" "0 \<le> a" "0 \<le> c"
    and "rnd64 lo = lo" "rnd64 hi = hi" "lo \<le> a * c" "b * d \<le> hi" "- (2 ^ 1024) < lo" "hi < 2 ^ 1024"
  shows "fl_in lo hi (f64_mul x y)"
proof -
  from assms(1,2) obtain u v where uv: "x = Fin u" "y = Fin v" "a \<le> u" "u \<le> b" "c \<le> v" "v \<le> d"
    by (auto elim!: fl_inE)
  have "a * c \<le> u * v" "u * v \<le> b * d"
    using uv assms(3,4) by (auto intro!: mult_mono)
  then show ?thesis using assms uv by (auto intro!: f64_of_rat_in)
qed

lemma f64_of_rat_not_NaN [simp]: "f64_of_rat x \<noteq> NaN"
  by (simp add: f64_of_rat_def fl_make_def Let_def)

lemma f64_scale_in:
  assumes "fl_in 0 a x" "fl_in 0 1 y" "rnd64 a = a" "a < 2 ^ 1024"
  shows "fl_in 0 a (f64_mul x y)"
proof (rule f64_mul_in [OF assms(1,2) order_refl order_refl])
  show "- (2 ^ 1024) < (0 :: rat)" by simp
qed (simp_all only: rnd64_simps mult_zero_left mult_1_right order_refl assms)

text \<open>Away from overflow an operation is the rounding of its exact result.\<close>

lemma rnd_2_64: "rnd64 (2 ^ 64) = 2 ^ 64" "rnd32 (2 ^ 64) = 2 ^ 64"
  using fl_round_pow2 [of "-1074" 64 53] fl_round_pow2 [of "-149" 64 24]
  by (simp_all only: rnd64_def rnd32_def power_int_numeral)

lemma rnd_minus_2_64: "rnd64 (- (2 ^ 64)) = - (2 ^ 64)" "rnd32 (- (2 ^ 64)) = - (2 ^ 64)"
  using rnd_2_64 by (simp_all only: rnd64_def rnd32_def fl_round_minus)

lemma f64_val: "\<bar>x\<bar> \<le> 2 ^ 64 \<Longrightarrow> f64_of_rat x = Fin (rnd64 x)"
proof -
  assume "\<bar>x\<bar> \<le> 2 ^ 64"
  then have "- (2 ^ 64) \<le> rnd64 x" "rnd64 x \<le> 2 ^ 64"
    by (intro b64.rnd_ge b64.rnd_le rnd_2_64 rnd_minus_2_64; linarith)+
  moreover have "(2 :: rat) ^ 64 < 2 ^ 1024" by (rule power_strict_increasing) simp_all
  ultimately show ?thesis by (simp only: f64_of_rat_def fl_make_def Let_def) auto
qed

lemma f32_val: "\<bar>x\<bar> \<le> 2 ^ 64 \<Longrightarrow> f32_of_rat x = Fin (rnd32 x)"
proof -
  assume "\<bar>x\<bar> \<le> 2 ^ 64"
  then have "- (2 ^ 64) \<le> rnd32 x" "rnd32 x \<le> 2 ^ 64"
    by (intro b32.rnd_ge b32.rnd_le rnd_2_64 rnd_minus_2_64; linarith)+
  moreover have "(2 :: rat) ^ 64 < 2 ^ 128" by (rule power_strict_increasing) simp_all
  ultimately show ?thesis by (simp only: f32_of_rat_def fl_make_def Let_def) auto
qed

section \<open>Comparison is a strict partial order\<close>

lemma fl_lt_simps [simp]:
  "\<not> fl_lt NaN x" "\<not> fl_lt x NaN" "fl_lt (Fin a) PInf" "fl_lt NInf (Fin a)" "fl_lt NInf PInf"
  "\<not> fl_lt PInf x" "\<not> fl_lt x NInf"
  by (cases x; simp)+

lemma fl_lt_irrefl [simp]: "\<not> fl_lt x x"
  by (cases x) auto

lemma fl_lt_trans: "fl_lt x y \<Longrightarrow> fl_lt y z \<Longrightarrow> fl_lt x z"
  by (cases x; cases y; cases z) auto

lemma fl_le_Fin [simp]: "fl_le (Fin a) (Fin b) \<longleftrightarrow> a \<le> b"
  by (auto simp: fl_le_def fl_eq_def)

interpretation float_scan: scan_order fl_gt
  by unfold_locales (auto dest: fl_lt_trans)

lemma fl_max_0_cases: "fl_max x (Fin 0) = PInf \<or> (\<exists>y \<ge> 0. fl_max x (Fin 0) = Fin y)"
  by (cases x) (auto simp: fl_max_def)

lemma fl_clamp_in:
  assumes "x \<noteq> NaN" "lo \<le> hi"
  shows "fl_in lo hi (fl_clamp (Fin lo) (Fin hi) x)"
  using assms by (cases x) (auto simp: fl_clamp_def)

lemma trunc_of_int [simp]: "trunc (of_int n) = n"
  by (simp add: trunc_def)

lemma trunc_nonneg: "0 \<le> a \<Longrightarrow> 0 \<le> trunc a"
  by (simp add: trunc_def)

lemma trunc_bounds: "0 \<le> a \<Longrightarrow> a \<le> of_int n \<Longrightarrow> trunc a \<le> n"
  by (simp add: trunc_def floor_le_iff)

lemma in_i32_fl_to_i32 [simp]: "in_i32 (fl_to_i32 x)"
  by (cases x) (auto simp: fl_to_i32_def in_i32_def)

end
