(* ===== verification/Core_Config.thy ===== *)
theory Core_Config
  imports Protocol Floats
begin

text \<open>
  Scheduling mode and the configuration snapshot of the sender core
  (\<^verbatim>\<open>crates/srtla-core/src/mode.rs\<close> and \<^verbatim>\<open>crates/srtla-core/src/config_snapshot.rs\<close>).
\<close>

section \<open>Scheduling mode\<close>

datatype SchedulingMode = Classic | Enhanced

definition mode_as_u8 :: "SchedulingMode \<Rightarrow> u8" where
  "mode_as_u8 m = (case m of Classic \<Rightarrow> 0 | Enhanced \<Rightarrow> 1)"

definition mode_from_u8 :: "u8 \<Rightarrow> SchedulingMode" where
  "mode_from_u8 v = (if v = 0 then Classic else Enhanced)"

definition is_classic :: "SchedulingMode \<Rightarrow> bool" where
  "is_classic m = (case m of Classic \<Rightarrow> True | Enhanced \<Rightarrow> False)"

definition mode_fmt :: "SchedulingMode \<Rightarrow> string" where
  "mode_fmt m = (case m of Classic \<Rightarrow> ''classic'' | Enhanced \<Rightarrow> ''enhanced'')"

definition mode_from_str :: "string \<Rightarrow> string + SchedulingMode" where
  "mode_from_str s =
     (if s = ''classic'' then Inr Classic
      else if s = ''enhanced'' then Inr Enhanced
      else Inl (''invalid mode '' @ [CHR 0x27] @ s @ [CHR 0x27] @ '': use classic or enhanced''))"

lemma is_classic_simps [simp]: "is_classic Classic" "\<not> is_classic Enhanced"
  by (simp_all add: is_classic_def)

lemma mode_u8_roundtrip: "mode_from_u8 (mode_as_u8 m) = m"
  by (cases m) (simp_all add: mode_from_u8_def mode_as_u8_def)

lemma mode_str_roundtrip: "mode_from_str s = Inr m \<longleftrightarrow> s = mode_fmt m"
  by (cases m) (auto simp: mode_from_str_def mode_fmt_def)

section \<open>Constants of the stall guard\<close>

named_theorems config_consts \<open>values of the configuration constants\<close>

definition STALL_MIN_IN_FLIGHT_PACKETS :: i32 where [config_consts]: "STALL_MIN_IN_FLIGHT_PACKETS = 32"
definition STALL_ACK_STALE_MS :: u64 where [config_consts]: "STALL_ACK_STALE_MS = 3000"
definition STALL_STALE_RTT_MULT :: u64 where [config_consts]: "STALL_STALE_RTT_MULT = 4"
definition STALL_STALE_FLOOR_MS :: u64 where [config_consts]: "STALL_STALE_FLOOR_MS = 1000"
definition STALL_REJOIN_PROOF_FLOOR_MS :: u64 where
  [config_consts]: "STALL_REJOIN_PROOF_FLOOR_MS = IDLE_TIME * 1000 + 500"
definition STALL_REJOIN_DWELL_MULT :: u64 where [config_consts]: "STALL_REJOIN_DWELL_MULT = 2"
definition STALL_REJOIN_BACKOFF_MAX :: nat where [config_consts]: "STALL_REJOIN_BACKOFF_MAX = 16"
definition STALL_REJOIN_PROBATION_MULT :: u64 where
  [config_consts]: "STALL_REJOIN_PROBATION_MULT = STALL_REJOIN_DWELL_MULT + 1"
definition PROBE_LOG_SOFT_CAP :: usize where [config_consts]: "PROBE_LOG_SOFT_CAP = 128"
definition PROBE_LOG_MAX_AGE_MS :: u64 where [config_consts]: "PROBE_LOG_MAX_AGE_MS = 10000"
definition STALL_REJOIN_RAMP_FLOOR :: f64 where
  [config_consts]: "STALL_REJOIN_RAMP_FLOOR = f64_of_rat (5 / 100)"
definition STALL_PROBE_ONE_IN_N :: nat where [config_consts]: "STALL_PROBE_ONE_IN_N = 100"
definition SILENCE_PULL_FLOOR_MS :: u64 where [config_consts]: "SILENCE_PULL_FLOOR_MS = 250"
definition SILENCE_PULL_RTT_MULT :: u64 where [config_consts]: "SILENCE_PULL_RTT_MULT = 2"
definition CONN_TIMEOUT_MS :: u64 where [config_consts]: "CONN_TIMEOUT_MS = CONN_TIMEOUT * 1000"
definition CONN_TIMEOUT_MS_MIN :: u64 where [config_consts]: "CONN_TIMEOUT_MS_MIN = 1000"
definition CONN_TIMEOUT_MS_MAX :: u64 where [config_consts]: "CONN_TIMEOUT_MS_MAX = 60000"

section \<open>The snapshot\<close>

record ConfigSnapshot =
  cfg_mode :: SchedulingMode
  cfg_quality_enabled :: bool
  cfg_stall_deselect :: bool
  cfg_stall_min_in_flight :: i32
  cfg_stall_ack_stale_ms :: u64
  cfg_conn_timeout_ms :: u64
  cfg_negotiated_latency_ms :: nat

definition ConfigSnapshot_default :: ConfigSnapshot where
  "ConfigSnapshot_default =
     \<lparr> cfg_mode = Enhanced, cfg_quality_enabled = True, cfg_stall_deselect = True,
       cfg_stall_min_in_flight = STALL_MIN_IN_FLIGHT_PACKETS,
       cfg_stall_ack_stale_ms = STALL_ACK_STALE_MS, cfg_conn_timeout_ms = CONN_TIMEOUT_MS,
       cfg_negotiated_latency_ms = 0 \<rparr>"

definition effective_quality_enabled :: "ConfigSnapshot \<Rightarrow> bool" where
  "effective_quality_enabled c \<longleftrightarrow> cfg_quality_enabled c \<and> \<not> is_classic (cfg_mode c)"

text \<open>The staleness windows are ordered, and every one of them is shorter than the liveness timeout:
  deselecting a link never waits longer than tearing it down.\<close>

lemma stall_windows_ordered:
  "SILENCE_PULL_FLOOR_MS < STALL_STALE_FLOOR_MS" "STALL_STALE_FLOOR_MS < STALL_ACK_STALE_MS"
  "STALL_ACK_STALE_MS < CONN_TIMEOUT_MS" "CONN_TIMEOUT_MS_MIN \<le> CONN_TIMEOUT_MS"
  "CONN_TIMEOUT_MS \<le> CONN_TIMEOUT_MS_MAX"
  by (simp_all add: config_consts protocol_consts)

section \<open>Runtime configuration\<close>

text \<open>The shared atomics of \<^verbatim>\<open>src/config.rs\<close>; every setter is one atomic store.\<close>

record DynamicConfig =
  dc_mode :: u8
  dc_quality_enabled :: bool
  dc_stall_deselect :: bool
  dc_stall_min_in_flight :: i32
  dc_stall_ack_stale_ms :: u64
  dc_conn_timeout_ms :: u64
  dc_rehome_on_failure :: bool
  dc_negotiated_latency_ms :: nat

definition DynamicConfig_new :: DynamicConfig where
  "DynamicConfig_new =
     \<lparr> dc_mode = mode_as_u8 Enhanced, dc_quality_enabled = True, dc_stall_deselect = True,
       dc_stall_min_in_flight = STALL_MIN_IN_FLIGHT_PACKETS, dc_stall_ack_stale_ms = STALL_ACK_STALE_MS,
       dc_conn_timeout_ms = CONN_TIMEOUT_MS, dc_rehome_on_failure = True, dc_negotiated_latency_ms = 0 \<rparr>"

definition clamp_conn_timeout :: "u64 \<Rightarrow> u64" where
  "clamp_conn_timeout ms = max CONN_TIMEOUT_MS_MIN (min CONN_TIMEOUT_MS_MAX ms)"

definition from_cli :: "SchedulingMode \<Rightarrow> bool \<Rightarrow> bool \<Rightarrow> i32 \<Rightarrow> u64 \<Rightarrow> u64 \<Rightarrow> bool \<Rightarrow> DynamicConfig" where
  "from_cli mode no_quality no_stall_deselect stall_min_in_flight stall_ack_stale_ms conn_timeout_ms no_rehome =
     \<lparr> dc_mode = mode_as_u8 mode, dc_quality_enabled = (\<not> no_quality), dc_stall_deselect = (\<not> no_stall_deselect),
       dc_stall_min_in_flight = stall_min_in_flight, dc_stall_ack_stale_ms = stall_ack_stale_ms,
       dc_conn_timeout_ms = clamp_conn_timeout conn_timeout_ms, dc_rehome_on_failure = (\<not> no_rehome),
       dc_negotiated_latency_ms = 0 \<rparr>"

definition snapshot :: "DynamicConfig \<Rightarrow> ConfigSnapshot" where
  "snapshot c =
     \<lparr> cfg_mode = mode_from_u8 (dc_mode c), cfg_quality_enabled = dc_quality_enabled c,
       cfg_stall_deselect = dc_stall_deselect c, cfg_stall_min_in_flight = dc_stall_min_in_flight c,
       cfg_stall_ack_stale_ms = dc_stall_ack_stale_ms c, cfg_conn_timeout_ms = dc_conn_timeout_ms c,
       cfg_negotiated_latency_ms = dc_negotiated_latency_ms c \<rparr>"

definition set_negotiated_latency_ms :: "nat \<Rightarrow> DynamicConfig \<Rightarrow> bool \<times> DynamicConfig" where
  "set_negotiated_latency_ms latency_ms c =
     (dc_negotiated_latency_ms c \<noteq> latency_ms, c\<lparr> dc_negotiated_latency_ms := latency_ms \<rparr>)"

definition set_mode :: "SchedulingMode \<Rightarrow> DynamicConfig \<Rightarrow> DynamicConfig" where
  "set_mode mode c = c\<lparr> dc_mode := mode_as_u8 mode \<rparr>"

definition set_quality_enabled :: "bool \<Rightarrow> DynamicConfig \<Rightarrow> DynamicConfig" where
  "set_quality_enabled enabled c = c\<lparr> dc_quality_enabled := enabled \<rparr>"

definition set_stall_deselect :: "bool \<Rightarrow> DynamicConfig \<Rightarrow> DynamicConfig" where
  "set_stall_deselect enabled c = c\<lparr> dc_stall_deselect := enabled \<rparr>"

definition set_conn_timeout_ms :: "u64 \<Rightarrow> DynamicConfig \<Rightarrow> u64 \<times> DynamicConfig" where
  "set_conn_timeout_ms ms c =
     (let applied = clamp_conn_timeout ms in (applied, c\<lparr> dc_conn_timeout_ms := applied \<rparr>))"

lemma clamp_conn_timeout_range: "1000 \<le> clamp_conn_timeout ms \<and> clamp_conn_timeout ms \<le> 60000"
  by (simp add: clamp_conn_timeout_def config_consts)

lemma snapshot_default: "snapshot DynamicConfig_new = ConfigSnapshot_default"
  by (simp add: snapshot_def DynamicConfig_new_def ConfigSnapshot_default_def mode_u8_roundtrip)

end
