(* ===== verification/Estimators.thy ===== *)
theory Estimators
  imports Floats
begin

text \<open>
  The numeric filters of the sender core: the exponentially weighted moving average
  (\<^verbatim>\<open>crates/srtla-core/src/ewma.rs\<close>), the two-state Kalman filter
  (\<^verbatim>\<open>crates/srtla-core/src/kalman.rs\<close>) and the time-windowed running minimum
  (\<^verbatim>\<open>crates/srtla-core/src/windowed_min.rs\<close>). The arithmetic is the rounded double precision of
  \<open>Floats\<close>, operation by operation. The main result is about the running minimum: three retained samples are
  enough to always report a sample of the window that is no larger than the latest one.
\<close>

section \<open>Moving average\<close>

record Ewma =
  ew_value :: f64
  ew_alpha :: f64
  ew_initialized :: bool

definition Ewma_new :: "f64 \<Rightarrow> Ewma" where
  "Ewma_new alpha = \<lparr> ew_value = Fin 0, ew_alpha = alpha, ew_initialized = False \<rparr>"

definition Ewma_update :: "f64 \<Rightarrow> Ewma \<Rightarrow> Ewma" where
  "Ewma_update measurement e =
     (if \<not> is_finite measurement then e
      else if \<not> ew_initialized e then e\<lparr> ew_value := measurement, ew_initialized := True \<rparr>
      else e\<lparr> ew_value := f64_add (f64_mul (ew_value e) (f64_sub (Fin 1) (ew_alpha e)))
                                  (f64_mul measurement (ew_alpha e)) \<rparr>)"

definition Ewma_reset :: "Ewma \<Rightarrow> Ewma" where
  "Ewma_reset e = e\<lparr> ew_value := Fin 0, ew_initialized := False \<rparr>"

lemma Ewma_ignores_non_finite [simp]: "\<not> is_finite x \<Longrightarrow> Ewma_update x e = e"
  by (simp add: Ewma_update_def)

lemma Ewma_first_sample [simp]:
  "is_finite x \<Longrightarrow> ew_value (Ewma_update x (Ewma_reset e)) = x"
  by (simp add: Ewma_update_def Ewma_reset_def)

section \<open>Kalman filter\<close>

record KalmanConfig =
  kc_q_value :: f64
  kc_q_velocity :: f64
  kc_r :: f64

definition KalmanConfig_for_rtt :: KalmanConfig where
  "KalmanConfig_for_rtt =
     \<lparr> kc_q_value = f64_of_rat (5 / 10), kc_q_velocity = f64_of_rat (1 / 10), kc_r = f64_of_rat 2 \<rparr>"

text \<open>The covariance matrix is the four entries of the array \<^verbatim>\<open>p\<close>, row by row.\<close>

record KalmanFilter =
  kf_x :: f64
  kf_v :: f64
  kf_p :: "f64 \<times> f64 \<times> f64 \<times> f64"
  kf_config :: KalmanConfig
  kf_initialized :: bool

definition KalmanFilter_new :: "KalmanConfig \<Rightarrow> KalmanFilter" where
  "KalmanFilter_new cfg =
     \<lparr> kf_x = Fin 0, kf_v = Fin 0, kf_p = (Fin 0, Fin 0, Fin 0, Fin 0), kf_config = cfg,
       kf_initialized = False \<rparr>"

definition Kalman_update :: "f64 \<Rightarrow> KalmanFilter \<Rightarrow> KalmanFilter" where
  "Kalman_update measurement k =
     (if \<not> is_finite measurement then k
      else if \<not> kf_initialized k then
        k\<lparr> kf_x := measurement, kf_v := Fin 0,
           kf_p := (kc_r (kf_config k), Fin 0, Fin 0, kc_r (kf_config k)), kf_initialized := True \<rparr>
      else
        let (q0, q1, q2, q3) = kf_p k;
            x_pred = f64_add (kf_x k) (kf_v k);
            v_pred = kf_v k;
            p00 = f64_add (f64_add (f64_add (f64_add q0 q2) q1) q3) (kc_q_value (kf_config k));
            p01 = f64_add q1 q3;
            p10 = f64_add q2 q3;
            p11 = f64_add q3 (kc_q_velocity (kf_config k));
            y = f64_sub measurement x_pred;
            s = f64_add p00 (kc_r (kf_config k))
        in if fl_lt (fl_abs s) (f64_of_rat (1 / 10 ^ 12)) then k
           else
             let k0 = f64_div p00 s;
                 k1 = f64_div p10 s
             in k\<lparr> kf_x := f64_add x_pred (f64_mul k0 y),
                   kf_v := f64_add v_pred (f64_mul k1 y),
                   kf_p := (f64_mul (f64_sub (Fin 1) k0) p00, f64_mul (f64_sub (Fin 1) k0) p01,
                            f64_sub p10 (f64_mul k1 p00), f64_sub p11 (f64_mul k1 p01)) \<rparr>)"

definition Kalman_reset :: "KalmanFilter \<Rightarrow> KalmanFilter" where
  "Kalman_reset k =
     k\<lparr> kf_x := Fin 0, kf_v := Fin 0, kf_p := (Fin 0, Fin 0, Fin 0, Fin 0), kf_initialized := False \<rparr>"

lemma Kalman_ignores_non_finite [simp]: "\<not> is_finite x \<Longrightarrow> Kalman_update x k = k"
  by (simp add: Kalman_update_def)

lemma Kalman_first_sample:
  "is_finite x \<Longrightarrow> \<not> kf_initialized k \<Longrightarrow>
     kf_x (Kalman_update x k) = x \<and> kf_v (Kalman_update x k) = Fin 0 \<and> kf_initialized (Kalman_update x k)"
  by (simp add: Kalman_update_def)

lemma Kalman_stays_initialized: "kf_initialized k \<Longrightarrow> kf_initialized (Kalman_update x k)"
  by (simp add: Kalman_update_def Let_def split: prod.splits)

section \<open>Windowed minimum\<close>

record Sample =
  sm_t_ms :: u64
  sm_v :: f64

record WindowedMin =
  wm_window_ms :: u64
  wm_s :: "(Sample \<times> Sample \<times> Sample) option"

definition WindowedMin_new :: "u64 \<Rightarrow> WindowedMin" where
  "WindowedMin_new window_ms = \<lparr> wm_window_ms = window_ms, wm_s = None \<rparr>"

definition WindowedMin_reset :: "WindowedMin \<Rightarrow> WindowedMin" where
  "WindowedMin_reset w = w\<lparr> wm_s := None \<rparr>"

definition WindowedMin_get :: "WindowedMin \<Rightarrow> f64 option" where
  "WindowedMin_get w = map_option (\<lambda>(s0, s1, s2). sm_v s0) (wm_s w)"

text \<open>The two halves of \<^verbatim>\<open>update\<close> after its guard: admitting the sample among the runners-up,
  then expiry and refresh of the sub-windows.\<close>

definition wm_admit :: "Sample \<Rightarrow> Sample \<times> Sample \<times> Sample \<Rightarrow> Sample \<times> Sample \<times> Sample" where
  "wm_admit val = (\<lambda>(s0, s1, s2).
     if fl_le (sm_v val) (sm_v s1) then (s0, val, val)
     else if fl_le (sm_v val) (sm_v s2) then (s0, s1, val)
     else (s0, s1, s2))"

definition wm_expire :: "u64 \<Rightarrow> Sample \<Rightarrow> Sample \<times> Sample \<times> Sample \<Rightarrow> Sample \<times> Sample \<times> Sample" where
  "wm_expire win val = (\<lambda>(s0, s1, s2).
     let now_ms = sm_t_ms val; dt = now_ms - sm_t_ms s0 in
     if dt > win then
       (if now_ms - sm_t_ms s1 > win then (s2, val, val) else (s1, s2, val))
     else if sm_t_ms s1 = sm_t_ms s0 \<and> dt > win div 4 then (s0, val, val)
     else if sm_t_ms s2 = sm_t_ms s1 \<and> dt > win div 2 then (s0, s1, val)
     else (s0, s1, s2))"

definition WindowedMin_update :: "u64 \<Rightarrow> f64 \<Rightarrow> WindowedMin \<Rightarrow> f64 \<times> WindowedMin" where
  "WindowedMin_update now_ms v w =
     (let val = \<lparr> sm_t_ms = now_ms, sm_v = v \<rparr>; win = wm_window_ms w;
          fresh = (v, w\<lparr> wm_s := Some (val, val, val) \<rparr>)
      in case wm_s w of
           None \<Rightarrow> fresh
         | Some (s0, s1, s2) \<Rightarrow>
             if fl_gt v (sm_v s0) \<and> now_ms - sm_t_ms s2 \<le> win then
               let s = wm_expire win val (wm_admit val (s0, s1, s2))
               in (sm_v (fst s), w\<lparr> wm_s := Some s \<rparr>)
             else fresh)"

text \<open>
  The invariant after an update at time \<open>now\<close> with value \<open>v\<close>: the three samples are in time order
  and in value order, none is later than \<open>now\<close>, the reported one is inside the window, and
  each is one of the samples seen.
\<close>

definition wm_sorted :: "Sample \<times> Sample \<times> Sample \<Rightarrow> bool" where
  "wm_sorted = (\<lambda>(s0, s1, s2). sm_t_ms s0 \<le> sm_t_ms s1 \<and> sm_t_ms s1 \<le> sm_t_ms s2 \<and>
     fl_le (sm_v s0) (sm_v s1) \<and> fl_le (sm_v s1) (sm_v s2))"

definition wm_inv :: "Sample set \<Rightarrow> u64 \<Rightarrow> u64 \<Rightarrow> Sample \<times> Sample \<times> Sample \<Rightarrow> bool" where
  "wm_inv H win now s \<longleftrightarrow>
     (case s of (s0, s1, s2) \<Rightarrow> {s0, s1, s2} \<subseteq> H \<and> sm_t_ms s2 \<le> now \<and> now - sm_t_ms s0 \<le> win \<and> wm_sorted s)"

lemma fl_le_trans: "fl_le a b \<Longrightarrow> fl_le b c \<Longrightarrow> fl_le a c"
  by (auto simp: fl_le_def fl_eq_def dest: fl_lt_trans)

lemma fl_le_refl: "is_finite a \<Longrightarrow> fl_le a a"
  by (simp add: fl_le_def fl_eq_def is_finite_def)

lemma fl_finite_total: "is_finite a \<Longrightarrow> is_finite b \<Longrightarrow> \<not> fl_le a b \<Longrightarrow> fl_le b a"
  by (cases a; cases b) (auto simp: is_finite_def)

lemma fl_gt_le: "fl_gt a b \<Longrightarrow> fl_le b a"
  by (simp add: fl_le_def)

lemma wm_admit_sorted:
  assumes "wm_sorted (s0, s1, s2)" "sm_t_ms s2 \<le> sm_t_ms val" "fl_gt (sm_v val) (sm_v s0)"
    "is_finite (sm_v val)" "is_finite (sm_v s1)" "is_finite (sm_v s2)"
  shows "\<exists>a b. wm_admit val (s0, s1, s2) = (s0, a, b) \<and> wm_sorted (s0, a, b) \<and> fl_le (sm_v b) (sm_v val)
     \<and> sm_t_ms s2 \<le> sm_t_ms b \<and> sm_t_ms b \<le> sm_t_ms val \<and> {a, b} \<subseteq> {s1, s2, val}"
  using assms fl_finite_total [of "sm_v val" "sm_v s1"] fl_finite_total [of "sm_v val" "sm_v s2"]
  by (auto simp: wm_admit_def wm_sorted_def fl_le_refl fl_gt_le intro: fl_le_trans)

lemma wm_expire_inv:
  assumes "wm_sorted (s0, a, b)" "fl_gt (sm_v val) (sm_v s0)" "fl_le (sm_v b) (sm_v val)"
    "sm_t_ms b \<le> sm_t_ms val" "sm_t_ms val - sm_t_ms b \<le> win" "is_finite (sm_v val)"
    "{s0, a, b, val} \<subseteq> H"
  shows "wm_inv H win (sm_t_ms val) (wm_expire win val (s0, a, b)) \<and>
     fl_le (sm_v (fst (wm_expire win val (s0, a, b)))) (sm_v val)"
  using assms
  by (auto simp: wm_expire_def wm_inv_def wm_sorted_def Let_def fl_le_refl fl_gt_le intro: fl_le_trans)

definition wm_state_inv :: "Sample set \<Rightarrow> u64 \<Rightarrow> WindowedMin \<Rightarrow> bool" where
  "wm_state_inv H now w \<longleftrightarrow>
     (case wm_s w of None \<Rightarrow> True | Some s \<Rightarrow> wm_inv H (wm_window_ms w) now s)"

lemma WindowedMin_update_inv:
  assumes "wm_state_inv H t w" "t \<le> now" "is_finite v" "\<forall>x \<in> H. is_finite (sm_v x)"
    and upd: "WindowedMin_update now v w = (r, w')"
  shows "\<exists>s'. wm_s w' = Some s' \<and> wm_window_ms w' = wm_window_ms w \<and> r = sm_v (fst s') \<and> fl_le r v \<and>
     wm_inv (insert \<lparr> sm_t_ms = now, sm_v = v \<rparr> H) (wm_window_ms w) now s'"
proof -
  define val where "val = \<lparr> sm_t_ms = now, sm_v = v \<rparr>"
  have val: "sm_t_ms val = now" "sm_v val = v" by (simp_all add: val_def)
  have fresh: "wm_inv (insert val H) (wm_window_ms w) now (val, val, val) \<and> fl_le v v"
    using assms(3) by (simp add: wm_inv_def wm_sorted_def val fl_le_refl)
  consider (fresh) "r = v" "w' = w\<lparr> wm_s := Some (val, val, val) \<rparr>"
    | (old) s0 s1 s2 where "wm_s w = Some (s0, s1, s2)" "fl_gt v (sm_v s0)"
        "now - sm_t_ms s2 \<le> wm_window_ms w"
        "w' = w\<lparr> wm_s := Some (wm_expire (wm_window_ms w) val (wm_admit val (s0, s1, s2))) \<rparr>"
        "r = sm_v (fst (wm_expire (wm_window_ms w) val (wm_admit val (s0, s1, s2))))"
    using upd by (auto simp: WindowedMin_update_def Let_def val_def [symmetric] split: option.splits if_splits)
  then show ?thesis
  proof cases
    case fresh
    with \<open>wm_inv _ _ now _ \<and> _\<close> show ?thesis by (simp add: val val_def [symmetric])
  next
    case old
    with assms(1) have s: "{s0, s1, s2} \<subseteq> H" "sm_t_ms s2 \<le> t" "wm_sorted (s0, s1, s2)"
      by (auto simp: wm_state_inv_def wm_inv_def)
    with assms(2,3,4) old(2) obtain a b where ab: "wm_admit val (s0, s1, s2) = (s0, a, b)"
      "wm_sorted (s0, a, b)" "fl_le (sm_v b) v" "sm_t_ms s2 \<le> sm_t_ms b" "sm_t_ms b \<le> now"
      "{a, b} \<subseteq> {s1, s2, val}"
      using wm_admit_sorted [of s0 s1 s2 val] by (auto simp: val)
    have "{s0, a, b, val} \<subseteq> insert val H" using s(1) ab(6) by auto
    with wm_expire_inv [of s0 a b val "wm_window_ms w" "insert val H"] ab old assms(3)
    show ?thesis by (simp add: val val_def [symmetric])
  qed
qed

text \<open>The values a filter holds are values it was fed.\<close>

definition wm_all :: "(f64 \<Rightarrow> bool) \<Rightarrow> WindowedMin \<Rightarrow> bool" where
  "wm_all P w \<longleftrightarrow>
     (case wm_s w of None \<Rightarrow> True | Some (s0, s1, s2) \<Rightarrow> P (sm_v s0) \<and> P (sm_v s1) \<and> P (sm_v s2))"

lemma wm_all_new [simp]: "wm_all P (WindowedMin_new win)" "wm_all P (WindowedMin_reset w)"
  by (simp_all add: wm_all_def WindowedMin_new_def WindowedMin_reset_def)

lemma wm_all_update:
  assumes "wm_all P w" "P v"
  shows "P (fst (WindowedMin_update now v w)) \<and> wm_all P (snd (WindowedMin_update now v w))"
proof (cases "wm_s w")
  case None
  with assms show ?thesis by (simp add: wm_all_def WindowedMin_update_def Let_def)
next
  case (Some s)
  obtain s0 s1 s2 where s: "s = (s0, s1, s2)" by (cases s)
  have "P3 (wm_expire (wm_window_ms w) val (wm_admit val (s0, s1, s2)))"
    if "P3 = (\<lambda>(s0, s1, s2). P (sm_v s0) \<and> P (sm_v s1) \<and> P (sm_v s2))"
      "val = \<lparr> sm_t_ms = now, sm_v = v \<rparr>" for P3 val
    using assms Some by (simp add: s that wm_all_def wm_expire_def wm_admit_def Let_def)
  with assms Some show ?thesis
    by (fastforce simp: s wm_all_def WindowedMin_update_def Let_def split: prod.splits)
qed

text \<open>A run of updates, and the samples it was fed.\<close>

definition wm_feed :: "WindowedMin \<Rightarrow> (u64 \<times> f64) list \<Rightarrow> WindowedMin" where
  "wm_feed w xs = foldl (\<lambda>w (t, v). snd (WindowedMin_update t v w)) w xs"

definition samples :: "(u64 \<times> f64) list \<Rightarrow> Sample set" where
  "samples xs = (\<lambda>(t, v). \<lparr> sm_t_ms = t, sm_v = v \<rparr>) ` set xs"

lemma wm_feed_snoc: "wm_feed w (xs @ [(t, v)]) = snd (WindowedMin_update t v (wm_feed w xs))"
  by (simp add: wm_feed_def)

lemma samples_snoc: "samples (xs @ [(t, v)]) = insert \<lparr> sm_t_ms = t, sm_v = v \<rparr> (samples xs)"
  by (auto simp: samples_def)

lemma wm_feed_inv:
  assumes "sorted (map fst xs)" "list_all (\<lambda>(t, v). is_finite v) xs" "xs \<noteq> []"
  shows "\<exists>s. wm_s (wm_feed (WindowedMin_new win) xs) = Some s \<and>
     wm_window_ms (wm_feed (WindowedMin_new win) xs) = win \<and> wm_inv (samples xs) win (fst (last xs)) s \<and>
     fl_le (sm_v (fst s)) (snd (last xs))"
  using assms
proof (induction xs rule: rev_induct)
  case Nil
  then show ?case by simp
next
  case (snoc x xs)
  obtain t v where x: "x = (t, v)" by (cases x)
  let ?w = "wm_feed (WindowedMin_new win) xs"
  have fin: "\<forall>y \<in> samples xs. is_finite (sm_v y)" using snoc.prems(2)
    by (auto simp: samples_def list_all_iff)
  define t0 where "t0 = (if xs = [] then 0 else fst (last xs))"
  have w: "wm_window_ms ?w = win" "wm_state_inv (samples xs) t0 ?w"
  proof (atomize (full), cases "xs = []")
    case True
    then show "wm_window_ms ?w = win \<and> wm_state_inv (samples xs) t0 ?w"
      by (simp add: wm_feed_def WindowedMin_new_def wm_state_inv_def)
  next
    case False
    with snoc show "wm_window_ms ?w = win \<and> wm_state_inv (samples xs) t0 ?w"
      by (auto simp: sorted_append wm_state_inv_def t0_def)
  qed
  have "t0 \<le> t" using snoc.prems(1) by (auto simp: sorted_append x t0_def)
  moreover have "is_finite v" using snoc.prems(2) by (simp add: x)
  moreover obtain r w' where upd: "WindowedMin_update t v ?w = (r, w')" by fastforce
  ultimately obtain s' where "wm_s w' = Some s'" "wm_window_ms w' = win" "fl_le (sm_v (fst s')) v"
    "wm_inv (samples (xs @ [x])) win t s'"
    using WindowedMin_update_inv [OF w(2)] fin w(1) by (metis samples_snoc x)
  moreover have "w' = wm_feed (WindowedMin_new win) (xs @ [x])" by (simp add: x wm_feed_snoc upd)
  ultimately show ?case by (simp add: x)
qed

text \<open>What the windowed minimum reports. After any sequence of finite samples in time order the
  filter reports the value of a sample it was fed, taken no longer than one window before the latest
  sample, and no larger than the latest sample.\<close>

theorem windowed_min_sound:
  assumes "sorted (map fst (xs @ [(now, v)]))" "list_all (\<lambda>(t, x). is_finite x) (xs @ [(now, v)])"
  shows "\<exists>t m. WindowedMin_get (wm_feed (WindowedMin_new win) (xs @ [(now, v)])) = Some m \<and>
     (t, m) \<in> set (xs @ [(now, v)]) \<and> t \<le> now \<and> now - t \<le> win \<and> fl_le m v"
proof -
  obtain s0 s1 s2 where "wm_s (wm_feed (WindowedMin_new win) (xs @ [(now, v)])) = Some (s0, s1, s2)"
    "wm_inv (samples (xs @ [(now, v)])) win now (s0, s1, s2)" "fl_le (sm_v s0) v"
    using wm_feed_inv [OF assms, of win] by auto
  moreover from this(2) have "(sm_t_ms s0, sm_v s0) \<in> set (xs @ [(now, v)])"
    by (auto simp: wm_inv_def samples_def)
  ultimately show ?thesis by (force simp: WindowedMin_get_def wm_inv_def wm_sorted_def)
qed

theorem windowed_min_sound_witness:
  "\<exists>(t :: u64) m. WindowedMin_get (wm_feed (WindowedMin_new 3000) ([(10, Fin 40), (1000, Fin 80)] @ [(3500, Fin 90)])) = Some m \<and>
     (t, m) \<in> set ([(10, Fin 40), (1000, Fin 80)] @ [(3500, Fin 90)]) \<and> t \<le> 3500 \<and> 3500 - t \<le> 3000 \<and> fl_le m (Fin 90)"
  by (rule windowed_min_sound) (simp_all add: is_finite_def)

end
