(* ===== verification/Rtt.thy ===== *)
theory Rtt
  imports Estimators Protocol
begin

text \<open>
  Round-trip measurement of one link (\<^verbatim>\<open>crates/srtla-core/src/connection/rtt.rs\<close>). Every source of
  a round trip goes through \<^verbatim>\<open>record_round_trip\<close>, whose guard keeps the propagation
  floor of the tracker between one millisecond and ten seconds: the invariant \<open>rtt_ok\<close>.
\<close>

definition FAST_WINDOW_MS :: u64 where "FAST_WINDOW_MS = 3000"
definition SLOW_WINDOW_MS :: u64 where "SLOW_WINDOW_MS = 30000"
definition MAX_PLAUSIBLE_RTT_MS :: u64 where "MAX_PLAUSIBLE_RTT_MS = 10000"
definition RTT_MASD_ALPHA :: f64 where "RTT_MASD_ALPHA = f64_of_rat (1 / 10)"
definition GRAD_TRIP_SIGMA :: f64 where "GRAD_TRIP_SIGMA = f64_of_rat 3"
definition GRAD_TRIP_FLOOR_FRACTION :: f64 where "GRAD_TRIP_FLOOR_FRACTION = f64_of_rat (5 / 100)"

definition plausible_round_trip :: "u64 \<Rightarrow> u64 \<Rightarrow> u64 option" where
  "plausible_round_trip sent_ms now_ms =
     (let rtt = now_ms - sent_ms in if rtt \<noteq> 0 \<and> rtt \<le> MAX_PLAUSIBLE_RTT_MS then Some rtt else None)"

definition keepalive_echo_rtt_ms :: "bytes \<Rightarrow> u64 \<Rightarrow> u64 option" where
  "keepalive_echo_rtt_ms data now_ms =
     (case extract_keepalive_timestamp data of
        None \<Rightarrow> None
      | Some ts \<Rightarrow> plausible_round_trip ts now_ms)"

record RttTracker =
  last_keepalive_sent_ms :: u64
  waiting_for_keepalive_response :: bool
  last_rtt_measurement_ms :: u64
  kalman_rtt :: KalmanFilter
  rtt_jitter_ms :: f64
  prev_rtt_ms :: f64
  rtt_avg_delta :: Ewma
  rtt_min_ms :: f64
  rtt_min_fast_ms :: f64
  rtt_min_slow_ms :: f64
  rtt_masd_ms :: f64
  estimated_rtt_ms :: f64
  rtt_min_fast_window :: WindowedMin
  rtt_min_slow_window :: WindowedMin

definition RttTracker_default :: RttTracker where
  "RttTracker_default =
     \<lparr> last_keepalive_sent_ms = 0, waiting_for_keepalive_response = False, last_rtt_measurement_ms = 0,
       kalman_rtt = KalmanFilter_new KalmanConfig_for_rtt, rtt_jitter_ms = Fin 0, prev_rtt_ms = Fin 0,
       rtt_avg_delta = Ewma_new (f64_of_rat (2 / 10)), rtt_min_ms = Fin 200, rtt_min_fast_ms = Fin 200,
       rtt_min_slow_ms = Fin 200, rtt_masd_ms = Fin 0, estimated_rtt_ms = Fin 0,
       rtt_min_fast_window = WindowedMin_new FAST_WINDOW_MS,
       rtt_min_slow_window = WindowedMin_new SLOW_WINDOW_MS \<rparr>"

definition RttTracker_reset :: "RttTracker \<Rightarrow> RttTracker" where
  "RttTracker_reset r =
     r\<lparr> last_rtt_measurement_ms := 0, kalman_rtt := Kalman_reset (kalman_rtt r), rtt_jitter_ms := Fin 0,
        prev_rtt_ms := Fin 0, rtt_avg_delta := Ewma_reset (rtt_avg_delta r), rtt_min_ms := Fin 200,
        rtt_min_fast_ms := Fin 200, rtt_min_slow_ms := Fin 200, rtt_masd_ms := Fin 0,
        estimated_rtt_ms := Fin 0, last_keepalive_sent_ms := 0, waiting_for_keepalive_response := False,
        rtt_min_fast_window := WindowedMin_reset (rtt_min_fast_window r),
        rtt_min_slow_window := WindowedMin_reset (rtt_min_slow_window r) \<rparr>"

definition update_estimate :: "u64 \<Rightarrow> u64 \<Rightarrow> RttTracker \<Rightarrow> RttTracker" where
  "update_estimate rtt_ms now_ms r =
     (let current_rtt = u64_to_f64 rtt_ms;
          (fast_min, fast_w) = WindowedMin_update now_ms current_rtt (rtt_min_fast_window r);
          (slow_min, slow_w) = WindowedMin_update now_ms current_rtt (rtt_min_slow_window r);
          k = Kalman_update current_rtt (kalman_rtt r)
      in if \<not> kf_initialized (kalman_rtt r) then
           r\<lparr> kalman_rtt := k, prev_rtt_ms := current_rtt, estimated_rtt_ms := current_rtt,
              rtt_min_ms := current_rtt, rtt_min_fast_ms := current_rtt, rtt_min_slow_ms := current_rtt,
              rtt_masd_ms := Fin 0, rtt_min_fast_window := fast_w, rtt_min_slow_window := slow_w,
              last_rtt_measurement_ms := now_ms \<rparr>
         else
           let delta_rtt = f64_sub current_rtt (prev_rtt_ms r);
               decayed = f64_mul (rtt_jitter_ms r) (f64_of_rat (99 / 100))
           in r\<lparr> kalman_rtt := k,
                 rtt_avg_delta := Ewma_update delta_rtt (rtt_avg_delta r),
                 rtt_masd_ms := f64_add (f64_mul (rtt_masd_ms r) (f64_sub (Fin 1) RTT_MASD_ALPHA))
                                        (f64_mul (fl_abs delta_rtt) RTT_MASD_ALPHA),
                 prev_rtt_ms := current_rtt,
                 rtt_min_fast_window := fast_w, rtt_min_slow_window := slow_w,
                 rtt_min_fast_ms := fast_min, rtt_min_slow_ms := slow_min,
                 rtt_min_ms := fl_min fast_min slow_min,
                 rtt_jitter_ms := (if fl_gt (fl_abs delta_rtt) decayed then fl_abs delta_rtt else decayed),
                 estimated_rtt_ms := kf_x k,
                 last_rtt_measurement_ms := now_ms \<rparr>)"

definition record_round_trip :: "u64 \<Rightarrow> u64 \<Rightarrow> RttTracker \<Rightarrow> u64 option \<times> RttTracker" where
  "record_round_trip sent_ms now_ms r =
     (case plausible_round_trip sent_ms now_ms of
        None \<Rightarrow> (None, r)
      | Some rtt \<Rightarrow> (Some rtt, update_estimate rtt now_ms r))"

definition rtt_is_stable :: "RttTracker \<Rightarrow> bool" where
  "rtt_is_stable r \<longleftrightarrow> fl_lt (fl_abs (ew_value (rtt_avg_delta r))) (Fin 1)"

definition rtt_gradient_ms :: "RttTracker \<Rightarrow> f64" where
  "rtt_gradient_ms r = fl_max (f64_sub (rtt_min_fast_ms r) (rtt_min_slow_ms r)) (Fin 0)"

definition queue_building_suspected :: "RttTracker \<Rightarrow> bool" where
  "queue_building_suspected r =
     (if \<not> kf_initialized (kalman_rtt r) \<or> \<not> is_finite (rtt_min_ms r) then False
      else let trip = fl_max (f64_mul GRAD_TRIP_SIGMA (rtt_masd_ms r))
                             (f64_mul GRAD_TRIP_FLOOR_FRACTION (rtt_min_ms r))
           in fl_gt (rtt_gradient_ms r) trip)"

definition record_keepalive_sent :: "u64 \<Rightarrow> RttTracker \<Rightarrow> RttTracker" where
  "record_keepalive_sent now_ms r =
     r\<lparr> last_keepalive_sent_ms := now_ms, waiting_for_keepalive_response := True \<rparr>"

definition handle_keepalive_response :: "bytes \<Rightarrow> u64 \<Rightarrow> RttTracker \<Rightarrow> u64 option \<times> RttTracker" where
  "handle_keepalive_response data now_ms r =
     (if \<not> waiting_for_keepalive_response r then (None, r)
      else case extract_keepalive_timestamp data of
             None \<Rightarrow> (None, r\<lparr> waiting_for_keepalive_response := False \<rparr>)
           | Some ts \<Rightarrow>
               (case record_round_trip ts now_ms r of
                  (res, r') \<Rightarrow> (res, r'\<lparr> waiting_for_keepalive_response := False \<rparr>)))"

definition needs_measurement :: "bool \<Rightarrow> u64 \<Rightarrow> u64 \<Rightarrow> RttTracker \<Rightarrow> bool" where
  "needs_measurement link_connected connection_established_ms now_ms r \<longleftrightarrow>
     (if connection_established_ms = 0 then False
      else link_connected \<and> \<not> waiting_for_keepalive_response r \<and>
           (last_rtt_measurement_ms r = 0 \<or> now_ms - last_rtt_measurement_ms r > 3000))"

section \<open>The propagation floor stays plausible\<close>

abbreviation plausible_ms :: "f64 \<Rightarrow> bool" where
  "plausible_ms \<equiv> fl_in 1 10000"

definition rtt_ok :: "RttTracker \<Rightarrow> bool" where
  "rtt_ok r \<longleftrightarrow> plausible_ms (rtt_min_ms r) \<and> plausible_ms (rtt_min_fast_ms r) \<and>
     plausible_ms (rtt_min_slow_ms r) \<and> wm_all plausible_ms (rtt_min_fast_window r) \<and>
     wm_all plausible_ms (rtt_min_slow_window r)"

lemma plausible_round_trip_some:
  "plausible_round_trip sent now = Some rtt \<longleftrightarrow> rtt = now - sent \<and> 1 \<le> rtt \<and> rtt \<le> 10000"
  by (auto simp: plausible_round_trip_def Let_def MAX_PLAUSIBLE_RTT_MS_def)

lemma plausible_sample: "1 \<le> rtt \<Longrightarrow> rtt \<le> 10000 \<Longrightarrow> plausible_ms (u64_to_f64 rtt)"
  using of_nat_mono [of rtt 10000, where ?'a = rat] by (subst u64_to_f64_exact) auto

lemma fl_min_in: "fl_in a b x \<Longrightarrow> fl_in a b y \<Longrightarrow> fl_in a b (fl_min x y)"
  by (auto elim!: fl_inE simp: fl_min_def)

lemma rtt_ok_default [simp]: "rtt_ok RttTracker_default"
  by (simp add: rtt_ok_def RttTracker_default_def)

lemma rtt_ok_reset [simp]: "rtt_ok (RttTracker_reset r)"
  by (simp add: rtt_ok_def RttTracker_reset_def)

lemma rtt_ok_update:
  assumes "rtt_ok r" "1 \<le> rtt" "rtt \<le> 10000"
  shows "rtt_ok (update_estimate rtt now r)"
proof -
  let ?v = "u64_to_f64 rtt"
  have v: "plausible_ms ?v" using assms(2,3) by (rule plausible_sample)
  obtain f fw where f: "WindowedMin_update now ?v (rtt_min_fast_window r) = (f, fw)" by fastforce
  obtain s sw where s: "WindowedMin_update now ?v (rtt_min_slow_window r) = (s, sw)" by fastforce
  have "plausible_ms f \<and> wm_all plausible_ms fw" "plausible_ms s \<and> wm_all plausible_ms sw"
    using wm_all_update [of plausible_ms "rtt_min_fast_window r" ?v now]
      wm_all_update [of plausible_ms "rtt_min_slow_window r" ?v now] assms(1) v f s
    by (simp_all add: rtt_ok_def)
  with v show ?thesis
    by (simp add: update_estimate_def f s rtt_ok_def fl_min_in Let_def)
qed

lemma rtt_ok_record: "rtt_ok r \<Longrightarrow> rtt_ok (snd (record_round_trip sent now r))"
  by (auto simp: record_round_trip_def plausible_round_trip_some split: option.splits intro: rtt_ok_update)

lemma rtt_ok_waiting [simp]:
  "rtt_ok (r\<lparr> waiting_for_keepalive_response := b \<rparr>) = rtt_ok r"
  "rtt_ok (record_keepalive_sent now r) = rtt_ok r"
  by (simp_all add: rtt_ok_def record_keepalive_sent_def)

lemma rtt_ok_response: "rtt_ok r \<Longrightarrow> rtt_ok (snd (handle_keepalive_response data now r))"
  by (auto simp: handle_keepalive_response_def rtt_ok_record case_prod_beta split: option.splits)

lemma record_round_trip_rejects:
  "now - sent = 0 \<or> now - sent > MAX_PLAUSIBLE_RTT_MS \<Longrightarrow> record_round_trip sent now r = (None, r)"
  by (auto simp: record_round_trip_def plausible_round_trip_def Let_def)

text \<open>The tracker as a machine.\<close>

datatype rtt_event = RoundTrip u64 u64 | KeepaliveSent u64 | KeepaliveEcho bytes u64 | RttReset

fun rtt_step :: "RttTracker \<Rightarrow> rtt_event \<Rightarrow> RttTracker" where
  "rtt_step r (RoundTrip sent now) = snd (record_round_trip sent now r)"
| "rtt_step r (KeepaliveSent now) = record_keepalive_sent now r"
| "rtt_step r (KeepaliveEcho data now) = snd (handle_keepalive_response data now r)"
| "rtt_step r RttReset = RttTracker_reset r"

interpretation rtt_machine: machine rtt_step "\<lambda>_. True" rtt_ok
proof
  fix s e
  assume "rtt_ok s"
  then show "rtt_ok (rtt_step s e)" by (cases e) (simp_all add: rtt_ok_record rtt_ok_response)
qed

text \<open>The round-trip floor of a link stays between 1 ms and 10 s. Whatever sequence of measured round
  trips, sent keepalives, echoes (genuine or garbage) and resets a fresh tracker sees, its
  minimum round trips are finite and plausible: no clock jump and no same-millisecond reply makes a
  link look infinitely fast or poisons the floor.\<close>

theorem rtt_floor_plausible:
  "plausible_ms (rtt_min_ms (foldl rtt_step RttTracker_default es)) \<and>
   plausible_ms (rtt_min_fast_ms (foldl rtt_step RttTracker_default es)) \<and>
   plausible_ms (rtt_min_slow_ms (foldl rtt_step RttTracker_default es))"
proof -
  have "rtt_ok (foldl rtt_step RttTracker_default es)"
    by (rule rtt_machine.run_inv) (simp_all add: list_all_iff)
  then show ?thesis by (simp add: rtt_ok_def)
qed

end
