(* ===== verification/Congestion.thy ===== *)
theory Congestion
  imports Floats Protocol
begin

text \<open>
  Congestion control of one link (\<^verbatim>\<open>crates/srtla-core/src/connection/congestion/\<close>: \<^verbatim>\<open>mod.rs\<close>,
  \<^verbatim>\<open>classic.rs\<close>, \<^verbatim>\<open>enhanced.rs\<close>). The window is an argument and a result of the operations, as in
  the code. The window stays between its minimum and its maximum under every sequence of operations, the
  two acknowledgement routines grow it alike, and time-based recovery brings it back to the maximum.
\<close>

definition NAK_BURST_WINDOW_MS :: u64 where "NAK_BURST_WINDOW_MS = 1000"
definition NORMAL_MIN_WAIT_MS :: u64 where "NORMAL_MIN_WAIT_MS = 2000"
definition FAST_MIN_WAIT_MS :: u64 where "FAST_MIN_WAIT_MS = 500"
definition NORMAL_INCREMENT_WAIT_MS :: u64 where "NORMAL_INCREMENT_WAIT_MS = 1000"
definition FAST_INCREMENT_WAIT_MS :: u64 where "FAST_INCREMENT_WAIT_MS = 300"
definition FAST_RECOVERY_DISABLE_WINDOW :: i32 where "FAST_RECOVERY_DISABLE_WINDOW = 12000"
definition RTT_VELOCITY_GATE_THRESHOLD :: f64 where "RTT_VELOCITY_GATE_THRESHOLD = f64_of_rat 2"

record CongestionControl =
  nak_count :: i32
  last_nak_time_ms :: u64
  last_window_increase_ms :: u64
  consecutive_acks_without_nak :: i32
  fast_recovery_mode :: bool
  fast_recovery_start_ms :: u64
  nak_burst_count :: i32
  nak_burst_start_time_ms :: u64

definition CongestionControl_default :: CongestionControl where
  "CongestionControl_default =
     \<lparr> nak_count = 0, last_nak_time_ms = 0, last_window_increase_ms = 0, consecutive_acks_without_nak = 0,
       fast_recovery_mode = False, fast_recovery_start_ms = 0, nak_burst_count = 0,
       nak_burst_start_time_ms = 0 \<rparr>"

definition CongestionControl_reset :: "CongestionControl \<Rightarrow> CongestionControl" where
  "CongestionControl_reset c =
     c\<lparr> nak_count := 0, last_nak_time_ms := 0, nak_burst_count := 0, nak_burst_start_time_ms := 0,
        last_window_increase_ms := 0, consecutive_acks_without_nak := 0, fast_recovery_mode := False,
        fast_recovery_start_ms := 0 \<rparr>"

definition cc_handle_nak :: "u64 \<Rightarrow> i32 \<times> CongestionControl \<Rightarrow> i32 \<times> CongestionControl" where
  "cc_handle_nak now_ms = (\<lambda>(window, c0).
     let c1 = c0\<lparr> nak_count := i32_saturating_add (nak_count c0) 1 \<rparr>;
         time_since_last_nak = now_ms - last_nak_time_ms c1;
         c2 = (if last_nak_time_ms c1 > 0 \<and> time_since_last_nak < NAK_BURST_WINDOW_MS then
                 (if nak_burst_count c1 = 0
                  then c1\<lparr> nak_burst_count := 2, nak_burst_start_time_ms := last_nak_time_ms c1 \<rparr>
                  else c1\<lparr> nak_burst_count := i32_saturating_add (nak_burst_count c1) 1 \<rparr>)
               else c1\<lparr> nak_burst_count := 0, nak_burst_start_time_ms := 0 \<rparr>);
         c3 = c2\<lparr> last_nak_time_ms := now_ms, consecutive_acks_without_nak := 0 \<rparr>;
         window' = max (i32_sub window WINDOW_DECR) (WINDOW_MIN * WINDOW_MULT);
         c4 = (if window' \<le> 2000 \<and> \<not> fast_recovery_mode c3
               then c3\<lparr> fast_recovery_mode := True, fast_recovery_start_ms := now_ms \<rparr>
               else c3)
     in (window', c4))"

section \<open>Acknowledgements\<close>

definition classic_handle_srtla_ack_specific :: "i32 \<Rightarrow> i32 \<Rightarrow> i32" where
  "classic_handle_srtla_ack_specific in_flight_packets window =
     (if i32_saturating_mul in_flight_packets WINDOW_MULT > window
      then min (i32_sub (i32_add window WINDOW_INCR) 1) (WINDOW_MAX * WINDOW_MULT)
      else window)"

definition handle_srtla_ack_specific_classic ::
  "i32 \<Rightarrow> i32 \<times> CongestionControl \<Rightarrow> i32 \<times> CongestionControl" where
  "handle_srtla_ack_specific_classic in_flight_packets = (\<lambda>(window, c).
     (classic_handle_srtla_ack_specific in_flight_packets window, c))"

definition enhanced_handle_srtla_ack :: "i32 \<Rightarrow> i32 \<Rightarrow> bool \<Rightarrow> i32 \<times> bool" where
  "enhanced_handle_srtla_ack in_flight_packets window fast_mode =
     (let window' = (if i32_saturating_mul in_flight_packets WINDOW_MULT > window
                     then min (i32_sub (i32_add window WINDOW_INCR) 1) (WINDOW_MAX * WINDOW_MULT)
                     else window)
      in (window', if fast_mode \<and> window' \<ge> FAST_RECOVERY_DISABLE_WINDOW then False else fast_mode))"

definition handle_srtla_ack_enhanced ::
  "i32 \<Rightarrow> i32 \<times> CongestionControl \<Rightarrow> i32 \<times> CongestionControl" where
  "handle_srtla_ack_enhanced in_flight_packets = (\<lambda>(window, c).
     case enhanced_handle_srtla_ack in_flight_packets window (fast_recovery_mode c) of
       (window', fast) \<Rightarrow> (window', c\<lparr> fast_recovery_mode := fast \<rparr>))"

section \<open>Time-based recovery\<close>

definition recovery_base_incr :: "u64 \<Rightarrow> bool \<Rightarrow> i32" where
  "recovery_base_incr time_since_last_nak fast =
     (let fast_mode_bonus = (if fast then 2 else 1) in
      if time_since_last_nak > 10000 then WINDOW_INCR * 2 * fast_mode_bonus
      else if time_since_last_nak > 7000 then WINDOW_INCR * fast_mode_bonus
      else if time_since_last_nak > 5000 then i32_div (WINDOW_INCR * fast_mode_bonus) 2
      else i32_div (WINDOW_INCR * fast_mode_bonus) 4)"

definition cc_perform_window_recovery ::
  "bool \<Rightarrow> f64 \<Rightarrow> u64 \<Rightarrow> i32 \<times> CongestionControl \<Rightarrow> i32 \<times> CongestionControl" where
  "cc_perform_window_recovery link_connected rtt_velocity now_ms = (\<lambda>(window, c).
     if \<not> link_connected \<or> window \<ge> WINDOW_MAX * WINDOW_MULT then (window, c)
     else
       let time_since_last_nak = (if last_nak_time_ms c > 0 then now_ms - last_nak_time_ms c else U64_MAX);
           c1 = (if time_since_last_nak \<ge> NAK_BURST_WINDOW_MS \<and> nak_burst_count c > 0
                 then c\<lparr> nak_burst_count := 0, nak_burst_start_time_ms := 0 \<rparr> else c);
           min_wait_time = (if fast_recovery_mode c1 then FAST_MIN_WAIT_MS else NORMAL_MIN_WAIT_MS);
           increment_wait = (if fast_recovery_mode c1 then FAST_INCREMENT_WAIT_MS else NORMAL_INCREMENT_WAIT_MS)
       in if time_since_last_nak > min_wait_time \<and> now_ms - last_window_increase_ms c1 > increment_wait then
            let velocity_scale = (if fl_gt rtt_velocity RTT_VELOCITY_GATE_THRESHOLD
                                  then f64_of_rat (5 / 10) else Fin 1);
                base_incr = recovery_base_incr time_since_last_nak (fast_recovery_mode c1);
                window1 = i32_add window (fl_to_i32 (f64_mul (i32_to_f64 base_incr) velocity_scale));
                window2 = min window1 (WINDOW_MAX * WINDOW_MULT);
                c2 = c1\<lparr> last_window_increase_ms := now_ms \<rparr>
            in (window2, if fast_recovery_mode c2 \<and> window2 \<ge> FAST_RECOVERY_DISABLE_WINDOW
                         then c2\<lparr> fast_recovery_mode := False \<rparr> else c2)
          else (window, c1))"

definition time_since_last_nak_ms :: "u64 \<Rightarrow> CongestionControl \<Rightarrow> u64 option" where
  "time_since_last_nak_ms now_ms c =
     (if last_nak_time_ms c = 0 then None else Some (now_ms - last_nak_time_ms c))"

section \<open>What one recovery step adds\<close>

text \<open>The increment, with the conversion to double precision and back worked out.\<close>

definition recovery_incr :: "u64 \<Rightarrow> bool \<Rightarrow> f64 \<Rightarrow> i32" where
  "recovery_incr since fast velocity =
     (if fl_gt velocity RTT_VELOCITY_GATE_THRESHOLD then recovery_base_incr since fast div 2
      else recovery_base_incr since fast)"

lemma recovery_base_cases:
  "recovery_base_incr since fast \<in> {7, 15, 30, 60, 120}"
  by (simp add: recovery_base_incr_def Let_def protocol_consts i32_div_def)

lemma half_exact:
  "f64_of_rat (1 / 2) = Fin (1 / 2)" "f64_of_rat (7 / 2) = Fin (7 / 2)" "f64_of_rat (15 / 2) = Fin (15 / 2)"
  using f64_of_half [of 1] f64_of_half [of 7] f64_of_half [of 15] by simp_all

lemma recovery_incr_float:
  "fl_to_i32 (f64_mul (i32_to_f64 (recovery_base_incr since fast))
      (if fl_gt velocity RTT_VELOCITY_GATE_THRESHOLD then f64_of_rat (5 / 10) else Fin 1)) =
   recovery_incr since fast velocity"
  using recovery_base_cases [of since fast]
  by (auto simp: i32_to_f64_def half_exact recovery_incr_def fl_to_i32_def trunc_def floor_unique)

lemma recovery_incr_bounds: "3 \<le> recovery_incr since fast velocity" "recovery_incr since fast velocity \<le> 120"
  using recovery_base_cases [of since fast] by (auto simp: recovery_incr_def)


definition nak_age :: "u64 \<Rightarrow> CongestionControl \<Rightarrow> u64" where
  "nak_age now c = (if last_nak_time_ms c > 0 then now - last_nak_time_ms c else U64_MAX)"

definition recovery_due :: "bool \<Rightarrow> u64 \<Rightarrow> i32 \<Rightarrow> CongestionControl \<Rightarrow> bool" where
  "recovery_due conn now w c \<longleftrightarrow> conn \<and> w < 60000 \<and>
     nak_age now c > (if fast_recovery_mode c then FAST_MIN_WAIT_MS else NORMAL_MIN_WAIT_MS) \<and>
     now - last_window_increase_ms c >
       (if fast_recovery_mode c then FAST_INCREMENT_WAIT_MS else NORMAL_INCREMENT_WAIT_MS)"

lemma cc_recovery_window:
  assumes "0 \<le> w" "w \<le> 60000"
  shows "fst (cc_perform_window_recovery conn vel now (w, c)) =
    (if recovery_due conn now w c then min (w + recovery_incr (nak_age now c) (fast_recovery_mode c) vel) 60000
     else w)"
proof -
  have "i32_add w (recovery_incr since fast vel) = w + recovery_incr since fast vel" for since fast
    using assms recovery_incr_bounds [of since fast vel] by (intro i32_add_id) (simp add: in_i32_def)
  then show ?thesis
    by (simp add: cc_perform_window_recovery_def recovery_due_def nak_age_def [symmetric] Let_def
        recovery_incr_float protocol_consts not_le) blast
qed

lemma cc_recovery_frame:
  "last_nak_time_ms (snd (cc_perform_window_recovery conn vel now (w, c))) = last_nak_time_ms c"
  "last_window_increase_ms (snd (cc_perform_window_recovery conn vel now (w, c))) =
     (if recovery_due conn now w c then now else last_window_increase_ms c)"
  by (simp_all add: cc_perform_window_recovery_def recovery_due_def nak_age_def [symmetric] Let_def
      protocol_consts not_le) blast

section \<open>The window stays in its range\<close>

definition window_ok :: "i32 \<Rightarrow> bool" where
  "window_ok w \<longleftrightarrow> WINDOW_MIN * WINDOW_MULT \<le> w \<and> w \<le> WINDOW_MAX * WINDOW_MULT"

lemma window_ok_iff: "window_ok w \<longleftrightarrow> 1000 \<le> w \<and> w \<le> 60000"
  by (simp add: window_ok_def protocol_consts)

lemma nak_window: "window_ok w \<Longrightarrow> fst (cc_handle_nak now (w, c)) = max 1000 (w - 100)"
  by (auto simp: cc_handle_nak_def Let_def window_ok_iff protocol_consts i32_sub_id in_i32_def)

lemma window_ok_nak [inv_intros]: "window_ok w \<Longrightarrow> window_ok (fst (cc_handle_nak now (w, c)))"
  by (simp add: nak_window) (simp add: window_ok_iff)

lemma classic_window:
  "window_ok w \<Longrightarrow> classic_handle_srtla_ack_specific n w =
     (if n * 1000 > w then min 60000 (w + 29) else w)"
  by (auto simp: classic_handle_srtla_ack_specific_def window_ok_iff protocol_consts i32_add_id i32_sub_id
      in_i32_def i32_saturating_mul_def i32_clip_def)

lemma window_ok_classic [inv_intros]: "window_ok w \<Longrightarrow> window_ok (classic_handle_srtla_ack_specific n w)"
  by (simp add: classic_window) (simp add: window_ok_iff)

lemma enhanced_is_classic:
  "fst (handle_srtla_ack_enhanced n (w, c)) = classic_handle_srtla_ack_specific n w"
  by (simp add: handle_srtla_ack_enhanced_def enhanced_handle_srtla_ack_def
      classic_handle_srtla_ack_specific_def Let_def)

lemma window_ok_recovery [inv_intros]:
  "window_ok w \<Longrightarrow> window_ok (fst (cc_perform_window_recovery conn vel now (w, c)))"
  using recovery_incr_bounds [of "nak_age now c" "fast_recovery_mode c" vel]
  by (auto simp: window_ok_iff cc_recovery_window)

lemma recovery_grows:
  "window_ok w \<Longrightarrow> w \<le> fst (cc_perform_window_recovery conn vel now (w, c))"
  "window_ok w \<Longrightarrow> fst (cc_perform_window_recovery conn vel now (w, c)) \<le> w + 120"
  using recovery_incr_bounds [of "nak_age now c" "fast_recovery_mode c" vel]
  by (auto simp: window_ok_iff cc_recovery_window)

datatype cc_event = CcNak u64 | CcAckClassic i32 | CcAckEnhanced i32 | CcRecovery bool f64 u64

fun cc_step :: "i32 \<times> CongestionControl \<Rightarrow> cc_event \<Rightarrow> i32 \<times> CongestionControl" where
  "cc_step s (CcNak now) = cc_handle_nak now s"
| "cc_step s (CcAckClassic n) = handle_srtla_ack_specific_classic n s"
| "cc_step s (CcAckEnhanced n) = handle_srtla_ack_enhanced n s"
| "cc_step s (CcRecovery conn vel now) = cc_perform_window_recovery conn vel now s"

interpretation cc_machine: machine cc_step "\<lambda>_. True" "\<lambda>s :: i32 \<times> CongestionControl. window_ok (fst s)"
proof
  fix s :: "i32 \<times> CongestionControl" and e
  assume "window_ok (fst s)"
  then show "window_ok (fst (cc_step s e))"
    by (cases s; cases e)
      (simp_all add: inv_intros enhanced_is_classic, simp add: handle_srtla_ack_specific_classic_def inv_intros)
qed

text \<open>Without loss reports the window only grows: the machine restricted to the other events.\<close>

definition no_loss :: "cc_event \<Rightarrow> bool" where
  "no_loss e = (case e of CcNak _ \<Rightarrow> False | _ \<Rightarrow> True)"

interpretation cc_growth: monotone_machine cc_step no_loss "\<lambda>s :: i32 \<times> CongestionControl. window_ok (fst s)" fst
proof
  fix s :: "i32 \<times> CongestionControl" and e
  assume ok: "window_ok (fst s)" and "no_loss e"
  show "window_ok (fst (cc_step s e))" using ok by (rule cc_machine.step_inv) simp
  show "fst s \<le> fst (cc_step s e)"
    using ok \<open>no_loss e\<close>
    by (cases s; cases e)
      (auto simp: no_loss_def enhanced_is_classic classic_window recovery_grows
        handle_srtla_ack_specific_classic_def window_ok_iff)
qed

text \<open>A link's congestion window never leaves its range. From any window between
  \<^verbatim>\<open>WINDOW_MIN * WINDOW_MULT\<close> and \<^verbatim>\<open>WINDOW_MAX * WINDOW_MULT\<close>, after any sequence of loss reports,
  acknowledgements of either mode and time-based recovery steps, with any in-flight
  counts, clock values and velocities (not-a-number included), the window is still in that range; and without a
  loss report it is never lower than it was.\<close>

theorem congestion_window_range:
  assumes "window_ok w"
  shows "window_ok (fst (foldl cc_step (w, c) es)) \<and>
     (list_all no_loss es \<longrightarrow> w \<le> fst (foldl cc_step (w, c) es))"
  using cc_machine.run_inv [of "(w, c)" es] cc_growth.run_level [of "(w, c)" es] assms
  by (simp add: list_all_iff)

theorem congestion_window_range_witness:
  "window_ok (fst (foldl cc_step (20000, CongestionControl_default) [CcNak 5, CcRecovery True NaN 9000, CcAckClassic 70]))"
  using congestion_window_range [of 20000 CongestionControl_default
      "[CcNak 5, CcRecovery True NaN 9000, CcAckClassic 70]"]
  by (simp add: window_ok_iff)


section \<open>Recovery reaches the maximum\<close>

text \<open>A series of housekeeping passes, more than a second apart.\<close>

fun spaced :: "u64 \<Rightarrow> u64 list \<Rightarrow> bool" where
  "spaced t [] = True"
| "spaced t (u # us) = (t + NORMAL_INCREMENT_WAIT_MS < u \<and> spaced u us)"

lemma recovery_due_quiet:
  assumes "t + NORMAL_INCREMENT_WAIT_MS < u" "last_window_increase_ms c \<le> t"
    and "last_nak_time_ms c = 0 \<or> last_nak_time_ms c + 10000 \<le> t"
  shows "recovery_due True u w c \<longleftrightarrow> w < 60000" "30 \<le> recovery_incr (nak_age u c) fast vel"
proof -
  have "nak_age u c > 10000"
    using assms(1,3) by (auto simp: nak_age_def NORMAL_INCREMENT_WAIT_MS_def)
  then show "30 \<le> recovery_incr (nak_age u c) fast vel"
    by (simp add: recovery_incr_def recovery_base_incr_def protocol_consts)
  from \<open>nak_age u c > 10000\<close> assms(1,2) show "recovery_due True u w c \<longleftrightarrow> w < 60000"
    by (auto simp: recovery_due_def NORMAL_INCREMENT_WAIT_MS_def FAST_INCREMENT_WAIT_MS_def
        NORMAL_MIN_WAIT_MS_def FAST_MIN_WAIT_MS_def)
qed

lemma recovery_run:
  assumes "window_ok w" "spaced t us" "last_window_increase_ms c \<le> t"
    and "last_nak_time_ms c = 0 \<or> last_nak_time_ms c + 10000 \<le> t"
  shows "min 60000 (w + 30 * int (length us)) \<le>
     fst (foldl (\<lambda>s u. cc_perform_window_recovery True vel u s) (w, c) us)"
  using assms
proof (induction us arbitrary: w c t)
  case Nil
  then show ?case by simp
next
  case (Cons u us)
  obtain w' c' where s: "cc_perform_window_recovery True vel u (w, c) = (w', c')" by fastforce
  have t: "t + NORMAL_INCREMENT_WAIT_MS < u" using Cons.prems(2) by simp
  note due = recovery_due_quiet [OF t Cons.prems(3,4)]
  have w': "min 60000 (w + 30) \<le> w'"
    using cc_recovery_window [of w True vel u c] due(1) [of w] due(2) [of "fast_recovery_mode c" vel]
      Cons.prems(1) by (auto simp: s window_ok_iff)
  have "window_ok w'" using window_ok_recovery [OF Cons.prems(1), of True vel u c] by (simp add: s)
  moreover have "last_window_increase_ms c' \<le> u" "last_nak_time_ms c' = 0 \<or> last_nak_time_ms c' + 10000 \<le> u"
    using cc_recovery_frame [of True vel u w c] Cons.prems(3,4) t by (auto simp: s split: if_splits)
  ultimately have "min 60000 (w' + 30 * int (length us)) \<le>
      fst (foldl (\<lambda>s u. cc_perform_window_recovery True vel u s) (w', c') us)"
    using Cons.IH [of w' u c'] Cons.prems(2) by simp
  with w' show ?case by (simp add: s)
qed

text \<open>Time-based recovery is live. A connected link that sees no loss report has its window back
  at the maximum after 1967 housekeeping passes more than a second apart, from whatever window it starts and
  whatever its round-trip trend is.\<close>

theorem recovery_reaches_max:
  assumes "window_ok w" "spaced t us" "last_window_increase_ms c \<le> t"
    and "last_nak_time_ms c = 0 \<or> last_nak_time_ms c + 10000 \<le> t" "1967 \<le> length us"
  shows "fst (foldl (\<lambda>s u. cc_perform_window_recovery True vel u s) (w, c) us) = WINDOW_MAX * WINDOW_MULT"
proof -
  let ?r = "foldl (\<lambda>s u. cc_perform_window_recovery True vel u s) (w, c) us"
  have "?r = foldl cc_step (w, c) (map (CcRecovery True vel) us)" by (simp add: foldl_map)
  then have "window_ok (fst ?r)"
    using cc_machine.run_inv [of "(w, c)" "map (CcRecovery True vel) us"] assms(1) by (simp add: list_all_iff)
  moreover have "60000 \<le> fst ?r"
    using recovery_run [OF assms(1-4), of vel] assms(1,5) by (auto simp: window_ok_iff)
  ultimately show ?thesis by (simp add: window_ok_iff protocol_consts)
qed

text \<open>Passes one second and one millisecond apart.\<close>

fun passes :: "u64 \<Rightarrow> nat \<Rightarrow> u64 list" where
  "passes t 0 = []"
| "passes t (Suc n) = (t + 1001) # passes (t + 1001) n"

lemma spaced_passes: "spaced t (passes t n)" "length (passes t n) = n"
  by (induction n arbitrary: t) (simp_all add: NORMAL_INCREMENT_WAIT_MS_def)

theorem recovery_reaches_max_witness:
  "fst (foldl (\<lambda>s u. cc_perform_window_recovery True NaN u s) (1000, CongestionControl_default)
     (passes 5 1967)) = WINDOW_MAX * WINDOW_MULT"
  by (rule recovery_reaches_max [OF _ spaced_passes(1)])
    (simp_all only: window_ok_iff CongestionControl_default_def spaced_passes CongestionControl.simps, simp_all)

end
