(* ===== verification/Link_Parts.thy ===== *)
theory Link_Parts
  imports Floats
begin

text \<open>
  Three parts every link owns: the batch queue (\<^verbatim>\<open>connection/batch_send.rs\<close>), the bitrate meter
  (\<^verbatim>\<open>connection/bitrate.rs\<close>) and the reconnection pacing (\<^verbatim>\<open>connection/reconnection.rs\<close>). The batch queue
  keeps three parallel vectors; the locale \<open>drain_queue\<close> states the queue it implements and
  what a client gets from it: every packet comes out once, in order.
\<close>

section \<open>Batch queue\<close>

definition BATCH_SEND_SIZE :: usize where "BATCH_SEND_SIZE = 32"
definition HIGH_LOAD_THRESHOLD_BPS :: f64 where "HIGH_LOAD_THRESHOLD_BPS = f64_of_rat 5000000"
definition LOW_ACTIVITY_THRESHOLD_BPS :: f64 where "LOW_ACTIVITY_THRESHOLD_BPS = f64_of_rat 500000"
definition BATCH_SIZE_LOW_ACTIVITY :: usize where "BATCH_SIZE_LOW_ACTIVITY = 4"
definition BATCH_SIZE_NORMAL :: usize where "BATCH_SIZE_NORMAL = 16"
definition BATCH_SIZE_HIGH_LOAD :: usize where "BATCH_SIZE_HIGH_LOAD = 32"
definition FLUSH_INTERVAL_MS :: u64 where "FLUSH_INTERVAL_MS = 15"

type_synonym DrainedPacket = "bytes \<times> u32 option \<times> u64"

datatype BatchRegime = LowActivity | Normal | HighLoad

definition regime_as_str :: "BatchRegime \<Rightarrow> string" where
  "regime_as_str r =
     (case r of LowActivity \<Rightarrow> ''low_activity'' | Normal \<Rightarrow> ''normal'' | HighLoad \<Rightarrow> ''high_load'')"

definition regime_from_bps :: "f64 \<Rightarrow> BatchRegime" where
  "regime_from_bps bps =
     (if fl_gt bps HIGH_LOAD_THRESHOLD_BPS then HighLoad
      else if fl_le bps LOW_ACTIVITY_THRESHOLD_BPS then LowActivity
      else Normal)"

definition batch_size :: "BatchRegime \<Rightarrow> usize" where
  "batch_size r =
     (case r of LowActivity \<Rightarrow> BATCH_SIZE_LOW_ACTIVITY | Normal \<Rightarrow> BATCH_SIZE_NORMAL
      | HighLoad \<Rightarrow> BATCH_SIZE_HIGH_LOAD)"

record BatchSender =
  bs_queue :: "bytes list"
  bs_sequences :: "u32 option list"
  bs_queue_times :: "u64 list"
  bs_last_flush_ms :: u64
  bs_regime :: BatchRegime

definition BatchSender_new :: BatchSender where
  "BatchSender_new =
     \<lparr> bs_queue = [], bs_sequences = [], bs_queue_times = [], bs_last_flush_ms = 0, bs_regime = Normal \<rparr>"

definition queue_packet :: "bytes \<Rightarrow> u32 option \<Rightarrow> u64 \<Rightarrow> BatchSender \<Rightarrow> bool \<times> BatchSender" where
  "queue_packet data sq current_time_ms b =
     (let b' = b\<lparr> bs_queue := bs_queue b @ [data], bs_sequences := bs_sequences b @ [sq],
                   bs_queue_times := bs_queue_times b @ [current_time_ms] \<rparr>
      in (length (bs_queue b') \<ge> batch_size (bs_regime b'), b'))"

definition set_regime :: "BatchRegime \<Rightarrow> BatchSender \<Rightarrow> BatchSender" where
  "set_regime r b = b\<lparr> bs_regime := r \<rparr>"

definition needs_time_flush :: "u64 \<Rightarrow> BatchSender \<Rightarrow> bool" where
  "needs_time_flush now_ms b \<longleftrightarrow> bs_queue b \<noteq> [] \<and> now_ms - bs_last_flush_ms b \<ge> FLUSH_INTERVAL_MS"

definition has_queued_packets :: "BatchSender \<Rightarrow> bool" where
  "has_queued_packets b \<longleftrightarrow> bs_queue b \<noteq> []"

definition queued_count :: "BatchSender \<Rightarrow> i32" where
  "queued_count b = i32_wrap (int (length (bs_queue b)))"

definition batch_drain :: "u64 \<Rightarrow> BatchSender \<Rightarrow> DrainedPacket list \<times> BatchSender" where
  "batch_drain now_ms b =
     (if bs_queue b = [] then ([], b\<lparr> bs_last_flush_ms := now_ms \<rparr>)
      else (map (\<lambda>((data, sq), t). (data, sq, t)) (zip (zip (bs_queue b) (bs_sequences b)) (bs_queue_times b)),
            b\<lparr> bs_last_flush_ms := now_ms, bs_queue := [], bs_sequences := [], bs_queue_times := [] \<rparr>))"

definition BatchSender_reset :: "BatchSender \<Rightarrow> BatchSender" where
  "BatchSender_reset b =
     b\<lparr> bs_queue := [], bs_sequences := [], bs_queue_times := [], bs_last_flush_ms := 0 \<rparr>"

text \<open>The vectors are parallel.\<close>

definition batch_ok :: "BatchSender \<Rightarrow> bool" where
  "batch_ok b \<longleftrightarrow> length (bs_sequences b) = length (bs_queue b) \<and>
     length (bs_queue_times b) = length (bs_queue b)"

definition batch_abs :: "BatchSender \<Rightarrow> DrainedPacket list" where
  "batch_abs b = map (\<lambda>((data, sq), t). (data, sq, t)) (zip (zip (bs_queue b) (bs_sequences b)) (bs_queue_times b))"

locale drain_queue =
  fixes enq :: "'x \<Rightarrow> 'q \<Rightarrow> 'q"
    and drn :: "'t \<Rightarrow> 'q \<Rightarrow> 'x list \<times> 'q"
    and content :: "'q \<Rightarrow> 'x list"
    and ok :: "'q \<Rightarrow> bool"
  assumes enq_ok: "ok q \<Longrightarrow> ok (enq x q)"
    and drn_ok: "ok q \<Longrightarrow> ok (snd (drn t q))"
    and content_enq: "ok q \<Longrightarrow> content (enq x q) = content q @ [x]"
    and drn_out: "ok q \<Longrightarrow> fst (drn t q) = content q"
    and drn_empty: "ok q \<Longrightarrow> content (snd (drn t q)) = []"
begin

text \<open>A run of enqueue and drain operations, with everything drained so far.\<close>

definition step :: "'q \<times> 'x list \<Rightarrow> 'x + 't \<Rightarrow> 'q \<times> 'x list" where
  "step = (\<lambda>(q, out) e. case e of Inl x \<Rightarrow> (enq x q, out) | Inr t \<Rightarrow> (snd (drn t q), out @ fst (drn t q)))"

definition enqueued :: "('x + 't) list \<Rightarrow> 'x list" where
  "enqueued es = concat (map (\<lambda>e. case e of Inl x \<Rightarrow> [x] | Inr t \<Rightarrow> []) es)"

lemma run_fifo:
  assumes "ok q" "foldl step (q, out) es = (q', out')"
  shows "ok q' \<and> out' @ content q' = out @ content q @ enqueued es"
  using assms
proof (induction es arbitrary: q out)
  case Nil
  then show ?case by (simp add: enqueued_def)
next
  case (Cons e es)
  show ?case
  proof (cases e)
    case (Inl x)
    with Cons.prems Cons.IH [of "enq x q" out] show ?thesis
      by (simp add: step_def enqueued_def enq_ok content_enq)
  next
    case (Inr t)
    with Cons.prems Cons.IH [of "snd (drn t q)" "out @ content q"] show ?thesis
      by (simp add: step_def enqueued_def drn_ok drn_out drn_empty)
  qed
qed

end

definition batch_enq :: "DrainedPacket \<Rightarrow> BatchSender \<Rightarrow> BatchSender" where
  "batch_enq = (\<lambda>(data, sq, t) b. snd (queue_packet data sq t b))"

lemma batch_ok_ops [simp]:
  "batch_ok BatchSender_new" "batch_ok (BatchSender_reset b)"
  "batch_ok b \<Longrightarrow> batch_ok (snd (queue_packet data sq t b))"
  "batch_ok b \<Longrightarrow> batch_ok (snd (batch_drain now b))"
  "batch_ok (set_regime r b) = batch_ok b"
  by (simp_all add: batch_ok_def BatchSender_new_def BatchSender_reset_def queue_packet_def batch_drain_def
      set_regime_def Let_def)

interpretation batch: drain_queue batch_enq batch_drain batch_abs batch_ok
proof
  fix b x t
  assume ok: "batch_ok b"
  show "batch_ok (batch_enq x b)" using ok by (cases x) (simp add: batch_enq_def)
  show "batch_ok (snd (batch_drain t b))" using ok by simp
  show "batch_abs (batch_enq x b) = batch_abs b @ [x]"
    using ok by (cases x) (simp add: batch_enq_def batch_abs_def queue_packet_def batch_ok_def Let_def)
  show "fst (batch_drain t b) = batch_abs b" by (simp add: batch_drain_def batch_abs_def)
  show "batch_abs (snd (batch_drain t b)) = []" by (simp add: batch_drain_def batch_abs_def)
qed

lemma batch_abs_length: "batch_ok b \<Longrightarrow> length (batch_abs b) = length (bs_queue b)"
  by (simp add: batch_abs_def batch_ok_def)

text \<open>A history of the queue: what was queued, and what its drains returned.\<close>

datatype batch_event = QueuePacket bytes "u32 option" u64 | Drain u64

fun batch_run :: "BatchSender \<Rightarrow> batch_event list \<Rightarrow> DrainedPacket list \<times> BatchSender" where
  "batch_run b [] = ([], b)"
| "batch_run b (QueuePacket data sq t # es) = batch_run (snd (queue_packet data sq t b)) es"
| "batch_run b (Drain now # es) =
     (case batch_drain now b of (out, b') \<Rightarrow>
        (case batch_run b' es of (outs, b'') \<Rightarrow> (out @ outs, b'')))"

fun queued_packets :: "batch_event list \<Rightarrow> DrainedPacket list" where
  "queued_packets [] = []"
| "queued_packets (QueuePacket data sq t # es) = (data, sq, t) # queued_packets es"
| "queued_packets (Drain now # es) = queued_packets es"

fun batch_op :: "batch_event \<Rightarrow> DrainedPacket + u64" where
  "batch_op (QueuePacket data sq t) = Inl (data, sq, t)"
| "batch_op (Drain now) = Inr now"

lemma batch_step_simps:
  "batch.step (b, out) (Inl (data, sq, t)) = (snd (queue_packet data sq t b), out)"
  "batch.step (b, out) (Inr now) = (snd (batch_drain now b), out @ fst (batch_drain now b))"
  by (simp_all add: batch.step_def) (simp add: batch_enq_def)

lemma batch_run_steps:
  "foldl batch.step (b, out) (map batch_op es) = (snd (batch_run b es), out @ fst (batch_run b es))"
proof (induction es arbitrary: b out)
  case (Cons e es)
  then show ?case by (cases e) (simp_all add: batch_step_simps case_prod_beta)
qed simp

lemma queued_packets_enqueued: "batch.enqueued (map batch_op es) = queued_packets es"
  by (induction es rule: queued_packets.induct) (simp_all add: batch.enqueued_def)

text \<open>The batch queue delivers every packet once and in order. Over any history of queueing and draining, what
  the drains returned followed by what is still queued is exactly the sequence of packets queued, each
  with its own sequence number and queue time; the three vectors stay parallel.\<close>

theorem batch_fifo:
  "batch_ok (snd (batch_run BatchSender_new es)) \<and>
   fst (batch_run BatchSender_new es) @ batch_abs (snd (batch_run BatchSender_new es)) = queued_packets es"
proof -
  have "batch_abs BatchSender_new = []" by (simp add: batch_abs_def BatchSender_new_def)
  with batch.run_fifo [of BatchSender_new "[]" "map batch_op es", OF _ batch_run_steps]
  show ?thesis by (simp add: queued_packets_enqueued)
qed

section \<open>Bitrate\<close>

record BitrateTracker =
  bytes_sent_total :: u64
  bytes_sent_window :: u64
  last_rate_update_ms :: u64
  current_bitrate_bps :: f64

definition BITRATE_UPDATE_INTERVAL_MS :: u64 where "BITRATE_UPDATE_INTERVAL_MS = 2000"

definition BitrateTracker_new :: "u64 \<Rightarrow> BitrateTracker" where
  "BitrateTracker_new now_ms =
     \<lparr> bytes_sent_total = 0, bytes_sent_window = 0, last_rate_update_ms = now_ms, current_bitrate_bps = Fin 0 \<rparr>"

definition BitrateTracker_reset :: "u64 \<Rightarrow> BitrateTracker \<Rightarrow> BitrateTracker" where
  "BitrateTracker_reset now_ms b =
     b\<lparr> bytes_sent_total := 0, bytes_sent_window := 0, last_rate_update_ms := now_ms,
        current_bitrate_bps := Fin 0 \<rparr>"

definition update_on_send :: "u64 \<Rightarrow> BitrateTracker \<Rightarrow> BitrateTracker" where
  "update_on_send bytes_sent b =
     b\<lparr> bytes_sent_total := u64_saturating_add (bytes_sent_total b) bytes_sent \<rparr>"

definition bitrate_calculate :: "u64 \<Rightarrow> BitrateTracker \<Rightarrow> BitrateTracker" where
  "bitrate_calculate now_ms b =
     (let time_diff_ms = now_ms - last_rate_update_ms b in
      if time_diff_ms \<ge> BITRATE_UPDATE_INTERVAL_MS then
        let bytes_diff = bytes_sent_total b - bytes_sent_window b;
            b1 = (if time_diff_ms > 0 then
                    b\<lparr> current_bitrate_bps :=
                        f64_div (f64_mul (u64_to_f64 (u64_saturating_mul bytes_diff 8)) (f64_of_rat 1000))
                                (u64_to_f64 time_diff_ms) \<rparr>
                  else b)
        in b1\<lparr> last_rate_update_ms := now_ms, bytes_sent_window := bytes_sent_total b \<rparr>
      else b)"

definition bitrate_mbps :: "BitrateTracker \<Rightarrow> f64" where
  "bitrate_mbps b = f64_div (current_bitrate_bps b) (f64_of_rat 1000000)"

section \<open>Reconnection pacing\<close>

definition STARTUP_GRACE_MS :: u64 where "STARTUP_GRACE_MS = 5000"
definition FAST_RETRY_ATTEMPTS :: nat where "FAST_RETRY_ATTEMPTS = 4"
definition FAST_RETRY_DELAY_MS :: u64 where "FAST_RETRY_DELAY_MS = 1000"
definition SLOW_RETRY_DELAY_MS :: u64 where "SLOW_RETRY_DELAY_MS = 5000"
definition TICK_SLACK_MS :: u64 where "TICK_SLACK_MS = 500"

record ReconnectionState =
  last_reconnect_attempt_ms :: u64
  reconnect_failure_count :: nat
  connection_established_ms :: u64
  startup_grace_deadline_ms :: u64

definition elapsed_reaches :: "u64 \<Rightarrow> u64 \<Rightarrow> u64 \<Rightarrow> bool" where
  "elapsed_reaches now since delay_ms \<longleftrightarrow> u64_add (now - since) TICK_SLACK_MS \<ge> delay_ms"

definition retry_delay :: "ReconnectionState \<Rightarrow> u64" where
  "retry_delay r =
     (if reconnect_failure_count r < FAST_RETRY_ATTEMPTS then FAST_RETRY_DELAY_MS else SLOW_RETRY_DELAY_MS)"

definition should_attempt_reconnect :: "u64 \<Rightarrow> ReconnectionState \<Rightarrow> bool" where
  "should_attempt_reconnect now r =
     (if connection_established_ms r = 0 then
        (if now \<le> startup_grace_deadline_ms r then False
         else if last_reconnect_attempt_ms r = 0 then True
         else elapsed_reaches now (last_reconnect_attempt_ms r) FAST_RETRY_DELAY_MS)
      else if last_reconnect_attempt_ms r = 0 then True
      else elapsed_reaches now (last_reconnect_attempt_ms r) (retry_delay r))"

definition record_attempt :: "u64 \<Rightarrow> ReconnectionState \<Rightarrow> ReconnectionState" where
  "record_attempt now r0 =
     (let r = r0\<lparr> last_reconnect_attempt_ms := now \<rparr> in
      if connection_established_ms r = 0 then r
      else r\<lparr> reconnect_failure_count := u32_saturating_add (reconnect_failure_count r) 1 \<rparr>)"

definition mark_success :: "ReconnectionState \<Rightarrow> ReconnectionState" where
  "mark_success r =
     (if reconnect_failure_count r > 0 then r\<lparr> reconnect_failure_count := 0 \<rparr> else r)"

definition reset_startup_grace :: "u64 \<Rightarrow> ReconnectionState \<Rightarrow> ReconnectionState" where
  "reset_startup_grace now r = r\<lparr> startup_grace_deadline_ms := u64_add now STARTUP_GRACE_MS \<rparr>"


lemma elapsed_reaches_iff:
  "now < 2 ^ 63 \<Longrightarrow> elapsed_reaches now since delay \<longleftrightarrow> delay \<le> now - since + 500"
  by (simp add: elapsed_reaches_def u64_add_id TICK_SLACK_MS_def)

lemmas retry_defs = should_attempt_reconnect_def retry_delay_def FAST_RETRY_ATTEMPTS_def
  FAST_RETRY_DELAY_MS_def SLOW_RETRY_DELAY_MS_def

text \<open>Pacing of reconnection attempts. An established link that has attempted before is retried after at
  least half a second while it has fewer than four attempts behind it and after at least four and a half
  seconds from then on, and it is always retried once a second, respectively five seconds, has
  passed; every attempt is counted and a completed registration clears the count. A link that never
  registered is not touched inside its start-up grace.\<close>

theorem reconnect_pacing:
  assumes "now < 2 ^ 63" "last_reconnect_attempt_ms r \<noteq> 0" "reconnect_failure_count r < 2 ^ 32 - 1"
  shows "(connection_established_ms r \<noteq> 0 \<longrightarrow>
            (should_attempt_reconnect now r \<longrightarrow>
               (if reconnect_failure_count r < 4 then 500 else 4500) \<le> now - last_reconnect_attempt_ms r) \<and>
            ((if reconnect_failure_count r < 4 then 1000 else 5000) \<le> now - last_reconnect_attempt_ms r \<longrightarrow>
               should_attempt_reconnect now r) \<and>
            reconnect_failure_count (record_attempt now r) = Suc (reconnect_failure_count r)) \<and>
         (connection_established_ms r = 0 \<and> should_attempt_reconnect now r \<longrightarrow>
            startup_grace_deadline_ms r < now) \<and>
         reconnect_failure_count (mark_success r) = 0"
  using assms
  by (auto simp: retry_defs elapsed_reaches_iff record_attempt_def mark_success_def u32_saturating_add_def Let_def)

theorem reconnect_pacing_witness:
  "\<not> should_attempt_reconnect 13000 \<lparr> last_reconnect_attempt_ms = 9000, reconnect_failure_count = 4,
      connection_established_ms = 100, startup_grace_deadline_ms = 5000 \<rparr> \<and>
   should_attempt_reconnect 14000 \<lparr> last_reconnect_attempt_ms = 9000, reconnect_failure_count = 4,
      connection_established_ms = 100, startup_grace_deadline_ms = 5000 \<rparr>"
  using reconnect_pacing [of 13000 "\<lparr> last_reconnect_attempt_ms = 9000, reconnect_failure_count = 4,
      connection_established_ms = 100, startup_grace_deadline_ms = 5000 \<rparr>"]
    reconnect_pacing [of 14000 "\<lparr> last_reconnect_attempt_ms = 9000, reconnect_failure_count = 4,
      connection_established_ms = 100, startup_grace_deadline_ms = 5000 \<rparr>"]
  by auto

end
