(* ===== verification/Seq_Arith.thy ===== *)
theory Seq_Arith
  imports Prelude
begin

unbundle bit_operations_syntax

text \<open>
  Serial arithmetic on 31-bit SRT sequence numbers (\<^verbatim>\<open>crates/srtla-core/src/seq.rs\<close>). The Rust
  functions take \<^verbatim>\<open>i32\<close> and compute on \<^verbatim>\<open>u32\<close> with wrapping operations; here both are \<open>32 word\<close>,
  read as signed with \<open>sint\<close>. Everything is reduced to one fact, \<open>seq_diff_int\<close>: the signed distance is
  the difference modulo \<open>2 ^ 31\<close>, taken the short way round. The locale \<open>serial\<close> states what the
  acknowledgement handling needs of the ordering.
\<close>

definition SEQ_SPACE :: u32 where "SEQ_SPACE = 0x80000000"

definition SEQ_HALF :: u32 where "SEQ_HALF = SEQ_SPACE div 2"

definition SEQ_MASK :: seqno where "SEQ_MASK = 0x7fffffff"

definition NO_ACK_YET :: seqno where "NO_ACK_YET = 0x80000000"

definition seq_normalize :: "seqno \<Rightarrow> seqno" where
  "seq_normalize s = s AND SEQ_MASK"

definition seq_diff :: "seqno \<Rightarrow> seqno \<Rightarrow> seqno" where
  "seq_diff a b = (let d = (a - b) AND SEQ_MASK in if SEQ_HALF \<le> d then d - SEQ_SPACE else d)"

definition seq_after :: "seqno \<Rightarrow> seqno \<Rightarrow> bool" where
  "seq_after a b \<longleftrightarrow> 0 < sint (seq_diff a b)"

definition seq_next :: "seqno \<Rightarrow> seqno" where
  "seq_next s = (s + 1) AND SEQ_MASK"

definition seq_prev :: "seqno \<Rightarrow> seqno" where
  "seq_prev s = (s - 1) AND SEQ_MASK"

definition srt_ack_last_acked :: "u32 \<Rightarrow> seqno" where
  "srt_ack_last_acked ack_field = seq_prev (seq_normalize ack_field)"

section \<open>Words as residues\<close>

text \<open>\<open>pos\<close> is the position of a sequence number on the circle of \<open>2 ^ 31\<close> positions.\<close>

definition pos :: "seqno \<Rightarrow> int" where
  "pos s = uint s mod 2 ^ 31"

lemma pos_bounds: "0 \<le> pos s" "pos s < 2 ^ 31"
  by (simp_all add: pos_def)

lemma uint_and_mask: "uint (w AND SEQ_MASK) = uint w mod 2 ^ 31"
proof -
  have "w AND SEQ_MASK = take_bit 31 w"
    by (simp add: SEQ_MASK_def take_bit_eq_mask mask_eq_exp_minus_1)
  moreover have "uint (take_bit 31 w) = take_bit 31 (uint w)"
    by (simp only: unsigned_take_bit_eq)
  ultimately show ?thesis by (simp only: take_bit_eq_mod)
qed

lemma mod_32_31 [simp]: "(x mod 4294967296) mod 2147483648 = x mod (2147483648 :: int)"
  by (rule mod_mod_cancel) simp

lemma sint_32: "sint (w :: 32 word) = (if uint w < 2 ^ 31 then uint w else uint w - 2 ^ 32)"
proof -
  have "bit w 31 \<longleftrightarrow> \<not> uint w < 2 ^ 31"
    using of_nat_le_iff [of "2 ^ 31" "unat w", where ?'a = int] unfolding u32_bit_31 by (simp add: not_less)
  moreover have "sint w = take_bit 32 (uint w) - 2 ^ 32 * of_bool (bit (uint w) 31)"
    by (simp add: sint_uint signed_take_bit_eq_take_bit_minus)
  moreover have "take_bit 32 (uint w) = uint w" "bit (uint w) 31 \<longleftrightarrow> bit w 31"
    using unsigned_less [of w, where ?'a = int] by (simp_all add: bit_unsigned_iff take_bit_int_eq_self)
  ultimately show ?thesis by simp
qed

lemma uint_sub_mask: "uint ((a - b) AND SEQ_MASK) = (pos a - pos b) mod 2 ^ 31"
  by (simp add: uint_and_mask uint_word_ariths pos_def mod_diff_eq)

text \<open>The signed distance of two positions, the short way round.\<close>

definition sdist :: "int \<Rightarrow> int \<Rightarrow> int" where
  "sdist p q = (let d = (p - q) mod 2 ^ 31 in if 2 ^ 30 \<le> d then d - 2 ^ 31 else d)"

lemma seq_diff_int: "sint (seq_diff a b) = sdist (pos a) (pos b)"
proof -
  define d where "d = (a - b) AND SEQ_MASK"
  have ud: "uint d = (pos a - pos b) mod 2 ^ 31" by (simp add: d_def uint_sub_mask)
  then have lt: "0 \<le> uint d" "uint d < 2 ^ 31" by simp_all
  have half: "SEQ_HALF \<le> d \<longleftrightarrow> 2 ^ 30 \<le> uint d"
    by (simp add: SEQ_HALF_def SEQ_SPACE_def word_le_def)
  have "uint (d - SEQ_SPACE) = (uint d + 2 ^ 31 + (-1) * 2 ^ 32) mod 2 ^ 32"
    by (simp add: uint_word_ariths SEQ_SPACE_def)
  also have "\<dots> = uint d + 2 ^ 31"
    using lt by (subst mod_mult_self1) simp
  finally have "uint (d - SEQ_SPACE) = uint d + 2 ^ 31" .
  then have "sint (d - SEQ_SPACE) = uint d - 2 ^ 31" using lt by (simp add: sint_32)
  moreover have "sint d = uint d" using lt by (simp add: sint_32)
  ultimately show ?thesis
    unfolding seq_diff_def sdist_def Let_def d_def [symmetric] ud [symmetric] half by simp
qed

lemma sdist_bounds: "- (2 ^ 30) \<le> sdist p q" "sdist p q < 2 ^ 30"
proof -
  have "0 \<le> (p - q) mod 2 ^ 31" "(p - q) mod 2 ^ 31 < (2 ^ 31 :: int)" by simp_all
  then show "- (2 ^ 30) \<le> sdist p q" "sdist p q < 2 ^ 30"
    by (auto simp: sdist_def Let_def)
qed

lemma sdist_cong: "sdist p q mod 2 ^ 31 = (p - q) mod 2 ^ 31"
  by (simp add: sdist_def Let_def)

text \<open>A number in the half-open range that is congruent to the difference is the distance.\<close>

lemma sdist_unique:
  assumes "- (2 ^ 30) \<le> d" "d < 2 ^ 30" "d mod 2 ^ 31 = (p - q) mod 2 ^ 31"
  shows "sdist p q = d"
proof -
  have "sdist p q mod 2 ^ 31 = d mod 2 ^ 31" unfolding sdist_cong assms(3) ..
  then have "2 ^ 31 dvd sdist p q - d" by (simp add: mod_eq_dvd_iff)
  then obtain k where "sdist p q - d = 2 ^ 31 * k" by (auto elim: dvdE)
  with sdist_bounds [of p q] assms(1,2) have "k = 0" by auto
  with \<open>sdist p q - d = 2 ^ 31 * k\<close> show ?thesis by simp
qed

lemma pos_next: "pos (seq_next s) = (pos s + 1) mod 2 ^ 31"
  by (simp add: pos_def seq_next_def uint_and_mask uint_word_ariths mod_add_left_eq)

lemma pos_prev: "pos (seq_prev s) = (pos s - 1) mod 2 ^ 31"
  by (simp add: pos_def seq_prev_def uint_and_mask uint_word_ariths mod_diff_left_eq)

lemma pos_normalize [simp]: "pos (seq_normalize s) = pos s"
  by (simp add: pos_def seq_normalize_def uint_and_mask)

text \<open>The normal form: a sequence number with its top bit clear is its position.\<close>

definition seq_ok :: "seqno \<Rightarrow> bool" where
  "seq_ok s \<longleftrightarrow> uint s < 2 ^ 31"

lemma seq_ok_ops [simp]: "seq_ok (seq_next s)" "seq_ok (seq_prev s)" "seq_ok (seq_normalize s)"
  by (simp_all add: seq_ok_def seq_next_def seq_prev_def seq_normalize_def uint_and_mask)

lemma seq_ok_pos: "seq_ok s \<Longrightarrow> pos s = uint s"
  by (simp add: seq_ok_def pos_def)

lemma seq_ok_eqI: "seq_ok a \<Longrightarrow> seq_ok b \<Longrightarrow> pos a = pos b \<Longrightarrow> a = b"
  by (simp add: seq_ok_pos word_uint_eq_iff)

lemma seq_normalize_ok [simp]: "seq_ok s \<Longrightarrow> seq_normalize s = s"
  by (simp add: seq_ok_eqI)


section \<open>What the acknowledgement handling needs of the ordering\<close>

text \<open>
  \<open>adv k s\<close> is the sequence number \<open>k\<close> steps after \<open>s\<close>: the walk of a loop that calls
  \<^verbatim>\<open>seq_next\<close>. The interface says that within half the space the distance counts the
  steps, and that everything at a non-negative distance is reached by stepping.
\<close>

fun adv :: "('s \<Rightarrow> 's) \<Rightarrow> nat \<Rightarrow> 's \<Rightarrow> 's" where
  "adv nxt 0 s = s"
| "adv nxt (Suc k) s = adv nxt k (nxt s)"

locale serial =
  fixes nxt :: "'s \<Rightarrow> 's"
    and dif :: "'s \<Rightarrow> 's \<Rightarrow> int"
    and ok :: "'s \<Rightarrow> bool"
    and half :: nat
  assumes half_pos: "0 < half"
    and ok_nxt: "ok s \<Longrightarrow> ok (nxt s)"
    and dif_less: "dif a b < int half"
    and dif_steps: "ok s \<Longrightarrow> k < half \<Longrightarrow> n < half \<Longrightarrow> dif (adv nxt k s) (adv nxt n s) = int k - int n"
    and reach: "ok a \<Longrightarrow> ok b \<Longrightarrow> 0 \<le> dif a b \<Longrightarrow> a = adv nxt (nat (dif a b)) b"
begin

definition after :: "'s \<Rightarrow> 's \<Rightarrow> bool" where
  "after a b \<longleftrightarrow> 0 < dif a b"

lemma dif_self: "ok s \<Longrightarrow> dif s s = 0"
  using dif_steps [of s 0 0] half_pos by simp

lemma ok_adv: "ok s \<Longrightarrow> ok (adv nxt k s)"
  by (induction k arbitrary: s) (auto intro: ok_nxt)

text \<open>The numbers a walk of \<open>n\<close> steps from \<open>s\<close> visits are those ahead of \<open>s\<close> by at most \<open>n\<close>.\<close>

lemma walk_range:
  assumes "ok s" "ok x" "n < half"
  shows "(\<exists>k. 1 \<le> k \<and> k \<le> n \<and> x = adv nxt k s) \<longleftrightarrow> after x s \<and> dif x s \<le> int n"
proof
  assume "\<exists>k. 1 \<le> k \<and> k \<le> n \<and> x = adv nxt k s"
  then obtain k where "1 \<le> k" "k \<le> n" "x = adv nxt k s" by blast
  with dif_steps [of s k 0] assms show "after x s \<and> dif x s \<le> int n" by (simp add: after_def)
next
  assume *: "after x s \<and> dif x s \<le> int n"
  with reach [OF assms(2,1)] have "x = adv nxt (nat (dif x s)) s" by (simp add: after_def)
  moreover from * have "1 \<le> nat (dif x s)" "nat (dif x s) \<le> n" by (auto simp: after_def)
  ultimately show "\<exists>k. 1 \<le> k \<and> k \<le> n \<and> x = adv nxt k s" by blast
qed

text \<open>Among the numbers ahead of \<open>s\<close>, those the walk to \<open>t\<close> leaves out are the ones ahead of \<open>t\<close>.\<close>

lemma walk_complement:
  assumes "ok s" "ok t" "ok x" "after x s" "after t s"
  shows "after x t \<longleftrightarrow> \<not> (\<exists>k. 1 \<le> k \<and> k \<le> nat (dif t s) \<and> x = adv nxt k s)"
proof -
  let ?k = "nat (dif x s)" and ?n = "nat (dif t s)"
  have "?k < half" "?n < half" using dif_less [of x s] dif_less [of t s] half_pos by auto
  moreover have "x = adv nxt ?k s" "t = adv nxt ?n s"
    using assms reach by (auto simp: after_def)
  ultimately have "dif x t = int ?k - int ?n" using dif_steps [OF assms(1)] by metis
  with assms(4,5) show ?thesis
    by (subst walk_range [OF assms(1,3) \<open>?n < half\<close>]) (auto simp: after_def)
qed

lemma after_irrefl: "ok a \<Longrightarrow> \<not> after a a"
  by (simp add: after_def dif_self)

end

lemma pos_adv: "pos (adv seq_next k s) = (pos s + int k) mod 2 ^ 31"
proof (induction k arbitrary: s)
  case 0
  then show ?case by (simp add: pos_def)
next
  case (Suc k)
  have "pos (adv seq_next (Suc k) s) = (pos (seq_next s) + int k) mod 2 ^ 31" by (simp add: Suc)
  also have "\<dots> = (pos s + 1 + int k) mod 2 ^ 31" unfolding pos_next mod_add_left_eq ..
  finally show ?case by (simp add: algebra_simps)
qed

lemma seq_diff_steps:
  assumes "k < 2 ^ 30" "n < 2 ^ 30"
  shows "sint (seq_diff (adv seq_next k s) (adv seq_next n s)) = int k - int n"
  unfolding seq_diff_int pos_adv
proof (rule sdist_unique)
  show "(int k - int n) mod 2 ^ 31 = ((pos s + int k) mod 2 ^ 31 - (pos s + int n) mod 2 ^ 31) mod 2 ^ 31"
    unfolding mod_diff_eq by simp
qed (use assms in auto)

lemma seq_ok_adv: "seq_ok s \<Longrightarrow> seq_ok (adv seq_next k s)"
  by (induction k arbitrary: s) simp_all

lemma seq_reach:
  assumes "seq_ok a" "seq_ok b" "0 \<le> sint (seq_diff a b)"
  shows "a = adv seq_next (nat (sint (seq_diff a b))) b"
proof (rule seq_ok_eqI [OF assms(1) seq_ok_adv [OF assms(2)]])
  have "pos (adv seq_next (nat (sint (seq_diff a b))) b) = (pos b + sdist (pos a) (pos b) mod 2 ^ 31) mod 2 ^ 31"
    using assms(3) unfolding pos_adv mod_add_right_eq by (simp add: seq_diff_int)
  also have "\<dots> = pos a" unfolding sdist_cong mod_add_right_eq by (simp add: pos_def)
  finally show "pos a = pos (adv seq_next (nat (sint (seq_diff a b))) b)" by simp
qed

interpretation seqs: serial seq_next "\<lambda>a b. sint (seq_diff a b)" seq_ok "2 ^ 30"
proof
  fix a b
  show "sint (seq_diff a b) < int (2 ^ 30)"
    unfolding seq_diff_int using sdist_bounds(2) [of "pos a" "pos b"] by simp
qed (simp_all only: seq_ok_ops seq_diff_steps zero_less_power zero_less_numeral flip: seq_reach)

lemma seqs_after [simp]: "seqs.after = seq_after"
  by (simp add: fun_eq_iff seqs.after_def seq_after_def)

section \<open>Properties\<close>

text \<open>The signed distance of two sequence numbers. For all 32-bit words it lies in
  \<open>[-2^30, 2^30)\<close>, it is congruent to the difference modulo \<open>2^31\<close>: it is the short way round the
  circle.\<close>

theorem seq_diff_correct:
  "- (2 ^ 30) \<le> sint (seq_diff a b) \<and> sint (seq_diff a b) < 2 ^ 30 \<and>
   sint (seq_diff a b) mod 2 ^ 31 = (uint a - uint b) mod 2 ^ 31"
proof -
  have "sint (seq_diff a b) mod 2 ^ 31 = (uint a mod 2 ^ 31 - uint b mod 2 ^ 31) mod 2 ^ 31"
    unfolding seq_diff_int sdist_cong pos_def ..
  then show ?thesis
    unfolding mod_diff_eq using sdist_bounds [of "pos a" "pos b"] by (simp add: seq_diff_int)
qed

text \<open>Serial order across the wrap. A sequence number that is \<open>k\<close> steps of \<^verbatim>\<open>seq_next\<close> ahead
  of another one, \<open>0 < k < 2^30\<close>, is after it and not before it, wherever the two lie relative to
  the wrap at \<^verbatim>\<open>0x7fffffff\<close>; and \<^verbatim>\<open>seq_prev\<close> undoes \<^verbatim>\<open>seq_next\<close>.\<close>

theorem seq_after_steps:
  assumes "seq_ok s" "0 < k" "k < 2 ^ 30"
  shows "seq_after (adv seq_next k s) s \<and> \<not> seq_after s (adv seq_next k s) \<and> seq_prev (seq_next s) = s"
proof -
  have "sint (seq_diff (adv seq_next k s) s) = int k" "sint (seq_diff s (adv seq_next k s)) = - int k"
    using seq_diff_steps [of k 0 s] seq_diff_steps [of 0 k s] assms by simp_all
  moreover have "seq_prev (seq_next s) = s"
    using assms(1) by (intro seq_ok_eqI) (simp_all add: pos_prev pos_next mod_simps, simp add: pos_def)
  ultimately show ?thesis using assms(2) by (simp add: seq_after_def)
qed

theorem seq_after_steps_witness: "seq_after 2 0x7fffffff \<and> \<not> seq_after 0x7fffffff 2"
proof -
  have "adv seq_next 3 0x7fffffff = 2"
    by (simp add: eval_nat_numeral seq_next_def SEQ_MASK_def)
  with seq_after_steps [of "0x7fffffff" 3] show ?thesis by (simp add: seq_ok_def)
qed

end
