(* ===== verification/Connection.thy ===== *)
theory Connection
  imports Core_Config Rtt Congestion Link_Parts Seq_Arith
begin

text \<open>
  The state of one uplink and its operations (\<^verbatim>\<open>crates/srtla-core/src/connection/mod.rs\<close>): link
  phase, operator weights, scoring, probes, the batch drain, keepalives, the stall latch with its
  backoff and rejoin ramp, the silence pull, timeouts and resets. The record \<open>SrtlaConnection\<close> has the
  fields of the struct, each with the prefix \<open>c_\<close>. The packet log and the probe log are finite maps
  from sequence numbers to send times. Log messages have no counterpart.
\<close>

definition WARMING_RTT_PROBES :: nat where "WARMING_RTT_PROBES = 2"
definition WARMING_TIMEOUT_MS :: u64 where "WARMING_TIMEOUT_MS = 5000"
definition QUALITY_CACHE_INTERVAL_MS :: u64 where "QUALITY_CACHE_INTERVAL_MS = 50"
definition LINK_WEIGHT_MIN :: u8 where "LINK_WEIGHT_MIN = 1"
definition LINK_WEIGHT_MAX :: u8 where "LINK_WEIGHT_MAX = 10"
definition LINK_WEIGHT_FULL_ABOVE_WINDOW :: i32 where "LINK_WEIGHT_FULL_ABOVE_WINDOW = 20 * WINDOW_MULT"
definition LINK_WEIGHT_NONE_AT_OR_BELOW_WINDOW :: i32 where
  "LINK_WEIGHT_NONE_AT_OR_BELOW_WINDOW = 10 * WINDOW_MULT"

text \<open>The payload size the selector and the congestion controller assume (declared in \<^verbatim>\<open>selection/link_cc.rs\<close>).\<close>

definition ASSUMED_SRT_PAYLOAD_BYTES :: u64 where "ASSUMED_SRT_PAYLOAD_BYTES = 1316"

section \<open>Data\<close>

datatype LinkPhase = Registering | Warming nat u64 | Live | Degraded

definition phase_is_schedulable :: "LinkPhase \<Rightarrow> bool" where
  "phase_is_schedulable p = (case p of Registering \<Rightarrow> False | _ \<Rightarrow> True)"

definition phase_weight :: "LinkPhase \<Rightarrow> f64" where
  "phase_weight p =
     (case p of Registering \<Rightarrow> Fin 0 | Warming _ _ \<Rightarrow> f64_of_rat (8 / 10) | Live \<Rightarrow> Fin 1 | Degraded \<Rightarrow> Fin 1)"

record CachedQuality =
  cq_multiplier :: f64
  cq_last_calculated_ms :: u64

definition CachedQuality_default :: CachedQuality where
  "CachedQuality_default = \<lparr> cq_multiplier = Fin 1, cq_last_calculated_ms = 0 \<rparr>"

datatype WeakReason = Healthy | HighRtt | QueueBuilding | NoTraffic | LowShare | Bypassed

definition reason_is_delay :: "WeakReason \<Rightarrow> bool" where
  "reason_is_delay r = (case r of HighRtt \<Rightarrow> True | QueueBuilding \<Rightarrow> True | _ \<Rightarrow> False)"

datatype IpAddr = V4 "32 word" | V6 "128 word"

record SrtlaConnection =
  c_conn_id :: u64
  c_local_ip :: IpAddr
  c_label :: string
  c_connected :: bool
  c_window :: i32
  c_in_flight_packets :: i32
  c_packet_log :: "(seqno, u64) mapping"
  c_probe_log :: "(seqno, u64) mapping"
  c_highest_acked_seq :: seqno
  c_last_received :: "u64 option"
  c_last_sent :: "u64 option"
  c_last_keepalive_sent :: "u64 option"
  c_last_ack_or_rtt_sample_ms :: u64
  c_stall_gated :: bool
  c_stall_latched_since_ms :: u64
  c_stall_recovery_since_ms :: u64
  c_stall_gate_events :: u64
  c_stall_probe_counter :: nat
  c_stall_released_at_ms :: u64
  c_stall_rejoin_backoff :: nat
  c_stall_rejoin_ramp_start_ms :: u64
  c_stall_rejoin_ramp_ms :: u64
  c_stall_rejoin_ramp_from_stall_gate :: bool
  c_sole_carrier :: bool
  c_sole_carrier_since_ms :: u64
  c_sole_carrier_excluded :: bool
  c_sole_carrier_elections :: u64
  c_silence_pulled :: bool
  c_silence_pulls :: u64
  c_conn_timeout_ms :: u64
  c_delay_budget_ms :: nat
  c_rtt :: RttTracker
  c_congestion :: CongestionControl
  c_bitrate :: BitrateTracker
  c_reconnection :: ReconnectionState
  c_quality_cache :: CachedQuality
  c_batch_sender :: BatchSender
  c_phase :: LinkPhase
  c_weak :: bool
  c_weak_reason :: WeakReason
  c_quality_excluded :: bool
  c_cc_backing_off :: bool
  c_cc_target_bps :: u64
  c_loss_degraded :: bool
  c_link_weight :: u8

definition new_registering :: "u64 \<Rightarrow> string \<Rightarrow> IpAddr \<Rightarrow> u64 \<Rightarrow> SrtlaConnection" where
  "new_registering conn_id label local_ip now =
     \<lparr> c_conn_id = conn_id, c_local_ip = local_ip, c_label = label, c_connected = False,
       c_window = WINDOW_DEF * WINDOW_MULT, c_in_flight_packets = 0, c_packet_log = Mapping.empty,
       c_probe_log = Mapping.empty, c_highest_acked_seq = NO_ACK_YET, c_last_received = None,
       c_last_sent = None, c_last_keepalive_sent = None, c_last_ack_or_rtt_sample_ms = 0,
       c_stall_gated = False, c_stall_latched_since_ms = 0, c_stall_recovery_since_ms = 0,
       c_stall_gate_events = 0, c_stall_probe_counter = 0, c_stall_released_at_ms = 0,
       c_stall_rejoin_backoff = 0, c_stall_rejoin_ramp_start_ms = 0, c_stall_rejoin_ramp_ms = 0,
       c_stall_rejoin_ramp_from_stall_gate = False, c_sole_carrier = False, c_sole_carrier_since_ms = 0,
       c_sole_carrier_excluded = False, c_sole_carrier_elections = 0, c_silence_pulled = False,
       c_silence_pulls = 0, c_conn_timeout_ms = CONN_TIMEOUT_MS, c_delay_budget_ms = 0,
       c_rtt = RttTracker_default, c_congestion = CongestionControl_default,
       c_bitrate = BitrateTracker_new now,
       c_reconnection = \<lparr> last_reconnect_attempt_ms = 0, reconnect_failure_count = 0,
         connection_established_ms = 0, startup_grace_deadline_ms = u64_add now STARTUP_GRACE_MS \<rparr>,
       c_quality_cache = CachedQuality_default, c_batch_sender = BatchSender_new,
       c_phase = Registering, c_weak = False, c_weak_reason = Healthy, c_quality_excluded = False,
       c_cc_backing_off = False, c_cc_target_bps = 0, c_loss_degraded = False,
       c_link_weight = LINK_WEIGHT_MIN \<rparr>"

section \<open>Weights and ramps\<close>

definition clamp_weight :: "u8 \<Rightarrow> u8" where
  "clamp_weight w = (if w < LINK_WEIGHT_MIN then LINK_WEIGHT_MIN else if w > LINK_WEIGHT_MAX then LINK_WEIGHT_MAX else w)"

definition link_weight_multiplier :: "i32 \<Rightarrow> u8 \<Rightarrow> f32" where
  "link_weight_multiplier window weight0 =
     (let weight = f32_of_rat (of_nat (unat (clamp_weight weight0))) in
      if window > LINK_WEIGHT_FULL_ABOVE_WINDOW then weight
      else if window > LINK_WEIGHT_NONE_AT_OR_BELOW_WINDOW then
        let factor = f32_div (i32_to_f32 (i32_sub window LINK_WEIGHT_NONE_AT_OR_BELOW_WINDOW))
                             (i32_to_f32 (i32_sub LINK_WEIGHT_FULL_ABOVE_WINDOW LINK_WEIGHT_NONE_AT_OR_BELOW_WINDOW))
        in f32_add (Fin 1) (f32_mul (f32_sub weight (Fin 1)) factor)
      else Fin 1)"

definition normalise_link_weights :: "u8 list \<Rightarrow> u8 list" where
  "normalise_link_weights weights =
     (let ws = map clamp_weight weights in
      case ws of [] \<Rightarrow> [] | w # rest \<Rightarrow> let lowest = fold min rest w in map (\<lambda>v. v - lowest + 1) ws)"

definition rejoin_ramp_multiplier :: "u64 \<Rightarrow> u64 \<Rightarrow> u64 \<Rightarrow> f64" where
  "rejoin_ramp_multiplier ramp_start_ms ramp_ms now_ms =
     (if ramp_start_ms = 0 \<or> ramp_ms = 0 then Fin 1
      else let elapsed = now_ms - ramp_start_ms in
           if elapsed \<ge> ramp_ms then Fin 1
           else let progress = f64_div (u64_to_f64 elapsed) (u64_to_f64 ramp_ms) in
                fl_clamp STALL_REJOIN_RAMP_FLOOR (Fin 1)
                  (f64_add STALL_REJOIN_RAMP_FLOOR (f64_mul (f64_sub (Fin 1) STALL_REJOIN_RAMP_FLOOR) progress)))"

definition stall_rejoin_backoff_next :: "nat \<Rightarrow> u64 \<Rightarrow> u64 \<Rightarrow> u64 \<Rightarrow> nat" where
  "stall_rejoin_backoff_next backoff released_at_ms held_for_ms probation_ms =
     (if released_at_ms = 0 \<or> held_for_ms \<ge> probation_ms then 1
      else let doubled = (if backoff \<le> 1 then 2 else u32_saturating_mul backoff 2)
           in min doubled STALL_REJOIN_BACKOFF_MAX)"

definition delivery_proof_is_timely :: "f64 \<Rightarrow> nat \<Rightarrow> bool" where
  "delivery_proof_is_timely smooth_rtt_ms budget_ms =
     (if budget_ms = 0 \<or> fl_le smooth_rtt_ms (Fin 0) then True
      else fl_le (f64_div smooth_rtt_ms (f64_of_rat 2)) (u64_to_f64 budget_ms))"

section \<open>Scoring and sending\<close>

definition weight_multiplier :: "SrtlaConnection \<Rightarrow> f32" where
  "weight_multiplier c = link_weight_multiplier (c_window c) (c_link_weight c)"

definition get_score :: "SrtlaConnection \<Rightarrow> i32" where
  "get_score c =
     (if \<not> c_connected c then -1
      else let total_in_flight = i32_saturating_add (c_in_flight_packets c) (queued_count (c_batch_sender c));
               denom = max (i32_saturating_add total_in_flight 1) 1
           in i32_div (c_window c) denom)"

definition queue_data_packet :: "bytes \<Rightarrow> u32 option \<Rightarrow> u64 \<Rightarrow> SrtlaConnection \<Rightarrow> bool \<times> SrtlaConnection" where
  "queue_data_packet data sq send_time_ms c =
     (case queue_packet data sq send_time_ms (c_batch_sender c) of
        (full, b) \<Rightarrow> (full, c\<lparr> c_bitrate := update_on_send (length data) (c_bitrate c), c_batch_sender := b \<rparr>))"

definition record_probe :: "seqno \<Rightarrow> u64 \<Rightarrow> (seqno, u64) mapping \<Rightarrow> (seqno, u64) mapping" where
  "record_probe sq send_time_ms plog =
     (let plog1 = (if map_len plog \<ge> PROBE_LOG_SOFT_CAP then
                    let cutoff = send_time_ms - PROBE_LOG_MAX_AGE_MS;
                        kept = Mapping.filter (\<lambda>_ sent. sent \<ge> cutoff) plog
                    in if map_len kept \<ge> PROBE_LOG_SOFT_CAP then Mapping.empty else kept
                  else plog)
      in Mapping.update sq send_time_ms plog1)"

definition queue_probe_packet :: "bytes \<Rightarrow> u32 \<Rightarrow> u64 \<Rightarrow> SrtlaConnection \<Rightarrow> bool \<times> SrtlaConnection" where
  "queue_probe_packet data sq send_time_ms c =
     (case queue_packet data None send_time_ms (c_batch_sender c) of
        (full, b) \<Rightarrow> (full, c\<lparr> c_bitrate := update_on_send (length data) (c_bitrate c),
                               c_probe_log := record_probe sq send_time_ms (c_probe_log c),
                               c_batch_sender := b \<rparr>))"

definition needs_batch_flush :: "u64 \<Rightarrow> SrtlaConnection \<Rightarrow> bool" where
  "needs_batch_flush now_ms c = needs_time_flush now_ms (c_batch_sender c)"

definition register_packet :: "seqno \<Rightarrow> u64 \<Rightarrow> SrtlaConnection \<Rightarrow> SrtlaConnection" where
  "register_packet sq send_time_ms c =
     (let plog = Mapping.update sq send_time_ms (c_packet_log c)
      in c\<lparr> c_packet_log := plog, c_in_flight_packets := i32_wrap (int (map_len plog)) \<rparr>)"

definition take_batch :: "u64 \<Rightarrow> SrtlaConnection \<Rightarrow> DrainedPacket list \<times> SrtlaConnection" where
  "take_batch now c =
     (case batch_drain now (c_batch_sender c) of
        (batch, b) \<Rightarrow>
          (batch, fold (\<lambda>(_, sq, t) c. case sq of Some s \<Rightarrow> register_packet s t c | None \<Rightarrow> c) batch
                    (c\<lparr> c_batch_sender := b \<rparr>)))"

definition keepalive_packet :: "u64 \<Rightarrow> SrtlaConnection \<Rightarrow> bytes \<times> SrtlaConnection" where
  "keepalive_packet now c =
     (let info = \<lparr> ci_conn_id = of_nat (c_conn_id c), ci_window = of_int (c_window c),
                    ci_in_flight = of_int (c_in_flight_packets c),
                    ci_rtt_ms = of_nat (fl_to_u32 (kf_x (kalman_rtt (c_rtt c)))),
                    ci_nak_count = of_int (nak_count (c_congestion c)),
                    ci_bitrate_bytes_per_sec =
                      of_nat (fl_to_u32 (f64_div (current_bitrate_bps (c_bitrate c)) (f64_of_rat 8))) \<rparr>;
          c1 = c\<lparr> c_last_sent := Some now, c_last_keepalive_sent := Some now \<rparr>;
          c2 = (if \<not> waiting_for_keepalive_response (c_rtt c1) \<and>
                   (last_rtt_measurement_ms (c_rtt c1) = 0 \<or> now - last_rtt_measurement_ms (c_rtt c1) > 3000)
                then c1\<lparr> c_rtt := record_keepalive_sent now (c_rtt c1) \<rparr> else c1)
      in (create_keepalive_packet_ext info now, c2))"

definition note_sent :: "u64 \<Rightarrow> SrtlaConnection \<Rightarrow> SrtlaConnection" where
  "note_sent now c = c\<lparr> c_last_sent := Some now \<rparr>"

definition probe_reg2_packet :: "bytes \<Rightarrow> u64 \<Rightarrow> SrtlaConnection \<Rightarrow> bytes \<times> SrtlaConnection" where
  "probe_reg2_packet probe_id now c =
     (create_reg2_packet probe_id,
      c\<lparr> c_reconnection := (c_reconnection c)\<lparr> startup_grace_deadline_ms := u64_add now STARTUP_GRACE_MS \<rparr> \<rparr>)"

definition get_smooth_rtt_ms :: "SrtlaConnection \<Rightarrow> f64" where
  "get_smooth_rtt_ms c = fl_max (kf_x (kalman_rtt (c_rtt c))) (Fin 0)"

definition get_rtt_velocity :: "SrtlaConnection \<Rightarrow> f64" where
  "get_rtt_velocity c = kf_v (kalman_rtt (c_rtt c))"

definition needs_rtt_measurement :: "u64 \<Rightarrow> SrtlaConnection \<Rightarrow> bool" where
  "needs_rtt_measurement now_ms c =
     needs_measurement (c_connected c) (connection_established_ms (c_reconnection c)) now_ms (c_rtt c)"

definition needs_keepalive :: "u64 \<Rightarrow> SrtlaConnection \<Rightarrow> bool" where
  "needs_keepalive now_ms c =
     (if \<not> c_connected c then False
      else case c_last_keepalive_sent c of
             None \<Rightarrow> True
           | Some last' \<Rightarrow> u64_add (now_ms - last') TICK_SLACK_MS \<ge> IDLE_TIME * 1000)"

definition perform_window_recovery :: "u64 \<Rightarrow> SrtlaConnection \<Rightarrow> SrtlaConnection" where
  "perform_window_recovery now_ms c =
     (case cc_perform_window_recovery (c_connected c) (kf_v (kalman_rtt (c_rtt c))) now_ms
             (c_window c, c_congestion c) of
        (w, cc) \<Rightarrow> c\<lparr> c_window := w, c_congestion := cc \<rparr>)"

definition record_rtt_probe :: "SrtlaConnection \<Rightarrow> SrtlaConnection" where
  "record_rtt_probe c =
     (case c_phase c of
        Warming probes entered_ms \<Rightarrow>
          (let n = u32_add probes 1
           in c\<lparr> c_phase := (if n \<ge> WARMING_RTT_PROBES then Live else Warming n entered_ms) \<rparr>)
      | _ \<Rightarrow> c)"

definition handle_keepalive_echo :: "bytes \<Rightarrow> u64 \<Rightarrow> SrtlaConnection \<Rightarrow> SrtlaConnection" where
  "handle_keepalive_echo data now_ms c =
     (case handle_keepalive_response data now_ms (c_rtt c) of
        (res, r) \<Rightarrow>
          let c1 = c\<lparr> c_rtt := r \<rparr>;
              c2 = (if res \<noteq> None then record_rtt_probe c1 else c1)
          in if keepalive_echo_rtt_ms data now_ms \<noteq> None then c2\<lparr> c_last_ack_or_rtt_sample_ms := now_ms \<rparr>
             else c2)"

definition DEGRADED_QUALITY_THRESHOLD :: f64 where "DEGRADED_QUALITY_THRESHOLD = f64_of_rat (5 / 10)"
definition DEGRADED_NAK_BURST_THRESHOLD :: i32 where "DEGRADED_NAK_BURST_THRESHOLD = 5"

definition update_phase :: "u64 \<Rightarrow> SrtlaConnection \<Rightarrow> SrtlaConnection" where
  "update_phase now_ms c =
     (let q = cq_multiplier (c_quality_cache c); burst = nak_burst_count (c_congestion c);
          nak_degraded = (fl_lt q DEGRADED_QUALITY_THRESHOLD \<and> burst \<ge> DEGRADED_NAK_BURST_THRESHOLD);
          nak_recovered = (fl_ge q DEGRADED_QUALITY_THRESHOLD \<and> burst < DEGRADED_NAK_BURST_THRESHOLD)
      in case c_phase c of
           Warming _ entered_ms \<Rightarrow>
             (if now_ms - entered_ms \<ge> WARMING_TIMEOUT_MS then c\<lparr> c_phase := Live \<rparr> else c)
         | Live \<Rightarrow> (if nak_degraded \<or> c_loss_degraded c then c\<lparr> c_phase := Degraded \<rparr> else c)
         | Degraded \<Rightarrow> (if nak_recovered \<and> \<not> c_loss_degraded c then c\<lparr> c_phase := Live \<rparr> else c)
         | Registering \<Rightarrow> c)"

definition is_schedulable :: "SrtlaConnection \<Rightarrow> bool" where
  "is_schedulable c = phase_is_schedulable (c_phase c)"


section \<open>Stall latch and silence pull\<close>

definition effective_stall_stale_ms :: "u64 \<Rightarrow> SrtlaConnection \<Rightarrow> u64" where
  "effective_stall_stale_ms ceiling_ms c =
     (let srtt = get_smooth_rtt_ms c in
      if fl_le srtt (Fin 0) then ceiling_ms
      else min (max (u64_saturating_mul (fl_to_u64 srtt) STALL_STALE_RTT_MULT) STALL_STALE_FLOOR_MS) ceiling_ms)"

definition is_stalled :: "u64 \<Rightarrow> i32 \<Rightarrow> u64 \<Rightarrow> SrtlaConnection \<Rightarrow> bool" where
  "is_stalled now_ms min_in_flight stale_ceiling_ms c \<longleftrightarrow>
     c_connected c \<and> c_in_flight_packets c \<ge> min_in_flight \<and> c_last_ack_or_rtt_sample_ms c \<noteq> 0 \<and>
     now_ms - c_last_ack_or_rtt_sample_ms c \<ge> effective_stall_stale_ms stale_ceiling_ms c"

definition conn_rejoin_ramp_multiplier :: "u64 \<Rightarrow> SrtlaConnection \<Rightarrow> f64" where
  "conn_rejoin_ramp_multiplier now_ms c =
     rejoin_ramp_multiplier (c_stall_rejoin_ramp_start_ms c) (c_stall_rejoin_ramp_ms c) now_ms"

definition arm_rejoin_ramp :: "u64 \<Rightarrow> u64 \<Rightarrow> bool \<Rightarrow> SrtlaConnection \<Rightarrow> SrtlaConnection" where
  "arm_rejoin_ramp now_ms ramp_ms from_stall_gate c =
     (if fl_lt (conn_rejoin_ramp_multiplier now_ms c) (Fin 1) then c
      else c\<lparr> c_stall_rejoin_ramp_start_ms := now_ms, c_stall_rejoin_ramp_ms := ramp_ms,
              c_stall_rejoin_ramp_from_stall_gate := from_stall_gate \<rparr>)"

definition update_stall_latch :: "u64 \<Rightarrow> i32 \<Rightarrow> u64 \<Rightarrow> SrtlaConnection \<Rightarrow> SrtlaConnection" where
  "update_stall_latch now_ms min_in_flight stale_ceiling_ms c =
     (let stale_ms = effective_stall_stale_ms stale_ceiling_ms c;
          proof_fully_stale = (c_last_ack_or_rtt_sample_ms c \<noteq> 0 \<and>
            now_ms - c_last_ack_or_rtt_sample_ms c \<ge> stale_ms)
      in if is_stalled now_ms min_in_flight stale_ceiling_ms c \<or> (c_silence_pulled c \<and> proof_fully_stale) then
           (let c1 = (if c_stall_latched_since_ms c = 0 then
                        c\<lparr> c_stall_rejoin_backoff :=
                             stall_rejoin_backoff_next (c_stall_rejoin_backoff c) (c_stall_released_at_ms c)
                               (now_ms - c_stall_released_at_ms c)
                               (u64_saturating_mul stale_ms STALL_REJOIN_PROBATION_MULT),
                           c_stall_latched_since_ms := now_ms,
                           c_stall_gate_events := u64_add (c_stall_gate_events c) 1 \<rparr>
                      else c)
            in c1\<lparr> c_stall_recovery_since_ms := 0 \<rparr>)
         else if c_stall_latched_since_ms c = 0 then c
         else
           let proof_window_ms = max stale_ms STALL_REJOIN_PROOF_FLOOR_MS;
               proof_fresh = (c_last_ack_or_rtt_sample_ms c \<noteq> 0 \<and>
                 now_ms - c_last_ack_or_rtt_sample_ms c < proof_window_ms \<and>
                 delivery_proof_is_timely (get_smooth_rtt_ms c) (c_delay_budget_ms c))
           in if \<not> proof_fresh then c\<lparr> c_stall_recovery_since_ms := 0 \<rparr>
              else
                let c1 = (if c_stall_recovery_since_ms c = 0 then c\<lparr> c_stall_recovery_since_ms := now_ms \<rparr> else c);
                    base_dwell_ms = u64_saturating_mul stale_ms STALL_REJOIN_DWELL_MULT;
                    dwell_ms = u64_saturating_mul base_dwell_ms (max (c_stall_rejoin_backoff c1) 1)
                in if now_ms - c_stall_recovery_since_ms c1 \<ge> dwell_ms then
                     arm_rejoin_ramp now_ms base_dwell_ms True
                       (c1\<lparr> c_stall_latched_since_ms := 0, c_stall_recovery_since_ms := 0,
                           c_stall_released_at_ms := now_ms \<rparr>)
                   else c1)"

definition clear_quality_gate_state :: "SrtlaConnection \<Rightarrow> SrtlaConnection" where
  "clear_quality_gate_state c =
     c\<lparr> c_quality_excluded := False, c_sole_carrier := False, c_sole_carrier_excluded := False,
        c_sole_carrier_since_ms := 0 \<rparr>"

definition is_rejoin_ramping :: "u64 \<Rightarrow> SrtlaConnection \<Rightarrow> bool" where
  "is_rejoin_ramping now_ms c = fl_lt (conn_rejoin_ramp_multiplier now_ms c) (Fin 1)"

definition stall_latched :: "SrtlaConnection \<Rightarrow> bool" where
  "stall_latched c \<longleftrightarrow> c_stall_latched_since_ms c \<noteq> 0"

definition clear_stall_latch :: "SrtlaConnection \<Rightarrow> SrtlaConnection" where
  "clear_stall_latch c0 =
     (let c = c0\<lparr> c_stall_latched_since_ms := 0, c_stall_recovery_since_ms := 0, c_stall_released_at_ms := 0,
                   c_stall_rejoin_backoff := 0 \<rparr>
      in if c_stall_rejoin_ramp_from_stall_gate c then
           c\<lparr> c_stall_rejoin_ramp_start_ms := 0, c_stall_rejoin_ramp_ms := 0,
              c_stall_rejoin_ramp_from_stall_gate := False \<rparr>
         else c)"

definition stall_probe_due :: "SrtlaConnection \<Rightarrow> bool \<times> SrtlaConnection" where
  "stall_probe_due c =
     (let n = u32_add (c_stall_probe_counter c) 1 in
      if n \<ge> STALL_PROBE_ONE_IN_N then (True, c\<lparr> c_stall_probe_counter := 0 \<rparr>)
      else (False, c\<lparr> c_stall_probe_counter := n \<rparr>))"

definition silence_pull_window_ms :: "u64 \<Rightarrow> SrtlaConnection \<Rightarrow> u64" where
  "silence_pull_window_ms stale_ceiling_ms c =
     (let srtt = get_smooth_rtt_ms c;
          base = (if fl_le srtt (Fin 0) then SILENCE_PULL_FLOOR_MS
                  else max (u64_saturating_mul (fl_to_u64 srtt) SILENCE_PULL_RTT_MULT) SILENCE_PULL_FLOOR_MS)
      in min base (effective_stall_stale_ms stale_ceiling_ms c))"

definition is_briefly_silent :: "u64 \<Rightarrow> i32 \<Rightarrow> u64 \<Rightarrow> SrtlaConnection \<Rightarrow> bool" where
  "is_briefly_silent now_ms min_in_flight stale_ceiling_ms c =
     (if \<not> c_connected c \<or> c_in_flight_packets c < min_in_flight then False
      else case c_last_received c of
             None \<Rightarrow> False
           | Some lr \<Rightarrow> now_ms - lr \<ge> silence_pull_window_ms stale_ceiling_ms c)"

definition update_silence_pull :: "u64 \<Rightarrow> i32 \<Rightarrow> u64 \<Rightarrow> SrtlaConnection \<Rightarrow> SrtlaConnection" where
  "update_silence_pull now_ms min_in_flight stale_ceiling_ms c =
     (if is_briefly_silent now_ms min_in_flight stale_ceiling_ms c then
        (if \<not> c_silence_pulled c then c\<lparr> c_silence_pulls := u64_add (c_silence_pulls c) 1, c_silence_pulled := True \<rparr>
         else c)
      else if \<not> c_silence_pulled c then c
      else
        let window = silence_pull_window_ms stale_ceiling_ms c;
            spoke = (case c_last_received c of None \<Rightarrow> False | Some lr \<Rightarrow> now_ms - lr < window)
        in if spoke \<or> \<not> c_connected c then c\<lparr> c_silence_pulled := False \<rparr> else c)"

section \<open>Timeouts and resets\<close>

definition is_timed_out :: "u64 \<Rightarrow> SrtlaConnection \<Rightarrow> bool" where
  "is_timed_out now c =
     (if \<not> c_connected c then
        (if connection_established_ms (c_reconnection c) = 0 \<and> now < startup_grace_deadline_ms (c_reconnection c)
         then False
         else case c_last_received c of None \<Rightarrow> True | Some lr \<Rightarrow> now - lr \<ge> c_conn_timeout_ms c)
      else case c_last_received c of Some lr \<Rightarrow> now - lr \<ge> c_conn_timeout_ms c | None \<Rightarrow> False)"

definition clear_pre_registration_state :: "u64 \<Rightarrow> SrtlaConnection \<Rightarrow> SrtlaConnection" where
  "clear_pre_registration_state now_ms c =
     c\<lparr> c_packet_log := Mapping.empty, c_probe_log := Mapping.empty, c_in_flight_packets := 0,
        c_highest_acked_seq := NO_ACK_YET, c_congestion := CongestionControl_reset (c_congestion c),
        c_batch_sender := BatchSender_reset (c_batch_sender c), c_quality_cache := CachedQuality_default,
        c_phase := Warming 0 now_ms \<rparr>"

definition reset_core_state :: "SrtlaConnection \<Rightarrow> SrtlaConnection" where
  "reset_core_state c =
     c\<lparr> c_connected := False, c_window := WINDOW_DEF * WINDOW_MULT, c_in_flight_packets := 0,
        c_packet_log := Mapping.empty, c_probe_log := Mapping.empty, c_highest_acked_seq := NO_ACK_YET,
        c_batch_sender := BatchSender_reset (c_batch_sender c), c_phase := Registering,
        c_last_ack_or_rtt_sample_ms := 0, c_stall_gated := False, c_stall_latched_since_ms := 0,
        c_stall_recovery_since_ms := 0, c_stall_probe_counter := 0, c_stall_released_at_ms := 0,
        c_stall_rejoin_backoff := 0, c_stall_rejoin_ramp_start_ms := 0, c_stall_rejoin_ramp_ms := 0,
        c_stall_rejoin_ramp_from_stall_gate := False, c_sole_carrier := False, c_sole_carrier_since_ms := 0,
        c_sole_carrier_excluded := False, c_silence_pulled := False \<rparr>"

definition mark_for_recovery :: "SrtlaConnection \<Rightarrow> SrtlaConnection" where
  "mark_for_recovery c0 =
     (let c1 = c0\<lparr> c_last_received := None, c_last_keepalive_sent := None,
                    c_rtt := (c_rtt c0)\<lparr> last_keepalive_sent_ms := 0, waiting_for_keepalive_response := False \<rparr> \<rparr>;
          c2 = reset_core_state c1
      in c2\<lparr> c_reconnection := (c_reconnection c2)\<lparr> startup_grace_deadline_ms := 0 \<rparr> \<rparr>)"

definition conn_should_attempt_reconnect :: "u64 \<Rightarrow> SrtlaConnection \<Rightarrow> bool" where
  "conn_should_attempt_reconnect now_ms c = should_attempt_reconnect now_ms (c_reconnection c)"

definition record_reconnect_attempt :: "u64 \<Rightarrow> SrtlaConnection \<Rightarrow> SrtlaConnection" where
  "record_reconnect_attempt now_ms c = c\<lparr> c_reconnection := record_attempt now_ms (c_reconnection c) \<rparr>"

definition mark_reconnect_success :: "SrtlaConnection \<Rightarrow> SrtlaConnection" where
  "mark_reconnect_success c = c\<lparr> c_reconnection := mark_success (c_reconnection c) \<rparr>"

definition calculate_bitrate :: "u64 \<Rightarrow> SrtlaConnection \<Rightarrow> SrtlaConnection" where
  "calculate_bitrate now_ms c = c\<lparr> c_bitrate := bitrate_calculate now_ms (c_bitrate c) \<rparr>"

definition recompute_batch_regime :: "SrtlaConnection \<Rightarrow> SrtlaConnection" where
  "recompute_batch_regime c =
     c\<lparr> c_batch_sender := set_regime (regime_from_bps (current_bitrate_bps (c_bitrate c))) (c_batch_sender c) \<rparr>"

definition reset_for_reconnect :: "u64 \<Rightarrow> SrtlaConnection \<Rightarrow> SrtlaConnection" where
  "reset_for_reconnect now c0 =
     (let c = reset_core_state (c0\<lparr> c_last_received := None \<rparr>)
      in c\<lparr> c_congestion := CongestionControl_reset (c_congestion c), c_rtt := RttTracker_reset (c_rtt c),
            c_bitrate := BitrateTracker_reset now (c_bitrate c),
            c_reconnection := (c_reconnection c)\<lparr> last_reconnect_attempt_ms := now \<rparr> \<rparr>)"

end
