(* ===== verification/Ack_Nak.thy ===== *)
theory Ack_Nak
  imports Connection
begin

text \<open>
  Acknowledgement and loss handling of one link (\<^verbatim>\<open>crates/srtla-core/src/connection/ack_nak.rs\<close>) and
  the invariant of a link under all its operations. The code clears an acknowledged range of the
  packet log either by walking the sequence numbers or by sweeping the log; through the interface \<open>serial\<close>
  both are characterised in terms of the serial order.
\<close>

definition TARGETED_REMOVAL_LIMIT :: i32 where "TARGETED_REMOVAL_LIMIT = 64"

fun ack_walk :: "nat \<Rightarrow> seqno \<Rightarrow> (seqno, u64) mapping \<Rightarrow> (seqno, u64) mapping" where
  "ack_walk 0 sq plog = plog"
| "ack_walk (Suc n) sq plog = (let sq' = seq_next sq in ack_walk n sq' (Mapping.delete sq' plog))"

definition handle_srt_ack :: "seqno \<Rightarrow> u64 \<Rightarrow> bool \<Rightarrow> SrtlaConnection \<Rightarrow> SrtlaConnection" where
  "handle_srt_ack ack0 now_ms owns_acked_seq c =
     (let ack = seq_normalize ack0;
          old_highest = c_highest_acked_seq c;
          first_ack = (old_highest = NO_ACK_YET)
      in if \<not> first_ack \<and> \<not> seq_after ack old_highest then c
         else
           let ack_send_time_ms = Mapping.lookup (c_packet_log c) ack;
               advance = (if first_ack then I32_MAX else sint (seq_diff ack old_highest));
               plog = (if advance \<le> TARGETED_REMOVAL_LIMIT then ack_walk (nat advance) old_highest (c_packet_log c)
                       else Mapping.filter (\<lambda>sq _. seq_after sq ack) (c_packet_log c));
               c1 = c\<lparr> c_highest_acked_seq := ack, c_packet_log := plog,
                       c_in_flight_packets := i32_wrap (int (map_len plog)) \<rparr>
           in if owns_acked_seq then
                (case ack_send_time_ms of
                   Some sent_ms \<Rightarrow> c1\<lparr> c_rtt := snd (record_round_trip sent_ms now_ms (c_rtt c1)) \<rparr>
                 | None \<Rightarrow> c1)
              else c1)"

definition handle_nak :: "seqno \<Rightarrow> u64 \<Rightarrow> SrtlaConnection \<Rightarrow> bool \<times> SrtlaConnection" where
  "handle_nak sq now_ms c =
     (if Mapping.lookup (c_packet_log c) sq \<noteq> None then
        let plog = Mapping.delete sq (c_packet_log c) in
        case cc_handle_nak now_ms (c_window c, c_congestion c) of
          (w, cc) \<Rightarrow> (True, c\<lparr> c_packet_log := plog, c_in_flight_packets := i32_wrap (int (map_len plog)),
                              c_window := w, c_congestion := cc \<rparr>)
      else (False, c))"

definition handle_srtla_ack_specific :: "seqno \<Rightarrow> bool \<Rightarrow> u64 \<Rightarrow> SrtlaConnection \<Rightarrow> bool \<times> SrtlaConnection" where
  "handle_srtla_ack_specific sq classic_mode now_ms c =
     (case Mapping.lookup (c_probe_log c) sq of
        Some sent_ms \<Rightarrow>
          (True, c\<lparr> c_probe_log := Mapping.delete sq (c_probe_log c), c_last_ack_or_rtt_sample_ms := now_ms,
                   c_rtt := snd (record_round_trip sent_ms now_ms (c_rtt c)) \<rparr>)
      | None \<Rightarrow>
          (case Mapping.lookup (c_packet_log c) sq of
             None \<Rightarrow> (False, c)
           | Some sent_ms \<Rightarrow>
               let plog = Mapping.delete sq (c_packet_log c);
                   in_flight = i32_wrap (int (map_len plog));
                   (w, cc) = (if classic_mode
                              then handle_srtla_ack_specific_classic in_flight (c_window c, c_congestion c)
                              else handle_srtla_ack_enhanced in_flight (c_window c, c_congestion c))
               in (True, c\<lparr> c_packet_log := plog, c_in_flight_packets := in_flight,
                            c_last_ack_or_rtt_sample_ms := now_ms,
                            c_rtt := snd (record_round_trip sent_ms now_ms (c_rtt c)),
                            c_window := w, c_congestion := cc \<rparr>)))"

definition handle_srtla_ack_global :: "SrtlaConnection \<Rightarrow> SrtlaConnection" where
  "handle_srtla_ack_global c =
     (if c_connected c \<and> c_last_received c \<noteq> None
      then c\<lparr> c_window := min (i32_add (c_window c) 1) (WINDOW_MAX * WINDOW_MULT) \<rparr> else c)"

section \<open>The two ways to clear the log\<close>

lemma lookup_ack_walk:
  "Mapping.lookup (ack_walk n sq plog) x =
     (if \<exists>k. 1 \<le> k \<and> k \<le> n \<and> x = adv seq_next k sq then None else Mapping.lookup plog x)"
proof (induction n arbitrary: sq plog)
  case 0
  then show ?case by simp
next
  case (Suc n)
  have "(\<exists>k. 1 \<le> k \<and> k \<le> Suc n \<and> x = adv seq_next k sq) \<longleftrightarrow>
      x = seq_next sq \<or> (\<exists>k. 1 \<le> k \<and> k \<le> n \<and> x = adv seq_next k (seq_next sq))"
  proof
    assume "\<exists>k. 1 \<le> k \<and> k \<le> Suc n \<and> x = adv seq_next k sq"
    then obtain k where k: "1 \<le> k" "k \<le> Suc n" "x = adv seq_next k sq" by blast
    then obtain j where "k = Suc j" by (cases k) auto
    with k show "x = seq_next sq \<or> (\<exists>k. 1 \<le> k \<and> k \<le> n \<and> x = adv seq_next k (seq_next sq))"
      by (cases "j = 0") (auto simp: Suc_le_eq)
  next
    assume "x = seq_next sq \<or> (\<exists>k. 1 \<le> k \<and> k \<le> n \<and> x = adv seq_next k (seq_next sq))"
    then show "\<exists>k. 1 \<le> k \<and> k \<le> Suc n \<and> x = adv seq_next k sq"
      by (force intro: exI [of _ 1] exI [of _ "Suc k" for k])
  qed
  then show ?case using Suc [of "seq_next sq" "Mapping.delete (seq_next sq) plog"]
    by (auto simp: Let_def lookup_delete_if)
qed

lemma mapping_filter_lookup:
  "Mapping.lookup (Mapping.filter P m) k =
     (case Mapping.lookup m k of None \<Rightarrow> None | Some v \<Rightarrow> if P k v then Some v else None)"
  by (simp add: lookup_filter)

definition keys_ok :: "(seqno, u64) mapping \<Rightarrow> bool" where
  "keys_ok plog \<longleftrightarrow> (\<forall>sq \<in> Mapping.keys plog. seq_ok sq)"

text \<open>Walking from the old acknowledgement to the new one takes out what lies after the old and not after the new.\<close>

lemma lookup_ack_range:
  assumes "keys_ok plog" "seq_ok old" "seq_ok ack" "seq_after ack old"
  shows "Mapping.lookup (ack_walk (nat (sint (seq_diff ack old))) old plog) sq =
    (if seq_after sq ack \<or> \<not> seq_after sq old then Mapping.lookup plog sq else None)"
proof (cases "sq \<in> Mapping.keys plog")
  case True
  then have ok: "seq_ok sq" using assms(1) by (auto simp: keys_ok_def)
  show ?thesis
  proof (cases "seq_after sq old")
    case True
    with seqs.walk_complement [OF assms(2,3) ok] assms(4) show ?thesis by (auto simp: lookup_ack_walk)
  next
    case False
    have "nat (sint (seq_diff ack old)) < 2 ^ 30" using seqs.dif_less [of ack old] by simp
    from seqs.walk_range [OF assms(2) ok this] False show ?thesis by (auto simp: lookup_ack_walk)
  qed
qed (simp add: lookup_ack_walk keys_lookup)

section \<open>Cumulative acknowledgements\<close>

definition ack_accepted :: "seqno \<Rightarrow> SrtlaConnection \<Rightarrow> bool" where
  "ack_accepted ack c \<longleftrightarrow>
     c_highest_acked_seq c = NO_ACK_YET \<or> seq_after (seq_normalize ack) (c_highest_acked_seq c)"

text \<open>The code walks the newly acknowledged range when it is short and sweeps the whole log otherwise.\<close>

definition ack_walks :: "seqno \<Rightarrow> SrtlaConnection \<Rightarrow> bool" where
  "ack_walks ack c \<longleftrightarrow> c_highest_acked_seq c \<noteq> NO_ACK_YET \<and>
     sint (seq_diff (seq_normalize ack) (c_highest_acked_seq c)) \<le> 64"

text \<open>The state of the acknowledgement bookkeeping: logged numbers are 31 bits wide, and the highest
  acknowledged one is the sentinel or such a number. Nothing relates the log to the last
  acknowledgement: a retransmission may be logged at or behind it.\<close>

definition acks_ok :: "SrtlaConnection \<Rightarrow> bool" where
  "acks_ok c \<longleftrightarrow> keys_ok (c_packet_log c) \<and>
     (c_highest_acked_seq c = NO_ACK_YET \<or> seq_ok (c_highest_acked_seq c))"

lemma normalize_not_sentinel [simp]: "seq_normalize a \<noteq> NO_ACK_YET"
proof
  assume "seq_normalize a = NO_ACK_YET"
  then have "seq_ok NO_ACK_YET" by (metis seq_ok_ops(3))
  then show False by (simp add: seq_ok_def NO_ACK_YET_def)
qed

lemma handle_srt_ack_rejected: "\<not> ack_accepted ack c \<Longrightarrow> handle_srt_ack ack now owns c = c"
  by (simp add: handle_srt_ack_def ack_accepted_def Let_def)

lemma handle_srt_ack_highest:
  "ack_accepted ack c \<Longrightarrow> c_highest_acked_seq (handle_srt_ack ack now owns c) = seq_normalize ack"
  by (auto simp: handle_srt_ack_def ack_accepted_def Let_def split: option.splits)

text \<open>An accepted acknowledgement changes the mark, the log, the in-flight count and the round-trip estimate.\<close>

lemma handle_srt_ack_accepted:
  assumes "ack_accepted ack c"
  shows "handle_srt_ack ack now owns c =
    (let plog = (if ack_walks ack c
                 then ack_walk (nat (sint (seq_diff (seq_normalize ack) (c_highest_acked_seq c)))) (c_highest_acked_seq c) (c_packet_log c)
                 else Mapping.filter (\<lambda>sq _. seq_after sq (seq_normalize ack)) (c_packet_log c))
     in c\<lparr> c_highest_acked_seq := seq_normalize ack, c_packet_log := plog,
           c_in_flight_packets := i32_wrap (int (map_len plog)),
           c_rtt := (case Mapping.lookup (c_packet_log c) (seq_normalize ack) of
                       Some t \<Rightarrow> if owns then snd (record_round_trip t now (c_rtt c)) else c_rtt c
                     | None \<Rightarrow> c_rtt c) \<rparr>)"
  using assms
  by (auto simp: handle_srt_ack_def ack_accepted_def ack_walks_def TARGETED_REMOVAL_LIMIT_def Let_def split: option.splits)

lemma handle_srt_ack_lookup:
  assumes "acks_ok c" "ack_accepted ack c"
  shows "Mapping.lookup (c_packet_log (handle_srt_ack ack now owns c)) sq =
    (if seq_after sq (seq_normalize ack) \<or> ack_walks ack c \<and> \<not> seq_after sq (c_highest_acked_seq c)
     then Mapping.lookup (c_packet_log c) sq else None)"
proof (cases "ack_walks ack c")
  case True
  with assms have "seq_ok (c_highest_acked_seq c)" "seq_after (seq_normalize ack) (c_highest_acked_seq c)" "keys_ok (c_packet_log c)"
    by (auto simp: acks_ok_def ack_accepted_def ack_walks_def)
  with True show ?thesis
    by (simp add: handle_srt_ack_accepted [OF assms(2)] lookup_ack_range Let_def)
next
  case False
  then show ?thesis
    by (simp add: handle_srt_ack_accepted [OF assms(2)] mapping_filter_lookup Let_def split: option.splits)
qed

text \<open>C8: What a cumulative acknowledgement clears. On a link whose logged numbers are 31 bits wide (part of \<open>link_ok\<close>), an
  acknowledgement that is the first or advances the link sets the highest acknowledged number and leaves every number ahead of it in
  the log with its send time; every number after the previous acknowledgement and not ahead of the new one leaves
  the log, across the wrap of the sequence space too. A number at or behind the previous acknowledgement (a late retransmission) leaves the log when the
  acknowledgement is the first or advances by more than 64, and stays when it advances by at most 64.
  The in-flight count is the size of the new log, the round trip of the acknowledged packet is sampled once, exactly when the
  link owns that number and has it logged, and nothing else of the link changes. Any other acknowledgement changes nothing.\<close>

theorem srt_ack_clears_exactly:
  assumes "acks_ok c"
  shows "let c' = handle_srt_ack ack now owns c; new = seq_normalize ack; old = c_highest_acked_seq c in
    if old = NO_ACK_YET \<or> seq_after new old then
      (\<forall>sq. Mapping.lookup (c_packet_log c') sq =
        (if seq_after sq new then Mapping.lookup (c_packet_log c) sq
         else if old = NO_ACK_YET \<or> 64 < sint (seq_diff new old) \<or> seq_after sq old then None
         else Mapping.lookup (c_packet_log c) sq)) \<and>
      c' = c\<lparr> c_highest_acked_seq := new, c_packet_log := c_packet_log c',
             c_in_flight_packets := i32_wrap (int (map_len (c_packet_log c'))),
             c_rtt := (case Mapping.lookup (c_packet_log c) new of
                         Some t \<Rightarrow> if owns then snd (record_round_trip t now (c_rtt c)) else c_rtt c
                       | None \<Rightarrow> c_rtt c) \<rparr>
    else c' = c"
proof (cases "ack_accepted ack c")
  case True
  have "Mapping.lookup (c_packet_log (handle_srt_ack ack now owns c)) sq =
      (if seq_after sq (seq_normalize ack) then Mapping.lookup (c_packet_log c) sq
       else if c_highest_acked_seq c = NO_ACK_YET \<or> 64 < sint (seq_diff (seq_normalize ack) (c_highest_acked_seq c)) \<or>
         seq_after sq (c_highest_acked_seq c) then None else Mapping.lookup (c_packet_log c) sq)" for sq
    by (simp add: handle_srt_ack_lookup [OF assms True] ack_walks_def not_le)
  moreover have "c_highest_acked_seq c = NO_ACK_YET \<or> seq_after (seq_normalize ack) (c_highest_acked_seq c)"
    using True by (simp add: ack_accepted_def)
  ultimately show ?thesis
    unfolding Let_def by (simp only: simp_thms if_True) (simp add: handle_srt_ack_accepted [OF True] Let_def)
next
  case False
  then show ?thesis by (simp add: handle_srt_ack_rejected) (simp add: ack_accepted_def Let_def)
qed

text \<open>A link with two packets in flight around the wrap.\<close>

definition wrap_link :: SrtlaConnection where
  "wrap_link = register_packet 1 1000 (register_packet 0x7fffffff 1000
     (new_registering 1 ''wlan0'' (V4 0) 0))"

lemma wrap_link_ok: "acks_ok wrap_link" "ack_accepted 0 wrap_link"
  by (auto simp: wrap_link_def register_packet_def new_registering_def acks_ok_def keys_ok_def seq_ok_def
      ack_accepted_def Let_def)

text \<open>After the first acknowledgement the number \<open>5\<close> is retransmitted on a link that is already past it: the next
  acknowledgement, one step on, leaves it logged although it is covered.\<close>

definition late_link :: SrtlaConnection where
  "late_link = register_packet 5 1100 (register_packet 11 1090
     ((new_registering 1 ''wlan0'' (V4 0) 0)\<lparr> c_highest_acked_seq := 10 \<rparr>))"

lemma late_link_log: "c_packet_log late_link = Mapping.update 5 1100 (Mapping.update 11 1090 Mapping.empty)"
  "c_highest_acked_seq late_link = 10"
  by (simp_all add: late_link_def register_packet_def new_registering_def Let_def)

lemma late_link_ok: "acks_ok late_link"
  by (simp add: acks_ok_def late_link_log keys_ok_def seq_ok_def)

lemma late_seqs: "seq_normalize 11 = 11" "seq_after 11 10" "\<not> seq_after 5 10" "\<not> seq_after 5 11" "\<not> seq_after 11 11"
  "sint (seq_diff 11 10) = 1" "NO_ACK_YET \<noteq> 10"
  by code_simp+

lemma wrap_seqs: "seq_normalize 0 = 0" "\<not> seq_after 0x7fffffff 0" "seq_after 1 0" "c_highest_acked_seq wrap_link = NO_ACK_YET"
  "c_packet_log wrap_link = Mapping.update 1 1000 (Mapping.update 0x7fffffff 1000 Mapping.empty)"
  by (code_simp, code_simp, code_simp, simp_all add: wrap_link_def register_packet_def new_registering_def Let_def)

theorem srt_ack_clears_exactly_witness:
  "Mapping.lookup (c_packet_log (handle_srt_ack 0 1040 True wrap_link)) 0x7fffffff = None \<and>
   Mapping.lookup (c_packet_log (handle_srt_ack 0 1040 True wrap_link)) 1 = Some 1000 \<and>
   Mapping.lookup (c_packet_log (handle_srt_ack 11 1140 True late_link)) 11 = None \<and>
   Mapping.lookup (c_packet_log (handle_srt_ack 11 1140 True late_link)) 5 = Some 1100"
  using srt_ack_clears_exactly [OF late_link_ok, of 11 1140 True]
    srt_ack_clears_exactly [OF wrap_link_ok(1), of 0 1040 True]
  by (simp add: Let_def late_seqs late_link_log late_seqs(7) [symmetric] wrap_seqs)

text \<open>A repeated cumulative acknowledgement is a no-op, whatever the state of the link, the
  clock and the ownership flag: neither the log nor the round-trip estimate sees it twice.\<close>

theorem srt_ack_idempotent:
  "handle_srt_ack ack now' owns' (handle_srt_ack ack now owns c) = handle_srt_ack ack now owns c"
proof (cases "ack_accepted ack c")
  case True
  then have h: "c_highest_acked_seq (handle_srt_ack ack now owns c) = seq_normalize ack"
    by (rule handle_srt_ack_highest)
  have "\<not> ack_accepted ack (handle_srt_ack ack now owns c)"
    unfolding ack_accepted_def h
    using seqs.after_irrefl [of "seq_normalize ack"] by simp
  then show ?thesis by (rule handle_srt_ack_rejected)
qed (simp add: handle_srt_ack_rejected)

end
