(* ===== verification/Link_Machine.thy ===== *)
theory Link_Machine
  imports Ack_Nak
begin

text \<open>
  One link under all its operations. \<open>link_ok\<close> is the well-formedness of a link; \<open>link_step\<close> is one
  operation of \<^verbatim>\<open>connection/mod.rs\<close> or \<^verbatim>\<open>connection/ack_nak.rs\<close>, in any order the sender may call them.
\<close>

definition seqs_ok :: "u32 option list \<Rightarrow> bool" where
  "seqs_ok qs \<longleftrightarrow> list_all (\<lambda>q. case q of None \<Rightarrow> True | Some s \<Rightarrow> seq_ok s) qs"

definition link_ok :: "SrtlaConnection \<Rightarrow> bool" where
  "link_ok c \<longleftrightarrow> window_ok (c_window c) \<and>
     finite_keys (c_packet_log c) \<and> keys_ok (c_packet_log c) \<and>
     c_in_flight_packets c = i32_wrap (int (map_len (c_packet_log c))) \<and>
     finite_keys (c_probe_log c) \<and> map_len (c_probe_log c) \<le> PROBE_LOG_SOFT_CAP \<and>
     (c_highest_acked_seq c = NO_ACK_YET \<or> seq_ok (c_highest_acked_seq c)) \<and>
     batch_ok (c_batch_sender c) \<and> seqs_ok (bs_sequences (c_batch_sender c)) \<and>
     rtt_ok (c_rtt c) \<and> c_stall_rejoin_backoff c \<le> STALL_REJOIN_BACKOFF_MAX \<and>
     (c_stall_recovery_since_ms c \<noteq> 0 \<longrightarrow> c_stall_latched_since_ms c \<noteq> 0)"

lemma link_okI:
  assumes "window_ok (c_window c)" "finite_keys (c_packet_log c)" "keys_ok (c_packet_log c)"
    "c_in_flight_packets c = i32_wrap (int (map_len (c_packet_log c)))"
    "finite_keys (c_probe_log c)" "map_len (c_probe_log c) \<le> PROBE_LOG_SOFT_CAP"
    "c_highest_acked_seq c = NO_ACK_YET \<or> seq_ok (c_highest_acked_seq c)"
    "batch_ok (c_batch_sender c)" "seqs_ok (bs_sequences (c_batch_sender c))" "rtt_ok (c_rtt c)"
    "c_stall_rejoin_backoff c \<le> STALL_REJOIN_BACKOFF_MAX"
    "c_stall_recovery_since_ms c \<noteq> 0 \<longrightarrow> c_stall_latched_since_ms c \<noteq> 0"
  shows "link_ok c"
  using assms by (simp add: link_ok_def)

section \<open>What the receive path does to a link\<close>

text \<open>The arms of \<^verbatim>\<open>process_uplink_packet\<close> in \<^verbatim>\<open>src/sender/uplink_recv.rs\<close>: an accepted REG3 makes the link connected,
  a REG_ERR disconnects it, and any other packet refreshes its liveness.\<close>

definition accept_reg3 :: "u64 \<Rightarrow> SrtlaConnection \<Rightarrow> SrtlaConnection" where
  "accept_reg3 now c =
     (let c1 = (clear_pre_registration_state now c)\<lparr> c_connected := True, c_last_received := Some now \<rparr>;
          c2 = (if connection_established_ms (c_reconnection c1) = 0
                then c1\<lparr> c_reconnection := (c_reconnection c1)\<lparr> connection_established_ms := now \<rparr> \<rparr> else c1)
      in mark_reconnect_success c2)"

definition refresh_liveness :: "u64 \<Rightarrow> SrtlaConnection \<Rightarrow> SrtlaConnection" where
  "refresh_liveness now c =
     (if c_connected c \<or> connection_established_ms (c_reconnection c) = 0 then c\<lparr> c_last_received := Some now \<rparr> else c)"

definition reject_registration :: "SrtlaConnection \<Rightarrow> SrtlaConnection" where
  "reject_registration c = c\<lparr> c_connected := False, c_last_received := None \<rparr>"

section \<open>Preservation, operation by operation\<close>

lemma keys_ok_simps [simp]:
  "keys_ok Mapping.empty" "keys_ok plog \<Longrightarrow> keys_ok (Mapping.delete k plog)"
  "keys_ok (Mapping.update k v plog) \<longleftrightarrow> seq_ok k \<and> keys_ok plog"
  by (auto simp: keys_ok_def)

lemma keys_ok_filter [simp]: "keys_ok plog \<Longrightarrow> keys_ok (Mapping.filter P plog)"
  using keys_filter_subset [of P plog] by (auto simp: keys_ok_def)

lemma ack_walk_keeps [simp]:
  "finite_keys plog \<Longrightarrow> finite_keys (ack_walk n sq plog)" "keys_ok plog \<Longrightarrow> keys_ok (ack_walk n sq plog)"
  by (induction n arbitrary: sq plog) (simp_all add: Let_def)

lemma record_probe_bound:
  assumes "finite_keys plog"
  shows "map_len (record_probe sq t plog) \<le> PROBE_LOG_SOFT_CAP \<and> finite_keys (record_probe sq t plog)"
proof -
  have "map_len (Mapping.update sq t m) \<le> PROBE_LOG_SOFT_CAP" if "finite_keys m" "map_len m < PROBE_LOG_SOFT_CAP" for m
    using map_len_update_le [OF that(1), of sq t] that(2) by simp
  moreover have "0 < PROBE_LOG_SOFT_CAP" by (simp add: PROBE_LOG_SOFT_CAP_def)
  ultimately show ?thesis using assms by (simp add: record_probe_def Let_def not_le)
qed

lemma link_ok_new [simp]: "link_ok (new_registering conn_id label ip now)"
  by (intro link_okI)
    (simp_all add: new_registering_def window_ok_def protocol_consts config_consts seqs_ok_def
      BatchSender_new_def [THEN arg_cong, of bs_sequences] i32_wrap_def)

lemma link_ok_queue_data [inv_intros]:
  "link_ok c \<Longrightarrow> seqs_ok [sq] \<Longrightarrow> link_ok (snd (queue_data_packet data sq t c))"
  by (auto simp: link_ok_def queue_data_packet_def queue_packet_def batch_ok_def seqs_ok_def Let_def)

lemma link_ok_queue_probe [inv_intros]: "link_ok c \<Longrightarrow> link_ok (snd (queue_probe_packet data sq t c))"
  using record_probe_bound [of "c_probe_log c" sq t]
  by (auto simp: link_ok_def queue_probe_packet_def queue_packet_def batch_ok_def seqs_ok_def Let_def)

lemma link_ok_register: "link_ok c \<Longrightarrow> seq_ok sq \<Longrightarrow> link_ok (register_packet sq t c)"
  by (simp add: link_ok_def register_packet_def Let_def)

lemma batch_drain_seqs:
  assumes "(data, sq, t) \<in> set (fst (batch_drain now b))"
  shows "sq \<in> set (bs_sequences b)"
proof -
  from assms have "((data, sq), t) \<in> set (zip (zip (bs_queue b) (bs_sequences b)) (bs_queue_times b))"
    by (auto simp: batch_drain_def split: if_splits)
  then have "(data, sq) \<in> set (zip (bs_queue b) (bs_sequences b))" by (rule set_zip_leftD)
  then show ?thesis by (rule set_zip_rightD)
qed

lemma batch_drain_empty: "bs_sequences (snd (batch_drain now b)) = [] \<or> snd (batch_drain now b) = b\<lparr> bs_last_flush_ms := now \<rparr>"
  by (simp add: batch_drain_def)

lemma link_ok_register_all:
  assumes "link_ok c" "\<forall>(data, sq, t) \<in> set batch. seqs_ok [sq]"
  shows "link_ok (fold (\<lambda>(_, sq, t) c. case sq of Some s \<Rightarrow> register_packet s t c | None \<Rightarrow> c) batch c)"
  using assms
  by (induction batch arbitrary: c) (auto simp: seqs_ok_def link_ok_register split: option.splits)

lemma link_ok_take_batch [inv_intros]:
  assumes "link_ok c"
  shows "link_ok (snd (take_batch now c))"
proof -
  obtain batch b where d: "batch_drain now (c_batch_sender c) = (batch, b)" by fastforce
  have "seqs_ok [sq]" if "(data, sq, t) \<in> set batch" for data sq t
    using batch_drain_seqs [of data sq t now "c_batch_sender c"] assms that d
    by (auto simp: link_ok_def seqs_ok_def list_all_iff)
  moreover have "link_ok (c\<lparr> c_batch_sender := b \<rparr>)"
    using assms batch_ok_ops(4) [of "c_batch_sender c" now] batch_drain_empty [of now "c_batch_sender c"] d
    by (auto simp: link_ok_def seqs_ok_def)
  ultimately show ?thesis by (auto simp: take_batch_def d intro!: link_ok_register_all)
qed

lemma link_ok_keepalive [inv_intros]: "link_ok c \<Longrightarrow> link_ok (snd (keepalive_packet now c))"
  by (simp add: link_ok_def keepalive_packet_def Let_def)

lemma link_ok_srt_ack [inv_intros]:
  assumes "link_ok c"
  shows "link_ok (handle_srt_ack ack now owns c)"
  using assms rtt_ok_record by (auto simp: link_ok_def handle_srt_ack_def Let_def split: option.splits)

lemma link_ok_nak [inv_intros]:
  assumes "link_ok c"
  shows "link_ok (snd (handle_nak sq now c))"
  using assms window_ok_nak [of "c_window c" now "c_congestion c"]
  by (simp add: link_ok_def handle_nak_def Let_def case_prod_beta)

lemma link_ok_srtla_ack [inv_intros]:
  assumes "link_ok c"
  shows "link_ok (snd (handle_srtla_ack_specific sq classic now c))"
proof -
  have "window_ok (fst (if classic then handle_srtla_ack_specific_classic n (c_window c, c_congestion c)
      else handle_srtla_ack_enhanced n (c_window c, c_congestion c)))" for n
    using assms by (simp add: link_ok_def enhanced_is_classic handle_srtla_ack_specific_classic_def inv_intros)
  with assms show ?thesis
    using map_len_delete_le [of "c_probe_log c" sq]
    by (auto simp: link_ok_def handle_srtla_ack_specific_def Let_def rtt_ok_record case_prod_beta split: option.splits)
qed

lemma link_ok_srtla_ack_global [inv_intros]: "link_ok c \<Longrightarrow> link_ok (handle_srtla_ack_global c)"
  by (auto simp: link_ok_def handle_srtla_ack_global_def window_ok_iff protocol_consts i32_add_id in_i32_def)

lemma link_ok_rtt_probe [inv_intros]: "link_ok (record_rtt_probe c) = link_ok c"
  by (simp add: link_ok_def record_rtt_probe_def Let_def split: LinkPhase.splits)

lemma link_ok_echo [inv_intros]: "link_ok c \<Longrightarrow> link_ok (handle_keepalive_echo data now c)"
  using rtt_ok_response [of "c_rtt c" data now]
  by (simp add: handle_keepalive_echo_def case_prod_beta Let_def link_ok_rtt_probe) 
    (simp add: link_ok_def record_rtt_probe_def Let_def split: LinkPhase.splits)

lemma link_ok_recovery [inv_intros]: "link_ok c \<Longrightarrow> link_ok (perform_window_recovery now c)"
  by (simp add: link_ok_def perform_window_recovery_def case_prod_beta window_ok_recovery)

lemma link_ok_phase [inv_intros]: "link_ok c \<Longrightarrow> link_ok (update_phase now c)"
  by (simp add: link_ok_def update_phase_def Let_def split: LinkPhase.splits)

lemma backoff_next_bound: "stall_rejoin_backoff_next b r h p \<le> STALL_REJOIN_BACKOFF_MAX"
  by (simp add: stall_rejoin_backoff_next_def Let_def config_consts)

lemma link_ok_arm_ramp: "link_ok (arm_rejoin_ramp now ramp b c) = link_ok c"
  by (simp add: link_ok_def arm_rejoin_ramp_def)

lemma link_ok_latch [inv_intros]: "link_ok c \<Longrightarrow> link_ok (update_stall_latch now n ceil c)"
  using backoff_next_bound
  by (simp add: update_stall_latch_def Let_def link_ok_arm_ramp) (simp add: link_ok_def)

lemma link_ok_clear_latch [inv_intros]: "link_ok c \<Longrightarrow> link_ok (clear_stall_latch c)"
  by (simp add: link_ok_def clear_stall_latch_def Let_def)

lemma link_ok_pull [inv_intros]: "link_ok c \<Longrightarrow> link_ok (update_silence_pull now n ceil c)"
  by (simp add: link_ok_def update_silence_pull_def Let_def)

lemma reset_seqs [simp]: "bs_sequences (BatchSender_reset b) = []" "seqs_ok []"
  by (simp_all add: BatchSender_reset_def seqs_ok_def)

lemma link_ok_pre_registration [inv_intros]: "link_ok c \<Longrightarrow> link_ok (clear_pre_registration_state now c)"
  by (simp add: link_ok_def clear_pre_registration_state_def i32_wrap_def)

lemma link_ok_reset_core: "rtt_ok (c_rtt c) \<Longrightarrow> link_ok (reset_core_state c)"
  by (simp add: link_ok_def reset_core_state_def i32_wrap_def window_ok_def protocol_consts)

lemma rtt_ok_keepalive_stamp [simp]: "rtt_ok (r\<lparr> last_keepalive_sent_ms := t \<rparr>) = rtt_ok r"
  by (simp add: rtt_ok_def)

lemma link_ok_mark_for_recovery [inv_intros]: "link_ok c \<Longrightarrow> link_ok (mark_for_recovery c)"
  by (simp add: link_ok_def mark_for_recovery_def reset_core_state_def i32_wrap_def window_ok_def protocol_consts
      config_consts Let_def)

lemma link_ok_reconnect [inv_intros]: "link_ok (reset_for_reconnect now c)"
  by (simp add: link_ok_def reset_for_reconnect_def reset_core_state_def i32_wrap_def window_ok_def protocol_consts
      config_consts Let_def)

lemma link_ok_connected [simp]:
  "link_ok (c\<lparr> c_connected := b \<rparr>) = link_ok c" "link_ok (c\<lparr> c_reconnection := r \<rparr>) = link_ok c"
  "link_ok (c\<lparr> c_last_received := lr \<rparr>) = link_ok c"
  by (simp_all add: link_ok_def)

lemma link_ok_receive [inv_intros]:
  "link_ok c \<Longrightarrow> link_ok (accept_reg3 now c)" "link_ok (reject_registration c) = link_ok c"
  "link_ok (refresh_liveness now c) = link_ok c"
  using link_ok_pre_registration [of c now]
  by (simp_all add: accept_reg3_def reject_registration_def refresh_liveness_def mark_reconnect_success_def Let_def)

lemma link_ok_batch_regime [inv_intros]: "link_ok c \<Longrightarrow> link_ok (recompute_batch_regime c)"
  by (simp add: link_ok_def recompute_batch_regime_def) (simp add: set_regime_def)


section \<open>The machine\<close>

datatype link_event =
    QueueData bytes "u32 option" u64
  | QueueProbe bytes u32 u64
  | TakeBatch u64
  | SendKeepalive u64
  | NoteSent u64
  | SrtAck seqno u64 bool
  | Nak seqno u64
  | SrtlaAck seqno bool u64
  | SrtlaAckGlobal
  | EchoReceived bytes u64
  | Reg3Accepted u64
  | RegErrReceived
  | PacketReceived u64
  | WindowRecovery u64
  | PhaseTick u64
  | StallTick u64 i32 u64
  | SilenceTick u64 i32 u64
  | StallClear
  | ProbeCadence
  | PreRegistrationCleared u64
  | MarkForRecovery
  | ResetForReconnect u64
  | BitrateTick u64
  | RegimeTick
  | ReconnectAttempt u64
  | ReconnectSuccess

fun link_step :: "SrtlaConnection \<Rightarrow> link_event \<Rightarrow> SrtlaConnection" where
  "link_step c (QueueData data sq t) = snd (queue_data_packet data sq t c)"
| "link_step c (QueueProbe data sq t) = snd (queue_probe_packet data sq t c)"
| "link_step c (TakeBatch now) = snd (take_batch now c)"
| "link_step c (SendKeepalive now) = snd (keepalive_packet now c)"
| "link_step c (NoteSent now) = note_sent now c"
| "link_step c (SrtAck ack now owns) = handle_srt_ack ack now owns c"
| "link_step c (Nak sq now) = snd (handle_nak sq now c)"
| "link_step c (SrtlaAck sq classic now) = snd (handle_srtla_ack_specific sq classic now c)"
| "link_step c SrtlaAckGlobal = handle_srtla_ack_global c"
| "link_step c (EchoReceived data now) = handle_keepalive_echo data now c"
| "link_step c (Reg3Accepted now) = accept_reg3 now c"
| "link_step c RegErrReceived = reject_registration c"
| "link_step c (PacketReceived now) = refresh_liveness now c"
| "link_step c (WindowRecovery now) = perform_window_recovery now c"
| "link_step c (PhaseTick now) = update_phase now c"
| "link_step c (StallTick now n ceil) = update_stall_latch now n ceil c"
| "link_step c (SilenceTick now n ceil) = update_silence_pull now n ceil c"
| "link_step c StallClear = clear_stall_latch c"
| "link_step c ProbeCadence = snd (stall_probe_due c)"
| "link_step c (PreRegistrationCleared now) = clear_pre_registration_state now c"
| "link_step c MarkForRecovery = mark_for_recovery c"
| "link_step c (ResetForReconnect now) = reset_for_reconnect now c"
| "link_step c (BitrateTick now) = calculate_bitrate now c"
| "link_step c RegimeTick = recompute_batch_regime c"
| "link_step c (ReconnectAttempt now) = record_reconnect_attempt now c"
| "link_step c ReconnectSuccess = mark_reconnect_success c"

text \<open>The sender tracks a queued packet by a sequence number read from a data header, whose top bit is clear.\<close>

fun link_admissible :: "link_event \<Rightarrow> bool" where
  "link_admissible (QueueData data (Some sq) t) = seq_ok sq"
| "link_admissible e = True"

lemma seqs_ok_single: "link_admissible (QueueData data sq t) \<longleftrightarrow> seqs_ok [sq]"
  by (cases sq) (simp_all add: seqs_ok_def)

lemma link_ok_minor [simp]:
  "link_ok (note_sent now c) = link_ok c"
  "link_ok (snd (stall_probe_due c)) = link_ok c" "link_ok (calculate_bitrate now c) = link_ok c"
  "link_ok (record_reconnect_attempt now c) = link_ok c" "link_ok (mark_reconnect_success c) = link_ok c"
  by (simp_all add: link_ok_def note_sent_def stall_probe_due_def calculate_bitrate_def
      record_reconnect_attempt_def mark_reconnect_success_def Let_def)

interpretation link: machine link_step link_admissible link_ok
proof
  fix c e
  assume "link_ok c" "link_admissible e"
  then show "link_ok (link_step c e)"
    by (cases e) (auto simp: inv_intros seqs_ok_single simp del: link_admissible.simps)
qed

text \<open>C9: The invariant of a link. From its creation on, through any sequence of packets queued and
  flushed, probes, keepalives and echoes, accepted registrations and registration errors, liveness refreshes, acknowledgements and loss
  reports of every kind, window recoveries, phase, stall and silence ticks, resets and reconnects, with any clock values: the
  congestion window is in range, the in-flight
  count is the size of the packet log, the log holds 31-bit sequence numbers, the probe log never
  exceeds its cap, the batch vectors are parallel, the round-trip floor is plausible, the
  rejoin backoff is at most its maximum, and a recovery dwell runs only while the latch is engaged.\<close>

theorem link_invariant:
  assumes "list_all link_admissible es"
  shows "link_ok (foldl link_step (new_registering conn_id label ip now) es)"
  using link.run_inv [OF link_ok_new assms] .

text \<open>A link that registers, has a packet in flight and sees it acknowledged and a broadcast credit: it is connected,
  and the credit has widened its window.\<close>

definition life_of_a_link :: "link_event list" where
  "life_of_a_link = [Reg3Accepted 12, QueueData [0, 0, 0, 5] (Some 5) 20, TakeBatch 30, SrtAck 5 40 True, SrtlaAckGlobal]"

lemma register_all_frame:
  "c_window (fold (\<lambda>(_, sq, t) c. case sq of Some s \<Rightarrow> register_packet s t c | None \<Rightarrow> c) batch c) = c_window c"
  "c_connected (fold (\<lambda>(_, sq, t) c. case sq of Some s \<Rightarrow> register_packet s t c | None \<Rightarrow> c) batch c) = c_connected c"
  "c_last_received (fold (\<lambda>(_, sq, t) c. case sq of Some s \<Rightarrow> register_packet s t c | None \<Rightarrow> c) batch c) = c_last_received c"
  by (induction batch arbitrary: c) (simp_all add: register_packet_def Let_def split: prod.splits option.splits)

text \<open>Neither queueing and flushing data nor a cumulative acknowledgement touches the window or the registration.\<close>

lemma window_frame:
  "c_window (snd (queue_data_packet data sq t c)) = c_window c" "c_window (snd (take_batch now c)) = c_window c"
  "c_window (handle_srt_ack ack now owns c) = c_window c"
  "c_connected (snd (queue_data_packet data sq t c)) = c_connected c" "c_connected (snd (take_batch now c)) = c_connected c"
  "c_connected (handle_srt_ack ack now owns c) = c_connected c"
  "c_last_received (snd (queue_data_packet data sq t c)) = c_last_received c"
  "c_last_received (snd (take_batch now c)) = c_last_received c"
  "c_last_received (handle_srt_ack ack now owns c) = c_last_received c"
  by (simp_all add: queue_data_packet_def take_batch_def handle_srt_ack_def register_all_frame Let_def case_prod_beta
      split: option.split)

lemma life_evaluated:
  "c_connected (foldl link_step (new_registering 7 ''eth0'' (V4 1) 10) life_of_a_link)"
  "c_window (foldl link_step (new_registering 7 ''eth0'' (V4 1) 10) life_of_a_link) = 20001"
  by (simp_all add: life_of_a_link_def handle_srtla_ack_global_def window_frame accept_reg3_def mark_reconnect_success_def
      clear_pre_registration_state_def new_registering_def protocol_consts i32_add_def i32_wrap_def Let_def)

lemma life_admissible: "list_all link_admissible life_of_a_link"
  by (simp add: life_of_a_link_def seq_ok_def)

theorem link_invariant_witness:
  "link_ok (foldl link_step (new_registering 7 ''eth0'' (V4 1) 10) life_of_a_link) \<and>
   c_connected (foldl link_step (new_registering 7 ''eth0'' (V4 1) 10) life_of_a_link) \<and>
   c_window (foldl link_step (new_registering 7 ''eth0'' (V4 1) 10) life_of_a_link) = 20001"
  using link_invariant [OF life_admissible, of 7 "''eth0''" "V4 1" 10] life_evaluated by blast

end
