(* ===== verification/Selection.thy ===== *)
theory Selection
  imports Link_Machine
begin

text \<open>
  Link selection, the parts both modes share and the classic mode
  (\<^verbatim>\<open>crates/srtla-core/src/selection/\<close>: \<^verbatim>\<open>mod.rs\<close>, \<^verbatim>\<open>classic.rs\<close>, \<^verbatim>\<open>quality.rs\<close>). The exponential function of the
  quality decay is an argument \<open>exp_f\<close>, because the precision of \<^verbatim>\<open>f64::exp\<close> is not specified; where a
  bound depends on it, the predicate \<open>decay_fn\<close> of theory \<open>Enhanced\<close> says what is used of it.
\<close>

section \<open>Quality multiplier\<close>

definition STARTUP_GRACE_PERIOD_MS :: u64 where "STARTUP_GRACE_PERIOD_MS = 30000"
definition PERFECT_CONNECTION_BONUS :: f64 where "PERFECT_CONNECTION_BONUS = f64_of_rat (11 / 10)"
definition STARTUP_NAK_PENALTY :: f64 where "STARTUP_NAK_PENALTY = f64_of_rat (98 / 100)"
definition HALF_LIFE_MS :: f64 where "HALF_LIFE_MS = f64_of_rat 2000"
definition MAX_PENALTY :: f64 where "MAX_PENALTY = f64_of_rat (5 / 10)"
definition NAK_BURST_THRESHOLD :: i32 where "NAK_BURST_THRESHOLD = 5"
definition NAK_BURST_MAX_AGE_MS :: u64 where "NAK_BURST_MAX_AGE_MS = 3000"
definition NAK_BURST_PENALTY :: f64 where "NAK_BURST_PENALTY = f64_of_rat (7 / 10)"
definition RTT_BONUS_THRESHOLD_MS :: f64 where "RTT_BONUS_THRESHOLD_MS = f64_of_rat 200"
definition MIN_RTT_MS :: f64 where "MIN_RTT_MS = f64_of_rat 50"
definition MAX_RTT_BONUS :: f64 where "MAX_RTT_BONUS = f64_of_rat (103 / 100)"

definition calculate_rtt_bonus :: "SrtlaConnection \<Rightarrow> f64" where
  "calculate_rtt_bonus c =
     (let smooth_rtt = get_smooth_rtt_ms c in
      if fl_le smooth_rtt (Fin 0) then Fin 1
      else let rtt_factor = fl_min (f64_div RTT_BONUS_THRESHOLD_MS (fl_max smooth_rtt MIN_RTT_MS)) MAX_RTT_BONUS
           in fl_max rtt_factor (Fin 1))"

definition nak_quality :: "(f64 \<Rightarrow> f64) \<Rightarrow> SrtlaConnection \<Rightarrow> u64 \<Rightarrow> f64" where
  "nak_quality exp_f c current_time_ms =
     (case time_since_last_nak_ms current_time_ms (c_congestion c) of
        Some nak_age_ms \<Rightarrow>
          let decay_factor = exp_f (f64_div (fl_neg (u64_to_f64 nak_age_ms)) HALF_LIFE_MS);
              penalty = f64_mul MAX_PENALTY decay_factor;
              mult = f64_sub (Fin 1) penalty
          in if nak_burst_count (c_congestion c) \<ge> NAK_BURST_THRESHOLD \<and> nak_age_ms < NAK_BURST_MAX_AGE_MS
             then f64_mul mult NAK_BURST_PENALTY else mult
      | None \<Rightarrow> if nak_count (c_congestion c) = 0 then PERFECT_CONNECTION_BONUS else Fin 1)"

definition calculate_quality_multiplier :: "(f64 \<Rightarrow> f64) \<Rightarrow> SrtlaConnection \<Rightarrow> u64 \<Rightarrow> f64" where
  "calculate_quality_multiplier exp_f c current_time_ms =
     (let connection_age_ms = current_time_ms - connection_established_ms (c_reconnection c) in
      if connection_age_ms < STARTUP_GRACE_PERIOD_MS then
        (if nak_count (c_congestion c) = 0 then PERFECT_CONNECTION_BONUS else STARTUP_NAK_PENALTY)
      else f64_mul (nak_quality exp_f c current_time_ms) (calculate_rtt_bonus c))"

definition get_cached_quality_multiplier ::
  "(f64 \<Rightarrow> f64) \<Rightarrow> u64 \<Rightarrow> SrtlaConnection \<Rightarrow> f64 \<times> SrtlaConnection" where
  "get_cached_quality_multiplier exp_f current_time_ms c =
     (let c' = (if current_time_ms - cq_last_calculated_ms (c_quality_cache c) \<ge> QUALITY_CACHE_INTERVAL_MS
                then c\<lparr> c_quality_cache := \<lparr> cq_multiplier = calculate_quality_multiplier exp_f c current_time_ms,
                                             cq_last_calculated_ms = current_time_ms \<rparr> \<rparr>
                else c)
      in (cq_multiplier (c_quality_cache c'), c'))"

section \<open>Stall gate\<close>

definition any_healthy :: "u64 \<Rightarrow> SrtlaConnection list \<Rightarrow> bool" where
  "any_healthy now conns =
     list_ex (\<lambda>c. \<not> is_timed_out now c \<and> is_schedulable c \<and> \<not> stall_latched c \<and> \<not> c_silence_pulled c) conns"

definition apply_stall_gate :: "u64 \<Rightarrow> ConfigSnapshot \<Rightarrow> SrtlaConnection list \<Rightarrow> SrtlaConnection list" where
  "apply_stall_gate current_time_ms config conns0 =
     (let conns = map (\<lambda>c. c\<lparr> c_conn_timeout_ms := cfg_conn_timeout_ms config,
                              c_delay_budget_ms := cfg_negotiated_latency_ms config \<rparr>) conns0
      in if \<not> cfg_stall_deselect config then
           map (\<lambda>c. clear_stall_latch (c\<lparr> c_stall_gated := False, c_silence_pulled := False \<rparr>)) conns
         else
           let min_in_flight = cfg_stall_min_in_flight config;
               stale_ceiling_ms = cfg_stall_ack_stale_ms config;
               ticked = map (\<lambda>c. update_stall_latch current_time_ms min_in_flight stale_ceiling_ms
                                  (update_silence_pull current_time_ms min_in_flight stale_ceiling_ms c)) conns;
               healthy = any_healthy current_time_ms ticked
           in map (\<lambda>c. c\<lparr> c_stall_gated := (healthy \<and> (stall_latched c \<or> c_silence_pulled c)) \<rparr>) ticked)"

section \<open>Classic mode\<close>

definition weighted_score :: "SrtlaConnection \<Rightarrow> i32" where
  "weighted_score c =
     (let score = get_score c in
      if c_link_weight c \<le> 1 \<or> score \<le> 0 then score
      else fl_to_i32 (f32_mul (i32_to_f32 score) (weight_multiplier c)))"

definition skipped :: "u64 \<Rightarrow> SrtlaConnection \<Rightarrow> bool" where
  "skipped now c \<longleftrightarrow> is_timed_out now c \<or> \<not> is_schedulable c \<or> c_stall_gated c"

fun classic_loop :: "u64 \<Rightarrow> usize \<Rightarrow> usize option \<Rightarrow> i32 \<Rightarrow> SrtlaConnection list \<Rightarrow> usize option" where
  "classic_loop now i best_idx best_score [] = best_idx"
| "classic_loop now i best_idx best_score (c # cs) =
     (if skipped now c then classic_loop now (Suc i) best_idx best_score cs
      else let score = weighted_score c in
           if score > best_score then classic_loop now (Suc i) (Some i) score cs
           else classic_loop now (Suc i) best_idx best_score cs)"

definition classic_select_connection :: "u64 \<Rightarrow> SrtlaConnection list \<Rightarrow> usize option" where
  "classic_select_connection now_ms conns = classic_loop now_ms 0 None (-1) conns"

definition classic_candidate :: "u64 \<Rightarrow> SrtlaConnection \<Rightarrow> i32 option" where
  "classic_candidate now c = (if skipped now c then None else Some (weighted_score c))"

text \<open>The loop is the scan of the prelude.\<close>

lemma classic_loop_scan:
  "classic_loop now i bi bs cs = fst (scan_best (>) (classic_candidate now) i bi bs cs)"
  by (induction cs arbitrary: i bi bs) (simp_all add: classic_candidate_def Let_def)

text \<open>Classic mode sends on the first link of highest weighted score. If it selects link \<open>i\<close>, that link is
  live (not timed out, registered, not gated) and scores at least zero, no live link scores higher, and every live link
  before it scores strictly lower; if it selects none, no live link has a score of at least zero.\<close>

theorem classic_selects_first_best:
  "case classic_select_connection now conns of
     Some i \<Rightarrow> i < length conns \<and> \<not> skipped now (conns ! i) \<and> 0 \<le> weighted_score (conns ! i) \<and>
       list_all (\<lambda>c. skipped now c \<or> weighted_score c \<le> weighted_score (conns ! i)) conns \<and>
       list_all (\<lambda>c. skipped now c \<or> weighted_score c < weighted_score (conns ! i)) (take i conns)
   | None \<Rightarrow> list_all (\<lambda>c. skipped now c \<or> weighted_score c < 0) conns"
proof -
  let ?sc = "classic_candidate now"
  obtain r s where rs: "scan_best (>) ?sc 0 None (-1) conns = (r, s)" by fastforce
  then have sel: "classic_select_connection now conns = r"
    by (simp add: classic_select_connection_def classic_loop_scan)
  have cand: "skipped now c \<or> ?sc c = Some (weighted_score c)" for c by (simp add: classic_candidate_def)
  show ?thesis
  proof (cases r)
    case None
    have "skipped now c \<or> weighted_score c < 0" if "c \<in> set conns" for c
      using int_scan.scan_none [OF rs [unfolded None] that] cand [of c] by fastforce
    then show ?thesis by (simp add: sel None list_all_iff)
  next
    case (Some i)
    with int_scan.scan_result [OF rs] have i: "i < length conns" "?sc (conns ! i) = Some s" "-1 < s"
      by (auto simp: scan_found_def)
    then have s: "\<not> skipped now (conns ! i)" "s = weighted_score (conns ! i)"
      by (auto simp: classic_candidate_def split: if_splits)
    have best: "skipped now c \<or> weighted_score c \<le> s" if "c \<in> set conns" for c
      using int_scan.scan_max [OF rs that] cand [of c] by fastforce
    have "skipped now (conns ! j) \<or> weighted_score (conns ! j) < s" if "j < i" for j
      using int_scan.scan_first [OF rs [unfolded Some], of j] that i(1) cand [of "conns ! j"] by fastforce
    then have "list_all (\<lambda>c. skipped now c \<or> weighted_score c < s) (take i conns)"
      by (simp add: list_all_length)
    with best i s show ?thesis by (simp add: sel Some list_all_iff)
  qed
qed


section \<open>The stall gate never empties the pool\<close>

definition carries :: "u64 \<Rightarrow> SrtlaConnection \<Rightarrow> bool" where
  "carries now c \<longleftrightarrow> \<not> is_timed_out now c \<and> is_schedulable c"

lemma skipped_carries: "skipped now c \<longleftrightarrow> \<not> carries now c \<or> c_stall_gated c"
  by (auto simp: skipped_def carries_def)

lemma any_healthy_carries:
  "any_healthy now conns = list_ex (\<lambda>c. carries now c \<and> \<not> stall_latched c \<and> \<not> c_silence_pulled c) conns"
  by (simp add: any_healthy_def carries_def)

lemma carries_gate [simp]: "carries now (c\<lparr> c_stall_gated := b \<rparr>) = carries now c"
  by (simp add: carries_def is_timed_out_def is_schedulable_def cong: option.case_cong)

lemma gate_flag [simp]:
  "stall_latched (c\<lparr> c_stall_gated := b \<rparr>) = stall_latched c"
  by (simp add: stall_latched_def)

text \<open>The gate as a map over ticked links.\<close>

definition ticked :: "u64 \<Rightarrow> ConfigSnapshot \<Rightarrow> SrtlaConnection \<Rightarrow> SrtlaConnection" where
  "ticked now config c =
     update_stall_latch now (cfg_stall_min_in_flight config) (cfg_stall_ack_stale_ms config)
       (update_silence_pull now (cfg_stall_min_in_flight config) (cfg_stall_ack_stale_ms config)
         (c\<lparr> c_conn_timeout_ms := cfg_conn_timeout_ms config, c_delay_budget_ms := cfg_negotiated_latency_ms config \<rparr>))"

lemma apply_stall_gate_on:
  "cfg_stall_deselect config \<Longrightarrow> apply_stall_gate now config conns =
     map (\<lambda>c. c\<lparr> c_stall_gated := (any_healthy now (map (ticked now config) conns) \<and>
                  (stall_latched c \<or> c_silence_pulled c)) \<rparr>) (map (ticked now config) conns)"
  by (simp add: apply_stall_gate_def Let_def ticked_def [abs_def] comp_def)

lemma clear_latch_frame [simp]:
  "\<not> stall_latched (clear_stall_latch c)" "c_stall_gated (clear_stall_latch c) = c_stall_gated c"
  "c_silence_pulled (clear_stall_latch c) = c_silence_pulled c"
  "c_stall_rejoin_backoff (clear_stall_latch c) = 0"
  by (simp_all add: clear_stall_latch_def stall_latched_def Let_def)

text \<open>C4: The stall guard never takes the last link. After a selection pass has updated the latches and
  pulls, a link is gated only if it is latched or pulled and another link is live and neither;
  so if any link is live at all, some live link is not gated. With the guard switched off
  no link is gated, latched or pulled and no backoff is left.\<close>

theorem stall_gate_keeps_a_link:
  "(list_ex (carries now) (apply_stall_gate now config conns) \<longrightarrow>
      list_ex (\<lambda>c. \<not> skipped now c) (apply_stall_gate now config conns)) \<and>
   list_all (\<lambda>c. c_stall_gated c \<longrightarrow> (stall_latched c \<or> c_silence_pulled c) \<and>
      list_ex (\<lambda>d. carries now d \<and> \<not> stall_latched d \<and> \<not> c_silence_pulled d) (apply_stall_gate now config conns))
     (apply_stall_gate now config conns) \<and>
   (\<not> cfg_stall_deselect config \<longrightarrow>
      list_all (\<lambda>c. \<not> c_stall_gated c \<and> \<not> stall_latched c \<and> \<not> c_silence_pulled c \<and> c_stall_rejoin_backoff c = 0)
        (apply_stall_gate now config conns))"
proof (cases "cfg_stall_deselect config")
  case True
  define ts where "ts = map (ticked now config) conns"
  define g where "g c = c\<lparr> c_stall_gated := (any_healthy now ts \<and> (stall_latched c \<or> c_silence_pulled c)) \<rparr>" for c
  have gate: "apply_stall_gate now config conns = map g ts"
    unfolding apply_stall_gate_on [OF True] ts_def [symmetric] g_def by simp
  have g [simp]: "carries now (g c) = carries now c" "stall_latched (g c) = stall_latched c"
    "c_silence_pulled (g c) = c_silence_pulled c"
    "c_stall_gated (g c) = (any_healthy now ts \<and> (stall_latched c \<or> c_silence_pulled c))" for c
    by (simp_all add: g_def)
  show ?thesis
    unfolding gate by (auto simp: list_ex_iff list_all_iff skipped_carries any_healthy_carries True)
next
  case False
  then have "\<not> c_stall_gated c \<and> \<not> stall_latched c \<and> \<not> c_silence_pulled c \<and> c_stall_rejoin_backoff c = 0"
    if "c \<in> set (apply_stall_gate now config conns)" for c
    using that by (auto simp: apply_stall_gate_def Let_def)
  then show ?thesis by (auto simp: list_ex_iff list_all_iff skipped_carries)
qed

theorem stall_gate_keeps_a_link_witness:
  "list_all (\<lambda>c. \<not> c_stall_gated c) (apply_stall_gate 10 (ConfigSnapshot_default\<lparr> cfg_stall_deselect := False \<rparr>)
     [new_registering 1 ''eth0'' (V4 1) 0])"
  using stall_gate_keeps_a_link [of 10 "ConfigSnapshot_default\<lparr> cfg_stall_deselect := False \<rparr>"
      "[new_registering 1 ''eth0'' (V4 1) 0]"]
  by (simp add: list_all_iff)

end
