(* ===== verification/Stall_Latch.thy ===== *)
theory Stall_Latch
  imports Link_Machine
begin

text \<open>
  What the stall guard of \<^verbatim>\<open>connection/mod.rs\<close> promises about one link: a link that was latched rejoins
  only after a whole dwell of timely delivery proof, failed rejoins double the dwell up to
  a maximum, the rejoin ramp and the operator weight are bounded multipliers, and a
  link marked for recovery is timed out at once.
\<close>

section \<open>Rejoining takes a dwell of proof\<close>

definition proof_fresh :: "u64 \<Rightarrow> u64 \<Rightarrow> SrtlaConnection \<Rightarrow> bool" where
  "proof_fresh now ceil c \<longleftrightarrow> c_last_ack_or_rtt_sample_ms c \<noteq> 0 \<and>
     now - c_last_ack_or_rtt_sample_ms c < max (effective_stall_stale_ms ceil c) STALL_REJOIN_PROOF_FLOOR_MS \<and>
     delivery_proof_is_timely (get_smooth_rtt_ms c) (c_delay_budget_ms c)"

definition rejoin_dwell_ms :: "u64 \<Rightarrow> SrtlaConnection \<Rightarrow> u64" where
  "rejoin_dwell_ms ceil c =
     u64_saturating_mul (u64_saturating_mul (effective_stall_stale_ms ceil c) STALL_REJOIN_DWELL_MULT)
       (max (c_stall_rejoin_backoff c) 1)"

definition run_start :: "u64 \<Rightarrow> SrtlaConnection \<Rightarrow> u64" where
  "run_start now c = (if c_stall_recovery_since_ms c = 0 then now else c_stall_recovery_since_ms c)"

lemma arm_ramp_frame [simp]:
  "c_stall_latched_since_ms (arm_rejoin_ramp now r b c) = c_stall_latched_since_ms c"
  "c_stall_recovery_since_ms (arm_rejoin_ramp now r b c) = c_stall_recovery_since_ms c"
  by (simp_all add: arm_rejoin_ramp_def)

lemma latch_recovery:
  assumes "c_stall_recovery_since_ms (update_stall_latch now n ceil c) \<noteq> 0"
    and "c_stall_latched_since_ms c \<noteq> 0"
  shows "proof_fresh now ceil c \<and> c_stall_recovery_since_ms (update_stall_latch now n ceil c) = run_start now c"
  using assms by (auto simp: update_stall_latch_def Let_def proof_fresh_def run_start_def split: if_splits)

lemma latch_release:
  assumes "c_stall_latched_since_ms c \<noteq> 0" "c_stall_latched_since_ms (update_stall_latch now n ceil c) = 0"
  shows "proof_fresh now ceil c \<and> rejoin_dwell_ms ceil c \<le> now - run_start now c"
  using assms
  by (auto simp: update_stall_latch_def Let_def proof_fresh_def run_start_def rejoin_dwell_ms_def split: if_splits)

text \<open>
  A history of selection passes, the latest first: the time of the pass and the link as the pass saw
  it. Between two passes anything else about the link may change, but the latch is only moved by the
  pass. The history starts where the latch engaged, with no dwell running.
\<close>

fun latch_history :: "i32 \<Rightarrow> u64 \<Rightarrow> (u64 \<times> SrtlaConnection) list \<Rightarrow> bool" where
  "latch_history n ceil [] = False"
| "latch_history n ceil [(t, c)] = (c_stall_latched_since_ms c \<noteq> 0 \<and> c_stall_recovery_since_ms c = 0)"
| "latch_history n ceil ((t', c') # (t, c) # h) =
     (c_stall_latched_since_ms c' \<noteq> 0 \<and>
      c_stall_latched_since_ms c' = c_stall_latched_since_ms (update_stall_latch t n ceil c) \<and>
      c_stall_recovery_since_ms c' = c_stall_recovery_since_ms (update_stall_latch t n ceil c) \<and>
      latch_history n ceil ((t, c) # h))"

lemma latch_history_latched: "latch_history n ceil ((t, c) # h) \<Longrightarrow> c_stall_latched_since_ms c \<noteq> 0"
  by (cases h) auto

lemma latch_history_run:
  assumes "latch_history n ceil ((t, c) # h)" "proof_fresh t ceil c"
  shows "\<exists>k < length ((t, c) # h). fst (((t, c) # h) ! k) = run_start t c \<and>
     list_all (\<lambda>(u, d). proof_fresh u ceil d) (take (Suc k) ((t, c) # h))"
  using assms
proof (induction h arbitrary: t c)
  case Nil
  then show ?case by (auto simp: run_start_def)
next
  case (Cons x h)
  obtain u d where x: "x = (u, d)" by (cases x)
  show ?case
  proof (cases "c_stall_recovery_since_ms c = 0")
    case True
    with Cons.prems(2) show ?thesis by (intro exI [of _ 0]) (simp add: run_start_def)
  next
    case False
    with Cons.prems(1) x have r: "c_stall_recovery_since_ms (update_stall_latch u n ceil d) \<noteq> 0"
      "latch_history n ceil ((u, d) # h)" "c_stall_recovery_since_ms c = c_stall_recovery_since_ms (update_stall_latch u n ceil d)"
      by auto
    with latch_recovery [OF r(1) latch_history_latched [OF r(2)]]
    have "proof_fresh u ceil d" "run_start t c = run_start u d" using False by (auto simp: run_start_def)
    with Cons.IH [OF r(2)] obtain k where "k < length ((u, d) # h)"
      "fst (((u, d) # h) ! k) = run_start t c"
      "list_all (\<lambda>(u, d). proof_fresh u ceil d) (take (Suc k) ((u, d) # h))" by auto
    with Cons.prems(2) x show ?thesis by (intro exI [of _ "Suc k"]) simp
  qed
qed

text \<open>C35: A latched link rejoins only after a dwell of proof. If the stall latch of a link releases
  at a selection pass, then there is an earlier pass (possibly the same one) such that every pass since then saw
  delivery proof that is recent and whose round trip fits the delay budget, and those passes
  span at least the rejoin dwell: twice the staleness window, times the backoff the link has earned.\<close>

theorem stall_rejoin_needs_dwell:
  assumes "latch_history n ceil ((t, c) # h)"
    and "c_stall_latched_since_ms (update_stall_latch t n ceil c) = 0"
  shows "\<exists>k < length ((t, c) # h). rejoin_dwell_ms ceil c \<le> t - fst (((t, c) # h) ! k) \<and>
     list_all (\<lambda>(u, d). proof_fresh u ceil d) (take (Suc k) ((t, c) # h))"
  using latch_history_run [OF assms(1)] latch_release [OF latch_history_latched [OF assms(1)] assms(2)]
  by auto

text \<open>A link latched at 500 ms whose proof is fresh from 1000 ms on.\<close>

definition latched_link :: SrtlaConnection where
  "latched_link = (new_registering 1 ''eth0'' (V4 1) 0)\<lparr> c_connected := True, c_stall_latched_since_ms := 500,
     c_last_ack_or_rtt_sample_ms := 900 \<rparr>"

definition rejoining_link :: SrtlaConnection where
  "rejoining_link = latched_link\<lparr> c_stall_recovery_since_ms := 1000, c_last_ack_or_rtt_sample_ms := 6900 \<rparr>"

lemma latched_link_eval:
  "c_stall_latched_since_ms (update_stall_latch 1000 32 3000 latched_link) = 500"
  "c_stall_recovery_since_ms (update_stall_latch 1000 32 3000 latched_link) = 1000"
  "c_stall_latched_since_ms (update_stall_latch 7000 32 3000 rejoining_link) = 0"
  by (simp_all add: update_stall_latch_def latched_link_def rejoining_link_def new_registering_def
      is_stalled_def effective_stall_stale_ms_def get_smooth_rtt_ms_def fl_max_def RttTracker_default_def
      KalmanFilter_new_def delivery_proof_is_timely_def u64_saturating_mul_def config_consts protocol_consts Let_def)

theorem stall_rejoin_needs_dwell_witness:
  "\<exists>k < length [(7000 :: u64, rejoining_link), (1000, latched_link)].
     rejoin_dwell_ms 3000 rejoining_link \<le> 7000 - fst ([(7000, rejoining_link), (1000, latched_link)] ! k) \<and>
     list_all (\<lambda>(u, d). proof_fresh u 3000 d) (take (Suc k) [(7000, rejoining_link), (1000, latched_link)])"
  by (rule stall_rejoin_needs_dwell [where n = 32])
    (simp_all add: latched_link_eval, simp_all add: rejoining_link_def latched_link_def new_registering_def)

section \<open>Backoff\<close>

text \<open>The backoff after \<open>k\<close> engagements of the latch, none of whose rejoins held its probation.\<close>

fun backoff_after :: "(u64 \<times> u64 \<times> u64) list \<Rightarrow> nat \<Rightarrow> nat" where
  "backoff_after [] b = b"
| "backoff_after ((released, held, probation) # xs) b =
     backoff_after xs (stall_rejoin_backoff_next b released held probation)"

lemma backoff_double:
  "released \<noteq> 0 \<Longrightarrow> held < probation \<Longrightarrow> b \<le> 16 \<Longrightarrow>
     stall_rejoin_backoff_next b released held probation = min 16 (2 * max 1 b)"
  by (auto simp: stall_rejoin_backoff_next_def Let_def u32_saturating_mul_def config_consts)

lemma min_mult_cap: "1 \<le> y \<Longrightarrow> min 16 (min 16 x * y) = min 16 (x * y :: nat)"
proof (cases "x \<le> 16")
  case False
  assume "1 \<le> y"
  with False have "16 * 1 \<le> x * y" by (intro mult_le_mono) simp_all
  with False \<open>1 \<le> y\<close> show ?thesis by simp
qed simp

text \<open>The rejoin backoff doubles with every rejoin that did not hold, up to sixteen, and one rejoin
  that held resets it.\<close>

theorem stall_backoff_doubles:
  assumes "list_all (\<lambda>(released, held, probation). released \<noteq> 0 \<and> held < probation) xs"
  shows "backoff_after xs 1 = min 16 (2 ^ length xs) \<and>
     stall_rejoin_backoff_next b released (p + d) p = 1"
proof -
  have "backoff_after xs b = min 16 (b * 2 ^ length xs)" if "1 \<le> b" "b \<le> 16" for b
    using assms that
  proof (induction xs arbitrary: b)
    case Nil
    then show ?case by simp
  next
    case (Cons x xs)
    obtain r h p where x: "x = (r, h, p)" by (cases x)
    from Cons.prems x have "stall_rejoin_backoff_next b r h p = min 16 (2 * b)"
      by (simp add: backoff_double)
    with Cons.IH [of "min 16 (2 * b)"] Cons.prems x
    have "backoff_after (x # xs) b = min 16 (min 16 (2 * b) * 2 ^ length xs)" by simp
    also have "\<dots> = min 16 (2 * b * 2 ^ length xs)" by (rule min_mult_cap) simp
    finally show ?case by (simp add: ac_simps)
  qed
  from this [of 1] show ?thesis by (simp add: stall_rejoin_backoff_next_def)
qed

theorem stall_backoff_doubles_witness:
  "backoff_after [(10, 5, 3000), (20, 7, 3000), (30, 2999, 3000)] 1 = 8"
  using stall_backoff_doubles [of "[(10, 5, 3000), (20, 7, 3000), (30, 2999, 3000)]"] by simp


section \<open>Rejoin ramp\<close>

text \<open>The ramp over exact numbers and one rounding per operation.\<close>

definition ramp_floor :: rat where
  "ramp_floor = rnd64 (5 / 100)"

definition ramp_value :: "u64 \<Rightarrow> u64 \<Rightarrow> rat" where
  "ramp_value elapsed ramp_ms =
     max ramp_floor (min 1 (rnd64 (ramp_floor + rnd64 (rnd64 (1 - ramp_floor) *
       rnd64 (rnd64 (of_nat elapsed) / rnd64 (of_nat ramp_ms))))))"

lemma ramp_floor_bounds: "0 \<le> ramp_floor" "ramp_floor \<le> 1" "0 \<le> rnd64 (1 - ramp_floor)" "rnd64 (1 - ramp_floor) \<le> 1"
proof -
  show *: "0 \<le> ramp_floor" "ramp_floor \<le> 1"
    unfolding ramp_floor_def by (rule b64.rnd_nonneg, simp) (rule b64.rnd_le, simp_all)
  show "0 \<le> rnd64 (1 - ramp_floor)" using * by (intro b64.rnd_nonneg) simp
  show "rnd64 (1 - ramp_floor) \<le> 1" using * by (intro b64.rnd_le) simp_all
qed

lemma ramp_progress:
  assumes "elapsed \<le> ramp" "1 \<le> ramp"
  shows "1 \<le> rnd64 (of_nat ramp)" "0 \<le> rnd64 (of_nat elapsed)"
    "0 \<le> rnd64 (of_nat elapsed) / rnd64 (of_nat ramp)" "rnd64 (of_nat elapsed) / rnd64 (of_nat ramp) \<le> 1"
    "0 \<le> rnd64 (rnd64 (of_nat elapsed) / rnd64 (of_nat ramp))"
    "rnd64 (rnd64 (of_nat elapsed) / rnd64 (of_nat ramp)) \<le> 1"
proof -
  have r: "1 \<le> rnd64 (of_nat ramp)" using assms(2) by (intro b64.rnd_ge) simp_all
  have e: "0 \<le> rnd64 (of_nat elapsed)" by (intro b64.rnd_nonneg) simp
  have "rnd64 (of_nat elapsed) \<le> rnd64 (of_nat ramp)" using assms(1) by (intro b64.rnd_mono) simp
  with r e show q: "0 \<le> rnd64 (of_nat elapsed) / rnd64 (of_nat ramp)"
    "rnd64 (of_nat elapsed) / rnd64 (of_nat ramp) \<le> 1" by (simp_all add: divide_le_eq_1)
  show "0 \<le> rnd64 (rnd64 (of_nat elapsed) / rnd64 (of_nat ramp))"
    "rnd64 (rnd64 (of_nat elapsed) / rnd64 (of_nat ramp)) \<le> 1"
    using q by (auto intro: b64.rnd_nonneg b64.rnd_le)
  show "1 \<le> rnd64 (of_nat ramp)" "0 \<le> rnd64 (of_nat elapsed)" by fact+
qed

lemma f64_val_unit: "0 \<le> x \<Longrightarrow> x \<le> 2 \<Longrightarrow> f64_of_rat x = Fin (rnd64 x)"
  by (rule f64_val) (simp add: abs_le_iff)

lemma u64_val: "n < 2 ^ 64 \<Longrightarrow> u64_to_f64 n = Fin (rnd64 (of_nat n))"
  unfolding u64_to_f64_def by (rule f64_val) (use of_nat_mono [of n "2 ^ 64", where ?'a = rat] in simp)

lemma ramp_multiplier_value:
  assumes "start \<noteq> 0" "now - start < ramp" "ramp < 2 ^ 64"
  shows "rejoin_ramp_multiplier start ramp now = Fin (ramp_value (now - start) ramp)"
proof -
  let ?q = "rnd64 (of_nat (now - start)) / rnd64 (of_nat ramp)"
  note pr = ramp_progress [of "now - start" ramp] and fb = ramp_floor_bounds
  have floor: "STALL_REJOIN_RAMP_FLOOR = Fin ramp_floor"
    unfolding STALL_REJOIN_RAMP_FLOOR_def ramp_floor_def by (rule f64_val_unit) simp_all
  have "f64_div (u64_to_f64 (now - start)) (u64_to_f64 ramp) = Fin (rnd64 ?q)"
  proof -
    have "f64_of_rat ?q = Fin (rnd64 ?q)" using assms(2) pr by (intro f64_val_unit) linarith+
    with assms pr show ?thesis by (simp add: u64_val)
  qed
  moreover have "f64_sub (Fin 1) STALL_REJOIN_RAMP_FLOOR = Fin (rnd64 (1 - ramp_floor))"
    using fb by (simp add: floor fl_sub_def f64_val_unit)
  moreover have "f64_mul (Fin (rnd64 (1 - ramp_floor))) (Fin (rnd64 ?q)) = Fin (rnd64 (rnd64 (1 - ramp_floor) * rnd64 ?q))"
    using assms pr fb mult_mono [of "rnd64 (1 - ramp_floor)" 1 "rnd64 ?q" 1] by (simp add: f64_val_unit)
  moreover have "f64_add STALL_REJOIN_RAMP_FLOOR (Fin (rnd64 (rnd64 (1 - ramp_floor) * rnd64 ?q)))
      = Fin (rnd64 (ramp_floor + rnd64 (rnd64 (1 - ramp_floor) * rnd64 ?q)))"
  proof -
    have "0 \<le> rnd64 (rnd64 (1 - ramp_floor) * rnd64 ?q)" "rnd64 (rnd64 (1 - ramp_floor) * rnd64 ?q) \<le> 1"
      using assms pr fb mult_mono [of "rnd64 (1 - ramp_floor)" 1 "rnd64 ?q" 1]
      by (auto intro!: b64.rnd_nonneg b64.rnd_le)
    with fb show ?thesis by (simp add: floor f64_val_unit)
  qed
  ultimately show ?thesis
    using assms fb unfolding rejoin_ramp_multiplier_def ramp_value_def Let_def
    by (simp add: floor fl_clamp_def)
qed

lemma ramp_in_unit: "ramp < 2 ^ 64 \<Longrightarrow> fl_in 0 1 (rejoin_ramp_multiplier start ramp now)"
proof (cases "start = 0 \<or> ramp \<le> now - start")
  case True
  then show ?thesis by (auto simp: rejoin_ramp_multiplier_def Let_def)
next
  case False
  assume "ramp < 2 ^ 64"
  with False ramp_multiplier_value [of start now ramp] ramp_floor_bounds show ?thesis
    by (auto simp: ramp_value_def)
qed

text \<open>The rejoin ramp. While a ramp runs, the share of its score a rejoining link competes with
  lies between the floor of five per cent and one, and it never falls as time passes; with no ramp or an
  elapsed one it is exactly one. In rounded arithmetic, for all clock values.\<close>

theorem rejoin_ramp_bounds:
  assumes "ramp < 2 ^ 64" "now \<le> now'"
  shows "fl_le STALL_REJOIN_RAMP_FLOOR (rejoin_ramp_multiplier start ramp now) \<and>
     fl_le (rejoin_ramp_multiplier start ramp now) (Fin 1) \<and>
     fl_le (rejoin_ramp_multiplier start ramp now) (rejoin_ramp_multiplier start ramp now') \<and>
     (start = 0 \<or> ramp \<le> now - start \<longrightarrow> rejoin_ramp_multiplier start ramp now = Fin 1)"
proof -
  have floor: "STALL_REJOIN_RAMP_FLOOR = Fin ramp_floor"
    unfolding STALL_REJOIN_RAMP_FLOOR_def ramp_floor_def by (rule f64_val_unit) simp_all
  have range: "ramp_floor \<le> ramp_value e r" "ramp_value e r \<le> 1" for e r
    using ramp_floor_bounds by (simp_all add: ramp_value_def)
  have one: "rejoin_ramp_multiplier start ramp t = Fin 1" if "start = 0 \<or> ramp \<le> t - start" for t
    using that by (auto simp: rejoin_ramp_multiplier_def Let_def)
  have mono: "ramp_value (now - start) ramp \<le> ramp_value (now' - start) ramp" if "now' - start < ramp"
  proof -
    have "rnd64 (of_nat (now - start)) / rnd64 (of_nat ramp) \<le> rnd64 (of_nat (now' - start)) / rnd64 (of_nat ramp)"
      using that assms(2) by (intro divide_right_mono b64.rnd_mono b64.rnd_nonneg) simp_all
    then show ?thesis unfolding ramp_value_def
      using ramp_floor_bounds
      by (intro max.mono min.mono order_refl b64.rnd_mono add_left_mono mult_left_mono)
  qed
  show ?thesis
  proof (cases "start = 0 \<or> ramp \<le> now - start")
    case True
    then have "start = 0 \<or> ramp \<le> now' - start" using assms(2) by linarith
    with True one [of now] one [of now'] ramp_floor_bounds(2) show ?thesis by (simp add: floor)
  next
    case False
    then have v: "rejoin_ramp_multiplier start ramp now = Fin (ramp_value (now - start) ramp)"
      using assms(1) by (intro ramp_multiplier_value) auto
    show ?thesis
    proof (cases "ramp \<le> now' - start")
      case True
      with one [of now'] v range False show ?thesis by (auto simp: floor)
    next
      case False
      with \<open>\<not> (start = 0 \<or> ramp \<le> now - start)\<close> assms(1)
      have "rejoin_ramp_multiplier start ramp now' = Fin (ramp_value (now' - start) ramp)"
        by (intro ramp_multiplier_value) auto
      with v mono range False \<open>\<not> (start = 0 \<or> ramp \<le> now - start)\<close> show ?thesis by (auto simp: floor)
    qed
  qed
qed

theorem rejoin_ramp_bounds_witness:
  "fl_le STALL_REJOIN_RAMP_FLOOR (rejoin_ramp_multiplier 1000 6000 3000) \<and>
   fl_le (rejoin_ramp_multiplier 1000 6000 3000) (rejoin_ramp_multiplier 1000 6000 5000)"
  using rejoin_ramp_bounds [of 6000 3000 5000 1000] by simp


section \<open>Operator weights\<close>

lemma clamp_weight_range: "1 \<le> unat (clamp_weight w)" "unat (clamp_weight w) \<le> 10"
  by (auto simp: clamp_weight_def LINK_WEIGHT_MIN_def LINK_WEIGHT_MAX_def not_less word_less_nat_alt)

lemma clamp_weight_one: "w \<le> 1 \<Longrightarrow> unat (clamp_weight w) = 1"
  using clamp_weight_range [of w]
  by (auto simp: clamp_weight_def LINK_WEIGHT_MIN_def LINK_WEIGHT_MAX_def word_less_nat_alt word_le_nat_alt)

lemma f32_small: "0 \<le> x \<Longrightarrow> x \<le> 100000 \<Longrightarrow> f32_of_rat x = Fin (rnd32 x)"
  by (rule f32_val) (simp add: abs_le_iff)

lemma f32_nat: "n < 100000 \<Longrightarrow> f32_of_rat (of_nat n) = Fin (of_nat n)" "n < 100000 \<Longrightarrow> rnd32 (of_nat n) = of_nat n"
proof -
  assume "n < 100000"
  then show "rnd32 (of_nat n) = of_nat n" using rnd32_of_int [of "int n"] by simp
  with \<open>n < 100000\<close> show "f32_of_rat (of_nat n) = Fin (of_nat n)"
    using of_nat_mono [of n 100000, where ?'a = rat] by (subst f32_small) simp_all
qed

lemmas weight_consts = LINK_WEIGHT_FULL_ABOVE_WINDOW_def LINK_WEIGHT_NONE_AT_OR_BELOW_WINDOW_def protocol_consts

lemma weight_factor:
  assumes "10000 < window" "window \<le> 20000"
  shows "\<exists>f. f32_div (i32_to_f32 (i32_sub window 10000)) (i32_to_f32 (i32_sub 20000 10000)) = Fin f \<and> 0 \<le> f \<and> f \<le> 1"
proof -
  define k where "k = nat (window - 10000)"
  have k: "window = 10000 + int k" "k \<le> 10000" using assms by (simp_all add: k_def)
  have q: "0 \<le> of_nat k / (10000 :: rat)" "of_nat k / (10000 :: rat) \<le> 1"
    using k(2) of_nat_mono [of k 10000, where ?'a = rat] by simp_all
  then have "f32_of_rat (of_nat k / 10000) = Fin (rnd32 (of_nat k / 10000))" by (intro f32_small) linarith+
  moreover have "0 \<le> rnd32 (of_nat k / 10000)" "rnd32 (of_nat k / 10000) \<le> 1"
    using q by (auto intro: b32.rnd_nonneg b32.rnd_le)
  ultimately show ?thesis
    using k f32_nat(1) [of k] f32_nat(1) [of 10000] by (simp add: i32_to_f32_def i32_sub_id in_i32_def)
qed

lemma link_weight_fade:
  assumes "10000 < window" "window \<le> 20000"
  shows "\<exists>g. 0 \<le> g \<and> g \<le> of_nat (unat (clamp_weight weight)) - 1 \<and>
     link_weight_multiplier window weight = Fin (rnd32 (1 + g))"
proof -
  define n where "n = unat (clamp_weight weight)"
  have n: "1 \<le> n" "n \<le> 10" using clamp_weight_range [of weight] by (simp_all add: n_def)
  then have q: "(1 :: rat) \<le> of_nat n" "(of_nat n :: rat) \<le> 10" by simp_all
  have m: "f32_of_rat (of_nat n - 1) = Fin (of_nat n - 1)" "rnd32 (of_nat n - 1) = of_nat n - 1"
    using f32_nat [of "n - 1"] n by (simp_all add: of_nat_diff)
  obtain f where f: "f32_div (i32_to_f32 (i32_sub window 10000)) (i32_to_f32 (i32_sub 20000 10000)) = Fin f"
    "0 \<le> f" "f \<le> 1" using weight_factor [OF assms] by blast
  define g where "g = rnd32 ((of_nat n - 1) * f)"
  have "(of_nat n - 1) * f \<le> (9 :: rat) * 1" using q f by (intro mult_mono) simp_all
  then have fg: "f32_of_rat ((of_nat n - 1) * f) = Fin g" using q f by (simp add: g_def f32_small)
  have g: "0 \<le> g" "g \<le> of_nat n - 1"
    unfolding g_def using q f m by (auto intro!: b32.rnd_nonneg b32.rnd_mult_le)
  have "f32_of_rat (1 + g) = Fin (rnd32 (1 + g))" using g q by (intro f32_small) simp_all
  then have "link_weight_multiplier window weight = Fin (rnd32 (1 + g))"
    using assms f(1) fg m n f32_nat(1) [of n]
    by (simp add: link_weight_multiplier_def Let_def n_def [symmetric] weight_consts fl_sub_def)
  with g show ?thesis by (auto simp: n_def)
qed

lemma link_weight_full:
  "20000 < window \<Longrightarrow> link_weight_multiplier window weight = Fin (of_nat (unat (clamp_weight weight)))"
proof -
  assume w: "20000 < window"
  have "f32_of_rat (of_nat (unat (clamp_weight weight))) = Fin (of_nat (unat (clamp_weight weight)))"
    using clamp_weight_range(2) [of weight] by (intro f32_nat(1)) linarith
  with w show ?thesis by (simp only: link_weight_multiplier_def Let_def) (simp add: weight_consts)
qed

lemma link_weight_none: "window \<le> 10000 \<Longrightarrow> link_weight_multiplier window weight = Fin 1"
  by (simp add: link_weight_multiplier_def Let_def weight_consts)

lemma link_weight_in: "fl_in 1 (of_nat (unat (clamp_weight weight))) (link_weight_multiplier window weight)"
proof -
  define n where "n = unat (clamp_weight weight)"
  have n: "1 \<le> n" "n \<le> 10" using clamp_weight_range [of weight] by (simp_all add: n_def)
  then have r: "rnd32 (of_nat n) = of_nat n" by (simp add: f32_nat)
  consider (full) "20000 < window" | (fade) "10000 < window" "window \<le> 20000" | (none) "window \<le> 10000" by linarith
  then have "fl_in 1 (of_nat n) (link_weight_multiplier window weight)"
  proof cases
    case fade
    then obtain g where g: "0 \<le> g" "g \<le> of_nat n - 1" "link_weight_multiplier window weight = Fin (rnd32 (1 + g))"
      using link_weight_fade [of window weight] unfolding n_def by blast
    then have "1 \<le> rnd32 (1 + g)" "rnd32 (1 + g) \<le> of_nat n" using r by (auto intro!: b32.rnd_ge b32.rnd_le)
    with g show ?thesis by simp
  qed (use n in \<open>simp_all add: link_weight_full [of window weight, folded n_def] link_weight_none\<close>)
  then show ?thesis by (simp add: n_def)
qed

text \<open>The operator weight of a link scales its score by a factor between one and the weight, the whole
  weight above a window of 20000 and nothing at or below 10000; a link of weight one is not scaled
  at any window, so an unweighted configuration schedules as if weights did not exist.\<close>

theorem link_weight_bounds:
  "fl_in 1 (of_nat (unat (clamp_weight weight))) (link_weight_multiplier window weight) \<and>
   (20000 < window \<longrightarrow> link_weight_multiplier window weight = Fin (of_nat (unat (clamp_weight weight)))) \<and>
   (window \<le> 10000 \<longrightarrow> link_weight_multiplier window weight = Fin 1) \<and>
   (weight \<le> 1 \<longrightarrow> link_weight_multiplier window weight = Fin 1)"
proof -
  have "link_weight_multiplier window weight = Fin 1" if "weight \<le> 1"
    using link_weight_in [of weight window] unfolding clamp_weight_one [OF that] by (auto elim!: fl_inE)
  then show ?thesis using link_weight_in [of weight window] link_weight_full [of window weight] link_weight_none
    by blast
qed

theorem link_weight_bounds_witness:
  "fl_in 1 5 (link_weight_multiplier 15000 5) \<and> link_weight_multiplier 25000 5 = Fin 5 \<and>
   link_weight_multiplier 15000 1 = Fin 1"
  using link_weight_bounds [of 5 15000] link_weight_bounds [of 5 25000] link_weight_bounds [of 1 15000]
  by (simp add: clamp_weight_def LINK_WEIGHT_MIN_def LINK_WEIGHT_MAX_def)

end
