(* ===== verification/Enhanced.thy ===== *)
theory Enhanced
  imports Selection Stall_Latch
begin

text \<open>
  Enhanced link selection (\<^verbatim>\<open>crates/srtla-core/src/selection/enhanced.rs\<close>) and the selection entry point
  (\<^verbatim>\<open>select_connection_idx\<close> in \<^verbatim>\<open>selection/mod.rs\<close>): admission gates, the sole-carrier election, exclusion with
  rejoin ramps, scoring, and score hysteresis. The main result is that selection never fails while a live link
  exists: no combination of gates, elections, caps and exclusions empties the pool.
\<close>

definition IN_FLIGHT_CAP_BDP_MULT :: f64 where "IN_FLIGHT_CAP_BDP_MULT = f64_of_rat (15 / 10)"
definition SWITCH_THRESHOLD :: f64 where "SWITCH_THRESHOLD = f64_of_rat (110 / 100)"
definition CC_SOFT_CAP_FLOOR :: f64 where "CC_SOFT_CAP_FLOOR = f64_of_rat (10 / 100)"
definition GATED_LINK_PENALTY :: f64 where "GATED_LINK_PENALTY = f64_of_rat (2 / 100)"
definition SOLE_CARRIER_MARGIN :: f64 where "SOLE_CARRIER_MARGIN = f64_of_rat 2"
definition SOLE_CARRIER_MIN_HOLD_MS :: u64 where "SOLE_CARRIER_MIN_HOLD_MS = 2000"
definition HELD_OUT_REJOIN_RAMP_MS :: u64 where "HELD_OUT_REJOIN_RAMP_MS = 2000"

text \<open>The largest finite double, \<^verbatim>\<open>f64::MAX\<close>.\<close>

definition F64_MAX :: f64 where "F64_MAX = Fin ((2 ^ 53 - 1) * 2 ^ 971)"

section \<open>Sole-carrier election\<close>

definition sole_carrier_handover :: "f64 \<Rightarrow> f64 \<Rightarrow> u64 \<Rightarrow> u64 \<Rightarrow> f64 \<Rightarrow> bool" where
  "sole_carrier_handover incumbent_rtt_ms challenger_rtt_ms held_for_ms hold_min_ms margin =
     (if held_for_ms < hold_min_ms then False
      else if \<not> is_finite incumbent_rtt_ms \<or> \<not> is_finite challenger_rtt_ms then False
      else if fl_le incumbent_rtt_ms (Fin 0) \<or> fl_le challenger_rtt_ms (Fin 0) then False
      else fl_le (f64_mul challenger_rtt_ms margin) incumbent_rtt_ms)"

definition release_sole_carrier :: "u64 \<Rightarrow> SrtlaConnection \<Rightarrow> SrtlaConnection" where
  "release_sole_carrier current_time_ms c =
     (let c1 = (if c_sole_carrier_excluded c
                then (arm_rejoin_ramp current_time_ms HELD_OUT_REJOIN_RAMP_MS False c)\<lparr> c_sole_carrier_excluded := False \<rparr>
                else c)
      in c1\<lparr> c_sole_carrier := False \<rparr>)"

definition carrier_candidate :: "u64 \<Rightarrow> SrtlaConnection \<Rightarrow> bool" where
  "carrier_candidate now c \<longleftrightarrow> \<not> is_timed_out now c \<and> is_schedulable c \<and> \<not> c_stall_gated c"

definition better_measured :: "usize \<Rightarrow> f64 \<Rightarrow> (usize \<times> f64) option \<Rightarrow> (usize \<times> f64) option" where
  "better_measured i rtt best_measured =
     (case best_measured of
        None \<Rightarrow> Some (i, rtt)
      | Some (_, best) \<Rightarrow> if fl_lt rtt best then Some (i, rtt) else best_measured)"

definition better_unmeasured :: "usize \<Rightarrow> i32 \<Rightarrow> (usize \<times> i32) option \<Rightarrow> (usize \<times> i32) option" where
  "better_unmeasured i score best_unmeasured =
     (case best_unmeasured of
        None \<Rightarrow> Some (i, score)
      | Some (_, best) \<Rightarrow> if score > best then Some (i, score) else best_unmeasured)"

fun elect_loop ::
  "u64 \<Rightarrow> usize \<Rightarrow> usize option \<Rightarrow> (usize \<times> f64) option \<Rightarrow> (usize \<times> i32) option \<Rightarrow> SrtlaConnection list \<Rightarrow>
   usize option \<times> (usize \<times> f64) option \<times> (usize \<times> i32) option"
where
  "elect_loop now i incumbent best_measured best_unmeasured [] = (incumbent, best_measured, best_unmeasured)"
| "elect_loop now i incumbent best_measured best_unmeasured (c # cs) =
     (if \<not> carrier_candidate now c then elect_loop now (Suc i) incumbent best_measured best_unmeasured cs
      else
        let rtt = get_smooth_rtt_ms c;
            inc = (if c_sole_carrier c then Some i else incumbent)
        in if fl_gt rtt (Fin 0)
           then elect_loop now (Suc i) inc (better_measured i rtt best_measured) best_unmeasured cs
           else elect_loop now (Suc i) inc best_measured (better_unmeasured i (get_score c) best_unmeasured) cs)"

definition elect_keep :: "u64 \<Rightarrow> SrtlaConnection list \<Rightarrow> usize option \<times> usize option" where
  "elect_keep now conns =
     (case elect_loop now 0 None None None conns of (incumbent, best_measured, best_unmeasured) \<Rightarrow>
        let best = (case best_measured of Some (i, _) \<Rightarrow> Some i | None \<Rightarrow> map_option fst best_unmeasured);
            best_rtt = (case best_measured of Some (_, rtt) \<Rightarrow> rtt | None \<Rightarrow> F64_MAX)
        in (incumbent,
            case incumbent of
              Some inc \<Rightarrow>
                (case best of
                   Some b \<Rightarrow>
                     if b \<noteq> inc then
                       (if sole_carrier_handover (get_smooth_rtt_ms (conns ! inc)) best_rtt
                             (now - c_sole_carrier_since_ms (conns ! inc)) SOLE_CARRIER_MIN_HOLD_MS SOLE_CARRIER_MARGIN
                        then Some b else Some inc)
                     else Some inc
                 | None \<Rightarrow> Some inc)
            | None \<Rightarrow> best))"

definition elect_apply :: "u64 \<Rightarrow> usize option \<Rightarrow> bool \<Rightarrow> usize \<Rightarrow> SrtlaConnection \<Rightarrow> SrtlaConnection" where
  "elect_apply now keep handover i c =
     (if Some i = keep then
        let c1 = (if c_sole_carrier_excluded c then arm_rejoin_ramp now HELD_OUT_REJOIN_RAMP_MS False c else c);
            c2 = (if \<not> c_sole_carrier c1 then
                    let d = c1\<lparr> c_sole_carrier := True \<rparr>;
                        e = (if handover \<or> c_sole_carrier_since_ms d = 0 then d\<lparr> c_sole_carrier_since_ms := now \<rparr> else d)
                    in if handover then e\<lparr> c_sole_carrier_elections := u64_add (c_sole_carrier_elections e) 1 \<rparr> else e
                  else c1)
        in c2\<lparr> c_sole_carrier_excluded := False \<rparr>
      else
        let c1 = c\<lparr> c_sole_carrier := False \<rparr>;
            c2 = (if handover then c1\<lparr> c_sole_carrier_since_ms := 0 \<rparr> else c1)
        in c2\<lparr> c_sole_carrier_excluded := (keep \<noteq> None \<and> carrier_candidate now c2) \<rparr>)"

definition elect_sole_carrier :: "u64 \<Rightarrow> bool \<Rightarrow> SrtlaConnection list \<Rightarrow> usize option \<times> SrtlaConnection list" where
  "elect_sole_carrier current_time_ms any_quality_ok conns =
     (if any_quality_ok then (None, map (release_sole_carrier current_time_ms) conns)
      else
        case elect_keep current_time_ms conns of (incumbent, keep) \<Rightarrow>
          let handover = (incumbent \<noteq> None \<and> keep \<noteq> None \<and> incumbent \<noteq> keep)
          in (keep, map (\<lambda>(i, c). elect_apply current_time_ms keep handover i c) (enumerate 0 conns)))"

section \<open>Caps\<close>

definition in_flight_cap_packets :: "u64 \<Rightarrow> f64 \<Rightarrow> i32 option" where
  "in_flight_cap_packets cc_target_bps rtt_min =
     (if cc_target_bps = 0 then None
      else
        let rtt_ms = (if is_finite rtt_min \<and> fl_gt rtt_min (Fin 0) then rtt_min else Fin 1);
            bdp_bytes = f64_mul (f64_div (f64_mul (u64_to_f64 cc_target_bps) (f64_div rtt_ms (f64_of_rat 1000)))
                                         (f64_of_rat 8)) IN_FLIGHT_CAP_BDP_MULT;
            cap = fl_max (fl_floor (f64_div bdp_bytes (u64_to_f64 ASSUMED_SRT_PAYLOAD_BYTES))) (Fin 1)
        in Some (fl_to_i32 (fl_min cap (i32_to_f64 I32_MAX))))"

definition in_flight_cap_exceeded :: "SrtlaConnection \<Rightarrow> bool" where
  "in_flight_cap_exceeded c =
     (case in_flight_cap_packets (c_cc_target_bps c) (rtt_min_ms (c_rtt c)) of
        None \<Rightarrow> False | Some cap \<Rightarrow> c_in_flight_packets c > cap)"

definition cc_soft_cap_multiplier :: "SrtlaConnection \<Rightarrow> f64" where
  "cc_soft_cap_multiplier c =
     (let cap = c_cc_target_bps c; measured = current_bitrate_bps (c_bitrate c) in
      if cap = 0 then Fin 1
      else if fl_le measured (Fin 0) then Fin 1
      else let cap_f = u64_to_f64 cap;
               headroom = fl_max (f64_sub cap_f measured) (Fin 0)
           in fl_clamp CC_SOFT_CAP_FLOOR (Fin 1) (f64_div headroom cap_f))"

section \<open>Selection\<close>

definition quality_ok_link :: "u64 \<Rightarrow> SrtlaConnection \<Rightarrow> bool" where
  "quality_ok_link now c \<longleftrightarrow> \<not> is_timed_out now c \<and> is_schedulable c \<and> \<not> c_weak c \<and> \<not> c_loss_degraded c \<and>
     \<not> c_stall_gated c"

definition unconstrained :: "u64 \<Rightarrow> SrtlaConnection \<Rightarrow> bool" where
  "unconstrained now c \<longleftrightarrow> quality_ok_link now c \<and> \<not> in_flight_cap_exceeded c"

definition update_exclusion :: "u64 \<Rightarrow> bool \<Rightarrow> usize option \<Rightarrow> usize \<Rightarrow> SrtlaConnection \<Rightarrow> SrtlaConnection" where
  "update_exclusion now any_unconstrained sole_carrier i c =
     (let schedulable = (\<not> is_timed_out now c \<and> is_schedulable c \<and> \<not> c_stall_gated c);
          late = (c_loss_degraded c \<or> (c_weak c \<and> reason_is_delay (c_weak_reason c)));
          excluded = (schedulable \<and> ((any_unconstrained \<and> late) \<or> (sole_carrier \<noteq> None \<and> Some i \<noteq> sole_carrier)));
          c1 = (if c_quality_excluded c \<and> \<not> excluded then arm_rejoin_ramp now HELD_OUT_REJOIN_RAMP_MS False c else c)
      in c1\<lparr> c_quality_excluded := excluded \<rparr>)"

definition rank_skipped :: "u64 \<Rightarrow> bool \<Rightarrow> SrtlaConnection \<Rightarrow> bool" where
  "rank_skipped now any_unconstrained c \<longleftrightarrow> skipped now c \<or> c_quality_excluded c \<or>
     (any_unconstrained \<and> in_flight_cap_exceeded c)"

definition link_score :: "(f64 \<Rightarrow> f64) \<Rightarrow> u64 \<Rightarrow> bool \<Rightarrow> bool \<Rightarrow> SrtlaConnection \<Rightarrow> f64 \<times> SrtlaConnection" where
  "link_score exp_f now enable_quality any_unconstrained c =
     (let gate_mult = (if any_unconstrained \<and> c_weak c then GATED_LINK_PENALTY else Fin 1);
          base = f64_mul (f64_mul (i32_to_f64 (get_score c)) (phase_weight (c_phase c)))
                         (conn_rejoin_ramp_multiplier now c);
          cap_mult = cc_soft_cap_multiplier c
      in if \<not> enable_quality then (f64_mul (f64_mul base cap_mult) gate_mult, c)
         else case get_cached_quality_multiplier exp_f now c of
                (quality_mult, c') \<Rightarrow> (f64_mul (f64_mul (f64_mul base quality_mult) cap_mult) gate_mult, c'))"

fun rank_loop ::
  "(SrtlaConnection \<Rightarrow> bool) \<Rightarrow> (SrtlaConnection \<Rightarrow> f64 \<times> SrtlaConnection) \<Rightarrow> usize option \<Rightarrow> usize \<Rightarrow>
   usize option \<Rightarrow> f64 \<Rightarrow> f64 option \<Rightarrow> SrtlaConnection list \<Rightarrow>
   usize option \<times> f64 \<times> f64 option \<times> SrtlaConnection list"
where
  "rank_loop skip score last_idx i best_idx best_score current_score [] = (best_idx, best_score, current_score, [])"
| "rank_loop skip score last_idx i best_idx best_score current_score (c # cs) =
     (if skip c then
        (case rank_loop skip score last_idx (Suc i) best_idx best_score current_score cs of
           (bi, bs, cur, ds) \<Rightarrow> (bi, bs, cur, c # ds))
      else
        let (s, c') = score c;
            cur' = (if Some i = last_idx then Some s else current_score);
            (bi', bs') = (if fl_gt s best_score then (Some i, s) else (best_idx, best_score))
        in case rank_loop skip score last_idx (Suc i) bi' bs' cur' cs of
             (bi, bs, cur, ds) \<Rightarrow> (bi, bs, cur, c' # ds))"

definition enhanced_select_connection ::
  "(f64 \<Rightarrow> f64) \<Rightarrow> usize option \<Rightarrow> u64 \<Rightarrow> bool \<Rightarrow> SrtlaConnection list \<Rightarrow> usize option \<times> SrtlaConnection list"
where
  "enhanced_select_connection exp_f last_idx now enable_quality conns =
     (let any_unconstrained = list_ex (unconstrained now) conns;
          any_quality_ok = list_ex (quality_ok_link now) conns;
          (sole_carrier, conns1) = elect_sole_carrier now any_quality_ok conns;
          conns2 = map (\<lambda>(i, c). update_exclusion now any_unconstrained sole_carrier i c) (enumerate 0 conns1)
      in case rank_loop (rank_skipped now any_unconstrained) (link_score exp_f now enable_quality any_unconstrained)
                last_idx 0 None (Fin (-1)) None conns2 of
           (best_idx, best_score, current_score, conns3) \<Rightarrow>
             (case last_idx of
                Some last' \<Rightarrow>
                  if best_idx \<noteq> Some last' then
                    (case current_score of
                       Some current \<Rightarrow>
                         if fl_lt best_score (f64_mul current SWITCH_THRESHOLD) then (Some last', conns3)
                         else (best_idx, conns3)
                     | None \<Rightarrow> (best_idx, conns3))
                  else (best_idx, conns3)
              | None \<Rightarrow> (best_idx, conns3)))"

definition select_connection_idx ::
  "(f64 \<Rightarrow> f64) \<Rightarrow> usize option \<Rightarrow> u64 \<Rightarrow> ConfigSnapshot \<Rightarrow> SrtlaConnection list \<Rightarrow> usize option \<times> SrtlaConnection list"
where
  "select_connection_idx exp_f last_idx current_time_ms config conns0 =
     (let conns = apply_stall_gate current_time_ms config conns0 in
      case cfg_mode config of
        Classic \<Rightarrow> let cleared = map clear_quality_gate_state conns
                   in (classic_select_connection current_time_ms cleared, cleared)
      | Enhanced \<Rightarrow> enhanced_select_connection exp_f last_idx current_time_ms (effective_quality_enabled config) conns)"


section \<open>What selection passes leave alone\<close>

definition core ::
  "SrtlaConnection \<Rightarrow> bool \<times> i32 \<times> i32 \<times> u64 option \<times> u64 \<times> ReconnectionState \<times> LinkPhase \<times> bool \<times> bool \<times>
   WeakReason \<times> bool \<times> u64 \<times> RttTracker \<times> BitrateTracker \<times> BatchSender \<times> CachedQuality" where
  "core c = (c_connected c, c_window c, c_in_flight_packets c, c_last_received c, c_conn_timeout_ms c,
     c_reconnection c, c_phase c, c_stall_gated c, c_weak c, c_weak_reason c, c_loss_degraded c,
     c_cc_target_bps c, c_rtt c, c_bitrate c, c_batch_sender c, c_quality_cache c)"

lemma core_updates [simp]:
  "core (c\<lparr> c_sole_carrier := b \<rparr>) = core c" "core (c\<lparr> c_sole_carrier_excluded := b \<rparr>) = core c"
  "core (c\<lparr> c_sole_carrier_since_ms := t \<rparr>) = core c" "core (c\<lparr> c_sole_carrier_elections := t \<rparr>) = core c"
  "core (c\<lparr> c_quality_excluded := b \<rparr>) = core c" "core (arm_rejoin_ramp now ramp b c) = core c"
  by (simp_all add: core_def arm_rejoin_ramp_def)

lemma core_passes [simp]:
  "core (release_sole_carrier now c) = core c" "core (elect_apply now keep handover i c) = core c"
  "core (update_exclusion now u sole i c) = core c" "core (clear_quality_gate_state c) = core c"
  by (simp_all add: release_sole_carrier_def elect_apply_def update_exclusion_def clear_quality_gate_state_def Let_def)

lemma core_cong:
  assumes "core c = core d"
  shows "skipped now c = skipped now d" "quality_ok_link now c = quality_ok_link now d"
    "in_flight_cap_exceeded c = in_flight_cap_exceeded d" "get_score c = get_score d"
    "carries now c = carries now d"
  using assms
  by (simp_all add: core_def skipped_def quality_ok_link_def in_flight_cap_exceeded_def get_score_def
      carries_def is_timed_out_def is_schedulable_def cong: option.case_cong)

lemma candidate_skipped: "carrier_candidate now c \<longleftrightarrow> \<not> skipped now c"
  by (auto simp: carrier_candidate_def skipped_def)

section \<open>Election\<close>

text \<open>The election picks a candidate whenever there is one.\<close>

lemma better_cases:
  "better_measured i rtt bm = bm \<or> better_measured i rtt bm = Some (i, rtt)" "better_measured i rtt bm \<noteq> None"
  "better_unmeasured i score bu = bu \<or> better_unmeasured i score bu = Some (i, score)" "better_unmeasured i score bu \<noteq> None"
  by (auto simp: better_measured_def better_unmeasured_def split: option.splits)

lemma elect_loop_step:
  "\<exists>inc1 bm1 bu1. elect_loop now i inc bm bu (c # cs) = elect_loop now (Suc i) inc1 bm1 bu1 cs \<and>
     (inc1 = inc \<or> inc1 = Some i \<and> \<not> skipped now c) \<and>
     (bm1 = bm \<or> (\<exists>t. bm1 = Some (i, t)) \<and> \<not> skipped now c) \<and>
     (bu1 = bu \<or> (\<exists>t. bu1 = Some (i, t)) \<and> \<not> skipped now c) \<and>
     (bm1 = None \<and> bu1 = None \<longrightarrow> bm = None \<and> bu = None \<and> skipped now c)"
proof (cases "skipped now c")
  case True
  then show ?thesis
    by (intro exI [of _ inc] exI [of _ bm] exI [of _ bu]) (simp add: candidate_skipped)
next
  case False
  let ?inc = "if c_sole_carrier c then Some i else inc"
  show ?thesis
  proof (cases "fl_gt (get_smooth_rtt_ms c) (Fin 0)")
    case True
    with False better_cases(1,2) [of i "get_smooth_rtt_ms c" bm] show ?thesis
      by (intro exI [of _ ?inc] exI [of _ "better_measured i (get_smooth_rtt_ms c) bm"] exI [of _ bu])
        (auto simp: candidate_skipped Let_def)
  next
    case False
    with \<open>\<not> skipped now c\<close> better_cases(3,4) [of i "get_score c" bu] show ?thesis
      by (intro exI [of _ ?inc] exI [of _ bm] exI [of _ "better_unmeasured i (get_score c) bu"])
        (auto simp: candidate_skipped Let_def)
  qed
qed

text \<open>What the loop found is a candidate at or after its start, and it found one if there is one.\<close>

definition found_from :: "u64 \<Rightarrow> usize \<Rightarrow> SrtlaConnection list \<Rightarrow> usize \<Rightarrow> bool" where
  "found_from now i cs j \<longleftrightarrow> (\<exists>k < length cs. j = i + k \<and> \<not> skipped now (cs ! k))"

lemma found_from_shift: "found_from now (Suc i) cs j \<Longrightarrow> found_from now i (c # cs) j"
  unfolding found_from_def by (metis Suc_less_eq add_Suc_shift length_Cons nth_Cons_Suc)

lemma found_from_here: "\<not> skipped now c \<Longrightarrow> found_from now i (c # cs) i"
  unfolding found_from_def by (intro exI [of _ 0]) simp

lemma elect_loop_result:
  assumes "elect_loop now i inc bm bu cs = (inc', bm', bu')"
  shows "(inc' = inc \<or> (\<exists>j. inc' = Some j \<and> found_from now i cs j)) \<and>
     (bm' = bm \<or> (\<exists>j t. bm' = Some (j, t) \<and> found_from now i cs j)) \<and>
     (bu' = bu \<or> (\<exists>j t. bu' = Some (j, t) \<and> found_from now i cs j)) \<and>
     (bm' = None \<and> bu' = None \<longrightarrow> bm = None \<and> bu = None \<and> list_all (skipped now) cs)"
  using assms
proof (induction cs arbitrary: i inc bm bu)
  case Nil
  then show ?case by auto
next
  case (Cons c cs)
  obtain inc1 bm1 bu1 where step: "elect_loop now i inc bm bu (c # cs) = elect_loop now (Suc i) inc1 bm1 bu1 cs"
    and inc1: "inc1 = inc \<or> inc1 = Some i \<and> \<not> skipped now c"
    and bm1: "bm1 = bm \<or> (\<exists>t. bm1 = Some (i, t)) \<and> \<not> skipped now c"
    and bu1: "bu1 = bu \<or> (\<exists>t. bu1 = Some (i, t)) \<and> \<not> skipped now c"
    and none: "bm1 = None \<and> bu1 = None \<longrightarrow> bm = None \<and> bu = None \<and> skipped now c"
    using elect_loop_step by blast
  note IH = Cons.IH [OF Cons.prems [unfolded step]]
  have "inc' = inc \<or> (\<exists>j. inc' = Some j \<and> found_from now i (c # cs) j)"
    using IH inc1 found_from_shift found_from_here by blast
  moreover have "bm' = bm \<or> (\<exists>j t. bm' = Some (j, t) \<and> found_from now i (c # cs) j)"
    using IH bm1 found_from_shift found_from_here by blast
  moreover have "bu' = bu \<or> (\<exists>j t. bu' = Some (j, t) \<and> found_from now i (c # cs) j)"
    using IH bu1 found_from_shift found_from_here by blast
  moreover have "bm' = None \<and> bu' = None \<longrightarrow> bm = None \<and> bu = None \<and> list_all (skipped now) (c # cs)"
    using IH none by simp
  ultimately show ?case by blast
qed

lemma elect_keep_result:
  assumes "elect_keep now conns = (inc, keep)"
  shows "case keep of Some k \<Rightarrow> k < length conns \<and> \<not> skipped now (conns ! k)
         | None \<Rightarrow> list_all (skipped now) conns"
proof -
  obtain inc0 bm bu where l: "elect_loop now 0 None None None conns = (inc0, bm, bu)"
    by (cases "elect_loop now 0 None None None conns") auto
  define best where "best = (case bm of Some (i, _) \<Rightarrow> Some i | None \<Rightarrow> map_option fst bu)"
  have f: "k < length conns \<and> \<not> skipped now (conns ! k)" if "found_from now 0 conns k" for k
    using that by (auto simp: found_from_def)
  have best: "case best of Some k \<Rightarrow> k < length conns \<and> \<not> skipped now (conns ! k) | None \<Rightarrow> list_all (skipped now) conns"
    using elect_loop_result [OF l] f by (auto simp: best_def split: option.splits)
  have "inc0 = None \<or> (\<exists>k. inc0 = Some k \<and> k < length conns \<and> \<not> skipped now (conns ! k))"
    using elect_loop_result [OF l] f by auto
  moreover have "keep = best \<or> keep = inc0 \<and> inc0 \<noteq> None"
    using assms by (auto simp: elect_keep_def l best_def Let_def split: option.splits if_splits)
  ultimately show ?thesis using best by auto
qed


section \<open>Ranking\<close>

definition rank_candidate ::
  "(SrtlaConnection \<Rightarrow> bool) \<Rightarrow> (SrtlaConnection \<Rightarrow> f64 \<times> SrtlaConnection) \<Rightarrow> SrtlaConnection \<Rightarrow> f64 option" where
  "rank_candidate skip score c = (if skip c then None else Some (fst (score c)))"

lemma rank_loop_scan:
  assumes "rank_loop skip score last_idx i bi bs cur cs = (r, s, cur', ds)"
  shows "scan_best fl_gt (rank_candidate skip score) i bi bs cs = (r, s) \<and>
     ds = map (\<lambda>c. if skip c then c else snd (score c)) cs \<and>
     (cur' = cur \<or> (\<exists>k < length cs. last_idx = Some (i + k) \<and> \<not> skip (cs ! k)))"
  using assms
proof (induction cs arbitrary: i bi bs cur ds)
  case Nil
  then show ?case by simp
next
  case (Cons c cs)
  define bi1 where "bi1 = (if skip c then bi else if fl_gt (fst (score c)) bs then Some i else bi)"
  define bs1 where "bs1 = (if skip c then bs else if fl_gt (fst (score c)) bs then fst (score c) else bs)"
  define cur1 where "cur1 = (if skip c then cur else if Some i = last_idx then Some (fst (score c)) else cur)"
  obtain s0 c0 where sc: "score c = (s0, c0)" by fastforce
  obtain ds1 where rest: "rank_loop skip score last_idx (Suc i) bi1 bs1 cur1 cs = (r, s, cur', ds1)"
    and ds: "ds = (if skip c then c else snd (score c)) # ds1"
    using Cons.prems by (auto simp: bi1_def bs1_def cur1_def sc split: if_splits prod.splits)
  note IH = Cons.IH [OF rest]
  have "scan_best fl_gt (rank_candidate skip score) i bi bs (c # cs) = (r, s)"
    using IH rank_candidate_def [of skip score c]
    by (cases "skip c"; cases "fl_gt (fst (score c)) bs") (simp_all add: bi1_def bs1_def)
  moreover have "cur' = cur \<or> (\<exists>k < length (c # cs). last_idx = Some (i + k) \<and> \<not> skip ((c # cs) ! k))"
  proof (cases "cur' = cur1")
    case True
    then show ?thesis by (auto simp: cur1_def intro: exI [of _ 0])
  next
    case False
    with IH obtain k where "k < length cs" "last_idx = Some (Suc i + k)" "\<not> skip (cs ! k)" by auto
    then show ?thesis by (auto intro!: exI [of _ "Suc k"])
  qed
  ultimately show ?case using IH ds by simp
qed

text \<open>Whatever the scores are, selection answers with a ranked link, and it answers if some ranked link has a
  score above the initial one.\<close>

lemma enhanced_outcome:
  assumes sel: "enhanced_select_connection exp_f last_idx now q conns = (r, conns')"
    and u: "u = list_ex (unconstrained now) conns"
    and el: "elect_sole_carrier now (list_ex (quality_ok_link now) conns) conns = (sole, conns1)"
    and c2: "conns2 = map (\<lambda>(i, c). update_exclusion now u sole i c) (enumerate 0 conns1)"
  shows "conns' = map (\<lambda>c. if rank_skipped now u c then c else snd (link_score exp_f now q u c)) conns2 \<and>
     (case r of Some i \<Rightarrow> i < length conns2 \<and> \<not> rank_skipped now u (conns2 ! i)
      | None \<Rightarrow> list_all (\<lambda>c. rank_skipped now u c \<or> \<not> fl_gt (fst (link_score exp_f now q u c)) (Fin (-1))) conns2)"
proof -
  let ?sk = "rank_skipped now u" and ?sc = "link_score exp_f now q u"
  obtain bi bs cur ds where rk: "rank_loop ?sk ?sc last_idx 0 None (Fin (-1)) None conns2 = (bi, bs, cur, ds)"
    by (cases "rank_loop ?sk ?sc last_idx 0 None (Fin (-1)) None conns2") auto
  from rank_loop_scan [OF rk] have scan: "scan_best fl_gt (rank_candidate ?sk ?sc) 0 None (Fin (-1)) conns2 = (bi, bs)"
    and ds: "ds = map (\<lambda>c. if ?sk c then c else snd (?sc c)) conns2"
    and cur: "cur = None \<or> (\<exists>k < length conns2. last_idx = Some k \<and> \<not> ?sk (conns2 ! k))" by auto
  have "conns' = ds \<and> (r = bi \<or> cur \<noteq> None \<and> r = last_idx)"
    using sel el by (auto simp: enhanced_select_connection_def u [symmetric] c2 [symmetric] Let_def rk
        split: option.splits if_splits)
  moreover have "i < length conns2 \<and> \<not> ?sk (conns2 ! i)" if "bi = Some i" for i
    using float_scan.scan_result [OF scan] that
    by (auto simp: scan_found_def rank_candidate_def split: if_splits)
  moreover have "?sk c \<or> \<not> fl_gt (fst (?sc c)) (Fin (-1))" if "bi = None" "c \<in> set conns2" for c
    using float_scan.scan_none [OF scan [unfolded that(1)] that(2)]
    by (auto simp: rank_candidate_def)
  ultimately show ?thesis using ds cur by (auto simp: list_all_iff split: option.splits)
qed

section \<open>Scores are ordinary numbers\<close>

lemma unit_literal: "0 \<le> x \<Longrightarrow> x \<le> 1 \<Longrightarrow> fl_in 0 1 (f64_of_rat x)"
  by (rule f64_of_rat_in) simp_all

lemma phase_weight_unit: "fl_in 0 1 (phase_weight p)"
  by (cases p) (simp_all add: phase_weight_def unit_literal)

lemma gate_penalty_unit: "fl_in 0 1 GATED_LINK_PENALTY"
  by (simp add: GATED_LINK_PENALTY_def unit_literal)

lemma get_score_range: "c_connected c \<Longrightarrow> window_ok (c_window c) \<Longrightarrow> 0 \<le> get_score c \<and> get_score c \<le> 60000"
proof -
  assume "c_connected c" "window_ok (c_window c)"
  moreover have "c_window c div d \<le> 60000" if "1 \<le> d" for d
    using zdiv_mono2 [of "c_window c" 1 d] that \<open>window_ok (c_window c)\<close> by (simp add: window_ok_iff)
  ultimately show ?thesis
    by (simp add: get_score_def Let_def window_ok_iff pos_imp_zdiv_nonneg_iff)
qed

lemma score_float: "0 \<le> n \<Longrightarrow> n \<le> 60000 \<Longrightarrow> fl_in 0 60000 (i32_to_f64 n)"
  using f64_of_int [of n] of_int_le_iff [of n 60000, where ?'a = rat] by (simp add: i32_to_f64_def)

lemma soft_cap_unit:
  assumes "c_cc_target_bps c < 2 ^ 64"
  shows "fl_in 0 1 (cc_soft_cap_multiplier c)"
proof -
  obtain lo where lo: "CC_SOFT_CAP_FLOOR = Fin lo" "0 \<le> lo" "lo \<le> 1"
    using unit_literal [of "10 / 100"] by (auto simp: CC_SOFT_CAP_FLOOR_def elim!: fl_inE)
  have "fl_in 0 1 (fl_clamp (Fin lo) (Fin 1) (f64_div (fl_max x (Fin 0)) (u64_to_f64 (c_cc_target_bps c))))"
    if "c_cc_target_bps c \<noteq> 0" for x
  proof (rule fl_in_weaken [OF fl_clamp_in])
    have "1 \<le> rnd64 (of_nat (c_cc_target_bps c))" using that by (intro b64.rnd_ge) simp_all
    then show "f64_div (fl_max x (Fin 0)) (u64_to_f64 (c_cc_target_bps c)) \<noteq> NaN"
      using fl_max_0_cases [of x] assms
      by (auto simp: u64_val signed_inf_def)
  qed (use lo in simp_all)
  then show ?thesis by (simp add: cc_soft_cap_multiplier_def Let_def lo(1))
qed


definition decay_fn :: "(f64 \<Rightarrow> f64) \<Rightarrow> bool" where
  "decay_fn exp_f \<longleftrightarrow> (\<forall>r \<le> 0. fl_in 0 1 (exp_f (Fin r)))"

section \<open>Quality multiplier\<close>

lemma rnd64_dyadic_simps: "rnd64 (11 / 32) = 11 / 32" "rnd64 (11 / 16) = 11 / 16" "rnd64 (3 / 4) = 3 / 4"
  "rnd64 (9 / 8) = 9 / 8" "rnd64 (33 / 32) = 33 / 32" "rnd64 (297 / 256) = 297 / 256" "rnd64 (1 / 2) = 1 / 2"
  using rnd64_dyadic [of 11 5] rnd64_dyadic [of 11 4] rnd64_dyadic [of 3 2] rnd64_dyadic [of 9 3]
    rnd64_dyadic [of 33 5] rnd64_dyadic [of 297 8] rnd64_dyadic [of 1 1]
  by simp_all

lemma rtt_bonus_range: "fl_in 1 (33 / 32) (calculate_rtt_bonus c)"
proof -
  obtain m where m: "MAX_RTT_BONUS = Fin m" "1 \<le> m" "m \<le> 33 / 32"
    using f64_of_rat_in [of 1 "33 / 32" "103 / 100"] rnd64_dyadic_simps
    by (auto simp: MAX_RTT_BONUS_def elim!: fl_inE)
  have "fl_in 1 (33 / 32) (fl_max (fl_min x (Fin m)) (Fin 1))" for x
    using m(2,3) by (cases x) (auto simp: fl_min_def fl_max_def)
  then show ?thesis by (simp add: calculate_rtt_bonus_def Let_def m(1))
qed

lemma decay_in_unit:
  assumes "decay_fn exp_f" "age < 2 ^ 64"
  shows "fl_in 0 1 (exp_f (f64_div (fl_neg (u64_to_f64 age)) HALF_LIFE_MS))"
proof -
  let ?a = "rnd64 (of_nat age)"
  have a: "0 \<le> ?a" "?a \<le> 2 ^ 64"
    using assms(2) of_nat_mono [of age "2 ^ 64", where ?'a = rat]
    by (auto intro!: b64.rnd_nonneg b64.rnd_le simp: rnd_2_64 [simplified])
  then have "f64_of_rat (- ?a / 2000) = Fin (rnd64 (- ?a / 2000))"
    by (intro f64_val) (simp add: abs_le_iff)
  moreover have "rnd64 (- ?a / 2000) \<le> 0" using a by (intro b64.rnd_nonpos) simp
  ultimately show ?thesis
    using assms by (simp add: u64_val HALF_LIFE_MS_def decay_fn_def)
qed

lemma penalty_range:
  assumes "fl_in 0 1 d"
  shows "fl_in (1 / 2) 1 (f64_sub (Fin 1) (f64_mul MAX_PENALTY d))"
proof -
  have half: "MAX_PENALTY = Fin (1 / 2)" using half_exact(1) by (simp add: MAX_PENALTY_def)
  have "fl_in 0 (1 / 2) (f64_mul MAX_PENALTY d)"
    unfolding half
    by (rule f64_mul_in [OF _ assms, of "1 / 2" "1 / 2"]) (simp_all add: rnd64_dyadic_simps)
  then obtain p where p: "f64_mul MAX_PENALTY d = Fin p" "0 \<le> p" "p \<le> 1 / 2" by (auto elim!: fl_inE)
  then have "fl_in (1 / 2) 1 (f64_of_rat (1 - p))"
    by (intro f64_of_rat_in) (simp_all add: rnd64_dyadic_simps)
  then show ?thesis by (simp add: p(1) fl_sub_def)
qed

lemma nak_quality_range:
  assumes "decay_fn exp_f" "now < 2 ^ 64"
  shows "fl_in (11 / 32) (9 / 8) (nak_quality exp_f c now)"
proof -
  have bonus: "fl_in 1 (9 / 8) PERFECT_CONNECTION_BONUS"
    unfolding PERFECT_CONNECTION_BONUS_def by (rule f64_of_rat_in) (simp_all add: rnd64_dyadic_simps)
  have burst: "fl_in (11 / 16) (3 / 4) NAK_BURST_PENALTY"
    unfolding NAK_BURST_PENALTY_def by (rule f64_of_rat_in) (simp_all add: rnd64_dyadic_simps)
  have decayed: "fl_in (1 / 2) 1 (f64_sub (Fin 1) (f64_mul MAX_PENALTY (exp_f (f64_div (fl_neg (u64_to_f64 age)) HALF_LIFE_MS))))"
    if "age \<le> now" for age
    using that assms by (intro penalty_range decay_in_unit) simp_all
  have nak: "fl_in (11 / 32) (9 / 8) (if b then f64_mul x NAK_BURST_PENALTY else x)" if x: "fl_in (1 / 2) 1 x" for b x
  proof -
    have "fl_in (11 / 32) (3 / 4) (f64_mul x NAK_BURST_PENALTY)"
      by (rule f64_mul_in [OF x burst]) (simp_all add: rnd64_dyadic_simps)
    then have "fl_in (11 / 32) (9 / 8) (f64_mul x NAK_BURST_PENALTY)" by (rule fl_in_weaken) simp_all
    moreover have "fl_in (11 / 32) (9 / 8) x" by (rule fl_in_weaken [OF x]) simp_all
    ultimately show ?thesis by simp
  qed
  have "fl_in (11 / 32) (9 / 8) PERFECT_CONNECTION_BONUS" by (rule fl_in_weaken [OF bonus]) simp_all
  then show ?thesis
    using nak [OF decayed [OF diff_le_self]]
    by (simp add: nak_quality_def time_since_last_nak_ms_def Let_def)
qed

text \<open>The quality multiplier of any link at any time.\<close>

lemma quality_range:
  assumes "decay_fn exp_f" "now < 2 ^ 64"
  shows "fl_in (11 / 32) (297 / 256) (calculate_quality_multiplier exp_f c now)"
proof -
  have "fl_in (11 / 32) (297 / 256) (f64_mul (nak_quality exp_f c now) (calculate_rtt_bonus c))"
    by (rule f64_mul_in [OF nak_quality_range [OF assms] rtt_bonus_range]) (simp_all add: rnd64_dyadic_simps)
  moreover have "fl_in (11 / 32) (297 / 256) PERFECT_CONNECTION_BONUS" "fl_in (11 / 32) (297 / 256) STARTUP_NAK_PENALTY"
    unfolding PERFECT_CONNECTION_BONUS_def STARTUP_NAK_PENALTY_def
    by (rule f64_of_rat_in; simp add: rnd64_dyadic_simps)+
  ultimately show ?thesis
    by (simp add: calculate_quality_multiplier_def Let_def)
qed

section \<open>Links that can be scored\<close>

text \<open>What selection relies on: a schedulable link is connected, or was once established and then refused by the
  receiver, in which case it has no last receive time and is timed out; its window is in range, its
  cached quality is an ordinary multiplier, and its 64-bit fields fit.\<close>

definition link_scorable :: "SrtlaConnection \<Rightarrow> bool" where
  "link_scorable c \<longleftrightarrow> (is_schedulable c \<and> \<not> c_connected c \<longrightarrow>
       connection_established_ms (c_reconnection c) \<noteq> 0 \<and> c_last_received c = None) \<and> window_ok (c_window c) \<and>
     fl_in 0 2 (cq_multiplier (c_quality_cache c)) \<and> c_cc_target_bps c < 2 ^ 64 \<and> c_stall_rejoin_ramp_ms c < 2 ^ 64"

lemma link_scorable_cong:
  "core d = core c \<Longrightarrow> link_scorable c \<Longrightarrow> c_stall_rejoin_ramp_ms d < 2 ^ 64 \<Longrightarrow> link_scorable d"
  by (simp add: link_scorable_def core_def is_schedulable_def)

lemma scorable_live_connected: "link_scorable c \<Longrightarrow> \<not> skipped now c \<Longrightarrow> c_connected c"
  by (rule ccontr) (simp add: link_scorable_def skipped_def is_timed_out_def)

lemma ramp_ms_arm: "c_stall_rejoin_ramp_ms c < 2 ^ 64 \<Longrightarrow> ramp < 2 ^ 64 \<Longrightarrow>
    c_stall_rejoin_ramp_ms (arm_rejoin_ramp now ramp b c) < 2 ^ 64"
  by (simp add: arm_rejoin_ramp_def)

lemma scorable_passes:
  assumes "link_scorable c"
  shows "link_scorable (release_sole_carrier now c)" "link_scorable (elect_apply now keep handover i c)"
    "link_scorable (update_exclusion now u sole i c)"
proof -
  have ramp: "c_stall_rejoin_ramp_ms c < 2 ^ 64" "HELD_OUT_REJOIN_RAMP_MS < 2 ^ 64"
    using assms by (simp_all add: link_scorable_def HELD_OUT_REJOIN_RAMP_MS_def)
  note arm = ramp_ms_arm [OF ramp]
  show "link_scorable (release_sole_carrier now c)"
    by (rule link_scorable_cong [OF _ assms]) (use arm ramp(1) in \<open>auto simp: release_sole_carrier_def Let_def\<close>)
  show "link_scorable (elect_apply now keep handover i c)"
    by (rule link_scorable_cong [OF _ assms]) (use arm ramp(1) in \<open>auto simp: elect_apply_def Let_def\<close>)
  show "link_scorable (update_exclusion now u sole i c)"
    by (rule link_scorable_cong [OF _ assms]) (use arm ramp(1) in \<open>auto simp: update_exclusion_def Let_def\<close>)
qed

text \<open>The score of a live link is finite and not negative, so it beats the initial best score of -1.\<close>

lemma cached_quality_range:
  assumes "link_scorable c" "decay_fn exp_f" "now < 2 ^ 64"
  shows "fl_in 0 2 (fst (get_cached_quality_multiplier exp_f now c))"
proof -
  have "fl_in 0 2 (calculate_quality_multiplier exp_f c now)"
    by (rule fl_in_weaken [OF quality_range [OF assms(2,3)]]) simp_all
  then show ?thesis using assms(1) by (simp add: get_cached_quality_multiplier_def link_scorable_def Let_def)
qed

lemma link_score_range:
  assumes c: "link_scorable c" "\<not> skipped now c" and e: "decay_fn exp_f" "now < 2 ^ 64"
  shows "fl_in 0 120000 (fst (link_score exp_f now q u c))"
proof -
  have gate: "fl_in 0 1 (if u \<and> c_weak c then GATED_LINK_PENALTY else Fin 1)" using gate_penalty_unit by simp
  have cap: "fl_in 0 1 (cc_soft_cap_multiplier c)" using c(1) by (simp add: soft_cap_unit link_scorable_def)
  have "fl_in 0 1 (conn_rejoin_ramp_multiplier now c)"
    using c(1) by (simp add: conn_rejoin_ramp_multiplier_def ramp_in_unit link_scorable_def)
  moreover have "fl_in 0 60000 (i32_to_f64 (get_score c))"
    using c(1) scorable_live_connected [OF c] get_score_range [of c] by (intro score_float) (auto simp: link_scorable_def)
  ultimately have base: "fl_in 0 60000 (f64_mul (f64_mul (i32_to_f64 (get_score c)) (phase_weight (c_phase c)))
      (conn_rejoin_ramp_multiplier now c))" (is "fl_in 0 60000 ?base")
    by (intro f64_scale_in phase_weight_unit) simp_all
  then have base2: "fl_in 0 120000 ?base" by (rule fl_in_weaken) simp_all
  have scale: "fl_in 0 120000 (f64_mul (f64_mul x (cc_soft_cap_multiplier c))
      (if u \<and> c_weak c then GATED_LINK_PENALTY else Fin 1))" if "fl_in 0 120000 x" for x
    by (rule f64_scale_in [OF f64_scale_in [OF that cap] gate]) simp_all
  have "fl_in 0 120000 (f64_mul ?base (fst (get_cached_quality_multiplier exp_f now c)))"
    by (rule f64_mul_in [OF base cached_quality_range [OF c(1) e]]) simp_all
  note scale [OF this] scale [OF base2]
  then show ?thesis by (simp add: link_score_def Let_def case_prod_beta)
qed

section \<open>Selection never fails while a link is live\<close>

lemma election_result:
  assumes "elect_sole_carrier now ok conns = (sole, conns1)"
  shows "length conns1 = length conns \<and> (list_all link_scorable conns \<longrightarrow> list_all link_scorable conns1) \<and>
     (\<forall>i < length conns. core (conns1 ! i) = core (conns ! i)) \<and>
     (if ok then sole = None
      else case sole of Some k \<Rightarrow> k < length conns \<and> \<not> skipped now (conns ! k) | None \<Rightarrow> list_all (skipped now) conns)"
proof (cases ok)
  case True
  with assms show ?thesis
    by (auto simp: elect_sole_carrier_def list_all_iff scorable_passes)
next
  case False
  obtain inc keep where k: "elect_keep now conns = (inc, keep)" by fastforce
  from assms False have sole: "sole = keep"
    and c1: "conns1 = map (\<lambda>(i, c). elect_apply now keep (inc \<noteq> None \<and> keep \<noteq> None \<and> inc \<noteq> keep) i c) (enumerate 0 conns)"
    by (auto simp: elect_sole_carrier_def k Let_def)
  have "list_all link_scorable conns1" if "list_all link_scorable conns"
    using that by (auto simp: c1 list_all_length nth_enumerate_eq scorable_passes)
  then show ?thesis using elect_keep_result [OF k] False
    by (simp add: sole c1 nth_enumerate_eq)
qed

lemma not_excluded:
  "c_quality_excluded (update_exclusion now u sole i c) \<longleftrightarrow> \<not> skipped now c \<and>
     (u \<and> (c_loss_degraded c \<or> c_weak c \<and> reason_is_delay (c_weak_reason c)) \<or> sole \<noteq> None \<and> Some i \<noteq> sole)"
  by (auto simp: update_exclusion_def skipped_def Let_def)

lemma core_fields:
  assumes "core c = core d"
  shows "c_loss_degraded c = c_loss_degraded d" "c_weak c = c_weak d" "is_schedulable c = is_schedulable d"
    "unconstrained now c = unconstrained now d"
  using assms core_cong(2,3) [OF assms] by (simp_all add: core_def is_schedulable_def unconstrained_def)

lemma some_link_ranked:
  assumes live: "\<not> skipped now (conns ! k)" "k < length conns"
    and el: "elect_sole_carrier now (list_ex (quality_ok_link now) conns) conns = (sole, conns1)"
    and u: "u = list_ex (unconstrained now) conns"
  shows "\<exists>i < length conns. \<not> rank_skipped now u (update_exclusion now u sole i (conns1 ! i))"
proof -
  note res = election_result [OF el]
  have same: "core (update_exclusion now u sole i (conns1 ! i)) = core (conns ! i)" if "i < length conns" for i
    using res that by simp
  have rank: "\<not> rank_skipped now u (update_exclusion now u sole i (conns1 ! i))"
    if i: "i < length conns" "\<not> skipped now (conns ! i)" "u \<Longrightarrow> unconstrained now (conns ! i)"
      "sole = None \<or> sole = Some i" for i
  proof -
    have eq: "core (conns1 ! i) = core (conns ! i)" using res i(1) by simp
    have "\<not> c_quality_excluded (update_exclusion now u sole i (conns1 ! i))"
      using i(3,4) core_fields(4) [OF eq, of now]
      by (auto simp: not_excluded unconstrained_def quality_ok_link_def)
    then show ?thesis
      using core_cong(1,3) [OF same [OF i(1)]] i(2,3)
      by (auto simp: rank_skipped_def unconstrained_def)
  qed
  show ?thesis
  proof (cases "list_ex (quality_ok_link now) conns")
    case True
    then have sole: "sole = None" using res by simp
    obtain i where "i < length conns" "\<not> skipped now (conns ! i)" "u \<Longrightarrow> unconstrained now (conns ! i)"
    proof (cases u)
      case True
      then obtain i where "i < length conns" "unconstrained now (conns ! i)" by (auto simp: u list_ex_length)
      then show ?thesis by (intro that) (auto simp: unconstrained_def quality_ok_link_def skipped_def)
    qed (use live that in auto)
    with rank sole show ?thesis by blast
  next
    case False
    then have nu: "\<not> u" by (auto simp: u list_ex_iff unconstrained_def)
    from False res live obtain i where "sole = Some i" "i < length conns" "\<not> skipped now (conns ! i)"
      by (auto simp: list_all_length split: option.splits)
    with rank nu show ?thesis by blast
  qed
qed

lemma enhanced_total:
  assumes sel: "enhanced_select_connection exp_f last_idx now q conns = (r, conns')"
    and ok: "list_all link_scorable conns" and e: "decay_fn exp_f" "now < 2 ^ 64"
  shows "case r of Some i \<Rightarrow> i < length conns \<and> \<not> skipped now (conns ! i) | None \<Rightarrow> list_all (skipped now) conns"
proof -
  define u where "u = list_ex (unconstrained now) conns"
  obtain sole conns1 where el: "elect_sole_carrier now (list_ex (quality_ok_link now) conns) conns = (sole, conns1)"
    by fastforce
  define conns2 where "conns2 = map (\<lambda>(i, c). update_exclusion now u sole i c) (enumerate 0 conns1)"
  note out = enhanced_outcome [OF sel u_def el conns2_def]
  note res = election_result [OF el]
  have len: "length conns2 = length conns" using res by (simp add: conns2_def)
  have nth: "conns2 ! i = update_exclusion now u sole i (conns1 ! i)" if "i < length conns" for i
    using that res by (simp add: conns2_def nth_enumerate_eq)
  have sk: "skipped now (conns2 ! i) = skipped now (conns ! i)" if "i < length conns" for i
    using that res by (intro core_cong) (simp add: nth)
  show ?thesis
  proof (cases r)
    case (Some i)
    then show ?thesis using out sk len by (auto simp: rank_skipped_def)
  next
    case None
    have "skipped now (conns ! k)" if k: "k < length conns" for k
    proof (rule ccontr)
      assume "\<not> skipped now (conns ! k)"
      from some_link_ranked [OF this k el u_def] obtain i
        where i: "i < length conns" "\<not> rank_skipped now u (conns2 ! i)" using nth by auto
      have "link_scorable (conns2 ! i)"
        using i(1) res ok nth by (simp add: list_all_length scorable_passes)
      moreover have "\<not> skipped now (conns2 ! i)" using i(2) by (simp add: rank_skipped_def)
      ultimately have "fl_in 0 120000 (fst (link_score exp_f now q u (conns2 ! i)))"
        by (rule link_score_range [OF _ _ e])
      then have "fl_gt (fst (link_score exp_f now q u (conns2 ! i))) (Fin (-1))" by (auto elim!: fl_inE)
      then show False using out None i len by (auto simp: list_all_length)
    qed
    then show ?thesis by (simp add: None list_all_length)
  qed
qed

text \<open>The classic mode: a live link scores at least zero.\<close>

lemma weighted_score_nonneg:
  assumes "link_scorable c" "\<not> skipped now c"
  shows "0 \<le> weighted_score c"
proof -
  have s: "0 \<le> get_score c" "get_score c \<le> 60000"
    using assms(1) scorable_live_connected [OF assms] get_score_range [of c] by (auto simp: link_scorable_def)
  define k where "k = get_score c"
  obtain m where m: "weight_multiplier c = Fin m" "1 \<le> m"
    using link_weight_in [of "c_link_weight c" "c_window c"] by (auto simp: weight_multiplier_def elim!: fl_inE)
  have "f32_of_rat (of_int k) = Fin (rnd32 (of_int k))"
    using s by (intro f32_val) (simp add: k_def abs_le_iff)
  moreover have "0 \<le> rnd32 (of_int k)" using s by (intro b32.rnd_nonneg) (simp add: k_def)
  moreover have "0 \<le> fl_to_i32 (f32_of_rat x)" if "0 \<le> x" for x
    using b32.rnd_nonneg [OF that] trunc_nonneg [OF b32.rnd_nonneg [OF that]]
    by (auto simp: f32_of_rat_def fl_make_def Let_def fl_to_i32_def le_max_iff_disj)
  ultimately have "0 \<le> fl_to_i32 (f32_mul (i32_to_f32 k) (weight_multiplier c))"
    using m by (simp add: i32_to_f32_def)
  with s show ?thesis by (simp add: weighted_score_def Let_def k_def)
qed

text \<open>Ticking the stall guard keeps links scorable and decides nothing about liveness.\<close>

lemma pull_frame:
  "core (update_silence_pull now n ceil c) = core c"
  "c_stall_rejoin_ramp_ms (update_silence_pull now n ceil c) = c_stall_rejoin_ramp_ms c"
  by (simp_all add: update_silence_pull_def core_def Let_def)

lemma core_updates_stall [simp]:
  "core (c\<lparr> c_stall_rejoin_backoff := b \<rparr>) = core c" "core (c\<lparr> c_stall_latched_since_ms := t \<rparr>) = core c"
  "core (c\<lparr> c_stall_gate_events := t \<rparr>) = core c" "core (c\<lparr> c_stall_recovery_since_ms := t \<rparr>) = core c"
  "core (c\<lparr> c_stall_released_at_ms := t \<rparr>) = core c"
  by (simp_all add: core_def)

lemma latch_frame:
  "core (update_stall_latch now n ceil c) = core c"
  "c_stall_rejoin_ramp_ms c < 2 ^ 64 \<Longrightarrow> c_stall_rejoin_ramp_ms (update_stall_latch now n ceil c) < 2 ^ 64"
proof -
  have dwell: "u64_saturating_mul x y < 2 ^ 64" for x y
    by (simp add: u64_saturating_mul_def)
  show "core (update_stall_latch now n ceil c) = core c"
    by (simp add: update_stall_latch_def Let_def)
  show "c_stall_rejoin_ramp_ms (update_stall_latch now n ceil c) < 2 ^ 64" if "c_stall_rejoin_ramp_ms c < 2 ^ 64"
    using that dwell by (simp add: update_stall_latch_def arm_rejoin_ramp_def Let_def del: power_numeral)
qed

definition with_config :: "ConfigSnapshot \<Rightarrow> SrtlaConnection \<Rightarrow> SrtlaConnection" where
  "with_config config c =
     c\<lparr> c_conn_timeout_ms := cfg_conn_timeout_ms config, c_delay_budget_ms := cfg_negotiated_latency_ms config \<rparr>"

lemma with_config_scorable [simp]: "link_scorable (with_config config c) = link_scorable c"
  by (simp add: with_config_def link_scorable_def is_schedulable_def)

lemma ticked_core: "core (ticked now config c) = core (with_config config c)"
  by (simp add: ticked_def latch_frame pull_frame with_config_def)

lemma ticked_scorable: "link_scorable c \<Longrightarrow> link_scorable (ticked now config c)"
proof (rule link_scorable_cong [OF ticked_core])
  assume "link_scorable c"
  then have "c_stall_rejoin_ramp_ms (with_config config c) < 2 ^ 64" by (simp add: link_scorable_def with_config_def)
  then show "c_stall_rejoin_ramp_ms (ticked now config c) < 2 ^ 64"
    unfolding ticked_def by (intro latch_frame) (simp only: pull_frame with_config_def)
qed simp

text \<open>After the stall gate every link is scorable, is as live as the configured timeout makes it, and some
  live link is ungated if there is one.\<close>

lemma gate_map:
  "\<exists>f. apply_stall_gate now config conns = map f conns \<and>
     (\<forall>c. carries now (f c) = carries now (with_config config c) \<and> (link_scorable c \<longrightarrow> link_scorable (f c)))"
proof (cases "cfg_stall_deselect config")
  case True
  define f where "f c = (ticked now config c)\<lparr> c_stall_gated := (any_healthy now (map (ticked now config) conns) \<and>
      (stall_latched (ticked now config c) \<or> c_silence_pulled (ticked now config c))) \<rparr>" for c
  have "apply_stall_gate now config conns = map f conns"
    unfolding apply_stall_gate_on [OF True] by (simp add: f_def)
  moreover have "carries now (f c) = carries now (with_config config c)" for c
    using core_cong(5) [OF ticked_core] by (simp add: f_def)
  moreover have "link_scorable (f c)" if "link_scorable c" for c
    using ticked_scorable [OF that] by (simp add: f_def link_scorable_def is_schedulable_def)
  ultimately show ?thesis by blast
next
  case False
  define f where "f c = clear_stall_latch ((with_config config c)\<lparr> c_stall_gated := False, c_silence_pulled := False \<rparr>)" for c
  have "apply_stall_gate now config conns = map f conns"
    using False by (simp add: apply_stall_gate_def f_def with_config_def)
  moreover have "carries now (f c) = carries now (with_config config c)" for c
    by (simp add: f_def carries_def clear_stall_latch_def is_timed_out_def is_schedulable_def Let_def cong: option.case_cong)
  moreover have "link_scorable (f c)" if "link_scorable c" for c
    using that by (simp add: f_def with_config_def clear_stall_latch_def link_scorable_def is_schedulable_def Let_def)
  ultimately show ?thesis by blast
qed

lemma gate_leaves_live:
  "list_all (skipped now) (apply_stall_gate now config conns) \<Longrightarrow>
   list_all (\<lambda>c. \<not> carries now c) (apply_stall_gate now config conns)"
proof (cases "cfg_stall_deselect config")
  case True
  then show "list_all (skipped now) (apply_stall_gate now config conns) \<Longrightarrow> ?thesis"
    unfolding apply_stall_gate_on [OF True]
    by (auto simp: list_all_iff skipped_carries any_healthy_carries list_ex_iff)
next
  case False
  then have "\<not> c_stall_gated c" if "c \<in> set (apply_stall_gate now config conns)" for c
    using that by (auto simp: apply_stall_gate_def Let_def)
  then show "list_all (skipped now) (apply_stall_gate now config conns) \<Longrightarrow> ?thesis"
    by (auto simp: list_all_iff skipped_carries)
qed

lemma classic_total:
  assumes "list_all link_scorable conns"
  shows "case classic_select_connection now conns of
     Some i \<Rightarrow> i < length conns \<and> \<not> skipped now (conns ! i) | None \<Rightarrow> list_all (skipped now) conns"
proof -
  obtain r s where rs: "scan_best (>) (classic_candidate now) 0 None (-1) conns = (r, s)" by fastforce
  have sel: "classic_select_connection now conns = r"
    using rs by (simp add: classic_select_connection_def classic_loop_scan)
  show ?thesis
  proof (cases r)
    case None
    have "skipped now c" if "c \<in> set conns" for c
      using int_scan.scan_none [OF rs [unfolded None] that] weighted_score_nonneg [of c now] assms that
      by (fastforce simp: classic_candidate_def list_all_iff skipped_def split: if_splits)
    then show ?thesis by (simp add: sel None list_all_iff)
  next
    case (Some i)
    then show ?thesis using int_scan.scan_result [OF rs]
      by (auto simp: sel scan_found_def classic_candidate_def split: if_splits)
  qed
qed

lemma select_total:
  assumes "decay_fn exp_f" "now < 2 ^ 64" "list_all link_scorable conns"
  shows "case fst (select_connection_idx exp_f last_idx now config conns) of
     Some i \<Rightarrow> i < length conns \<and> carries now (with_config config (conns ! i)) \<and>
       \<not> c_stall_gated (apply_stall_gate now config conns ! i)
   | None \<Rightarrow> list_all (\<lambda>c. \<not> carries now (with_config config c)) conns"
proof -
  define gated where "gated = apply_stall_gate now config conns"
  obtain f where f: "gated = map f conns"
    "\<forall>c. carries now (f c) = carries now (with_config config c) \<and> (link_scorable c \<longrightarrow> link_scorable (f c))"
    using gate_map [of now config conns] unfolding gated_def by (elim exE conjE)
  have ok: "list_all link_scorable gated" using assms(3) f(2) by (simp add: f(1) list_all_iff)
  have cl: "list_all link_scorable (map clear_quality_gate_state gated)"
    using ok by (auto simp: list_all_iff clear_quality_gate_state_def link_scorable_def is_schedulable_def)
  have "case fst (select_connection_idx exp_f last_idx now config conns) of
     Some i \<Rightarrow> i < length gated \<and> \<not> skipped now (gated ! i) | None \<Rightarrow> list_all (skipped now) gated"
  proof (cases "cfg_mode config")
    case Classic
    have "skipped now (clear_quality_gate_state c) = skipped now c" for c by (rule core_cong(1)) simp
    with classic_total [OF cl, of now] show ?thesis
      by (simp add: select_connection_idx_def Let_def Classic gated_def [symmetric] list_all_length
          cong: option.case_cong conj_cong)
  next
    case Enhanced
    obtain r conns' where "enhanced_select_connection exp_f last_idx now (effective_quality_enabled config) gated = (r, conns')"
      by fastforce
    with enhanced_total [OF this ok assms(1,2)] show ?thesis
      by (simp add: select_connection_idx_def Let_def Enhanced gated_def [symmetric])
  qed
  moreover have "list_all (\<lambda>c. \<not> carries now (with_config config c)) conns" if "list_all (skipped now) gated"
    using gate_leaves_live [of now config conns] that f by (simp add: gated_def [symmetric] list_all_iff)
  moreover have "carries now (with_config config (conns ! i)) \<and> \<not> c_stall_gated (gated ! i)"
    if "i < length gated" "\<not> skipped now (gated ! i)" for i
    using that f by (simp add: skipped_carries)
  ultimately show ?thesis
    by (cases "fst (select_connection_idx exp_f last_idx now config conns)") (auto simp: gated_def [symmetric] f(1))
qed

text \<open>C1: Selection is total on live links, in both modes and under every combination of stall latches,
  silence pulls, quality gates, sole-carrier elections, in-flight caps, rejoin ramps and hysteresis: if it answers with
  a link, that link exists, is not timed out under the configured timeout, is registered and is not gated;
  and it answers with none only if no link at all is live. The hypotheses are the invariants of the links and that
  the exponential of a non-positive number lies between zero and one.\<close>

theorem selection_total:
  assumes "decay_fn exp_f" "now < 2 ^ 64" "list_all link_scorable conns"
  shows "case fst (select_connection_idx exp_f last_idx now config conns) of
     Some i \<Rightarrow> i < length conns \<and> carries now (with_config config (conns ! i)) \<and>
       \<not> c_stall_gated (apply_stall_gate now config conns ! i)
   | None \<Rightarrow> list_all (\<lambda>c. \<not> carries now (with_config config c)) conns"
  by (rule select_total [OF assms])

theorem selection_total_witness:
  "fst (select_connection_idx (\<lambda>_. Fin 1) (Some 7) 10 ConfigSnapshot_default
     [(new_registering 1 ''eth0'' (V4 1) 0)\<lparr> c_connected := True, c_phase := Live \<rparr>]) = Some 0"
proof -
  define c where "c = (new_registering 1 ''eth0'' (V4 1) 0)\<lparr> c_connected := True, c_phase := Live \<rparr>"
  have "link_scorable c"
    by (simp add: c_def link_scorable_def new_registering_def CachedQuality_default_def window_ok_def protocol_consts)
  moreover have "carries 10 (with_config ConfigSnapshot_default c)"
    by (simp add: c_def with_config_def carries_def new_registering_def is_timed_out_def is_schedulable_def
        phase_is_schedulable_def)
  ultimately have "fst (select_connection_idx (\<lambda>_. Fin 1) (Some 7) 10 ConfigSnapshot_default [c]) = Some 0"
    using selection_total [of "\<lambda>_. Fin 1" 10 "[c]" ConfigSnapshot_default "Some 7"]
    by (auto simp: decay_fn_def split: option.splits)
  then show ?thesis unfolding c_def .
qed

text \<open>The quality multiplier of a link is never zero, negative or out of proportion: with the
  exponential between zero and one on non-positive arguments, whatever the loss history, bursts, round-trip time and
  age of a link, it is between 11/32 and 297/256. So quality alone can neither remove a link nor let
  it dominate by its loss record.\<close>

theorem quality_multiplier_bounds:
  assumes "decay_fn exp_f" "now < 2 ^ 64"
  shows "fl_in (11 / 32) (297 / 256) (calculate_quality_multiplier exp_f c now)"
  by (rule quality_range [OF assms])

theorem quality_multiplier_bounds_witness:
  "fl_in (11 / 32) (297 / 256) (calculate_quality_multiplier (\<lambda>_. Fin (1 / 2)) (new_registering 1 ''eth0'' (V4 1) 0) 40000)"
  by (rule quality_multiplier_bounds) (simp_all add: decay_fn_def)

text \<open>A bond in which no link has acceptable quality is carried by one link. After an election the carrier
  flag is set on the elected link only, and exactly the other candidates are excluded; when some link has acceptable
  quality there is no carrier and no exclusion is left.\<close>

theorem election_single_carrier:
  "case elect_sole_carrier now ok conns of (sole, conns') \<Rightarrow>
     length conns' = length conns \<and>
     list_all (\<lambda>(i, c'). (c_sole_carrier c' \<longleftrightarrow> sole = Some i) \<and>
       (c_sole_carrier_excluded c' \<longleftrightarrow> sole \<noteq> None \<and> sole \<noteq> Some i \<and> \<not> skipped now (conns ! i)))
       (enumerate 0 conns')"
proof -
  have skip: "skipped now (c\<lparr> c_sole_carrier := b \<rparr>) = skipped now c"
    "skipped now (c\<lparr> c_sole_carrier := b, c_sole_carrier_since_ms := t \<rparr>) = skipped now c" for c b t
    by (rule core_cong(1); simp)+
  obtain inc keep where k: "elect_keep now conns = (inc, keep)" by fastforce
  show ?thesis
    by (auto simp: elect_sole_carrier_def k Let_def list_all_length nth_enumerate_eq release_sole_carrier_def
        elect_apply_def arm_rejoin_ramp_def candidate_skipped skip)
qed

end
