(* ===== verification/Tracking.thy ===== *)
theory Tracking
  imports Enhanced
begin

text \<open>
  The tables the sender's shell keeps beside the links: the ring that maps a sequence number to the link that
  carried it (\<^verbatim>\<open>src/sender/sequence.rs\<close>), the rings that let one copy of an SRT ACK or NAK through to the client
  (\<^verbatim>\<open>src/sender/client_dedup.rs\<close>), and the critical window with the best-path override
  (\<^verbatim>\<open>crates/srtla-core/src/priority.rs\<close>). The locale \<open>owner_cache\<close> is the interface of the sequence ring: what
  a lookup returns after an insertion and after a removal. From it alone follows that the ring is a
  bounded cache of the ownership history.
\<close>

section \<open>Sequence tracker\<close>

definition SEQ_TRACKING_SIZE :: usize where "SEQ_TRACKING_SIZE = 16384"
definition SEQ_TRACKING_MASK :: usize where "SEQ_TRACKING_MASK = SEQ_TRACKING_SIZE - 1"
definition SEQUENCE_TRACKING_MAX_AGE_MS :: u64 where "SEQUENCE_TRACKING_MAX_AGE_MS = 5000"

record SequenceTrackingEntry =
  te_conn_id :: u64
  te_timestamp_ms :: u64
  te_seq :: u32

definition Entry_default :: SequenceTrackingEntry where
  "Entry_default = \<lparr> te_conn_id = 0, te_timestamp_ms = 0, te_seq = 0 \<rparr>"

definition is_expired :: "u64 \<Rightarrow> SequenceTrackingEntry \<Rightarrow> bool" where
  "is_expired current_time_ms e \<longleftrightarrow> current_time_ms - te_timestamp_ms e > SEQUENCE_TRACKING_MAX_AGE_MS"

definition is_valid :: "u32 \<Rightarrow> u64 \<Rightarrow> SequenceTrackingEntry \<Rightarrow> bool" where
  "is_valid sq current_time_ms e \<longleftrightarrow> te_conn_id e \<noteq> 0 \<and> te_seq e = sq \<and> \<not> is_expired current_time_ms e"

record SequenceTracker =
  tr_entries :: "SequenceTrackingEntry list"
  tr_count :: usize

definition SequenceTracker_new :: SequenceTracker where
  "SequenceTracker_new = \<lparr> tr_entries = replicate SEQ_TRACKING_SIZE Entry_default, tr_count = 0 \<rparr>"

definition tracker_slot :: "u32 \<Rightarrow> usize" where
  "tracker_slot sq = and (unat sq) SEQ_TRACKING_MASK"

definition tracker_insert :: "u32 \<Rightarrow> u64 \<Rightarrow> u64 \<Rightarrow> SequenceTracker \<Rightarrow> SequenceTracker" where
  "tracker_insert sq conn_id timestamp_ms t =
     (let idx = tracker_slot sq;
          count = (if te_conn_id (tr_entries t ! idx) = 0 then u64_saturating_add (tr_count t) 1 else tr_count t)
      in t\<lparr> tr_entries := (tr_entries t)[idx := \<lparr> te_conn_id = conn_id, te_timestamp_ms = timestamp_ms, te_seq = sq \<rparr>],
            tr_count := count \<rparr>)"

definition tracker_get :: "u32 \<Rightarrow> u64 \<Rightarrow> SequenceTracker \<Rightarrow> u64 option" where
  "tracker_get sq current_time_ms t =
     (let e = tr_entries t ! tracker_slot sq in if is_valid sq current_time_ms e then Some (te_conn_id e) else None)"

definition remove_connection :: "u64 \<Rightarrow> SequenceTracker \<Rightarrow> SequenceTracker" where
  "remove_connection conn_id t =
     t\<lparr> tr_entries := map (\<lambda>e. if te_conn_id e = conn_id then Entry_default else e) (tr_entries t),
        tr_count := tr_count t - length (filter (\<lambda>e. te_conn_id e = conn_id) (tr_entries t)) \<rparr>"

section \<open>Duplicate suppression towards the client\<close>

definition ACK_DEDUP_WINDOW_MS :: u64 where "ACK_DEDUP_WINDOW_MS = 1000"
definition ACK_RING_SIZE :: usize where "ACK_RING_SIZE = 512"
definition NAK_DEDUP_WINDOW_MS :: u64 where "NAK_DEDUP_WINDOW_MS = 50"
definition NAK_RING_SIZE :: usize where "NAK_RING_SIZE = 64"

record Forwarded =
  fw_hash :: u64
  fw_at_ms :: u64

record Ring =
  ring_entries :: "Forwarded option list"
  ring_next :: usize
  ring_window_ms :: u64

text \<open>The const generic \<^verbatim>\<open>N\<close> is the length of the entry list. The hash of a packet is the argument \<open>hash_fn\<close>,
  because the algorithm of \<^verbatim>\<open>DefaultHasher\<close> is not specified.\<close>

definition Ring_new :: "usize \<Rightarrow> u64 \<Rightarrow> Ring" where
  "Ring_new n window_ms = \<lparr> ring_entries = replicate n None, ring_next = 0, ring_window_ms = window_ms \<rparr>"

definition should_forward :: "(bytes \<Rightarrow> u64) \<Rightarrow> bytes \<Rightarrow> u64 \<Rightarrow> Ring \<Rightarrow> bool \<times> Ring" where
  "should_forward hash_fn packet now_ms r =
     (let h = hash_fn packet;
          seen_recently = list_ex (\<lambda>e. case e of None \<Rightarrow> False
                            | Some f \<Rightarrow> fw_hash f = h \<and> now_ms - fw_at_ms f < ring_window_ms r) (ring_entries r)
      in if seen_recently then (False, r)
         else (True, r\<lparr> ring_entries := (ring_entries r)[ring_next r := Some \<lparr> fw_hash = h, fw_at_ms = now_ms \<rparr>],
                        ring_next := (ring_next r + 1) mod length (ring_entries r) \<rparr>))"

record ClientDedup =
  cd_acks :: Ring
  cd_naks :: Ring

definition ClientDedup_new :: ClientDedup where
  "ClientDedup_new = \<lparr> cd_acks = Ring_new ACK_RING_SIZE ACK_DEDUP_WINDOW_MS,
                       cd_naks = Ring_new NAK_RING_SIZE NAK_DEDUP_WINDOW_MS \<rparr>"

definition should_forward_ack :: "(bytes \<Rightarrow> u64) \<Rightarrow> bytes \<Rightarrow> u64 \<Rightarrow> ClientDedup \<Rightarrow> bool \<times> ClientDedup" where
  "should_forward_ack hash_fn packet now_ms d =
     (case should_forward hash_fn packet now_ms (cd_acks d) of (b, r) \<Rightarrow> (b, d\<lparr> cd_acks := r \<rparr>))"

definition should_forward_nak :: "(bytes \<Rightarrow> u64) \<Rightarrow> bytes \<Rightarrow> u64 \<Rightarrow> ClientDedup \<Rightarrow> bool \<times> ClientDedup" where
  "should_forward_nak hash_fn packet now_ms d =
     (case should_forward hash_fn packet now_ms (cd_naks d) of (b, r) \<Rightarrow> (b, d\<lparr> cd_naks := r \<rparr>))"

section \<open>Critical window\<close>

record CriticalWindow =
  cw_deadline_ms :: u64
  cw_windows_received :: u64
  cw_malformed_datagrams :: u64

definition CriticalWindow_new :: CriticalWindow where
  "CriticalWindow_new = \<lparr> cw_deadline_ms = 0, cw_windows_received = 0, cw_malformed_datagrams = 0 \<rparr>"

definition extend_to :: "u64 \<Rightarrow> CriticalWindow \<Rightarrow> CriticalWindow" where
  "extend_to deadline_ms w =
     w\<lparr> cw_deadline_ms := max (cw_deadline_ms w) deadline_ms,
        cw_windows_received := u64_add (cw_windows_received w) 1 \<rparr>"

definition is_critical_now :: "u64 \<Rightarrow> CriticalWindow \<Rightarrow> bool" where
  "is_critical_now now_ms w \<longleftrightarrow> cw_deadline_ms w > now_ms"

definition record_malformed :: "CriticalWindow \<Rightarrow> CriticalWindow" where
  "record_malformed w = w\<lparr> cw_malformed_datagrams := u64_add (cw_malformed_datagrams w) 1 \<rparr>"

definition override_eligible :: "u64 \<Rightarrow> SrtlaConnection \<Rightarrow> bool" where
  "override_eligible now_ms c \<longleftrightarrow> c_connected c \<and> is_schedulable c \<and> \<not> is_timed_out now_ms c \<and>
     \<not> c_stall_gated c \<and> \<not> c_quality_excluded c"

fun best_quality_loop ::
  "u64 \<Rightarrow> usize \<Rightarrow> usize option \<Rightarrow> f64 \<Rightarrow> f64 option \<Rightarrow> bool \<Rightarrow> usize \<Rightarrow> SrtlaConnection list \<Rightarrow> usize option"
where
  "best_quality_loop now i best_idx best_quality first_quality all_equal eligible [] =
     (if eligible > 1 \<and> all_equal then None else best_idx)"
| "best_quality_loop now i best_idx best_quality first_quality all_equal eligible (c # cs) =
     (if \<not> override_eligible now c
      then best_quality_loop now (Suc i) best_idx best_quality first_quality all_equal eligible cs
      else
        let q = cq_multiplier (c_quality_cache c);
            (first', equal') = (case first_quality of
                                  None \<Rightarrow> (Some q, all_equal)
                                | Some f \<Rightarrow> (first_quality, if \<not> fl_eq f q then False else all_equal));
            (idx', quality') = (if fl_gt q best_quality then (Some i, q) else (best_idx, best_quality))
        in best_quality_loop now (Suc i) idx' quality' first' equal' (eligible + 1) cs)"

definition select_best_quality_idx :: "u64 \<Rightarrow> SrtlaConnection list \<Rightarrow> usize option" where
  "select_best_quality_idx now_ms conns = best_quality_loop now_ms 0 None NInf None True 0 conns"

definition select_best_path_override_idx :: "u64 \<Rightarrow> SchedulingMode \<Rightarrow> SrtlaConnection list \<Rightarrow> usize option" where
  "select_best_path_override_idx now_ms mode conns =
     (if is_classic mode then None else select_best_quality_idx now_ms conns)"

section \<open>The ring is a cache of the ownership history\<close>

datatype track_event = Track u32 u64 u64 | Forget u64

text \<open>Newest event first. The latest insertion of a number decides its owner, unless that link was removed since.\<close>

fun last_owner :: "track_event list \<Rightarrow> u32 \<Rightarrow> (u64 \<times> u64) option" where
  "last_owner [] sq = None"
| "last_owner (Track s i t # h) sq = (if s = sq then Some (i, t) else last_owner h sq)"
| "last_owner (Forget i # h) sq =
     (case last_owner h sq of None \<Rightarrow> None | Some (j, t) \<Rightarrow> if j = i then None else Some (j, t))"

fun tracks :: "u32 \<Rightarrow> track_event \<Rightarrow> bool" where
  "tracks sq (Track s i t) = (s = sq)"
| "tracks sq (Forget i) = False"

text \<open>Some later insertion took the slot.\<close>

fun overwrites :: "(u32 \<Rightarrow> nat) \<Rightarrow> u32 \<Rightarrow> track_event \<Rightarrow> bool" where
  "overwrites slot sq (Track s i t) = (s \<noteq> sq \<and> slot s = slot sq)"
| "overwrites slot sq (Forget i) = False"

definition superseded :: "(u32 \<Rightarrow> nat) \<Rightarrow> track_event list \<Rightarrow> u32 \<Rightarrow> bool" where
  "superseded slot h sq = list_ex (overwrites slot sq) (takeWhile (\<lambda>e. \<not> tracks sq e) h)"

lemma superseded_simps [simp]:
  "\<not> superseded slot [] sq"
  "superseded slot (Forget i # h) sq = superseded slot h sq"
  "superseded slot (Track s i t # h) sq = (s \<noteq> sq \<and> (slot s = slot sq \<or> superseded slot h sq))"
  by (auto simp: superseded_def)

locale owner_cache =
  fixes step :: "track_event \<Rightarrow> 't \<Rightarrow> 't"
    and get :: "u32 \<Rightarrow> u64 \<Rightarrow> 't \<Rightarrow> u64 option"
    and empty :: 't
    and slot :: "u32 \<Rightarrow> nat"
    and max_age :: u64
    and ok :: "'t \<Rightarrow> bool"
  assumes ok_empty: "ok empty"
    and ok_step: "ok t \<Longrightarrow> ok (step e t)"
    and get_empty: "get sq now empty = None"
    and get_track: "ok t \<Longrightarrow> get sq now (step (Track s i ts) t) =
      (if s = sq then (if i \<noteq> 0 \<and> now - ts \<le> max_age then Some i else None)
       else if slot s = slot sq then None else get sq now t)"
    and get_forget: "ok t \<Longrightarrow> get sq now (step (Forget i) t) = (if get sq now t = Some i then None else get sq now t)"
begin

lemma run_ok: "ok (foldr step h empty)"
  by (induction h) (simp_all add: ok_empty ok_step)

lemma owner_exact:
  "case get sq now (foldr step h empty) of
     Some i \<Rightarrow> \<exists>t. last_owner h sq = Some (i, t) \<and> i \<noteq> 0 \<and> now - t \<le> max_age
   | None \<Rightarrow> superseded slot h sq \<or>
       (case last_owner h sq of None \<Rightarrow> True | Some (i, t) \<Rightarrow> i = 0 \<or> max_age < now - t)"
proof (induction h)
  case Nil
  then show ?case by (simp add: get_empty)
next
  case (Cons e h)
  then show ?case
  proof (cases e)
    case (Track s i t)
    with Cons show ?thesis by (auto simp: get_track [OF run_ok] not_le split: option.splits)
  next
    case (Forget i)
    with Cons show ?thesis by (auto simp: get_forget [OF run_ok] split: option.splits if_splits)
  qed
qed

lemma owner_forgotten: "get sq now (foldr step (Forget i # h) empty) \<noteq> Some i"
  by (simp add: get_forget [OF run_ok])

end

definition tracker_step :: "track_event \<Rightarrow> SequenceTracker \<Rightarrow> SequenceTracker" where
  "tracker_step e t = (case e of Track sq i ts \<Rightarrow> tracker_insert sq i ts t | Forget i \<Rightarrow> remove_connection i t)"

definition tracker_ok :: "SequenceTracker \<Rightarrow> bool" where
  "tracker_ok t \<longleftrightarrow> length (tr_entries t) = SEQ_TRACKING_SIZE"

lemma tracker_slot_mod: "tracker_slot sq = unat sq mod 16384"
proof -
  have "SEQ_TRACKING_MASK = mask 14" by (simp add: SEQ_TRACKING_MASK_def SEQ_TRACKING_SIZE_def mask_eq_exp_minus_1)
  then have "tracker_slot sq = take_bit 14 (unat sq)" by (simp only: tracker_slot_def take_bit_eq_mask)
  then show ?thesis by (simp add: take_bit_eq_mod)
qed

lemma tracker_slot_less: "tracker_slot sq < SEQ_TRACKING_SIZE"
  by (simp add: tracker_slot_mod SEQ_TRACKING_SIZE_def)

interpretation tracker: owner_cache tracker_step tracker_get SequenceTracker_new tracker_slot
  SEQUENCE_TRACKING_MAX_AGE_MS tracker_ok
proof
  show "tracker_ok SequenceTracker_new" by (simp add: tracker_ok_def SequenceTracker_new_def)
next
  fix t e
  assume "tracker_ok t"
  then show "tracker_ok (tracker_step e t)"
    by (simp add: tracker_ok_def tracker_step_def tracker_insert_def remove_connection_def Let_def split: track_event.splits)
next
  fix sq now
  show "tracker_get sq now SequenceTracker_new = None"
    using tracker_slot_less [of sq]
    by (simp add: tracker_get_def SequenceTracker_new_def is_valid_def Entry_default_def)
next
  fix t sq now s i ts
  assume "tracker_ok t"
  then show "tracker_get sq now (tracker_step (Track s i ts) t) =
      (if s = sq then (if i \<noteq> 0 \<and> now - ts \<le> SEQUENCE_TRACKING_MAX_AGE_MS then Some i else None)
       else if tracker_slot s = tracker_slot sq then None else tracker_get sq now t)"
    using tracker_slot_less [of sq] tracker_slot_less [of s]
    by (auto simp: tracker_get_def tracker_step_def tracker_insert_def is_valid_def is_expired_def tracker_ok_def
        Let_def nth_list_update)
next
  fix t sq now i
  assume "tracker_ok t"
  then show "tracker_get sq now (tracker_step (Forget i) t) =
      (if tracker_get sq now t = Some i then None else tracker_get sq now t)"
    using tracker_slot_less [of sq]
    by (auto simp: tracker_get_def tracker_step_def remove_connection_def is_valid_def tracker_ok_def Entry_default_def
        Let_def)
qed

text \<open>C33: The sequence ring never names a wrong link. After any history of insertions and removals, a lookup that
  answers gives the link of the latest insertion of exactly that sequence number, made at most five
  seconds ago and not removed since; and a lookup fails only if there is no such insertion, if it is
  too old, or if a different number with the same low 14 bits was inserted after it.\<close>

theorem tracker_owner_exact:
  "case tracker_get sq now (foldr tracker_step h SequenceTracker_new) of
     Some i \<Rightarrow> \<exists>t. last_owner h sq = Some (i, t) \<and> i \<noteq> 0 \<and> now - t \<le> 5000
   | None \<Rightarrow> superseded tracker_slot h sq \<or>
       (case last_owner h sq of None \<Rightarrow> True | Some (i, t) \<Rightarrow> i = 0 \<or> 5000 < now - t)"
  using tracker.owner_exact [where sq = sq and now = now and h = h] unfolding SEQUENCE_TRACKING_MAX_AGE_MS_def .

section \<open>The dedup ring remembers the last forwards\<close>

text \<open>The specification: the list of forwards, newest first, of which the last \<open>n\<close> count.\<close>

definition dedup_seen :: "usize \<Rightarrow> u64 \<Rightarrow> u64 \<Rightarrow> u64 \<Rightarrow> (u64 \<times> u64) list \<Rightarrow> bool" where
  "dedup_seen n window h now hist = list_ex (\<lambda>(g, t). g = h \<and> now - t < window) (take n hist)"

fun dedup_history :: "(bytes \<Rightarrow> u64) \<Rightarrow> usize \<Rightarrow> u64 \<Rightarrow> (bytes \<times> u64) list \<Rightarrow> (u64 \<times> u64) list" where
  "dedup_history hash_fn n window [] = []"
| "dedup_history hash_fn n window ((p, now) # ps) =
     (let hist = dedup_history hash_fn n window ps in
      if dedup_seen n window (hash_fn p) now hist then hist else (hash_fn p, now) # hist)"

fun ring_run :: "(bytes \<Rightarrow> u64) \<Rightarrow> usize \<Rightarrow> u64 \<Rightarrow> (bytes \<times> u64) list \<Rightarrow> Ring" where
  "ring_run hash_fn n window [] = Ring_new n window"
| "ring_run hash_fn n window ((p, now) # ps) = snd (should_forward hash_fn p now (ring_run hash_fn n window ps))"

text \<open>The slot \<open>k\<close> steps behind the cursor holds the \<open>k\<close>-th newest forward.\<close>

definition behind :: "usize \<Rightarrow> usize \<Rightarrow> usize \<Rightarrow> usize" where
  "behind n next_idx k = (next_idx + n - Suc k) mod n"

definition ring_holds :: "usize \<Rightarrow> u64 \<Rightarrow> (u64 \<times> u64) list \<Rightarrow> Ring \<Rightarrow> bool" where
  "ring_holds n window hist r \<longleftrightarrow> length (ring_entries r) = n \<and> ring_next r < n \<and> ring_window_ms r = window \<and>
     (\<forall>k < n. ring_entries r ! behind n (ring_next r) k =
        (if k < length hist then Some \<lparr> fw_hash = fst (hist ! k), fw_at_ms = snd (hist ! k) \<rparr> else None))"

lemma behind_eq:
  assumes "j < n" "k < n"
  shows "behind n j k = (if k < j then j - Suc k else n + j - Suc k)"
proof (cases "k < j")
  case True
  then have "j + n - Suc k = (j - Suc k) + n" by simp
  then have "behind n j k = (j - Suc k) mod n" by (simp only: behind_def mod_add_self2)
  with True assms show ?thesis by simp
next
  case False
  with assms have "j + n - Suc k < n" by simp
  with False show ?thesis by (simp add: behind_def add.commute)
qed

lemma next_eq: "(j :: nat) < n \<Longrightarrow> (j + 1) mod n = (if j + 1 = n then 0 else j + 1)"
  by (cases "j + 1 = n") auto

lemma behind_less: "j < n \<Longrightarrow> behind n j k < n"
  by (simp add: behind_def)

lemma behind_next:
  assumes "j < n"
  shows "behind n ((j + 1) mod n) 0 = j" "Suc k < n \<Longrightarrow> behind n ((j + 1) mod n) (Suc k) = behind n j k"
    "Suc k < n \<Longrightarrow> behind n j k \<noteq> j"
  unfolding next_eq [OF assms] using assms by (auto simp: behind_eq)

lemma behind_onto:
  assumes "j < n" "i < n"
  shows "\<exists>k < n. behind n j k = i"
proof (cases "i < j")
  case True
  with assms show ?thesis by (intro exI [of _ "j - Suc i"]) (auto simp: behind_eq)
next
  case False
  with assms show ?thesis by (intro exI [of _ "n + j - Suc i"]) (auto simp: behind_eq)
qed

lemma ring_holds_new: "0 < n \<Longrightarrow> ring_holds n window [] (Ring_new n window)"
  by (simp add: ring_holds_def Ring_new_def behind_def)

lemma ring_seen:
  assumes "ring_holds n window hist r"
  shows "list_ex (\<lambda>e. case e of None \<Rightarrow> False | Some f \<Rightarrow> fw_hash f = h \<and> now - fw_at_ms f < ring_window_ms r)
           (ring_entries r) = dedup_seen n window h now hist"
proof -
  let ?P = "\<lambda>e. case e of None \<Rightarrow> False | Some f \<Rightarrow> fw_hash f = h \<and> now - fw_at_ms f < window"
  have r: "length (ring_entries r) = n" "ring_next r < n" "ring_window_ms r = window"
    and e: "\<And>k. k < n \<Longrightarrow> ring_entries r ! behind n (ring_next r) k =
      (if k < length hist then Some \<lparr> fw_hash = fst (hist ! k), fw_at_ms = snd (hist ! k) \<rparr> else None)"
    using assms by (auto simp: ring_holds_def)
  have "list_ex ?P (ring_entries r) \<longleftrightarrow> (\<exists>k < n. ?P (ring_entries r ! behind n (ring_next r) k))"
  proof
    assume "list_ex ?P (ring_entries r)"
    then obtain i where i: "i < n" "?P (ring_entries r ! i)" by (auto simp: list_ex_length r(1))
    then obtain k where "k < n" "behind n (ring_next r) k = i" using behind_onto [OF r(2)] by blast
    with i show "\<exists>k < n. ?P (ring_entries r ! behind n (ring_next r) k)" by blast
  next
    assume "\<exists>k < n. ?P (ring_entries r ! behind n (ring_next r) k)"
    then obtain k where "?P (ring_entries r ! behind n (ring_next r) k)" by blast
    then show "list_ex ?P (ring_entries r)"
      unfolding list_ex_length r(1) using behind_less [OF r(2)] by blast
  qed
  also have "\<dots> \<longleftrightarrow> (\<exists>k < n. k < length hist \<and> fst (hist ! k) = h \<and> now - snd (hist ! k) < window)"
    by (auto simp: e split: if_splits)
  also have "\<dots> \<longleftrightarrow> dedup_seen n window h now hist"
    by (auto simp: dedup_seen_def list_ex_length case_prod_beta)
  finally show ?thesis by (simp only: r(3))
qed

lemma ring_holds_push:
  assumes "ring_holds n window hist r"
  shows "ring_holds n window ((h, now) # hist)
    (r\<lparr> ring_entries := (ring_entries r)[ring_next r := Some \<lparr> fw_hash = h, fw_at_ms = now \<rparr>],
        ring_next := (ring_next r + 1) mod length (ring_entries r) \<rparr>)"
proof -
  have r: "length (ring_entries r) = n" "ring_next r < n" and e: "\<And>k. k < n \<Longrightarrow> ring_entries r ! behind n (ring_next r) k =
      (if k < length hist then Some \<lparr> fw_hash = fst (hist ! k), fw_at_ms = snd (hist ! k) \<rparr> else None)"
    using assms by (auto simp: ring_holds_def)
  have "(ring_entries r)[ring_next r := x] ! behind n ((ring_next r + 1) mod n) k =
      (if k = 0 then x else ring_entries r ! behind n (ring_next r) (k - 1))" if "k < n" for k x
    using behind_next [OF r(2)] that r by (cases k) (auto simp: nth_list_update dest: sym)
  with assms r e show ?thesis by (auto simp: ring_holds_def nth_Cons' simp del: mod_Suc)
qed

lemma ring_run_holds: "0 < n \<Longrightarrow> ring_holds n window (dedup_history hash_fn n window ps) (ring_run hash_fn n window ps)"
proof (induction ps)
  case (Cons x ps)
  obtain p now where x: "x = (p, now)" by (cases x)
  from Cons ring_seen [OF Cons.IH] ring_holds_push [OF Cons.IH] show ?case
    by (auto simp: x should_forward_def Let_def)
qed (simp add: ring_holds_new)

text \<open>C34: Duplicate suppression towards the client is exact over its memory. For a ring of any size and
  window, after any sequence of packets, the next packet is forwarded unless one of the last \<open>n\<close> forwarded packets has the
  same hash and was forwarded less than the window ago; and what is forwarded is remembered as just that.
  A copy that was not forwarded does not extend the suppression.\<close>

theorem dedup_exact:
  assumes "0 < n"
  shows "fst (should_forward hash_fn p now (ring_run hash_fn n window ps)) =
     (\<not> dedup_seen n window (hash_fn p) now (dedup_history hash_fn n window ps))"
  using ring_seen [OF ring_run_holds [OF assms]] by (simp add: should_forward_def Let_def)

theorem dedup_exact_witness:
  "\<not> fst (should_forward (\<lambda>p. length p) [1, 2] 1040 (ring_run (\<lambda>p. length p) NAK_RING_SIZE NAK_DEDUP_WINDOW_MS [([1, 2], 1000)])) \<and>
   fst (should_forward (\<lambda>p. length p) [1, 2] 1050 (ring_run (\<lambda>p. length p) NAK_RING_SIZE NAK_DEDUP_WINDOW_MS [([1, 2], 1000)]))"
  using dedup_exact [of NAK_RING_SIZE "\<lambda>p. length p" "[1, 2]" _ NAK_DEDUP_WINDOW_MS "[([1, 2], 1000)]"]
  by (simp add: NAK_RING_SIZE_def NAK_DEDUP_WINDOW_MS_def dedup_seen_def)

section \<open>Best-path override\<close>

abbreviation quality :: "SrtlaConnection \<Rightarrow> f64" where
  "quality c \<equiv> cq_multiplier (c_quality_cache c)"

abbreviation eligible_links :: "u64 \<Rightarrow> SrtlaConnection list \<Rightarrow> SrtlaConnection list" where
  "eligible_links now conns \<equiv> filter (override_eligible now) conns"

definition quality_candidate :: "u64 \<Rightarrow> SrtlaConnection \<Rightarrow> f64 option" where
  "quality_candidate now c = (if override_eligible now c then Some (quality c) else None)"

text \<open>All qualities equal the first one seen.\<close>

fun same_quality :: "f64 option \<Rightarrow> f64 list \<Rightarrow> bool" where
  "same_quality (Some f) qs = list_all (fl_eq f) qs"
| "same_quality None [] = True"
| "same_quality None (q # qs) = list_all (fl_eq q) qs"

lemma best_quality_loop_scan:
  "best_quality_loop now i bi bq fq ae n cs =
     (if n + length (eligible_links now cs) > 1 \<and> ae \<and> same_quality fq (map quality (eligible_links now cs)) then None
      else fst (scan_best fl_gt (quality_candidate now) i bi bq cs))"
proof (induction cs arbitrary: i bi bq fq ae n)
  case Nil
  then show ?case by (cases fq) simp_all
next
  case (Cons c cs)
  show ?case
  proof (cases "override_eligible now c")
    case True
    then have "quality_candidate now c = Some (quality c)" by (simp add: quality_candidate_def)
    with True show ?thesis by (cases fq; cases "fl_gt (quality c) bq") (auto simp: Cons.IH Let_def)
  next
    case False
    then have "quality_candidate now c = None" by (simp add: quality_candidate_def)
    with False show ?thesis by (simp add: Cons.IH)
  qed
qed

text \<open>The best-path override for keyframes and retransmissions is off in classic mode, and otherwise picks, among
  the connected, live links that the scheduler has neither gated nor excluded, one of highest quality, but
  only if there is something to choose: with two or more such links of equal quality, or with none
  of comparable quality, it declines and the scheduler decides.\<close>

theorem override_picks_best:
  "case select_best_path_override_idx now mode conns of
     Some i \<Rightarrow> \<not> is_classic mode \<and> i < length conns \<and> override_eligible now (conns ! i) \<and>
       list_all (\<lambda>c. \<not> fl_gt (quality c) (quality (conns ! i))) (eligible_links now conns) \<and>
       (length (eligible_links now conns) = 1 \<or>
        list_ex (\<lambda>c. \<not> fl_eq (quality (hd (eligible_links now conns))) (quality c)) (tl (eligible_links now conns)))
   | None \<Rightarrow> is_classic mode \<or>
       1 < length (eligible_links now conns) \<and>
         list_all (\<lambda>c. fl_eq (quality (hd (eligible_links now conns))) (quality c)) (tl (eligible_links now conns)) \<or>
       list_all (\<lambda>c. quality c = NaN \<or> quality c = NInf) (eligible_links now conns)"
proof (cases "is_classic mode")
  case True
  then show ?thesis by (simp add: select_best_path_override_idx_def)
next
  case False
  let ?E = "eligible_links now conns"
  obtain r s where rs: "scan_best fl_gt (quality_candidate now) 0 None NInf conns = (r, s)" by fastforce
  have same: "same_quality None (map quality ?E) = list_all (\<lambda>c. fl_eq (quality (hd ?E)) (quality c)) (tl ?E)"
    by (cases ?E) (simp_all add: list.pred_map comp_def)
  have sel: "select_best_path_override_idx now mode conns =
      (if 1 < length ?E \<and> list_all (\<lambda>c. fl_eq (quality (hd ?E)) (quality c)) (tl ?E) then None else r)"
    using False by (simp add: select_best_path_override_idx_def select_best_quality_idx_def best_quality_loop_scan rs same)
  have none: "quality c = NaN \<or> quality c = NInf" if "r = None" "c \<in> set ?E" for c
    using float_scan.scan_none [OF rs [unfolded that(1)], of c "quality c"] that(2)
    by (cases "quality c") (auto simp: quality_candidate_def)
  have some: "i < length conns \<and> override_eligible now (conns ! i) \<and> s = quality (conns ! i)" if "r = Some i" for i
    using float_scan.scan_result [OF rs] that by (auto simp: scan_found_def quality_candidate_def split: if_splits)
  have best: "\<not> fl_gt (quality c) s" if "c \<in> set ?E" for c
    using float_scan.scan_max [OF rs, of c "quality c"] that by (auto simp: quality_candidate_def)
  show ?thesis
  proof (cases r)
    case None
    then show ?thesis using none by (auto simp: sel list_all_iff)
  next
    case (Some i)
    have "?E \<noteq> []" using some [OF Some] by (auto simp: filter_empty_conv)
    then have "length ?E = 1 \<or> 1 < length ?E" by (cases ?E; cases "tl ?E") auto
    with Some some [OF Some] best False show ?thesis by (auto simp: sel list_all_iff list_ex_iff)
  qed
qed

end
