(* ===== verification/Registration.thy ===== *)
theory Registration
  imports Connection
begin

text \<open>
  The registration manager (\<^verbatim>\<open>crates/srtla-core/src/registration/mod.rs\<close> and \<^verbatim>\<open>probing.rs\<close>): REG1 to one
  uplink, adoption of the receiver's id from REG2, broadcast of REG2, one-shot REG3 grants, the
  round-trip probing that picks the first uplink, and the phase gates against forged REG3 and REG_ERR.
  Random bytes and the clock are arguments of the operations that draw them.
\<close>

datatype RegistrationEvent = RegNgp | Reg2 | Reg3 | RegErr

datatype ProbingState = NotStarted | Probing | WaitingForProbes | Complete

record ProbeResult =
  pr_conn_idx :: usize
  pr_probe_sent_ms :: u64
  pr_rtt_ms :: "u64 option"

record OutOfPhaseCounters =
  oop_reg3 :: u64
  oop_reg_err :: u64

record RegDriverSends =
  rs_reg1 :: "(usize \<times> bytes) option"
  rs_broadcast_reg2 :: "bytes option"

record SrtlaRegistrationManager =
  rm_srtla_id :: bytes
  rm_pending_reg2_idx :: "usize option"
  rm_pending_timeout_at_ms :: u64
  rm_active_connections :: usize
  rm_has_connected :: bool
  rm_broadcast_reg2_pending :: bool
  rm_reg1_target_idx :: "usize option"
  rm_reg1_next_send_at_ms :: u64
  rm_probing_state :: ProbingState
  rm_probe_id :: bytes
  rm_probe_results :: "ProbeResult list"
  rm_awaiting_reg3 :: "usize list"
  rm_connected_snapshot :: "bool list"
  rm_out_of_phase :: OutOfPhaseCounters

definition RegistrationManager_new :: "bytes \<Rightarrow> bytes \<Rightarrow> SrtlaRegistrationManager" where
  "RegistrationManager_new own_id probe_id =
     \<lparr> rm_srtla_id = own_id, rm_pending_reg2_idx = None, rm_pending_timeout_at_ms = 0, rm_active_connections = 0,
       rm_has_connected = False, rm_broadcast_reg2_pending = False, rm_reg1_target_idx = None,
       rm_reg1_next_send_at_ms = 0, rm_probing_state = NotStarted, rm_probe_id = probe_id,
       rm_probe_results = [], rm_awaiting_reg3 = [], rm_connected_snapshot = [],
       rm_out_of_phase = \<lparr> oop_reg3 = 0, oop_reg_err = 0 \<rparr> \<rparr>"

definition reset_for_rehome :: "bytes \<Rightarrow> bytes \<Rightarrow> SrtlaRegistrationManager \<Rightarrow> SrtlaRegistrationManager" where
  "reset_for_rehome half probe_id m =
     m\<lparr> rm_srtla_id := take (SRTLA_ID_LEN div 2) (rm_srtla_id m) @ half, rm_pending_reg2_idx := None,
        rm_pending_timeout_at_ms := 0, rm_active_connections := 0, rm_broadcast_reg2_pending := False,
        rm_reg1_target_idx := None, rm_reg1_next_send_at_ms := 0, rm_awaiting_reg3 := [],
        rm_connected_snapshot := [], rm_probing_state := NotStarted, rm_probe_id := probe_id,
        rm_probe_results := [] \<rparr>"

definition arm_reg3_grant :: "usize \<Rightarrow> SrtlaRegistrationManager \<Rightarrow> SrtlaRegistrationManager" where
  "arm_reg3_grant conn_idx m =
     (if conn_idx \<in> set (rm_awaiting_reg3 m) then m
      else m\<lparr> rm_awaiting_reg3 := rm_awaiting_reg3 m @ [conn_idx] \<rparr>)"

definition revoke_reg3_grant :: "usize \<Rightarrow> SrtlaRegistrationManager \<Rightarrow> SrtlaRegistrationManager" where
  "revoke_reg3_grant conn_idx m =
     m\<lparr> rm_awaiting_reg3 := filter (\<lambda>idx. idx \<noteq> conn_idx) (rm_awaiting_reg3 m) \<rparr>"

definition is_connected_snapshot :: "usize \<Rightarrow> SrtlaRegistrationManager \<Rightarrow> bool" where
  "is_connected_snapshot conn_idx m =
     (if conn_idx < length (rm_connected_snapshot m) then rm_connected_snapshot m ! conn_idx else False)"

definition build_reg1_for :: "usize \<Rightarrow> u64 \<Rightarrow> SrtlaRegistrationManager \<Rightarrow> bytes \<times> SrtlaRegistrationManager" where
  "build_reg1_for conn_idx now m =
     (create_reg1_packet (rm_srtla_id m),
      m\<lparr> rm_pending_reg2_idx := Some conn_idx, rm_reg1_target_idx := Some conn_idx,
         rm_pending_timeout_at_ms := u64_add now (REG2_TIMEOUT * 1000),
         rm_reg1_next_send_at_ms := u64_add now 1000 \<rparr>)"

definition build_reg2 :: "usize \<Rightarrow> SrtlaRegistrationManager \<Rightarrow> bytes \<times> SrtlaRegistrationManager" where
  "build_reg2 conn_idx m = (create_reg2_packet (rm_srtla_id m), arm_reg3_grant conn_idx m)"

section \<open>Probing\<close>

definition start_probing ::
  "SrtlaConnection list \<Rightarrow> u64 \<Rightarrow> SrtlaRegistrationManager \<Rightarrow>
   (usize \<times> bytes) list \<times> SrtlaConnection list \<times> SrtlaRegistrationManager"
where
  "start_probing conns now m =
     (if rm_probing_state m \<noteq> NotStarted \<or> rm_active_connections m > 0 then ([], conns, m)
      else
        let built = map (probe_reg2_packet (rm_probe_id m) now) conns;
            results = map (\<lambda>idx. \<lparr> pr_conn_idx = idx, pr_probe_sent_ms = now, pr_rtt_ms = None \<rparr>) [0..<length conns];
            m1 = m\<lparr> rm_probing_state := Probing, rm_probe_results := results \<rparr>
        in (zip [0..<length conns] (map fst built), map snd built,
            if results \<noteq> [] then
              m1\<lparr> rm_probing_state := WaitingForProbes, rm_pending_timeout_at_ms := u64_add now 2000 \<rparr>
            else m1\<lparr> rm_probing_state := Complete \<rparr>))"

fun answer_probe :: "usize \<Rightarrow> u64 \<Rightarrow> ProbeResult list \<Rightarrow> ProbeResult list" where
  "answer_probe conn_idx now [] = []"
| "answer_probe conn_idx now (r # rs) =
     (if pr_conn_idx r = conn_idx then
        (if pr_rtt_ms r = None then r\<lparr> pr_rtt_ms := Some (now - pr_probe_sent_ms r) \<rparr> else r) # rs
      else r # answer_probe conn_idx now rs)"

definition handle_probe_response :: "usize \<Rightarrow> u64 \<Rightarrow> SrtlaRegistrationManager \<Rightarrow> SrtlaRegistrationManager" where
  "handle_probe_response conn_idx now m =
     (if rm_probing_state m \<noteq> WaitingForProbes then m
      else m\<lparr> rm_probe_results := answer_probe conn_idx now (rm_probe_results m) \<rparr>)"

text \<open>\<^verbatim>\<open>min_by_key\<close> over the answered probes: the first of the smallest round trips.\<close>

fun best_probe :: "ProbeResult list \<Rightarrow> (usize \<times> u64) option" where
  "best_probe [] = None"
| "best_probe (r # rs) =
     (case pr_rtt_ms r of
        None \<Rightarrow> best_probe rs
      | Some t \<Rightarrow> (case best_probe rs of
                   None \<Rightarrow> Some (pr_conn_idx r, t)
                 | Some (i, u) \<Rightarrow> if u < t then Some (i, u) else Some (pr_conn_idx r, t)))"

definition check_probing_complete :: "u64 \<Rightarrow> SrtlaRegistrationManager \<Rightarrow> bool \<times> SrtlaRegistrationManager" where
  "check_probing_complete now m =
     (if rm_probing_state m \<noteq> WaitingForProbes then (False, m)
      else
        let all_responded = list_all (\<lambda>r. pr_rtt_ms r \<noteq> None) (rm_probe_results m);
            timed_out = (now \<ge> rm_pending_timeout_at_ms m)
        in if all_responded \<or> timed_out then
             (True, m\<lparr> rm_reg1_target_idx := (case best_probe (rm_probe_results m) of
                                                Some (idx, _) \<Rightarrow> Some idx | None \<Rightarrow> Some 0),
                      rm_reg1_next_send_at_ms := now, rm_probing_state := Complete,
                      rm_pending_timeout_at_ms := 0 \<rparr>)
           else (False, m))"

definition is_probing :: "SrtlaRegistrationManager \<Rightarrow> bool" where
  "is_probing m \<longleftrightarrow> rm_probing_state m = Probing \<or> rm_probing_state m = WaitingForProbes"

section \<open>Inbound registration packets\<close>

definition handle_reg_ngp :: "usize \<Rightarrow> u64 \<Rightarrow> SrtlaRegistrationManager \<Rightarrow> SrtlaRegistrationManager" where
  "handle_reg_ngp conn_idx now_ms m =
     (if rm_probing_state m = WaitingForProbes then handle_probe_response conn_idx now_ms m
      else if rm_active_connections m = 0 \<and> rm_pending_reg2_idx m = None then
        m\<lparr> rm_reg1_target_idx := Some conn_idx, rm_reg1_next_send_at_ms := now_ms \<rparr>
      else m)"

definition handle_reg2 :: "usize \<Rightarrow> bytes \<Rightarrow> u64 \<Rightarrow> SrtlaRegistrationManager \<Rightarrow> SrtlaRegistrationManager" where
  "handle_reg2 conn_idx buf now_ms m =
     (if length buf < 2 + SRTLA_ID_LEN then m
      else if rm_pending_reg2_idx m = Some conn_idx then
        m\<lparr> rm_srtla_id := slice buf 2 SRTLA_ID_LEN, rm_pending_reg2_idx := None,
           rm_pending_timeout_at_ms := u64_add now_ms (REG3_TIMEOUT * 1000),
           rm_broadcast_reg2_pending := True, rm_reg1_target_idx := None, rm_reg1_next_send_at_ms := 0 \<rparr>
      else m)"

definition handle_reg3 :: "usize \<Rightarrow> SrtlaRegistrationManager \<Rightarrow> bool \<times> SrtlaRegistrationManager" where
  "handle_reg3 conn_idx m =
     (if conn_idx \<notin> set (rm_awaiting_reg3 m) then
        (False, m\<lparr> rm_out_of_phase := (rm_out_of_phase m)
                     \<lparr> oop_reg3 := u64_saturating_add (oop_reg3 (rm_out_of_phase m)) 1 \<rparr> \<rparr>)
      else (True, (revoke_reg3_grant conn_idx m)\<lparr> rm_has_connected := True \<rparr>))"

definition handle_reg_err :: "usize \<Rightarrow> u64 \<Rightarrow> SrtlaRegistrationManager \<Rightarrow> bool \<times> SrtlaRegistrationManager" where
  "handle_reg_err conn_idx now_ms m =
     (let awaiting_reg2 = (rm_pending_reg2_idx m = Some conn_idx);
          awaiting_reg3 = (conn_idx \<in> set (rm_awaiting_reg3 m))
      in if \<not> awaiting_reg2 \<and> \<not> awaiting_reg3 then
           (False, m\<lparr> rm_out_of_phase := (rm_out_of_phase m)
                        \<lparr> oop_reg_err := u64_saturating_add (oop_reg_err (rm_out_of_phase m)) 1 \<rparr> \<rparr>)
         else
           let m1 = (if awaiting_reg2 then
                       m\<lparr> rm_pending_reg2_idx := None, rm_pending_timeout_at_ms := 0, rm_reg1_target_idx := None,
                          rm_reg1_next_send_at_ms := u64_add now_ms (REG2_TIMEOUT * 1000) \<rparr>
                     else m)
           in (True, revoke_reg3_grant conn_idx m1))"

definition process_registration_packet ::
  "usize \<Rightarrow> bytes \<Rightarrow> u64 \<Rightarrow> SrtlaRegistrationManager \<Rightarrow> RegistrationEvent option \<times> SrtlaRegistrationManager"
where
  "process_registration_packet conn_idx buf now_ms m =
     (case get_packet_type buf of
        None \<Rightarrow> (None, m)
      | Some t \<Rightarrow>
          if t = SRTLA_TYPE_REG_NGP then (Some RegNgp, handle_reg_ngp conn_idx now_ms m)
          else if t = SRTLA_TYPE_REG2 then (Some Reg2, handle_reg2 conn_idx buf now_ms m)
          else if t = SRTLA_TYPE_REG3 then
            (case handle_reg3 conn_idx m of (ok, m') \<Rightarrow> (if ok then Some Reg3 else None, m'))
          else if t = SRTLA_TYPE_REG_ERR then
            (case handle_reg_err conn_idx now_ms m of (ok, m') \<Rightarrow> (if ok then Some RegErr else None, m'))
          else (None, m))"

section \<open>Driver\<close>

definition broadcast_arm :: "usize \<Rightarrow> SrtlaRegistrationManager \<Rightarrow> SrtlaRegistrationManager" where
  "broadcast_arm connection_count m =
     fold (\<lambda>idx m. if is_connected_snapshot idx m then m else arm_reg3_grant idx m) [0..<connection_count] m"

definition driver_reg1 ::
  "u64 \<Rightarrow> SrtlaRegistrationManager \<Rightarrow> (usize \<times> bytes) option \<times> SrtlaRegistrationManager"
where
  "driver_reg1 now m =
     (if rm_active_connections m = 0 then
        (case rm_reg1_target_idx m of
           Some idx \<Rightarrow>
             if rm_pending_reg2_idx m = None \<and> now \<ge> rm_reg1_next_send_at_ms m then
               (Some (idx, create_reg1_packet (rm_srtla_id m)),
                m\<lparr> rm_pending_reg2_idx := Some idx,
                   rm_pending_timeout_at_ms := u64_add now (REG2_TIMEOUT * 1000),
                   rm_reg1_next_send_at_ms := u64_add now (REG2_TIMEOUT * 1000) \<rparr>)
             else (None, m)
         | None \<Rightarrow> (None, m))
      else (None, m))"

definition reg_driver_pending_sends ::
  "usize \<Rightarrow> u64 \<Rightarrow> SrtlaRegistrationManager \<Rightarrow> RegDriverSends \<times> SrtlaRegistrationManager"
where
  "reg_driver_pending_sends connection_count now m =
     (let (reg1, m1) = driver_reg1 now m in
      if rm_broadcast_reg2_pending m1 then
        (\<lparr> rs_reg1 = reg1, rs_broadcast_reg2 = Some (create_reg2_packet (rm_srtla_id m1)) \<rparr>,
         (broadcast_arm connection_count m1)\<lparr> rm_broadcast_reg2_pending := False \<rparr>)
      else (\<lparr> rs_reg1 = reg1, rs_broadcast_reg2 = None \<rparr>, m1))"

definition reg1_if_ngp_immediate ::
  "usize \<Rightarrow> u64 \<Rightarrow> SrtlaRegistrationManager \<Rightarrow> bytes option \<times> SrtlaRegistrationManager"
where
  "reg1_if_ngp_immediate conn_idx now m =
     (if rm_active_connections m = 0 \<and> rm_pending_reg2_idx m = None \<and>
         rm_reg1_target_idx m = Some conn_idx \<and> now \<ge> rm_reg1_next_send_at_ms m
      then (case build_reg1_for conn_idx now m of (pkt, m') \<Rightarrow> (Some pkt, m'))
      else (None, m))"

definition update_active_connections :: "SrtlaConnection list \<Rightarrow> SrtlaRegistrationManager \<Rightarrow> SrtlaRegistrationManager" where
  "update_active_connections conns m =
     m\<lparr> rm_active_connections := length (filter c_connected conns),
        rm_connected_snapshot := map c_connected conns \<rparr>"

definition clear_pending_if_timed_out :: "u64 \<Rightarrow> SrtlaRegistrationManager \<Rightarrow> usize option \<times> SrtlaRegistrationManager" where
  "clear_pending_if_timed_out now_ms_value m =
     (case rm_pending_reg2_idx m of
        None \<Rightarrow> (None, m)
      | Some idx \<Rightarrow>
          if rm_pending_timeout_at_ms m \<noteq> 0 \<and> now_ms_value \<ge> rm_pending_timeout_at_ms m then
            (Some idx, m\<lparr> rm_pending_reg2_idx := None, rm_pending_timeout_at_ms := 0, rm_reg1_target_idx := None,
                          rm_reg1_next_send_at_ms := now_ms_value \<rparr>)
          else (None, m))"


section \<open>Grants are one-shot\<close>

lemma handle_reg3_grant:
  "handle_reg3 i m = (ok, m') \<Longrightarrow> set (rm_awaiting_reg3 m') = set (rm_awaiting_reg3 m) - {i} \<and>
     ok = (i \<in> set (rm_awaiting_reg3 m))"
  by (auto simp: handle_reg3_def revoke_reg3_grant_def split: if_splits)

lemma handle_reg_err_grant:
  "handle_reg_err i now m = (ok, m') \<Longrightarrow> set (rm_awaiting_reg3 m') = set (rm_awaiting_reg3 m) - {i}"
  by (auto simp: handle_reg_err_def revoke_reg3_grant_def Let_def split: if_splits)

lemma inbound_frame_grants [simp]:
  "rm_awaiting_reg3 (handle_reg_ngp i now m) = rm_awaiting_reg3 m"
  "rm_awaiting_reg3 (handle_reg2 i buf now m) = rm_awaiting_reg3 m"
  by (simp_all add: handle_reg_ngp_def handle_reg2_def handle_probe_response_def)

definition is_reg3_frame :: "usize \<times> bytes \<times> u64 \<Rightarrow> bool" where
  "is_reg3_frame f \<longleftrightarrow> get_packet_type (fst (snd f)) = Some SRTLA_TYPE_REG3"

text \<open>The frames on uplink \<open>i\<close> that use up a grant: a REG3 accepts it, a REG_ERR voids it.\<close>

definition ends_grant :: "usize \<Rightarrow> usize \<times> bytes \<times> u64 \<Rightarrow> bool" where
  "ends_grant i f \<longleftrightarrow> fst f = i \<and> (is_reg3_frame f \<or> get_packet_type (fst (snd f)) = Some SRTLA_TYPE_REG_ERR)"

lemma process_frame:
  assumes "process_registration_packet i buf now m = (ev, m')"
  shows "j \<in> set (rm_awaiting_reg3 m') \<longleftrightarrow> j \<in> set (rm_awaiting_reg3 m) \<and> \<not> ends_grant j (i, buf, now)"
    and "ev = Some Reg3 \<longleftrightarrow> is_reg3_frame (i, buf, now) \<and> i \<in> set (rm_awaiting_reg3 m)"
    and "rm_has_connected m' \<longleftrightarrow> rm_has_connected m \<or> ev = Some Reg3"
    and "oop_reg3 (rm_out_of_phase m') = (if is_reg3_frame (i, buf, now) \<and> ev \<noteq> Some Reg3
           then u64_saturating_add (oop_reg3 (rm_out_of_phase m)) 1 else oop_reg3 (rm_out_of_phase m))"
  using assms
  by (auto simp: process_registration_packet_def is_reg3_frame_def ends_grant_def handle_reg3_def handle_reg_err_def
      handle_reg_ngp_def handle_reg2_def handle_probe_response_def
      revoke_reg3_grant_def protocol_consts Let_def split: option.splits if_splits)

text \<open>What a series of inbound frames, each with the uplink it arrived on, makes the manager report.\<close>

fun inbound_run ::
  "SrtlaRegistrationManager \<Rightarrow> (usize \<times> bytes \<times> u64) list \<Rightarrow>
   (usize \<times> RegistrationEvent option) list \<times> SrtlaRegistrationManager"
where
  "inbound_run m [] = ([], m)"
| "inbound_run m ((i, buf, now) # fs) =
     (case process_registration_packet i buf now m of
        (ev, m') \<Rightarrow> (case inbound_run m' fs of (evs, m'') \<Rightarrow> ((i, ev) # evs, m'')))"

lemma inbound_run_Cons:
  assumes "process_registration_packet i buf now m = (ev, m')"
  shows "inbound_run m ((i, buf, now) # fs) = ((i, ev) # fst (inbound_run m' fs), snd (inbound_run m' fs))"
  by (simp add: assms split: prod.splits)

lemma inbound_grants:
  "i \<in> set (rm_awaiting_reg3 (snd (inbound_run m fs))) \<longleftrightarrow>
     i \<in> set (rm_awaiting_reg3 m) \<and> find (ends_grant i) fs = None"
proof (induction fs arbitrary: m)
  case (Cons f fs)
  obtain j buf now ev m' where f: "f = (j, buf, now)" and p: "process_registration_packet j buf now m = (ev, m')"
    by (metis prod_cases3 surj_pair)
  show ?case unfolding f inbound_run_Cons [OF p] by (simp add: Cons process_frame(1) [OF p, of i])
qed simp

lemma inbound_reg3_count:
  "count_list (fst (inbound_run m fs)) (i, Some Reg3) =
     (if i \<in> set (rm_awaiting_reg3 m) \<and> (case find (ends_grant i) fs of None \<Rightarrow> False | Some f \<Rightarrow> is_reg3_frame f) then 1 else 0)"
proof (induction fs arbitrary: m)
  case (Cons f fs)
  obtain j buf now ev m' where f: "f = (j, buf, now)" and p: "process_registration_packet j buf now m = (ev, m')"
    by (metis prod_cases3 surj_pair)
  show ?case
    unfolding f inbound_run_Cons [OF p]
    by (auto simp: Cons process_frame(1,2) [OF p] ends_grant_def split: option.split)
qed simp

lemma inbound_connected:
  "rm_has_connected (snd (inbound_run m fs)) \<longleftrightarrow>
     rm_has_connected m \<or> (\<exists>i. (i, Some Reg3) \<in> set (fst (inbound_run m fs)))"
proof (induction fs arbitrary: m)
  case (Cons f fs)
  obtain j buf now ev m' where f: "f = (j, buf, now)" and p: "process_registration_packet j buf now m = (ev, m')"
    by (metis prod_cases3 surj_pair)
  show ?case unfolding f inbound_run_Cons [OF p] by (auto simp: Cons process_frame(3) [OF p])
qed simp

text \<open>The refused REG3 frames of a run: all REG3 frames but the reported ones.\<close>

definition refused_reg3 :: "SrtlaRegistrationManager \<Rightarrow> (usize \<times> bytes \<times> u64) list \<Rightarrow> nat" where
  "refused_reg3 m fs = length (filter (\<lambda>(f, (i, ev)). is_reg3_frame f \<and> ev \<noteq> Some Reg3) (zip fs (fst (inbound_run m fs))))"

lemma inbound_counter:
  "oop_reg3 (rm_out_of_phase (snd (inbound_run m fs))) =
     ((\<lambda>n. u64_saturating_add n 1) ^^ refused_reg3 m fs) (oop_reg3 (rm_out_of_phase m))"
proof (induction fs arbitrary: m)
  case Nil
  then show ?case by (simp add: refused_reg3_def)
next
  case (Cons f fs)
  obtain j buf now ev m' where f: "f = (j, buf, now)" and p: "process_registration_packet j buf now m = (ev, m')"
    by (metis prod_cases3 surj_pair)
  have "refused_reg3 m (f # fs) = (if is_reg3_frame f \<and> ev \<noteq> Some Reg3 then Suc (refused_reg3 m' fs) else refused_reg3 m' fs)"
    unfolding f refused_reg3_def inbound_run_Cons [OF p] by simp
  then show ?case unfolding f inbound_run_Cons [OF p] using funpow_swap1 [of "\<lambda>n. u64_saturating_add n 1" "refused_reg3 m' fs"]
    by (simp add: Cons process_frame(4) [OF p] del: One_nat_def)
qed

lemma process_reg3:
  assumes "get_packet_type buf = Some SRTLA_TYPE_REG3"
  shows "process_registration_packet i buf now m =
    (if i \<in> set (rm_awaiting_reg3 m)
     then (Some Reg3, m\<lparr> rm_awaiting_reg3 := filter (\<lambda>j. j \<noteq> i) (rm_awaiting_reg3 m), rm_has_connected := True \<rparr>)
     else (None, m\<lparr> rm_out_of_phase := (rm_out_of_phase m)
                    \<lparr> oop_reg3 := u64_saturating_add (oop_reg3 (rm_out_of_phase m)) 1 \<rparr> \<rparr>))"
  using assms by (simp add: process_registration_packet_def handle_reg3_def revoke_reg3_grant_def protocol_consts)

text \<open>C10: A grant admits one REG3. A REG3 on an uplink that holds a grant is reported as a completed registration: it removes
  that grant, sets the connected mark and changes nothing else. A REG3 on an uplink without a grant is refused: no event, and nothing changes but the
  saturating counter of such frames. Over any series of frames on the uplinks, in whatever order and however often
  replayed or forged: an uplink reports a completed registration exactly once if it held a grant and the first
  REG3 or REG_ERR on it is a REG3, and never otherwise; it holds a grant at the end exactly if it held one before and no
  such frame came on it (inbound frames never arm one); the connected mark is set by reported registrations only; and
  the counter has been raised once for each refused REG3.\<close>

theorem reg3_one_shot:
  "(get_packet_type buf = Some SRTLA_TYPE_REG3 \<longrightarrow>
      process_registration_packet i buf now m =
        (if i \<in> set (rm_awaiting_reg3 m)
         then (Some Reg3, m\<lparr> rm_awaiting_reg3 := filter (\<lambda>j. j \<noteq> i) (rm_awaiting_reg3 m), rm_has_connected := True \<rparr>)
         else (None, m\<lparr> rm_out_of_phase := (rm_out_of_phase m)
                        \<lparr> oop_reg3 := u64_saturating_add (oop_reg3 (rm_out_of_phase m)) 1 \<rparr> \<rparr>))) \<and>
   (case inbound_run m fs of (evs, m') \<Rightarrow>
      count_list evs (i, Some Reg3) =
        (if i \<in> set (rm_awaiting_reg3 m) \<and> (case find (ends_grant i) fs of None \<Rightarrow> False | Some f \<Rightarrow> is_reg3_frame f) then 1 else 0) \<and>
      (i \<in> set (rm_awaiting_reg3 m') \<longleftrightarrow> i \<in> set (rm_awaiting_reg3 m) \<and> find (ends_grant i) fs = None) \<and>
      (rm_has_connected m' \<longleftrightarrow> rm_has_connected m \<or> (\<exists>j. (j, Some Reg3) \<in> set evs)) \<and>
      oop_reg3 (rm_out_of_phase m') = ((\<lambda>n. u64_saturating_add n 1) ^^ refused_reg3 m fs) (oop_reg3 (rm_out_of_phase m)))"
  using process_reg3 [of buf i now m] inbound_reg3_count [of m fs i] inbound_grants [of i m fs]
    inbound_connected [of m fs] inbound_counter [of m fs]
  by (simp add: case_prod_beta)

definition forged_reg3 :: bytes where
  "forged_reg3 = to_be 2 SRTLA_TYPE_REG3"

lemma forged_reg3_type: "get_packet_type forged_reg3 = Some SRTLA_TYPE_REG3"
  using get_packet_type_to_be [of SRTLA_TYPE_REG3 "[]"] by (simp only: forged_reg3_def append_Nil2)

text \<open>A REG3 on the uplink with the grant, a replay of it and one on another uplink: one registration.\<close>

theorem reg3_one_shot_witness:
  "count_list (fst (inbound_run ((RegistrationManager_new [] [])\<lparr> rm_awaiting_reg3 := [1] \<rparr>)
     [(1, forged_reg3, 5), (1, forged_reg3, 6), (0, forged_reg3, 7)])) (1, Some Reg3) = 1 \<and>
   process_registration_packet 0 forged_reg3 4 ((RegistrationManager_new [] [])\<lparr> rm_awaiting_reg3 := [1] \<rparr>) =
     (None, ((RegistrationManager_new [] [])\<lparr> rm_awaiting_reg3 := [1], rm_out_of_phase := \<lparr> oop_reg3 = 1, oop_reg_err = 0 \<rparr> \<rparr>))"
  using reg3_one_shot [of forged_reg3 0 4 "(RegistrationManager_new [] [])\<lparr> rm_awaiting_reg3 := [1] \<rparr>" "[]"]
    reg3_one_shot [of forged_reg3 1 4 "(RegistrationManager_new [] [])\<lparr> rm_awaiting_reg3 := [1] \<rparr>"
      "[(1, forged_reg3, 5), (1, forged_reg3, 6), (0, forged_reg3, 7)]"]
  by (simp add: forged_reg3_type is_reg3_frame_def ends_grant_def RegistrationManager_new_def u64_saturating_add_def case_prod_beta)

text \<open>Out-of-phase frames. A REG3 on an uplink that awaits none, and a REG_ERR on an uplink
  with no handshake in flight, are reported as no event and change nothing but the counter of such frames; and
  a REG_ERR that is in phase never touches the handshake of another uplink: neither
  its grant nor, if the REG1 slot belongs to another uplink, any of the REG1 and REG2 state.\<close>

theorem out_of_phase_no_effect:
  assumes "get_packet_type buf = Some t" "process_registration_packet i buf now m = (ev, m')"
  shows "(t = SRTLA_TYPE_REG3 \<and> i \<notin> set (rm_awaiting_reg3 m) \<or>
          t = SRTLA_TYPE_REG_ERR \<and> i \<notin> set (rm_awaiting_reg3 m) \<and> rm_pending_reg2_idx m \<noteq> Some i \<longrightarrow>
            ev = None \<and> m'\<lparr> rm_out_of_phase := rm_out_of_phase m \<rparr> = m) \<and>
         (t = SRTLA_TYPE_REG_ERR \<longrightarrow>
            set (rm_awaiting_reg3 m') = set (rm_awaiting_reg3 m) - {i} \<and>
            (rm_pending_reg2_idx m \<noteq> Some i \<longrightarrow>
               rm_pending_reg2_idx m' = rm_pending_reg2_idx m \<and> rm_reg1_target_idx m' = rm_reg1_target_idx m \<and>
               rm_reg1_next_send_at_ms m' = rm_reg1_next_send_at_ms m \<and>
               rm_pending_timeout_at_ms m' = rm_pending_timeout_at_ms m))"
  using assms
  by (auto simp: process_registration_packet_def handle_reg3_def handle_reg_err_def revoke_reg3_grant_def
      protocol_consts Let_def split: if_splits)

definition forged_reg_err :: bytes where
  "forged_reg_err = to_be 2 SRTLA_TYPE_REG_ERR"

lemma forged_reg_err_type: "get_packet_type forged_reg_err = Some SRTLA_TYPE_REG_ERR"
  using get_packet_type_to_be [of SRTLA_TYPE_REG_ERR "[]"] by (simp only: forged_reg_err_def append_Nil2)

theorem out_of_phase_no_effect_witness:
  "fst (process_registration_packet 3 forged_reg_err 50
     ((RegistrationManager_new [] [])\<lparr> rm_pending_reg2_idx := Some 1 \<rparr>)) = None"
  using out_of_phase_no_effect [OF forged_reg_err_type prod.collapse [symmetric],
      of 3 "(RegistrationManager_new [] [])\<lparr> rm_pending_reg2_idx := Some 1 \<rparr>" 50]
  by (simp add: RegistrationManager_new_def)

section \<open>Broadcast\<close>

lemma arm_grant_set: "set (rm_awaiting_reg3 (arm_reg3_grant i m)) = insert i (set (rm_awaiting_reg3 m))"
  by (auto simp: arm_reg3_grant_def)

lemma arm_grant_frame [simp]:
  "rm_connected_snapshot (arm_reg3_grant i m) = rm_connected_snapshot m"
  "rm_srtla_id (arm_reg3_grant i m) = rm_srtla_id m"
  "distinct (rm_awaiting_reg3 m) \<Longrightarrow> distinct (rm_awaiting_reg3 (arm_reg3_grant i m))"
  by (auto simp: arm_reg3_grant_def)

lemma broadcast_arm_Suc:
  "broadcast_arm (Suc n) m =
     (let m' = broadcast_arm n m in if is_connected_snapshot n m' then m' else arm_reg3_grant n m')"
  by (simp add: broadcast_arm_def Let_def)

lemma broadcast_arm_frame [simp]:
  "rm_connected_snapshot (broadcast_arm n m) = rm_connected_snapshot m"
  "rm_srtla_id (broadcast_arm n m) = rm_srtla_id m"
  "distinct (rm_awaiting_reg3 m) \<Longrightarrow> distinct (rm_awaiting_reg3 (broadcast_arm n m))"
  by (induction n) (simp_all add: broadcast_arm_Suc Let_def, simp_all add: broadcast_arm_def)

lemma broadcast_arm_set:
  "set (rm_awaiting_reg3 (broadcast_arm n m)) =
     set (rm_awaiting_reg3 m) \<union> {i. i < n \<and> \<not> is_connected_snapshot i m}"
proof (induction n)
  case 0
  then show ?case by (simp add: broadcast_arm_def)
next
  case (Suc n)
  have "is_connected_snapshot n (broadcast_arm n m) = is_connected_snapshot n m"
    by (simp add: is_connected_snapshot_def)
  with Suc show ?case by (auto simp: broadcast_arm_Suc Let_def arm_grant_set less_Suc_eq)
qed


lemma update_active_frame [simp]:
  "rm_awaiting_reg3 (update_active_connections conns m) = rm_awaiting_reg3 m"
  "rm_srtla_id (update_active_connections conns m) = rm_srtla_id m"
  "rm_connected_snapshot (update_active_connections conns m) = map c_connected conns"
  "rm_broadcast_reg2_pending (update_active_connections conns m) = rm_broadcast_reg2_pending m"
  by (simp_all add: update_active_connections_def)

lemma driver_reg1_frame:
  "driver_reg1 now m = (r, m') \<Longrightarrow> rm_awaiting_reg3 m' = rm_awaiting_reg3 m"
  "driver_reg1 now m = (r, m') \<Longrightarrow> rm_srtla_id m' = rm_srtla_id m"
  "driver_reg1 now m = (r, m') \<Longrightarrow> rm_connected_snapshot m' = rm_connected_snapshot m"
  "driver_reg1 now m = (r, m') \<Longrightarrow> rm_broadcast_reg2_pending m' = rm_broadcast_reg2_pending m"
  by (auto simp: driver_reg1_def split: if_splits option.splits)

text \<open>A REG2 broadcast never re-opens the grant of a connected uplink. After the manager has seen the connection
  flags, a driver tick arms grants for uplinks that are not connected only, and when a broadcast is due
  it arms every uplink that is not connected, clears the flag and sends the adopted id.\<close>

theorem broadcast_spares_connected:
  assumes "reg_driver_pending_sends (length conns) now (update_active_connections conns m) = (sends, m')"
  shows "set (rm_awaiting_reg3 m') =
           set (rm_awaiting_reg3 m) \<union>
           (if rm_broadcast_reg2_pending m then {i. i < length conns \<and> \<not> c_connected (conns ! i)} else {}) \<and>
         \<not> rm_broadcast_reg2_pending m' \<and>
         rs_broadcast_reg2 sends =
           (if rm_broadcast_reg2_pending m then Some (create_reg2_packet (rm_srtla_id m)) else None)"
proof -
  obtain r1 m1 where m1: "driver_reg1 now (update_active_connections conns m) = (r1, m1)" by fastforce
  note fr = driver_reg1_frame [OF m1, simplified]
  have idle: "{i. i < length conns \<and> \<not> is_connected_snapshot i m1} = {i. i < length conns \<and> \<not> c_connected (conns ! i)}"
    by (auto simp: is_connected_snapshot_def fr)
  show ?thesis
  proof (cases "rm_broadcast_reg2_pending m")
    case True
    then have "sends = \<lparr> rs_reg1 = r1, rs_broadcast_reg2 = Some (create_reg2_packet (rm_srtla_id m)) \<rparr>"
      "m' = (broadcast_arm (length conns) m1)\<lparr> rm_broadcast_reg2_pending := False \<rparr>"
      using assms by (simp_all add: reg_driver_pending_sends_def m1 fr)
    with True show ?thesis by (simp add: broadcast_arm_set fr idle)
  next
    case False
    then have "sends = \<lparr> rs_reg1 = r1, rs_broadcast_reg2 = None \<rparr>" "m' = m1"
      using assms by (simp_all add: reg_driver_pending_sends_def m1 fr)
    with False show ?thesis by (simp add: fr)
  qed
qed

text \<open>One connected uplink while a broadcast is due.\<close>

definition live_uplink :: SrtlaConnection where
  "live_uplink = (new_registering 1 ''eth0'' (V4 1) 0)\<lparr> c_connected := True \<rparr>"

definition broadcasting :: SrtlaRegistrationManager where
  "broadcasting = (RegistrationManager_new [] [])\<lparr> rm_broadcast_reg2_pending := True \<rparr>"

theorem broadcast_spares_connected_witness:
  "set (rm_awaiting_reg3 (snd (reg_driver_pending_sends (length [live_uplink]) 9
     (update_active_connections [live_uplink] broadcasting)))) = {}"
proof -
  have "c_connected live_uplink" "rm_awaiting_reg3 broadcasting = []"
    by (simp_all add: live_uplink_def broadcasting_def RegistrationManager_new_def)
  moreover from this(1) have "{i. i < length [live_uplink] \<and> \<not> c_connected ([live_uplink] ! i)} = {}"
    by (auto intro: ccontr)
  ultimately show ?thesis
    using broadcast_spares_connected [OF prod.collapse [symmetric], of "[live_uplink]" 9 broadcasting]
    by simp
qed

section \<open>Probing picks the fastest uplink\<close>

lemma best_probe_spec:
  "case best_probe rs of
     None \<Rightarrow> list_all (\<lambda>r. pr_rtt_ms r = None) rs
   | Some (i, t) \<Rightarrow> (\<exists>r \<in> set rs. pr_conn_idx r = i \<and> pr_rtt_ms r = Some t) \<and>
       list_all (\<lambda>r. case pr_rtt_ms r of None \<Rightarrow> True | Some u \<Rightarrow> t \<le> u) rs"
  by (induction rs) (auto simp: list_all_iff split: option.splits if_splits)

text \<open>Probing ends, and with the fastest uplink. Once the two-second deadline has passed, or
  every uplink has answered, the check completes and makes the uplink with the smallest measured
  round trip the target of REG1, due at once; with no answer at all the first uplink is taken. Before
  that it leaves the manager alone.\<close>

theorem probing_selects_fastest:
  assumes "rm_probing_state m = WaitingForProbes"
  shows "if now < rm_pending_timeout_at_ms m \<and> \<not> list_all (\<lambda>r. pr_rtt_ms r \<noteq> None) (rm_probe_results m)
         then check_probing_complete now m = (False, m)
         else fst (check_probing_complete now m) \<and>
              rm_probing_state (snd (check_probing_complete now m)) = Complete \<and>
              rm_reg1_next_send_at_ms (snd (check_probing_complete now m)) = now \<and>
              (\<exists>i. rm_reg1_target_idx (snd (check_probing_complete now m)) = Some i \<and>
                 (if list_all (\<lambda>r. pr_rtt_ms r = None) (rm_probe_results m) then i = 0
                  else \<exists>r \<in> set (rm_probe_results m). pr_conn_idx r = i \<and>
                         (\<exists>t. pr_rtt_ms r = Some t \<and>
                            list_all (\<lambda>r. case pr_rtt_ms r of None \<Rightarrow> True | Some u \<Rightarrow> t \<le> u) (rm_probe_results m))))"
proof (cases "best_probe (rm_probe_results m)")
  case None
  with assms best_probe_spec [of "rm_probe_results m"] show ?thesis
    by (auto simp: check_probing_complete_def Let_def)
next
  case (Some it)
  obtain i t where it: "it = (i, t)" by (cases it)
  with Some best_probe_spec [of "rm_probe_results m"] obtain r where r: "r \<in> set (rm_probe_results m)"
    "pr_conn_idx r = i" "pr_rtt_ms r = Some t"
    "list_all (\<lambda>r. case pr_rtt_ms r of None \<Rightarrow> True | Some u \<Rightarrow> t \<le> u) (rm_probe_results m)" by auto
  then have "\<not> list_all (\<lambda>r. pr_rtt_ms r = None) (rm_probe_results m)" by (auto simp: list_all_iff)
  with assms Some it r show ?thesis by (auto simp: check_probing_complete_def Let_def)
qed

theorem probing_selects_fastest_witness:
  "rm_reg1_target_idx (snd (check_probing_complete 100 ((RegistrationManager_new [] [])
     \<lparr> rm_probing_state := WaitingForProbes, rm_pending_timeout_at_ms := 2000, rm_probe_results :=
        [\<lparr> pr_conn_idx = 0, pr_probe_sent_ms = 0, pr_rtt_ms = Some 90 \<rparr>,
         \<lparr> pr_conn_idx = 1, pr_probe_sent_ms = 0, pr_rtt_ms = Some 40 \<rparr>] \<rparr>))) = Some 1"
  using probing_selects_fastest [of "(RegistrationManager_new [] [])
     \<lparr> rm_probing_state := WaitingForProbes, rm_pending_timeout_at_ms := 2000, rm_probe_results :=
        [\<lparr> pr_conn_idx = 0, pr_probe_sent_ms = 0, pr_rtt_ms = Some 90 \<rparr>,
         \<lparr> pr_conn_idx = 1, pr_probe_sent_ms = 0, pr_rtt_ms = Some 40 \<rparr>] \<rparr>" 100]
  by (simp add: RegistrationManager_new_def check_probing_complete_def)


section \<open>The handshake completes\<close>

text \<open>
  One undisturbed handshake of a bond of \<open>n\<close> unconnected uplinks whose probing just finished with target
  \<open>k\<close>: the driver sends REG1, the receiver answers with a REG2 that carries the full id, the next
  driver tick broadcasts it, and every uplink is answered with REG3.
\<close>

definition reg2_reply :: "bytes \<Rightarrow> bytes" where
  "reg2_reply full_id = to_be 2 SRTLA_TYPE_REG2 @ full_id"

definition reg3_reply :: bytes where
  "reg3_reply = to_be 2 SRTLA_TYPE_REG3"

lemma reply_types [simp]:
  "get_packet_type (reg2_reply full_id) = Some SRTLA_TYPE_REG2" "get_packet_type reg3_reply = Some SRTLA_TYPE_REG3"
  using get_packet_type_to_be [of SRTLA_TYPE_REG3 "[]"] by (simp_all add: reg2_reply_def reg3_reply_def)

lemma handle_reg2_adopts:
  assumes "length full_id = SRTLA_ID_LEN" "rm_pending_reg2_idx m = Some k"
  shows "handle_reg2 k (reg2_reply full_id) now m =
    m\<lparr> rm_srtla_id := full_id, rm_pending_reg2_idx := None,
       rm_pending_timeout_at_ms := u64_add now (REG3_TIMEOUT * 1000),
       rm_broadcast_reg2_pending := True, rm_reg1_target_idx := None, rm_reg1_next_send_at_ms := 0 \<rparr>"
  using assms by (simp add: handle_reg2_def reg2_reply_def slice_def)

lemma reg3_answers_accepted:
  "distinct (map fst ans) \<Longrightarrow> fst ` set ans \<subseteq> set (rm_awaiting_reg3 m) \<Longrightarrow>
   fst (inbound_run m (map (\<lambda>(j, t). (j, reg3_reply, t)) ans)) = map (\<lambda>(j, t). (j, Some Reg3)) ans"
proof (induction ans arbitrary: m)
  case (Cons a ans)
  obtain j t where a: "a = (j, t)" by fastforce
  let ?m' = "m\<lparr> rm_awaiting_reg3 := filter (\<lambda>i. i \<noteq> j) (rm_awaiting_reg3 m), rm_has_connected := True \<rparr>"
  have p: "process_registration_packet j reg3_reply t m = (Some Reg3, ?m')"
    using Cons.prems(2) a by (simp add: process_reg3)
  from Cons.prems have "fst ` set ans \<subseteq> set (rm_awaiting_reg3 ?m')" "distinct (map fst ans)"
    using a by (auto simp: image_iff)
  from Cons.IH [OF this(2,1)] show ?case by (simp only: a list.map prod.case inbound_run_Cons [OF p] fst_conv)
qed simp

text \<open>C16: Registration is live. In a bond of \<open>n\<close> uplinks none of which is connected, with a REG1 target
  that is due and no handshake or broadcast pending, the driver sends REG1 with the sender's id to that target; when the
  receiver's REG2 with the full id comes back on it the manager adopts the id, and the next driver tick broadcasts it to
  the uplinks. The REG3 answers that then come back, one per uplink, in any order and at any times, from all of the uplinks or some of
  them, are every one accepted as completed registrations; the uplinks that still hold a grant are those that have not answered.\<close>

theorem registration_completes:
  assumes idle: "rm_active_connections m = 0" "rm_pending_reg2_idx m = None" "\<not> rm_broadcast_reg2_pending m"
    and target: "rm_reg1_target_idx m = Some k" "rm_reg1_next_send_at_ms m \<le> t1"
    and links: "length conns = n" "list_all (\<lambda>c. \<not> c_connected c) conns"
    and full: "length full_id = SRTLA_ID_LEN"
    and s1: "reg_driver_pending_sends n t1 m = (sends1, m1)"
    and s2: "process_registration_packet k (reg2_reply full_id) t2 m1 = (ev2, m2)"
    and s3: "reg_driver_pending_sends n t3 (update_active_connections conns m2) = (sends3, m3)"
    and answers: "distinct (map fst ans)" "fst ` set ans \<subseteq> {..<n}" "ans \<noteq> []"
    and s4: "inbound_run m3 (map (\<lambda>(j, t). (j, reg3_reply, t)) ans) = (evs, m4)"
  shows "rs_reg1 sends1 = Some (k, create_reg1_packet (rm_srtla_id m)) \<and> ev2 = Some Reg2 \<and>
     rm_srtla_id m2 = full_id \<and> rs_broadcast_reg2 sends3 = Some (create_reg2_packet full_id) \<and>
     evs = map (\<lambda>(j, t). (j, Some Reg3)) ans \<and> rm_has_connected m4 \<and>
     set (rm_awaiting_reg3 m4) \<inter> {..<n} = {..<n} - fst ` set ans"
proof -
  have 1: "rs_reg1 sends1 = Some (k, create_reg1_packet (rm_srtla_id m))" "rm_pending_reg2_idx m1 = Some k"
    using s1 idle target by (auto simp: reg_driver_pending_sends_def driver_reg1_def)
  have 2: "ev2 = Some Reg2" "rm_srtla_id m2 = full_id" "rm_broadcast_reg2_pending m2"
    using s2 by (auto simp: process_registration_packet_def handle_reg2_adopts [OF full 1(2)] protocol_consts)
  from broadcast_spares_connected [OF s3 [folded links(1)]] 2
  have 3: "rs_broadcast_reg2 sends3 = Some (create_reg2_packet full_id)"
    "set (rm_awaiting_reg3 m3) = set (rm_awaiting_reg3 m2) \<union> {i. i < n \<and> \<not> c_connected (conns ! i)}"
    by (simp_all add: links(1))
  then have n: "{..<n} \<subseteq> set (rm_awaiting_reg3 m3)" using links by (auto simp: list_all_length)
  from reg3_answers_accepted [OF answers(1), of m3] answers(2) n
  have 4: "evs = map (\<lambda>(j, t). (j, Some Reg3)) ans" using s4 by auto
  have "\<exists>j. (j, Some Reg3) \<in> set evs" using answers(3) 4 by (cases ans) auto
  then have 5: "rm_has_connected m4" using inbound_connected [of m3 "map (\<lambda>(j, t). (j, reg3_reply, t)) ans"] s4 by auto
  have "j \<in> set (rm_awaiting_reg3 m4) \<longleftrightarrow> j \<in> set (rm_awaiting_reg3 m3) \<and> j \<notin> fst ` set ans" for j
    using inbound_grants [of j m3 "map (\<lambda>(j, t). (j, reg3_reply, t)) ans"] s4
    by (force simp: find_None_iff ends_grant_def is_reg3_frame_def)
  with n have "set (rm_awaiting_reg3 m4) \<inter> {..<n} = {..<n} - fst ` set ans" by auto
  with 1 2 3 4 5 show ?thesis by simp
qed

text \<open>A bond of two uplinks whose probing has just picked the second; both answer, the first one last.\<close>

definition probed :: SrtlaRegistrationManager where
  "probed = (RegistrationManager_new (replicate 256 0) [])
     \<lparr> rm_probing_state := Complete, rm_reg1_target_idx := Some 1, rm_reg1_next_send_at_ms := 100 \<rparr>"

definition pair_of_uplinks :: "SrtlaConnection list" where
  "pair_of_uplinks = [new_registering 1 ''eth0'' (V4 1) 0, new_registering 2 ''wwan0'' (V4 2) 0]"

definition after_reg2 :: SrtlaRegistrationManager where
  "after_reg2 = snd (process_registration_packet 1 (reg2_reply (replicate 256 7)) 150
     (snd (reg_driver_pending_sends 2 100 probed)))"

definition after_broadcast :: SrtlaRegistrationManager where
  "after_broadcast = snd (reg_driver_pending_sends 2 200 (update_active_connections pair_of_uplinks after_reg2))"

theorem registration_completes_witness:
  "fst (inbound_run after_broadcast [(1, reg3_reply, 250), (0, reg3_reply, 260)]) = [(1, Some Reg3), (0, Some Reg3)] \<and>
   rm_srtla_id after_reg2 = replicate 256 7"
  using registration_completes [where m = probed and conns = pair_of_uplinks and n = 2
      and k = 1 and full_id = "replicate 256 7" and ?t1.0 = 100 and ?t2.0 = 150 and ?t3.0 = 200 and ans = "[(1, 250), (0, 260)]",
      OF _ _ _ _ _ _ _ _ prod.collapse [symmetric] prod.collapse [symmetric] prod.collapse [symmetric]
        _ _ _ prod.collapse [symmetric]]
  unfolding after_broadcast_def after_reg2_def
  by (simp add: probed_def pair_of_uplinks_def RegistrationManager_new_def new_registering_def SRTLA_ID_LEN_def del: inbound_run.simps)

section \<open>The manager as a machine\<close>

datatype reg_event =
    RegInbound usize bytes u64
  | RegDriver usize u64
  | RegImmediate usize u64
  | RegReconnect usize
  | RegActive "SrtlaConnection list"
  | RegTimeout u64
  | RegStartProbing "SrtlaConnection list" u64
  | RegCheckProbing u64
  | RegRehome bytes bytes

fun reg_step :: "SrtlaRegistrationManager \<Rightarrow> reg_event \<Rightarrow> SrtlaRegistrationManager" where
  "reg_step m (RegInbound i buf now) = snd (process_registration_packet i buf now m)"
| "reg_step m (RegDriver n now) = snd (reg_driver_pending_sends n now m)"
| "reg_step m (RegImmediate i now) = snd (reg1_if_ngp_immediate i now m)"
| "reg_step m (RegReconnect i) = snd (build_reg2 i m)"
| "reg_step m (RegActive conns) = update_active_connections conns m"
| "reg_step m (RegTimeout now) = snd (clear_pending_if_timed_out now m)"
| "reg_step m (RegStartProbing conns now) = snd (snd (start_probing conns now m))"
| "reg_step m (RegCheckProbing now) = snd (check_probing_complete now m)"
| "reg_step m (RegRehome half probe_id) = reset_for_rehome half probe_id m"

fun reg_admissible :: "reg_event \<Rightarrow> bool" where
  "reg_admissible (RegRehome half probe_id) = (length half = 128 \<and> length probe_id = 256)"
| "reg_admissible e = True"

definition reg_ok :: "SrtlaRegistrationManager \<Rightarrow> bool" where
  "reg_ok m \<longleftrightarrow> length (rm_srtla_id m) = SRTLA_ID_LEN \<and> length (rm_probe_id m) = SRTLA_ID_LEN \<and>
     distinct (rm_awaiting_reg3 m)"

lemma reg_ok_inbound: "reg_ok m \<Longrightarrow> reg_ok (snd (process_registration_packet i buf now m))"
  by (auto simp: process_registration_packet_def handle_reg_ngp_def handle_probe_response_def handle_reg2_def
      handle_reg3_def handle_reg_err_def revoke_reg3_grant_def reg_ok_def slice_def Let_def
      split: option.splits if_splits)

lemma broadcast_arm_probe_id [simp]: "rm_probe_id (broadcast_arm n m) = rm_probe_id m"
  by (induction n) (simp_all add: broadcast_arm_Suc Let_def, simp_all add: broadcast_arm_def arm_reg3_grant_def)

lemma reg_ok_driver: "reg_ok m \<Longrightarrow> reg_ok (snd (reg_driver_pending_sends n now m))"
  by (auto simp: reg_driver_pending_sends_def driver_reg1_def reg_ok_def split: option.splits)

interpretation registration: machine reg_step reg_admissible reg_ok
proof
  fix m e
  assume ok: "reg_ok m" and "reg_admissible e"
  then show "reg_ok (reg_step m e)"
  proof (cases e)
    case (RegReconnect i)
    with ok show ?thesis by (simp add: reg_ok_def build_reg2_def) (simp add: arm_reg3_grant_def)
  qed (auto simp: reg_ok_inbound reg_ok_driver,
      auto simp: reg_ok_def reg1_if_ngp_immediate_def build_reg1_for_def update_active_connections_def
        clear_pending_if_timed_out_def start_probing_def check_probing_complete_def reset_for_rehome_def
        SRTLA_ID_LEN_def Let_def split: option.splits)
qed

text \<open>The manager's ids keep their length and no uplink holds two grants, from creation on and
  through any sequence of inbound frames, driver ticks, timeouts, probing and re-homing.\<close>

theorem registration_invariant:
  assumes "length own_id = 256" "length probe_id = 256" "list_all reg_admissible es"
  shows "length (rm_srtla_id (foldl reg_step (RegistrationManager_new own_id probe_id) es)) = 256 \<and>
     distinct (rm_awaiting_reg3 (foldl reg_step (RegistrationManager_new own_id probe_id) es))"
proof -
  have "reg_ok (RegistrationManager_new own_id probe_id)"
    using assms(1,2) by (simp add: reg_ok_def RegistrationManager_new_def SRTLA_ID_LEN_def)
  from registration.run_inv [OF this assms(3)] show ?thesis by (simp add: reg_ok_def SRTLA_ID_LEN_def)
qed

theorem registration_invariant_witness:
  "distinct (rm_awaiting_reg3 (foldl reg_step (RegistrationManager_new (replicate 256 0) (replicate 256 1))
     [RegReconnect 2, RegReconnect 2, RegTimeout 9]))"
  using registration_invariant [of "replicate 256 0" "replicate 256 1" "[RegReconnect 2, RegReconnect 2, RegTimeout 9]"]
  by simp

end
