(* ===== verification/Data_Path.thy ===== *)
theory Data_Path
  imports Tracking Registration
begin

text \<open>
  The data path of the sender's shell: receiving from an uplink (\<^verbatim>\<open>src/sender/uplink_recv.rs\<close>), applying what was received
  to the bond, forwarding a client packet to the selected uplink, duplicate probes, and flushing
  (\<^verbatim>\<open>src/sender/packet_handler.rs\<close>; \<^verbatim>\<open>recover_connection\<close> of \<^verbatim>\<open>src/sender/connections.rs\<close>).

  Sockets. The I/O map is the argument \<open>io\<close>: no entry, or an entry with the outcome of sending on that
  socket. Datagrams handed to a socket are returned as \<open>effect\<close>s, in order. Every clock reading of the code is an
  argument. The result of the non-blocking send to the client is the argument \<open>try_send\<close>.
\<close>

type_synonym SocketAddr = "IpAddr \<times> u16"

text \<open>A failed send carries the number of datagrams that had left before the socket failed (none for a single send).\<close>

datatype SendOutcome = SendOk | SendErr nat
datatype TrySendOutcome = TrySent | TryWouldBlock | TryFailed

type_synonym ConnIoMap = "u64 \<Rightarrow> SendOutcome option"

datatype effect =
    ToClient SocketAddr bytes
  | ToForwarder SocketAddr bytes
  | ToUplink u64 bytes
  | RestartReader u64

record SrtlaIncoming =
  forward_to_client :: "bytes list"
  ack_numbers :: "u32 list"
  nak_numbers :: "u32 list"
  srtla_ack_numbers :: "u32 list"
  read_any :: bool
  reg1_send :: "bytes option"
  in_negotiated_latency_ms :: "u16 option"

definition SrtlaIncoming_default :: SrtlaIncoming where
  "SrtlaIncoming_default = \<lparr> forward_to_client = [], ack_numbers = [], nak_numbers = [], srtla_ack_numbers = [],
     read_any = False, reg1_send = None, in_negotiated_latency_ms = None \<rparr>"

section \<open>Receiving from an uplink\<close>

definition process_uplink_packet ::
  "(bytes \<Rightarrow> u64) \<Rightarrow> TrySendOutcome \<Rightarrow> u64 \<Rightarrow> usize \<Rightarrow> SocketAddr option \<Rightarrow> bytes \<Rightarrow>
   SrtlaConnection \<Rightarrow> SrtlaRegistrationManager \<Rightarrow> ClientDedup \<Rightarrow>
   SrtlaIncoming \<times> effect list \<times> SrtlaConnection \<times> SrtlaRegistrationManager \<times> ClientDedup"
where
  "process_uplink_packet hash_fn try_send now conn_idx client_addr data conn reg dedup =
     (let incoming = SrtlaIncoming_default\<lparr> read_any := True \<rparr> in
      case get_packet_type data of
        None \<Rightarrow> (incoming, [], conn, reg, dedup)
      | Some pt \<Rightarrow>
          (case process_registration_packet conn_idx data now reg of
             (Some RegNgp, reg1) \<Rightarrow>
               (case reg1_if_ngp_immediate conn_idx now reg1 of
                  (Some pkt, reg2) \<Rightarrow> (incoming\<lparr> reg1_send := Some pkt \<rparr>, [], conn, reg2, dedup)
                | (None, reg2) \<Rightarrow> (incoming, [], conn, reg2, dedup))
           | (Some Reg3, reg1) \<Rightarrow> (incoming, [], accept_reg3 now conn, reg1, dedup)
           | (Some RegErr, reg1) \<Rightarrow>
               (incoming, [], reject_registration conn, reg1, dedup)
           | (Some Reg2, reg1) \<Rightarrow> (incoming, [], conn, reg1, dedup)
           | (None, reg1) \<Rightarrow>
               let conn1 = refresh_liveness now conn in
               if pt = SRT_TYPE_ACK then
                 let incoming1 = (case parse_srt_ack data of
                                    Some ack \<Rightarrow> incoming\<lparr> ack_numbers := [ack] \<rparr> | None \<Rightarrow> incoming)
                 in case client_addr of
                      None \<Rightarrow> (incoming1, [], conn1, reg1, dedup)
                    | Some addr \<Rightarrow>
                        (case should_forward_ack hash_fn data now dedup of
                           (fwd, dedup1) \<Rightarrow>
                             (incoming1,
                              if fwd then (case try_send of TrySent \<Rightarrow> [ToClient addr data]
                                           | TryWouldBlock \<Rightarrow> [ToForwarder addr data] | TryFailed \<Rightarrow> []) else [],
                              conn1, reg1, dedup1))
               else if pt = SRT_TYPE_NAK then
                 let incoming1 = incoming\<lparr> nak_numbers := parse_srt_nak data \<rparr> in
                 if client_addr \<noteq> None then
                   case should_forward_nak hash_fn data now dedup of
                     (fwd, dedup1) \<Rightarrow>
                       (if fwd then incoming1\<lparr> forward_to_client := [data] \<rparr> else incoming1, [], conn1, reg1, dedup1)
                 else (incoming1, [], conn1, reg1, dedup)
               else if pt = SRTLA_TYPE_ACK then
                 (incoming\<lparr> srtla_ack_numbers := parse_srtla_ack data \<rparr>, [], conn1, reg1, dedup)
               else if pt = SRT_TYPE_HANDSHAKE then
                 let incoming1 = (case parse_srt_handshake_latency data of
                                    Some hs \<Rightarrow> if is_response hs \<and> rcv_ms hs \<noteq> None
                                                then incoming\<lparr> in_negotiated_latency_ms := rcv_ms hs \<rparr> else incoming
                                  | None \<Rightarrow> incoming)
                 in (incoming1\<lparr> forward_to_client := [data] \<rparr>, [], conn1, reg1, dedup)
               else if pt = SRTLA_TYPE_KEEPALIVE then
                 (incoming, [], handle_keepalive_echo data now conn1, reg1, dedup)
               else (incoming\<lparr> forward_to_client := [data] \<rparr>, [], conn1, reg1, dedup)))"

section \<open>Applying what was received\<close>

fun position :: "('a \<Rightarrow> bool) \<Rightarrow> 'a list \<Rightarrow> usize option" where
  "position P [] = None"
| "position P (x # xs) = (if P x then Some 0 else map_option Suc (position P xs))"

fun nak_scan :: "seqno \<Rightarrow> u64 \<Rightarrow> SrtlaConnection list \<Rightarrow> usize option \<times> SrtlaConnection list" where
  "nak_scan nak now [] = (None, [])"
| "nak_scan nak now (c # cs) =
     (case handle_nak nak now c of
        (True, c') \<Rightarrow> (Some 0, c' # cs)
      | (False, c') \<Rightarrow> (case nak_scan nak now cs of (r, cs') \<Rightarrow> (map_option Suc r, c' # cs')))"

definition attribute_nak ::
  "SequenceTracker \<Rightarrow> u32 \<Rightarrow> u64 \<Rightarrow> SrtlaConnection list \<Rightarrow> usize option \<times> SrtlaConnection list" where
  "attribute_nak seq_tracker nak current_time_ms conns =
     (case (case tracker_get nak current_time_ms seq_tracker of
              None \<Rightarrow> None | Some conn_id \<Rightarrow> position (\<lambda>c. c_conn_id c = conn_id) conns) of
        Some p \<Rightarrow>
          (case handle_nak nak current_time_ms (conns ! p) of
             (counted, c') \<Rightarrow> (if counted then Some p else None, conns[p := c']))
      | None \<Rightarrow> nak_scan nak current_time_ms conns)"

definition apply_srt_ack :: "SequenceTracker \<Rightarrow> u64 \<Rightarrow> u32 \<Rightarrow> SrtlaConnection list \<Rightarrow> SrtlaConnection list" where
  "apply_srt_ack seq_tracker now ack conns =
     (let last_acked = srt_ack_last_acked ack;
          owner = tracker_get last_acked now seq_tracker
      in map (\<lambda>c. handle_srt_ack last_acked now (owner = Some (c_conn_id c)) c) conns)"

fun srtla_ack_scan :: "seqno \<Rightarrow> bool \<Rightarrow> u64 \<Rightarrow> usize \<Rightarrow> usize \<Rightarrow> SrtlaConnection list \<Rightarrow> SrtlaConnection list" where
  "srtla_ack_scan sq classic now idx i [] = []"
| "srtla_ack_scan sq classic now idx i (c # cs) =
     (if i = idx then c # srtla_ack_scan sq classic now idx (Suc i) cs
      else case handle_srtla_ack_specific sq classic now c of
             (True, c') \<Rightarrow> c' # cs
           | (False, c') \<Rightarrow> c' # srtla_ack_scan sq classic now idx (Suc i) cs)"

definition apply_srtla_ack :: "usize \<Rightarrow> bool \<Rightarrow> u64 \<Rightarrow> u32 \<Rightarrow> SrtlaConnection list \<Rightarrow> SrtlaConnection list" where
  "apply_srtla_ack idx classic now srtla_ack conns =
     (case handle_srtla_ack_specific srtla_ack classic now (conns ! idx) of
        (found_on_arrival, c') \<Rightarrow>
          let conns1 = conns[idx := c'];
              conns2 = (if \<not> found_on_arrival then srtla_ack_scan srtla_ack classic now idx 0 conns1 else conns1)
          in map handle_srtla_ack_global conns2)"

definition process_connection_events ::
  "usize \<Rightarrow> SocketAddr option \<Rightarrow> SequenceTracker \<Rightarrow> bool \<Rightarrow> u64 \<Rightarrow> SrtlaIncoming \<Rightarrow> SrtlaConnection list \<Rightarrow>
   SrtlaConnection list \<times> effect list"
where
  "process_connection_events idx last_client_addr seq_tracker classic current_time_ms incoming conns =
     (if idx \<ge> length conns then (conns, [])
      else if \<not> read_any incoming \<and> ack_numbers incoming = [] \<and> nak_numbers incoming = [] \<and>
              srtla_ack_numbers incoming = [] \<and> forward_to_client incoming = [] then (conns, [])
      else
        let conns1 = fold (apply_srt_ack seq_tracker current_time_ms) (ack_numbers incoming) conns;
            conns2 = fold (apply_srtla_ack idx classic current_time_ms) (srtla_ack_numbers incoming) conns1;
            conns3 = fold (\<lambda>nak cs. snd (attribute_nak seq_tracker nak current_time_ms cs)) (nak_numbers incoming) conns2
        in (conns3, case last_client_addr of
                      None \<Rightarrow> [] | Some client \<Rightarrow> map (ToClient client) (forward_to_client incoming)))"

section \<open>Flushing\<close>

definition recover_connection :: "SrtlaConnection \<Rightarrow> SequenceTracker \<Rightarrow> SrtlaConnection \<times> SequenceTracker" where
  "recover_connection conn seq_tracker = (mark_for_recovery conn, remove_connection (c_conn_id conn) seq_tracker)"

definition send_connection_batch ::
  "SendOutcome \<Rightarrow> u64 \<Rightarrow> SrtlaConnection \<Rightarrow> SendOutcome \<times> SrtlaConnection \<times> effect list" where
  "send_connection_batch outcome now conn =
     (case take_batch now conn of
        (batch, conn1) \<Rightarrow>
          if batch = [] then (SendOk, conn1, [])
          else case outcome of
                 SendErr sent \<Rightarrow> (SendErr sent, conn1, map (\<lambda>(data, _, _). ToUplink (c_conn_id conn) data) (take sent batch))
               | SendOk \<Rightarrow> (SendOk, note_sent now conn1, map (\<lambda>(data, _, _). ToUplink (c_conn_id conn) data) batch))"

definition flush_connection ::
  "SendOutcome \<Rightarrow> u64 \<Rightarrow> SrtlaConnection \<Rightarrow> SequenceTracker \<Rightarrow> SrtlaConnection \<times> SequenceTracker \<times> effect list" where
  "flush_connection outcome now conn seq_tracker =
     (case send_connection_batch outcome now conn of
        (SendOk, conn1, effs) \<Rightarrow> (conn1, seq_tracker, effs)
      | (SendErr _, conn1, effs) \<Rightarrow>
          (case recover_connection conn1 seq_tracker of (conn2, tracker2) \<Rightarrow> (conn2, tracker2, effs)))"

text \<open>The clock is read once per flushed link; \<open>clk\<close> gives the reading for a link.\<close>

fun flush_loop ::
  "ConnIoMap \<Rightarrow> (u64 \<Rightarrow> u64) \<Rightarrow> u64 \<Rightarrow> SrtlaConnection list \<Rightarrow> SequenceTracker \<Rightarrow>
   SrtlaConnection list \<times> SequenceTracker \<times> effect list"
where
  "flush_loop io clk now [] tr = ([], tr, [])"
| "flush_loop io clk now (c # cs) tr =
     (case (if needs_batch_flush now c \<or> has_queued_packets (c_batch_sender c) then io (c_conn_id c) else None) of
        None \<Rightarrow> (case flush_loop io clk now cs tr of (cs', tr', es) \<Rightarrow> (c # cs', tr', es))
      | Some outcome \<Rightarrow>
          (case flush_connection outcome (clk (c_conn_id c)) c tr of
             (c', tr1, es1) \<Rightarrow>
               (case flush_loop io clk now cs tr1 of (cs', tr', es) \<Rightarrow> (c' # cs', tr', es1 @ es))))"

definition flush_all_batches ::
  "ConnIoMap \<Rightarrow> (u64 \<Rightarrow> u64) \<Rightarrow> u64 \<Rightarrow> SrtlaConnection list \<Rightarrow> SequenceTracker \<Rightarrow>
   SrtlaConnection list \<times> SequenceTracker \<times> effect list"
where
  "flush_all_batches io clk now conns seq_tracker =
     (if \<not> list_ex (\<lambda>c. has_queued_packets (c_batch_sender c) \<or> needs_batch_flush now c) conns
      then (conns, seq_tracker, [])
      else flush_loop io clk now conns seq_tracker)"

section \<open>The bond\<close>

record Bond =
  b_conns :: "SrtlaConnection list"
  b_reg :: SrtlaRegistrationManager
  b_tracker :: SequenceTracker
  b_dedup :: ClientDedup
  b_last_selected :: "usize option"
  b_client :: "SocketAddr option"
  b_config :: DynamicConfig

record UplinkPacket =
  up_conn_id :: u64
  up_bytes :: bytes

text \<open>The surroundings of one step: the hash of the dedup rings, the exponential of the quality decay, the I/O map, the
  outcome of the non-blocking send, and the clock as the code reads it (by link where it is read per link).\<close>

record Env =
  e_hash :: "bytes \<Rightarrow> u64"
  e_exp :: "f64 \<Rightarrow> f64"
  e_io :: ConnIoMap
  e_try_send :: TrySendOutcome
  e_now :: u64
  e_now_sent :: u64
  e_now_events :: u64
  e_clk :: "u64 \<Rightarrow> u64"

definition send_immediate_reg1 :: "Env \<Rightarrow> bytes option \<Rightarrow> SrtlaConnection \<Rightarrow> SrtlaConnection \<times> effect list" where
  "send_immediate_reg1 env reg1 conn =
     (case reg1 of
        None \<Rightarrow> (conn, [])
      | Some pkt \<Rightarrow>
          (case e_io env (c_conn_id conn) of
             Some SendOk \<Rightarrow> (note_sent (e_now_sent env) conn, [ToUplink (c_conn_id conn) pkt])
           | _ \<Rightarrow> (conn, [])))"

definition store_negotiated_latency :: "u16 option \<Rightarrow> DynamicConfig \<Rightarrow> DynamicConfig" where
  "store_negotiated_latency latency config =
     (case latency of None \<Rightarrow> config | Some ms \<Rightarrow> snd (set_negotiated_latency_ms (unat ms) config))"

definition handle_uplink_packet :: "Env \<Rightarrow> ConfigSnapshot \<Rightarrow> UplinkPacket \<Rightarrow> Bond \<Rightarrow> Bond \<times> effect list" where
  "handle_uplink_packet env config_snap packet b =
     (if up_bytes packet = [] then (b, [])
      else
        case position (\<lambda>c. c_conn_id c = up_conn_id packet) (b_conns b) of
          None \<Rightarrow> (b, [])
        | Some idx \<Rightarrow>
            (case process_uplink_packet (e_hash env) (e_try_send env) (e_now env) idx (b_client b) (up_bytes packet)
                    (b_conns b ! idx) (b_reg b) (b_dedup b) of
               (incoming, effs1, conn, reg, dedup) \<Rightarrow>
                 (case send_immediate_reg1 env (reg1_send incoming) conn of
                    (conn1, effs2) \<Rightarrow>
                      (case process_connection_events idx (b_client b) (b_tracker b) (is_classic (cfg_mode config_snap))
                              (e_now_events env) incoming ((b_conns b)[idx := conn1]) of
                         (conns, effs3) \<Rightarrow>
                           (b\<lparr> b_conns := conns, b_reg := reg, b_dedup := dedup,
                               b_config := store_negotiated_latency (in_negotiated_latency_ms incoming) (b_config b) \<rparr>,
                            effs1 @ effs2 @ effs3)))))"

definition MAX_DRAIN_PACKETS :: usize where "MAX_DRAIN_PACKETS = 64"

text \<open>The channel is the list of packets in it, with the surroundings of each; what stays in it is returned.\<close>

fun drain_loop ::
  "usize \<Rightarrow> ConfigSnapshot \<Rightarrow> (Env \<times> UplinkPacket) list \<Rightarrow> Bond \<Rightarrow> Bond \<times> effect list \<times> (Env \<times> UplinkPacket) list"
where
  "drain_loop 0 config_snap queue b = (b, [], queue)"
| "drain_loop (Suc n) config_snap [] b = (b, [], [])"
| "drain_loop (Suc n) config_snap ((env, packet) # queue) b =
     (case handle_uplink_packet env config_snap packet b of
        (b1, effs1) \<Rightarrow>
          (case drain_loop n config_snap queue b1 of (b2, effs2, rest) \<Rightarrow> (b2, effs1 @ effs2, rest)))"

definition drain_packet_queue ::
  "ConfigSnapshot \<Rightarrow> (Env \<times> UplinkPacket) list \<Rightarrow> Bond \<Rightarrow> Bond \<times> effect list \<times> (Env \<times> UplinkPacket) list" where
  "drain_packet_queue config_snap queue b = drain_loop MAX_DRAIN_PACKETS config_snap queue b"

section \<open>Forwarding a client packet\<close>

definition select_pre_registration_connection :: "usize option \<Rightarrow> u64 \<Rightarrow> SrtlaConnection list \<Rightarrow> usize option" where
  "select_pre_registration_connection last_selected_idx now_ms conns =
     (case last_selected_idx of
        Some idx \<Rightarrow>
          if idx < length conns \<and> c_connected (conns ! idx) \<and> \<not> is_timed_out now_ms (conns ! idx) then Some idx
          else position (\<lambda>c. \<not> is_timed_out now_ms c) conns
      | None \<Rightarrow> position (\<lambda>c. \<not> is_timed_out now_ms c) conns)"

definition forward_via_connection ::
  "Env \<Rightarrow> usize \<Rightarrow> bytes \<Rightarrow> u32 option \<Rightarrow> u64 \<Rightarrow> Bond \<Rightarrow> Bond \<times> effect list" where
  "forward_via_connection env sel_idx pkt sq packet_time_ms b =
     (if sel_idx \<ge> length (b_conns b) then (b, [])
      else
        let conn = b_conns b ! sel_idx;
            conn_id = c_conn_id conn;
            (needs_flush, conn1) = queue_data_packet pkt sq packet_time_ms conn;
            tracker1 = (case sq of Some s \<Rightarrow> tracker_insert s conn_id packet_time_ms (b_tracker b) | None \<Rightarrow> b_tracker b);
            (conn2, tracker2, effs) =
              (case (if needs_flush then e_io env conn_id else None) of
                 Some outcome \<Rightarrow> flush_connection outcome (e_clk env conn_id) conn1 tracker1
               | None \<Rightarrow> (conn1, tracker1, []))
        in (b\<lparr> b_conns := (b_conns b)[sel_idx := conn2], b_tracker := tracker2, b_last_selected := Some sel_idx \<rparr>, effs))"

definition stall_probe_link ::
  "Env \<Rightarrow> bytes \<Rightarrow> u32 \<Rightarrow> u64 \<Rightarrow> SrtlaConnection \<Rightarrow> SequenceTracker \<Rightarrow> SrtlaConnection \<times> SequenceTracker \<times> effect list" where
  "stall_probe_link env pkt probe_seq packet_time_ms c tr =
     (if \<not> (c_stall_gated c \<or> c_quality_excluded c) \<or> \<not> c_connected c then (c, tr, [])
      else case stall_probe_due c of
             (False, c1) \<Rightarrow> (c1, tr, [])
           | (True, c1) \<Rightarrow>
               (case queue_probe_packet (set_srt_data_retransmit pkt) probe_seq packet_time_ms c1 of
                  (needs_flush, c2) \<Rightarrow>
                    (case (if needs_flush then e_io env (c_conn_id c2) else None) of
                       Some outcome \<Rightarrow> flush_connection outcome (e_clk env (c_conn_id c2)) c2 tr
                     | None \<Rightarrow> (c2, tr, []))))"

fun stall_probe_loop ::
  "Env \<Rightarrow> usize \<Rightarrow> bytes \<Rightarrow> u32 \<Rightarrow> u64 \<Rightarrow> usize \<Rightarrow> SrtlaConnection list \<Rightarrow> SequenceTracker \<Rightarrow>
   SrtlaConnection list \<times> SequenceTracker \<times> effect list"
where
  "stall_probe_loop env sel_idx pkt probe_seq t i [] tr = ([], tr, [])"
| "stall_probe_loop env sel_idx pkt probe_seq t i (c # cs) tr =
     (case (if i = sel_idx then (c, tr, []) else stall_probe_link env pkt probe_seq t c tr) of
        (c', tr1, es1) \<Rightarrow>
          (case stall_probe_loop env sel_idx pkt probe_seq t (Suc i) cs tr1 of (cs', tr', es) \<Rightarrow> (c' # cs', tr', es1 @ es)))"

definition send_stall_probes :: "Env \<Rightarrow> usize \<Rightarrow> bytes \<Rightarrow> u32 \<Rightarrow> u64 \<Rightarrow> Bond \<Rightarrow> Bond \<times> effect list" where
  "send_stall_probes env sel_idx pkt probe_seq packet_time_ms b =
     (case stall_probe_loop env sel_idx pkt probe_seq packet_time_ms 0 (b_conns b) (b_tracker b) of
        (conns, tr, effs) \<Rightarrow> (b\<lparr> b_conns := conns, b_tracker := tr \<rparr>, effs))"

definition must_land :: "CriticalWindow \<Rightarrow> u64 \<Rightarrow> bytes \<Rightarrow> u32 option \<Rightarrow> bool" where
  "must_land critical_window now pkt sq \<longleftrightarrow> sq \<noteq> None \<and> (is_critical_now now critical_window \<or> is_srt_data_retransmit pkt)"

definition route_packet ::
  "Env \<Rightarrow> ConfigSnapshot \<Rightarrow> CriticalWindow \<Rightarrow> bytes \<Rightarrow> u32 option \<Rightarrow> Bond \<Rightarrow> usize option \<times> Bond" where
  "route_packet env config_snap critical_window pkt sq b =
     (case select_connection_idx (e_exp env) (b_last_selected b) (e_now env) config_snap (b_conns b) of
        (sel_idx, conns) \<Rightarrow>
          (if must_land critical_window (e_now env) pkt sq then
             (case select_best_path_override_idx (e_now env) (cfg_mode config_snap) conns of
                Some best_idx \<Rightarrow> Some best_idx | None \<Rightarrow> sel_idx)
           else sel_idx, b\<lparr> b_conns := conns \<rparr>))"

text \<open>The packet is the prefix of the receive buffer that \<^verbatim>\<open>recv_from\<close> reports, or its error.\<close>

definition handle_srt_packet ::
  "Env \<Rightarrow> (bytes \<times> SocketAddr) option \<Rightarrow> bool \<Rightarrow> ConfigSnapshot \<Rightarrow> CriticalWindow \<Rightarrow> Bond \<Rightarrow> Bond \<times> effect list" where
  "handle_srt_packet env res registration_complete config_snap critical_window b =
     (case res of
        None \<Rightarrow> (b, [])
      | Some (pkt, src) \<Rightarrow>
          if pkt = [] then (b, [])
          else
            let sq = get_srt_sequence_number pkt in
            if \<not> registration_complete then
              (case select_pre_registration_connection (b_last_selected b) (e_now env) (b_conns b) of
                 Some sel_idx \<Rightarrow>
                   (case forward_via_connection env sel_idx pkt sq (e_now env) b of
                      (b1, effs) \<Rightarrow> (b1\<lparr> b_client := Some src \<rparr>, effs))
               | None \<Rightarrow> (b\<lparr> b_client := Some src \<rparr>, []))
            else
              (case route_packet env config_snap critical_window pkt sq b of
                 (None, b1) \<Rightarrow> (b1\<lparr> b_client := Some src \<rparr>, [])
               | (Some sel_idx, b1) \<Rightarrow>
                   (case forward_via_connection env sel_idx pkt sq (e_now env) b1 of
                      (b2, effs1) \<Rightarrow>
                        (case sq of
                           None \<Rightarrow> (b2\<lparr> b_client := Some src \<rparr>, effs1)
                         | Some probe_seq \<Rightarrow>
                             (case send_stall_probes env sel_idx pkt probe_seq (e_now env) b2 of
                                (b3, effs2) \<Rightarrow> (b3\<lparr> b_client := Some src \<rparr>, effs1 @ effs2))))))"

end
