(* ===== verification/Bond_Invariant.thy ===== *)
theory Bond_Invariant
  imports Data_Path
begin

text \<open>
  The invariant of the bond under the data path. \<open>link_good\<close> adds to the well-formedness of a link what the scheduler
  relies on: a schedulable link was established, is connected or has nothing received since it was refused, has an
  ordinary quality multiplier and 64-bit caps. Each operation of the receive, send, probe, flush and selection
  paths keeps it, and keeps the ids of the links.
\<close>

definition status_ok :: "SrtlaConnection \<Rightarrow> bool" where
  "status_ok c \<longleftrightarrow> (is_schedulable c \<longrightarrow>
       connection_established_ms (c_reconnection c) \<noteq> 0 \<and> (c_connected c \<or> c_last_received c = None)) \<and>
     fl_in 0 2 (cq_multiplier (c_quality_cache c)) \<and> c_cc_target_bps c < 2 ^ 64 \<and> c_stall_rejoin_ramp_ms c < 2 ^ 64"

definition link_good :: "SrtlaConnection \<Rightarrow> bool" where
  "link_good c \<longleftrightarrow> link_ok c \<and> status_ok c"

lemma link_good_scorable: "link_good c \<Longrightarrow> link_scorable c"
  by (auto simp: link_good_def status_ok_def link_scorable_def link_ok_def)

text \<open>The fields the status depends on.\<close>

definition status :: "SrtlaConnection \<Rightarrow> bool \<times> u64 \<times> bool \<times> u64 option \<times> f64 \<times> u64 \<times> u64" where
  "status c = (is_schedulable c, connection_established_ms (c_reconnection c), c_connected c, c_last_received c,
     cq_multiplier (c_quality_cache c), c_cc_target_bps c, c_stall_rejoin_ramp_ms c)"

lemma status_cong: "status d = status c \<Longrightarrow> status_ok d = status_ok c"
  unfolding status_def status_ok_def prod.inject by (elim conjE) (simp only:)

lemma link_goodI: "link_ok d \<Longrightarrow> status d = status c \<Longrightarrow> link_good c \<Longrightarrow> link_good d"
  unfolding link_good_def using status_cong [of d c] by blast

section \<open>What the link operations leave alone\<close>

lemma phase_frame [simp]: "is_schedulable (record_rtt_probe c) = is_schedulable c"
  by (simp add: is_schedulable_def record_rtt_probe_def phase_is_schedulable_def Let_def split: LinkPhase.split)

lemma fold_register_frame:
  "status (fold (\<lambda>(_, sq, t) c. case sq of Some s \<Rightarrow> register_packet s t c | None \<Rightarrow> c) batch c) = status c"
  "c_conn_id (fold (\<lambda>(_, sq, t) c. case sq of Some s \<Rightarrow> register_packet s t c | None \<Rightarrow> c) batch c) = c_conn_id c"
  by (induction batch arbitrary: c)
    (auto simp: register_packet_def status_def is_schedulable_def Let_def split: option.splits)

lemma status_data_ops [simp]:
  "status (snd (queue_data_packet data sq t c)) = status c" "status (snd (queue_probe_packet data s t c)) = status c"
  "status (snd (take_batch now c)) = status c" "status (note_sent now c) = status c"
  "status (snd (stall_probe_due c)) = status c" "status (snd (keepalive_packet now c)) = status c"
  by (simp_all add: queue_data_packet_def queue_probe_packet_def note_sent_def stall_probe_due_def
      keepalive_packet_def take_batch_def fold_register_frame case_prod_beta Let_def)
    (simp_all add: status_def is_schedulable_def)

lemma id_data_ops [simp]:
  "c_conn_id (snd (queue_data_packet data sq t c)) = c_conn_id c"
  "c_conn_id (snd (queue_probe_packet data s t c)) = c_conn_id c"
  "c_conn_id (snd (take_batch now c)) = c_conn_id c" "c_conn_id (note_sent now c) = c_conn_id c"
  "c_conn_id (snd (stall_probe_due c)) = c_conn_id c" "c_conn_id (snd (keepalive_packet now c)) = c_conn_id c"
  by (simp_all add: queue_data_packet_def queue_probe_packet_def note_sent_def stall_probe_due_def
      keepalive_packet_def take_batch_def fold_register_frame case_prod_beta Let_def)

lemma status_ack_ops [simp]:
  "status (handle_srt_ack ack now owns c) = status c" "status (snd (handle_nak sq now c)) = status c"
  "status (snd (handle_srtla_ack_specific sq classic now c)) = status c" "status (handle_srtla_ack_global c) = status c"
  by (simp_all add: handle_srt_ack_def handle_nak_def handle_srtla_ack_specific_def handle_srtla_ack_global_def
      status_def is_schedulable_def case_prod_beta Let_def split: option.splits)

lemma id_ack_ops [simp]:
  "c_conn_id (handle_srt_ack ack now owns c) = c_conn_id c" "c_conn_id (snd (handle_nak sq now c)) = c_conn_id c"
  "c_conn_id (snd (handle_srtla_ack_specific sq classic now c)) = c_conn_id c"
  "c_conn_id (handle_srtla_ack_global c) = c_conn_id c"
  by (simp_all add: handle_srt_ack_def handle_nak_def handle_srtla_ack_specific_def handle_srtla_ack_global_def
      case_prod_beta Let_def split: option.splits)

lemma status_echo [simp]: "status (handle_keepalive_echo data now c) = status c"
  "c_conn_id (handle_keepalive_echo data now c) = c_conn_id c"
  by (simp_all add: handle_keepalive_echo_def record_rtt_probe_def status_def is_schedulable_def phase_is_schedulable_def
      case_prod_beta Let_def split: LinkPhase.split)

section \<open>Preservation, operation by operation\<close>

lemma link_good_data_ops [inv_intros]:
  "link_good c \<Longrightarrow> seqs_ok [sq] \<Longrightarrow> link_good (snd (queue_data_packet data sq t c))"
  "link_good c \<Longrightarrow> link_good (snd (queue_probe_packet data s t c))"
  "link_good c \<Longrightarrow> link_good (snd (take_batch now c))" "link_good c \<Longrightarrow> link_good (note_sent now c)"
  "link_good c \<Longrightarrow> link_good (snd (stall_probe_due c))" "link_good c \<Longrightarrow> link_good (snd (keepalive_packet now c))"
  by (rule link_goodI [where c = c]; simp add: inv_intros link_good_def)+

lemma link_good_ack_ops [inv_intros]:
  "link_good c \<Longrightarrow> link_good (handle_srt_ack ack now owns c)" "link_good c \<Longrightarrow> link_good (snd (handle_nak sq now c))"
  "link_good c \<Longrightarrow> link_good (snd (handle_srtla_ack_specific sq classic now c))"
  "link_good c \<Longrightarrow> link_good (handle_srtla_ack_global c)" "link_good c \<Longrightarrow> link_good (handle_keepalive_echo data now c)"
  by (rule link_goodI [where c = c]; simp add: inv_intros link_good_def)+

lemma link_good_recovery [inv_intros]: "link_good c \<Longrightarrow> link_good (mark_for_recovery c)"
  using link_ok_mark_for_recovery [of c]
  by (auto simp: link_good_def)
    (simp add: status_ok_def mark_for_recovery_def reset_core_state_def is_schedulable_def phase_is_schedulable_def Let_def)

lemma link_good_accept_reg3 [inv_intros]: "link_good c \<Longrightarrow> 0 < now \<Longrightarrow> link_good (accept_reg3 now c)"
proof -
  assume c: "link_good c" and "0 < now"
  have "link_ok (accept_reg3 now c)" using c by (simp add: link_good_def inv_intros)
  moreover have "status_ok (accept_reg3 now c)"
    using c \<open>0 < now\<close>
    by (simp add: accept_reg3_def status_ok_def link_good_def clear_pre_registration_state_def mark_reconnect_success_def
        mark_success_def CachedQuality_default_def Let_def)
  ultimately show ?thesis by (simp add: link_good_def)
qed

lemma link_good_reg_err [inv_intros]:
  "link_good c \<Longrightarrow> link_good (reject_registration c)"
  by (auto simp: link_good_def status_ok_def is_schedulable_def reject_registration_def)

lemma link_good_refresh [inv_intros]: "link_good c \<Longrightarrow> link_good (refresh_liveness now c)"
  by (auto simp: link_good_def status_ok_def is_schedulable_def refresh_liveness_def)

lemma id_receive_ops [simp]:
  "c_conn_id (accept_reg3 now c) = c_conn_id c" "c_conn_id (refresh_liveness now c) = c_conn_id c"
  "c_conn_id (mark_for_recovery c) = c_conn_id c" "c_conn_id (reject_registration c) = c_conn_id c"
  by (simp_all add: accept_reg3_def refresh_liveness_def reject_registration_def mark_for_recovery_def reset_core_state_def
      clear_pre_registration_state_def mark_reconnect_success_def Let_def)

section \<open>Receiving\<close>

lemma process_uplink_packet_conn:
  assumes "process_uplink_packet hash_fn ts now idx client data conn reg dedup = (inc, es, conn', reg', dedup')"
  shows "conn' \<in> {conn, accept_reg3 now conn, reject_registration conn,
      refresh_liveness now conn, handle_keepalive_echo data now (refresh_liveness now conn)}"
  using assms unfolding process_uplink_packet_def Let_def
  by (auto split: option.splits prod.splits RegistrationEvent.splits if_splits)

lemma process_uplink_packet_good:
  assumes "process_uplink_packet hash_fn ts now idx client data conn reg dedup = (inc, es, conn', reg', dedup')"
    and "link_good conn" "0 < now"
  shows "link_good conn'" "c_conn_id conn' = c_conn_id conn"
proof -
  note process_uplink_packet_conn [OF assms(1)]
  then show "link_good conn'" "c_conn_id conn' = c_conn_id conn" using assms(2,3) by (auto intro: inv_intros)
qed

section \<open>Lists of links\<close>

definition link_keeps :: "SrtlaConnection \<Rightarrow> SrtlaConnection \<Rightarrow> bool" where
  "link_keeps c d \<longleftrightarrow> (link_good c \<longrightarrow> link_good d) \<and> c_conn_id d = c_conn_id c"

definition conns_keep :: "SrtlaConnection list \<Rightarrow> SrtlaConnection list \<Rightarrow> bool" where
  "conns_keep = list_all2 link_keeps"

lemma link_keeps_refl [simp, intro]: "link_keeps c c"
  by (simp add: link_keeps_def)

lemma link_keeps_trans: "link_keeps c d \<Longrightarrow> link_keeps d e \<Longrightarrow> link_keeps c e"
  by (simp add: link_keeps_def)

lemma conns_keep_refl [simp, intro]: "conns_keep cs cs"
  by (simp add: conns_keep_def list_all2_refl)

lemma conns_keep_trans [trans]: "conns_keep cs ds \<Longrightarrow> conns_keep ds es \<Longrightarrow> conns_keep cs es"
  unfolding conns_keep_def by (rule list_all2_trans [OF link_keeps_trans])

lemma conns_keep_good: "conns_keep cs ds \<Longrightarrow> list_all link_good cs \<Longrightarrow> list_all link_good ds"
  unfolding conns_keep_def by (induction rule: list_all2_induct) (auto simp: link_keeps_def)

lemma conns_keep_ids: "conns_keep cs ds \<Longrightarrow> map c_conn_id ds = map c_conn_id cs"
  unfolding conns_keep_def by (induction rule: list_all2_induct) (auto simp: link_keeps_def)

lemma conns_keep_length: "conns_keep cs ds \<Longrightarrow> length ds = length cs"
  by (simp add: conns_keep_def list_all2_lengthD)

lemma conns_keep_map: "(\<And>c. link_keeps c (f c)) \<Longrightarrow> conns_keep cs (map f cs)"
  by (simp add: conns_keep_def list_all2_conv_all_nth)

lemma conns_keep_enumerate: "(\<And>i c. link_keeps c (f i c)) \<Longrightarrow> conns_keep cs (map (\<lambda>(i, c). f i c) (enumerate n cs))"
  by (simp add: conns_keep_def list_all2_conv_all_nth nth_enumerate_eq)

lemma conns_keep_update: "(i < length cs \<Longrightarrow> link_keeps (cs ! i) d) \<Longrightarrow> conns_keep cs (cs[i := d])"
  by (cases "i < length cs") (auto simp: conns_keep_def list_all2_conv_all_nth nth_list_update)

lemma conns_keep_Cons [simp]: "conns_keep (c # cs) (d # ds) \<longleftrightarrow> link_keeps c d \<and> conns_keep cs ds"
  by (simp add: conns_keep_def)

lemma conns_keep_fold: "(\<And>x cs. conns_keep cs (f x cs)) \<Longrightarrow> conns_keep cs (fold f xs cs)"
  by (induction xs arbitrary: cs) (auto intro: conns_keep_trans)

lemma keeps_ops [intro]:
  "link_keeps c (handle_srt_ack ack now owns c)" "link_keeps c (snd (handle_nak sq now c))"
  "link_keeps c (snd (handle_srtla_ack_specific sq classic now c))" "link_keeps c (handle_srtla_ack_global c)"
  "link_keeps c (snd (take_batch now c))" "link_keeps c (note_sent now c)" "link_keeps c (mark_for_recovery c)"
  "link_keeps c (snd (stall_probe_due c))" "link_keeps c (snd (queue_probe_packet data s t c))"
  by (simp_all add: link_keeps_def inv_intros)

section \<open>Acknowledgements and loss reports\<close>

lemma nak_scan_keeps: "conns_keep cs (snd (nak_scan nak now cs))"
proof (induction cs)
  case (Cons c cs)
  then show ?case using keeps_ops(2) [of c nak now] by (auto split: prod.splits bool.splits)
qed simp

lemma srtla_ack_scan_keeps: "conns_keep cs (srtla_ack_scan sq classic now idx i cs)"
proof (induction cs arbitrary: i)
  case (Cons c cs)
  then show ?case
    using keeps_ops(3) [of c sq classic now] by (auto split: prod.splits bool.splits)
qed simp

lemma ack_events_keep:
  "conns_keep cs (apply_srt_ack tr now ack cs)" "conns_keep cs (apply_srtla_ack idx classic now a cs)"
  "conns_keep cs (snd (attribute_nak tr nak now cs))"
proof -
  show "conns_keep cs (apply_srt_ack tr now ack cs)"
    by (auto simp: apply_srt_ack_def Let_def intro: conns_keep_map)
  have u: "conns_keep cs (cs[i := snd (handle_srtla_ack_specific a classic now (cs ! i))])" for i
    by (rule conns_keep_update) auto
  have g: "conns_keep ds (map handle_srtla_ack_global ds)" for ds by (rule conns_keep_map) auto
  show "conns_keep cs (apply_srtla_ack idx classic now a cs)"
    using conns_keep_trans [OF u g] conns_keep_trans [OF conns_keep_trans [OF u srtla_ack_scan_keeps] g]
    by (simp add: apply_srtla_ack_def case_prod_beta Let_def)
  have "conns_keep cs (cs[p := snd (handle_nak nak now (cs ! p))])" for p
    by (rule conns_keep_update) auto
  then show "conns_keep cs (snd (attribute_nak tr nak now cs))"
    using nak_scan_keeps by (simp add: attribute_nak_def case_prod_beta split: option.split)
qed

lemma process_connection_events_keeps:
  "conns_keep cs (fst (process_connection_events idx client tr classic now inc cs))"
proof -
  have f: "conns_keep ds (fold (apply_srt_ack tr now) xs ds)" "conns_keep ds (fold (apply_srtla_ack idx classic now) ys ds)"
    "conns_keep ds (fold (\<lambda>nak cs. snd (attribute_nak tr nak now cs)) zs ds)" for ds xs ys zs
    by (rule conns_keep_fold, rule ack_events_keep)+
  show ?thesis
    using conns_keep_trans [OF conns_keep_trans [OF f(1) f(2)] f(3)]
    by (simp add: process_connection_events_def Let_def)
qed

section \<open>Flushing and forwarding\<close>

lemma tracker_ok_ops [simp]:
  "tracker_ok tr \<Longrightarrow> tracker_ok (tracker_insert sq cid t tr)" "tracker_ok tr \<Longrightarrow> tracker_ok (remove_connection cid tr)"
  by (simp_all add: tracker_ok_def tracker_insert_def remove_connection_def Let_def)

lemma send_connection_batch_cases:
  "fst (snd (send_connection_batch outcome now c)) \<in> {snd (take_batch now c), note_sent now (snd (take_batch now c))}"
  by (simp add: send_connection_batch_def case_prod_beta split: SendOutcome.split)

lemma flush_connection_keeps:
  assumes "flush_connection outcome now c tr = (c', tr', es)"
  shows "link_keeps c c' \<and> (tracker_ok tr \<longrightarrow> tracker_ok tr')"
proof -
  let ?d = "fst (snd (send_connection_batch outcome now c))"
  have d: "link_keeps c ?d"
    using send_connection_batch_cases [of outcome now c] link_keeps_trans [OF keeps_ops(5) keeps_ops(6)] by auto
  moreover have "c' = ?d \<and> tr' = tr \<or> c' = mark_for_recovery ?d \<and> tr' = remove_connection (c_conn_id ?d) tr"
    using assms by (auto simp: flush_connection_def recover_connection_def split: prod.splits SendOutcome.splits)
  ultimately show ?thesis using link_keeps_trans [OF d keeps_ops(7)] by auto
qed

lemma flush_loop_keeps:
  "flush_loop io clk now cs tr = (cs', tr', es) \<Longrightarrow> conns_keep cs cs' \<and> (tracker_ok tr \<longrightarrow> tracker_ok tr')"
proof (induction io clk now cs tr arbitrary: cs' tr' es rule: flush_loop.induct)
  case (2 io clk now c cs tr)
  let ?o = "if needs_batch_flush now c \<or> has_queued_packets (c_batch_sender c) then io (c_conn_id c) else None"
  show ?case
  proof (cases ?o)
    case None
    obtain ds tr1 es1 where "flush_loop io clk now cs tr = (ds, tr1, es1)" by (metis prod_cases3)
    then show ?thesis using 2(1) [OF None] 2(3) None by auto
  next
    case (Some outcome)
    obtain c1 tr1 es1 where f: "flush_connection outcome (clk (c_conn_id c)) c tr = (c1, tr1, es1)" by (metis prod_cases3)
    obtain ds tr2 es2 where l: "flush_loop io clk now cs tr1 = (ds, tr2, es2)" by (metis prod_cases3)
    have "conns_keep cs ds \<and> (tracker_ok tr1 \<longrightarrow> tracker_ok tr2)" by (rule 2(2) [OF Some f [symmetric] refl l])
    then show ?thesis using flush_connection_keeps [OF f] 2(3) Some f l by auto
  qed
qed simp

lemma flush_all_keeps:
  "flush_all_batches io clk now cs tr = (cs', tr', es) \<Longrightarrow> conns_keep cs cs' \<and> (tracker_ok tr \<longrightarrow> tracker_ok tr')"
  by (auto simp: flush_all_batches_def dest: flush_loop_keeps split: if_splits)

lemma data_seq_ok: "get_srt_sequence_number pkt = Some s \<Longrightarrow> seq_ok s"
proof -
  assume "get_srt_sequence_number pkt = Some s"
  then have "unat s < 2 ^ 31" using u32_msb_clear by (auto simp: get_srt_sequence_number_def Let_def split: if_splits)
  then show "seq_ok s" unfolding seq_ok_def by (simp only: unat_eq_nat_uint nat_less_iff uint_ge_0) simp
qed

lemma forward_keeps:
  assumes "forward_via_connection env i pkt sq t b = (b', es)" "seqs_ok [sq]"
  shows "conns_keep (b_conns b) (b_conns b')" "tracker_ok (b_tracker b) \<Longrightarrow> tracker_ok (b_tracker b')"
proof -
  let ?c = "b_conns b ! i"
  let ?d = "snd (queue_data_packet pkt sq t ?c)"
  let ?tr = "case sq of Some s \<Rightarrow> tracker_insert s (c_conn_id ?c) t (b_tracker b) | None \<Rightarrow> b_tracker b"
  have q: "link_keeps ?c ?d" using assms(2) by (simp add: link_keeps_def inv_intros)
  have tr: "tracker_ok (b_tracker b) \<Longrightarrow> tracker_ok ?tr" by (cases sq) auto
  obtain c' tr' es' where step: "(case (if fst (queue_data_packet pkt sq t ?c) then e_io env (c_conn_id ?c) else None) of
      Some outcome \<Rightarrow> flush_connection outcome (e_clk env (c_conn_id ?c)) ?d ?tr | None \<Rightarrow> (?d, ?tr, [])) = (c', tr', es')"
    by (metis prod_cases3)
  then have keep: "link_keeps ?c c'" "tracker_ok (b_tracker b) \<Longrightarrow> tracker_ok tr'"
    using q tr flush_connection_keeps link_keeps_trans by (force split: option.splits if_splits)+
  have "i < length (b_conns b) \<Longrightarrow> b_conns b' = (b_conns b)[i := c'] \<and> b_tracker b' = tr'"
    using assms(1) step by (auto simp: forward_via_connection_def Let_def case_prod_beta split: if_splits)
  moreover have "\<not> i < length (b_conns b) \<Longrightarrow> b' = b" using assms(1) by (auto simp: forward_via_connection_def)
  ultimately show "conns_keep (b_conns b) (b_conns b')" "tracker_ok (b_tracker b) \<Longrightarrow> tracker_ok (b_tracker b')"
    using keep by (cases "i < length (b_conns b)"; auto intro: conns_keep_update)+
qed

lemma stall_probe_link_keeps:
  assumes "stall_probe_link env pkt s t c tr = (c', tr', es)"
  shows "link_keeps c c'" "tracker_ok tr \<Longrightarrow> tracker_ok tr'"
proof -
  let ?d = "snd (queue_probe_packet (set_srt_data_retransmit pkt) s t (snd (stall_probe_due c)))"
  have d: "link_keeps c ?d" by (rule link_keeps_trans [OF keeps_ops(8) keeps_ops(9)])
  have "c' = c \<and> tr' = tr \<or> c' = snd (stall_probe_due c) \<and> tr' = tr \<or> c' = ?d \<and> tr' = tr \<or>
      (\<exists>outcome now. flush_connection outcome now ?d tr = (c', tr', es))"
    using assms by (auto simp: stall_probe_link_def case_prod_beta split: prod.splits bool.splits option.splits if_splits)
  then show "link_keeps c c'" "tracker_ok tr \<Longrightarrow> tracker_ok tr'"
    using d flush_connection_keeps link_keeps_trans keeps_ops(8) by blast+
qed

lemma stall_probe_loop_keeps:
  "stall_probe_loop env sel pkt s t i cs tr = (cs', tr', es) \<Longrightarrow> conns_keep cs cs' \<and> (tracker_ok tr \<longrightarrow> tracker_ok tr')"
proof (induction env sel pkt s t i cs tr arbitrary: cs' tr' es rule: stall_probe_loop.induct)
  case (2 env sel pkt s t i c cs tr)
  then show ?case by (fastforce split: prod.splits if_splits dest: stall_probe_link_keeps)
qed simp

section \<open>Selection\<close>

lemma status_ok_core: "core d = core c \<Longrightarrow> c_stall_rejoin_ramp_ms d < 2 ^ 64 \<Longrightarrow> status_ok c \<Longrightarrow> status_ok d"
  unfolding core_def status_ok_def is_schedulable_def prod.inject by (elim conjE) (simp only:)

lemma link_ok_flags [simp]:
  "link_ok (c\<lparr> c_sole_carrier := b \<rparr>) = link_ok c" "link_ok (c\<lparr> c_sole_carrier_excluded := b \<rparr>) = link_ok c"
  "link_ok (c\<lparr> c_sole_carrier_since_ms := t \<rparr>) = link_ok c" "link_ok (c\<lparr> c_sole_carrier_elections := t \<rparr>) = link_ok c"
  "link_ok (c\<lparr> c_quality_excluded := b \<rparr>) = link_ok c" "link_ok (c\<lparr> c_stall_gated := b \<rparr>) = link_ok c"
  "link_ok (c\<lparr> c_conn_timeout_ms := t \<rparr>) = link_ok c" "link_ok (c\<lparr> c_delay_budget_ms := n \<rparr>) = link_ok c"
  "link_ok (c\<lparr> c_silence_pulled := b \<rparr>) = link_ok c" "link_ok (c\<lparr> c_quality_cache := q \<rparr>) = link_ok c"
  by (simp_all add: link_ok_def)

lemma id_passes [simp]:
  "c_conn_id (arm_rejoin_ramp now ramp b c) = c_conn_id c" "c_conn_id (release_sole_carrier now c) = c_conn_id c"
  "c_conn_id (elect_apply now keep handover i c) = c_conn_id c" "c_conn_id (update_exclusion now u sole i c) = c_conn_id c"
  "c_conn_id (clear_quality_gate_state c) = c_conn_id c" "c_conn_id (update_stall_latch now n ceil c) = c_conn_id c"
  "c_conn_id (update_silence_pull now n ceil c) = c_conn_id c" "c_conn_id (clear_stall_latch c) = c_conn_id c"
  by (simp_all add: arm_rejoin_ramp_def release_sole_carrier_def elect_apply_def update_exclusion_def
      clear_quality_gate_state_def update_stall_latch_def update_silence_pull_def clear_stall_latch_def Let_def)

lemma held_out_ramp: "HELD_OUT_REJOIN_RAMP_MS < 2 ^ 64"
  by (simp add: HELD_OUT_REJOIN_RAMP_MS_def)

lemma keeps_core:
  assumes "core d = core c" "link_ok c \<Longrightarrow> link_ok d" "c_conn_id d = c_conn_id c"
    and "c_stall_rejoin_ramp_ms c < 2 ^ 64 \<Longrightarrow> c_stall_rejoin_ramp_ms d < 2 ^ 64"
  shows "link_keeps c d"
proof -
  have "status_ok d" if "status_ok c"
  proof (rule status_ok_core [OF assms(1) assms(4) that])
    show "c_stall_rejoin_ramp_ms c < 2 ^ 64" using that unfolding status_ok_def by (elim conjE)
  qed
  then show ?thesis using assms(2,3) by (simp add: link_keeps_def link_good_def)
qed

lemma keeps_passes:
  "link_keeps c (release_sole_carrier now c)" "link_keeps c (elect_apply now keep handover i c)"
  "link_keeps c (update_exclusion now u sole i c)" "link_keeps c (clear_quality_gate_state c)"
  "link_keeps c (update_stall_latch now n ceil c)" "link_keeps c (update_silence_pull now n ceil c)"
proof -
  note arm = ramp_ms_arm [OF _ held_out_ramp]
  show "link_keeps c (release_sole_carrier now c)"
    by (rule keeps_core) (use arm in \<open>auto simp: release_sole_carrier_def link_ok_arm_ramp Let_def\<close>)
  show "link_keeps c (elect_apply now keep handover i c)"
    by (rule keeps_core) (use arm in \<open>auto simp: elect_apply_def link_ok_arm_ramp Let_def\<close>)
  show "link_keeps c (update_exclusion now u sole i c)"
    by (rule keeps_core) (use arm in \<open>auto simp: update_exclusion_def link_ok_arm_ramp Let_def\<close>)
  show "link_keeps c (clear_quality_gate_state c)"
    by (rule keeps_core) (auto simp: clear_quality_gate_state_def)
  show "link_keeps c (update_stall_latch now n ceil c)"
    by (rule keeps_core [OF latch_frame(1) link_ok_latch _ latch_frame(2)]) simp_all
  show "link_keeps c (update_silence_pull now n ceil c)"
    by (rule keeps_core [OF pull_frame(1) link_ok_pull]) (simp_all only: pull_frame id_passes)
qed

lemma keeps_flags:
  "link_keeps c (c\<lparr> c_stall_gated := b \<rparr>)" "link_keeps c (c\<lparr> c_silence_pulled := b \<rparr>)"
  "link_keeps c (c\<lparr> c_conn_timeout_ms := t, c_delay_budget_ms := n \<rparr>)"
  by (auto simp: link_keeps_def link_good_def status_ok_def is_schedulable_def)

lemma keeps_clear_latch: "link_keeps c (clear_stall_latch c)"
  by (rule keeps_core [OF _ link_ok_clear_latch]) (simp_all add: clear_stall_latch_def core_def Let_def)

lemma keeps_quality:
  assumes "decay_fn exp_f" "now < 2 ^ 64"
  shows "link_keeps c (snd (link_score exp_f now q u c))"
proof -
  let ?m = "calculate_quality_multiplier exp_f c now"
  have "fl_in 0 2 ?m" by (rule fl_in_weaken [OF quality_range [OF assms]]) simp_all
  then have "link_keeps c (c\<lparr> c_quality_cache := \<lparr> cq_multiplier = ?m, cq_last_calculated_ms = now \<rparr> \<rparr>)"
    by (auto simp: link_keeps_def link_good_def status_ok_def is_schedulable_def)
  then show ?thesis by (simp add: link_score_def get_cached_quality_multiplier_def case_prod_beta Let_def)
qed

lemma gate_keeps: "conns_keep cs (apply_stall_gate now config cs)"
proof (cases "cfg_stall_deselect config")
  case True
  have "link_keeps c (ticked now config c)" for c
    unfolding ticked_def by (rule link_keeps_trans [OF keeps_flags(3) link_keeps_trans [OF keeps_passes(6) keeps_passes(5)]])
  then have "conns_keep cs (map (ticked now config) cs)" by (rule conns_keep_map)
  then show ?thesis
    unfolding apply_stall_gate_on [OF True] by (rule conns_keep_trans) (rule conns_keep_map, rule keeps_flags)
next
  case False
  have "link_keeps c (clear_stall_latch (c\<lparr> c_conn_timeout_ms := t, c_delay_budget_ms := n, c_stall_gated := False,
      c_silence_pulled := False \<rparr>))" for c t n
    by (rule link_keeps_trans [OF keeps_flags(3) link_keeps_trans [OF keeps_flags(1)
          link_keeps_trans [OF keeps_flags(2) keeps_clear_latch]]])
  then show ?thesis using False by (simp add: apply_stall_gate_def comp_def conns_keep_map)
qed

lemma enhanced_keeps:
  assumes "decay_fn exp_f" "now < 2 ^ 64"
  shows "conns_keep cs (snd (enhanced_select_connection exp_f last_idx now q cs))"
proof -
  define u where "u = list_ex (unconstrained now) cs"
  obtain sole cs1 where el: "elect_sole_carrier now (list_ex (quality_ok_link now) cs) cs = (sole, cs1)" by fastforce
  define cs2 where "cs2 = map (\<lambda>(i, c). update_exclusion now u sole i c) (enumerate 0 cs1)"
  obtain r cs3 where sel: "enhanced_select_connection exp_f last_idx now q cs = (r, cs3)" by fastforce
  have "conns_keep cs cs1"
    using el by (auto simp: elect_sole_carrier_def Let_def intro!: conns_keep_map conns_keep_enumerate keeps_passes
        split: if_splits prod.splits)
  also have "conns_keep cs1 cs2" unfolding cs2_def by (intro conns_keep_enumerate keeps_passes)
  also have "conns_keep cs2 cs3"
    unfolding conjunct1 [OF enhanced_outcome [OF sel u_def el cs2_def]]
    by (rule conns_keep_map) (simp add: keeps_quality [OF assms])
  finally show ?thesis by (simp add: sel)
qed

lemma select_keeps:
  assumes "decay_fn exp_f" "now < 2 ^ 64"
  shows "conns_keep cs (snd (select_connection_idx exp_f last_idx now config cs))"
proof -
  have "conns_keep ds (map clear_quality_gate_state ds)" for ds by (rule conns_keep_map) (rule keeps_passes)
  note c = conns_keep_trans [OF gate_keeps this] and e = conns_keep_trans [OF gate_keeps enhanced_keeps [OF assms]]
  show ?thesis
    using c e by (simp add: select_connection_idx_def Let_def split: SchedulingMode.split)
qed

end
