(* ===== verification/Forwarding.thy ===== *)
theory Forwarding
  imports Bond_Invariant
begin

text \<open>
  The data path as a whole: what forwarding, flushing and attribution do to the bond. The handlers keep the
  invariant of the bond; a client packet is placed on a live link whenever there is one; a failed flush leaves no
  trace of the link's packets; a loss report touches one link at most.
\<close>

definition bond_keeps :: "Bond \<Rightarrow> Bond \<Rightarrow> bool" where
  "bond_keeps b b' \<longleftrightarrow> conns_keep (b_conns b) (b_conns b') \<and> (tracker_ok (b_tracker b) \<longrightarrow> tracker_ok (b_tracker b'))"

lemma bond_keeps_refl [simp]: "bond_keeps b b"
  by (simp add: bond_keeps_def)

lemma bond_keeps_trans: "bond_keeps b c \<Longrightarrow> bond_keeps c d \<Longrightarrow> bond_keeps b d"
  by (auto simp: bond_keeps_def intro: conns_keep_trans)

section \<open>Routing\<close>

lemma carries_cache: "carries now (snd (link_score exp_f now q u c)) = carries now c"
  by (simp add: link_score_def get_cached_quality_multiplier_def carries_def is_timed_out_def is_schedulable_def
      case_prod_beta Let_def cong: option.case_cong)

lemma enhanced_carries:
  assumes "i < length cs"
  shows "carries now (snd (enhanced_select_connection exp_f last_idx now q cs) ! i) = carries now (cs ! i)"
proof -
  define u where "u = list_ex (unconstrained now) cs"
  obtain sole cs1 where el: "elect_sole_carrier now (list_ex (quality_ok_link now) cs) cs = (sole, cs1)" by fastforce
  define cs2 where "cs2 = map (\<lambda>(i, c). update_exclusion now u sole i c) (enumerate 0 cs1)"
  obtain r cs3 where sel: "enhanced_select_connection exp_f last_idx now q cs = (r, cs3)" by fastforce
  have len: "length cs1 = length cs" using election_result [OF el] by blast
  have "cs2 ! i = update_exclusion now u sole i (cs1 ! i)" using assms len by (simp add: cs2_def nth_enumerate_eq)
  then have "core (cs2 ! i) = core (cs ! i)" using election_result [OF el] assms by simp
  then have "carries now (cs2 ! i) = carries now (cs ! i)" by (rule core_cong)
  moreover have "cs3 ! i = (if rank_skipped now u (cs2 ! i) then cs2 ! i else snd (link_score exp_f now q u (cs2 ! i)))"
    using conjunct1 [OF enhanced_outcome [OF sel u_def el cs2_def]] assms len by (simp add: cs2_def)
  ultimately show ?thesis by (simp add: sel carries_cache)
qed

lemma select_carries:
  assumes "i < length cs"
  shows "carries now (snd (select_connection_idx exp_f last_idx now config cs) ! i) = carries now (with_config config (cs ! i))"
proof -
  obtain f where f: "apply_stall_gate now config cs = map f cs" "\<And>c. carries now (f c) = carries now (with_config config c)"
    using gate_map [of now config cs] by blast
  have "carries now (clear_quality_gate_state c) = carries now c" for c by (rule core_cong) simp
  then show ?thesis
    using assms f enhanced_carries [of i "map f cs" now exp_f last_idx "effective_quality_enabled config"]
    by (simp add: select_connection_idx_def Let_def split: SchedulingMode.split)
qed

lemma override_live:
  assumes "select_best_path_override_idx now mode cs = Some i"
  shows "i < length cs \<and> carries now (cs ! i)"
proof -
  obtain r s where rs: "scan_best fl_gt (quality_candidate now) 0 None NInf cs = (r, s)" by fastforce
  have "r = Some i"
    using assms by (auto simp: select_best_path_override_idx_def select_best_quality_idx_def best_quality_loop_scan rs
        split: if_splits)
  then show ?thesis using float_scan.scan_result [OF rs]
    by (auto simp: scan_found_def quality_candidate_def override_eligible_def carries_def split: if_splits)
qed

lemma route_result:
  assumes "route_packet env config cw pkt sq b = (r, b1)" "decay_fn (e_exp env)" "e_now env < 2 ^ 64"
  shows "conns_keep (b_conns b) (b_conns b1)" "b_tracker b1 = b_tracker b" "b_last_selected b1 = b_last_selected b"
    and "list_all link_good (b_conns b) \<Longrightarrow> case r of
      Some i \<Rightarrow> i < length (b_conns b) \<and> carries (e_now env) (with_config config (b_conns b ! i))
    | None \<Rightarrow> list_all (\<lambda>c. \<not> carries (e_now env) (with_config config c)) (b_conns b)"
proof -
  obtain sel cs where s: "select_connection_idx (e_exp env) (b_last_selected b) (e_now env) config (b_conns b) = (sel, cs)"
    by fastforce
  have b1: "b1 = b\<lparr> b_conns := cs \<rparr>" and
    r: "r = sel \<or> (\<exists>i. r = Some i \<and> select_best_path_override_idx (e_now env) (cfg_mode config) cs = Some i)"
    using assms(1) by (auto simp: route_packet_def s split: if_splits option.splits)
  have keep: "conns_keep (b_conns b) cs" using select_keeps [OF assms(2,3), where cs = "b_conns b" and last_idx = "b_last_selected b" and config = config] s by simp
  then show "conns_keep (b_conns b) (b_conns b1)" "b_tracker b1 = b_tracker b" "b_last_selected b1 = b_last_selected b"
    by (simp_all add: b1)
  assume "list_all link_good (b_conns b)"
  then have "list_all link_scorable (b_conns b)" by (simp add: list_all_iff link_good_scorable)
  note total = select_total [OF assms(2,3) this, where last_idx = "b_last_selected b" and config = config, unfolded s fst_conv]
  have "i < length (b_conns b) \<and> carries (e_now env) (with_config config (b_conns b ! i))"
    if "select_best_path_override_idx (e_now env) (cfg_mode config) cs = Some i" for i
    using override_live [OF that] conns_keep_length [OF keep]
      select_carries [of i "b_conns b" "e_now env" "e_exp env" "b_last_selected b" config] by (simp add: s)
  then show "case r of Some i \<Rightarrow> i < length (b_conns b) \<and> carries (e_now env) (with_config config (b_conns b ! i))
    | None \<Rightarrow> list_all (\<lambda>c. \<not> carries (e_now env) (with_config config c)) (b_conns b)"
    using r total by (auto split: option.splits)
qed

section \<open>The handlers keep the invariant\<close>

lemma send_stall_probes_keeps: "bond_keeps b (fst (send_stall_probes env i pkt s t b))"
  by (auto simp: send_stall_probes_def bond_keeps_def split: prod.splits dest: stall_probe_loop_keeps)

lemma forward_bond_keeps: "seqs_ok [sq] \<Longrightarrow> bond_keeps b (fst (forward_via_connection env i pkt sq t b))"
  using forward_keeps [of env i pkt sq t b] by (cases "forward_via_connection env i pkt sq t b") (simp add: bond_keeps_def)

lemma packet_seqs_ok: "seqs_ok [get_srt_sequence_number pkt]"
  using data_seq_ok by (auto simp: seqs_ok_def split: option.split)

lemma client_field [simp]: "bond_keeps b (c\<lparr> b_client := x \<rparr>) = bond_keeps b c"
  by (simp add: bond_keeps_def)

lemma handle_srt_packet_keeps:
  assumes "decay_fn (e_exp env)" "e_now env < 2 ^ 64"
  shows "bond_keeps b (fst (handle_srt_packet env res reg_done config cw b))"
proof -
  have fwd: "bond_keeps c (fst (forward_via_connection env i pkt sq t c))" if "get_srt_sequence_number pkt = sq" for c i pkt sq t
    using forward_bond_keeps [OF packet_seqs_ok [of pkt]] that by simp
  have route: "bond_keeps b (snd (route_packet env config cw pkt sq b))" for pkt sq
    using route_result(1,2) [OF _ assms] by (cases "route_packet env config cw pkt sq b") (auto simp: bond_keeps_def)
  have routed: "bond_keeps b (fst (forward_via_connection env i pkt sq t (snd (route_packet env config cw pkt sq b))))"
    if "get_srt_sequence_number pkt = sq" for i pkt sq t
    by (rule bond_keeps_trans [OF route fwd [OF that]])
  note probed = bond_keeps_trans [OF routed send_stall_probes_keeps]
  show ?thesis
    using fwd route routed probed
    by (auto simp: handle_srt_packet_def Let_def case_prod_beta split: option.split)
qed

lemma handle_uplink_packet_keeps:
  assumes "0 < e_now env"
  shows "bond_keeps b (fst (handle_uplink_packet env config packet b))"
proof (cases "position (\<lambda>c. c_conn_id c = up_conn_id packet) (b_conns b)")
  case None
  then show ?thesis by (simp add: handle_uplink_packet_def)
next
  case (Some idx)
  obtain inc es1 conn reg dedup where p: "process_uplink_packet (e_hash env) (e_try_send env) (e_now env) idx (b_client b)
      (up_bytes packet) (b_conns b ! idx) (b_reg b) (b_dedup b) = (inc, es1, conn, reg, dedup)"
    by (metis prod_cases5)
  obtain conn1 es2 where r: "send_immediate_reg1 env (reg1_send inc) conn = (conn1, es2)" by fastforce
  have "link_keeps (b_conns b ! idx) conn"
    using process_uplink_packet_conn [OF p] process_uplink_packet_good [OF p _ assms] by (auto simp: link_keeps_def)
  moreover have "link_keeps conn conn1"
    using r by (auto simp: send_immediate_reg1_def split: option.splits SendOutcome.splits)
  ultimately have "conns_keep (b_conns b) ((b_conns b)[idx := conn1])"
    by (intro conns_keep_update) (rule link_keeps_trans)
  note conns_keep_trans [OF this process_connection_events_keeps]
  then show ?thesis
    by (simp add: handle_uplink_packet_def Some p r bond_keeps_def case_prod_beta)
qed

lemma drain_keeps:
  "list_all (\<lambda>(env, p). 0 < e_now env) queue \<Longrightarrow> bond_keeps b (fst (drain_loop n config queue b))"
proof (induction n config queue b rule: drain_loop.induct)
  case (3 n config env packet queue b)
  obtain b1 es where h: "handle_uplink_packet env config packet b = (b1, es)" by fastforce
  have "bond_keeps b b1" using handle_uplink_packet_keeps [of env b config packet] 3(2) h by simp
  moreover have "bond_keeps b1 (fst (drain_loop n config queue b1))" using 3 h by simp
  ultimately show ?case by (simp add: h case_prod_beta bond_keeps_trans)
qed simp_all

section \<open>Flushing is all or nothing\<close>

lemma take_batch_batch: "link_ok c \<Longrightarrow> fst (take_batch now c) = batch_abs (c_batch_sender c)"
  using batch.drn_out [of "c_batch_sender c" now] by (simp add: take_batch_def link_ok_def case_prod_beta)

lemma map_data: "map (\<lambda>(data, _, _). f data) xs = map f (map (\<lambda>(data, _, _). data) xs)"
  by (induction xs) auto

lemma batch_abs_data: "batch_ok b \<Longrightarrow> map (\<lambda>(data, _, _). data) (batch_abs b) = bs_queue b"
  by (auto simp: batch_abs_def batch_ok_def comp_def case_prod_beta map_zip_map2 intro!: nth_equalityI)

lemma batch_abs_seqs: "batch_ok b \<Longrightarrow> map (\<lambda>(_, sq, _). sq) (batch_abs b) = bs_sequences b"
  by (auto simp: batch_abs_def batch_ok_def comp_def case_prod_beta intro!: nth_equalityI)

lemma fold_register_log:
  "Mapping.keys (c_packet_log (fold (\<lambda>(_, sq, t) c. case sq of Some s \<Rightarrow> register_packet s t c | None \<Rightarrow> c) batch c)) =
   Mapping.keys (c_packet_log c) \<union> {s. Some s \<in> set (map (\<lambda>(_, sq, _). sq) batch)}"
  by (induction batch arbitrary: c) (auto simp: register_packet_def Let_def split: option.splits)

lemma fold_register_batch:
  "c_batch_sender (fold (\<lambda>(_, sq, t) c. case sq of Some s \<Rightarrow> register_packet s t c | None \<Rightarrow> c) batch c) = c_batch_sender c"
  by (induction batch arbitrary: c) (auto simp: register_packet_def Let_def split: option.splits)

lemma take_batch_log:
  assumes "link_ok c"
  shows "Mapping.keys (c_packet_log (snd (take_batch now c))) =
    Mapping.keys (c_packet_log c) \<union> {s. Some s \<in> set (bs_sequences (c_batch_sender c))}"
    and "bs_queue (c_batch_sender (snd (take_batch now c))) = []"
proof -
  have ok: "batch_ok (c_batch_sender c)" using assms by (simp add: link_ok_def)
  obtain b where "batch_drain now (c_batch_sender c) = (batch_abs (c_batch_sender c), b)"
    using batch.drn_out [OF ok, of now] by (metis prod.collapse)
  then show "Mapping.keys (c_packet_log (snd (take_batch now c))) =
      Mapping.keys (c_packet_log c) \<union> {s. Some s \<in> set (bs_sequences (c_batch_sender c))}"
    by (simp add: take_batch_def fold_register_log batch_abs_seqs [OF ok] del: set_map)
  show "bs_queue (c_batch_sender (snd (take_batch now c))) = []"
    by (simp add: take_batch_def case_prod_beta fold_register_batch batch_drain_def)
qed

lemma removed_owner:
  "tracker_ok tr \<Longrightarrow> tracker_get sq t (remove_connection cid tr) =
     (if tracker_get sq t tr = Some cid then None else tracker_get sq t tr)"
  using tracker_slot_less [of sq]
  by (auto simp: tracker_get_def remove_connection_def is_valid_def Entry_default_def tracker_ok_def Let_def)

lemma fold_register_last_sent:
  "c_last_sent (fold (\<lambda>(_, sq, t) c. case sq of Some s \<Rightarrow> register_packet s t c | None \<Rightarrow> c) batch c) = c_last_sent c"
  by (induction batch arbitrary: c) (auto simp: register_packet_def Let_def split: option.splits)

lemma take_batch_last_sent: "c_last_sent (snd (take_batch now c)) = c_last_sent c"
  by (simp add: take_batch_def case_prod_beta fold_register_last_sent)

text \<open>C13: The bookkeeping of a flush is all or nothing. If the socket takes the batch, the queued datagrams leave in
  order, the flush reports success, the queue is empty, the packet log has gained exactly the tracked numbers of the batch, the
  send stamp is set and nobody's ownership changes. If the socket fails after some of them, exactly those have left, in order, the
  flush reports the failure and the rest is dropped: the link is back in registration with empty logs, empty queue and no packet in
  flight, its send stamp is the old one, and the tracker has forgotten exactly the sequence numbers it attributed to the link.\<close>

theorem flush_all_or_nothing:
  assumes "link_ok c" "tracker_ok tr" "bs_queue (c_batch_sender c) \<noteq> []" "flush_connection outcome now c tr = (c', tr', es)"
  shows "fst (send_connection_batch outcome now c) = outcome \<and> bs_queue (c_batch_sender c') = [] \<and>
   (case outcome of
     SendOk \<Rightarrow> es = map (ToUplink (c_conn_id c)) (bs_queue (c_batch_sender c)) \<and> tr' = tr \<and> c_last_sent c' = Some now \<and>
       Mapping.keys (c_packet_log c') = Mapping.keys (c_packet_log c) \<union> {s. Some s \<in> set (bs_sequences (c_batch_sender c))}
   | SendErr sent \<Rightarrow> es = map (ToUplink (c_conn_id c)) (take sent (bs_queue (c_batch_sender c))) \<and>
       c_packet_log c' = Mapping.empty \<and> c_probe_log c' = Mapping.empty \<and> c_in_flight_packets c' = 0 \<and> \<not> c_connected c' \<and>
       \<not> is_schedulable c' \<and> c_last_sent c' = c_last_sent c \<and>
       tracker_get sq t tr' = (if tracker_get sq t tr = Some (c_conn_id c) then None else tracker_get sq t tr))"
proof -
  have ok: "batch_ok (c_batch_sender c)" using assms(1) by (simp add: link_ok_def)
  have ne: "fst (take_batch now c) \<noteq> []"
    using batch_abs_length [OF ok] assms(3) by (auto simp: take_batch_batch [OF assms(1)])
  have data: "map (\<lambda>(data, _, _). ToUplink (c_conn_id c) data) (batch_abs (c_batch_sender c)) =
      map (ToUplink (c_conn_id c)) (bs_queue (c_batch_sender c))"
    using map_data [of "ToUplink (c_conn_id c)" "batch_abs (c_batch_sender c)"] by (simp only: batch_abs_data [OF ok])
  show ?thesis
  proof (cases outcome)
    case SendOk
    then have "c' = note_sent now (snd (take_batch now c))" "tr' = tr"
      "es = map (\<lambda>(data, _, _). ToUplink (c_conn_id c) data) (fst (take_batch now c))"
      using assms(4) ne by (auto simp: flush_connection_def send_connection_batch_def split: prod.splits)
    moreover have "fst (send_connection_batch outcome now c) = outcome"
      using SendOk ne by (simp add: send_connection_batch_def case_prod_beta)
    ultimately show ?thesis using SendOk take_batch_log [OF assms(1), of now] data
      by (simp add: take_batch_batch [OF assms(1)] note_sent_def)
  next
    case (SendErr sent)
    obtain batch d where t: "take_batch now c = (batch, d)" by fastforce
    have "c_conn_id d = c_conn_id c" using id_data_ops(3) [of now c] unfolding t by simp
    with SendErr have "c' = mark_for_recovery (snd (take_batch now c))" "tr' = remove_connection (c_conn_id c) tr"
      "es = map (\<lambda>(data, _, _). ToUplink (c_conn_id c) data) (take sent (fst (take_batch now c)))"
      using assms(4) ne by (auto simp: t flush_connection_def send_connection_batch_def recover_connection_def)
    moreover have "fst (send_connection_batch outcome now c) = outcome"
      using SendErr ne by (simp add: send_connection_batch_def case_prod_beta)
    ultimately show ?thesis using SendErr removed_owner [OF assms(2)] data take_batch_last_sent [of now c]
      by (simp add: take_batch_batch [OF assms(1)] take_map [symmetric] mark_for_recovery_def reset_core_state_def is_schedulable_def phase_is_schedulable_def
          BatchSender_reset_def Let_def)
  qed
qed

definition queued_link :: SrtlaConnection where
  "queued_link = snd (queue_data_packet [0, 0, 0, 5] (Some 5) 20 (new_registering 7 ''eth0'' (V4 1) 10))"

lemma queued_link_ok: "link_ok queued_link" "bs_queue (c_batch_sender queued_link) = [[0, 0, 0, 5]]" "c_conn_id queued_link = 7"
proof -
  show "link_ok queued_link"
    unfolding queued_link_def by (rule link_ok_queue_data [OF link_ok_new]) (simp add: seqs_ok_def seq_ok_def)
qed (simp_all add: queued_link_def queue_data_packet_def queue_packet_def new_registering_def BatchSender_new_def Let_def)

theorem flush_all_or_nothing_witness:
  "snd (snd (flush_connection SendOk 30 queued_link SequenceTracker_new)) = [ToUplink 7 [0, 0, 0, 5]] \<and>
   snd (snd (flush_connection (SendErr 0) 30 queued_link SequenceTracker_new)) = []"
proof -
  obtain c1 tr1 es1 c2 tr2 es2 where f: "flush_connection SendOk 30 queued_link SequenceTracker_new = (c1, tr1, es1)"
    "flush_connection (SendErr 0) 30 queued_link SequenceTracker_new = (c2, tr2, es2)" by (metis prod_cases3)
  have "tracker_ok SequenceTracker_new" by (simp add: tracker_ok_def SequenceTracker_new_def)
  from flush_all_or_nothing [OF queued_link_ok(1) this _ f(1)] flush_all_or_nothing [OF queued_link_ok(1) this _ f(2)]
  show ?thesis using queued_link_ok f by simp
qed

section \<open>A client packet finds a live link\<close>

lemma flush_sent:
  assumes "link_ok c" "pkt \<in> set (bs_queue (c_batch_sender c))" "flush_connection SendOk now c tr = (c', tr', es)"
  shows "ToUplink (c_conn_id c) pkt \<in> set es"
proof -
  have ok: "batch_ok (c_batch_sender c)" using assms(1) by (simp add: link_ok_def)
  have "pkt \<in> set (map (\<lambda>(data, _, _). data) (batch_abs (c_batch_sender c)))"
    unfolding batch_abs_data [OF ok] by (rule assms(2))
  then have "\<exists>sq t. (pkt, sq, t) \<in> set (fst (take_batch now c))"
    by (auto simp: take_batch_batch [OF assms(1)])
  moreover from this have "fst (take_batch now c) \<noteq> []" by auto
  ultimately show ?thesis
    using assms(3) by (force simp: flush_connection_def send_connection_batch_def split: prod.splits)
qed

lemma forward_placed:
  assumes f: "forward_via_connection env i pkt sq t b = (b', es)" and i: "i < length (b_conns b)"
    and ok: "link_ok (b_conns b ! i)" "seqs_ok [sq]"
  shows "b_last_selected b' = Some i \<and> length (b_conns b') = length (b_conns b) \<and>
    (pkt \<in> set (bs_queue (c_batch_sender (b_conns b' ! i))) \<or> ToUplink (c_conn_id (b_conns b ! i)) pkt \<in> set es \<or>
     e_io env (c_conn_id (b_conns b ! i)) \<in> Some ` range SendErr)"
proof -
  let ?c = "b_conns b ! i"
  let ?d = "snd (queue_data_packet pkt sq t ?c)"
  let ?tr = "case sq of Some s \<Rightarrow> tracker_insert s (c_conn_id ?c) t (b_tracker b) | None \<Rightarrow> b_tracker b"
  have d: "link_ok ?d" using ok by (rule link_ok_queue_data)
  have q: "pkt \<in> set (bs_queue (c_batch_sender ?d))" by (simp add: queue_data_packet_def queue_packet_def Let_def)
  obtain c' tr' es' where step: "(case (if fst (queue_data_packet pkt sq t ?c) then e_io env (c_conn_id ?c) else None) of
      Some outcome \<Rightarrow> flush_connection outcome (e_clk env (c_conn_id ?c)) ?d ?tr | None \<Rightarrow> (?d, ?tr, [])) = (c', tr', es')"
    by (metis prod_cases3)
  have b': "b' = b\<lparr> b_conns := (b_conns b)[i := c'], b_tracker := tr', b_last_selected := Some i \<rparr>" "es = es'"
    using f i step by (auto simp: forward_via_connection_def Let_def case_prod_beta)
  have "pkt \<in> set (bs_queue (c_batch_sender c')) \<or> ToUplink (c_conn_id ?c) pkt \<in> set es' \<or>
      e_io env (c_conn_id ?c) \<in> Some ` range SendErr"
  proof (cases "if fst (queue_data_packet pkt sq t ?c) then e_io env (c_conn_id ?c) else None")
    case None
    then show ?thesis using step q by simp
  next
    case (Some outcome)
    then show ?thesis using step flush_sent [OF d q] by (cases outcome) (auto split: if_splits)
  qed
  then show ?thesis using i by (simp add: b')
qed

lemma stall_probe_loop_spares:
  "stall_probe_loop env sel pkt s t i cs tr = (cs', tr', es) \<Longrightarrow> i \<le> sel \<Longrightarrow> sel < i + length cs \<Longrightarrow>
   cs' ! (sel - i) = cs ! (sel - i)"
proof (induction env sel pkt s t i cs tr arbitrary: cs' tr' es rule: stall_probe_loop.induct)
  case (2 env sel pkt s t i c cs tr)
  obtain c1 tr1 es1 where h: "(if i = sel then (c, tr, []) else stall_probe_link env pkt s t c tr) = (c1, tr1, es1)"
    by (metis prod_cases3)
  obtain ds tr2 es2 where l: "stall_probe_loop env sel pkt s t (Suc i) cs tr1 = (ds, tr2, es2)" by (metis prod_cases3)
  have cs': "cs' = c1 # ds" using 2(2) h l by simp
  show ?case
  proof (cases "i = sel")
    case True
    then show ?thesis using h cs' by simp
  next
    case False
    then have "ds ! (sel - Suc i) = cs ! (sel - Suc i)" using 2(1) [OF h [symmetric] refl l] 2(3,4) by simp
    moreover have "sel - i = Suc (sel - Suc i)" using False 2(3) by simp
    ultimately show ?thesis by (simp add: cs')
  qed
qed simp

lemma probes_spare_selected:
  "send_stall_probes env i pkt s t b = (b', es) \<Longrightarrow> i < length (b_conns b) \<Longrightarrow>
   b_conns b' ! i = b_conns b ! i \<and> b_last_selected b' = b_last_selected b"
  using stall_probe_loop_spares [of env i pkt s t 0 "b_conns b" "b_tracker b"]
  by (auto simp: send_stall_probes_def split: prod.splits)

lemma client_packet_placed:
  assumes "list_all link_good (b_conns b)" "decay_fn (e_exp env)" "e_now env < 2 ^ 64" "pkt \<noteq> []"
    and "handle_srt_packet env (Some (pkt, src)) True config cw b = (b', effs)"
  shows "if list_ex (\<lambda>c. carries (e_now env) (with_config config c)) (b_conns b)
    then (case b_last_selected b' of None \<Rightarrow> False | Some i \<Rightarrow>
       i < length (b_conns b) \<and> carries (e_now env) (with_config config (b_conns b ! i)) \<and>
       (pkt \<in> set (bs_queue (c_batch_sender (b_conns b' ! i))) \<or> ToUplink (c_conn_id (b_conns b ! i)) pkt \<in> set effs \<or>
        e_io env (c_conn_id (b_conns b ! i)) \<in> Some ` range SendErr))
    else effs = [] \<and> b_last_selected b' = b_last_selected b \<and> b_tracker b' = b_tracker b"
proof -
  let ?sq = "get_srt_sequence_number pkt"
  obtain r b1 where r: "route_packet env config cw pkt ?sq b = (r, b1)" by fastforce
  note route = route_result [OF r assms(2,3)]
  have keep: "length (b_conns b1) = length (b_conns b)" "list_all link_good (b_conns b1)"
    "map c_conn_id (b_conns b1) = map c_conn_id (b_conns b)"
    using conns_keep_length [OF route(1)] conns_keep_good [OF route(1) assms(1)] conns_keep_ids [OF route(1)] by simp_all
  show ?thesis
  proof (cases r)
    case None
    then show ?thesis
      using route assms(1,4,5) r by (auto simp: handle_srt_packet_def Let_def list_all_iff list_ex_iff)
  next
    case (Some i)
    then have i: "i < length (b_conns b)" "carries (e_now env) (with_config config (b_conns b ! i))"
      using route(4) [OF assms(1)] by auto
    then have ex: "list_ex (\<lambda>c. carries (e_now env) (with_config config c)) (b_conns b)" by (auto simp: list_ex_iff)
    obtain b2 es1 where f: "forward_via_connection env i pkt ?sq (e_now env) b1 = (b2, es1)" by fastforce
    have id: "c_conn_id (b_conns b1 ! i) = c_conn_id (b_conns b ! i)" using keep i(1) by (metis nth_map)
    have "link_ok (b_conns b1 ! i)" using keep i(1) by (simp add: list_all_length link_good_def)
    note placed = forward_placed [OF f _ this packet_seqs_ok, unfolded keep(1) id, OF i(1)]
    have "b_last_selected b' = b_last_selected b2 \<and> b_conns b' ! i = b_conns b2 ! i \<and> set es1 \<subseteq> set effs"
      using assms(4,5) r Some f probes_spare_selected [of env i pkt _ "e_now env" b2] placed i(1)
      by (auto simp: handle_srt_packet_def Let_def split: option.splits prod.splits)
    then show ?thesis using placed i ex by auto
  qed
qed

text \<open>A client packet is not lost while a link is live. After registration, for every non-empty packet, schedule
  and configuration: if some link is live under the configured timeout, the packet is placed on a live link, which
  is remembered as the selected one, and there it waits in the batch queue, or has gone out on that link, or the
  socket of the link failed; if no link is live, nothing is sent and neither selection nor ownership change.\<close>

theorem client_packet_forwarded:
  assumes "list_all link_good (b_conns b)" "decay_fn (e_exp env)" "e_now env < 2 ^ 64" "pkt \<noteq> []"
    and "handle_srt_packet env (Some (pkt, src)) True config cw b = (b', effs)"
  shows "if list_ex (\<lambda>c. carries (e_now env) (with_config config c)) (b_conns b)
    then (case b_last_selected b' of None \<Rightarrow> False | Some i \<Rightarrow>
       i < length (b_conns b) \<and> carries (e_now env) (with_config config (b_conns b ! i)) \<and>
       (pkt \<in> set (bs_queue (c_batch_sender (b_conns b' ! i))) \<or> ToUplink (c_conn_id (b_conns b ! i)) pkt \<in> set effs \<or>
        e_io env (c_conn_id (b_conns b ! i)) \<in> Some ` range SendErr))
    else effs = [] \<and> b_last_selected b' = b_last_selected b \<and> b_tracker b' = b_tracker b"
  by (rule client_packet_placed [OF assms])

definition live_link :: SrtlaConnection where
  "live_link = (new_registering 7 ''eth0'' (V4 1) 0)\<lparr> c_connected := True, c_phase := Live,
     c_reconnection := \<lparr> last_reconnect_attempt_ms = 0, reconnect_failure_count = 0, connection_established_ms = 5,
       startup_grace_deadline_ms = 0 \<rparr> \<rparr>"

definition live_bond :: Bond where
  "live_bond = \<lparr> b_conns = [live_link], b_reg = RegistrationManager_new [] [], b_tracker = SequenceTracker_new,
     b_dedup = ClientDedup_new, b_last_selected = None, b_client = None, b_config = DynamicConfig_new \<rparr>"

definition quiet_env :: Env where
  "quiet_env = \<lparr> e_hash = length, e_exp = (\<lambda>_. Fin 1), e_io = (\<lambda>_. None), e_try_send = TrySent, e_now = 10,
     e_now_sent = 10, e_now_events = 10, e_clk = (\<lambda>_. 10) \<rparr>"

lemma live_link_good: "link_good live_link"
proof -
  have "link_ok (new_registering 7 ''eth0'' (V4 1) 0)" by simp
  then have "link_ok live_link" unfolding live_link_def by (simp add: link_ok_def)
  moreover have "status_ok live_link"
    by (simp add: live_link_def status_ok_def new_registering_def CachedQuality_default_def)
  ultimately show ?thesis by (simp add: link_good_def)
qed

lemma live_link_carries: "carries 10 (with_config ConfigSnapshot_default live_link)"
  by (simp add: live_link_def with_config_def carries_def new_registering_def is_timed_out_def is_schedulable_def
      phase_is_schedulable_def)

theorem client_packet_forwarded_witness:
  "b_last_selected (fst (handle_srt_packet quiet_env (Some ([0, 0, 0, 5], (V4 2, 9000))) True ConfigSnapshot_default
     CriticalWindow_new live_bond)) = Some 0"
proof -
  obtain b' es where h: "handle_srt_packet quiet_env (Some ([0, 0, 0, 5], (V4 2, 9000))) True ConfigSnapshot_default
     CriticalWindow_new live_bond = (b', es)" by fastforce
  have "list_all link_good (b_conns live_bond)" by (simp add: live_bond_def live_link_good)
  moreover have "decay_fn (e_exp quiet_env)" "e_now quiet_env < 2 ^ 64" by (simp_all add: quiet_env_def decay_fn_def)
  moreover have "list_ex (\<lambda>c. carries (e_now quiet_env) (with_config ConfigSnapshot_default c)) (b_conns live_bond)"
    using live_link_carries by (simp add: live_bond_def quiet_env_def)
  ultimately have "\<exists>i. b_last_selected b' = Some i \<and> i < length (b_conns live_bond)"
    using client_packet_forwarded [OF _ _ _ _ h] by (auto split: option.splits)
  then show ?thesis unfolding h by (simp add: live_bond_def)
qed

section \<open>Attribution of loss reports\<close>

definition owner_index :: "SequenceTracker \<Rightarrow> u32 \<Rightarrow> u64 \<Rightarrow> SrtlaConnection list \<Rightarrow> usize option" where
  "owner_index tr nak now conns =
     (case tracker_get nak now tr of None \<Rightarrow> None | Some cid \<Rightarrow> position (\<lambda>c. c_conn_id c = cid) conns)"

lemma position_Some: "position P xs = Some i \<Longrightarrow> i < length xs \<and> P (xs ! i)"
  by (induction xs arbitrary: i) (auto split: if_splits)

lemma handle_nak_found:
  "fst (handle_nak sq now c) = (sq \<in> Mapping.keys (c_packet_log c))"
  "sq \<notin> Mapping.keys (c_packet_log c) \<Longrightarrow> snd (handle_nak sq now c) = c"
  by (simp_all add: handle_nak_def keys_lookup case_prod_beta Let_def)

lemma nak_scan_result:
  "nak_scan nak now cs = (r, cs') \<Longrightarrow>
   (case r of None \<Rightarrow> cs' = cs \<and> list_all (\<lambda>c. nak \<notin> Mapping.keys (c_packet_log c)) cs
    | Some p \<Rightarrow> p < length cs \<and> nak \<in> Mapping.keys (c_packet_log (cs ! p)) \<and> cs' = cs[p := snd (handle_nak nak now (cs ! p))])"
proof (induction cs arbitrary: r cs')
  case (Cons c cs)
  obtain found c1 where h: "handle_nak nak now c = (found, c1)" by fastforce
  obtain r1 ds where l: "nak_scan nak now cs = (r1, ds)" by fastforce
  show ?case
  proof (cases found)
    case True
    then show ?thesis using Cons.prems h handle_nak_found(1) [of nak now c] by auto
  next
    case False
    then have "c1 = c" "nak \<notin> Mapping.keys (c_packet_log c)" using h handle_nak_found(1) [of nak now c] handle_nak_found(2) [of nak c now] by auto
    then show ?thesis using Cons.prems Cons.IH [OF l] h l False by (auto split: option.splits)
  qed
qed simp

text \<open>C15: A loss report is charged to one link at most. Attribution either changes nothing, or removes the lost sequence
  number from one link that has it in flight and charges that link's window. When the tracker knows the
  owner and it is still in the bond, no other link is charged; only without an owner are the links searched, and
  then a report that matches no link changes none.\<close>

theorem nak_attribution:
  "case attribute_nak tr nak now conns of (r, conns') \<Rightarrow>
     (case r of
        None \<Rightarrow> conns' = conns
      | Some p \<Rightarrow> p < length conns \<and> nak \<in> Mapping.keys (c_packet_log (conns ! p)) \<and>
          conns' = conns[p := snd (handle_nak nak now (conns ! p))] \<and>
          nak \<notin> Mapping.keys (c_packet_log (conns' ! p))) \<and>
     (case owner_index tr nak now conns of
        Some q \<Rightarrow> c_conn_id (conns ! q) = the (tracker_get nak now tr) \<and>
          r = (if nak \<in> Mapping.keys (c_packet_log (conns ! q)) then Some q else None)
      | None \<Rightarrow> (r = None) = list_all (\<lambda>c. nak \<notin> Mapping.keys (c_packet_log c)) conns)"
proof -
  have gone: "nak \<notin> Mapping.keys (c_packet_log (snd (handle_nak nak now c)))" if "nak \<in> Mapping.keys (c_packet_log c)" for c
    using that by (simp add: handle_nak_def keys_lookup case_prod_beta Let_def lookup_delete_if)
  show ?thesis
  proof (cases "owner_index tr nak now conns")
    case None
    then have "attribute_nak tr nak now conns = nak_scan nak now conns"
      by (auto simp: owner_index_def attribute_nak_def split: option.splits)
    then show ?thesis
      using None gone nak_scan_result [of nak now conns] by (auto simp: list_all_length split: prod.splits option.splits)
  next
    case (Some q)
    then obtain cid where t: "tracker_get nak now tr = Some cid" and p: "position (\<lambda>c. c_conn_id c = cid) conns = Some q"
      by (auto simp: owner_index_def split: option.splits)
    have q: "q < length conns" "c_conn_id (conns ! q) = cid" using position_Some [OF p] by auto
    have "attribute_nak tr nak now conns =
        (if nak \<in> Mapping.keys (c_packet_log (conns ! q)) then Some q else None, conns[q := snd (handle_nak nak now (conns ! q))])"
      by (simp add: attribute_nak_def t p case_prod_beta handle_nak_found(1))
    then show ?thesis using Some q t gone handle_nak_found(2) [of nak "conns ! q" now] by auto
  qed
qed

section \<open>Stray registration frames\<close>

text \<open>A REG3 that no grant is waiting for is reported as no registration event and is then handled like
  an unknown datagram: the frame is queued for the encoder, and it counts as a sign of life of the link, although it
  does not register it.\<close>

theorem stray_reg3_reaches_client:
  assumes "get_packet_type data = Some SRTLA_TYPE_REG3" "idx \<notin> set (rm_awaiting_reg3 reg)"
    and "process_uplink_packet hash_fn try_send now idx client data conn reg dedup = (inc, es, conn', reg', dedup')"
  shows "forward_to_client inc = [data] \<and> c_connected conn' = c_connected conn \<and>
    c_last_received conn' = (if c_connected conn \<or> connection_established_ms (c_reconnection conn) = 0 then Some now
      else c_last_received conn)"
  using assms
  by (auto simp: process_uplink_packet_def process_registration_packet_def handle_reg3_def protocol_consts
      refresh_liveness_def SrtlaIncoming_default_def Let_def split: if_splits)

theorem stray_reg3_reaches_client_witness:
  "forward_to_client (fst (process_uplink_packet length TrySent 10 0 None [0x92, 0x02] live_link
     (RegistrationManager_new [] []) ClientDedup_new)) = [[0x92, 0x02]]"
proof -
  obtain inc es c r d where p: "process_uplink_packet length TrySent 10 0 None [0x92, 0x02] live_link
     (RegistrationManager_new [] []) ClientDedup_new = (inc, es, c, r, d)" by (metis prod_cases5)
  have "get_packet_type [0x92, 0x02] = Some SRTLA_TYPE_REG3" by code_simp
  from stray_reg3_reaches_client [OF this _ p] have "forward_to_client inc = [[0x92, 0x02]]"
    by (simp add: RegistrationManager_new_def)
  then show ?thesis unfolding p by simp
qed

end
