(* ===== verification/Housekeeping.thy ===== *)
theory Housekeeping
  imports Forwarding
begin

text \<open>
  Housekeeping and the receiver's address: \<^verbatim>\<open>src/sender/housekeeping.rs\<close>, \<^verbatim>\<open>src/sender/rehome.rs\<close> and the reconnect half
  of \<^verbatim>\<open>src/sender/connections.rs\<close>. The I/O map is a \<open>mapping\<close> from link id to its remote address; the outcome of a
  send, of re-opening a socket and of the name lookup are parameters, as are the clock, the random bytes
  drawn by a re-home and whether a reader task has ended. The diagnostic lookup after a reconnect is detached from the
  state and left out.
\<close>

definition GLOBAL_TIMEOUT_MS :: u64 where "GLOBAL_TIMEOUT_MS = 10000"
definition REHOME_MIN_INTERVAL_MS :: u64 where "REHOME_MIN_INTERVAL_MS = 60000"
definition DNS_DRIFT_WARN_INTERVAL_MS :: u64 where "DNS_DRIFT_WARN_INTERVAL_MS = 60000"

record ConnIo =
  io_remote :: SocketAddr

type_synonym IoMap = "(u64, ConnIo) mapping"

record HkEnv =
  h_now :: u64
  h_now_probing :: u64
  h_send :: "u64 \<Rightarrow> bytes \<Rightarrow> SendOutcome"
  h_rebuild :: "u64 \<Rightarrow> bool"
  h_reader_dead :: "u64 \<Rightarrow> bool"
  h_resolve :: "u16 \<Rightarrow> SocketAddr list option"
  h_id_half :: bytes
  h_probe_id :: bytes

section \<open>Reconnecting\<close>

text \<open>None: the socket could not be re-opened, and nothing has changed.\<close>

definition rebuild_uplink_socket ::
  "HkEnv \<Rightarrow> SrtlaConnection \<Rightarrow> SequenceTracker \<Rightarrow> (SrtlaConnection \<times> SequenceTracker) option" where
  "rebuild_uplink_socket env conn tr =
     (if \<not> h_rebuild env (c_conn_id conn) then None
      else
        let conn1 = reset_for_reconnect (h_now env) conn;
            tr1 = remove_connection (c_conn_id conn1) tr
        in Some (conn1\<lparr> c_reconnection := reset_startup_grace (h_now env) (c_reconnection conn1) \<rparr>, tr1))"

definition reconnect_uplink ::
  "HkEnv \<Rightarrow> SrtlaConnection \<Rightarrow> SequenceTracker \<Rightarrow> (SrtlaConnection \<times> SequenceTracker) option" where
  "reconnect_uplink env conn tr = rebuild_uplink_socket env conn tr"

definition claim_dns_drift_warning :: "u64 \<Rightarrow> u64 \<Rightarrow> bool \<times> u64" where
  "claim_dns_drift_warning now last_warn =
     (if last_warn \<noteq> 0 \<and> now - last_warn < DNS_DRIFT_WARN_INTERVAL_MS then (False, last_warn) else (True, max now 1))"

definition dns_drift_detected :: "SocketAddr \<Rightarrow> SocketAddr list \<Rightarrow> bool" where
  "dns_drift_detected cached fresh \<longleftrightarrow> fresh \<noteq> [] \<and> cached \<notin> set fresh"

definition receiver_moved :: "SocketAddr list \<Rightarrow> SocketAddr list \<Rightarrow> bool" where
  "receiver_moved current fresh \<longleftrightarrow> current \<noteq> [] \<and> list_all (\<lambda>c. dns_drift_detected c fresh) current"

definition io_send :: "HkEnv \<Rightarrow> IoMap \<Rightarrow> bytes \<Rightarrow> SrtlaConnection \<Rightarrow> SrtlaConnection \<times> effect list" where
  "io_send env io pkt conn =
     (case Mapping.lookup io (c_conn_id conn) of
        None \<Rightarrow> (conn, [])
      | Some _ \<Rightarrow>
          (case h_send env (c_conn_id conn) pkt of
             SendOk \<Rightarrow> (note_sent (h_now env) conn, [ToUplink (c_conn_id conn) pkt])
           | SendErr _ \<Rightarrow> (conn, [])))"

text \<open>A send whose result is dropped, without a send stamp.\<close>

definition io_send_unstamped :: "HkEnv \<Rightarrow> IoMap \<Rightarrow> bytes \<Rightarrow> SrtlaConnection \<Rightarrow> effect list" where
  "io_send_unstamped env io pkt conn = snd (io_send env io pkt conn)"

section \<open>Re-homing the bond\<close>

record RehomeGate =
  rg_enabled :: bool
  rg_last_probe_ms :: "u64 option"
  rg_rehomes :: u64

definition RehomeGate_new :: "bool \<Rightarrow> RehomeGate" where
  "RehomeGate_new enabled = \<lparr> rg_enabled = enabled, rg_last_probe_ms = None, rg_rehomes = 0 \<rparr>"

definition claim_probe :: "u64 \<Rightarrow> RehomeGate \<Rightarrow> bool \<times> RehomeGate" where
  "claim_probe now g =
     (if \<not> rg_enabled g then (False, g)
      else if (case rg_last_probe_ms g of Some last' \<Rightarrow> now - last' < REHOME_MIN_INTERVAL_MS | None \<Rightarrow> False) then (False, g)
      else (True, g\<lparr> rg_last_probe_ms := Some now \<rparr>))"

record HkState =
  hk_conns :: "SrtlaConnection list"
  hk_io :: IoMap
  hk_reg :: SrtlaRegistrationManager
  hk_tracker :: SequenceTracker
  hk_all_failed_at :: "u64 option"
  hk_rehome :: RehomeGate

definition pinned_addrs :: "IoMap \<Rightarrow> SrtlaConnection list \<Rightarrow> SocketAddr list" where
  "pinned_addrs io conns =
     fold (\<lambda>c current. case Mapping.lookup io (c_conn_id c) of
             Some e \<Rightarrow> if io_remote e \<in> set current then current else current @ [io_remote e] | None \<Rightarrow> current) conns []"

definition repoint :: "SocketAddr \<Rightarrow> SrtlaConnection list \<Rightarrow> IoMap \<Rightarrow> IoMap" where
  "repoint new_remote conns io =
     fold (\<lambda>c io. case Mapping.lookup io (c_conn_id c) of
             Some e \<Rightarrow> Mapping.update (c_conn_id c) (e\<lparr> io_remote := new_remote \<rparr>) io | None \<Rightarrow> io) conns io"

fun rebuild_loop ::
  "HkEnv \<Rightarrow> IoMap \<Rightarrow> SrtlaConnection list \<Rightarrow> SequenceTracker \<Rightarrow> SrtlaConnection list \<times> SequenceTracker \<times> effect list"
where
  "rebuild_loop env io [] tr = ([], tr, [])"
| "rebuild_loop env io (c # cs) tr =
     (case (case Mapping.lookup io (c_conn_id c) of
              Some _ \<Rightarrow>
                (case rebuild_uplink_socket env c tr of
                   Some (c', tr') \<Rightarrow> (c', tr', [RestartReader (c_conn_id c)])
                 | None \<Rightarrow> (case recover_connection c tr of (c', tr') \<Rightarrow> (c', tr', [])))
            | None \<Rightarrow> (case recover_connection c tr of (c', tr') \<Rightarrow> (c', tr', []))) of
        (c', tr1, es1) \<Rightarrow> (case rebuild_loop env io cs tr1 of (cs', tr', es) \<Rightarrow> (c' # cs', tr', es1 @ es)))"

definition rehome_bond :: "HkEnv \<Rightarrow> SocketAddr \<Rightarrow> HkState \<Rightarrow> HkState \<times> effect list" where
  "rehome_bond env new_remote st =
     (let io = repoint new_remote (hk_conns st) (hk_io st) in
      case rebuild_loop env io (hk_conns st) (hk_tracker st) of
        (conns, tr, effs1) \<Rightarrow>
          (case start_probing conns (h_now env) (reset_for_rehome (h_id_half env) (h_probe_id env) (hk_reg st)) of
             (probes, conns', reg) \<Rightarrow>
               (st\<lparr> hk_conns := conns', hk_io := io, hk_reg := reg, hk_tracker := tr \<rparr>,
                effs1 @ concat (map (\<lambda>(idx, pkt). if idx < length conns' then io_send_unstamped env io pkt (conns' ! idx)
                                                  else []) probes))))"

definition try_rehome :: "HkEnv \<Rightarrow> HkState \<Rightarrow> bool \<times> HkState \<times> effect list" where
  "try_rehome env st =
     (case pinned_addrs (hk_io st) (hk_conns st) of
        [] \<Rightarrow> (False, st, [])
      | pinned # more_addrs \<Rightarrow>
          (case claim_probe (h_now env) (hk_rehome st) of
             (claimed, gate) \<Rightarrow>
               let st1 = st\<lparr> hk_rehome := gate \<rparr> in
               if \<not> claimed then (False, st1, [])
               else
                 case h_resolve env (snd pinned) of
                   None \<Rightarrow> (False, st1, [])
                 | Some fresh \<Rightarrow>
                     if \<not> receiver_moved (pinned # more_addrs) fresh then (False, st1, [])
                     else
                       case rehome_bond env (hd fresh) st1 of
                         (st2, effs) \<Rightarrow>
                           (True, st2\<lparr> hk_rehome := (hk_rehome st2)
                              \<lparr> rg_rehomes := u64_saturating_add (rg_rehomes (hk_rehome st2)) 1 \<rparr> \<rparr>, effs)))"

section \<open>The housekeeping tick\<close>

definition hk_reconnect ::
  "HkEnv \<Rightarrow> IoMap \<Rightarrow> SrtlaConnection \<Rightarrow> SequenceTracker \<Rightarrow> SrtlaConnection \<times> SequenceTracker \<times> effect list" where
  "hk_reconnect env io conn tr =
     (case Mapping.lookup io (c_conn_id conn) of
        Some _ \<Rightarrow>
          (case reconnect_uplink env conn tr of
             Some (conn', tr') \<Rightarrow> (conn', tr', [RestartReader (c_conn_id conn)])
           | None \<Rightarrow> (case recover_connection conn tr of (conn', tr') \<Rightarrow> (conn', tr', [])))
      | None \<Rightarrow> (case recover_connection conn tr of (conn', tr') \<Rightarrow> (conn', tr', [])))"

definition hk_timed_out ::
  "HkEnv \<Rightarrow> IoMap \<Rightarrow> usize \<Rightarrow> SrtlaConnection \<Rightarrow> SrtlaRegistrationManager \<Rightarrow> SequenceTracker \<Rightarrow>
   SrtlaConnection \<times> SrtlaRegistrationManager \<times> SequenceTracker \<times> effect list"
where
  "hk_timed_out env io i conn reg tr =
     (if \<not> conn_should_attempt_reconnect (h_now env) conn then (conn, reg, tr, [])
      else
        case hk_reconnect env io (record_reconnect_attempt (h_now env) conn) tr of
          (conn1, tr1, es1) \<Rightarrow>
            (case rm_pending_reg2_idx reg of
               Some idx \<Rightarrow>
                 if idx = i then
                   (case build_reg1_for i (h_now env) reg of
                      (pkt, reg1) \<Rightarrow> (case io_send env io pkt conn1 of (conn2, es2) \<Rightarrow> (conn2, reg1, tr1, es1 @ es2)))
                 else (conn1, reg, tr1, es1)
             | None \<Rightarrow>
                 (case build_reg2 i reg of
                    (pkt, reg1) \<Rightarrow> (case io_send env io pkt conn1 of (conn2, es2) \<Rightarrow> (conn2, reg1, tr1, es1 @ es2)))))"

definition hk_keepalive :: "HkEnv \<Rightarrow> IoMap \<Rightarrow> bool \<Rightarrow> SrtlaConnection \<Rightarrow> SrtlaConnection \<times> effect list" where
  "hk_keepalive env io due conn =
     (if due then (case keepalive_packet (h_now env) conn of (ka, conn') \<Rightarrow> (conn', io_send_unstamped env io ka conn'))
      else (conn, []))"

definition hk_active :: "HkEnv \<Rightarrow> IoMap \<Rightarrow> bool \<Rightarrow> SrtlaConnection \<Rightarrow> SrtlaConnection \<times> effect list" where
  "hk_active env io classic conn =
     (case hk_keepalive env io (needs_keepalive (h_now env) conn) conn of
        (conn1, es1) \<Rightarrow>
          (case hk_keepalive env io (needs_rtt_measurement (h_now env) conn1) conn1 of
             (conn2, es2) \<Rightarrow>
               let conn3 = (if \<not> classic then perform_window_recovery (h_now env) conn2 else conn2);
                   conn4 = recompute_batch_regime (update_phase (h_now env) (calculate_bitrate (h_now env) conn3));
                   es3 = (if h_reader_dead env (c_conn_id conn4) \<and> Mapping.lookup io (c_conn_id conn4) \<noteq> None
                          then [RestartReader (c_conn_id conn4)] else [])
               in (conn4, es1 @ es2 @ es3)))"

fun hk_loop ::
  "HkEnv \<Rightarrow> IoMap \<Rightarrow> bool \<Rightarrow> usize \<Rightarrow> SrtlaConnection list \<Rightarrow> SrtlaRegistrationManager \<Rightarrow> SequenceTracker \<Rightarrow>
   SrtlaConnection list \<times> SrtlaRegistrationManager \<times> SequenceTracker \<times> effect list"
where
  "hk_loop env io classic i [] reg tr = ([], reg, tr, [])"
| "hk_loop env io classic i (c # cs) reg tr =
     (case (if is_timed_out (h_now env) c then hk_timed_out env io i c reg tr
            else case hk_active env io classic c of (c', es) \<Rightarrow> (c', reg, tr, es)) of
        (c', reg1, tr1, es1) \<Rightarrow>
          (case hk_loop env io classic (Suc i) cs reg1 tr1 of (cs', reg', tr', es) \<Rightarrow> (c' # cs', reg', tr', es1 @ es)))"

definition hk_probing :: "HkEnv \<Rightarrow> HkState \<Rightarrow> HkState" where
  "hk_probing env st =
     (if \<not> is_probing (hk_reg st) then st
      else
        let reg = snd (check_probing_complete (h_now_probing env) (hk_reg st)); st1 = st\<lparr> hk_reg := reg \<rparr> in
        if is_probing reg then st1
        else case rm_reg1_target_idx reg of
               Some idx \<Rightarrow>
                 if idx < length (hk_conns st1) then
                   st1\<lparr> hk_conns := (hk_conns st1)[idx := (hk_conns st1 ! idx)
                          \<lparr> c_reconnection := (c_reconnection (hk_conns st1 ! idx))
                              \<lparr> startup_grace_deadline_ms := u64_add (h_now env) STARTUP_GRACE_MS \<rparr> \<rparr>] \<rparr>
                 else st1
             | None \<Rightarrow> st1)"

definition hk_driver_sends ::
  "HkEnv \<Rightarrow> IoMap \<Rightarrow> RegDriverSends \<Rightarrow> SrtlaConnection list \<Rightarrow> SrtlaConnection list \<times> effect list" where
  "hk_driver_sends env io sends conns =
     (let (conns1, es1) =
            (case rs_reg1 sends of
               Some (idx, pkt) \<Rightarrow>
                 if idx < length conns
                 then (case io_send env io pkt (conns ! idx) of (c', es) \<Rightarrow> (conns[idx := c'], es)) else (conns, [])
             | None \<Rightarrow> (conns, []))
      in case rs_broadcast_reg2 sends of
           Some pkt \<Rightarrow> (map (\<lambda>c. fst (io_send env io pkt c)) conns1, es1 @ concat (map (\<lambda>c. snd (io_send env io pkt c)) conns1))
         | None \<Rightarrow> (conns1, es1))"

definition hk_failure :: "HkEnv \<Rightarrow> HkState \<Rightarrow> (string + unit) \<times> HkState \<times> effect list" where
  "hk_failure env st =
     (if list_ex (\<lambda>c. \<not> is_timed_out (h_now env) c) (hk_conns st) then (Inr (), st\<lparr> hk_all_failed_at := None \<rparr>, [])
      else
        let failed_at = (case hk_all_failed_at st of None \<Rightarrow> h_now env | Some t \<Rightarrow> t);
            st1 = st\<lparr> hk_all_failed_at := Some failed_at \<rparr>
        in if h_now env - failed_at > GLOBAL_TIMEOUT_MS then
             (case try_rehome env st1 of
                (True, st2, effs) \<Rightarrow> (Inr (), st2\<lparr> hk_all_failed_at := Some (h_now env) \<rparr>, effs)
              | (False, st2, effs) \<Rightarrow>
                  (Inl (if rm_has_connected (hk_reg st2) then ''Failed to re-establish any connections''
                        else ''Failed to establish any initial connections''), st2, effs))
           else (Inr (), st1, []))"

text \<open>The part of the tick before the failure check: the REG2 timeout, probing, the links one by one, and the registration sends.\<close>

definition hk_serve :: "HkEnv \<Rightarrow> bool \<Rightarrow> HkState \<Rightarrow> HkState \<times> effect list" where
  "hk_serve env classic st0 =
     (let st1 = hk_probing env (st0\<lparr> hk_reg := snd (clear_pending_if_timed_out (h_now env) (hk_reg st0)) \<rparr>) in
      case hk_loop env (hk_io st1) classic 0 (hk_conns st1) (hk_reg st1) (hk_tracker st1) of
        (conns, reg, tr, es1) \<Rightarrow>
          (case reg_driver_pending_sends (length conns) (h_now env) (update_active_connections conns reg) of
             (sends, reg1) \<Rightarrow>
               (case hk_driver_sends env (hk_io st1) sends conns of
                  (conns1, es2) \<Rightarrow> (st1\<lparr> hk_conns := conns1, hk_reg := reg1, hk_tracker := tr \<rparr>, es1 @ es2))))"

definition handle_housekeeping :: "HkEnv \<Rightarrow> bool \<Rightarrow> HkState \<Rightarrow> (string + unit) \<times> HkState \<times> effect list" where
  "handle_housekeeping env classic st0 =
     (case hk_serve env classic st0 of
        (st, es1) \<Rightarrow> (case hk_failure env st of (res, st', es2) \<Rightarrow> (res, st', es1 @ es2)))"

section \<open>Housekeeping keeps the invariant\<close>

lemma status_tick_ops [simp]:
  "status (perform_window_recovery now c) = status c" "status (calculate_bitrate now c) = status c"
  "status (recompute_batch_regime c) = status c" "status (record_reconnect_attempt now c) = status c"
  by (simp_all add: perform_window_recovery_def calculate_bitrate_def recompute_batch_regime_def
      record_reconnect_attempt_def record_attempt_def status_def is_schedulable_def case_prod_beta Let_def)

lemma id_tick_ops [simp]:
  "c_conn_id (perform_window_recovery now c) = c_conn_id c" "c_conn_id (calculate_bitrate now c) = c_conn_id c"
  "c_conn_id (recompute_batch_regime c) = c_conn_id c" "c_conn_id (record_reconnect_attempt now c) = c_conn_id c"
  "c_conn_id (update_phase now c) = c_conn_id c" "c_conn_id (reset_for_reconnect now c) = c_conn_id c"
  by (simp_all add: perform_window_recovery_def calculate_bitrate_def recompute_batch_regime_def update_phase_def
      record_reconnect_attempt_def reset_for_reconnect_def reset_core_state_def case_prod_beta Let_def split: LinkPhase.split)

lemma keeps_status: "(link_ok c \<Longrightarrow> link_ok d) \<Longrightarrow> status d = status c \<Longrightarrow> c_conn_id d = c_conn_id c \<Longrightarrow> link_keeps c d"
  unfolding link_keeps_def using link_goodI [of d c] by (auto simp: link_good_def)

lemma status_phase [simp]: "status (update_phase now c) = status c"
  by (simp add: update_phase_def status_def is_schedulable_def phase_is_schedulable_def Let_def split: LinkPhase.split)

lemma keeps_tick_ops:
  "link_keeps c (perform_window_recovery now c)" "link_keeps c (calculate_bitrate now c)"
  "link_keeps c (recompute_batch_regime c)" "link_keeps c (record_reconnect_attempt now c)"
  "link_keeps c (update_phase now c)" "link_keeps c (snd (keepalive_packet now c))"
  by (rule keeps_status; simp add: inv_intros)+

lemma keeps_rebuild:
  assumes "rebuild_uplink_socket env c tr = Some (c', tr')"
  shows "link_keeps c c' \<and> (tracker_ok tr \<longrightarrow> tracker_ok tr')"
proof -
  have "c' = (reset_for_reconnect (h_now env) c)\<lparr> c_reconnection := reset_startup_grace (h_now env)
      (c_reconnection (reset_for_reconnect (h_now env) c)) \<rparr>" and tr: "tr' = remove_connection (c_conn_id c) tr"
    using assms by (auto simp: rebuild_uplink_socket_def Let_def split: if_splits)
  then have "link_ok c'" "c_conn_id c' = c_conn_id c" using link_ok_reconnect [of "h_now env" c] by simp_all
  moreover have "status_ok c \<Longrightarrow> status_ok c'"
    using \<open>c' = _\<close> by (simp add: status_ok_def reset_for_reconnect_def reset_core_state_def is_schedulable_def
        phase_is_schedulable_def Let_def)
  ultimately show ?thesis using tr by (simp add: link_keeps_def link_good_def)
qed

lemma keeps_recover: "recover_connection c tr = (c', tr') \<Longrightarrow> link_keeps c c' \<and> (tracker_ok tr \<longrightarrow> tracker_ok tr')"
  by (auto simp: recover_connection_def)

lemma keeps_io_send: "link_keeps c (fst (io_send env io pkt c))"
  by (auto simp: io_send_def split: option.split SendOutcome.split)

lemma hk_reconnect_keeps:
  "hk_reconnect env io c tr = (c', tr', es) \<Longrightarrow> link_keeps c c' \<and> (tracker_ok tr \<longrightarrow> tracker_ok tr')"
  by (auto simp: hk_reconnect_def reconnect_uplink_def split: option.splits prod.splits dest: keeps_rebuild keeps_recover)

lemma hk_timed_out_keeps:
  assumes "hk_timed_out env io i c reg tr = (c', reg', tr', es)"
  shows "link_keeps c c' \<and> (tracker_ok tr \<longrightarrow> tracker_ok tr')"
proof (cases "conn_should_attempt_reconnect (h_now env) c")
  case False
  then show ?thesis using assms by (simp add: hk_timed_out_def)
next
  case True
  obtain c1 tr1 es1 where r: "hk_reconnect env io (record_reconnect_attempt (h_now env) c) tr = (c1, tr1, es1)"
    by (metis prod_cases3)
  have "c' = c1 \<or> (\<exists>pkt. c' = fst (io_send env io pkt c1))" "tr' = tr1"
    using assms True by (auto simp: hk_timed_out_def r split: option.splits prod.splits if_splits) (metis fst_conv)+
  then show ?thesis
    using hk_reconnect_keeps [OF r] keeps_io_send link_keeps_trans [OF keeps_tick_ops(4)] link_keeps_trans by blast
qed

lemma hk_active_keeps: "link_keeps c (fst (hk_active env io classic c))"
proof -
  have ka: "link_keeps d (fst (hk_keepalive env io due d))" for due d
    by (simp add: hk_keepalive_def case_prod_beta keeps_tick_ops)
  have rest: "link_keeps d (recompute_batch_regime (update_phase t (calculate_bitrate t d)))" for d t
    by (rule link_keeps_trans [OF keeps_tick_ops(2) link_keeps_trans [OF keeps_tick_ops(5) keeps_tick_ops(3)]])
  note ka2 = link_keeps_trans [OF ka ka]
  show ?thesis
    using link_keeps_trans [OF ka2 rest] link_keeps_trans [OF link_keeps_trans [OF ka2 keeps_tick_ops(1)] rest]
    by (simp add: hk_active_def case_prod_beta Let_def)
qed

lemma hk_loop_keeps:
  "hk_loop env io classic i cs reg tr = (cs', reg', tr', es) \<Longrightarrow> conns_keep cs cs' \<and> (tracker_ok tr \<longrightarrow> tracker_ok tr')"
proof (induction env io classic i cs reg tr arbitrary: cs' reg' tr' es rule: hk_loop.induct)
  case (2 env io classic i c cs reg tr)
  let ?step = "if is_timed_out (h_now env) c then hk_timed_out env io i c reg tr
            else case hk_active env io classic c of (c', es) \<Rightarrow> (c', reg, tr, es)"
  obtain c1 reg1 tr1 es1 where s: "?step = (c1, reg1, tr1, es1)" by (metis prod_cases4)
  obtain ds reg2 tr2 es2 where l: "hk_loop env io classic (Suc i) cs reg1 tr1 = (ds, reg2, tr2, es2)" by (metis prod_cases4)
  have "link_keeps c c1 \<and> (tracker_ok tr \<longrightarrow> tracker_ok tr1)"
    using s hk_active_keeps [of c env io classic] by (auto split: if_splits prod.splits dest: hk_timed_out_keeps)
  moreover have "conns_keep cs ds \<and> (tracker_ok tr1 \<longrightarrow> tracker_ok tr2)"
    by (rule 2(1) [OF s [symmetric] refl refl l])
  ultimately show ?case using 2(2) s l by auto
qed simp

definition hk_keeps :: "HkState \<Rightarrow> HkState \<Rightarrow> bool" where
  "hk_keeps st st' \<longleftrightarrow> conns_keep (hk_conns st) (hk_conns st') \<and> (tracker_ok (hk_tracker st) \<longrightarrow> tracker_ok (hk_tracker st'))"

lemma hk_keeps_trans: "hk_keeps a b \<Longrightarrow> hk_keeps b c \<Longrightarrow> hk_keeps a c"
  by (auto simp: hk_keeps_def intro: conns_keep_trans)

lemma keeps_grace: "link_keeps c (c\<lparr> c_reconnection := (c_reconnection c)\<lparr> startup_grace_deadline_ms := t \<rparr> \<rparr>)"
  by (rule keeps_status) (simp_all add: status_def is_schedulable_def)

lemma hk_probing_keeps: "hk_keeps st (hk_probing env st)" "hk_io (hk_probing env st) = hk_io st"
  "hk_all_failed_at (hk_probing env st) = hk_all_failed_at st" "hk_rehome (hk_probing env st) = hk_rehome st"
  by (auto simp: hk_probing_def hk_keeps_def Let_def intro!: conns_keep_update keeps_grace split: option.split)

lemma hk_driver_sends_keeps: "conns_keep cs (fst (hk_driver_sends env io sends cs))"
proof -
  have m: "conns_keep ds (map (\<lambda>c. fst (io_send env io pkt c)) ds)" for ds pkt
    by (rule conns_keep_map) (rule keeps_io_send)
  have u: "conns_keep cs (cs[i := fst (io_send env io pkt (cs ! i))])" for i pkt
    by (rule conns_keep_update) (rule keeps_io_send)
  show ?thesis
    using u m conns_keep_trans [OF u m]
    by (simp add: hk_driver_sends_def case_prod_beta Let_def split: option.split)
qed

lemma rebuild_loop_keeps:
  "rebuild_loop env io cs tr = (cs', tr', es) \<Longrightarrow> conns_keep cs cs' \<and> (tracker_ok tr \<longrightarrow> tracker_ok tr') \<and>
     list_all (\<lambda>c. \<not> c_connected c \<and> \<not> is_schedulable c) cs'"
proof (induction env io cs tr arbitrary: cs' tr' es rule: rebuild_loop.induct)
  case (2 env io c cs tr)
  let ?step = "case Mapping.lookup io (c_conn_id c) of
      Some _ \<Rightarrow> (case rebuild_uplink_socket env c tr of Some (c', tr') \<Rightarrow> (c', tr', [RestartReader (c_conn_id c)])
        | None \<Rightarrow> (case recover_connection c tr of (c', tr') \<Rightarrow> (c', tr', [])))
    | None \<Rightarrow> (case recover_connection c tr of (c', tr') \<Rightarrow> (c', tr', []))"
  obtain c1 tr1 es1 where s: "?step = (c1, tr1, es1)" by (metis prod_cases3)
  obtain ds tr2 es2 where l: "rebuild_loop env io cs tr1 = (ds, tr2, es2)" by (metis prod_cases3)
  have "link_keeps c c1 \<and> (tracker_ok tr \<longrightarrow> tracker_ok tr1)"
    using s by (auto split: option.splits prod.splits dest: keeps_rebuild keeps_recover)
  moreover have "\<not> c_connected c1 \<and> \<not> is_schedulable c1"
    using s by (auto simp: rebuild_uplink_socket_def recover_connection_def reset_for_reconnect_def reset_core_state_def
        mark_for_recovery_def is_schedulable_def phase_is_schedulable_def Let_def split: option.splits if_splits)
  ultimately show ?case using 2(1) [OF s [symmetric] refl l] 2(2) s l by auto
qed simp

lemma start_probing_conns:
  assumes "start_probing conns now m = (probes, conns', m')"
  shows "conns' = conns \<or> conns' = map (\<lambda>c. c\<lparr> c_reconnection := (c_reconnection c)
    \<lparr> startup_grace_deadline_ms := u64_add now STARTUP_GRACE_MS \<rparr> \<rparr>) conns"
  using assms by (auto simp: start_probing_def probe_reg2_packet_def Let_def comp_def split: if_splits)

lemma start_probing_keeps: "start_probing conns now m = (probes, conns', m') \<Longrightarrow> conns_keep conns conns'"
  using start_probing_conns [of conns now m probes conns' m'] conns_keep_map [OF keeps_grace] by auto

lemma rehome_bond_keeps: "hk_keeps st (fst (rehome_bond env a st))"
  using conns_keep_trans
  by (auto simp: rehome_bond_def hk_keeps_def Let_def split: prod.splits dest!: rebuild_loop_keeps start_probing_keeps)

lemma try_rehome_keeps: "hk_keeps st (fst (snd (try_rehome env st)))"
proof -
  have "hk_keeps (st\<lparr> hk_rehome := g \<rparr>) (fst (rehome_bond env a (st\<lparr> hk_rehome := g \<rparr>)))" for a g by (rule rehome_bond_keeps)
  then show ?thesis
    by (simp add: try_rehome_def case_prod_beta Let_def hk_keeps_def split: list.split option.split)
qed

lemma hk_failure_keeps: "hk_keeps st (fst (snd (hk_failure env st)))"
proof -
  have "hk_keeps (st\<lparr> hk_all_failed_at := t \<rparr>) (fst (snd (try_rehome env (st\<lparr> hk_all_failed_at := t \<rparr>))))" for t
    by (rule try_rehome_keeps)
  then show ?thesis
    by (simp add: hk_failure_def case_prod_beta Let_def hk_keeps_def split: bool.split)
qed

text \<open>What precedes the failure check touches neither the addresses nor the failure clock.\<close>

lemma hk_serve_keeps:
  "hk_io (fst (hk_serve env classic st)) = hk_io st"
  "hk_all_failed_at (fst (hk_serve env classic st)) = hk_all_failed_at st"
  "hk_rehome (fst (hk_serve env classic st)) = hk_rehome st"
  "hk_keeps st (fst (hk_serve env classic st))"
proof -
  define st1 where "st1 = hk_probing env (st\<lparr> hk_reg := snd (clear_pending_if_timed_out (h_now env) (hk_reg st)) \<rparr>)"
  obtain conns reg tr es1 where l: "hk_loop env (hk_io st1) classic 0 (hk_conns st1) (hk_reg st1) (hk_tracker st1) =
      (conns, reg, tr, es1)" by (metis prod_cases4)
  obtain sends reg1 where d: "reg_driver_pending_sends (length conns) (h_now env) (update_active_connections conns reg) = (sends, reg1)"
    by fastforce
  have st2: "fst (hk_serve env classic st) =
      st1\<lparr> hk_conns := fst (hk_driver_sends env (hk_io st1) sends conns), hk_reg := reg1, hk_tracker := tr \<rparr>"
    by (simp add: hk_serve_def Let_def st1_def [symmetric] l d case_prod_beta)
  have "hk_keeps st st1"
    using hk_probing_keeps(1) [of "st\<lparr> hk_reg := snd (clear_pending_if_timed_out (h_now env) (hk_reg st)) \<rparr>" env]
    by (simp add: st1_def hk_keeps_def)
  moreover have "hk_keeps st1 (fst (hk_serve env classic st))"
    using hk_loop_keeps [OF l] conns_keep_trans [OF _ hk_driver_sends_keeps] by (simp add: st2 hk_keeps_def)
  ultimately show "hk_keeps st (fst (hk_serve env classic st))" by (rule hk_keeps_trans)
  show "hk_io (fst (hk_serve env classic st)) = hk_io st"
    "hk_all_failed_at (fst (hk_serve env classic st)) = hk_all_failed_at st"
    "hk_rehome (fst (hk_serve env classic st)) = hk_rehome st"
    by (simp_all add: st2 st1_def hk_probing_keeps)
qed

lemma housekeeping_result:
  "fst (handle_housekeeping env classic st) = fst (hk_failure env (fst (hk_serve env classic st)))"
  "fst (snd (handle_housekeeping env classic st)) = fst (snd (hk_failure env (fst (hk_serve env classic st))))"
  by (simp_all add: handle_housekeeping_def case_prod_beta)

lemma housekeeping_keeps: "hk_keeps st (fst (snd (handle_housekeeping env classic st)))"
  unfolding housekeeping_result using hk_serve_keeps(4) hk_failure_keeps by (rule hk_keeps_trans)

section \<open>Addresses of the bond\<close>

definition remotes :: "IoMap \<Rightarrow> u64 set \<Rightarrow> SocketAddr set" where
  "remotes io ids = {io_remote e | k e. k \<in> ids \<and> Mapping.lookup io k = Some e}"

lemma remotes_simps [simp]:
  "remotes io {} = {}"
  "remotes io (insert k ids) = (case Mapping.lookup io k of Some e \<Rightarrow> {io_remote e} | None \<Rightarrow> {}) \<union> remotes io ids"
  by (auto simp: remotes_def split: option.splits)

lemma pinned_fold:
  "distinct acc \<Longrightarrow> distinct (fold (\<lambda>c current. case Mapping.lookup io (c_conn_id c) of
      Some e \<Rightarrow> if io_remote e \<in> set current then current else current @ [io_remote e] | None \<Rightarrow> current) conns acc) \<and>
   set (fold (\<lambda>c current. case Mapping.lookup io (c_conn_id c) of
      Some e \<Rightarrow> if io_remote e \<in> set current then current else current @ [io_remote e] | None \<Rightarrow> current) conns acc) =
     set acc \<union> remotes io (c_conn_id ` set conns)"
  by (induction conns arbitrary: acc) (auto split: option.splits)

lemma pinned_addrs_set: "set (pinned_addrs io conns) = remotes io (c_conn_id ` set conns)" "distinct (pinned_addrs io conns)"
  using pinned_fold [of "[]" io conns] by (simp_all add: pinned_addrs_def)

lemma pinned_addrs_cong: "map c_conn_id cs = map c_conn_id ds \<Longrightarrow> pinned_addrs io cs = pinned_addrs io ds"
proof -
  let ?f = "\<lambda>k current. case Mapping.lookup io k of
      Some e \<Rightarrow> if io_remote e \<in> set current then current else current @ [io_remote e] | None \<Rightarrow> current"
  have "pinned_addrs io xs = fold ?f (map c_conn_id xs) []" for xs by (simp add: pinned_addrs_def fold_map comp_def)
  then show "map c_conn_id cs = map c_conn_id ds \<Longrightarrow> ?thesis" by simp
qed

lemma repoint_lookup:
  "Mapping.lookup (repoint a conns io) k =
     map_option (\<lambda>e. if k \<in> c_conn_id ` set conns then e\<lparr> io_remote := a \<rparr> else e) (Mapping.lookup io k)"
  unfolding repoint_def
proof (induction conns arbitrary: io)
  case (Cons c cs)
  then show ?case
    by (cases "k = c_conn_id c") (auto simp: lookup_update' option.map_comp comp_def split: option.splits)
qed (simp add: option.map_ident)

lemma distinct_singleton: "distinct xs \<Longrightarrow> set xs = {a} \<Longrightarrow> xs = [a]"
  by (metis distinct_card card_1_singleton_iff length_0_conv length_Suc_conv list.set_intros(1) One_nat_def singletonD)

lemma pinned_repoint:
  assumes "pinned_addrs io conns \<noteq> []"
  shows "pinned_addrs (repoint a conns io) conns = [a]"
proof -
  have "remotes (repoint a conns io) (c_conn_id ` set conns) \<subseteq> {a}"
  proof
    fix b assume "b \<in> remotes (repoint a conns io) (c_conn_id ` set conns)"
    then obtain k e where k: "k \<in> c_conn_id ` set conns" and b: "b = io_remote e"
        and e: "Mapping.lookup (repoint a conns io) k = Some e"
      unfolding remotes_def by blast
    from e k obtain e0 where "e = e0\<lparr> io_remote := a \<rparr>" unfolding repoint_lookup by (cases "Mapping.lookup io k") auto
    with b show "b \<in> {a}" by simp
  qed
  moreover have "a \<in> remotes (repoint a conns io) (c_conn_id ` set conns)"
  proof -
    from assms obtain b where "b \<in> remotes io (c_conn_id ` set conns)"
      by (metis pinned_addrs_set(1) list.set_intros(1) neq_Nil_conv)
    then obtain k e where k: "k \<in> c_conn_id ` set conns" and e: "Mapping.lookup io k = Some e"
      by (auto simp: remotes_def)
    have "Mapping.lookup (repoint a conns io) k = Some (e\<lparr> io_remote := a \<rparr>)" using k e by (simp add: repoint_lookup)
    moreover have "a = io_remote (e\<lparr> io_remote := a \<rparr>)" by simp
    ultimately show ?thesis unfolding remotes_def mem_Collect_eq using k by (intro exI conjI) assumption+
  qed
  ultimately show ?thesis
    by (intro distinct_singleton pinned_addrs_set(2)) (simp only: pinned_addrs_set(1) subset_singleton_iff, auto)
qed

text \<open>When a re-home may look the name up, and when it goes through.\<close>

definition probe_due :: "HkEnv \<Rightarrow> RehomeGate \<Rightarrow> bool" where
  "probe_due env gate \<longleftrightarrow> rg_enabled gate \<and>
     (case rg_last_probe_ms gate of Some t \<Rightarrow> REHOME_MIN_INTERVAL_MS \<le> h_now env - t | None \<Rightarrow> True)"

definition moved_to :: "HkEnv \<Rightarrow> SocketAddr list \<Rightarrow> SocketAddr list \<Rightarrow> bool" where
  "moved_to env pinned fresh \<longleftrightarrow> pinned \<noteq> [] \<and> h_resolve env (snd (hd pinned)) = Some fresh \<and>
     fresh \<noteq> [] \<and> set fresh \<inter> set pinned = {}"

lemma receiver_moved_iff: "receiver_moved (p # ps) fresh \<longleftrightarrow> fresh \<noteq> [] \<and> set fresh \<inter> set (p # ps) = {}"
  by (auto simp: receiver_moved_def dns_drift_detected_def list_all_iff)

lemma claim_probe_due:
  "claim_probe (h_now env) gate =
     (if probe_due env gate then (True, gate\<lparr> rg_last_probe_ms := Some (h_now env) \<rparr>) else (False, gate))"
  by (auto simp: claim_probe_def probe_due_def split: option.split)

lemma moved_to_unique: "moved_to env pinned fresh \<Longrightarrow> moved_to env pinned fresh' \<Longrightarrow> fresh' = fresh"
  by (simp add: moved_to_def)

lemma try_rehome_iff:
  "fst (try_rehome env st) \<longleftrightarrow> probe_due env (hk_rehome st) \<and> (\<exists>fresh. moved_to env (pinned_addrs (hk_io st) (hk_conns st)) fresh)"
  by (auto simp: try_rehome_def claim_probe_due receiver_moved_iff moved_to_def Let_def case_prod_beta
      split: list.split option.split)

lemma try_rehome_unmoved:
  "\<not> fst (try_rehome env st) \<Longrightarrow> fst (snd (try_rehome env st)) =
     (if probe_due env (hk_rehome st) \<and> pinned_addrs (hk_io st) (hk_conns st) \<noteq> []
      then st\<lparr> hk_rehome := (hk_rehome st)\<lparr> rg_last_probe_ms := Some (h_now env) \<rparr> \<rparr> else st)"
  by (auto simp: try_rehome_def claim_probe_due Let_def case_prod_beta split: list.splits option.splits if_splits)

lemma rehome_bond_moves:
  assumes "pinned_addrs (hk_io st) (hk_conns st) \<noteq> []"
  shows "pinned_addrs (hk_io (fst (rehome_bond env a st))) (hk_conns (fst (rehome_bond env a st))) = [a]"
    and "list_all (\<lambda>c. \<not> c_connected c \<and> \<not> is_schedulable c) (hk_conns (fst (rehome_bond env a st)))"
    and "hk_rehome (fst (rehome_bond env a st)) = hk_rehome st"
    and "map c_conn_id (hk_conns (fst (rehome_bond env a st))) = map c_conn_id (hk_conns st)"
proof -
  define io where "io = repoint a (hk_conns st) (hk_io st)"
  obtain cs tr es where rb: "rebuild_loop env io (hk_conns st) (hk_tracker st) = (cs, tr, es)" by (metis prod_cases3)
  obtain probes cs' reg where sp: "start_probing cs (h_now env) (reset_for_rehome (h_id_half env) (h_probe_id env) (hk_reg st)) =
      (probes, cs', reg)" by (metis prod_cases3)
  have st2: "fst (rehome_bond env a st) = st\<lparr> hk_conns := cs', hk_io := io, hk_reg := reg, hk_tracker := tr \<rparr>"
    by (simp add: rehome_bond_def io_def [symmetric] rb sp Let_def)
  have ids: "map c_conn_id cs' = map c_conn_id (hk_conns st)"
    using rebuild_loop_keeps [OF rb] start_probing_keeps [OF sp] by (auto dest!: conns_keep_ids)
  show "map c_conn_id (hk_conns (fst (rehome_bond env a st))) = map c_conn_id (hk_conns st)" by (simp add: st2 ids)
  show "pinned_addrs (hk_io (fst (rehome_bond env a st))) (hk_conns (fst (rehome_bond env a st))) = [a]"
    using pinned_repoint [OF assms, of a] pinned_addrs_cong [OF ids, of io] by (simp add: st2 io_def)
  show "list_all (\<lambda>c. \<not> c_connected c \<and> \<not> is_schedulable c) (hk_conns (fst (rehome_bond env a st)))"
    using rebuild_loop_keeps [OF rb] start_probing_conns [OF sp] by (auto simp: st2 list_all_iff is_schedulable_def)
  show "hk_rehome (fst (rehome_bond env a st)) = hk_rehome st" by (simp add: st2)
qed

lemma try_rehome_moved:
  assumes "probe_due env (hk_rehome st)" "moved_to env (pinned_addrs (hk_io st) (hk_conns st)) fresh"
  defines "st' \<equiv> fst (snd (try_rehome env st))"
  shows "pinned_addrs (hk_io st') (hk_conns st') = [hd fresh]"
    and "list_all (\<lambda>c. \<not> c_connected c \<and> \<not> is_schedulable c) (hk_conns st')"
    and "hk_rehome st' = (hk_rehome st)\<lparr> rg_last_probe_ms := Some (h_now env),
           rg_rehomes := u64_saturating_add (rg_rehomes (hk_rehome st)) 1 \<rparr>"
    and "map c_conn_id (hk_conns st') = map c_conn_id (hk_conns st)"
proof -
  let ?g = "(hk_rehome st)\<lparr> rg_last_probe_ms := Some (h_now env) \<rparr>"
  let ?b = "fst (rehome_bond env (hd fresh) (st\<lparr> hk_rehome := ?g \<rparr>))"
  obtain p ps where p: "pinned_addrs (hk_io st) (hk_conns st) = p # ps" using assms(2) by (auto simp: moved_to_def neq_Nil_conv)
  then have "st' = ?b\<lparr> hk_rehome := (hk_rehome ?b)\<lparr> rg_rehomes := u64_saturating_add (rg_rehomes (hk_rehome ?b)) 1 \<rparr> \<rparr>"
    using assms(1,2)
    by (simp add: st'_def try_rehome_def claim_probe_due receiver_moved_iff moved_to_def Let_def case_prod_beta)
  then show "pinned_addrs (hk_io st') (hk_conns st') = [hd fresh]"
    "list_all (\<lambda>c. \<not> c_connected c \<and> \<not> is_schedulable c) (hk_conns st')"
    "hk_rehome st' = (hk_rehome st)\<lparr> rg_last_probe_ms := Some (h_now env),
       rg_rehomes := u64_saturating_add (rg_rehomes (hk_rehome st)) 1 \<rparr>"
    "map c_conn_id (hk_conns st') = map c_conn_id (hk_conns st)"
    using rehome_bond_moves [of "st\<lparr> hk_rehome := ?g \<rparr>" env "hd fresh"] p by simp_all
qed

section \<open>Total failure and re-homing\<close>

text \<open>The bond is dead when every link is timed out, and has failed when the failure clock, which starts at the first
  tick that finds the bond dead, has run for more than ten seconds.\<close>

definition bond_dead :: "HkEnv \<Rightarrow> HkState \<Rightarrow> bool" where
  "bond_dead env st \<longleftrightarrow> list_all (is_timed_out (h_now env)) (hk_conns st)"

definition dead_since :: "HkEnv \<Rightarrow> HkState \<Rightarrow> u64" where
  "dead_since env st = (case hk_all_failed_at st of None \<Rightarrow> h_now env | Some t \<Rightarrow> t)"

definition bond_failed :: "HkEnv \<Rightarrow> HkState \<Rightarrow> bool" where
  "bond_failed env st \<longleftrightarrow> bond_dead env st \<and> dead_since env st + GLOBAL_TIMEOUT_MS < h_now env"

definition rehome_due :: "HkEnv \<Rightarrow> HkState \<Rightarrow> bool" where
  "rehome_due env st \<longleftrightarrow> probe_due env (hk_rehome st) \<and>
     (\<exists>fresh. moved_to env (pinned_addrs (hk_io st) (hk_conns st)) fresh)"

lemma bond_failed_dead: "bond_failed env st \<Longrightarrow> bond_dead env st"
  by (simp add: bond_failed_def)

lemma hk_failure_alive: "\<not> bond_dead env st \<Longrightarrow> hk_failure env st = (Inr (), st\<lparr> hk_all_failed_at := None \<rparr>, [])"
  by (simp add: hk_failure_def bond_dead_def list_ex_iff list_all_iff)

lemma hk_failure_waiting:
  "bond_dead env st \<Longrightarrow> \<not> bond_failed env st \<Longrightarrow>
   hk_failure env st = (Inr (), st\<lparr> hk_all_failed_at := Some (dead_since env st) \<rparr>, [])"
  by (auto simp: hk_failure_def bond_dead_def bond_failed_def dead_since_def list_ex_iff list_all_iff Let_def split: option.splits)

lemma hk_failure_failed:
  assumes "bond_failed env st"
  defines "st1 \<equiv> st\<lparr> hk_all_failed_at := Some (dead_since env st) \<rparr>"
  shows "hk_failure env st = (case try_rehome env st1 of
      (True, st2, effs) \<Rightarrow> (Inr (), st2\<lparr> hk_all_failed_at := Some (h_now env) \<rparr>, effs)
    | (False, st2, effs) \<Rightarrow> (Inl (if rm_has_connected (hk_reg st2) then ''Failed to re-establish any connections''
                        else ''Failed to establish any initial connections''), st2, effs))"
  using assms
  by (auto simp: hk_failure_def bond_dead_def bond_failed_def dead_since_def list_ex_iff list_all_iff Let_def split: option.splits)

lemma rehome_due_clock [simp]: "rehome_due env (st\<lparr> hk_all_failed_at := t \<rparr>) = rehome_due env st"
  by (simp add: rehome_due_def)

lemma hk_failure_lost:
  assumes "bond_failed env st" "\<not> rehome_due env st"
  shows "fst (hk_failure env st) = Inl (if rm_has_connected (hk_reg st) then ''Failed to re-establish any connections''
           else ''Failed to establish any initial connections'')"
    and "fst (snd (hk_failure env st)) =
      (let st1 = st\<lparr> hk_all_failed_at := Some (dead_since env st) \<rparr>
       in if probe_due env (hk_rehome st) \<and> pinned_addrs (hk_io st) (hk_conns st) \<noteq> []
          then st1\<lparr> hk_rehome := (hk_rehome st)\<lparr> rg_last_probe_ms := Some (h_now env) \<rparr> \<rparr> else st1)"
proof -
  let ?st1 = "st\<lparr> hk_all_failed_at := Some (dead_since env st) \<rparr>"
  have "\<not> fst (try_rehome env ?st1)" using assms(2) by (simp add: try_rehome_iff rehome_due_def)
  with try_rehome_unmoved [OF this] show
    "fst (hk_failure env st) = Inl (if rm_has_connected (hk_reg st) then ''Failed to re-establish any connections''
           else ''Failed to establish any initial connections'')"
    "fst (snd (hk_failure env st)) =
      (let st1 = st\<lparr> hk_all_failed_at := Some (dead_since env st) \<rparr>
       in if probe_due env (hk_rehome st) \<and> pinned_addrs (hk_io st) (hk_conns st) \<noteq> []
          then st1\<lparr> hk_rehome := (hk_rehome st)\<lparr> rg_last_probe_ms := Some (h_now env) \<rparr> \<rparr> else st1)"
    by (simp_all add: hk_failure_failed [OF assms(1)] case_prod_beta Let_def)
qed

lemma hk_failure_moved:
  assumes "bond_failed env st" "rehome_due env st"
  shows "fst (hk_failure env st) = Inr ()"
    and "fst (snd (hk_failure env st)) =
      (fst (snd (try_rehome env (st\<lparr> hk_all_failed_at := Some (dead_since env st) \<rparr>))))\<lparr> hk_all_failed_at := Some (h_now env) \<rparr>"
proof -
  have "fst (try_rehome env (st\<lparr> hk_all_failed_at := Some (dead_since env st) \<rparr>))"
    using assms(2) by (simp add: try_rehome_iff rehome_due_def)
  then show "fst (hk_failure env st) = Inr ()" "fst (snd (hk_failure env st)) =
      (fst (snd (try_rehome env (st\<lparr> hk_all_failed_at := Some (dead_since env st) \<rparr>))))\<lparr> hk_all_failed_at := Some (h_now env) \<rparr>"
    by (simp_all add: hk_failure_failed [OF assms(1)] case_prod_beta)
qed

text \<open>
  C11: When a housekeeping tick fails. With the links as the tick leaves them after serving them (reconnects, keepalives, registration), it
  returns an error exactly if every link is timed out, the bond has been dead for more than ten seconds since the first
  tick that found it so, and no re-home is due; the message tells an initial failure from a later one. The failure
  clock is cleared exactly when some link is alive, restarts at the tick that re-homes the bond, starts at the
  first tick that finds the bond dead, and otherwise keeps its start. Unless the bond is re-homed, the failure check leaves
  links, addresses, registration and tracker as they were.
\<close>

theorem housekeeping_error:
  "case handle_housekeeping env classic st of (res, st', es) \<Rightarrow>
     let served = fst (hk_serve env classic st);
         dead = list_all (is_timed_out (h_now env)) (hk_conns served);
         since = (case hk_all_failed_at st of None \<Rightarrow> h_now env | Some t \<Rightarrow> t);
         late = (dead \<and> since + GLOBAL_TIMEOUT_MS < h_now env);
         moved = (late \<and> rehome_due env served)
     in res = (if late \<and> \<not> moved
               then Inl (if rm_has_connected (hk_reg served) then ''Failed to re-establish any connections''
                         else ''Failed to establish any initial connections'')
               else Inr ()) \<and>
        hk_all_failed_at st' = (if \<not> dead then None else if moved then Some (h_now env) else Some since) \<and>
        (moved \<or> hk_conns st' = hk_conns served \<and> hk_io st' = hk_io st \<and> hk_reg st' = hk_reg served \<and>
           hk_tracker st' = hk_tracker served)"
proof -
  define served where "served = fst (hk_serve env classic st)"
  have s: "hk_io served = hk_io st" "hk_all_failed_at served = hk_all_failed_at st" by (simp_all add: served_def hk_serve_keeps)
  then have since: "dead_since env served = (case hk_all_failed_at st of None \<Rightarrow> h_now env | Some t \<Rightarrow> t)"
    by (simp add: dead_since_def)
  have dead: "list_all (is_timed_out (h_now env)) (hk_conns served) = bond_dead env served" by (simp add: bond_dead_def)
  have late: "(bond_dead env served \<and> dead_since env served + GLOBAL_TIMEOUT_MS < h_now env) = bond_failed env served"
    by (simp add: bond_failed_def)
  show ?thesis
    unfolding Let_def case_prod_beta housekeeping_result served_def [symmetric] since [symmetric] dead late
    using bond_failed_dead [of env served] s
    by (cases "bond_dead env served"; cases "bond_failed env served"; cases "rehome_due env served")
      (simp_all add: hk_failure_alive hk_failure_waiting hk_failure_lost hk_failure_moved Let_def)
qed

text \<open>
  C12: When the bond is re-homed. A tick points the links at another address exactly if every link is timed out after the tick has
  served them, the bond has been dead for more than ten seconds, re-homing is enabled, the last lookup of the name is at
  least a minute old, and the name now resolves to a non-empty list of addresses none of which any link uses. Then every
  link that has a socket points to the first of them, every link is out of the selection until it
  registers again, the re-home is counted, and the tick succeeds. In every other case no address and no link is touched by the check;
  the lookup is counted against the next one whenever it was made.
\<close>

theorem rehome_guarded:
  "case handle_housekeeping env classic st of (res, st', es) \<Rightarrow>
     let served = fst (hk_serve env classic st);
         pinned = pinned_addrs (hk_io st) (hk_conns st);
         late = (list_all (is_timed_out (h_now env)) (hk_conns served) \<and>
           (\<exists>t. hk_all_failed_at st = Some t \<and> t + GLOBAL_TIMEOUT_MS < h_now env));
         asks = (late \<and> pinned \<noteq> [] \<and> rg_enabled (hk_rehome st) \<and>
           (case rg_last_probe_ms (hk_rehome st) of Some t \<Rightarrow> REHOME_MIN_INTERVAL_MS \<le> h_now env - t | None \<Rightarrow> True));
         answer = (case h_resolve env (snd (hd pinned)) of None \<Rightarrow> [] | Some fresh \<Rightarrow> fresh)
     in rg_last_probe_ms (hk_rehome st') = (if asks then Some (h_now env) else rg_last_probe_ms (hk_rehome st)) \<and>
        (if asks \<and> answer \<noteq> [] \<and> set answer \<inter> set pinned = {}
         then res = Inr () \<and> pinned_addrs (hk_io st') (hk_conns st') = [hd answer] \<and>
              map c_conn_id (hk_conns st') = map c_conn_id (hk_conns st) \<and>
              list_all (\<lambda>c. \<not> c_connected c \<and> \<not> is_schedulable c) (hk_conns st') \<and>
              hk_all_failed_at st' = Some (h_now env) \<and>
              rg_rehomes (hk_rehome st') = u64_saturating_add (rg_rehomes (hk_rehome st)) 1
         else hk_io st' = hk_io st \<and> hk_conns st' = hk_conns served \<and> rg_rehomes (hk_rehome st') = rg_rehomes (hk_rehome st))"
proof -
  define served where "served = fst (hk_serve env classic st)"
  define pinned where "pinned = pinned_addrs (hk_io st) (hk_conns st)"
  have s: "hk_io served = hk_io st" "hk_all_failed_at served = hk_all_failed_at st" "hk_rehome served = hk_rehome st"
    "map c_conn_id (hk_conns served) = map c_conn_id (hk_conns st)"
    using hk_serve_keeps(4) [of st env classic] by (simp_all add: served_def hk_serve_keeps(1-3) hk_keeps_def conns_keep_ids)
  have p: "pinned_addrs (hk_io served) (hk_conns served) = pinned"
    unfolding s(1) pinned_def using s(4) by (rule pinned_addrs_cong)
  have late: "(list_all (is_timed_out (h_now env)) (hk_conns served) \<and>
      (\<exists>t. hk_all_failed_at st = Some t \<and> t + GLOBAL_TIMEOUT_MS < h_now env)) = bond_failed env served"
    using s(2) by (auto simp: bond_failed_def bond_dead_def dead_since_def split: option.splits)
  have due: "(rg_enabled (hk_rehome st) \<and>
      (case rg_last_probe_ms (hk_rehome st) of Some t \<Rightarrow> REHOME_MIN_INTERVAL_MS \<le> h_now env - t | None \<Rightarrow> True)) =
      probe_due env (hk_rehome served)" by (simp add: probe_due_def s)
  define answer where "answer = (case h_resolve env (snd (hd pinned)) of None \<Rightarrow> [] | Some fresh \<Rightarrow> fresh)"
  have rd: "rehome_due env served \<longleftrightarrow> pinned \<noteq> [] \<and> probe_due env (hk_rehome served) \<and> answer \<noteq> [] \<and> set answer \<inter> set pinned = {}"
    "rehome_due env served \<Longrightarrow> moved_to env pinned answer"
    by (auto simp: rehome_due_def p moved_to_def answer_def split: option.splits)
  obtain res st' es where h: "handle_housekeeping env classic st = (res, st', es)" by (metis prod_cases3)
  then have r: "res = fst (hk_failure env served)" "st' = fst (snd (hk_failure env served))"
    using housekeeping_result [of env classic st] by (simp_all add: served_def)
  show ?thesis
  proof (cases "bond_failed env served \<and> rehome_due env served")
    case True
    let ?st1 = "served\<lparr> hk_all_failed_at := Some (dead_since env served) \<rparr>"
    from True have "probe_due env (hk_rehome ?st1)" "moved_to env (pinned_addrs (hk_io ?st1) (hk_conns ?st1)) answer"
      using rd by (simp_all add: p)
    from try_rehome_moved [OF this] True have
      "res = Inr ()" "pinned_addrs (hk_io st') (hk_conns st') = [hd answer]"
      "map c_conn_id (hk_conns st') = map c_conn_id (hk_conns st)"
      "list_all (\<lambda>c. \<not> c_connected c \<and> \<not> is_schedulable c) (hk_conns st')" "hk_all_failed_at st' = Some (h_now env)"
      "hk_rehome st' = (hk_rehome st)\<lparr> rg_last_probe_ms := Some (h_now env), rg_rehomes := u64_saturating_add (rg_rehomes (hk_rehome st)) 1 \<rparr>"
      by (simp_all add: hk_failure_moved r s)
    moreover have "bond_failed env served" "pinned \<noteq> []" "probe_due env (hk_rehome served)" "answer \<noteq> []" "set answer \<inter> set pinned = {}"
      using True rd by auto
    ultimately show ?thesis
      unfolding h Let_def prod.case served_def [symmetric] pinned_def [symmetric] late due answer_def [symmetric] by simp
  next
    case False
    then consider "\<not> bond_dead env served" | "bond_dead env served" "\<not> bond_failed env served"
      | "bond_failed env served" "\<not> rehome_due env served" by blast
    then have f: "hk_io st' = hk_io st \<and> hk_conns st' = hk_conns served \<and>
      hk_rehome st' = (if bond_failed env served \<and> pinned \<noteq> [] \<and> probe_due env (hk_rehome served)
         then (hk_rehome st)\<lparr> rg_last_probe_ms := Some (h_now env) \<rparr> else hk_rehome st)"
    proof cases
      case 1
      then have "\<not> bond_failed env served" using bond_failed_dead by blast
      with 1 show ?thesis by (simp add: r hk_failure_alive s)
    next
      case 2
      then show ?thesis by (simp add: r hk_failure_waiting s)
    next
      case 3
      then show ?thesis unfolding r hk_failure_lost(2) [OF 3] Let_def p by (simp add: s)
    qed
    have "\<not> ((bond_failed env served \<and> pinned \<noteq> [] \<and> probe_due env (hk_rehome served)) \<and> answer \<noteq> [] \<and> set answer \<inter> set pinned = {})"
      using False rd(1) by blast
    then show ?thesis
      unfolding h Let_def prod.case served_def [symmetric] pinned_def [symmetric] late due answer_def [symmetric]
      using f by (simp only: if_False) simp
  qed
qed

end
