(* ===== verification/Reload.thy ===== *)
theory Reload
  imports Connection
begin

text \<open>
  Reloading the list of uplink addresses (\<^verbatim>\<open>src/sender/reload.rs\<close>, \<^verbatim>\<open>read_weighted_ip_list\<close> of \<^verbatim>\<open>src/sender/mod.rs\<close>):
  the line grammar \<open>ip [weight]\<close>, the normalisation of the weights, and the guard that refuses a file without a
  usable address. The address parser of the standard library is the parameter \<open>parse_ip\<close>; the string
  functions used around it are modelled on strings of 8-bit characters.
\<close>

section \<open>String functions\<close>

definition is_whitespace :: "char \<Rightarrow> bool" where
  "is_whitespace ch \<longleftrightarrow> (let n = of_char ch :: nat in 9 \<le> n \<and> n \<le> 13 \<or> n = 32 \<or> n = 133 \<or> n = 160)"

definition strip_cr :: "string \<Rightarrow> string" where
  "strip_cr s = (if s \<noteq> [] \<and> last s = CHR 0x0D then butlast s else s)"

fun lines_loop :: "string \<Rightarrow> string \<Rightarrow> string list" where
  "lines_loop acc [] = (if acc = [] then [] else [rev acc])"
| "lines_loop acc (ch # s) = (if ch = CHR 0x0A then strip_cr (rev acc) # lines_loop [] s else lines_loop (ch # acc) s)"

definition str_lines :: "string \<Rightarrow> string list" where
  "str_lines text = lines_loop [] text"

definition trim :: "string \<Rightarrow> string" where
  "trim s = rev (dropWhile is_whitespace (rev (dropWhile is_whitespace s)))"

fun fields_loop :: "string \<Rightarrow> string \<Rightarrow> string list" where
  "fields_loop acc [] = (if acc = [] then [] else [rev acc])"
| "fields_loop acc (ch # s) =
     (if is_whitespace ch then (if acc = [] then [] else [rev acc]) @ fields_loop [] s else fields_loop (ch # acc) s)"

definition split_whitespace :: "string \<Rightarrow> string list" where
  "split_whitespace s = fields_loop [] s"

definition is_digit :: "char \<Rightarrow> bool" where
  "is_digit ch \<longleftrightarrow> (let n = of_char ch :: nat in 48 \<le> n \<and> n \<le> 57)"

definition digits_value :: "string \<Rightarrow> nat" where
  "digits_value ds = fold (\<lambda>ch n. 10 * n + (of_char ch - 48)) ds 0"

definition parse_u64 :: "string \<Rightarrow> u64 option" where
  "parse_u64 s =
     (let ds = (case s of ch # rest \<Rightarrow> if ch = CHR ''+'' then rest else s | [] \<Rightarrow> s) in
      if ds = [] \<or> \<not> list_all is_digit ds \<or> digits_value ds > U64_MAX then None else Some (digits_value ds))"

section \<open>Reading an address file\<close>

datatype ReloadRefusal = NotFound | Empty | NoValidIps usize

datatype IpReload = Apply "IpAddr list" "u8 list" "usize option" | Refuse ReloadRefusal

definition weight_of_field :: "string option \<Rightarrow> u8" where
  "weight_of_field field =
     (case field of
        None \<Rightarrow> LINK_WEIGHT_MIN
      | Some raw \<Rightarrow>
          (case parse_u64 raw of
             None \<Rightarrow> LINK_WEIGHT_MIN
           | Some w \<Rightarrow> if w = 0 then LINK_WEIGHT_MIN
                       else if w > unat LINK_WEIGHT_MAX then LINK_WEIGHT_MAX else of_nat w))"

definition parse_ip_line :: "(string \<Rightarrow> IpAddr option) \<Rightarrow> string \<Rightarrow> (IpAddr \<times> u8) option" where
  "parse_ip_line parse_ip line =
     (case split_whitespace line of
        [] \<Rightarrow> None
      | f # fs \<Rightarrow>
          (case parse_ip f of
             None \<Rightarrow> None
           | Some ip \<Rightarrow>
               (case fs of
                  [] \<Rightarrow> Some (ip, weight_of_field None)
                | [raw] \<Rightarrow> Some (ip, weight_of_field (Some raw))
                | _ \<Rightarrow> None)))"

record reload_scan =
  sc_ips :: "IpAddr list"
  sc_weights :: "u8 list"
  sc_first_invalid :: "usize option"
  sc_saw_content :: bool

definition scan_line :: "(string \<Rightarrow> IpAddr option) \<Rightarrow> nat \<times> string \<Rightarrow> reload_scan \<Rightarrow> reload_scan" where
  "scan_line parse_ip numbered s =
     (case numbered of (idx, line) \<Rightarrow>
        let trimmed = trim line in
        if trimmed = [] then s
        else
          let s1 = s\<lparr> sc_saw_content := True \<rparr> in
          case parse_ip_line parse_ip trimmed of
            Some (ip, weight) \<Rightarrow> s1\<lparr> sc_ips := sc_ips s1 @ [ip], sc_weights := sc_weights s1 @ [weight] \<rparr>
          | None \<Rightarrow> if sc_first_invalid s1 = None then s1\<lparr> sc_first_invalid := Some (idx + 1) \<rparr> else s1)"

definition scan_lines :: "(string \<Rightarrow> IpAddr option) \<Rightarrow> string \<Rightarrow> reload_scan" where
  "scan_lines parse_ip text =
     fold (scan_line parse_ip) (enumerate 0 (str_lines text))
       \<lparr> sc_ips = [], sc_weights = [], sc_first_invalid = None, sc_saw_content = False \<rparr>"

definition analyze_ip_reload_text :: "(string \<Rightarrow> IpAddr option) \<Rightarrow> string \<Rightarrow> IpReload" where
  "analyze_ip_reload_text parse_ip text =
     (let s = scan_lines parse_ip text;
          weights = normalise_link_weights (sc_weights s)
      in if sc_ips s = [] then
           (if sc_saw_content s
            then Refuse (NoValidIps (case sc_first_invalid s of Some n \<Rightarrow> n | None \<Rightarrow> 1))
            else Refuse Empty)
         else Apply (sc_ips s) weights (sc_first_invalid s))"

text \<open>The file as the result of reading it: its text, or none if it cannot be read.\<close>

definition analyze_ip_reload :: "(string \<Rightarrow> IpAddr option) \<Rightarrow> string option \<Rightarrow> IpReload" where
  "analyze_ip_reload parse_ip file =
     (case file of Some text \<Rightarrow> analyze_ip_reload_text parse_ip text | None \<Rightarrow> Refuse NotFound)"

definition read_weighted_ip_list :: "(string \<Rightarrow> IpAddr option) \<Rightarrow> string option \<Rightarrow> (IpAddr list \<times> u8 list) option" where
  "read_weighted_ip_list parse_ip file =
     (case file of
        None \<Rightarrow> None
      | Some text \<Rightarrow>
          (case analyze_ip_reload_text parse_ip text of
             Apply ips weights _ \<Rightarrow> Some (ips, weights) | Refuse _ \<Rightarrow> Some ([], [])))"

section \<open>The guard\<close>

lemma clamp_weight_bounds: "LINK_WEIGHT_MIN \<le> clamp_weight w \<and> clamp_weight w \<le> LINK_WEIGHT_MAX"
proof -
  have "LINK_WEIGHT_MIN \<le> LINK_WEIGHT_MAX" by (simp add: LINK_WEIGHT_MIN_def LINK_WEIGHT_MAX_def)
  then show ?thesis by (simp add: clamp_weight_def not_less)
qed

lemma weight_shift:
  assumes "l \<le> v" "1 \<le> l" "v \<le> (10 :: u8)"
  shows "1 \<le> v - l + 1 \<and> v - l + 1 \<le> 10"
proof -
  have "unat (v - l) = unat v - unat l" using assms(1) by (rule unat_sub)
  moreover have "1 \<le> unat l" "unat v \<le> 10" "unat l \<le> unat v"
    using assms by (simp_all add: word_le_nat_alt)
  ultimately have u: "unat (v - l) + 1 \<le> 10" by simp
  then have "unat (v - l + 1) = unat (v - l) + 1"
    using unat_add_lem [of "v - l" 1] by simp
  then show ?thesis using u by (simp add: word_le_nat_alt)
qed

lemma normalise_nonempty:
  assumes "ws \<noteq> []"
  shows "length (normalise_link_weights ws) = length ws"
    and "list_all (\<lambda>w. 1 \<le> w \<and> w \<le> 10) (normalise_link_weights ws)" and "1 \<in> set (normalise_link_weights ws)"
proof -
  define vs where "vs = map clamp_weight ws"
  define lo where "lo = Min (set vs)"
  have vs: "vs \<noteq> []" using assms by (simp add: vs_def)
  then obtain v rest where c: "vs = v # rest" by (cases vs) auto
  have n: "normalise_link_weights ws = map (\<lambda>v. v - lo + 1) vs"
    unfolding normalise_link_weights_def vs_def [symmetric] Let_def lo_def
    using c by (simp only: list.case Min.set_eq_fold)
  have lo: "lo \<in> set vs" "\<And>v. v \<in> set vs \<Longrightarrow> lo \<le> v" using vs by (simp_all add: lo_def)
  have r: "1 \<le> v \<and> v \<le> 10" if "v \<in> set vs" for v
    using that clamp_weight_bounds by (auto simp: vs_def LINK_WEIGHT_MIN_def LINK_WEIGHT_MAX_def)
  show "length (normalise_link_weights ws) = length ws" unfolding n by (simp add: vs_def)
  show "list_all (\<lambda>w. 1 \<le> w \<and> w \<le> 10) (normalise_link_weights ws)"
    unfolding n using weight_shift lo r by (simp add: list_all_iff)
  show "1 \<in> set (normalise_link_weights ws)"
    unfolding n using lo(1) by (auto simp: image_iff intro!: bexI [of _ lo])
qed

definition content_lines :: "string \<Rightarrow> (nat \<times> string) list" where
  "content_lines text = filter (\<lambda>(n, l). l \<noteq> []) (map (\<lambda>(i, l). (i + 1, trim l)) (enumerate 0 (str_lines text)))"

definition usable_entries :: "(string \<Rightarrow> IpAddr option) \<Rightarrow> (nat \<times> string) list \<Rightarrow> (IpAddr \<times> u8) list" where
  "usable_entries parse_ip cs = List.map_filter (\<lambda>(n, l). parse_ip_line parse_ip l) cs"

definition scan_of :: "(string \<Rightarrow> IpAddr option) \<Rightarrow> (nat \<times> string) list \<Rightarrow> reload_scan" where
  "scan_of parse_ip cs =
     \<lparr> sc_ips = map fst (usable_entries parse_ip cs), sc_weights = map snd (usable_entries parse_ip cs),
       sc_first_invalid = map_option fst (find (\<lambda>(n, l). parse_ip_line parse_ip l = None) cs), sc_saw_content = (cs \<noteq> []) \<rparr>"

lemma find_append: "find P (xs @ ys) = (case find P xs of Some x \<Rightarrow> Some x | None \<Rightarrow> find P ys)"
  by (induction xs) auto

lemma scan_line_step:
  "scan_line parse_ip (i, l) (scan_of parse_ip cs) =
     scan_of parse_ip (if trim l = [] then cs else cs @ [(i + 1, trim l)])"
  by (auto simp: scan_line_def scan_of_def usable_entries_def List.map_filter_def find_append Let_def
      split: option.splits)

lemma scan_fold:
  "fold (scan_line parse_ip) ns (scan_of parse_ip cs) =
   scan_of parse_ip (cs @ filter (\<lambda>(n, l). l \<noteq> []) (map (\<lambda>(i, l). (i + 1, trim l)) ns))"
  by (induction ns arbitrary: cs) (auto simp: scan_line_step)

lemma scan_lines_eq: "scan_lines parse_ip text = scan_of parse_ip (content_lines text)"
  using scan_fold [of parse_ip "enumerate 0 (str_lines text)" "[]"]
  by (simp add: scan_lines_def content_lines_def scan_of_def usable_entries_def List.map_filter_def)

lemma analyze_entries:
  "analyze_ip_reload_text parse_ip text =
     (if usable_entries parse_ip (content_lines text) = [] then
        Refuse (if content_lines text = [] then Empty else NoValidIps (fst (hd (content_lines text))))
      else Apply (map fst (usable_entries parse_ip (content_lines text)))
             (normalise_link_weights (map snd (usable_entries parse_ip (content_lines text))))
             (map_option fst (find (\<lambda>(n, l). parse_ip_line parse_ip l = None) (content_lines text))))"
proof -
  have "find (\<lambda>(n, l). parse_ip_line parse_ip l = None) cs = (if cs = [] then None else Some (hd cs))"
    if "usable_entries parse_ip cs = []" for cs
    using that by (cases cs) (auto simp: usable_entries_def List.map_filter_def split: if_splits)
  then show ?thesis by (simp add: analyze_ip_reload_text_def scan_lines_eq scan_of_def Let_def)
qed

text \<open>C18: The reload guard. For every file and every address parser: a reload is applied only with the addresses of the
  lines that parse, in order and at least one, each with a weight from 1 to 10 of which one is 1; it is
  refused as empty exactly when no line has content, and as without valid addresses exactly when no line with content
  parses, naming the first such line. So a reload can never empty the bond.\<close>

theorem reload_guard:
  "case analyze_ip_reload_text parse_ip text of
     Apply ips ws bad \<Rightarrow>
       ips \<noteq> [] \<and> ips = map fst (usable_entries parse_ip (content_lines text)) \<and> length ws = length ips \<and>
       list_all (\<lambda>w. 1 \<le> w \<and> w \<le> 10) ws \<and> 1 \<in> set ws
   | Refuse NotFound \<Rightarrow> False
   | Refuse Empty \<Rightarrow> content_lines text = []
   | Refuse (NoValidIps n) \<Rightarrow>
       usable_entries parse_ip (content_lines text) = [] \<and> content_lines text \<noteq> [] \<and> n = fst (hd (content_lines text))"
  using normalise_nonempty [of "map snd (usable_entries parse_ip (content_lines text))"]
  by (simp add: analyze_entries)

end
