(* ===== verification/Uplinks.thy ===== *)
theory Uplinks
  imports Housekeeping Reload
begin

text \<open>
  Creating, re-weighting and removing uplinks: \<^verbatim>\<open>apply_connection_changes\<close>, \<^verbatim>\<open>weight_for\<close>, \<^verbatim>\<open>apply_link_weights\<close>,
  \<^verbatim>\<open>create_connections_from_ips\<close> and \<^verbatim>\<open>connect_uplink\<close> of \<^verbatim>\<open>src/sender/connections.rs\<close>, and the set of reader tasks
  of \<^verbatim>\<open>src/sender/uplink.rs\<close> by the ids it holds. What the operating system and the random generator answer to the
  n-th attempt to open an uplink is the argument \<open>ConnectEnv\<close>; an address is printed by the parameter \<open>k_show_ip\<close>.
\<close>

section \<open>Weights\<close>

definition weight_for :: "IpAddr list \<Rightarrow> u8 list \<Rightarrow> IpAddr \<Rightarrow> u8" where
  "weight_for ips weights ip =
     (case position (\<lambda>candidate. candidate = ip) ips of
        None \<Rightarrow> LINK_WEIGHT_MIN
      | Some i \<Rightarrow> if i < length weights then weights ! i else LINK_WEIGHT_MIN)"

definition apply_link_weights :: "IpAddr list \<Rightarrow> u8 list \<Rightarrow> SrtlaConnection list \<Rightarrow> SrtlaConnection list" where
  "apply_link_weights ips weights conns =
     map (\<lambda>c. let weight = weight_for ips weights (c_local_ip c) in
              if c_link_weight c \<noteq> weight then c\<lparr> c_link_weight := weight \<rparr> else c) conns"

section \<open>Opening uplinks\<close>

record ConnectEnv =
  k_show_ip :: "IpAddr \<Rightarrow> string"
  k_resolve :: "usize \<Rightarrow> SocketAddr option"
  k_open :: "usize \<Rightarrow> bool"
  k_conn_id :: "usize \<Rightarrow> u64"
  k_now :: "usize \<Rightarrow> u64"

fun show_nat :: "nat \<Rightarrow> string" where
  "show_nat n = (if n < 10 then [char_of (48 + n)] else show_nat (n div 10) @ [char_of (48 + n mod 10)])"

declare show_nat.simps [simp del]

definition uplink_label :: "(IpAddr \<Rightarrow> string) \<Rightarrow> string \<Rightarrow> u16 \<Rightarrow> IpAddr \<Rightarrow> string" where
  "uplink_label show_ip receiver_host receiver_port ip =
     receiver_host @ '':'' @ show_nat (unat receiver_port) @ '' via '' @ show_ip ip"

text \<open>None: the name did not resolve, or the socket could not be opened and bound.\<close>

definition connect_uplink :: "ConnectEnv \<Rightarrow> usize \<Rightarrow> IpAddr \<Rightarrow> string \<Rightarrow> u16 \<Rightarrow> (SrtlaConnection \<times> ConnIo) option" where
  "connect_uplink k i ip receiver_host receiver_port =
     (case k_resolve k i of
        None \<Rightarrow> None
      | Some remote \<Rightarrow>
          if \<not> k_open k i then None
          else Some (new_registering (k_conn_id k i) (uplink_label (k_show_ip k) receiver_host receiver_port ip) ip (k_now k i),
                     \<lparr> io_remote = remote \<rparr>))"

fun create_loop ::
  "ConnectEnv \<Rightarrow> IpAddr list \<Rightarrow> u8 list \<Rightarrow> string \<Rightarrow> u16 \<Rightarrow> usize \<Rightarrow> IpAddr list \<Rightarrow> IoMap \<Rightarrow> SrtlaConnection list \<times> IoMap"
where
  "create_loop k ips weights host port i [] io = ([], io)"
| "create_loop k ips weights host port i (ip # rest) io =
     (case connect_uplink k i ip host port of
        Some (conn, e) \<Rightarrow>
          (case create_loop k ips weights host port (Suc i) rest (Mapping.update (c_conn_id conn) e io) of
             (conns, io') \<Rightarrow> (conn\<lparr> c_link_weight := weight_for ips weights ip \<rparr> # conns, io'))
      | None \<Rightarrow> create_loop k ips weights host port (Suc i) rest io)"

definition create_connections_from_ips ::
  "ConnectEnv \<Rightarrow> IpAddr list \<Rightarrow> u8 list \<Rightarrow> string \<Rightarrow> u16 \<Rightarrow> IoMap \<Rightarrow> SrtlaConnection list \<times> IoMap" where
  "create_connections_from_ips k ips weights receiver_host receiver_port io =
     create_loop k ips weights receiver_host receiver_port 0 ips io"

section \<open>Applying a new list of addresses\<close>

record PendingConnectionChanges =
  pc_new_ips :: "IpAddr list option"
  pc_new_weights :: "u8 list"
  pc_receiver_host :: string
  pc_receiver_port :: u16

record Uplinks =
  ul_conns :: "SrtlaConnection list"
  ul_io :: IoMap
  ul_last_selected :: "usize option"
  ul_tracker :: SequenceTracker

fun first_seen :: "'a list \<Rightarrow> 'a list \<Rightarrow> 'a list" where
  "first_seen seen [] = []"
| "first_seen seen (x # xs) = (if x \<in> set seen then first_seen seen xs else x # first_seen (x # seen) xs)"

definition remove_stale :: "string list \<Rightarrow> Uplinks \<Rightarrow> Uplinks" where
  "remove_stale desired_labels u =
     (let removed_conn_ids = map c_conn_id (filter (\<lambda>c. c_label c \<notin> set desired_labels) (ul_conns u));
          conns = filter (\<lambda>c. c_label c \<in> set desired_labels) (ul_conns u)
      in if length conns \<noteq> length (ul_conns u)
         then u\<lparr> ul_conns := conns, ul_last_selected := None,
                 ul_tracker := fold remove_connection removed_conn_ids (ul_tracker u),
                 ul_io := fold Mapping.delete removed_conn_ids (ul_io u) \<rparr>
         else u\<lparr> ul_conns := conns \<rparr>)"

definition apply_connection_changes ::
  "ConnectEnv \<Rightarrow> IpAddr list \<Rightarrow> u8 list \<Rightarrow> string \<Rightarrow> u16 \<Rightarrow> Uplinks \<Rightarrow> Uplinks" where
  "apply_connection_changes k new_ips new_weights receiver_host receiver_port u =
     (let label = uplink_label (k_show_ip k) receiver_host receiver_port;
          current_labels = map c_label (ul_conns u);
          u1 = remove_stale (map label new_ips) u;
          u2 = u1\<lparr> ul_conns := apply_link_weights new_ips new_weights (ul_conns u1) \<rparr>;
          new_ips_needed = filter (\<lambda>ip. label ip \<notin> set current_labels) (first_seen [] new_ips);
          new_weights_needed = map (weight_for new_ips new_weights) new_ips_needed
      in if new_ips_needed = [] then u2
         else case create_connections_from_ips k new_ips_needed new_weights_needed receiver_host receiver_port (ul_io u2) of
                (new_connections, io) \<Rightarrow> u2\<lparr> ul_conns := ul_conns u2 @ new_connections, ul_io := io \<rparr>)"

section \<open>Reader tasks\<close>

text \<open>The table of reader tasks, by the ids that have one.\<close>

definition sync_readers :: "SrtlaConnection list \<Rightarrow> IoMap \<Rightarrow> u64 list \<Rightarrow> u64 list" where
  "sync_readers conns io readers =
     (let active_ids = map c_conn_id conns;
          readers1 = fold (\<lambda>c rs. case Mapping.lookup io (c_conn_id c) of
                             Some _ \<Rightarrow> if c_conn_id c \<in> set rs then rs else c_conn_id c # rs | None \<Rightarrow> rs) conns readers
      in filter (\<lambda>i. i \<in> set active_ids) readers1)"

definition restart_reader_for :: "u64 \<Rightarrow> u64 list \<Rightarrow> u64 list" where
  "restart_reader_for conn_id readers = conn_id # filter (\<lambda>i. i \<noteq> conn_id) readers"

section \<open>What a reload does\<close>

lemma first_seen_props: "distinct (first_seen seen xs) \<and> set (first_seen seen xs) = set xs - set seen"
  by (induction seen xs rule: first_seen.induct) auto

lemma position_map_nth:
  assumes "x \<in> set xs"
  shows "\<exists>i. position (\<lambda>y. y = x) xs = Some i \<and> i < length xs \<and> xs ! i = x"
  using assms by (induction xs) auto

lemma weight_for_map: "ip \<in> set needed \<Longrightarrow> weight_for needed (map f needed) ip = f ip"
  using position_map_nth [of ip needed] by (auto simp: weight_for_def)

lemma apply_link_weights_eq:
  "apply_link_weights ips weights conns = map (\<lambda>c. c\<lparr> c_link_weight := weight_for ips weights (c_local_ip c) \<rparr>) conns"
  by (auto simp: apply_link_weights_def Let_def)

text \<open>The attempts that succeed, with their position.\<close>

definition opened :: "ConnectEnv \<Rightarrow> usize \<Rightarrow> IpAddr list \<Rightarrow> (usize \<times> IpAddr) list" where
  "opened k i ips = filter (\<lambda>(j, ip). k_resolve k j \<noteq> None \<and> k_open k j) (enumerate i ips)"

definition new_uplink :: "ConnectEnv \<Rightarrow> string \<Rightarrow> u16 \<Rightarrow> (IpAddr \<Rightarrow> u8) \<Rightarrow> usize \<times> IpAddr \<Rightarrow> SrtlaConnection" where
  "new_uplink k host port weight = (\<lambda>(j, ip).
     (new_registering (k_conn_id k j) (uplink_label (k_show_ip k) host port ip) ip (k_now k j))\<lparr> c_link_weight := weight ip \<rparr>)"

lemma id_new_registering [simp]: "c_conn_id (new_registering i l ip t) = i" "c_label (new_registering i l ip t) = l"
  by (simp_all add: new_registering_def)

lemma create_loop_result:
  "create_loop k ips weights host port i rest io = (conns, io') \<Longrightarrow>
     conns = map (new_uplink k host port (weight_for ips weights)) (opened k i rest) \<and>
     Mapping.keys io' = Mapping.keys io \<union> k_conn_id k ` fst ` set (opened k i rest)"
proof (induction k ips weights host port i rest io arbitrary: conns io' rule: create_loop.induct)
  case (2 k ips weights host port i ip rest io)
  show ?case
  proof (cases "connect_uplink k i ip host port")
    case None
    then have "opened k i (ip # rest) = opened k (Suc i) rest"
      by (auto simp: opened_def connect_uplink_def split: option.splits if_splits)
    with None 2(1) 2(3) show ?thesis by simp
  next
    case (Some ce)
    then obtain c e where ce: "ce = (c, e)"
        "c = new_registering (k_conn_id k i) (uplink_label (k_show_ip k) host port ip) ip (k_now k i)"
      and o: "opened k i (ip # rest) = (i, ip) # opened k (Suc i) rest"
      by (auto simp: opened_def connect_uplink_def split: option.splits if_splits)
    obtain ds io1 where l: "create_loop k ips weights host port (Suc i) rest (Mapping.update (c_conn_id c) e io) = (ds, io1)"
      by fastforce
    show ?thesis using 2(2) [OF Some ce(1) [symmetric] l] 2(3) Some ce l o by (auto simp: new_uplink_def)
  qed
qed (simp add: opened_def)

lemma fold_delete_keys: "Mapping.keys (fold Mapping.delete ks m) = Mapping.keys m - set ks"
  by (induction ks arbitrary: m) auto

lemma tracker_get_remove:
  "tracker_ok tr \<Longrightarrow> tracker_get sq t (remove_connection i tr) =
     (if tracker_get sq t tr = Some i then None else tracker_get sq t tr)"
  using tracker.get_forget [of tr sq t i] by (simp add: tracker_step_def)

lemma tracker_get_remove_all:
  "tracker_ok tr \<Longrightarrow> tracker_ok (fold remove_connection is tr) \<and>
     tracker_get sq t (fold remove_connection is tr) =
       (case tracker_get sq t tr of None \<Rightarrow> None | Some i \<Rightarrow> if i \<in> set is then None else Some i)"
proof (induction "is" arbitrary: tr)
  case (Cons i "is")
  have "tracker_ok (remove_connection i tr)" using Cons(2) tracker.ok_step [of tr "Forget i"] by (simp add: tracker_step_def)
  with Cons show ?case by (auto simp: tracker_get_remove split: option.split)
qed (simp split: option.split)

definition stale_ids :: "string set \<Rightarrow> SrtlaConnection list \<Rightarrow> u64 list" where
  "stale_ids desired conns = map c_conn_id (filter (\<lambda>c. c_label c \<notin> desired) conns)"

lemma remove_stale_result:
  assumes "tracker_ok (ul_tracker u)"
  shows "ul_conns (remove_stale ls u) = filter (\<lambda>c. c_label c \<in> set ls) (ul_conns u)"
    and "Mapping.keys (ul_io (remove_stale ls u)) = Mapping.keys (ul_io u) - set (stale_ids (set ls) (ul_conns u))"
    and "ul_last_selected (remove_stale ls u) = (if stale_ids (set ls) (ul_conns u) = [] then ul_last_selected u else None)"
    and "tracker_ok (ul_tracker (remove_stale ls u))"
    and "tracker_get sq t (ul_tracker (remove_stale ls u)) =
      (case tracker_get sq t (ul_tracker u) of
         None \<Rightarrow> None | Some i \<Rightarrow> if i \<in> set (stale_ids (set ls) (ul_conns u)) then None else Some i)"
proof -
  define cs where "cs = ul_conns u"
  have f: "filter (\<lambda>c. c_label c \<notin> set ls) cs = [] \<longleftrightarrow> length (filter (\<lambda>c. c_label c \<in> set ls) cs) = length cs"
    using length_filter_less [of _ cs "\<lambda>c. c_label c \<in> set ls"] by (auto simp: filter_empty_conv) (metis filter_True)
  show "ul_conns (remove_stale ls u) = filter (\<lambda>c. c_label c \<in> set ls) (ul_conns u)"
    by (simp add: remove_stale_def Let_def)
  show "Mapping.keys (ul_io (remove_stale ls u)) = Mapping.keys (ul_io u) - set (stale_ids (set ls) (ul_conns u))"
    using f by (auto simp: remove_stale_def stale_ids_def cs_def fold_delete_keys filter_empty_conv Let_def)
  show "ul_last_selected (remove_stale ls u) = (if stale_ids (set ls) (ul_conns u) = [] then ul_last_selected u else None)"
    using f by (simp add: remove_stale_def stale_ids_def cs_def Let_def)
  note tr = tracker_get_remove_all [OF assms]
  show "tracker_ok (ul_tracker (remove_stale ls u))" using tr assms by (simp add: remove_stale_def Let_def)
  show "tracker_get sq t (ul_tracker (remove_stale ls u)) =
      (case tracker_get sq t (ul_tracker u) of
         None \<Rightarrow> None | Some i \<Rightarrow> if i \<in> set (stale_ids (set ls) (ul_conns u)) then None else Some i)"
    using f tr by (auto simp: remove_stale_def stale_ids_def cs_def filter_empty_conv Let_def split: option.split)
qed

lemma apply_changes_result:
  fixes k host port ips weights u
  defines "label \<equiv> uplink_label (k_show_ip k) host port"
  defines "needed \<equiv> filter (\<lambda>ip. label ip \<notin> c_label ` set (ul_conns u)) (first_seen [] ips)"
  defines "u1 \<equiv> remove_stale (map label ips) u" and "u' \<equiv> apply_connection_changes k ips weights host port u"
  shows "ul_conns u' = map (\<lambda>c. c\<lparr> c_link_weight := weight_for ips weights (c_local_ip c) \<rparr>) (ul_conns u1) @
      map (new_uplink k host port (weight_for ips weights)) (opened k 0 needed)"
    and "Mapping.keys (ul_io u') = Mapping.keys (ul_io u1) \<union> k_conn_id k ` fst ` set (opened k 0 needed)"
    and "ul_last_selected u' = ul_last_selected u1" and "ul_tracker u' = ul_tracker u1"
proof -
  obtain cs io where l: "create_loop k needed (map (weight_for ips weights) needed) host port 0 needed (ul_io u1) = (cs, io)"
    by fastforce
  have u': "u' = (if needed = [] then u1\<lparr> ul_conns := apply_link_weights ips weights (ul_conns u1) \<rparr>
      else u1\<lparr> ul_conns := apply_link_weights ips weights (ul_conns u1) @ cs, ul_io := io \<rparr>)"
    by (simp add: u'_def apply_connection_changes_def create_connections_from_ips_def Let_def u1_def [symmetric]
        label_def [symmetric] needed_def [symmetric] l)
  note r = create_loop_result [OF l]
  have "ip \<in> set needed" if "(j, ip) \<in> set (opened k 0 needed)" for j ip
    using that by (auto simp: opened_def in_set_enumerate_eq)
  then have cs: "cs = map (new_uplink k host port (weight_for ips weights)) (opened k 0 needed)"
    using r by (auto simp: new_uplink_def weight_for_map)
  have "needed = [] \<Longrightarrow> opened k 0 needed = []" by (simp add: opened_def)
  then show "ul_conns u' = map (\<lambda>c. c\<lparr> c_link_weight := weight_for ips weights (c_local_ip c) \<rparr>) (ul_conns u1) @
      map (new_uplink k host port (weight_for ips weights)) (opened k 0 needed)"
    "Mapping.keys (ul_io u') = Mapping.keys (ul_io u1) \<union> k_conn_id k ` fst ` set (opened k 0 needed)"
    using cs r by (auto simp: u' apply_link_weights_eq)
  show "ul_last_selected u' = ul_last_selected u1" "ul_tracker u' = ul_tracker u1" by (simp_all add: u')
qed

text \<open>
  C19: applying a new list of addresses. The links whose label is still wanted stay, in their order and untouched but
  for the weight, which becomes the listed one; every address that no link had a label for is tried once, and those
  whose socket opens are appended as new, unregistered links with their listed weight. The I/O map then has
  the new links and loses exactly the removed ones. If a link went away the remembered selection is
  dropped and the tracker answers as before except that it no longer names a removed link; otherwise both stay.
\<close>

theorem reload_applied:
  assumes "tracker_ok (ul_tracker u)" "apply_connection_changes k ips weights host port u = u'"
    and "desired = uplink_label (k_show_ip k) host port ` set ips" "removed = stale_ids desired (ul_conns u)"
  shows "\<exists>needed. distinct needed \<and>
       set needed = {ip \<in> set ips. uplink_label (k_show_ip k) host port ip \<notin> c_label ` set (ul_conns u)} \<and>
       ul_conns u' =
         map (\<lambda>c. c\<lparr> c_link_weight := weight_for ips weights (c_local_ip c) \<rparr>) (filter (\<lambda>c. c_label c \<in> desired) (ul_conns u)) @
         map (new_uplink k host port (weight_for ips weights)) (opened k 0 needed) \<and>
       Mapping.keys (ul_io u') = (Mapping.keys (ul_io u) - set removed) \<union> k_conn_id k ` fst ` set (opened k 0 needed) \<and>
       ul_last_selected u' = (if removed = [] then ul_last_selected u else None) \<and>
       tracker_get sq t (ul_tracker u') =
         (case tracker_get sq t (ul_tracker u) of None \<Rightarrow> None | Some i \<Rightarrow> if i \<in> set removed then None else Some i)"
proof -
  let ?label = "uplink_label (k_show_ip k) host port"
  let ?needed = "filter (\<lambda>ip. ?label ip \<notin> c_label ` set (ul_conns u)) (first_seen [] ips)"
  have "distinct ?needed" "set ?needed = {ip \<in> set ips. ?label ip \<notin> c_label ` set (ul_conns u)}"
    using first_seen_props [of "[]" ips] by auto
  moreover note apply_changes_result [where k = k and host = host and port = port and ips = ips and weights = weights and u = u,
      unfolded assms(2)]
  moreover note remove_stale_result [OF assms(1)]
  ultimately show ?thesis using assms(3,4) by (intro exI [of _ ?needed] conjI) (simp_all split: option.split)
qed

text \<open>A bond with one link, and a reload that replaces it and adds a second; the second socket does not open.\<close>

definition demo_connect :: ConnectEnv where
  "demo_connect = \<lparr> k_show_ip = (\<lambda>ip. if ip = V4 1 then ''a'' else if ip = V4 2 then ''b'' else ''c''),
     k_resolve = (\<lambda>_. Some (V4 9, 5000)), k_open = (\<lambda>i. i = 0), k_conn_id = (\<lambda>i. 70 + i), k_now = (\<lambda>_. 10) \<rparr>"

definition demo_uplinks :: Uplinks where
  "demo_uplinks = \<lparr> ul_conns = [new_registering 7 ''h:5 via a'' (V4 1) 0], ul_io = Mapping.update 7 \<lparr> io_remote = (V4 9, 5000) \<rparr> Mapping.empty,
     ul_last_selected = Some 0, ul_tracker = SequenceTracker_new \<rparr>"

theorem reload_applied_witness:
  "ul_last_selected (apply_connection_changes demo_connect [V4 2, V4 3] [1, 4] ''h'' 5 demo_uplinks) = None \<and>
   Mapping.lookup (ul_io (apply_connection_changes demo_connect [V4 2, V4 3] [1, 4] ''h'' 5 demo_uplinks)) 7 = None"
proof -
  have r: "stale_ids (uplink_label (k_show_ip demo_connect) ''h'' 5 ` set [V4 2, V4 3]) (ul_conns demo_uplinks) = [7]"
    by (simp add: stale_ids_def demo_uplinks_def demo_connect_def uplink_label_def show_nat.simps)
  have "tracker_ok (ul_tracker demo_uplinks)" using tracker.ok_empty by (simp add: demo_uplinks_def)
  from reload_applied [OF this refl refl r [symmetric], of "[1, 4]" 0 0]
  obtain needed where
    "Mapping.keys (ul_io (apply_connection_changes demo_connect [V4 2, V4 3] [1, 4] ''h'' 5 demo_uplinks)) =
       (Mapping.keys (ul_io demo_uplinks) - {7}) \<union> k_conn_id demo_connect ` fst ` set (opened demo_connect 0 needed)"
    "ul_last_selected (apply_connection_changes demo_connect [V4 2, V4 3] [1, 4] ''h'' 5 demo_uplinks) = None"
    by auto
  moreover have "7 \<notin> k_conn_id demo_connect ` S" for S by (auto simp: demo_connect_def)
  ultimately have "7 \<notin> Mapping.keys (ul_io (apply_connection_changes demo_connect [V4 2, V4 3] [1, 4] ''h'' 5 demo_uplinks))"
    by simp
  then show ?thesis using \<open>ul_last_selected _ = None\<close> by (simp add: keys_dom_lookup domIff)
qed

end
