(* ===== verification/Classifier.thy ===== *)
theory Classifier
  imports Connection
begin

text \<open>
  The weak-link classifier (\<^verbatim>\<open>crates/srtla-core/src/selection/classifier.rs\<close>): delay budget and tiers, bandwidth
  shares with hysteresis, the sustained delay signal, and the probation re-test with its backoff. The hash maps
  of the filter are \<open>mapping\<close>s by link id; one link's pass through the third loop is \<open>classify_link\<close>.
\<close>

definition TARGET_BEST_SAFE_CAP_MS :: nat where "TARGET_BEST_SAFE_CAP_MS = 2500"
definition TARGET_MAX_CAP_MS :: nat where "TARGET_MAX_CAP_MS = 5000"
definition RTT_TO_DELAY_BUDGET_MULT :: f64 where "RTT_TO_DELAY_BUDGET_MULT = f64_of_rat 3"
definition MIN_BUDGET_MS :: nat where "MIN_BUDGET_MS = 500"
definition MAX_BUDGET_MS :: nat where "MAX_BUDGET_MS = 5000"
definition MAX_NEGOTIATED_BUDGET_MS :: nat where "MAX_NEGOTIATED_BUDGET_MS = 20000"
definition SHARE_85_PERMILLE :: u64 where "SHARE_85_PERMILLE = 850"
definition SHARE_50_PERMILLE :: u64 where "SHARE_50_PERMILLE = 500"
definition SHARE_25_PERMILLE :: u64 where "SHARE_25_PERMILLE = 250"
definition ENTER_FAIR_SHARE_NUMERATOR :: u64 where "ENTER_FAIR_SHARE_NUMERATOR = 250"
definition LEAVE_FAIR_SHARE_NUMERATOR :: u64 where "LEAVE_FAIR_SHARE_NUMERATOR = 750"
definition MIN_TOTAL_BPS_FOR_CLASSIFICATION :: f64 where "MIN_TOTAL_BPS_FOR_CLASSIFICATION = f64_of_rat 100000"
definition WEAK_SUSTAIN_TICKS :: nat where "WEAK_SUSTAIN_TICKS = 2"
definition PROBATION_INTERVAL_TICKS :: nat where "PROBATION_INTERVAL_TICKS = 15"
definition PROBATION_WINDOW_TICKS :: nat where "PROBATION_WINDOW_TICKS = 3"
definition PROBATION_BACKOFF_MAX :: nat where "PROBATION_BACKOFF_MAX = 16"

lemmas classifier_consts = TARGET_BEST_SAFE_CAP_MS_def TARGET_MAX_CAP_MS_def MIN_BUDGET_MS_def MAX_BUDGET_MS_def
  MAX_NEGOTIATED_BUDGET_MS_def ENTER_FAIR_SHARE_NUMERATOR_def LEAVE_FAIR_SHARE_NUMERATOR_def WEAK_SUSTAIN_TICKS_def
  PROBATION_INTERVAL_TICKS_def PROBATION_WINDOW_TICKS_def PROBATION_BACKOFF_MAX_def

definition probation_backoff_next :: "nat \<Rightarrow> nat" where
  "probation_backoff_next backoff =
     min (if backoff \<le> 1 then 2 else u32_saturating_mul backoff 2) PROBATION_BACKOFF_MAX"

record LinkClassification =
  lc_conn_id :: u64
  lc_weak :: bool
  lc_reason :: WeakReason
  lc_share_permille :: nat
  lc_threshold_permille :: nat

record ClassificationResult =
  cr_selected_delay_ms :: nat
  cr_estimated_max_delay_ms :: nat
  cr_per_link :: "LinkClassification list"

record WeakLinkFilter =
  wf_prev_weak :: "(u64, bool) mapping"
  wf_delay_weak_streak :: "(u64, nat) mapping"
  wf_weak_streak :: "(u64, nat) mapping"
  wf_probation_ticks :: "(u64, nat) mapping"
  wf_probation_backoff :: "(u64, nat) mapping"

definition WeakLinkFilter_new :: WeakLinkFilter where
  "WeakLinkFilter_new = \<lparr> wf_prev_weak = Mapping.empty, wf_delay_weak_streak = Mapping.empty,
     wf_weak_streak = Mapping.empty, wf_probation_ticks = Mapping.empty, wf_probation_backoff = Mapping.empty \<rparr>"

definition copied_or :: "'v \<Rightarrow> ('k, 'v) mapping \<Rightarrow> 'k \<Rightarrow> 'v" where
  "copied_or d m k = (case Mapping.lookup m k of Some v \<Rightarrow> v | None \<Rightarrow> d)"

section \<open>Budget and tiers\<close>

definition derive_max_delay_budget :: "nat \<Rightarrow> nat" where
  "derive_max_delay_budget longest_rtt_ms =
     max MIN_BUDGET_MS (min MAX_BUDGET_MS (fl_to_u32 (f64_mul (u64_to_f64 longest_rtt_ms) RTT_TO_DELAY_BUDGET_MULT)))"

definition delay_budget_ms :: "nat \<Rightarrow> nat \<Rightarrow> nat" where
  "delay_budget_ms negotiated_latency_ms longest_rtt_ms =
     (if negotiated_latency_ms = 0 then derive_max_delay_budget longest_rtt_ms
      else max MIN_BUDGET_MS (min MAX_NEGOTIATED_BUDGET_MS (u32_saturating_mul negotiated_latency_ms 2)))"

definition target_best_delay_ms :: "nat \<Rightarrow> nat" where
  "target_best_delay_ms est_ms = min (est_ms * 40 div 100) TARGET_BEST_SAFE_CAP_MS"

definition target_safe_delay_ms :: "nat \<Rightarrow> nat" where
  "target_safe_delay_ms est_ms = min (est_ms * 50 div 100) TARGET_BEST_SAFE_CAP_MS"

definition target_max_delay_ms :: "nat \<Rightarrow> nat" where
  "target_max_delay_ms est_ms = min (est_ms * 60 div 100) TARGET_MAX_CAP_MS"

definition pick_tier :: "f64 \<Rightarrow> f64 \<Rightarrow> f64 \<Rightarrow> f64 \<Rightarrow> nat \<Rightarrow> nat \<Rightarrow> nat \<Rightarrow> nat" where
  "pick_tier total_bps best_bps safe_bps max_bps best_delay safe_delay max_delay =
     (let pm = \<lambda>b. fl_to_u64 (f64_div (f64_mul b (f64_of_rat 1000)) total_bps);
          best_pm = pm best_bps; safe_pm = pm safe_bps; max_pm = pm max_bps
      in if best_pm > SHARE_85_PERMILLE then best_delay
         else if safe_pm > SHARE_85_PERMILLE then safe_delay
         else if max_pm > SHARE_85_PERMILLE then
           (if best_pm > SHARE_50_PERMILLE then best_delay
            else if safe_pm > SHARE_50_PERMILLE then safe_delay
            else if max_pm > SHARE_50_PERMILLE then max_delay
            else if best_pm > SHARE_25_PERMILLE then best_delay
            else if safe_pm > SHARE_25_PERMILLE then safe_delay
            else max_delay)
         else max_delay)"

section \<open>Signals\<close>

definition link_bps :: "SrtlaConnection \<Rightarrow> f64" where
  "link_bps c = fl_max (current_bitrate_bps (c_bitrate c)) (Fin 0)"

definition link_rtt_ms :: "SrtlaConnection \<Rightarrow> nat" where
  "link_rtt_ms c = fl_to_u32 (get_smooth_rtt_ms c)"

definition gather :: "SrtlaConnection list \<Rightarrow> f64 \<times> nat \<times> usize" where
  "gather conns =
     fold (\<lambda>c (total, longest, n). if \<not> c_connected c then (total, longest, n)
             else (f64_add total (link_bps c), max longest (link_rtt_ms c), n + 1)) conns (Fin 0, 0, 0)"

definition tier_bps :: "nat \<Rightarrow> SrtlaConnection list \<Rightarrow> f64" where
  "tier_bps target conns =
     fold (\<lambda>c b. if c_connected c \<and> link_rtt_ms c \<le> target then f64_add b (link_bps c) else b) conns (Fin 0)"

definition delay_signal :: "nat \<Rightarrow> SrtlaConnection \<Rightarrow> WeakReason option" where
  "delay_signal selected_delay c =
     (if link_rtt_ms c > selected_delay then Some HighRtt
      else if queue_building_suspected (c_rtt c) then Some QueueBuilding else None)"

definition share_of :: "f64 \<Rightarrow> f64 \<Rightarrow> nat" where
  "share_of total_bps bps =
     (if fl_gt total_bps (Fin 0)
      then fl_to_u32 (fl_clamp (Fin 0) (Fin 1000) (f64_div (f64_mul bps (f64_of_rat 1000)) total_bps)) else 0)"

definition verdict :: "bool \<Rightarrow> WeakReason option \<Rightarrow> f64 \<Rightarrow> bool \<Rightarrow> nat \<Rightarrow> nat \<Rightarrow> nat \<Rightarrow> bool \<times> WeakReason" where
  "verdict delay_weak signal bps was_weak share_permille enter_threshold leave_threshold =
     (if delay_weak then (True, the signal)
      else if fl_eq bps (Fin 0) then (True, NoTraffic)
      else if was_weak \<and> share_permille < leave_threshold then (True, LowShare)
      else if \<not> was_weak \<and> share_permille < enter_threshold then (True, LowShare)
      else (False, Healthy))"

section \<open>Probation\<close>

record Probation =
  pb_ticks :: nat
  pb_streak :: nat
  pb_backoff :: nat

definition probation_step :: "bool \<Rightarrow> bool \<times> WeakReason \<Rightarrow> Probation \<Rightarrow> (bool \<times> WeakReason) \<times> Probation" where
  "probation_step delay_weak v p =
     (let (weak, reason) = v;
          share_weak = (weak \<and> (reason = LowShare \<or> reason = NoTraffic))
      in if pb_ticks p > 0 \<and> delay_weak then (v, p\<lparr> pb_ticks := 0, pb_streak := 0 \<rparr>)
         else if pb_ticks p > 0 then ((False, Healthy), p\<lparr> pb_ticks := pb_ticks p - 1, pb_streak := 0 \<rparr>)
         else if share_weak then
           (let streak = u32_saturating_add (pb_streak p) 1;
                interval = u32_saturating_mul PROBATION_INTERVAL_TICKS (max (pb_backoff p) 1)
            in if streak \<ge> interval
               then (v, \<lparr> pb_ticks = PROBATION_WINDOW_TICKS, pb_streak = 0,
                          pb_backoff = probation_backoff_next (pb_backoff p) \<rparr>)
               else (v, p\<lparr> pb_streak := streak \<rparr>))
         else (v, p\<lparr> pb_streak := 0, pb_backoff := (if \<not> weak then 1 else pb_backoff p) \<rparr>))"

section \<open>Classification\<close>

definition unclassified :: "WeakReason \<Rightarrow> SrtlaConnection \<Rightarrow> LinkClassification" where
  "unclassified reason c = \<lparr> lc_conn_id = c_conn_id c, lc_weak = False, lc_reason = reason, lc_share_permille = 0,
     lc_threshold_permille = 0 \<rparr>"

text \<open>One connected link: its entry, its delay streak and its probation state for the next tick.\<close>

definition classify_link ::
  "WeakLinkFilter \<Rightarrow> f64 \<Rightarrow> nat \<Rightarrow> nat \<Rightarrow> nat \<Rightarrow> SrtlaConnection \<Rightarrow> LinkClassification \<times> nat \<times> Probation" where
  "classify_link f total_bps selected_delay enter_threshold leave_threshold c =
     (let cid = c_conn_id c;
          bps = link_bps c;
          share_permille = share_of total_bps bps;
          was_weak = copied_or False (wf_prev_weak f) cid;
          threshold = (if was_weak then leave_threshold else enter_threshold);
          signal = delay_signal selected_delay c;
          delay_streak = (if signal \<noteq> None then u32_saturating_add (copied_or 0 (wf_delay_weak_streak f) cid) 1 else 0);
          delay_weak = (delay_streak \<ge> WEAK_SUSTAIN_TICKS);
          v = verdict delay_weak signal bps was_weak share_permille enter_threshold leave_threshold;
          p = \<lparr> pb_ticks = copied_or 0 (wf_probation_ticks f) cid, pb_streak = copied_or 0 (wf_weak_streak f) cid,
                pb_backoff = copied_or 0 (wf_probation_backoff f) cid \<rparr>;
          ((weak, reason), p') = probation_step delay_weak v p
      in (\<lparr> lc_conn_id = cid, lc_weak = weak, lc_reason = reason, lc_share_permille = share_permille,
            lc_threshold_permille = threshold \<rparr>, delay_streak, p'))"

definition record_link :: "LinkClassification \<times> nat \<times> Probation \<Rightarrow> WeakLinkFilter \<Rightarrow> WeakLinkFilter" where
  "record_link r f =
     (case r of (e, delay_streak, p) \<Rightarrow>
        let cid = lc_conn_id e in
        \<lparr> wf_prev_weak = Mapping.update cid (lc_weak e) (wf_prev_weak f),
          wf_delay_weak_streak = Mapping.update cid delay_streak (wf_delay_weak_streak f),
          wf_weak_streak = Mapping.update cid (pb_streak p) (wf_weak_streak f),
          wf_probation_ticks = Mapping.update cid (pb_ticks p) (wf_probation_ticks f),
          wf_probation_backoff = Mapping.update cid (pb_backoff p) (wf_probation_backoff f) \<rparr>)"

fun classify_loop ::
  "(SrtlaConnection \<Rightarrow> LinkClassification \<times> nat \<times> Probation) \<Rightarrow> SrtlaConnection list \<Rightarrow> WeakLinkFilter \<Rightarrow>
   LinkClassification list \<times> WeakLinkFilter"
where
  "classify_loop link [] f' = ([], f')"
| "classify_loop link (c # cs) f' =
     (if \<not> c_connected c then
        (case classify_loop link cs f' of (es, f'') \<Rightarrow> (unclassified Healthy c # es, f''))
      else case classify_loop link cs (record_link (link c) f') of (es, f'') \<Rightarrow> (fst (link c) # es, f''))"

definition classify :: "SrtlaConnection list \<Rightarrow> nat \<Rightarrow> WeakLinkFilter \<Rightarrow> ClassificationResult \<times> WeakLinkFilter" where
  "classify conns negotiated_latency_ms f =
     (case gather conns of (total_bps, longest_rtt_ms, connected_count) \<Rightarrow>
        if fl_lt total_bps MIN_TOTAL_BPS_FOR_CLASSIFICATION \<or> connected_count = 0 then
          (\<lparr> cr_selected_delay_ms = 0, cr_estimated_max_delay_ms = 0, cr_per_link = map (unclassified Bypassed) conns \<rparr>,
           WeakLinkFilter_new)
        else
          let est = delay_budget_ms negotiated_latency_ms longest_rtt_ms;
              target_best = target_best_delay_ms est;
              target_safe = target_safe_delay_ms est;
              target_max = target_max_delay_ms est;
              selected_delay = pick_tier total_bps (tier_bps target_best conns) (tier_bps target_safe conns)
                                 (tier_bps target_max conns) target_best target_safe target_max;
              enter_threshold = ENTER_FAIR_SHARE_NUMERATOR div connected_count;
              leave_threshold = LEAVE_FAIR_SHARE_NUMERATOR div connected_count
          in case classify_loop (classify_link f total_bps selected_delay enter_threshold leave_threshold) conns
                    WeakLinkFilter_new of
               (per_link, f') \<Rightarrow>
                 (\<lparr> cr_selected_delay_ms = selected_delay, cr_estimated_max_delay_ms = est, cr_per_link = per_link \<rparr>, f'))"

section \<open>Every link is classified\<close>

lemma classify_link_id: "lc_conn_id (fst (classify_link f tot sel en lv c)) = c_conn_id c"
  by (simp add: classify_link_def Let_def split: prod.splits)

lemma classify_loop_ids:
  assumes "\<And>c. lc_conn_id (fst (link c)) = c_conn_id c"
  shows "map lc_conn_id (fst (classify_loop link conns f)) = map c_conn_id conns"
proof (induction conns arbitrary: f)
  case (Cons c cs)
  then show ?case using assms by (simp add: unclassified_def split: prod.splits) (metis fst_conv)
qed simp

lemma budget_range: "500 \<le> delay_budget_ms neg rtt \<and> delay_budget_ms neg rtt \<le> 20000"
  by (simp add: delay_budget_ms_def derive_max_delay_budget_def classifier_consts min_le_iff_disj)

lemma tiers_ordered:
  "target_best_delay_ms est \<le> target_safe_delay_ms est" "target_safe_delay_ms est \<le> target_max_delay_ms est"
  "target_max_delay_ms est \<le> 5000"
  unfolding target_best_delay_ms_def target_safe_delay_ms_def target_max_delay_ms_def classifier_consts
  by (auto intro!: min.mono div_le_mono simp: min_le_iff_disj)

lemma pick_tier_cases: "pick_tier t b s m x y z \<in> {x, y, z}"
  by (simp add: pick_tier_def Let_def)

text \<open>The classifier answers for every link, in order, whatever the links and the history: connected or not, with
  or without traffic. Either it is bypassed, and then no link is weak and no history is kept, or the delay
  limit it applies is one of the three tiers of a budget between 500 ms and 20 s, hence at most 5 s.\<close>

theorem classify_covers:
  "case classify conns latency f of (r, f') \<Rightarrow>
     map lc_conn_id (cr_per_link r) = map c_conn_id conns \<and>
     (cr_estimated_max_delay_ms r = 0 \<and> f' = WeakLinkFilter_new \<and> list_all (\<lambda>e. \<not> lc_weak e) (cr_per_link r) \<or>
      500 \<le> cr_estimated_max_delay_ms r \<and> cr_estimated_max_delay_ms r \<le> 20000 \<and>
      cr_selected_delay_ms r \<in> {target_best_delay_ms (cr_estimated_max_delay_ms r),
        target_safe_delay_ms (cr_estimated_max_delay_ms r), target_max_delay_ms (cr_estimated_max_delay_ms r)} \<and>
      cr_selected_delay_ms r \<le> 5000)"
proof -
  obtain tot rtt n where g: "gather conns = (tot, rtt, n)" by (metis prod_cases3)
  show ?thesis
  proof (cases "fl_lt tot MIN_TOTAL_BPS_FOR_CLASSIFICATION \<or> n = 0")
    case True
    then show ?thesis by (simp add: classify_def g unclassified_def list_all_iff comp_def)
  next
    case False
    define est where "est = delay_budget_ms latency rtt"
    define sel where "sel = pick_tier tot (tier_bps (target_best_delay_ms est) conns) (tier_bps (target_safe_delay_ms est) conns)
      (tier_bps (target_max_delay_ms est) conns) (target_best_delay_ms est) (target_safe_delay_ms est) (target_max_delay_ms est)"
    obtain es f' where l: "classify_loop (classify_link f tot sel (ENTER_FAIR_SHARE_NUMERATOR div n) (LEAVE_FAIR_SHARE_NUMERATOR div n))
        conns WeakLinkFilter_new = (es, f')" by fastforce
    have "map lc_conn_id es = map c_conn_id conns"
      using classify_loop_ids [where link = "classify_link f tot sel (ENTER_FAIR_SHARE_NUMERATOR div n) (LEAVE_FAIR_SHARE_NUMERATOR div n)"
          and conns = conns and f = WeakLinkFilter_new] l classify_link_id by simp
    moreover have "sel \<in> {target_best_delay_ms est, target_safe_delay_ms est, target_max_delay_ms est}"
      unfolding sel_def by (rule pick_tier_cases)
    moreover from this have "sel \<le> 5000" using tiers_ordered [of est] by auto
    moreover have "500 \<le> est \<and> est \<le> 20000" unfolding est_def by (rule budget_range)
    moreover have "classify conns latency f = (\<lparr> cr_selected_delay_ms = sel, cr_estimated_max_delay_ms = est, cr_per_link = es \<rparr>, f')"
      using False l by (simp add: classify_def g Let_def est_def [symmetric] sel_def [symmetric])
    ultimately show ?thesis by simp
  qed
qed

section \<open>Late links\<close>

lemma delay_signal_reason: "delay_signal sel c = Some r \<Longrightarrow> reason_is_delay r"
  by (auto simp: delay_signal_def reason_is_delay_def split: if_splits)

lemma delay_streak_sustained:
  "WEAK_SUSTAIN_TICKS \<le> (if s \<noteq> None then u32_saturating_add k 1 else 0) \<longleftrightarrow> s \<noteq> None \<and> 1 \<le> k"
  by (auto simp: u32_saturating_add_def WEAK_SUSTAIN_TICKS_def)

lemma probation_verdict:
  assumes "dw \<longrightarrow> delay_signal sel c \<noteq> None"
  shows "reason_is_delay (snd (fst (probation_step dw (verdict dw (delay_signal sel c) bps ww share en lv) p))) = dw"
    and "fst (fst (probation_step dw (verdict dw (delay_signal sel c) bps ww share en lv) p)) =
      (snd (fst (probation_step dw (verdict dw (delay_signal sel c) bps ww share en lv) p)) \<noteq> Healthy)"
  using assms delay_signal_reason [of sel c]
  by (auto simp: probation_step_def verdict_def Let_def reason_is_delay_def split: if_splits)

text \<open>A link is reported late exactly when it shows a delay signal for the second tick in a row, whatever its
  share, its history and its probation: a probation window never hides a late link and one slow tick
  never makes one. A link is reported weak exactly when its reason is not \<open>Healthy\<close>.\<close>

theorem late_link_reported:
  "case classify_link f tot sel en lv c of (e, streak, p) \<Rightarrow>
     reason_is_delay (lc_reason e) =
       (delay_signal sel c \<noteq> None \<and> 1 \<le> copied_or 0 (wf_delay_weak_streak f) (c_conn_id c)) \<and>
     lc_weak e = (lc_reason e \<noteq> Healthy)"
proof -
  define dw where "dw = (delay_signal sel c \<noteq> None \<and> 1 \<le> copied_or 0 (wf_delay_weak_streak f) (c_conn_id c))"
  have "dw \<longrightarrow> delay_signal sel c \<noteq> None" by (simp add: dw_def)
  note probation_verdict [OF this]
  then show ?thesis
    unfolding classify_link_def Let_def delay_streak_sustained dw_def [symmetric] by (simp add: case_prod_beta)
qed

section \<open>Probation is live\<close>

definition probation_tick :: "bool \<times> WeakReason \<Rightarrow> Probation \<Rightarrow> Probation" where
  "probation_tick v p = snd (probation_step False v p)"

definition share_weak_verdict :: "bool \<times> WeakReason \<Rightarrow> bool" where
  "share_weak_verdict v \<longleftrightarrow> v = (True, LowShare) \<or> v = (True, NoTraffic)"

lemma probation_tick_waits:
  assumes "share_weak_verdict v" "pb_ticks p = 0" "pb_streak p + 1 < 15 * max (pb_backoff p) 1" "pb_backoff p \<le> 16"
  shows "probation_tick v p = p\<lparr> pb_streak := pb_streak p + 1 \<rparr>"
  using assms by (auto simp: probation_tick_def probation_step_def share_weak_verdict_def Let_def classifier_consts
      u32_saturating_add_def u32_saturating_mul_def)

lemma probation_run:
  assumes "list_all share_weak_verdict vs" "length vs < 15 * max b 1" "b \<le> 16"
  shows "fold probation_tick vs \<lparr> pb_ticks = 0, pb_streak = 0, pb_backoff = b \<rparr> =
    \<lparr> pb_ticks = 0, pb_streak = length vs, pb_backoff = b \<rparr>"
  using assms
proof (induction vs rule: rev_induct)
  case (snoc v vs)
  then show ?case by (simp add: probation_tick_waits)
qed simp

text \<open>C32: A starved link is always re-tested. A link that is weak for lack of traffic or share and keeps being so is
  forced back into the rotation after exactly fifteen ticks times its backoff, not before; the next three ticks
  report it healthy unless it is late; and the wait before the following re-test doubles, up to
  sixteen times.\<close>

theorem probation_is_live:
  assumes "list_all share_weak_verdict vs" "length vs = 15 * max b 1" "b \<le> 16"
  shows "fold probation_tick vs \<lparr> pb_ticks = 0, pb_streak = 0, pb_backoff = b \<rparr> =
           \<lparr> pb_ticks = 3, pb_streak = 0, pb_backoff = min 16 (2 * max b 1) \<rparr> \<and>
         list_all (\<lambda>n. pb_ticks (fold probation_tick (take n vs) \<lparr> pb_ticks = 0, pb_streak = 0, pb_backoff = b \<rparr>) = 0)
           [0..<length vs] \<and>
         fst (probation_step False v \<lparr> pb_ticks = Suc k, pb_streak = 0, pb_backoff = b' \<rparr>) = (False, Healthy)"
proof -
  from assms(2) obtain ws v0 where vs: "vs = ws @ [v0]" by (cases vs rule: rev_cases) auto
  with assms have ws: "fold probation_tick ws \<lparr> pb_ticks = 0, pb_streak = 0, pb_backoff = b \<rparr> =
      \<lparr> pb_ticks = 0, pb_streak = length ws, pb_backoff = b \<rparr>" by (intro probation_run) auto
  have "fold probation_tick vs \<lparr> pb_ticks = 0, pb_streak = 0, pb_backoff = b \<rparr> =
      \<lparr> pb_ticks = 3, pb_streak = 0, pb_backoff = min 16 (2 * max b 1) \<rparr>"
    using assms vs ws
    by (auto simp: probation_tick_def probation_step_def share_weak_verdict_def Let_def classifier_consts
        u32_saturating_add_def u32_saturating_mul_def probation_backoff_next_def max_def)
  moreover have "fold probation_tick (take n vs) \<lparr> pb_ticks = 0, pb_streak = 0, pb_backoff = b \<rparr> =
      \<lparr> pb_ticks = 0, pb_streak = n, pb_backoff = b \<rparr>" if "n < length vs" for n
    using probation_run [of "take n vs" b] assms that
    by (auto simp: list_all_iff dest: in_set_takeD)
  moreover have "fst (probation_step False v \<lparr> pb_ticks = Suc k, pb_streak = 0, pb_backoff = b' \<rparr>) = (False, Healthy)"
    by (simp add: probation_step_def case_prod_beta)
  ultimately show ?thesis by (simp add: list_all_iff)
qed

theorem probation_is_live_witness:
  "fold probation_tick (replicate 15 (True, LowShare)) \<lparr> pb_ticks = 0, pb_streak = 0, pb_backoff = 0 \<rparr> =
     \<lparr> pb_ticks = 3, pb_streak = 0, pb_backoff = 2 \<rparr>"
  using probation_is_live [of "replicate 15 (True, LowShare)" 0] by (simp add: list_all_iff share_weak_verdict_def)

end
