(* ===== verification/Link_CC.thy ===== *)
theory Link_CC
  imports Connection
begin

text \<open>
  The per-link congestion controller (\<^verbatim>\<open>crates/srtla-core/src/selection/link_cc.rs\<close>): the age-weighted round-trip
  average, the windowed minimum, the sliding loss window, the efficacy test of the backoff, the five-state
  transition with its target update, the sustained-loss verdict, and the controller that keeps one state per link.
  The exponential of the loss average is a parameter; the map of the controller is a \<open>mapping\<close> by link id.
  The target computed in binary64 is shown to be an integer formula, from which its bounds follow.
\<close>

definition LOSS_WINDOW_MS :: u64 where "LOSS_WINDOW_MS = 1000"
definition LOSS_BACKOFF_PERMILLE :: nat where "LOSS_BACKOFF_PERMILLE = 5"
definition BACKOFF_PERMILLE :: nat where "BACKOFF_PERMILLE = 850"
definition BACKOFF_MIN_LOAD_PERMILLE :: nat where "BACKOFF_MIN_LOAD_PERMILLE = 300"
definition BACKOFF_EFFICACY_TICKS :: nat where "BACKOFF_EFFICACY_TICKS = 3"
definition BACKOFF_EFFICACY_IMPROVEMENT_PERMILLE :: nat where "BACKOFF_EFFICACY_IMPROVEMENT_PERMILLE = 800"
definition LOSS_UNCONGESTIVE_RETEST_TICKS :: nat where "LOSS_UNCONGESTIVE_RETEST_TICKS = 30"
definition AI_STEP_PERMILLE :: nat where "AI_STEP_PERMILLE = 20"
definition HAI_STEP_PERMILLE :: nat where "HAI_STEP_PERMILLE = 60"
definition FAST_RECOVERY_STEP_PERMILLE :: nat where "FAST_RECOVERY_STEP_PERMILLE = 40"
definition FAST_RECOVERY_TICKS :: nat where "FAST_RECOVERY_TICKS = 5"
definition DRAIN_RTT_INFLATION :: f64 where "DRAIN_RTT_INFLATION = f64_of_rat 2"
definition DRAIN_PERMILLE :: nat where "DRAIN_PERMILLE = 750"
definition HAI_VARIANCE_FRACTION :: f64 where "HAI_VARIANCE_FRACTION = f64_of_rat (1 / 10)"
definition RTT_HOLD_FACTOR :: f64 where "RTT_HOLD_FACTOR = f64_of_rat (3 / 2)"
definition MIN_TARGET_BPS :: u64 where "MIN_TARGET_BPS = 100000"
definition MAX_TARGET_BPS :: u64 where "MAX_TARGET_BPS = 200000000"
definition INITIAL_TARGET_BPS :: u64 where "INITIAL_TARGET_BPS = 1000000"
definition LOSS_EWMA_TAU_MS :: f64 where "LOSS_EWMA_TAU_MS = f64_of_rat 2000"
definition LOSS_DEGRADE_ENTER :: f64 where "LOSS_DEGRADE_ENTER = f64_of_rat (55 / 100)"
definition LOSS_DEGRADE_CLEAR :: f64 where "LOSS_DEGRADE_CLEAR = f64_of_rat (25 / 100)"
definition LOSS_DEGRADE_SUSTAIN_MS :: u64 where "LOSS_DEGRADE_SUSTAIN_MS = 4000"
definition CC_RTT_MIN_WINDOW_MS :: u64 where "CC_RTT_MIN_WINDOW_MS = 30000"
definition CC_OUTLIER_FACTOR :: f64 where "CC_OUTLIER_FACTOR = f64_of_rat 4"

lemmas cc_targets = MIN_TARGET_BPS_def MAX_TARGET_BPS_def INITIAL_TARGET_BPS_def
lemmas cc_permilles = BACKOFF_PERMILLE_def DRAIN_PERMILLE_def AI_STEP_PERMILLE_def HAI_STEP_PERMILLE_def
  FAST_RECOVERY_STEP_PERMILLE_def

datatype CcState = Bootstrap | Climbing | Holding | BackingOff | Drain

datatype ClimbMode = Normal | Hai | FastRecovery

record LossSample =
  ls_ts_ms :: u64
  ls_lost :: nat
  ls_sent :: nat

record LinkCongestionState =
  lcs_state :: CcState
  lcs_climb_mode :: ClimbMode
  lcs_target_bps :: u64
  rtt_ewma_ms :: f64
  rtt_var_ms :: f64
  rtt_min_ms :: f64
  rtt_min_stamp_ms :: u64
  lcs_last_rtt_update_ms :: u64
  loss_samples :: "LossSample list"
  window_lost :: nat
  window_sent :: nat
  fast_recovery_ticks :: nat
  prev_bytes_sent_total :: u64
  prev_nak_total :: i32
  traffic_baseline_set :: bool
  loss_ewma :: f64
  loss_ewma_last_ms :: u64
  loss_high_since_ms :: u64
  lcs_loss_degraded :: bool
  backoff_ticks :: nat
  backoff_entry_loss_pm :: nat
  loss_uncongestive :: bool
  uncongestive_ticks :: nat

definition LinkCongestionState_default :: LinkCongestionState where
  "LinkCongestionState_default =
     \<lparr> lcs_state = Bootstrap, lcs_climb_mode = Normal, lcs_target_bps = MIN_TARGET_BPS, rtt_ewma_ms = Fin 0,
       rtt_var_ms = Fin 0, rtt_min_ms = PInf, rtt_min_stamp_ms = 0, lcs_last_rtt_update_ms = 0, loss_samples = [],
       window_lost = 0, window_sent = 0, fast_recovery_ticks = 0, prev_bytes_sent_total = 0, prev_nak_total = 0,
       traffic_baseline_set = False, loss_ewma = Fin 0, loss_ewma_last_ms = 0, loss_high_since_ms = 0,
       lcs_loss_degraded = False, backoff_ticks = 0, backoff_entry_loss_pm = 0, loss_uncongestive = False,
       uncongestive_ticks = 0 \<rparr>"

section \<open>Round trips\<close>

definition update_rtt_min :: "f64 \<Rightarrow> u64 \<Rightarrow> LinkCongestionState \<Rightarrow> LinkCongestionState" where
  "update_rtt_min rtt now s =
     (let stale = now - rtt_min_stamp_ms s > CC_RTT_MIN_WINDOW_MS in
      if \<not> is_finite (rtt_min_ms s) \<or> fl_lt rtt (rtt_min_ms s) \<or> stale
      then s\<lparr> rtt_min_ms := rtt, rtt_min_stamp_ms := now \<rparr> else s)"

definition rtt_weights :: "u64 \<Rightarrow> rat \<times> rat" where
  "rtt_weights age =
     (if age \<ge> 1000 then (1, 1) else if age \<ge> 500 then (1, 4) else if age \<ge> 250 then (1, 8) else (1, 16))"

definition record_rtt :: "f64 \<Rightarrow> u64 \<Rightarrow> LinkCongestionState \<Rightarrow> LinkCongestionState" where
  "record_rtt rtt now s =
     (if \<not> is_finite rtt \<or> fl_le rtt (Fin 0) then s
      else
        let age = now - lcs_last_rtt_update_ms s in
        if fl_eq (rtt_ewma_ms s) (Fin 0) \<or> age \<ge> 2000 then
          update_rtt_min rtt now (s\<lparr> rtt_ewma_ms := rtt, rtt_var_ms := Fin 0, lcs_last_rtt_update_ms := now \<rparr>)
        else
          (case rtt_weights age of (wn, wo) \<Rightarrow>
             let w_new = f64_of_rat wn; w_old = f64_of_rat wo;
                 denom = f64_add w_new w_old;
                 prev = rtt_ewma_ms s;
                 s1 = s\<lparr> rtt_ewma_ms := f64_div (f64_add (f64_mul rtt w_new) (f64_mul prev w_old)) denom \<rparr>;
                 dev = fl_abs (f64_sub rtt prev);
                 s2 = s1\<lparr> rtt_var_ms := f64_div (f64_add (f64_mul dev (f64_of_rat 1))
                            (f64_mul (rtt_var_ms s1) (f64_of_rat 3))) (f64_of_rat 4) \<rparr>
             in (update_rtt_min rtt now s2)\<lparr> lcs_last_rtt_update_ms := now \<rparr>))"

section \<open>The loss window\<close>

fun evict_loop :: "u64 \<Rightarrow> LossSample list \<Rightarrow> nat \<Rightarrow> nat \<Rightarrow> LossSample list \<times> nat \<times> nat" where
  "evict_loop cutoff [] ws wl = ([], ws, wl)"
| "evict_loop cutoff (x # xs) ws wl =
     (if ls_ts_ms x < cutoff then evict_loop cutoff xs (ws - ls_sent x) (wl - ls_lost x) else (x # xs, ws, wl))"

definition evict_expired :: "u64 \<Rightarrow> LinkCongestionState \<Rightarrow> LinkCongestionState" where
  "evict_expired now s =
     (case evict_loop (now - LOSS_WINDOW_MS) (loss_samples s) (window_sent s) (window_lost s) of
        (xs, ws, wl) \<Rightarrow> s\<lparr> loss_samples := xs, window_sent := ws, window_lost := wl \<rparr>)"

definition record_loss :: "nat \<Rightarrow> nat \<Rightarrow> u64 \<Rightarrow> LinkCongestionState \<Rightarrow> LinkCongestionState" where
  "record_loss sent lost now s =
     evict_expired now
       (s\<lparr> loss_samples := loss_samples s @ [\<lparr> ls_ts_ms = now, ls_lost = lost, ls_sent = sent \<rparr>],
           window_sent := u32_saturating_add (window_sent s) sent,
           window_lost := u32_saturating_add (window_lost s) lost \<rparr>)"

definition observe_traffic :: "u64 \<Rightarrow> i32 \<Rightarrow> u64 \<Rightarrow> LinkCongestionState \<Rightarrow> LinkCongestionState" where
  "observe_traffic bytes_total nak_total now s =
     (if \<not> traffic_baseline_set s then
        s\<lparr> prev_bytes_sent_total := bytes_total, prev_nak_total := nak_total, traffic_baseline_set := True \<rparr>
      else
        let delta_bytes = bytes_total - prev_bytes_sent_total s;
            delta_nak = max (i32_clip (nak_total - prev_nak_total s)) 0;
            s1 = s\<lparr> prev_bytes_sent_total := bytes_total, prev_nak_total := nak_total \<rparr>
        in if delta_bytes = 0 \<and> delta_nak = 0 then s1
           else
             let sent0 = min (delta_bytes div ASSUMED_SRT_PAYLOAD_BYTES) U32_MAX;
                 lost = nat delta_nak;
                 sent = max sent0 (if lost > 0 then 1 else 0)
             in record_loss sent lost now s1)"

definition loss_permille :: "LinkCongestionState \<Rightarrow> nat" where
  "loss_permille s =
     (if window_sent s = 0 then 0
      else min (u64_saturating_mul (window_lost s) 1000 div window_sent s) 1000000)"

section \<open>Is the backoff working?\<close>

definition update_backoff_efficacy :: "bool \<Rightarrow> nat \<Rightarrow> LinkCongestionState \<Rightarrow> LinkCongestionState" where
  "update_backoff_efficacy loss_high loss_pm s =
     (if \<not> loss_high then
        s\<lparr> backoff_ticks := 0, backoff_entry_loss_pm := 0, loss_uncongestive := False, uncongestive_ticks := 0 \<rparr>
      else if loss_uncongestive s then
        (let n = u32_add (uncongestive_ticks s) 1 in
         if n \<ge> LOSS_UNCONGESTIVE_RETEST_TICKS
         then s\<lparr> loss_uncongestive := False, uncongestive_ticks := 0, backoff_ticks := 0,
                 backoff_entry_loss_pm := loss_pm \<rparr>
         else s\<lparr> uncongestive_ticks := n \<rparr>)
      else if lcs_state s \<noteq> BackingOff then s\<lparr> backoff_ticks := 0, backoff_entry_loss_pm := loss_pm \<rparr>
      else
        let n = u32_add (backoff_ticks s) 1; s1 = s\<lparr> backoff_ticks := n \<rparr> in
        if n < BACKOFF_EFFICACY_TICKS then s1
        else if loss_pm * 1000 < backoff_entry_loss_pm s1 * BACKOFF_EFFICACY_IMPROVEMENT_PERMILLE
        then s1\<lparr> backoff_ticks := 0, backoff_entry_loss_pm := loss_pm \<rparr>
        else s1\<lparr> loss_uncongestive := True, uncongestive_ticks := 0 \<rparr>)"

section \<open>Sustained loss\<close>

definition update_loss_ewma :: "(f64 \<Rightarrow> f64) \<Rightarrow> nat \<Rightarrow> u64 \<Rightarrow> LinkCongestionState \<Rightarrow> LinkCongestionState" where
  "update_loss_ewma exp_f loss_pm now s =
     (let inst = fl_clamp (Fin 0) (Fin 1) (f64_div (u64_to_f64 loss_pm) (f64_of_rat 1000));
          ewma = (if loss_ewma_last_ms s = 0 then inst
                  else let dt = u64_to_f64 (now - loss_ewma_last_ms s);
                           alpha = f64_sub (f64_of_rat 1) (exp_f (f64_div (fl_neg dt) LOSS_EWMA_TAU_MS))
                       in f64_add (loss_ewma s) (f64_mul (f64_sub inst (loss_ewma s)) alpha));
          s1 = s\<lparr> loss_ewma := ewma, loss_ewma_last_ms := now \<rparr>
      in if fl_gt ewma LOSS_DEGRADE_ENTER then
           (if loss_high_since_ms s1 = 0 then s1\<lparr> loss_high_since_ms := now \<rparr>
            else if now - loss_high_since_ms s1 \<ge> LOSS_DEGRADE_SUSTAIN_MS then s1\<lparr> lcs_loss_degraded := True \<rparr>
            else s1)
         else
           (let s2 = s1\<lparr> loss_high_since_ms := 0 \<rparr> in
            if fl_lt ewma LOSS_DEGRADE_CLEAR then s2\<lparr> lcs_loss_degraded := False \<rparr> else s2))"

section \<open>The tick\<close>

definition pick_climb_mode :: "LinkCongestionState \<Rightarrow> ClimbMode" where
  "pick_climb_mode s =
     (if fast_recovery_ticks s > 0 then FastRecovery
      else if fl_gt (rtt_ewma_ms s) (Fin 0) \<and> fl_le (rtt_var_ms s) (f64_mul (rtt_ewma_ms s) HAI_VARIANCE_FRACTION) then Hai
      else Normal)"

definition clamp_target :: "u64 \<Rightarrow> u64" where
  "clamp_target t = min MAX_TARGET_BPS (max MIN_TARGET_BPS t)"

definition rtt_inflation :: "LinkCongestionState \<Rightarrow> f64" where
  "rtt_inflation s =
     (if is_finite (rtt_min_ms s) \<and> fl_gt (rtt_min_ms s) (Fin 0) then f64_div (rtt_ewma_ms s) (rtt_min_ms s)
      else f64_of_rat 1)"

definition sane_observed :: "u64 \<Rightarrow> u64 \<Rightarrow> u64" where
  "sane_observed target observed_bps =
     (let baseline = u64_to_f64 (max target INITIAL_TARGET_BPS) in
      fl_to_u64 (fl_min (u64_to_f64 observed_bps) (f64_mul CC_OUTLIER_FACTOR baseline)))"

definition seed_target :: "u64 \<Rightarrow> u64 \<Rightarrow> u64" where
  "seed_target target sane =
     (if target = MIN_TARGET_BPS then clamp_target (max sane INITIAL_TARGET_BPS) else target)"

definition next_cc_state :: "bool \<Rightarrow> bool \<Rightarrow> bool \<Rightarrow> f64 \<Rightarrow> CcState" where
  "next_cc_state loss_high loaded uncongestive inflation =
     (if loss_high \<and> loaded \<and> \<not> uncongestive then BackingOff
      else if fl_ge inflation DRAIN_RTT_INFLATION then Drain
      else if fl_gt inflation RTT_HOLD_FACTOR then Holding
      else Climbing)"

definition climb_step_pm :: "ClimbMode \<Rightarrow> nat" where
  "climb_step_pm mode = (case mode of Normal \<Rightarrow> AI_STEP_PERMILLE | Hai \<Rightarrow> HAI_STEP_PERMILLE
     | FastRecovery \<Rightarrow> FAST_RECOVERY_STEP_PERMILLE)"

definition next_target :: "CcState \<Rightarrow> CcState \<Rightarrow> ClimbMode \<Rightarrow> u64 \<Rightarrow> u64 \<Rightarrow> u64" where
  "next_target prev_state next_state mode target sane =
     (let prev = u64_to_f64 target in
      clamp_target (fl_to_u64
        (case next_state of
           Bootstrap \<Rightarrow> prev
         | Climbing \<Rightarrow>
             (let step = f64_div (f64_mul prev (u64_to_f64 (climb_step_pm mode))) (f64_of_rat 1000);
                  measured_cap = f64_mul (u64_to_f64 sane) (f64_of_rat 2)
              in if sane > 0
                 then f64_add (fl_max prev (u64_to_f64 MIN_TARGET_BPS))
                        (fl_max (fl_min step (f64_sub measured_cap prev)) (Fin 0))
                 else prev)
         | Holding \<Rightarrow> prev
         | BackingOff \<Rightarrow>
             (let decreased = f64_div (f64_mul prev (u64_to_f64 BACKOFF_PERMILLE)) (f64_of_rat 1000);
                  delivered_floor = fl_min (u64_to_f64 sane) prev
              in fl_max decreased delivered_floor)
         | Drain \<Rightarrow>
             (if prev_state \<noteq> Drain then f64_div (f64_mul prev (u64_to_f64 DRAIN_PERMILLE)) (f64_of_rat 1000)
              else prev))))"

definition cc_tick :: "(f64 \<Rightarrow> f64) \<Rightarrow> u64 \<Rightarrow> u64 \<Rightarrow> LinkCongestionState \<Rightarrow> LinkCongestionState" where
  "cc_tick exp_f observed_bps now s0 =
     (let s = evict_expired now s0 in
      if \<not> is_finite (rtt_ewma_ms s) \<or> fl_eq (rtt_ewma_ms s) (Fin 0) then
        s\<lparr> lcs_state := Bootstrap, lcs_climb_mode := Normal, lcs_target_bps := MIN_TARGET_BPS \<rparr>
      else
        let loss_pm = loss_permille s;
            s1 = update_loss_ewma exp_f loss_pm now s;
            inflation = rtt_inflation s1;
            sane = sane_observed (lcs_target_bps s1) observed_bps;
            s2 = s1\<lparr> lcs_target_bps := seed_target (lcs_target_bps s1) sane \<rparr>;
            loaded = (sane * 1000 \<ge> lcs_target_bps s2 * BACKOFF_MIN_LOAD_PERMILLE);
            loss_high = (loss_pm > LOSS_BACKOFF_PERMILLE);
            s3 = update_backoff_efficacy loss_high loss_pm s2;
            prev_state = lcs_state s3;
            next_state = next_cc_state loss_high loaded (loss_uncongestive s3) inflation;
            s4 = (if (prev_state = BackingOff \<or> prev_state = Drain) \<and> next_state = Climbing
                  then s3\<lparr> fast_recovery_ticks := FAST_RECOVERY_TICKS \<rparr> else s3);
            mode = (if next_state = Climbing then pick_climb_mode s4 else Normal);
            s5 = s4\<lparr> lcs_state := next_state, lcs_climb_mode := mode,
                     lcs_target_bps := next_target prev_state next_state mode (lcs_target_bps s4) sane \<rparr>
        in if next_state = Climbing then s5\<lparr> fast_recovery_ticks := fast_recovery_ticks s5 - 1 \<rparr>
           else s5\<lparr> fast_recovery_ticks := 0 \<rparr>)"

section \<open>Snapshots and the controller\<close>

record LinkCcSnapshot =
  snap_state :: CcState
  snap_climb_mode :: ClimbMode
  snap_target_bps :: u64
  snap_rtt_ewma_ms :: f64
  snap_rtt_var_ms :: f64
  snap_rtt_min_ms :: f64
  snap_loss_permille :: nat
  snap_loss_ewma :: f64
  snap_loss_degraded :: bool

definition cc_snapshot :: "LinkCongestionState \<Rightarrow> LinkCcSnapshot" where
  "cc_snapshot s =
     \<lparr> snap_state = lcs_state s, snap_climb_mode = lcs_climb_mode s, snap_target_bps = lcs_target_bps s,
       snap_rtt_ewma_ms = rtt_ewma_ms s, snap_rtt_var_ms = rtt_var_ms s,
       snap_rtt_min_ms = (if is_finite (rtt_min_ms s) then rtt_min_ms s else Fin 0),
       snap_loss_permille = loss_permille s, snap_loss_ewma = loss_ewma s, snap_loss_degraded = lcs_loss_degraded s \<rparr>"

type_synonym LinkCcController = "(u64, LinkCongestionState) mapping"

definition total_nak_count :: "SrtlaConnection \<Rightarrow> i32" where
  "total_nak_count c = nak_count (c_congestion c)"

definition tick_conn :: "(f64 \<Rightarrow> f64) \<Rightarrow> u64 \<Rightarrow> SrtlaConnection \<Rightarrow> LinkCongestionState \<Rightarrow> LinkCongestionState" where
  "tick_conn exp_f now c s =
     (let rtt = get_smooth_rtt_ms c;
          s1 = (if fl_gt rtt (Fin 0) then record_rtt rtt now s else s);
          s2 = observe_traffic (bytes_sent_total (c_bitrate c)) (total_nak_count c) now s1;
          observed_bps = fl_to_u64 (fl_max (current_bitrate_bps (c_bitrate c)) (Fin 0))
      in cc_tick exp_f observed_bps now s2)"

definition cc_entry :: "LinkCcController \<Rightarrow> u64 \<Rightarrow> LinkCongestionState" where
  "cc_entry m cid = (case Mapping.lookup m cid of Some s \<Rightarrow> s | None \<Rightarrow> LinkCongestionState_default)"

definition tick_entry ::
  "(f64 \<Rightarrow> f64) \<Rightarrow> u64 \<Rightarrow> SrtlaConnection \<Rightarrow> LinkCcController \<times> (u64, LinkCcSnapshot) mapping \<Rightarrow>
   LinkCcController \<times> (u64, LinkCcSnapshot) mapping" where
  "tick_entry exp_f now c st =
     (case st of (m, alive) \<Rightarrow>
        let e = tick_conn exp_f now c (cc_entry m (c_conn_id c)) in
        (Mapping.update (c_conn_id c) e m, Mapping.update (c_conn_id c) (cc_snapshot e) alive))"

definition tick_all ::
  "(f64 \<Rightarrow> f64) \<Rightarrow> u64 \<Rightarrow> SrtlaConnection list \<Rightarrow> LinkCcController \<Rightarrow>
   (u64, LinkCcSnapshot) mapping \<times> LinkCcController" where
  "tick_all exp_f now conns m =
     (case fold (tick_entry exp_f now) conns (m, Mapping.empty) of
        (m', alive) \<Rightarrow> (alive, Mapping.filter (\<lambda>cid _. Mapping.lookup alive cid \<noteq> None) m'))"

section \<open>The target in integers\<close>

text \<open>The next target without floating point: every regime truncates its exact value.\<close>

definition target_spec :: "CcState \<Rightarrow> CcState \<Rightarrow> ClimbMode \<Rightarrow> u64 \<Rightarrow> u64 \<Rightarrow> u64" where
  "target_spec prev_state next_state mode target sane =
     clamp_target
       (case next_state of
          Climbing \<Rightarrow> if sane > 0 then target + min (target * climb_step_pm mode div 1000) (2 * sane - target) else target
        | BackingOff \<Rightarrow> max (target * 850 div 1000) (min sane target)
        | Drain \<Rightarrow> if prev_state \<noteq> Drain then target * 750 div 1000 else target
        | _ \<Rightarrow> target)"

text \<open>\<open>in_unit n x\<close>: the value truncates to \<open>n\<close>, with room for the rounding of the next operation.\<close>

definition in_unit :: "nat \<Rightarrow> rat \<Rightarrow> bool" where
  "in_unit n x \<longleftrightarrow> of_nat n \<le> x \<and> x \<le> of_nat n + 1023 / 1024"

lemma rnd64_in_unit:
  assumes "in_unit n x" "n < 2 ^ 42"
  shows "in_unit n (rnd64 x)"
proof -
  have "rnd64 (of_nat n) = of_nat n" using rnd64_of_int [of "int n"] assms(2) by simp
  moreover have "rnd64 (of_nat n + 1023 / 1024) = of_nat n + 1023 / 1024"
    using rnd64_dyadic [of "1024 * int n + 1023" 10] assms(2) by (simp add: add_divide_distrib)
  ultimately show ?thesis using assms(1) by (auto simp: in_unit_def intro: b64.rnd_le b64.rnd_ge)
qed

lemma fl_to_u64_unit: "in_unit n x \<Longrightarrow> n < 2 ^ 42 \<Longrightarrow> fl_to_u64 (Fin x) = n"
proof -
  assume "in_unit n x" "n < 2 ^ 42"
  then have "0 \<le> x" "\<lfloor>x\<rfloor> = int n" by (auto simp: in_unit_def floor_eq_iff)
  then show ?thesis using \<open>n < 2 ^ 42\<close> by (simp add: fl_to_u64_def trunc_def)
qed

lemma in_unit_of_nat [simp]: "in_unit n (of_nat n)"
  by (simp add: in_unit_def)

lemma in_unit_div:
  assumes "0 < d" "d \<le> 1024"
  shows "in_unit (a div d) (of_nat a / of_nat d)"
proof -
  have "of_nat a / (of_nat d :: rat) = of_nat (a div d) + of_nat (a mod d) / of_nat d"
    using assms(1) by (simp add: field_simps flip: of_nat_mult of_nat_add)
  moreover have "of_nat (a mod d) / (of_nat d :: rat) \<le> 1023 / 1024"
  proof -
    have "a mod d * 1024 \<le> 1023 * d" using assms mod_less_divisor [of d a] by linarith
    then have "of_nat (a mod d) * 1024 \<le> 1023 * (of_nat d :: rat)" by (metis of_nat_le_iff of_nat_mult of_nat_numeral)
    then show ?thesis using assms(1) by (simp add: field_simps)
  qed
  ultimately show ?thesis by (simp add: in_unit_def)
qed

lemma in_unit_max: "in_unit m x \<Longrightarrow> in_unit n y \<Longrightarrow> in_unit (max m n) (max x y)"
  by (auto simp: in_unit_def max_def)

lemma in_unit_min: "in_unit m x \<Longrightarrow> in_unit n y \<Longrightarrow> in_unit (min m n) (min x y)"
  by (auto simp: in_unit_def min_def)

lemma in_unit_add: "in_unit m x \<Longrightarrow> in_unit (n + m) (of_nat n + x)"
  by (simp add: in_unit_def)

lemma fl_max_Fin [simp]: "fl_max (Fin a) (Fin b) = Fin (max a b)"
  by (simp add: fl_max_def max_def)

lemma fl_min_Fin [simp]: "fl_min (Fin a) (Fin b) = Fin (min a b)"
  by (simp add: fl_min_def min_def)

definition target_ok :: "u64 \<Rightarrow> bool" where
  "target_ok t \<longleftrightarrow> MIN_TARGET_BPS \<le> t \<and> t \<le> MAX_TARGET_BPS"

lemma target_ok_clamp [simp]: "target_ok (clamp_target t)"
  by (simp add: target_ok_def clamp_target_def cc_targets)

lemma target_ok_MIN [simp]: "target_ok MIN_TARGET_BPS"
  by (simp add: target_ok_def cc_targets)

lemma clamp_target_id: "target_ok t \<Longrightarrow> clamp_target t = t"
  by (simp add: target_ok_def clamp_target_def)

lemma target_u64: "target_ok t \<Longrightarrow> u64_to_f64 t = Fin (of_nat t)"
  by (rule u64_to_f64_exact) (simp add: target_ok_def cc_targets)

lemma f64_in_unit:
  assumes "in_unit n x" "n < 2 ^ 42"
  obtains y where "f64_of_rat x = Fin y" "in_unit n y"
proof -
  have "of_nat n \<le> (2 ^ 42 :: rat)" using assms(2) by (metis less_imp_le of_nat_le_iff of_nat_numeral of_nat_power)
  then have "\<bar>x\<bar> \<le> 2 ^ 64" using assms(1) by (simp add: in_unit_def)
  then have "f64_of_rat x = Fin (rnd64 x)" by (rule f64_val)
  then show thesis using rnd64_in_unit [OF assms] that by blast
qed

lemma f64_of_nat: "n < 2 ^ 53 \<Longrightarrow> f64_of_rat (of_nat n) = Fin (of_nat n)"
  using u64_to_f64_exact [of n] by (simp add: u64_to_f64_def)

lemma permille_unit:
  assumes "target_ok t" "pm \<le> 1000"
  obtains y where "f64_div (f64_mul (u64_to_f64 t) (u64_to_f64 pm)) (f64_of_rat 1000) = Fin y"
    "in_unit (t * pm div 1000) y"
proof -
  have "t * pm \<le> 200000000 * 1000" using assms by (intro mult_le_mono) (simp_all add: target_ok_def cc_targets)
  then have b: "t * pm < 2 ^ 53" "t * pm div 1000 < 2 ^ 42" by simp_all
  have "u64_to_f64 pm = Fin (of_nat pm)" using assms(2) by (intro u64_to_f64_exact) simp
  moreover have "f64_mul (Fin (of_nat t)) (Fin (of_nat pm)) = Fin (of_nat (t * pm))"
    using f64_of_nat [OF b(1)] by simp
  ultimately have "f64_div (f64_mul (u64_to_f64 t) (u64_to_f64 pm)) (f64_of_rat 1000) = f64_of_rat (of_nat (t * pm) / of_nat 1000)"
    by (simp add: target_u64 assms(1) del: fl_mul.simps of_nat_mult)
  moreover have "in_unit (t * pm div 1000) (of_nat (t * pm) / of_nat 1000)" by (rule in_unit_div) simp_all
  ultimately show thesis using f64_in_unit [OF _ b(2)] that by metis
qed

lemma sane_observed_eq:
  assumes "target_ok t" "n < 2 ^ 64"
  shows "sane_observed t n = min n (4 * max t 1000000)"
proof -
  define b where "b = max t 1000000"
  have b: "b \<le> 200000000" using assms(1) by (simp add: b_def target_ok_def cc_targets)
  have "u64_to_f64 b = Fin (of_nat b)" using b by (intro u64_to_f64_exact) simp
  moreover have "f64_mul (Fin 4) (Fin (of_nat b)) = Fin (of_nat (4 * b))" using f64_of_nat [of "4 * b"] b by simp
  ultimately have mul: "f64_mul CC_OUTLIER_FACTOR (u64_to_f64 b) = Fin (of_nat (4 * b))"
    by (simp add: CC_OUTLIER_FACTOR_def del: fl_mul.simps of_nat_mult)
  have sane: "sane_observed t n = fl_to_u64 (fl_min (u64_to_f64 n) (Fin (of_nat (4 * b))))"
    by (simp only: sane_observed_def Let_def INITIAL_TARGET_BPS_def b_def [symmetric] mul)
  have "sane_observed t n = min n (4 * b)"
  proof (cases "n < 2 ^ 53")
    case True
    then show ?thesis
      using sane b fl_to_u64_unit [OF in_unit_of_nat, of "min n (4 * b)"]
      by (simp add: u64_to_f64_exact del: of_nat_mult flip: of_nat_min)
  next
    case False
    have "of_nat n \<le> (2 ^ 64 :: rat)" using assms(2) by (metis less_imp_le of_nat_le_iff of_nat_numeral of_nat_power)
    then have "u64_to_f64 n = Fin (rnd64 (of_nat n))" by (simp only: u64_to_f64_def) (rule f64_val, simp)
    moreover have le: "4 * b \<le> n" using b False by simp
    have "rnd64 (of_nat (4 * b)) = of_nat (4 * b)" using rnd64_of_int [of "int (4 * b)"] b by simp
    then have "of_nat (4 * b) \<le> rnd64 (of_nat n)" using le by (intro b64.rnd_ge) (simp_all only: of_nat_le_iff)
    ultimately have "sane_observed t n = fl_to_u64 (Fin (of_nat (4 * b)))"
      using sane by (simp only: fl_min_Fin min_absorb2)
    then show ?thesis using b le fl_to_u64_unit [OF in_unit_of_nat, of "4 * b"] by (simp only: min_absorb2) simp
  qed
  then show ?thesis by (simp add: b_def)
qed

lemma sane_bound: "target_ok t \<Longrightarrow> n < 2 ^ 64 \<Longrightarrow> sane_observed t n \<le> 800000000"
  by (auto simp: sane_observed_eq target_ok_def cc_targets min_le_iff_disj)

lemma target_ok_seed: "target_ok t \<Longrightarrow> target_ok (seed_target t sane)"
  by (simp add: seed_target_def)

lemma climb_step_le: "climb_step_pm mode \<le> 60"
  by (cases mode) (simp_all add: climb_step_pm_def cc_permilles)

lemma climb_headroom:
  assumes "t \<le> 200000000" "sane \<le> 800000000"
  shows "f64_sub (f64_mul (u64_to_f64 sane) (f64_of_rat 2)) (Fin (of_nat t)) = Fin (of_int (2 * int sane - int t))"
proof -
  have "u64_to_f64 sane = Fin (of_nat sane)" using assms(2) by (intro u64_to_f64_exact) simp
  moreover have "f64_mul (Fin (of_nat sane)) (Fin 2) = Fin (of_nat (sane * 2))"
    using f64_of_nat [of "sane * 2"] assms(2) by simp
  moreover have "f64_sub (Fin (of_nat (sane * 2))) (Fin (of_nat t)) = Fin (of_int (2 * int sane - int t))"
    using f64_of_int [of "2 * int sane - int t"] assms by (simp add: fl_sub_def mult.commute)
  ultimately show ?thesis by (simp del: fl_mul.simps of_nat_mult)
qed

lemma in_unit_headroom:
  assumes "in_unit m y"
  shows "in_unit (min m (2 * sane - t)) (max (min y (of_int (2 * int sane - int t))) 0)"
proof (cases "t \<le> 2 * sane")
  case True
  then have "2 * int sane - int t = int (2 * sane - t)" by simp
  then have h: "(of_int (2 * int sane - int t) :: rat) = of_nat (2 * sane - t)" by (simp only: of_int_of_nat_eq)
  have "0 \<le> y" using assms unfolding in_unit_def by (meson of_nat_0_le_iff order_trans)
  then have "0 \<le> min y (of_nat (2 * sane - t))" by (simp only: min.bounded_iff of_nat_0_le_iff)
  then show ?thesis unfolding h using in_unit_min [OF assms in_unit_of_nat, of "2 * sane - t"] by (simp only: max_absorb1)
next
  case False
  then have "(of_int (2 * int sane - int t) :: rat) \<le> 0" using of_int_le_0_iff [of "2 * int sane - int t"] by linarith
  then have "max (min y (of_int (2 * int sane - int t))) 0 = (0 :: rat)"
    by (intro max_absorb2) (rule min.coboundedI2)
  moreover have "min m (2 * sane - t) = 0" using False by simp
  ultimately show ?thesis by (simp only:) (simp add: in_unit_def)
qed

lemma climb_value:
  assumes "target_ok t" "sane \<le> 800000000"
  shows "fl_to_u64 (f64_add (fl_max (u64_to_f64 t) (u64_to_f64 MIN_TARGET_BPS))
      (fl_max (fl_min (f64_div (f64_mul (u64_to_f64 t) (u64_to_f64 (climb_step_pm mode))) (f64_of_rat 1000))
         (f64_sub (f64_mul (u64_to_f64 sane) (f64_of_rat 2)) (u64_to_f64 t))) (Fin 0))) =
    t + min (t * climb_step_pm mode div 1000) (2 * sane - t)"
proof -
  have "climb_step_pm mode \<le> 1000" using climb_step_le [of mode] by simp
  then obtain y where y: "f64_div (f64_mul (u64_to_f64 t) (u64_to_f64 (climb_step_pm mode))) (f64_of_rat 1000) = Fin y"
    "in_unit (t * climb_step_pm mode div 1000) y"
    by (rule permille_unit [OF assms(1)])
  have t: "t \<le> 200000000" using assms(1) by (simp add: target_ok_def cc_targets)
  have lo: "fl_max (u64_to_f64 t) (u64_to_f64 MIN_TARGET_BPS) = Fin (of_nat t)"
    using assms(1) by (simp add: target_u64 target_ok_def max_absorb1)
  define n where "n = t + min (t * climb_step_pm mode div 1000) (2 * sane - t)"
  have "n \<le> t + 2 * sane" unfolding n_def by linarith
  then have small: "n < 2 ^ 42" using t assms(2) by simp
  have "in_unit n (of_nat t + max (min y (of_int (2 * int sane - int t))) 0)"
    unfolding n_def by (intro in_unit_add in_unit_headroom y)
  then obtain z where z: "f64_of_rat (of_nat t + max (min y (of_int (2 * int sane - int t))) 0) = Fin z" "in_unit n z"
    using f64_in_unit [OF _ small] by blast
  show ?thesis
    unfolding lo y(1) unfolding target_u64 [OF assms(1)] climb_headroom [OF t assms(2)] fl_min_Fin fl_max_Fin fl_add.simps z(1)
    using fl_to_u64_unit [OF z(2) small] by (simp only: n_def)
qed

lemma next_target_eq:
  assumes "target_ok t" "sane \<le> 800000000"
  shows "next_target ps ns mode t sane = target_spec ps ns mode t sane"
proof -
  have t: "t < 2 ^ 42" using assms(1) by (simp add: target_ok_def cc_targets)
  have keep: "fl_to_u64 (u64_to_f64 t) = t" using fl_to_u64_unit [OF in_unit_of_nat t] assms(1) by (simp add: target_u64)
  have cut: "fl_to_u64 (f64_div (f64_mul (u64_to_f64 t) (u64_to_f64 DRAIN_PERMILLE)) (f64_of_rat 1000)) = t * 750 div 1000"
  proof -
    obtain y where "f64_div (f64_mul (u64_to_f64 t) (u64_to_f64 DRAIN_PERMILLE)) (f64_of_rat 1000) = Fin y"
      "in_unit (t * 750 div 1000) y"
      using permille_unit [OF assms(1), of DRAIN_PERMILLE] by (auto simp: DRAIN_PERMILLE_def)
    then show ?thesis using fl_to_u64_unit t by simp
  qed
  have cut_to: "fl_to_u64 (fl_max (f64_div (f64_mul (u64_to_f64 t) (u64_to_f64 BACKOFF_PERMILLE)) (f64_of_rat 1000))
      (fl_min (u64_to_f64 sane) (u64_to_f64 t))) = max (t * 850 div 1000) (min sane t)"
  proof -
    obtain y where y: "f64_div (f64_mul (u64_to_f64 t) (u64_to_f64 BACKOFF_PERMILLE)) (f64_of_rat 1000) = Fin y"
      "in_unit (t * 850 div 1000) y"
      using permille_unit [OF assms(1), of BACKOFF_PERMILLE] by (auto simp: BACKOFF_PERMILLE_def)
    have "u64_to_f64 sane = Fin (of_nat sane)" using assms(2) by (intro u64_to_f64_exact) simp
    moreover have "in_unit (max (t * 850 div 1000) (min sane t)) (max y (min (of_nat sane) (of_nat t)))"
      by (intro in_unit_max in_unit_min y(2) in_unit_of_nat)
    moreover have "max (t * 850 div 1000) (min sane t) < 2 ^ 42" using t by (auto simp: min_less_iff_disj)
    ultimately show ?thesis unfolding y(1) unfolding target_u64 [OF assms(1)] by (simp only: fl_min_Fin fl_max_Fin fl_to_u64_unit)
  qed
  show ?thesis
  proof (cases ns)
    case Climbing
    then show ?thesis using climb_value [OF assms, of mode] keep by (simp only: next_target_def target_spec_def Let_def CcState.case) simp
  qed (simp_all only: next_target_def target_spec_def Let_def CcState.case keep cut_to cut split: if_split, simp_all)
qed

section \<open>What a tick does to the target\<close>

lemma evict_expired_frame [frame_simps]:
  "lcs_target_bps (evict_expired now s) = lcs_target_bps s" "lcs_state (evict_expired now s) = lcs_state s"
  "rtt_ewma_ms (evict_expired now s) = rtt_ewma_ms s"
  by (simp_all add: evict_expired_def case_prod_beta)

lemma update_loss_ewma_frame [frame_simps]:
  "lcs_target_bps (update_loss_ewma exp_f pm now s) = lcs_target_bps s"
  "lcs_state (update_loss_ewma exp_f pm now s) = lcs_state s"
  "rtt_ewma_ms (update_loss_ewma exp_f pm now s) = rtt_ewma_ms s"
  "rtt_min_ms (update_loss_ewma exp_f pm now s) = rtt_min_ms s"
  by (simp_all add: update_loss_ewma_def Let_def)

lemma update_backoff_efficacy_frame [frame_simps]:
  "lcs_target_bps (update_backoff_efficacy h pm s) = lcs_target_bps s"
  "lcs_state (update_backoff_efficacy h pm s) = lcs_state s"
  by (simp_all add: update_backoff_efficacy_def Let_def)

lemma record_rtt_frame [frame_simps]: "lcs_target_bps (record_rtt r now s) = lcs_target_bps s"
  by (simp add: record_rtt_def update_rtt_min_def Let_def split: prod.splits)

lemma observe_traffic_frame [frame_simps]: "lcs_target_bps (observe_traffic b n now s) = lcs_target_bps s"
  by (simp add: observe_traffic_def record_loss_def Let_def frame_simps)

definition has_rtt :: "LinkCongestionState \<Rightarrow> bool" where
  "has_rtt s \<longleftrightarrow> is_finite (rtt_ewma_ms s) \<and> \<not> fl_eq (rtt_ewma_ms s) (Fin 0)"

lemma cc_tick_target:
  assumes "has_rtt s"
  shows "lcs_target_bps (cc_tick exp_f obs now s) =
    next_target (lcs_state s) (lcs_state (cc_tick exp_f obs now s)) (lcs_climb_mode (cc_tick exp_f obs now s))
      (seed_target (lcs_target_bps s) (sane_observed (lcs_target_bps s) obs)) (sane_observed (lcs_target_bps s) obs)"
  using assms by (simp add: cc_tick_def has_rtt_def Let_def frame_simps)

lemma cc_tick_bootstrap:
  "\<not> has_rtt s \<Longrightarrow> lcs_target_bps (cc_tick exp_f obs now s) = MIN_TARGET_BPS \<and> lcs_state (cc_tick exp_f obs now s) = Bootstrap"
  by (auto simp: cc_tick_def has_rtt_def Let_def frame_simps)

lemma cc_tick_spec:
  assumes "has_rtt s" "target_ok (lcs_target_bps s)" "obs < 2 ^ 64"
  shows "lcs_target_bps (cc_tick exp_f obs now s) =
    target_spec (lcs_state s) (lcs_state (cc_tick exp_f obs now s)) (lcs_climb_mode (cc_tick exp_f obs now s))
      (seed_target (lcs_target_bps s) (min obs (4 * max (lcs_target_bps s) 1000000)))
      (min obs (4 * max (lcs_target_bps s) 1000000))"
proof -
  let ?t = "lcs_target_bps s"
  have "lcs_target_bps (cc_tick exp_f obs now s) = target_spec (lcs_state s) (lcs_state (cc_tick exp_f obs now s))
      (lcs_climb_mode (cc_tick exp_f obs now s)) (seed_target ?t (sane_observed ?t obs)) (sane_observed ?t obs)"
    unfolding cc_tick_target [OF assms(1)]
    by (rule next_target_eq [OF target_ok_seed [OF assms(2)] sane_bound [OF assms(2,3)]])
  then show ?thesis by (simp only: sane_observed_eq [OF assms(2,3)])
qed

text \<open>C27: The soft cap of a link is computed in binary64 and equals an integer formula. With an estimate of the
  round trip, a tick first replaces a cap at the floor by the measured rate (at least 1 Mbit/s), limits the measured
  rate to four times the larger of cap and 1 Mbit/s, and then, depending on the regime it enters: climbs by 2, 4 or 6
  percent, but not above twice the measured rate and not at all without traffic; holds; backs off by 15 percent, but
  not below the measured rate; or drains by 25 percent once. No rounding error is visible in the result.\<close>

theorem cc_tick_integer:
  assumes "is_finite (rtt_ewma_ms s) \<and> \<not> fl_eq (rtt_ewma_ms s) (Fin 0)"
    and "100000 \<le> lcs_target_bps s \<and> lcs_target_bps s \<le> 200000000" "observed < 2 ^ 64"
    and "s' = cc_tick exp_f observed now s"
    and "sane = min observed (4 * max (lcs_target_bps s) 1000000)"
    and "cap = (if lcs_target_bps s = 100000 then min 200000000 (max sane 1000000) else lcs_target_bps s)"
  shows "lcs_target_bps s' = min 200000000 (max 100000 (case lcs_state s' of
       Climbing \<Rightarrow> if sane > 0
         then cap + min (cap * (case lcs_climb_mode s' of Normal \<Rightarrow> 20 | Hai \<Rightarrow> 60 | FastRecovery \<Rightarrow> 40) div 1000) (2 * sane - cap)
         else cap
     | BackingOff \<Rightarrow> max (cap * 850 div 1000) (min sane cap)
     | Drain \<Rightarrow> if lcs_state s \<noteq> Drain then cap * 750 div 1000 else cap
     | _ \<Rightarrow> cap))"
proof -
  have "has_rtt s" "target_ok (lcs_target_bps s)" using assms(1,2) by (simp_all add: has_rtt_def target_ok_def cc_targets)
  note spec = cc_tick_spec [OF this assms(3), of exp_f now]
  have "seed_target (lcs_target_bps s) sane = cap"
    by (auto simp: seed_target_def assms(6) clamp_target_def cc_targets max_def)
  moreover have "climb_step_pm m = (case m of Normal \<Rightarrow> 20 | Hai \<Rightarrow> 60 | FastRecovery \<Rightarrow> 40)" for m
    by (simp add: climb_step_pm_def cc_permilles split: ClimbMode.split)
  ultimately show ?thesis
    using spec unfolding assms(4,5) [symmetric]
    by (simp only: target_spec_def clamp_target_def MIN_TARGET_BPS_def MAX_TARGET_BPS_def)
qed

definition cc_sampled :: LinkCongestionState where
  "cc_sampled = record_rtt (Fin 50) 4000 (record_rtt (Fin 10) 1000 LinkCongestionState_default)"

lemma cc_sampled_fields:
  "rtt_ewma_ms cc_sampled = Fin 50" "rtt_min_ms cc_sampled = Fin 10" "lcs_target_bps cc_sampled = 100000"
  "lcs_state cc_sampled = Bootstrap" "window_sent cc_sampled = 0" "window_lost cc_sampled = 0" "loss_samples cc_sampled = []"
  by (simp_all add: cc_sampled_def record_rtt_def update_rtt_min_def LinkCongestionState_default_def Let_def is_finite_def
      fl_le_def fl_eq_def MIN_TARGET_BPS_def CC_RTT_MIN_WINDOW_MS_def)

lemma cc_sampled_drains: "lcs_state (cc_tick exp_f obs 5000 cc_sampled) = Drain"
  by (simp add: cc_tick_def evict_expired_def cc_sampled_fields is_finite_def fl_eq_def Let_def frame_simps loss_permille_def
      LOSS_BACKOFF_PERMILLE_def next_cc_state_def rtt_inflation_def DRAIN_RTT_INFLATION_def)

theorem cc_tick_integer_witness: "lcs_target_bps (cc_tick (\<lambda>_. Fin 0) 3000000 5000 cc_sampled) = 2250000"
  using cc_tick_integer [of cc_sampled 3000000 _ "\<lambda>_. Fin 0" 5000, OF _ _ _ refl refl refl]
  by (simp add: cc_sampled_fields cc_sampled_drains is_finite_def fl_eq_def)

section \<open>The target over a run\<close>

datatype CcEvent = RttSample f64 u64 | Traffic u64 i32 u64 | Tick u64 u64

definition cc_step :: "(f64 \<Rightarrow> f64) \<Rightarrow> LinkCongestionState \<Rightarrow> CcEvent \<Rightarrow> LinkCongestionState" where
  "cc_step exp_f s e =
     (case e of RttSample rtt now \<Rightarrow> record_rtt rtt now s
      | Traffic bytes naks now \<Rightarrow> observe_traffic bytes naks now s
      | Tick observed now \<Rightarrow> cc_tick exp_f observed now s)"

definition cc_admissible :: "CcEvent \<Rightarrow> bool" where
  "cc_admissible e \<longleftrightarrow> (case e of Tick observed _ \<Rightarrow> observed < 2 ^ 64 | _ \<Rightarrow> True)"

lemma cc_tick_target_ok: "target_ok (lcs_target_bps (cc_tick exp_f obs now s))"
proof (cases "has_rtt s")
  case True
  show ?thesis unfolding cc_tick_target [OF True] next_target_def Let_def by (rule target_ok_clamp)
next
  case False
  then show ?thesis by (simp add: cc_tick_bootstrap)
qed

interpretation cc_machine: machine "cc_step exp_f" cc_admissible "\<lambda>s. target_ok (lcs_target_bps s)" for exp_f
  by unfold_locales (auto simp: cc_step_def frame_simps cc_tick_target_ok split: CcEvent.split)

lemma target_spec_growth:
  assumes "target_ok t"
  shows "target_spec ps ns mode t sane \<le> t + t * 60 div 1000"
    and "ns \<noteq> Climbing \<or> sane = 0 \<Longrightarrow> target_spec ps ns mode t sane \<le> t"
proof -
  have "t * climb_step_pm mode div 1000 \<le> t * 60 div 1000"
    using climb_step_le by (intro div_le_mono mult_le_mono2)
  then show "target_spec ps ns mode t sane \<le> t + t * 60 div 1000"
    using assms by (cases ns) (auto simp: target_spec_def clamp_target_def target_ok_def min_le_iff_disj)
  show "target_spec ps ns mode t sane \<le> t" if "ns \<noteq> Climbing \<or> sane = 0"
    using assms that by (cases ns) (auto simp: target_spec_def clamp_target_def target_ok_def min_le_iff_disj)
qed

lemma target_spec_lower:
  assumes "target_ok t"
  shows "t * 750 div 1000 \<le> target_spec ps ns mode t sane"
proof -
  have "t * 750 div 1000 \<le> t * 850 div 1000" by (intro div_le_mono) simp
  then show ?thesis
    using assms by (cases ns) (auto simp: target_spec_def clamp_target_def target_ok_def cc_targets le_max_iff_disj)
qed

text \<open>The soft cap stays between 100 kbit/s and 200 Mbit/s after every sequence of round-trip samples, traffic
  reports and ticks. Above the floor, one tick raises it by at most 6 percent, whatever it measured, and
  only by climbing with traffic: holding, backing off, draining and an idle tick never raise it; and one tick lowers
  it by at most a quarter, as long as there is an estimate of the round trip.\<close>

theorem cc_run_bounds:
  assumes "list_all cc_admissible es" "s = foldl (cc_step exp_f) LinkCongestionState_default es"
    and "observed < 2 ^ 64" "s' = cc_tick exp_f observed now s"
  shows "100000 \<le> lcs_target_bps s \<and> lcs_target_bps s \<le> 200000000 \<and>
    (lcs_target_bps s \<noteq> 100000 \<longrightarrow>
       lcs_target_bps s' \<le> lcs_target_bps s + lcs_target_bps s * 60 div 1000 \<and>
       (lcs_state s' \<noteq> Climbing \<or> observed = 0 \<longrightarrow> lcs_target_bps s' \<le> lcs_target_bps s) \<and>
       (lcs_state s' \<noteq> Bootstrap \<longrightarrow> lcs_target_bps s * 750 div 1000 \<le> lcs_target_bps s'))"
proof -
  let ?t = "lcs_target_bps s" and ?sane = "min observed (4 * max (lcs_target_bps s) 1000000)"
  have "target_ok (lcs_target_bps LinkCongestionState_default)" by (simp add: LinkCongestionState_default_def)
  then have ok: "target_ok ?t" unfolding assms(2) using assms(1) by (rule cc_machine.run_inv)
  moreover have "?t * 60 div 1000 \<ge> 0" by simp
  moreover have "lcs_target_bps s' \<le> ?t + ?t * 60 div 1000 \<and>
      (lcs_state s' \<noteq> Climbing \<or> observed = 0 \<longrightarrow> lcs_target_bps s' \<le> ?t) \<and>
      (lcs_state s' \<noteq> Bootstrap \<longrightarrow> ?t * 750 div 1000 \<le> lcs_target_bps s')" if "?t \<noteq> 100000"
  proof (cases "has_rtt s")
    case True
    have "lcs_target_bps s' = target_spec (lcs_state s) (lcs_state s') (lcs_climb_mode s') ?t ?sane"
      using cc_tick_spec [OF True ok assms(3), of exp_f now] that by (simp add: assms(4) seed_target_def cc_targets)
    then show ?thesis
      using target_spec_growth [OF ok] target_spec_lower [OF ok] by (auto simp del: div_mult_self1_is_m)
  next
    case False
    then show ?thesis using cc_tick_bootstrap [OF False] ok
      by (simp add: assms(4) target_ok_def trans_le_add1)
  qed
  ultimately show ?thesis by (simp add: target_ok_def cc_targets)
qed

text \<open>C38: A cap at the floor is not kept. The seeding of the first tick with a round trip is guarded by the value of
  the cap, not by the state, so every tick that finds the cap at 100 kbit/s restarts it from at least 1 Mbit/s:
  after the tick it is at least 750 kbit/s, also when the floor was reached by backing off.\<close>

theorem cc_floor_reseeds:
  assumes "is_finite (rtt_ewma_ms s) \<and> \<not> fl_eq (rtt_ewma_ms s) (Fin 0)" "lcs_target_bps s = 100000" "observed < 2 ^ 64"
  shows "750000 \<le> lcs_target_bps (cc_tick exp_f observed now s)"
proof -
  let ?sane = "min observed (4 * max (lcs_target_bps s) 1000000)"
  have ok: "target_ok (lcs_target_bps s)" using assms(2) by (simp add: target_ok_def cc_targets)
  have seed: "1000000 \<le> seed_target (lcs_target_bps s) ?sane"
    by (simp add: seed_target_def assms(2) clamp_target_def cc_targets)
  have "1000000 * 750 div 1000 \<le> seed_target (lcs_target_bps s) ?sane * 750 div 1000"
    by (intro div_le_mono mult_le_mono1 seed)
  also have "\<dots> \<le> lcs_target_bps (cc_tick exp_f observed now s)"
    using cc_tick_spec [of s observed exp_f now] assms ok target_spec_lower [OF target_ok_seed [OF ok]] by (simp add: has_rtt_def)
  finally show ?thesis by simp
qed

theorem cc_run_bounds_witness:
  "lcs_target_bps (foldl (cc_step (\<lambda>_. Fin 0)) LinkCongestionState_default [RttSample (Fin 50) 1000, Tick 3000000 2000]) \<le> 200000000"
  using cc_run_bounds [of "[RttSample (Fin 50) 1000, Tick 3000000 2000]" _ "\<lambda>_. Fin 0" 0 _ 0, OF _ refl _ refl]
  by (simp add: cc_admissible_def)

theorem cc_floor_reseeds_witness: "750000 \<le> lcs_target_bps (cc_tick (\<lambda>_. Fin 0) 0 5000 cc_sampled)"
  by (rule cc_floor_reseeds) (simp_all add: cc_sampled_fields is_finite_def fl_eq_def)

section \<open>The loss window is exact\<close>

abbreviation sum_sent :: "LossSample list \<Rightarrow> nat" where "sum_sent xs \<equiv> sum_list (map ls_sent xs)"
abbreviation sum_lost :: "LossSample list \<Rightarrow> nat" where "sum_lost xs \<equiv> sum_list (map ls_lost xs)"

definition recent :: "u64 \<Rightarrow> LossSample list \<Rightarrow> LossSample list" where
  "recent cutoff xs = filter (\<lambda>x. cutoff \<le> ls_ts_ms x) xs"

lemma evict_loop_recent:
  "sorted (map ls_ts_ms xs) \<Longrightarrow>
   evict_loop cutoff xs (sum_sent xs) (sum_lost xs) = (recent cutoff xs, sum_sent (recent cutoff xs), sum_lost (recent cutoff xs))"
proof (induction xs)
  case (Cons x xs)
  have "recent cutoff xs = xs" if "cutoff \<le> ls_ts_ms x"
    using Cons.prems that by (auto simp: recent_def filter_id_conv)
  then show ?case using Cons by (auto simp: recent_def not_less)
qed (simp add: recent_def)

definition loss_window_ok :: "u64 \<Rightarrow> LossSample list \<Rightarrow> LinkCongestionState \<Rightarrow> bool" where
  "loss_window_ok now seen s \<longleftrightarrow>
     sorted (map ls_ts_ms seen) \<and> list_all (\<lambda>x. ls_ts_ms x \<le> now) seen \<and>
     loss_samples s = recent (now - LOSS_WINDOW_MS) seen \<and>
     window_sent s = sum_sent (loss_samples s) \<and> window_lost s = sum_lost (loss_samples s)"

lemma recent_recent: "c \<le> d \<Longrightarrow> recent d (recent c xs) = recent d xs"
  by (auto simp: recent_def intro: filter_cong)

lemma sorted_recent: "sorted (map ls_ts_ms xs) \<Longrightarrow> sorted (map ls_ts_ms (recent c xs))"
  by (simp add: recent_def sorted_filter)

lemma loss_window_evict:
  assumes "loss_window_ok now seen s" "now \<le> later"
  shows "loss_window_ok later seen (evict_expired later s)"
proof -
  have "evict_loop (later - LOSS_WINDOW_MS) (loss_samples s) (window_sent s) (window_lost s) =
      (recent (later - LOSS_WINDOW_MS) seen, sum_sent (recent (later - LOSS_WINDOW_MS) seen),
       sum_lost (recent (later - LOSS_WINDOW_MS) seen))"
    using assms evict_loop_recent [OF sorted_recent, of seen "later - LOSS_WINDOW_MS" "now - LOSS_WINDOW_MS"]
    by (simp add: loss_window_ok_def recent_recent diff_le_mono)
  then show ?thesis using assms by (auto simp: loss_window_ok_def evict_expired_def list_all_iff)
qed

lemma sum_recent_le: "sum_sent (recent c xs) \<le> sum_sent xs" "sum_lost (recent c xs) \<le> sum_lost xs"
  by (induction xs) (auto simp: recent_def)

lemma loss_window_record:
  assumes ok: "loss_window_ok now seen s" and "now \<le> later" and "x = \<lparr> ls_ts_ms = later, ls_lost = lost, ls_sent = sent \<rparr>"
    and small: "sum_sent (seen @ [x]) < 2 ^ 32" "sum_lost (seen @ [x]) < 2 ^ 32"
  shows "loss_window_ok later (seen @ [x]) (record_loss sent lost later s)"
proof -
  let ?s = "s\<lparr> loss_samples := loss_samples s @ [x], window_sent := u32_saturating_add (window_sent s) sent,
               window_lost := u32_saturating_add (window_lost s) lost \<rparr>"
  have "window_sent s + sent < 2 ^ 32" "window_lost s + lost < 2 ^ 32"
    using ok small sum_recent_le [of "now - LOSS_WINDOW_MS" seen] assms(3) by (auto simp: loss_window_ok_def)
  then have sums: "window_sent ?s = sum_sent (loss_samples ?s)" "window_lost ?s = sum_lost (loss_samples ?s)"
    using ok assms(3) by (simp_all add: loss_window_ok_def u32_saturating_add_def)
  have rec: "recent (later - LOSS_WINDOW_MS) (loss_samples ?s) = recent (later - LOSS_WINDOW_MS) (seen @ [x])"
    using ok assms(2) recent_recent [of "now - LOSS_WINDOW_MS" "later - LOSS_WINDOW_MS" seen]
    by (simp add: loss_window_ok_def recent_def diff_le_mono)
  have all: "list_all (\<lambda>y. ls_ts_ms y \<le> later) (seen @ [x])" "sorted (map ls_ts_ms (seen @ [x]))"
    using ok assms(2,3) by (fastforce simp: loss_window_ok_def list_all_iff sorted_append)+
  have "sorted (map ls_ts_ms (loss_samples ?s))"
    using all(2) ok by (auto simp: loss_window_ok_def sorted_append recent_def sorted_filter)
  then have "evict_expired later ?s = ?s\<lparr> loss_samples := recent (later - LOSS_WINDOW_MS) (seen @ [x]),
      window_sent := sum_sent (recent (later - LOSS_WINDOW_MS) (seen @ [x])),
      window_lost := sum_lost (recent (later - LOSS_WINDOW_MS) (seen @ [x])) \<rparr>"
    using evict_loop_recent [of "loss_samples ?s" "later - LOSS_WINDOW_MS"] unfolding evict_expired_def sums rec by simp
  then show ?thesis using all by (simp add: loss_window_ok_def record_loss_def assms(3))
qed

fun record_samples :: "LossSample list \<Rightarrow> LinkCongestionState \<Rightarrow> LinkCongestionState" where
  "record_samples [] s = s"
| "record_samples (x # xs) s = record_samples xs (record_loss (ls_sent x) (ls_lost x) (ls_ts_ms x) s)"

lemma record_samples_snoc:
  "record_samples (xs @ [x]) s = record_loss (ls_sent x) (ls_lost x) (ls_ts_ms x) (record_samples xs s)"
  by (induction xs arbitrary: s) auto

lemma loss_window_run:
  assumes "sorted (map ls_ts_ms xs)" "sum_sent xs < 2 ^ 32" "sum_lost xs < 2 ^ 32"
  shows "loss_window_ok (if xs = [] then 0 else ls_ts_ms (last xs)) xs (record_samples xs LinkCongestionState_default)"
  using assms
proof (induction xs rule: rev_induct)
  case Nil
  show ?case by (simp add: loss_window_ok_def LinkCongestionState_default_def recent_def)
next
  case (snoc x xs)
  have "(if xs = [] then 0 else ls_ts_ms (last xs)) \<le> ls_ts_ms x"
    using snoc.prems(1) by (auto simp: sorted_append)
  moreover have "loss_window_ok (if xs = [] then 0 else ls_ts_ms (last xs)) xs (record_samples xs LinkCongestionState_default)"
    using snoc by (simp add: sorted_append)
  ultimately show ?case
    using snoc.prems(2,3) by (simp only: record_samples_snoc last_snoc snoc_eq_iff_butlast if_False) (auto intro!: loss_window_record)
qed

text \<open>The incremental loss window is exact: after any samples recorded in time order (with fewer than 4294967296
  packets in all) and a final eviction, the loss rate is the permille of lost packets among those sent in the
  samples of the last second, zero when nothing was sent; no sample is forgotten early, kept late or counted twice.\<close>

theorem loss_window_exact:
  assumes "sorted (map ls_ts_ms xs @ [now])" "sum_list (map ls_sent xs) < 2 ^ 32" "sum_list (map ls_lost xs) < 2 ^ 32"
    and "rs = filter (\<lambda>x. now - 1000 \<le> ls_ts_ms x) xs"
  shows "loss_permille (evict_expired now (record_samples xs LinkCongestionState_default)) =
    (if sum_list (map ls_sent rs) = 0 then 0
     else min (sum_list (map ls_lost rs) * 1000 div sum_list (map ls_sent rs)) 1000000)"
proof -
  have "loss_window_ok now xs (evict_expired now (record_samples xs LinkCongestionState_default))"
    using assms(1-3) by (intro loss_window_evict [OF loss_window_run]) (auto simp: sorted_append)
  moreover have "sum_lost rs * 1000 < 2 ^ 64"
    using sum_recent_le(2) [of "now - 1000" xs] assms(3,4) by (simp add: recent_def)
  ultimately show ?thesis
    by (simp add: loss_permille_def loss_window_ok_def recent_def LOSS_WINDOW_MS_def assms(4) u64_saturating_mul_def
        del: sum_list_eq_0_iff)
qed

theorem loss_window_exact_witness:
  "loss_permille (evict_expired 2500 (record_samples
     [\<lparr> ls_ts_ms = 1000, ls_lost = 9, ls_sent = 10 \<rparr>, \<lparr> ls_ts_ms = 2000, ls_lost = 1, ls_sent = 50 \<rparr>] LinkCongestionState_default)) = 20"
  using loss_window_exact [of "[\<lparr> ls_ts_ms = 1000, ls_lost = 9, ls_sent = 10 \<rparr>, \<lparr> ls_ts_ms = 2000, ls_lost = 1, ls_sent = 50 \<rparr>]" 2500]
  by simp

section \<open>The controller follows the links\<close>

definition cc_progress :: "u64 set \<Rightarrow> LinkCcController \<times> (u64, LinkCcSnapshot) mapping \<Rightarrow> bool" where
  "cc_progress ids st \<longleftrightarrow>
     Mapping.keys (snd st) = ids \<and> ids \<subseteq> Mapping.keys (fst st) \<and>
     (\<forall>cid sn. Mapping.lookup (snd st) cid = Some sn \<longrightarrow>
        target_ok (snap_target_bps sn) \<and> (\<exists>s. Mapping.lookup (fst st) cid = Some s \<and> sn = cc_snapshot s))"

lemma snap_target [simp]: "snap_target_bps (cc_snapshot s) = lcs_target_bps s"
  by (simp add: cc_snapshot_def)

lemma tick_conn_target_ok: "target_ok (lcs_target_bps (tick_conn exp_f now c s))"
  by (simp add: tick_conn_def Let_def cc_tick_target_ok)

lemma tick_entry_progress: "cc_progress ids st \<Longrightarrow> cc_progress (insert (c_conn_id c) ids) (tick_entry exp_f now c st)"
  by (auto simp: cc_progress_def tick_entry_def Let_def lookup_update' tick_conn_target_ok
      split: prod.splits if_splits)

lemma tick_fold_progress:
  "cc_progress ids st \<Longrightarrow> cc_progress (ids \<union> c_conn_id ` set conns) (fold (tick_entry exp_f now) conns st)"
proof (induction conns arbitrary: ids st)
  case (Cons c cs)
  then show ?case using Cons.IH [OF tick_entry_progress [OF Cons.prems]] by (simp add: Un_commute Un_left_commute)
qed simp

lemma tick_all_result:
  assumes "tick_all exp_f now conns m = (alive, m')"
  shows "Mapping.keys alive = c_conn_id ` set conns" "Mapping.keys m' = c_conn_id ` set conns"
    and "Mapping.lookup alive cid = Some sn \<Longrightarrow>
      target_ok (snap_target_bps sn) \<and> (\<exists>s. Mapping.lookup m' cid = Some s \<and> sn = cc_snapshot s)"
proof -
  obtain m1 where m1: "fold (tick_entry exp_f now) conns (m, Mapping.empty) = (m1, alive)"
      "m' = Mapping.filter (\<lambda>cid _. Mapping.lookup alive cid \<noteq> None) m1"
    using assms by (auto simp: tick_all_def split: prod.splits)
  have "cc_progress {} (m, Mapping.empty)" by (simp add: cc_progress_def)
  from tick_fold_progress [OF this, of conns exp_f now]
  have p: "cc_progress (c_conn_id ` set conns) (m1, alive)" using m1(1) by simp
  show "Mapping.keys alive = c_conn_id ` set conns" using p by (simp add: cc_progress_def)
  show "Mapping.keys m' = c_conn_id ` set conns"
    using p unfolding cc_progress_def m1(2) set_eq_iff subset_iff keys_lookup
    by (auto simp: lookup_filter split: option.splits)
  show "Mapping.lookup alive cid = Some sn \<Longrightarrow>
      target_ok (snap_target_bps sn) \<and> (\<exists>s. Mapping.lookup m' cid = Some s \<and> sn = cc_snapshot s)"
    using p by (force simp: cc_progress_def m1(2) lookup_filter split: option.splits)
qed

end
