(* ===== verification/Event_Loop.thy ===== *)
theory Event_Loop
  imports Uplinks Classifier Link_CC
begin

text \<open>
  The sender as a whole: start-up and the event loop of \<^verbatim>\<open>src/sender/mod.rs\<close>, the datagrams of
  \<^verbatim>\<open>src/priority_listener.rs\<close> and the runtime setters. Each arm of the loop is a function on the state; the loop is the
  step relation \<open>sender_step\<close>, whose rules leave to the surroundings which arm runs, what the clock shows, what
  sockets and name lookups answer and what the readers have queued. Status logging, statistics and subscriptions are
  outputs the state does not depend on and are left out.
\<close>

definition HOUSEKEEPING_INTERVAL_MS :: u64 where "HOUSEKEEPING_INTERVAL_MS = 1000"
definition STATUS_LOG_INTERVAL_MS :: u64 where "STATUS_LOG_INTERVAL_MS = 30000"
definition DATAGRAM_LEN :: usize where "DATAGRAM_LEN = 5"
definition PROTO_MAGIC :: u8 where "PROTO_MAGIC = 0xC1"

record Sender =
  s_bond :: Bond
  s_io :: IoMap
  s_readers :: "u64 list"
  s_queue :: "UplinkPacket list"
  s_all_failed_at :: "u64 option"
  s_rehome :: RehomeGate
  s_pending :: "PendingConnectionChanges option"
  s_filter :: WeakLinkFilter
  s_cc :: LinkCcController
  s_status_elapsed_ms :: u64
  s_critical :: CriticalWindow

text \<open>The constant arguments of the process, and what one pass of the loop meets: the outcome of sending on a socket, the
  surroundings of the packet at hand and of the n-th packet drained after it.\<close>

record Params =
  p_parse_ip :: "string \<Rightarrow> IpAddr option"
  p_receiver_host :: string
  p_receiver_port :: u16

record Pass =
  x_send :: "u64 \<Rightarrow> SendOutcome"
  x_env :: Env
  x_drain :: "usize \<Rightarrow> Env"

definition shell_io :: "IoMap \<Rightarrow> (u64 \<Rightarrow> SendOutcome) \<Rightarrow> ConnIoMap" where
  "shell_io io send k = (case Mapping.lookup io k of None \<Rightarrow> None | Some _ \<Rightarrow> Some (send k))"

definition shell_env :: "IoMap \<Rightarrow> (u64 \<Rightarrow> SendOutcome) \<Rightarrow> Env \<Rightarrow> Env" where
  "shell_env io send env = env\<lparr> e_io := shell_io io send \<rparr>"

section \<open>The arms of the loop\<close>

definition drain_channel :: "Pass \<Rightarrow> ConfigSnapshot \<Rightarrow> Sender \<Rightarrow> Sender \<times> effect list" where
  "drain_channel x config_snap s =
     (let envs = map (\<lambda>i. shell_env (s_io s) (x_send x) (x_drain x i)) [0..<length (s_queue s)] in
      case drain_packet_queue config_snap (zip envs (s_queue s)) (s_bond s) of
        (b, effs, rest) \<Rightarrow> (s\<lparr> s_bond := b, s_queue := map snd rest \<rparr>, effs))"

definition on_client_packet :: "Pass \<Rightarrow> (bytes \<times> SocketAddr) option \<Rightarrow> Sender \<Rightarrow> Sender \<times> effect list" where
  "on_client_packet x res s =
     (let config_snap = snapshot (b_config (s_bond s)) in
      case handle_srt_packet (shell_env (s_io s) (x_send x) (x_env x)) res (rm_has_connected (b_reg (s_bond s)))
             config_snap (s_critical s) (s_bond s) of
        (b, effs1) \<Rightarrow>
          (case drain_channel x config_snap (s\<lparr> s_bond := b \<rparr>) of (s', effs2) \<Rightarrow> (s', effs1 @ effs2)))"

definition on_uplink_packet :: "Pass \<Rightarrow> UplinkPacket \<Rightarrow> Sender \<Rightarrow> Sender \<times> effect list" where
  "on_uplink_packet x packet s =
     (let config_snap = snapshot (b_config (s_bond s)) in
      case handle_uplink_packet (shell_env (s_io s) (x_send x) (x_env x)) config_snap packet (s_bond s) of
        (b, effs1) \<Rightarrow>
          (case drain_channel x config_snap (s\<lparr> s_bond := b \<rparr>) of (s', effs2) \<Rightarrow> (s', effs1 @ effs2)))"

definition on_batch_flush :: "Pass \<Rightarrow> Sender \<Rightarrow> Sender \<times> effect list" where
  "on_batch_flush x s =
     (case flush_all_batches (shell_io (s_io s) (x_send x)) (e_clk (x_env x)) (e_now (x_env x))
             (b_conns (s_bond s)) (b_tracker (s_bond s)) of
        (conns, tr, effs) \<Rightarrow> (s\<lparr> s_bond := (s_bond s)\<lparr> b_conns := conns, b_tracker := tr \<rparr> \<rparr>, effs))"

definition on_sighup :: "Params \<Rightarrow> Pass \<Rightarrow> string option \<Rightarrow> Sender \<Rightarrow> Sender \<times> effect list" where
  "on_sighup p x file s =
     drain_channel x (snapshot (b_config (s_bond s)))
       (case analyze_ip_reload (p_parse_ip p) file of
          Apply ips weights _ \<Rightarrow>
            s\<lparr> s_pending := Some \<lparr> pc_new_ips = Some ips, pc_new_weights = weights,
                 pc_receiver_host = p_receiver_host p, pc_receiver_port = p_receiver_port p \<rparr> \<rparr>
        | Refuse _ \<Rightarrow> s)"

definition run_restarts :: "effect list \<Rightarrow> u64 list \<Rightarrow> u64 list" where
  "run_restarts effs readers =
     fold (\<lambda>e rs. case e of RestartReader i \<Rightarrow> restart_reader_for i rs | _ \<Rightarrow> rs) effs readers"

definition run_housekeeping :: "HkEnv \<Rightarrow> Sender \<Rightarrow> Sender \<times> effect list" where
  "run_housekeeping h s =
     (let b = s_bond s in
      case handle_housekeeping h (is_classic (mode_from_u8 (dc_mode (b_config b))))
             \<lparr> hk_conns = b_conns b, hk_io = s_io s, hk_reg = b_reg b, hk_tracker = b_tracker b,
               hk_all_failed_at = s_all_failed_at s, hk_rehome = s_rehome s \<rparr> of
        (res, st, effs) \<Rightarrow>
          (s\<lparr> s_bond := b\<lparr> b_conns := hk_conns st, b_reg := hk_reg st, b_tracker := hk_tracker st \<rparr>, s_io := hk_io st,
              s_all_failed_at := hk_all_failed_at st, s_rehome := hk_rehome st, s_readers := run_restarts effs (s_readers s) \<rparr>,
           effs))"

definition stamp_link :: "LinkClassification list \<Rightarrow> (u64, LinkCcSnapshot) mapping \<Rightarrow> SrtlaConnection \<Rightarrow> SrtlaConnection" where
  "stamp_link per_link snaps conn =
     (let entry = find (\<lambda>e. lc_conn_id e = c_conn_id conn) per_link;
          cc_snap = Mapping.lookup snaps (c_conn_id conn)
      in conn\<lparr> c_weak := (case entry of Some e \<Rightarrow> lc_weak e | None \<Rightarrow> False),
               c_weak_reason := (case entry of Some e \<Rightarrow> lc_reason e | None \<Rightarrow> Healthy),
               c_cc_backing_off := (case cc_snap of Some sn \<Rightarrow> snap_state sn = BackingOff | None \<Rightarrow> False),
               c_cc_target_bps := (case cc_snap of Some sn \<Rightarrow> snap_target_bps sn | None \<Rightarrow> 0),
               c_loss_degraded := (case cc_snap of Some sn \<Rightarrow> snap_loss_degraded sn | None \<Rightarrow> False) \<rparr>)"

definition stamp_links :: "(f64 \<Rightarrow> f64) \<Rightarrow> u64 \<Rightarrow> Sender \<Rightarrow> Sender" where
  "stamp_links exp_f now s =
     (let conns = b_conns (s_bond s) in
      case classify conns (cfg_negotiated_latency_ms (snapshot (b_config (s_bond s)))) (s_filter s) of
        (classification, f) \<Rightarrow>
          (case tick_all exp_f now conns (s_cc s) of
             (snaps, cc) \<Rightarrow>
               s\<lparr> s_filter := f, s_cc := cc,
                  s_bond := (s_bond s)\<lparr> b_conns := map (stamp_link (cr_per_link classification) snaps) conns \<rparr> \<rparr>))"

definition apply_pending :: "ConnectEnv \<Rightarrow> Sender \<Rightarrow> Sender" where
  "apply_pending k s =
     (case s_pending s of
        None \<Rightarrow> s
      | Some changes \<Rightarrow>
          let s1 = s\<lparr> s_pending := None \<rparr>; b = s_bond s1 in
          (case pc_new_ips changes of
             None \<Rightarrow> s1
           | Some new_ips \<Rightarrow>
               let u = apply_connection_changes k new_ips (pc_new_weights changes) (pc_receiver_host changes)
                         (pc_receiver_port changes)
                         \<lparr> ul_conns = b_conns b, ul_io = s_io s1, ul_last_selected = b_last_selected b, ul_tracker = b_tracker b \<rparr>
               in s1\<lparr> s_bond := b\<lparr> b_conns := ul_conns u, b_last_selected := ul_last_selected u, b_tracker := ul_tracker u \<rparr>,
                      s_io := ul_io u, s_readers := sync_readers (ul_conns u) (ul_io u) (s_readers s1) \<rparr>))"

definition status_tick :: "u64 \<Rightarrow> u64" where
  "status_tick elapsed =
     (let e = u64_saturating_add elapsed HOUSEKEEPING_INTERVAL_MS in
      if e \<ge> STATUS_LOG_INTERVAL_MS then e - STATUS_LOG_INTERVAL_MS else e)"

definition on_housekeeping_tick :: "Pass \<Rightarrow> HkEnv \<Rightarrow> ConnectEnv \<Rightarrow> u64 \<Rightarrow> Sender \<Rightarrow> Sender \<times> effect list" where
  "on_housekeeping_tick x h k now_cc s =
     (case run_housekeeping h s of
        (s1, effs1) \<Rightarrow>
          let s2 = apply_pending k (stamp_links (e_exp (x_env x)) now_cc s1);
              s3 = s2\<lparr> s_status_elapsed_ms := status_tick (s_status_elapsed_ms s2),
                       s_readers := sync_readers (b_conns (s_bond s2)) (s_io s2) (s_readers s2) \<rparr>
          in case drain_channel x (snapshot (b_config (s_bond s3))) s3 of (s', effs2) \<Rightarrow> (s', effs1 @ effs2))"

section \<open>Other tasks that write the shared state\<close>

definition on_priority_datagram :: "bytes \<Rightarrow> u64 \<Rightarrow> CriticalWindow \<Rightarrow> CriticalWindow" where
  "on_priority_datagram buf now w =
     (if length buf \<noteq> DATAGRAM_LEN \<or> hd buf \<noteq> PROTO_MAGIC then record_malformed w
      else extend_to (u64_add now (unat (from_be (slice buf 1 4) :: u32))) w)"

datatype setter = SetMode SchedulingMode | SetQuality bool | SetStallDeselect bool | SetConnTimeout u64

fun run_setter :: "setter \<Rightarrow> DynamicConfig \<Rightarrow> DynamicConfig" where
  "run_setter (SetMode m) c = set_mode m c"
| "run_setter (SetQuality e) c = set_quality_enabled e c"
| "run_setter (SetStallDeselect e) c = set_stall_deselect e c"
| "run_setter (SetConnTimeout ms) c = snd (set_conn_timeout_ms ms c)"

section \<open>Start-up\<close>

text \<open>What start-up meets: whether a port can be bound, the error of the first signal handler that cannot be installed, the
  address file, the sockets, random ids and the clock.\<close>

record StartEnv =
  z_local_srt_port :: u16
  z_listener :: "u16 \<Rightarrow> bool"
  z_signal_error :: "string option"
  z_ips_file :: string
  z_file :: "string option"
  z_config :: DynamicConfig
  z_connect :: ConnectEnv
  z_own_id :: bytes
  z_probe_id :: bytes
  z_now :: u64
  z_housekeeping :: HkEnv

text \<open>Everything of \<^verbatim>\<open>run_sender_with_config\<close> before the loop, in its order. A failed start returns its error; the probes it may have sent by then
  are not part of the result.\<close>

definition sender_start :: "Params \<Rightarrow> StartEnv \<Rightarrow> string + Sender \<times> effect list" where
  "sender_start p z =
     (if \<not> z_listener z (z_local_srt_port z) then Inl ''bind local SRT UDP listener''
      else case read_weighted_ip_list (p_parse_ip p) (z_file z) of
        None \<Rightarrow> Inl ''read IPs file''
      | Some (ips, weights) \<Rightarrow>
          if ips = [] then Inl (''no IPs in list: '' @ z_ips_file z)
          else
            case create_connections_from_ips (z_connect z) ips weights (p_receiver_host p) (p_receiver_port p) Mapping.empty of
              (conns, io) \<Rightarrow>
                if conns = [] then Inl ''no uplinks available''
                else
                  case start_probing conns (z_now z) (RegistrationManager_new (z_own_id z) (z_probe_id z)) of
                    (probes, conns1, reg) \<Rightarrow>
                      let effs1 = concat (map (\<lambda>(idx, pkt). if idx < length conns1
                                    then io_send_unstamped (z_housekeeping z) io pkt (conns1 ! idx) else []) probes);
                          s = \<lparr> s_bond = \<lparr> b_conns = conns1, b_reg = reg, b_tracker = SequenceTracker_new,
                                  b_dedup = ClientDedup_new, b_last_selected = None, b_client = None, b_config = z_config z \<rparr>,
                                s_io = io, s_readers = sync_readers conns1 io [], s_queue = [], s_all_failed_at = None,
                                s_rehome = RehomeGate_new (dc_rehome_on_failure (z_config z)), s_pending = None,
                                s_filter = WeakLinkFilter_new, s_cc = Mapping.empty, s_status_elapsed_ms = 0,
                                s_critical = CriticalWindow_new \<rparr>
                      in case z_signal_error z of
                           Some e \<Rightarrow> Inl e
                         | None \<Rightarrow> (case run_housekeeping (z_housekeeping z) s of (s', effs2) \<Rightarrow> Inr (s', effs1 @ effs2)))"

section \<open>The loop as a step relation\<close>

text \<open>What the surroundings always give: a clock past its origin within its 64 bits, a decay function that behaves as the
  exponential of a negative number does, ids and halves of the length asked for, and link ids that collide neither with
  each other nor with the links at hand.\<close>

definition pass_ok :: "Pass \<Rightarrow> bool" where
  "pass_ok x \<longleftrightarrow> decay_fn (e_exp (x_env x)) \<and> 0 < e_now (x_env x) \<and> e_now (x_env x) < 2 ^ 64 \<and> (\<forall>i. 0 < e_now (x_drain x i))"

definition hk_env_ok :: "HkEnv \<Rightarrow> bool" where
  "hk_env_ok h \<longleftrightarrow> length (h_id_half h) = 128 \<and> length (h_probe_id h) = 256"

definition fresh_ids :: "ConnectEnv \<Rightarrow> usize \<Rightarrow> SrtlaConnection list \<Rightarrow> bool" where
  "fresh_ids k n conns \<longleftrightarrow> inj_on (k_conn_id k) {..<n} \<and> k_conn_id k ` {..<n} \<inter> c_conn_id ` set conns = {}"

definition pending_ips :: "Sender \<Rightarrow> IpAddr list" where
  "pending_ips s = (case s_pending s of None \<Rightarrow> [] | Some ch \<Rightarrow> (case pc_new_ips ch of None \<Rightarrow> [] | Some ips \<Rightarrow> ips))"

inductive sender_step :: "Params \<Rightarrow> Sender \<Rightarrow> Sender \<Rightarrow> bool" for p where
  client_packet: "pass_ok x \<Longrightarrow> on_client_packet x res s = (s', effs) \<Longrightarrow> sender_step p s s'"
| uplink_packet: "pass_ok x \<Longrightarrow> s_queue s = packet # queue \<Longrightarrow>
    on_uplink_packet x packet (s\<lparr> s_queue := queue \<rparr>) = (s', effs) \<Longrightarrow> sender_step p s s'"
| housekeeping: "pass_ok x \<Longrightarrow> hk_env_ok h \<Longrightarrow> fresh_ids k (length (pending_ips s)) (b_conns (s_bond s)) \<Longrightarrow>
    on_housekeeping_tick x h k now_cc s = (s', effs) \<Longrightarrow> sender_step p s s'"
| sighup: "pass_ok x \<Longrightarrow> on_sighup p x file s = (s', effs) \<Longrightarrow> sender_step p s s'"
| batch_flush: "on_batch_flush x s = (s', effs) \<Longrightarrow> sender_step p s s'"
| received: "sender_step p s (s\<lparr> s_queue := s_queue s @ [packet] \<rparr>)"
| priority: "sender_step p s (s\<lparr> s_critical := on_priority_datagram buf now (s_critical s) \<rparr>)"
| control: "sender_step p s (s\<lparr> s_bond := (s_bond s)\<lparr> b_config := run_setter cmd (b_config (s_bond s)) \<rparr> \<rparr>)"

inductive reachable :: "Params \<Rightarrow> Sender \<Rightarrow> bool" for p where
  start: "hk_env_ok (z_housekeeping z) \<Longrightarrow> length (z_own_id z) = 256 \<Longrightarrow> length (z_probe_id z) = 256 \<Longrightarrow>
    read_weighted_ip_list (p_parse_ip p) (z_file z) = Some (ips, weights) \<Longrightarrow> fresh_ids (z_connect z) (length ips) [] \<Longrightarrow>
    sender_start p z = Inr (s, effs) \<Longrightarrow> reachable p s"
| step: "reachable p s \<Longrightarrow> sender_step p s s' \<Longrightarrow> reachable p s'"

end
