(* ===== verification/Control.thy ===== *)
theory Control
  imports Event_Loop
begin

text \<open>
  The control protocol: JSON-RPC dispatch (\<^verbatim>\<open>src/control.rs\<close>), the subscription hub (\<^verbatim>\<open>src/subscriptions.rs\<close>) and the
  life of a control connection (\<^verbatim>\<open>src/control_socket.rs\<close>). JSON itself is a package: parsing a line and the
  accessors of a parsed value are the parameter \<open>Json\<close> over an abstract type of values; what the code builds is
  kept as a list of fields. A push channel is named by its connection, and what a push to it does is an argument.
\<close>

section \<open>Requests and responses\<close>

definition JSONRPC_VERSION :: string where "JSONRPC_VERSION = ''2.0''"
definition PARSE_ERROR :: int where "PARSE_ERROR = -32700"
definition INVALID_REQUEST :: int where "INVALID_REQUEST = -32600"
definition METHOD_NOT_FOUND :: int where "METHOD_NOT_FOUND = -32601"
definition INVALID_PARAMS :: int where "INVALID_PARAMS = -32602"
definition INTERNAL_ERROR :: int where "INTERNAL_ERROR = -32603"

record 'v Request =
  rq_jsonrpc :: string
  rq_method :: string
  rq_params :: 'v
  rq_id :: "'v option"

record 'v Json =
  j_parse :: "string \<Rightarrow> string + 'v Request"
  j_get :: "'v \<Rightarrow> string \<Rightarrow> 'v option"
  j_as_str :: "'v \<Rightarrow> string option"
  j_as_bool :: "'v \<Rightarrow> bool option"
  j_as_u64 :: "'v \<Rightarrow> u64 option"
  j_null :: 'v

datatype field = FStr string | FBool bool | FInt int

datatype 'v outcome = Fields "(string \<times> field) list" | Whole 'v

record ErrorObject =
  eo_code :: int
  eo_message :: string
  eo_data :: "string option"

definition ErrorObject_new :: "int \<Rightarrow> string \<Rightarrow> ErrorObject" where
  "ErrorObject_new code message = \<lparr> eo_code = code, eo_message = message, eo_data = None \<rparr>"

record 'v Response =
  rs_result :: "'v outcome option"
  rs_error :: "ErrorObject option"
  rs_id :: 'v

definition Response_ok :: "'v \<Rightarrow> 'v outcome \<Rightarrow> 'v Response" where
  "Response_ok i result = \<lparr> rs_result = Some result, rs_error = None, rs_id = i \<rparr>"

definition Response_err :: "'v \<Rightarrow> ErrorObject \<Rightarrow> 'v Response" where
  "Response_err i err = \<lparr> rs_result = None, rs_error = Some err, rs_id = i \<rparr>"

definition parse_mode :: "string \<Rightarrow> ErrorObject + SchedulingMode" where
  "parse_mode s =
     (if s = ''classic'' then Inr Classic
      else if s = ''enhanced'' then Inr Enhanced
      else Inl (ErrorObject_new INVALID_PARAMS
             (''unknown mode '' @ [CHR 0x27] @ s @ [CHR 0x27] @ '': use classic or enhanced'')))"

definition status_fields :: "ConfigSnapshot \<Rightarrow> CriticalWindow option \<Rightarrow> (string \<times> field) list" where
  "status_fields snap cw =
     [(''mode'', FStr (mode_fmt (cfg_mode snap))), (''quality_enabled'', FBool (cfg_quality_enabled snap)),
      (''stall_deselect'', FBool (cfg_stall_deselect snap)), (''stall_min_in_flight'', FInt (cfg_stall_min_in_flight snap)),
      (''stall_ack_stale_ms'', FInt (int (cfg_stall_ack_stale_ms snap))), (''conn_timeout_ms'', FInt (int (cfg_conn_timeout_ms snap))),
      (''critical_windows_received'', FInt (int (case cw of Some w \<Rightarrow> cw_windows_received w | None \<Rightarrow> 0))),
      (''critical_malformed_datagrams'', FInt (int (case cw of Some w \<Rightarrow> cw_malformed_datagrams w | None \<Rightarrow> 0)))]"

text \<open>The statistics provider: absent, or the parsed snapshot, or the parser's complaint about it.\<close>

definition handle_method ::
  "'v Json \<Rightarrow> (string + 'v) option \<Rightarrow> CriticalWindow option \<Rightarrow> string \<Rightarrow> 'v \<Rightarrow> DynamicConfig \<Rightarrow>
   (ErrorObject + 'v outcome) \<times> DynamicConfig"
where
  "handle_method json stats cw meth params config =
     (if meth = ''set_mode'' then
        (case Option.bind (j_get json params ''mode'') (j_as_str json) of
           None \<Rightarrow> (Inl (ErrorObject_new INVALID_PARAMS ''expected params.mode: string''), config)
         | Some mode_str \<Rightarrow>
             (case parse_mode mode_str of
                Inl err \<Rightarrow> (Inl err, config)
              | Inr mode \<Rightarrow> (Inr (Fields [(''mode'', FStr (mode_fmt mode))]), set_mode mode config)))
      else if meth = ''set_quality'' then
        (case Option.bind (j_get json params ''enabled'') (j_as_bool json) of
           None \<Rightarrow> (Inl (ErrorObject_new INVALID_PARAMS ''expected params.enabled: bool''), config)
         | Some enabled \<Rightarrow> (Inr (Fields [(''enabled'', FBool enabled)]), set_quality_enabled enabled config))
      else if meth = ''set_stall_deselect'' then
        (case Option.bind (j_get json params ''enabled'') (j_as_bool json) of
           None \<Rightarrow> (Inl (ErrorObject_new INVALID_PARAMS ''expected params.enabled: bool''), config)
         | Some enabled \<Rightarrow> (Inr (Fields [(''enabled'', FBool enabled)]), set_stall_deselect enabled config))
      else if meth = ''set_conn_timeout'' then
        (case Option.bind (j_get json params ''ms'') (j_as_u64 json) of
           None \<Rightarrow> (Inl (ErrorObject_new INVALID_PARAMS ''expected params.ms: u64''), config)
         | Some ms \<Rightarrow> (case set_conn_timeout_ms ms config of (applied, config') \<Rightarrow> (Inr (Fields [(''ms'', FInt (int applied))]), config')))
      else if meth = ''get_status'' then (Inr (Fields (status_fields (snapshot config) cw)), config)
      else if meth = ''get_stats'' then
        (case stats of
           None \<Rightarrow> (Inl (ErrorObject_new INTERNAL_ERROR ''stats provider not registered''), config)
         | Some (Inr v) \<Rightarrow> (Inr (Whole v), config)
         | Some (Inl e) \<Rightarrow>
             (Inl \<lparr> eo_code = INTERNAL_ERROR, eo_message = ''failed to re-parse stats JSON'', eo_data = Some e \<rparr>, config))
      else if meth = ''subscribe'' \<or> meth = ''unsubscribe'' then
        (Inl (ErrorObject_new METHOD_NOT_FOUND (meth @ '' is reserved for a future streaming protocol, not yet implemented'')), config)
      else (Inl (ErrorObject_new METHOD_NOT_FOUND (''unknown method: '' @ meth)), config))"

definition respond :: "'v Json \<Rightarrow> 'v Request \<Rightarrow> ErrorObject + 'v outcome \<Rightarrow> 'v Response option" where
  "respond json req result =
     (case rq_id req of
        None \<Rightarrow> None
      | Some i \<Rightarrow> Some (case result of Inr v \<Rightarrow> Response_ok i v | Inl err \<Rightarrow> Response_err i err))"

definition parse_failure :: "'v Json \<Rightarrow> string \<Rightarrow> 'v Response" where
  "parse_failure json e =
     Response_err (j_null json) \<lparr> eo_code = PARSE_ERROR, eo_message = ''parse error'', eo_data = Some e \<rparr>"

definition bad_version :: "'v Request \<Rightarrow> 'v Response option" where
  "bad_version req =
     map_option (\<lambda>i. Response_err i (ErrorObject_new INVALID_REQUEST
       (''jsonrpc version must be '' @ [CHR 0x22] @ ''2.0'' @ [CHR 0x22]))) (rq_id req)"

definition dispatch ::
  "'v Json \<Rightarrow> (string + 'v) option \<Rightarrow> CriticalWindow option \<Rightarrow> string \<Rightarrow> DynamicConfig \<Rightarrow> 'v Response option \<times> DynamicConfig" where
  "dispatch json stats cw line0 config =
     (let line = trim line0 in
      if line = [] then (None, config)
      else
        case j_parse json line of
          Inl e \<Rightarrow> (Some (parse_failure json e), config)
        | Inr req \<Rightarrow>
            if rq_jsonrpc req \<noteq> JSONRPC_VERSION then (bad_version req, config)
            else case handle_method json stats cw (rq_method req) (rq_params req) config of
                   (result, config') \<Rightarrow> (respond json req result, config'))"

section \<open>Subscriptions\<close>

record Entry =
  en_id :: string
  en_topic :: string
  en_sender :: nat

record SubscriptionHub =
  hub_next_id :: u64
  hub_entries :: "Entry list"

definition SubscriptionHub_new :: SubscriptionHub where
  "SubscriptionHub_new = \<lparr> hub_next_id = 0, hub_entries = [] \<rparr>"

definition subscribe :: "string \<Rightarrow> nat \<Rightarrow> SubscriptionHub \<Rightarrow> string \<times> SubscriptionHub" where
  "subscribe topic push_tx hub =
     (let i = ''sub-'' @ show_nat (hub_next_id hub) in
      (i, hub\<lparr> hub_next_id := (hub_next_id hub + 1) mod 2 ^ 64,
               hub_entries := hub_entries hub @ [\<lparr> en_id = i, en_topic = topic, en_sender = push_tx \<rparr>] \<rparr>))"

definition unsubscribe :: "string \<Rightarrow> SubscriptionHub \<Rightarrow> bool \<times> SubscriptionHub" where
  "unsubscribe i hub =
     (let entries = filter (\<lambda>e. en_id e \<noteq> i) (hub_entries hub) in
      (length (hub_entries hub) \<noteq> length entries, hub\<lparr> hub_entries := entries \<rparr>))"

datatype PushOutcome = PushOk | PushFull | PushClosed

text \<open>
  Publishing, as one step (pruning takes the lock a second time): the notifications handed to push channels, in order,
  as channel, subscription id and method. Turning an envelope built from strings and a value into text does not fail.
\<close>

definition publish :: "(Entry \<Rightarrow> PushOutcome) \<Rightarrow> string \<Rightarrow> SubscriptionHub \<Rightarrow> (nat \<times> string \<times> string) list \<times> SubscriptionHub" where
  "publish try_send topic hub =
     (let matching = filter (\<lambda>e. en_topic e = topic) (hub_entries hub);
          delivered = map (\<lambda>e. (en_sender e, en_id e, topic @ ''.update'')) (filter (\<lambda>e. try_send e = PushOk) matching);
          to_prune = map en_id (filter (\<lambda>e. try_send e = PushClosed) matching)
      in (delivered,
          if to_prune \<noteq> [] then hub\<lparr> hub_entries := filter (\<lambda>e. en_id e \<notin> set to_prune) (hub_entries hub) \<rparr> else hub))"

definition is_known_topic :: "string \<Rightarrow> bool" where
  "is_known_topic topic \<longleftrightarrow> topic = ''stats'' \<or> topic = ''priority.window''"

text \<open>The state a control connection works on: the hub and the ids the connection owns.\<close>

record SubscriptionContext =
  sx_hub :: SubscriptionHub
  sx_owned_ids :: "string list"

definition handle_subscribe ::
  "'v Json \<Rightarrow> nat \<Rightarrow> 'v \<Rightarrow> SubscriptionContext \<Rightarrow> (ErrorObject + 'v outcome) \<times> SubscriptionContext" where
  "handle_subscribe json push_tx params ctx =
     (case Option.bind (j_get json params ''topic'') (j_as_str json) of
        None \<Rightarrow> (Inl (ErrorObject_new INVALID_PARAMS ''expected params.topic: string''), ctx)
      | Some topic \<Rightarrow>
          if \<not> is_known_topic topic then (Inl (ErrorObject_new INVALID_PARAMS (''unknown topic: '' @ topic)), ctx)
          else case subscribe topic push_tx (sx_hub ctx) of
                 (i, hub) \<Rightarrow> (Inr (Fields [(''subscription_id'', FStr i)]),
                              ctx\<lparr> sx_hub := hub, sx_owned_ids := sx_owned_ids ctx @ [i] \<rparr>))"

definition handle_unsubscribe ::
  "'v Json \<Rightarrow> 'v \<Rightarrow> SubscriptionContext \<Rightarrow> (ErrorObject + 'v outcome) \<times> SubscriptionContext" where
  "handle_unsubscribe json params ctx =
     (case Option.bind (j_get json params ''subscription_id'') (j_as_str json) of
        None \<Rightarrow> (Inl (ErrorObject_new INVALID_PARAMS ''expected params.subscription_id: string''), ctx)
      | Some i \<Rightarrow>
          (case unsubscribe i (sx_hub ctx) of
             (removed, hub) \<Rightarrow> (Inr (Fields [(''removed'', FBool removed)]),
                                ctx\<lparr> sx_hub := hub, sx_owned_ids := filter (\<lambda>x. x \<noteq> i) (sx_owned_ids ctx) \<rparr>)))"

definition dispatch_async ::
  "'v Json \<Rightarrow> (string + 'v) option \<Rightarrow> CriticalWindow option \<Rightarrow> nat \<Rightarrow> string \<Rightarrow> SubscriptionContext \<Rightarrow> DynamicConfig \<Rightarrow>
   'v Response option \<times> SubscriptionContext \<times> DynamicConfig"
where
  "dispatch_async json stats cw push_tx line0 ctx config =
     (let line = trim line0 in
      if line = [] then (None, ctx, config)
      else
        case j_parse json line of
          Inl e \<Rightarrow> (Some (parse_failure json e), ctx, config)
        | Inr req \<Rightarrow>
            if rq_jsonrpc req \<noteq> JSONRPC_VERSION then (bad_version req, ctx, config)
            else if rq_method req = ''subscribe'' then
              (case handle_subscribe json push_tx (rq_params req) ctx of (r, ctx') \<Rightarrow> (respond json req r, ctx', config))
            else if rq_method req = ''unsubscribe'' then
              (case handle_unsubscribe json (rq_params req) ctx of (r, ctx') \<Rightarrow> (respond json req r, ctx', config))
            else if rq_method req = ''get_subscription_count'' then
              (respond json req (Inr (Fields [(''count'', FInt (int (length (hub_entries (sx_hub ctx)))))])), ctx, config)
            else case handle_method json stats cw (rq_method req) (rq_params req) config of
                   (r, config') \<Rightarrow> (respond json req r, ctx, config'))"

definition close_connection :: "string list \<Rightarrow> SubscriptionHub \<Rightarrow> SubscriptionHub" where
  "close_connection owned_ids hub = fold (\<lambda>i h. snd (unsubscribe i h)) owned_ids hub"

section \<open>Dispatch\<close>

text \<open>The line interface of standard input answers as a control connection does, but for the subscription methods.\<close>

lemma dispatch_sync_agrees:
  assumes "case j_parse json (trim line) of Inl _ \<Rightarrow> True
    | Inr req \<Rightarrow> rq_method req \<notin> {''subscribe'', ''unsubscribe'', ''get_subscription_count''}"
  shows "dispatch_async json stats cw push_tx line ctx config =
    (case dispatch json stats cw line config of (resp, config') \<Rightarrow> (resp, ctx, config'))"
  using assms unfolding dispatch_async_def dispatch_def Let_def by (auto split: sum.splits prod.splits)

lemma respond_None [simp]: "respond json req r = None \<longleftrightarrow> rq_id req = None"
  by (simp add: respond_def split: option.split)

lemma bad_version_None [simp]: "bad_version req = None \<longleftrightarrow> rq_id req = None"
  by (simp add: bad_version_def)

text \<open>An outcome and the configuration after it fit together: an error changes nothing, a success is one setter at most.\<close>

definition one_change :: "ErrorObject + 'v outcome \<Rightarrow> DynamicConfig \<Rightarrow> DynamicConfig \<Rightarrow> bool" where
  "one_change r config config' \<longleftrightarrow>
     (\<exists>cmds. length cmds \<le> (case r of Inl _ \<Rightarrow> 0 | Inr _ \<Rightarrow> 1) \<and> config' = foldl (\<lambda>c e. run_setter e c) config cmds)"

lemma one_change_same [simp]: "one_change r config config"
  by (auto simp: one_change_def split: sum.split intro: exI [of _ "[]"])

lemma one_change_setter: "config' = run_setter cmd config \<Longrightarrow> one_change (Inr v) config config'"
  by (auto simp: one_change_def intro: exI [of _ "[cmd]"])

lemma timeout_setter: "set_conn_timeout_ms ms config = (applied, config') \<Longrightarrow> one_change (Inr v) config config'"
  by (rule one_change_setter [of _ "SetConnTimeout ms"]) simp

lemma handle_method_change: "handle_method json stats cw meth params config = (r, config') \<Longrightarrow> one_change r config config'"
  unfolding handle_method_def
  by (auto split: if_splits option.splits sum.splits prod.splits
      intro: one_change_setter [of _ "SetMode m" for m] one_change_setter [of _ "SetQuality e" for e]
        one_change_setter [of _ "SetStallDeselect e" for e] timeout_setter)

lemma respond_fields:
  "respond json req r = Some rsp \<Longrightarrow> rq_id req = Some (rs_id rsp) \<and>
     (case r of Inl err \<Rightarrow> rs_error rsp = Some err \<and> rs_result rsp = None | Inr v \<Rightarrow> rs_error rsp = None \<and> rs_result rsp = Some v)"
  by (auto simp: respond_def Response_ok_def Response_err_def split: option.splits sum.splits)

lemma subscription_frame:
  "handle_subscribe json push_tx params ctx = (r, ctx') \<Longrightarrow> (case r of Inl _ \<Rightarrow> ctx' = ctx | Inr _ \<Rightarrow> True)"
  "handle_unsubscribe json params ctx = (r, ctx') \<Longrightarrow> (case r of Inl _ \<Rightarrow> ctx' = ctx | Inr _ \<Rightarrow> True)"
  by (auto simp: handle_subscribe_def handle_unsubscribe_def split: option.splits if_splits prod.splits)

lemma dispatch_async_cases:
  obtains (blank) "trim line = []" "dispatch_async json stats cw push_tx line ctx config = (None, ctx, config)"
  | (unread) e where "trim line \<noteq> []" "j_parse json (trim line) = Inl e"
      "dispatch_async json stats cw push_tx line ctx config = (Some (parse_failure json e), ctx, config)"
  | (version) req where "trim line \<noteq> []" "j_parse json (trim line) = Inr req"
      "dispatch_async json stats cw push_tx line ctx config = (bad_version req, ctx, config)"
  | (handled) req r ctx' config' where "trim line \<noteq> []" "j_parse json (trim line) = Inr req"
      "dispatch_async json stats cw push_tx line ctx config = (respond json req r, ctx', config')"
      "one_change r config config'" "case r of Inl _ \<Rightarrow> ctx' = ctx | Inr _ \<Rightarrow> True"
proof (cases "trim line = []")
  case True
  then show thesis by (intro blank) (simp_all add: dispatch_async_def)
next
  case False
  show thesis
  proof (cases "j_parse json (trim line)")
    case (Inl e)
    then show thesis using False by (intro unread) (simp_all add: dispatch_async_def)
  next
    case (Inr req)
    obtain r1 c1 where 1: "handle_subscribe json push_tx (rq_params req) ctx = (r1, c1)" by fastforce
    obtain r2 c2 where 2: "handle_unsubscribe json (rq_params req) ctx = (r2, c2)" by fastforce
    obtain r3 c3 where 3: "handle_method json stats cw (rq_method req) (rq_params req) config = (r3, c3)" by fastforce
    have d: "dispatch_async json stats cw push_tx line ctx config =
        (if rq_jsonrpc req \<noteq> JSONRPC_VERSION then (bad_version req, ctx, config)
         else if rq_method req = ''subscribe'' then (respond json req r1, c1, config)
         else if rq_method req = ''unsubscribe'' then (respond json req r2, c2, config)
         else if rq_method req = ''get_subscription_count'' then
           (respond json req (Inr (Fields [(''count'', FInt (int (length (hub_entries (sx_hub ctx)))))])), ctx, config)
         else (respond json req r3, ctx, c3))"
      using False Inr by (simp add: dispatch_async_def 1 2 3)
    note same = one_change_same [where config = config]
    have r3: "case r3 of Inl _ \<Rightarrow> ctx = ctx | Inr _ \<Rightarrow> True" by (simp split: sum.split)
    show thesis
      using version [OF False Inr] handled [OF False Inr _ same, of r1 c1] handled [OF False Inr _ same, of r2 c2]
        handled [OF False Inr _ same, of "Inr (Fields [(''count'', FInt (int (length (hub_entries (sx_hub ctx)))))])" ctx]
        handled [OF False Inr _ handle_method_change [OF 3], of ctx] r3 subscription_frame(1) [OF 1] subscription_frame(2) [OF 2] d
      by (simp split: if_splits)
  qed
qed

text \<open>
  C17: every control line is answered by the book. Whatever the line and the state: nothing is answered exactly for a
  blank line or a request without an id; every answer is either a result or an error, never both, and
  carries the id of its request (or null if it could not be read); a line that is answered with an error has changed neither
  the configuration nor the subscriptions, and any other line changes the configuration by at most one setter.
\<close>

theorem control_dispatch:
  "case dispatch_async json stats cw push_tx line ctx config of (resp, ctx', config') \<Rightarrow>
     (resp = None) =
       (trim line = [] \<or> (case j_parse json (trim line) of Inl _ \<Rightarrow> False | Inr req \<Rightarrow> rq_id req = None)) \<and>
     (\<exists>cmds. length cmds \<le> 1 \<and> config' = foldl (\<lambda>c e. run_setter e c) config cmds) \<and>
     (case resp of
        None \<Rightarrow> True
      | Some r \<Rightarrow> (rs_error r = None) = (rs_result r \<noteq> None) \<and>
          (if rs_error r = None then True else ctx' = ctx \<and> config' = config) \<and>
          rs_id r = (case j_parse json (trim line) of Inl _ \<Rightarrow> j_null json | Inr req \<Rightarrow> the (rq_id req)))"
proof (cases json stats cw push_tx line ctx config rule: dispatch_async_cases)
  case (version req)
  then show ?thesis
    by (cases "rq_id req") (auto simp: bad_version_def Response_err_def intro: exI [of _ "[]"])
next
  case (handled req r ctx' config')
  then have "\<exists>cmds. length cmds \<le> 1 \<and> config' = foldl (\<lambda>c e. run_setter e c) config cmds"
    by (cases r) (auto simp: one_change_def intro: exI [of _ "[]"])
  moreover have "config' = config" if "r = Inl e" for e using handled(4) that by (simp add: one_change_def)
  ultimately show ?thesis
    using handled by (auto split: option.split sum.splits dest!: respond_fields)
qed (auto simp: parse_failure_def Response_err_def intro: exI [of _ "[]"])

section \<open>Subscriptions and connections\<close>

text \<open>Printed numbers are read back, so different numbers print differently.\<close>

lemma digit_char: "n < 10 \<Longrightarrow> of_char (char_of (48 + n) :: char) = (48 + n :: nat)"
  by (simp add: of_char_of)

lemma digits_value_snoc: "digits_value (ds @ [ch]) = 10 * digits_value ds + (of_char ch - 48)"
  by (simp add: digits_value_def)

lemma digits_value_show: "digits_value (show_nat n) = n"
proof (induction n rule: show_nat.induct)
  case (1 n)
  show ?case
  proof (cases "n < 10")
    case True
    then show ?thesis using digit_char [of n] by (simp add: show_nat.simps [of n] digits_value_def)
  next
    case False
    have "show_nat n = show_nat (n div 10) @ [char_of (48 + n mod 10)]" using False by (simp add: show_nat.simps [of n])
    then show ?thesis
      using 1 False digit_char [of "n mod 10"] by (simp add: digits_value_snoc)
  qed
qed

lemma show_nat_inj [simp]: "show_nat m = show_nat n \<longleftrightarrow> m = n"
  by (metis digits_value_show)

definition sub_id :: "u64 \<Rightarrow> string" where
  "sub_id k = ''sub-'' @ show_nat k"

lemma sub_id_inj [simp]: "sub_id j = sub_id k \<longleftrightarrow> j = k"
  by (simp add: sub_id_def)

text \<open>All control connections together: the hub and what each connection owns.\<close>

record ControlState =
  ct_hub :: SubscriptionHub
  ct_owned :: "nat \<Rightarrow> string list"
  ct_config :: DynamicConfig

datatype control_event = ControlLine nat string | ControlPublish "Entry \<Rightarrow> PushOutcome" string | ControlClosed nat

fun control_step :: "'v Json \<Rightarrow> (string + 'v) option \<Rightarrow> CriticalWindow option \<Rightarrow> ControlState \<Rightarrow> control_event \<Rightarrow> ControlState" where
  "control_step json stats cw s (ControlLine c line) =
     (case dispatch_async json stats cw c line \<lparr> sx_hub = ct_hub s, sx_owned_ids = ct_owned s c \<rparr> (ct_config s) of
        (resp, ctx, config) \<Rightarrow> s\<lparr> ct_hub := sx_hub ctx, ct_owned := (ct_owned s)(c := sx_owned_ids ctx), ct_config := config \<rparr>)"
| "control_step json stats cw s (ControlPublish try_send topic) = s\<lparr> ct_hub := snd (publish try_send topic (ct_hub s)) \<rparr>"
| "control_step json stats cw s (ControlClosed c) =
     s\<lparr> ct_hub := close_connection (ct_owned s c) (ct_hub s), ct_owned := (ct_owned s)(c := []) \<rparr>"

text \<open>Ids in use are below the counter, distinct, and owned by the connection they push to and by no other.\<close>

definition issued :: "u64 \<Rightarrow> string \<Rightarrow> bool" where
  "issued n x \<longleftrightarrow> (\<exists>k < n. x = sub_id k)"

lemma issued_simps [simp]: "\<not> issued n (sub_id n)" "issued (Suc n) x \<longleftrightarrow> x = sub_id n \<or> issued n x"
  by (auto simp: issued_def less_Suc_eq)

definition hub_ok :: "SubscriptionHub \<Rightarrow> (nat \<Rightarrow> string list) \<Rightarrow> bool" where
  "hub_ok hub owned \<longleftrightarrow> distinct (map en_id (hub_entries hub)) \<and>
     (\<forall>e \<in> set (hub_entries hub). issued (hub_next_id hub) (en_id e) \<and> en_id e \<in> set (owned (en_sender e))) \<and>
     (\<forall>c x. x \<in> set (owned c) \<longrightarrow> issued (hub_next_id hub) x \<and> (\<forall>e \<in> set (hub_entries hub). en_id e = x \<longrightarrow> en_sender e = c))"

lemma hub_okI:
  assumes "distinct (map en_id (hub_entries hub))"
    and "\<And>e. e \<in> set (hub_entries hub) \<Longrightarrow> issued (hub_next_id hub) (en_id e)"
    and "\<And>e. e \<in> set (hub_entries hub) \<Longrightarrow> en_id e \<in> set (owned (en_sender e))"
    and "\<And>c x. x \<in> set (owned c) \<Longrightarrow> issued (hub_next_id hub) x"
    and "\<And>c e. e \<in> set (hub_entries hub) \<Longrightarrow> en_id e \<in> set (owned c) \<Longrightarrow> en_sender e = c"
  shows "hub_ok hub owned"
  unfolding hub_ok_def using assms by blast

lemma hub_okD:
  assumes "hub_ok hub owned"
  shows "distinct (map en_id (hub_entries hub))"
    and "e \<in> set (hub_entries hub) \<Longrightarrow> issued (hub_next_id hub) (en_id e)"
    and "e \<in> set (hub_entries hub) \<Longrightarrow> en_id e \<in> set (owned (en_sender e))"
    and "x \<in> set (owned c) \<Longrightarrow> issued (hub_next_id hub) x"
    and "e \<in> set (hub_entries hub) \<Longrightarrow> en_id e \<in> set (owned c) \<Longrightarrow> en_sender e = c"
  using assms unfolding hub_ok_def by blast+

lemma hub_ok_shrink:
  assumes "hub_ok hub owned" "hub' = hub\<lparr> hub_entries := filter P (hub_entries hub) \<rparr>"
    and "\<And>c x. x \<in> set (owned' c) \<Longrightarrow> x \<in> set (owned c)"
    and "\<And>e. e \<in> set (hub_entries hub) \<Longrightarrow> P e \<Longrightarrow> en_id e \<in> set (owned' (en_sender e))"
  shows "hub_ok hub' owned'"
proof (rule hub_okI)
  note ok = hub_okD [OF assms(1)]
  show "distinct (map en_id (hub_entries hub'))" using ok(1) by (simp add: assms(2) distinct_map_filter)
  show "issued (hub_next_id hub') (en_id e)" if "e \<in> set (hub_entries hub')" for e using that ok(2) by (simp add: assms(2))
  show "en_id e \<in> set (owned' (en_sender e))" if "e \<in> set (hub_entries hub')" for e using that assms(4) by (simp add: assms(2))
  show "issued (hub_next_id hub') x" if "x \<in> set (owned' c)" for c x using ok(4) [OF assms(3) [OF that]] by (simp add: assms(2))
  show "en_sender e = c" if "e \<in> set (hub_entries hub')" "en_id e \<in> set (owned' c)" for c e
    using that assms(3) ok(5) by (simp add: assms(2))
qed

lemma hub_ok_unsubscribe:
  assumes "hub_ok hub owned"
  shows "hub_ok (snd (unsubscribe i hub)) (owned(c := filter (\<lambda>x. x \<noteq> i) (owned c)))"
  by (rule hub_ok_shrink [OF assms, where P = "\<lambda>e. en_id e \<noteq> i"])
    (auto simp: unsubscribe_def Let_def hub_okD(3) [OF assms] split: if_splits)

lemma publish_entries:
  "snd (publish try_send topic hub) = hub\<lparr> hub_entries := filter (\<lambda>e. en_id e \<notin> en_id ` {e \<in> set (hub_entries hub).
      en_topic e = topic \<and> try_send e = PushClosed}) (hub_entries hub) \<rparr>"
proof -
  have prune: "set (map en_id (filter (\<lambda>e. try_send e = PushClosed) (filter (\<lambda>e. en_topic e = topic) (hub_entries hub)))) =
      en_id ` {e \<in> set (hub_entries hub). en_topic e = topic \<and> try_send e = PushClosed}" by auto
  then show ?thesis
    by (cases hub) (auto simp: publish_def Let_def filter_empty_conv simp del: filter_filter intro!: filter_True [symmetric] filter_cong)
qed

lemma hub_ok_publish: "hub_ok hub owned \<Longrightarrow> hub_ok (snd (publish try_send topic hub)) owned"
  by (rule hub_ok_shrink [OF _ publish_entries]) (simp_all add: hub_okD(3))

lemma close_entries: "close_connection ids hub = hub\<lparr> hub_entries := filter (\<lambda>e. en_id e \<notin> set ids) (hub_entries hub) \<rparr>"
  unfolding close_connection_def
  by (induction ids arbitrary: hub) (auto simp: unsubscribe_def Let_def intro: filter_cong)

lemma hub_ok_closed:
  assumes "hub_ok hub owned"
  shows "hub_ok (close_connection (owned c) hub) (owned(c := []))"
  by (rule hub_ok_shrink [OF assms close_entries]) (auto simp: hub_okD(3) [OF assms] split: if_splits)

lemma hub_ok_subscribe:
  assumes "hub_ok hub owned" "hub_next_id hub + 1 < 2 ^ 64" "subscribe topic c hub = (i, hub')"
  shows "hub_ok hub' (owned(c := owned c @ [i]))" "hub_next_id hub' = hub_next_id hub + 1"
proof -
  let ?n = "hub_next_id hub"
  have i: "i = sub_id ?n" and hub': "hub' = hub\<lparr> hub_next_id := Suc ?n, hub_entries := hub_entries hub @
      [\<lparr> en_id = sub_id ?n, en_topic = topic, en_sender = c \<rparr>] \<rparr>"
    using assms(2,3) by (auto simp: subscribe_def sub_id_def Let_def)
  then show "hub_next_id hub' = hub_next_id hub + 1" by simp
  note ok = hub_okD [OF assms(1)]
  have new: "sub_id ?n \<noteq> en_id e" if "e \<in> set (hub_entries hub)" for e using ok(2) [OF that] issued_simps(1) by metis
  have own: "sub_id ?n \<notin> set (owned d)" for d using ok(4) [of "sub_id ?n" d] by auto
  show "hub_ok hub' (owned(c := owned c @ [i]))"
  proof (rule hub_okI)
    show "distinct (map en_id (hub_entries hub'))" using ok(1) new by (auto simp: hub')
  next
    fix e assume "e \<in> set (hub_entries hub')"
    then show "issued (hub_next_id hub') (en_id e)" "en_id e \<in> set ((owned(c := owned c @ [i])) (en_sender e))"
      using ok(2,3) by (auto simp: hub' i)
  next
    fix d x assume "x \<in> set ((owned(c := owned c @ [i])) d)"
    then show "issued (hub_next_id hub') x" using ok(4) by (auto simp: hub' i split: if_splits)
  next
    fix d e assume "e \<in> set (hub_entries hub')" "en_id e \<in> set ((owned(c := owned c @ [i])) d)"
    then show "en_sender e = d" using ok(5) new [symmetric] own by (auto simp: hub' i split: if_splits)
  qed
qed

definition control_start :: "DynamicConfig \<Rightarrow> ControlState" where
  "control_start config = \<lparr> ct_hub = SubscriptionHub_new, ct_owned = (\<lambda>_. []), ct_config = config \<rparr>"

definition control_ok :: "u64 \<Rightarrow> ControlState \<Rightarrow> bool" where
  "control_ok n s \<longleftrightarrow> hub_ok (ct_hub s) (ct_owned s) \<and> hub_next_id (ct_hub s) \<le> n"

lemma dispatch_hub:
  assumes "dispatch_async json stats cw c line ctx config = (resp, ctx', config')"
  shows "ctx' = ctx \<or> (\<exists>i topic. subscribe topic c (sx_hub ctx) = (i, sx_hub ctx') \<and> sx_owned_ids ctx' = sx_owned_ids ctx @ [i]) \<or>
    (\<exists>i. sx_hub ctx' = snd (unsubscribe i (sx_hub ctx)) \<and> sx_owned_ids ctx' = filter (\<lambda>x. x \<noteq> i) (sx_owned_ids ctx))"
proof -
  have "ctx' = ctx \<or> (\<exists>r params. handle_subscribe json c params ctx = (r, ctx')) \<or> (\<exists>r params. handle_unsubscribe json params ctx = (r, ctx'))"
    using assms unfolding dispatch_async_def Let_def by (auto split: if_splits sum.splits prod.splits)
  moreover have "ctx' = ctx \<or> (\<exists>i topic. subscribe topic c (sx_hub ctx) = (i, sx_hub ctx') \<and> sx_owned_ids ctx' = sx_owned_ids ctx @ [i])"
    if "handle_subscribe json c params ctx = (r, ctx')" for r params
    using that by (auto simp: handle_subscribe_def split: option.splits if_splits prod.splits)
  moreover have "ctx' = ctx \<or> (\<exists>i. sx_hub ctx' = snd (unsubscribe i (sx_hub ctx)) \<and> sx_owned_ids ctx' = filter (\<lambda>x. x \<noteq> i) (sx_owned_ids ctx))"
    if "handle_unsubscribe json params ctx = (r, ctx')" for r params
    using that by (auto simp: handle_unsubscribe_def split: option.splits prod.splits intro!: exI)
  ultimately show ?thesis by blast
qed

lemma next_id_frame [simp]: "hub_next_id (snd (unsubscribe i hub)) = hub_next_id hub"
  by (simp add: unsubscribe_def Let_def)

lemma control_step_ok:
  assumes "control_ok n s" "n + 1 < 2 ^ 64"
  shows "control_ok (n + 1) (control_step json stats cw s e)"
proof (cases e)
  case (ControlLine c line)
  obtain resp ctx config where d: "dispatch_async json stats cw c line \<lparr> sx_hub = ct_hub s, sx_owned_ids = ct_owned s c \<rparr> (ct_config s) =
      (resp, ctx, config)" by (metis prod_cases3)
  have s': "control_step json stats cw s e = s\<lparr> ct_hub := sx_hub ctx, ct_owned := (ct_owned s)(c := sx_owned_ids ctx), ct_config := config \<rparr>"
    by (simp add: ControlLine d)
  from dispatch_hub [OF d] consider "ctx = \<lparr> sx_hub = ct_hub s, sx_owned_ids = ct_owned s c \<rparr>"
    | i topic where "subscribe topic c (ct_hub s) = (i, sx_hub ctx)" "sx_owned_ids ctx = ct_owned s c @ [i]"
    | i where "sx_hub ctx = snd (unsubscribe i (ct_hub s))" "sx_owned_ids ctx = filter (\<lambda>x. x \<noteq> i) (ct_owned s c)"
    by auto
  then show ?thesis
  proof cases
    case 1
    then show ?thesis using assms by (simp add: s' control_ok_def)
  next
    case 2
    then show ?thesis using assms hub_ok_subscribe [OF _ _ 2(1), of "ct_owned s"] by (simp add: s' control_ok_def)
  next
    case 3
    then show ?thesis using assms hub_ok_unsubscribe [of "ct_hub s" "ct_owned s" i c] by (simp add: s' control_ok_def)
  qed
next
  case (ControlPublish f topic)
  then show ?thesis using assms hub_ok_publish by (simp add: control_ok_def publish_entries)
next
  case (ControlClosed c)
  then show ?thesis using assms hub_ok_closed [of "ct_hub s" "ct_owned s" c] by (simp add: control_ok_def close_entries)
qed

lemma control_run_ok:
  "length evs < 2 ^ 64 \<Longrightarrow> control_ok (length evs) (foldl (control_step json stats cw) (control_start config) evs)"
proof (induction evs rule: rev_induct)
  case Nil
  then show ?case by (simp add: control_ok_def control_start_def SubscriptionHub_new_def hub_ok_def)
next
  case (snoc e evs)
  then show ?case using control_step_ok [of "length evs"] by simp
qed

text \<open>
  C29: subscriptions end with their connection. After any sequence of control lines of any connections, publications and
  disconnects, the subscription ids in use are distinct, closing a connection removes all of its subscriptions and no
  other, and a publication is delivered, in order and each under its own id, exactly to the subscriptions of its
  topic whose channel accepts it, and drops exactly those of its topic whose channel is closed.
\<close>

theorem subscriptions_follow_connections:
  assumes "length evs < 2 ^ 64" "s = foldl (control_step json stats cw) (control_start config) evs"
  shows "distinct (map en_id (hub_entries (ct_hub s))) \<and>
     hub_entries (ct_hub (control_step json stats cw s (ControlClosed c))) =
       filter (\<lambda>e. en_sender e \<noteq> c) (hub_entries (ct_hub s)) \<and>
     fst (publish try_send topic (ct_hub s)) =
       map (\<lambda>e. (en_sender e, en_id e, topic @ ''.update''))
         (filter (\<lambda>e. en_topic e = topic \<and> try_send e = PushOk) (hub_entries (ct_hub s))) \<and>
     hub_entries (ct_hub (control_step json stats cw s (ControlPublish try_send topic))) =
       filter (\<lambda>e. \<not> (en_topic e = topic \<and> try_send e = PushClosed)) (hub_entries (ct_hub s))"
proof -
  have ok: "hub_ok (ct_hub s) (ct_owned s)"
    using control_run_ok [OF assms(1), of json stats cw config] by (simp add: assms(2) control_ok_def)
  then have "(en_id e \<in> set (ct_owned s c)) = (en_sender e = c)" if "e \<in> set (hub_entries (ct_hub s))" for e
    using that hub_okD(3,5) by blast
  then have closed: "filter (\<lambda>e. en_id e \<notin> set (ct_owned s c)) (hub_entries (ct_hub s)) = filter (\<lambda>e. en_sender e \<noteq> c) (hub_entries (ct_hub s))"
    by (intro filter_cong) auto
  have "inj_on en_id (set (hub_entries (ct_hub s)))" using hub_okD(1) [OF ok] by (simp add: distinct_map)
  then have "filter (\<lambda>e. en_id e \<notin> en_id ` {e \<in> set (hub_entries (ct_hub s)). en_topic e = topic \<and> try_send e = PushClosed})
      (hub_entries (ct_hub s)) = filter (\<lambda>e. \<not> (en_topic e = topic \<and> try_send e = PushClosed)) (hub_entries (ct_hub s))"
    by (intro filter_cong refl) (auto dest: inj_onD)
  then show ?thesis using hub_okD(1) [OF ok] closed
    by (simp add: close_entries publish_entries) (simp add: publish_def Let_def conj_commute)
qed

text \<open>Requests that all subscribe to the statistics.\<close>

definition stats_json :: "unit Json" where
  "stats_json = \<lparr> j_parse = (\<lambda>_. Inr \<lparr> rq_jsonrpc = ''2.0'', rq_method = ''subscribe'', rq_params = (), rq_id = Some () \<rparr>),
     j_get = (\<lambda>_ _. Some ()), j_as_str = (\<lambda>_. Some ''stats''), j_as_bool = (\<lambda>_. None), j_as_u64 = (\<lambda>_. None), j_null = () \<rparr>"

definition stats_state :: ControlState where
  "stats_state = foldl (control_step stats_json None None) (control_start DynamicConfig_new) [ControlLine 1 ''a'', ControlLine 2 ''b'']"

theorem subscriptions_follow_connections_witness:
  "map en_sender (hub_entries (ct_hub stats_state)) = [1, 2] \<and>
   map en_sender (hub_entries (ct_hub (control_step stats_json None None stats_state (ControlClosed 1)))) = [2]"
proof -
  have e: "map en_sender (hub_entries (ct_hub stats_state)) = [1, 2]"
    by (simp add: stats_state_def dispatch_async_def stats_json_def control_start_def SubscriptionHub_new_def handle_subscribe_def
        is_known_topic_def subscribe_def JSONRPC_VERSION_def trim_def is_whitespace_def Let_def)
  have "map en_sender (hub_entries (ct_hub (control_step stats_json None None stats_state (ControlClosed 1)))) =
      map en_sender (filter (\<lambda>e. en_sender e \<noteq> 1) (hub_entries (ct_hub stats_state)))"
    by (rule arg_cong [where f = "map en_sender"], rule subscriptions_follow_connections
        [of "[ControlLine 1 ''a'', ControlLine 2 ''b'']", OF _ stats_state_def, THEN conjunct2, THEN conjunct1]) simp
  also have "\<dots> = filter (\<lambda>x. x \<noteq> 1) (map en_sender (hub_entries (ct_hub stats_state)))" by (simp add: filter_map comp_def)
  also have "\<dots> = [2]" unfolding e by simp
  finally show ?thesis using e by blast
qed

end
