(* ===== verification/Sidecars.thy ===== *)
theory Sidecars
  imports Control
begin

text \<open>
  The tasks beside the event loop that take commands: the priority sidecar (\<^verbatim>\<open>src/priority_listener.rs\<close>), which extends the
  critical window and tells the subscribers of the control protocol, and the command reader on standard input
  (\<^verbatim>\<open>spawn_stdin_listener\<close> of \<^verbatim>\<open>src/config.rs\<close>). A task is a fold over what its input gives; what the push channels and the
  clock answer is part of each input.
\<close>

section \<open>The priority sidecar\<close>

definition SIDECAR_BUF :: usize where "SIDECAR_BUF = 16"

datatype sidecar_recv = SidecarErr | SidecarGot bytes u64 "Entry \<Rightarrow> PushOutcome"

record SidecarState =
  sd_window :: CriticalWindow
  sd_hub :: "SubscriptionHub option"
  sd_pushed :: "((nat \<times> string \<times> string) \<times> (string \<times> field) list) list"

definition window_fields :: "u64 \<Rightarrow> u64 \<Rightarrow> (string \<times> field) list" where
  "window_fields now window_ms =
     [(''at_ms'', FInt (int now)), (''window_ms'', FInt (int window_ms)), (''deadline_ms'', FInt (int (u64_add now window_ms)))]"

fun sidecar_step :: "SidecarState \<Rightarrow> sidecar_recv \<Rightarrow> SidecarState" where
  "sidecar_step s SidecarErr = s"
| "sidecar_step s (SidecarGot datagram now try_send) =
     (let buf = take SIDECAR_BUF datagram in
      if length buf \<noteq> DATAGRAM_LEN \<or> hd buf \<noteq> PROTO_MAGIC then s\<lparr> sd_window := record_malformed (sd_window s) \<rparr>
      else
        let window_ms = unat (from_be (slice buf 1 4) :: u32);
            s1 = s\<lparr> sd_window := extend_to (u64_add now window_ms) (sd_window s) \<rparr>
        in case sd_hub s1 of
             None \<Rightarrow> s1
           | Some hub \<Rightarrow>
               (case publish try_send ''priority.window'' hub of
                  (delivered, hub') \<Rightarrow>
                    s1\<lparr> sd_hub := Some hub', sd_pushed := sd_pushed s1 @ map (\<lambda>d. (d, window_fields now window_ms)) delivered \<rparr>))"

section \<open>The command reader\<close>

text \<open>A line that cannot be read ends the task.\<close>

fun stdin_loop ::
  "'v Json \<Rightarrow> ((string + 'v) \<times> CriticalWindow \<times> string option) list \<Rightarrow> DynamicConfig \<Rightarrow> 'v Response list \<times> DynamicConfig" where
  "stdin_loop json [] config = ([], config)"
| "stdin_loop json ((stats, cw, line) # rest) config =
     (case line of
        None \<Rightarrow> ([], config)
      | Some l \<Rightarrow>
          (case dispatch json (Some stats) (Some cw) (trim l) config of
             (resp, config1) \<Rightarrow>
               (case stdin_loop json rest config1 of
                  (resps, config2) \<Rightarrow> ((case resp of Some r \<Rightarrow> [r] | None \<Rightarrow> []) @ resps, config2))))"

section \<open>What the sidecar does\<close>

text \<open>The datagrams it accepts, as the time of arrival and the length of the window.\<close>

fun accepted :: "sidecar_recv \<Rightarrow> (u64 \<times> u64) option" where
  "accepted SidecarErr = None"
| "accepted (SidecarGot datagram now _) =
     (if length datagram = 5 \<and> hd datagram = 0xC1 then Some (now, unat (from_be (tl datagram) :: u32)) else None)"

lemma sidecar_step_accepted:
  "accepted (SidecarGot datagram now try_send) = None \<Longrightarrow>
     sidecar_step s (SidecarGot datagram now try_send) = s\<lparr> sd_window := record_malformed (sd_window s) \<rparr>"
  "accepted (SidecarGot datagram now try_send) = Some (t, w) \<Longrightarrow> t = now \<and>
     sidecar_step s (SidecarGot datagram now try_send) =
       (let s1 = s\<lparr> sd_window := extend_to (u64_add now w) (sd_window s) \<rparr> in
        case sd_hub s1 of None \<Rightarrow> s1 | Some hub \<Rightarrow> (case publish try_send ''priority.window'' hub of (delivered, hub') \<Rightarrow>
          s1\<lparr> sd_hub := Some hub', sd_pushed := sd_pushed s1 @ map (\<lambda>d. (d, window_fields now w)) delivered \<rparr>))"
proof -
  have five: "length d = 5 \<Longrightarrow> take 16 d = d" for d :: bytes by simp
  show "accepted (SidecarGot datagram now try_send) = None \<Longrightarrow>
     sidecar_step s (SidecarGot datagram now try_send) = s\<lparr> sd_window := record_malformed (sd_window s) \<rparr>"
    by (auto simp: SIDECAR_BUF_def DATAGRAM_LEN_def PROTO_MAGIC_def min_def split: if_splits)
  assume "accepted (SidecarGot datagram now try_send) = Some (t, w)"
  then have d: "length datagram = 5" "hd datagram = 0xC1" "t = now" "w = unat (from_be (tl datagram) :: u32)" by (simp_all split: if_splits)
  have "slice datagram 1 4 = tl datagram" using d(1) by (simp add: slice_def drop_Suc)
  then show "t = now \<and> sidecar_step s (SidecarGot datagram now try_send) =
       (let s1 = s\<lparr> sd_window := extend_to (u64_add now w) (sd_window s) \<rparr> in
        case sd_hub s1 of None \<Rightarrow> s1 | Some hub \<Rightarrow> (case publish try_send ''priority.window'' hub of (delivered, hub') \<Rightarrow>
          s1\<lparr> sd_hub := Some hub', sd_pushed := sd_pushed s1 @ map (\<lambda>d. (d, window_fields now w)) delivered \<rparr>))"
    using d five [OF d(1)] by (simp add: SIDECAR_BUF_def DATAGRAM_LEN_def PROTO_MAGIC_def Let_def split: option.split prod.split)
qed

lemma sidecar_window: "sd_window (sidecar_step s (SidecarGot datagram now try_send)) = on_priority_datagram (take SIDECAR_BUF datagram) now (sd_window s)"
  by (auto simp: on_priority_datagram_def Let_def split: option.split prod.split)

text \<open>What one subscriber has been pushed.\<close>

definition pushed_to :: "string \<Rightarrow> SidecarState \<Rightarrow> (string \<times> field) list list" where
  "pushed_to i s = map snd (filter (\<lambda>((_, j, _), _). j = i) (sd_pushed s))"

definition subscriber :: "Entry \<Rightarrow> SidecarState \<Rightarrow> bool" where
  "subscriber e s \<longleftrightarrow> (\<exists>hub. sd_hub s = Some hub \<and> distinct (map en_id (hub_entries hub)) \<and> e \<in> set (hub_entries hub) \<and>
     en_topic e = ''priority.window'')"

fun has_room :: "Entry \<Rightarrow> sidecar_recv \<Rightarrow> bool" where
  "has_room e SidecarErr = True"
| "has_room e (SidecarGot _ _ try_send) \<longleftrightarrow> try_send e = PushOk"

lemma publish_to_one:
  assumes "distinct (map en_id (hub_entries hub))" "e \<in> set (hub_entries hub)" "en_topic e = topic" "try_send e = PushOk"
  shows "filter (\<lambda>(_, j, _). j = en_id e) (fst (publish try_send topic hub)) = [(en_sender e, en_id e, topic @ ''.update'')]"
    and "e \<in> set (hub_entries (snd (publish try_send topic hub)))" "distinct (map en_id (hub_entries (snd (publish try_send topic hub))))"
proof -
  have inj: "inj_on en_id (set (hub_entries hub))" using assms(1) by (simp add: distinct_map)
  obtain xs ys where h: "hub_entries hub = xs @ e # ys" using split_list [OF assms(2)] by blast
  have "en_id e \<notin> en_id ` (set xs \<union> set ys)" using assms(1) unfolding h by (simp add: image_Un)
  then have others: "en_id x \<noteq> en_id e" if "x \<in> set xs \<union> set ys" for x using that by (metis image_eqI)
  have none: "filter (\<lambda>(_, j, _). j = en_id e) (map (\<lambda>x. (en_sender x, en_id x, m)) (filter p zs)) = []"
    if "set zs \<subseteq> set xs \<union> set ys" for zs p and m :: string
    using that others by (simp add: filter_empty_conv) blast
  show "filter (\<lambda>(_, j, _). j = en_id e) (fst (publish try_send topic hub)) = [(en_sender e, en_id e, topic @ ''.update'')]"
    using assms(3,4) none [of xs] none [of ys] by (simp add: publish_def Let_def h)
  show "e \<in> set (hub_entries (snd (publish try_send topic hub)))"
  proof -
    have "x = e" if "en_id e = en_id x" "x \<in> set (hub_entries hub)" for x using inj_onD [OF inj that(1) assms(2) that(2)] by simp
    then have "en_id e \<notin> en_id ` {x \<in> set (hub_entries hub). en_topic x = topic \<and> try_send x = PushClosed}" using assms(4) by force
    then show ?thesis using assms(2) unfolding publish_entries by simp
  qed
  show "distinct (map en_id (hub_entries (snd (publish try_send topic hub))))"
    unfolding publish_entries using assms(1) by (simp add: distinct_map_filter)
qed

text \<open>The window does not depend on the hub or on what became of the notifications.\<close>

lemma sidecar_step_window:
  "is_critical_now t (sd_window (sidecar_step s ev)) \<longleftrightarrow>
     is_critical_now t (sd_window s) \<or> (case accepted ev of None \<Rightarrow> False | Some (now, w) \<Rightarrow> t < u64_add now w)"
proof (cases ev)
  case (SidecarGot d now ts)
  show ?thesis
  proof (cases "accepted ev")
    case None
    then show ?thesis using SidecarGot sidecar_step_accepted(1) [of d now ts s]
      by (simp add: is_critical_now_def record_malformed_def del: accepted.simps sidecar_step.simps)
  next
    case (Some r)
    obtain t' w where r: "r = (t', w)" by fastforce
    have "t' = now" "sd_window (sidecar_step s ev) = extend_to (u64_add now w) (sd_window s)"
      using sidecar_step_accepted(2) [of d now ts t' w s] Some SidecarGot r by (auto simp: Let_def split: option.splits prod.splits)
    then show ?thesis using Some r by (simp add: is_critical_now_def extend_to_def) auto
  qed
qed simp

lemma sidecar_step_subscriber:
  assumes "subscriber e s" "has_room e ev"
  shows "subscriber e (sidecar_step s ev)"
    and "pushed_to (en_id e) (sidecar_step s ev) =
      pushed_to (en_id e) s @ (case accepted ev of None \<Rightarrow> [] | Some (now, w) \<Rightarrow> [window_fields now w])"
proof -
  obtain hub where hub: "sd_hub s = Some hub" "distinct (map en_id (hub_entries hub))" "e \<in> set (hub_entries hub)"
    "en_topic e = ''priority.window''" using assms(1) by (auto simp: subscriber_def)
  have "subscriber e (sidecar_step s ev) \<and>
      pushed_to (en_id e) (sidecar_step s ev) =
        pushed_to (en_id e) s @ (case accepted ev of None \<Rightarrow> [] | Some (now, w) \<Rightarrow> [window_fields now w])"
  proof (cases ev)
    case SidecarErr
    then show ?thesis using assms(1) by simp
  next
    case (SidecarGot d now ts)
    show ?thesis
    proof (cases "accepted ev")
      case None
      then show ?thesis using SidecarGot sidecar_step_accepted(1) [of d now ts s] assms(1)
        by (simp add: subscriber_def pushed_to_def record_malformed_def del: accepted.simps sidecar_step.simps)
    next
      case (Some r)
      obtain t' w where r: "r = (t', w)" by fastforce
      obtain del hub' where p: "publish ts ''priority.window'' hub = (del, hub')" by fastforce
      note one = publish_to_one [OF hub(2-4), of ts, unfolded p fst_conv snd_conv]
      have ok: "ts e = PushOk" using assms(2) SidecarGot by simp
      have step: "t' = now" "sidecar_step s ev = s\<lparr> sd_window := extend_to (u64_add now w) (sd_window s), sd_hub := Some hub',
          sd_pushed := sd_pushed s @ map (\<lambda>d. (d, window_fields now w)) del \<rparr>"
        using sidecar_step_accepted(2) [of d now ts t' w s] Some SidecarGot r hub(1) p by (simp_all add: Let_def)
      have "map snd (filter (\<lambda>((_, j, _), _). j = en_id e) (map (\<lambda>d. (d, window_fields now w)) del)) =
          map (\<lambda>_. window_fields now w) (filter (\<lambda>(_, j, _). j = en_id e) del)"
        by (induction del) auto
      then show ?thesis
        using one ok Some r step(1) hub(4) unfolding step(2) by (auto simp: subscriber_def pushed_to_def)
    qed
  qed
  then show "subscriber e (sidecar_step s ev)"
    "pushed_to (en_id e) (sidecar_step s ev) = pushed_to (en_id e) s @ (case accepted ev of None \<Rightarrow> [] | Some (now, w) \<Rightarrow> [window_fields now w])"
    by auto
qed

text \<open>
  C30: every accepted priority datagram counts and is announced. From any state of the listener, with or without a hub and whatever becomes of the
  notifications, over any sequence of datagrams and receive errors, it is a
  critical moment exactly if it was one already or lies before the end of the window of some well-formed datagram, so
  a later, shorter window never cuts an earlier one. And if there is a hub, a subscriber of the topic whose channel has room for each is pushed exactly one
  notification per well-formed datagram, in order, with its time, its length and its end.
\<close>

theorem priority_windows_announced:
  "is_critical_now t (sd_window (foldl sidecar_step s evs)) =
      (is_critical_now t (sd_window s) \<or> list_ex (\<lambda>(now, w). t < u64_add now w) (List.map_filter accepted evs)) \<and>
   (subscriber e s \<longrightarrow> list_all (has_room e) evs \<longrightarrow>
      pushed_to (en_id e) (foldl sidecar_step s evs) =
        pushed_to (en_id e) s @ map (\<lambda>(now, w). window_fields now w) (List.map_filter accepted evs))"
proof (induction evs arbitrary: s)
  case (Cons ev evs)
  then show ?case
    using sidecar_step_subscriber [of e s ev] sidecar_step_window [of t s ev]
    by (auto simp: List.map_filter_simps split: option.splits)
qed (simp add: List.map_filter_simps)

definition demo_subscriber :: Entry where
  "demo_subscriber = \<lparr> en_id = ''sub-0'', en_topic = ''priority.window'', en_sender = 3 \<rparr>"

definition demo_sidecar :: SidecarState where
  "demo_sidecar = \<lparr> sd_window = CriticalWindow_new, sd_hub = Some \<lparr> hub_next_id = 1, hub_entries = [demo_subscriber] \<rparr>, sd_pushed = [] \<rparr>"

definition demo_datagrams :: "sidecar_recv list" where
  "demo_datagrams = [SidecarGot [0xC1, 0, 0, 0, 200] 1000 (\<lambda>_. PushOk), SidecarErr, SidecarGot [0xC1, 0, 0, 0, 50] 1010 (\<lambda>_. PushOk),
     SidecarGot [0xC2, 0, 0, 0, 50] 1020 (\<lambda>_. PushOk)]"

theorem priority_windows_announced_witness:
  "is_critical_now 1199 (sd_window (foldl sidecar_step (demo_sidecar\<lparr> sd_hub := None \<rparr>) demo_datagrams)) \<and>
   pushed_to ''sub-0'' (foldl sidecar_step demo_sidecar demo_datagrams) = [window_fields 1000 200, window_fields 1010 50]"
proof -
  have s: "subscriber demo_subscriber demo_sidecar" "list_all (has_room demo_subscriber) demo_datagrams" "en_id demo_subscriber = ''sub-0''"
    by (simp_all add: subscriber_def demo_sidecar_def demo_subscriber_def demo_datagrams_def)
  have a: "List.map_filter accepted demo_datagrams = [(1000, 200), (1010, 50)]"
    by (simp add: demo_datagrams_def List.map_filter_simps from_be_def)
  have p: "pushed_to ''sub-0'' demo_sidecar = []" by (simp add: pushed_to_def demo_sidecar_def)
  show ?thesis
    using priority_windows_announced [of 1199 demo_sidecar demo_datagrams demo_subscriber]
      priority_windows_announced [of 1199 "demo_sidecar\<lparr> sd_hub := None \<rparr>" demo_datagrams demo_subscriber] s(1,2)
    unfolding s(3) a p by (simp add: u64_add_def)
qed

section \<open>What the command reader does\<close>

text \<open>The reader changes the configuration by setters only, at most one per line, so every configuration it can leave is well-formed.\<close>

lemma dispatch_one_change: "dispatch json stats cw line config = (resp, config') \<Longrightarrow> \<exists>r :: ErrorObject + 'v outcome. one_change r config config'"
  for json :: "'v Json"
  unfolding dispatch_def Let_def
  by (auto split: if_splits sum.splits prod.splits dest: handle_method_change intro: one_change_same)

lemma stdin_by_setters:
  "stdin_loop json input config = (resps, config') \<Longrightarrow>
   \<exists>cmds. length cmds \<le> length input \<and> config' = foldl (\<lambda>c e. run_setter e c) config cmds"
proof (induction json input config arbitrary: resps config' rule: stdin_loop.induct)
  case (2 json stats cw line rest config)
  show ?case
  proof (cases line)
    case None
    then show ?thesis using 2(2) by (intro exI [of _ "[]"]) simp
  next
    case (Some l)
    obtain resp config1 where d: "dispatch json (Some stats) (Some cw) (trim l) config = (resp, config1)" by fastforce
    obtain rs config2 where l: "stdin_loop json rest config1 = (rs, config2)" by fastforce
    obtain r :: "ErrorObject + 'a outcome" where "one_change r config config1" using dispatch_one_change [OF d] by blast
    then have "\<exists>c1. length c1 \<le> 1 \<and> config1 = foldl (\<lambda>c e. run_setter e c) config c1"
      by (cases r) (auto simp: one_change_def intro: exI [of _ "[]"])
    then obtain c1 where c1: "length c1 \<le> 1" "config1 = foldl (\<lambda>c e. run_setter e c) config c1" by blast
    obtain c2 where "length c2 \<le> length rest" "config2 = foldl (\<lambda>c e. run_setter e c) config1 c2"
      using 2(1) [OF Some d [symmetric] l] by blast
    then show ?thesis using 2(2) Some d l c1 by (intro exI [of _ "c1 @ c2"]) auto
  qed
qed (intro exI [of _ "[]"], simp)

end
