(* ===== verification/Sender_Invariant.thy ===== *)
theory Sender_Invariant
  imports Event_Loop
begin

text \<open>
  The invariant of the running sender and what follows from it. Each arm of the event loop keeps the invariant of the
  bond and the links it has (\<open>sender_same\<close>), a reload keeps it for the links it leaves and adds (\<open>apply_changes_ok\<close>),
  and rule induction over \<open>reachable\<close> carries it to every state of the loop.
\<close>

section \<open>The invariant of the sender\<close>

definition last_ok :: "Bond \<Rightarrow> bool" where
  "last_ok b \<longleftrightarrow> (case b_last_selected b of None \<Rightarrow> True | Some i \<Rightarrow> i < length (b_conns b))"

definition bond_ok :: "Bond \<Rightarrow> bool" where
  "bond_ok b \<longleftrightarrow> list_all link_good (b_conns b) \<and> tracker_ok (b_tracker b) \<and> last_ok b \<and> reg_ok (b_reg b)"

definition ids_of :: "Bond \<Rightarrow> u64 list" where
  "ids_of b = map c_conn_id (b_conns b)"

definition sender_ok :: "Sender \<Rightarrow> bool" where
  "sender_ok s \<longleftrightarrow> bond_ok (s_bond s) \<and> distinct (ids_of (s_bond s)) \<and> Mapping.keys (s_io s) = set (ids_of (s_bond s)) \<and>
     set (s_readers s) = set (ids_of (s_bond s)) \<and> s_status_elapsed_ms s < STATUS_LOG_INTERVAL_MS"

text \<open>One handler: the invariant of the bond is kept, and the links are the same.\<close>

definition bond_step :: "Bond \<Rightarrow> Bond \<Rightarrow> bool" where
  "bond_step b b' \<longleftrightarrow> (bond_ok b \<longrightarrow> bond_ok b') \<and> ids_of b' = ids_of b"

lemma bond_step_refl [simp]: "bond_step b b"
  by (simp add: bond_step_def)

lemma bond_step_trans: "bond_step b c \<Longrightarrow> bond_step c d \<Longrightarrow> bond_step b d"
  by (simp add: bond_step_def)

lemma bond_stepI:
  assumes "bond_keeps b b'" "last_ok b \<Longrightarrow> last_ok b'" "reg_ok (b_reg b) \<Longrightarrow> reg_ok (b_reg b')"
  shows "bond_step b b'"
  using assms conns_keep_good conns_keep_ids by (auto simp: bond_step_def bond_ok_def ids_of_def bond_keeps_def)

lemma last_ok_same: "conns_keep (b_conns b) (b_conns b') \<Longrightarrow> b_last_selected b' = b_last_selected b \<Longrightarrow> last_ok b \<Longrightarrow> last_ok b'"
  by (simp add: last_ok_def conns_keep_length split: option.splits)

subsection \<open>The data path\<close>

lemma forward_last:
  assumes "forward_via_connection env i pkt sq t b = (b', es)"
  shows "last_ok b \<Longrightarrow> last_ok b'" "reg_ok (b_reg b) \<Longrightarrow> reg_ok (b_reg b')"
  using assms by (auto simp: forward_via_connection_def last_ok_def Let_def split: if_splits prod.splits)

lemma probes_last:
  assumes "send_stall_probes env i pkt sq t b = (b', es)"
  shows "last_ok b \<Longrightarrow> last_ok b'" "reg_ok (b_reg b) \<Longrightarrow> reg_ok (b_reg b')"
proof -
  have "bond_keeps b b'" using send_stall_probes_keeps [of b env i pkt sq t] assms by simp
  then show "last_ok b \<Longrightarrow> last_ok b'"
    using assms by (intro last_ok_same [of b b']) (auto simp: bond_keeps_def send_stall_probes_def split: prod.splits)
  show "reg_ok (b_reg b) \<Longrightarrow> reg_ok (b_reg b')" using assms by (auto simp: send_stall_probes_def split: prod.splits)
qed

lemma last_ok_client [simp]: "last_ok (b\<lparr> b_client := x \<rparr>) = last_ok b"
  by (simp add: last_ok_def split: option.split)

lemma srt_packet_step:
  assumes "decay_fn (e_exp env)" "e_now env < 2 ^ 64"
  shows "bond_step b (fst (handle_srt_packet env res reg_done config cw b))"
proof (rule bond_stepI)
  show "bond_keeps b (fst (handle_srt_packet env res reg_done config cw b))" using assms by (rule handle_srt_packet_keeps)
  have route: "last_ok b \<Longrightarrow> last_ok b1" "reg_ok (b_reg b) \<Longrightarrow> reg_ok (b_reg b1)" if "route_packet env config cw pkt sq b = (r, b1)" for pkt sq r b1
  proof -
    show "last_ok b \<Longrightarrow> last_ok b1" using route_result(1,3) [OF that assms] by (rule last_ok_same)
    show "reg_ok (b_reg b) \<Longrightarrow> reg_ok (b_reg b1)" using that by (auto simp: route_packet_def split: prod.splits)
  qed
  show "last_ok b \<Longrightarrow> last_ok (fst (handle_srt_packet env res reg_done config cw b))"
    "reg_ok (b_reg b) \<Longrightarrow> reg_ok (b_reg (fst (handle_srt_packet env res reg_done config cw b)))"
    unfolding handle_srt_packet_def Let_def
    by (auto split: option.split prod.split dest: route forward_last probes_last)
qed

lemma reg_ok_ops:
  "reg_ok m \<Longrightarrow> reg_ok (snd (reg1_if_ngp_immediate i now m))" "reg_ok m \<Longrightarrow> reg_ok (snd (build_reg2 i m))"
  "reg_ok m \<Longrightarrow> reg_ok (update_active_connections conns m)" "reg_ok m \<Longrightarrow> reg_ok (snd (clear_pending_if_timed_out now m))"
  "reg_ok m \<Longrightarrow> reg_ok (snd (snd (start_probing conns now m)))" "reg_ok m \<Longrightarrow> reg_ok (snd (check_probing_complete now m))"
  "reg_ok m \<Longrightarrow> length half = 128 \<Longrightarrow> length pid = 256 \<Longrightarrow> reg_ok (reset_for_rehome half pid m)"
  "reg_ok m \<Longrightarrow> reg_ok (snd (build_reg1_for i now m))"
  using registration.step_inv [of m "RegImmediate i now"] registration.step_inv [of m "RegReconnect i"]
    registration.step_inv [of m "RegActive conns"] registration.step_inv [of m "RegTimeout now"]
    registration.step_inv [of m "RegStartProbing conns now"] registration.step_inv [of m "RegCheckProbing now"]
    registration.step_inv [of m "RegRehome half pid"]
  by (simp_all add: reg_ok_def build_reg1_for_def)

lemma reg_ok_immediate: "reg1_if_ngp_immediate i now m = (r, m') \<Longrightarrow> reg_ok m \<Longrightarrow> reg_ok m'"
  using reg_ok_ops(1) [of m i now] by simp

lemma process_uplink_reg:
  "process_uplink_packet hash_fn ts now idx client data conn reg dedup = (inc, es, conn', reg', dedup') \<Longrightarrow>
   reg_ok reg \<Longrightarrow> reg_ok reg'"
  unfolding process_uplink_packet_def Let_def
  using reg_ok_inbound [of reg idx data now]
  by (auto split: option.splits prod.splits RegistrationEvent.splits if_splits dest: reg_ok_immediate)

lemma uplink_packet_step:
  assumes "0 < e_now env"
  shows "bond_step b (fst (handle_uplink_packet env config packet b))"
proof (rule bond_stepI)
  show keeps: "bond_keeps b (fst (handle_uplink_packet env config packet b))" using assms by (rule handle_uplink_packet_keeps)
  have "b_last_selected (fst (handle_uplink_packet env config packet b)) = b_last_selected b"
    by (simp add: handle_uplink_packet_def case_prod_beta split: option.split)
  then show "last_ok b \<Longrightarrow> last_ok (fst (handle_uplink_packet env config packet b))"
    using keeps last_ok_same [of b "fst (handle_uplink_packet env config packet b)"] by (simp add: bond_keeps_def)
  show "reg_ok (b_reg b) \<Longrightarrow> reg_ok (b_reg (fst (handle_uplink_packet env config packet b)))"
    by (auto simp: handle_uplink_packet_def split: option.split prod.split dest: process_uplink_reg)
qed

lemma drain_loop_step:
  "list_all (\<lambda>(env, p). 0 < e_now env) queue \<Longrightarrow> bond_step b (fst (drain_loop n config queue b))"
proof (induction n config queue b rule: drain_loop.induct)
  case (3 n config env packet queue b)
  obtain b1 es where h: "handle_uplink_packet env config packet b = (b1, es)" by fastforce
  have "bond_step b b1" using uplink_packet_step [of env b config packet] 3(2) h by simp
  moreover have "bond_step b1 (fst (drain_loop n config queue b1))" using 3 h by simp
  ultimately show ?case by (simp add: h case_prod_beta bond_step_trans)
qed simp_all

text \<open>Of a pass: the bond takes a step, and the rest of the invariant sees no difference.\<close>

definition sender_same :: "Sender \<Rightarrow> Sender \<Rightarrow> bool" where
  "sender_same s s' \<longleftrightarrow> bond_step (s_bond s) (s_bond s') \<and> Mapping.keys (s_io s') = Mapping.keys (s_io s) \<and>
     (set (s_readers s) = set (ids_of (s_bond s)) \<longrightarrow> set (s_readers s') = set (ids_of (s_bond s))) \<and>
     s_status_elapsed_ms s' = s_status_elapsed_ms s \<and> s_pending s' = s_pending s"

lemma sender_same_trans: "sender_same a b \<Longrightarrow> sender_same b c \<Longrightarrow> sender_same a c"
  by (auto simp: sender_same_def bond_step_def)

lemma sender_same_ok: "sender_same s s' \<Longrightarrow> sender_ok s \<Longrightarrow> sender_ok s'"
  by (auto simp: sender_same_def sender_ok_def bond_step_def)

lemma sender_sameI: "bond_step (s_bond s) b \<Longrightarrow> sender_same s (s\<lparr> s_bond := b \<rparr>)"
  by (simp add: sender_same_def)

lemma drain_channel_same:
  assumes "pass_ok x"
  shows "sender_same s (fst (drain_channel x config s))"
proof -
  let ?q = "zip (map (\<lambda>i. shell_env (s_io s) (x_send x) (x_drain x i)) [0..<length (s_queue s)]) (s_queue s)"
  have "list_all (\<lambda>(env, p). 0 < e_now env) ?q"
    using assms by (auto simp: list_all_iff pass_ok_def shell_env_def dest!: set_zip_leftD)
  then show ?thesis
    using drain_loop_step [of ?q "s_bond s" MAX_DRAIN_PACKETS config]
    by (simp add: drain_channel_def drain_packet_queue_def Let_def case_prod_beta sender_same_def)
qed

lemma client_packet_same: "pass_ok x \<Longrightarrow> sender_same s (fst (on_client_packet x res s))"
  using srt_packet_step [of "shell_env (s_io s) (x_send x) (x_env x)"]
  by (auto simp: on_client_packet_def Let_def case_prod_beta pass_ok_def shell_env_def
      intro!: sender_same_trans [OF sender_sameI drain_channel_same])

lemma uplink_packet_same: "pass_ok x \<Longrightarrow> sender_same s (fst (on_uplink_packet x packet s))"
  using uplink_packet_step [of "shell_env (s_io s) (x_send x) (x_env x)"]
  by (auto simp: on_uplink_packet_def Let_def case_prod_beta pass_ok_def shell_env_def
      intro!: sender_same_trans [OF sender_sameI drain_channel_same])

lemma batch_flush_same: "sender_same s (fst (on_batch_flush x s))"
proof -
  obtain cs tr es where f: "flush_all_batches (shell_io (s_io s) (x_send x)) (e_clk (x_env x)) (e_now (x_env x))
      (b_conns (s_bond s)) (b_tracker (s_bond s)) = (cs, tr, es)" by (metis prod_cases3)
  have "bond_step (s_bond s) ((s_bond s)\<lparr> b_conns := cs, b_tracker := tr \<rparr>)"
    using flush_all_keeps [OF f] last_ok_same [of "s_bond s" "(s_bond s)\<lparr> b_conns := cs, b_tracker := tr \<rparr>"]
    by (intro bond_stepI) (simp_all add: bond_keeps_def)
  then show ?thesis by (simp add: on_batch_flush_def f sender_same_def)
qed

subsection \<open>Housekeeping\<close>

text \<open>The links whose reader a list of effects restarts.\<close>

definition restarted :: "effect list \<Rightarrow> u64 set" where
  "restarted effs = {i. RestartReader i \<in> set effs}"

lemma restarted_simps [simp]:
  "restarted [] = {}" "restarted (es @ fs) = restarted es \<union> restarted fs" "restarted (RestartReader i # es) = insert i (restarted es)"
  "restarted (ToUplink j pkt # es) = restarted es"
  by (auto simp: restarted_def)

lemma run_restarts_set: "set (run_restarts effs rs) = set rs \<union> restarted effs"
proof (induction effs arbitrary: rs)
  case (Cons e effs)
  then show ?case by (cases e) (auto simp: run_restarts_def restart_reader_for_def restarted_def)
qed (simp add: run_restarts_def)

lemma io_send_restarts [simp]: "restarted (snd (io_send env io pkt c)) = {}" "restarted (io_send_unstamped env io pkt c) = {}"
  by (auto simp: io_send_unstamped_def io_send_def split: option.split SendOutcome.split)

lemma restarted_concat: "(\<And>x. x \<in> set xs \<Longrightarrow> restarted (f x) = {}) \<Longrightarrow> restarted (concat (map f xs)) = {}"
  by (induction xs) auto

lemma reg_ok_builds:
  "build_reg1_for i now m = (pkt, m') \<Longrightarrow> reg_ok m \<Longrightarrow> reg_ok m'" "build_reg2 i m = (pkt, m') \<Longrightarrow> reg_ok m \<Longrightarrow> reg_ok m'"
  using reg_ok_ops(8) [of m i now] reg_ok_ops(2) [of m i] by simp_all

lemma hk_reconnect_restarts: "restarted (snd (snd (hk_reconnect env io c tr))) \<subseteq> {c_conn_id c}"
  by (auto simp: hk_reconnect_def reconnect_uplink_def split: option.split prod.split)

lemma hk_timed_out_frame:
  assumes "hk_timed_out env io i c reg tr = (c', reg', tr', es)"
  shows "restarted es \<subseteq> {c_conn_id c}" "reg_ok reg \<Longrightarrow> reg_ok reg'"
proof -
  obtain c1 tr1 es1 where r: "hk_reconnect env io (record_reconnect_attempt (h_now env) c) tr = (c1, tr1, es1)"
    by (metis prod_cases3)
  have "restarted (snd (io_send env io pkt d)) = {}" for pkt d by simp
  then have s: "io_send env io pkt d = (d', es') \<Longrightarrow> restarted es' = {}" for pkt d d' es' by (metis snd_conv)
  show "restarted es \<subseteq> {c_conn_id c}"
    using assms hk_reconnect_restarts [of env io "record_reconnect_attempt (h_now env) c" tr]
    by (auto simp: hk_timed_out_def r split: if_splits option.splits prod.splits dest!: s)
  show "reg_ok reg \<Longrightarrow> reg_ok reg'"
    using assms by (auto simp: hk_timed_out_def r split: if_splits option.splits prod.splits dest: reg_ok_builds)
qed

lemma hk_active_restarts: "restarted (snd (hk_active env io classic c)) \<subseteq> {c_conn_id c}"
proof -
  have "c_conn_id (fst (hk_keepalive env io due d)) = c_conn_id d" "restarted (snd (hk_keepalive env io due d)) = {}" for due d
    by (simp_all add: hk_keepalive_def case_prod_beta)
  then show ?thesis by (auto simp: hk_active_def case_prod_beta Let_def)
qed

lemma hk_loop_frame:
  "hk_loop env io classic i cs reg tr = (cs', reg', tr', es) \<Longrightarrow>
     restarted es \<subseteq> c_conn_id ` set cs \<and> (reg_ok reg \<longrightarrow> reg_ok reg')"
proof (induction env io classic i cs reg tr arbitrary: cs' reg' tr' es rule: hk_loop.induct)
  case (2 env io classic i c cs reg tr)
  let ?step = "if is_timed_out (h_now env) c then hk_timed_out env io i c reg tr
            else case hk_active env io classic c of (c', es) \<Rightarrow> (c', reg, tr, es)"
  obtain c1 reg1 tr1 es1 where s: "?step = (c1, reg1, tr1, es1)" by (metis prod_cases4)
  obtain ds reg2 tr2 es2 where l: "hk_loop env io classic (Suc i) cs reg1 tr1 = (ds, reg2, tr2, es2)" by (metis prod_cases4)
  have "restarted es1 \<subseteq> {c_conn_id c}" "reg_ok reg \<Longrightarrow> reg_ok reg1"
    using s hk_active_restarts [of env io classic c] hk_timed_out_frame [of env io i c reg tr c1 reg1 tr1 es1]
    by (auto split: if_splits prod.splits)
  then show ?case using 2(1) [OF s [symmetric] refl refl l] 2(2) s l by auto
qed simp

definition hk_frame :: "HkState \<Rightarrow> HkState \<times> effect list \<Rightarrow> bool" where
  "hk_frame st r \<longleftrightarrow> restarted (snd r) \<subseteq> c_conn_id ` set (hk_conns st) \<and> (reg_ok (hk_reg st) \<longrightarrow> reg_ok (hk_reg (fst r))) \<and>
     Mapping.keys (hk_io (fst r)) = Mapping.keys (hk_io st)"

lemma repoint_keys: "Mapping.keys (repoint a conns io) = Mapping.keys io"
  by (simp add: set_eq_iff keys_dom_lookup repoint_lookup domIff)

lemma rebuild_loop_restarts: "restarted (snd (snd (rebuild_loop env io cs tr))) \<subseteq> c_conn_id ` set cs"
proof (induction cs arbitrary: tr)
  case (Cons c cs)
  then show ?case by (simp add: case_prod_beta split: option.split) blast
qed simp

lemma rehome_bond_frame:
  assumes "hk_env_ok env"
  shows "hk_frame st (rehome_bond env a st)"
proof -
  define io where "io = repoint a (hk_conns st) (hk_io st)"
  obtain cs tr es where r: "rebuild_loop env io (hk_conns st) (hk_tracker st) = (cs, tr, es)" by (metis prod_cases3)
  obtain probes cs' reg where p: "start_probing cs (h_now env) (reset_for_rehome (h_id_half env) (h_probe_id env) (hk_reg st)) =
      (probes, cs', reg)" by (metis prod_cases3)
  have "reg_ok (hk_reg st) \<Longrightarrow> reg_ok reg"
    using reg_ok_ops(5) [OF reg_ok_ops(7), of "hk_reg st" "h_id_half env" "h_probe_id env" cs "h_now env"] p assms
    by (simp add: hk_env_ok_def)
  moreover have "restarted (concat (map (\<lambda>(idx, pkt). if idx < length cs' then io_send_unstamped env io pkt (cs' ! idx) else []) probes)) = {}"
    by (rule restarted_concat) (simp split: prod.split)
  ultimately show ?thesis
    using rebuild_loop_restarts [of env io "hk_conns st" "hk_tracker st"]
    by (simp add: hk_frame_def rehome_bond_def Let_def io_def [symmetric] r p) (simp add: io_def repoint_keys)
qed

lemma try_rehome_frame: "hk_env_ok env \<Longrightarrow> hk_frame st (snd (try_rehome env st))"
  using rehome_bond_frame [of env "st\<lparr> hk_rehome := g \<rparr>" a for g a]
  by (simp add: try_rehome_def hk_frame_def case_prod_beta Let_def split: list.split option.split)

lemma hk_failure_frame: "hk_env_ok env \<Longrightarrow> hk_frame st (snd (hk_failure env st))"
  using try_rehome_frame [of env "st\<lparr> hk_all_failed_at := t \<rparr>" for t]
  by (simp add: hk_failure_def hk_frame_def case_prod_beta Let_def split: bool.split)

lemma hk_probing_frame: "hk_frame st (hk_probing env st, [])"
  using reg_ok_ops(6) by (auto simp: hk_frame_def hk_probing_def Let_def split: option.split)

lemma driver_restarts: "restarted (snd (hk_driver_sends env io sends cs)) = {}"
proof -
  have "restarted (concat (map (\<lambda>c. snd (io_send env io pkt c)) ds)) = {}" for pkt ds by (rule restarted_concat) simp
  then show ?thesis by (simp add: hk_driver_sends_def case_prod_beta Let_def split: option.split)
qed

lemma housekeeping_frame:
  assumes "hk_env_ok env"
  shows "hk_frame st (snd (handle_housekeeping env classic st))"
proof -
  define st0 where "st0 = st\<lparr> hk_reg := snd (clear_pending_if_timed_out (h_now env) (hk_reg st)) \<rparr>"
  define st1 where "st1 = hk_probing env st0"
  obtain conns reg tr es1 where l: "hk_loop env (hk_io st1) classic 0 (hk_conns st1) (hk_reg st1) (hk_tracker st1) =
      (conns, reg, tr, es1)" by (metis prod_cases4)
  obtain sends reg1 where d: "reg_driver_pending_sends (length conns) (h_now env) (update_active_connections conns reg) = (sends, reg1)"
    by fastforce
  define st2 where "st2 = st1\<lparr> hk_conns := fst (hk_driver_sends env (hk_io st1) sends conns), hk_reg := reg1, hk_tracker := tr \<rparr>"
  have ids: "c_conn_id ` set (hk_conns st1) = c_conn_id ` set (hk_conns st)" "c_conn_id ` set (hk_conns st2) = c_conn_id ` set (hk_conns st)"
  proof -
    have "map c_conn_id (hk_conns st1) = map c_conn_id (hk_conns st)"
      using hk_probing_keeps(1) [of st0 env] by (simp add: st1_def st0_def hk_keeps_def conns_keep_ids)
    moreover have "map c_conn_id (hk_conns st2) = map c_conn_id (hk_conns st1)"
      using hk_loop_keeps [OF l] conns_keep_trans [OF _ hk_driver_sends_keeps] conns_keep_ids by (simp add: st2_def)
    ultimately show "c_conn_id ` set (hk_conns st1) = c_conn_id ` set (hk_conns st)"
      "c_conn_id ` set (hk_conns st2) = c_conn_id ` set (hk_conns st)" by (metis list.set_map)+
  qed
  have reg1: "reg_ok (hk_reg st) \<Longrightarrow> reg_ok (hk_reg st1)"
    using hk_probing_frame [of st0 env] reg_ok_ops(4) by (simp add: hk_frame_def st0_def st1_def)
  have reg2: "reg_ok (hk_reg st) \<Longrightarrow> reg_ok (hk_reg st2)"
    using reg_ok_driver [OF reg_ok_ops(3), of reg "length conns" "h_now env" conns] hk_loop_frame [OF l] reg1 d by (simp add: st2_def)
  have io: "Mapping.keys (hk_io st2) = Mapping.keys (hk_io st)" by (simp add: st2_def st1_def st0_def hk_probing_keeps)
  have "snd (handle_housekeeping env classic st) =
     (fst (snd (hk_failure env st2)), es1 @ snd (hk_driver_sends env (hk_io st1) sends conns) @ snd (snd (hk_failure env st2)))"
    by (simp add: handle_housekeeping_def hk_serve_def Let_def st0_def [symmetric] st1_def [symmetric] l d st2_def case_prod_beta)
  then show ?thesis
    using hk_failure_frame [OF assms, of st2] hk_loop_frame [OF l] reg2 io ids
    by (simp add: hk_frame_def driver_restarts)
qed

lemma run_housekeeping_same:
  assumes "hk_env_ok h"
  shows "sender_same s (fst (run_housekeeping h s))"
proof -
  define b where "b = s_bond s"
  define st where "st = \<lparr> hk_conns = b_conns b, hk_io = s_io s, hk_reg = b_reg b, hk_tracker = b_tracker b,
     hk_all_failed_at = s_all_failed_at s, hk_rehome = s_rehome s \<rparr>"
  define classic where "classic = is_classic (mode_from_u8 (dc_mode (b_config b)))"
  obtain res st' es where h: "handle_housekeeping h classic st = (res, st', es)" by (metis prod_cases3)
  have keeps: "hk_keeps st st'" and frame: "hk_frame st (st', es)"
    using housekeeping_keeps [of st h classic] housekeeping_frame [OF assms, of st classic] h by simp_all
  let ?b = "b\<lparr> b_conns := hk_conns st', b_reg := hk_reg st', b_tracker := hk_tracker st' \<rparr>"
  have "bond_step b ?b"
    using keeps frame last_ok_same [of b ?b]
    by (intro bond_stepI) (auto simp: bond_keeps_def hk_keeps_def hk_frame_def st_def)
  moreover have "restarted es \<subseteq> set (ids_of b)" "Mapping.keys (hk_io st') = Mapping.keys (s_io s)"
    using frame by (simp_all add: hk_frame_def st_def ids_of_def)
  moreover have "fst (run_housekeeping h s) = s\<lparr> s_bond := ?b, s_io := hk_io st', s_all_failed_at := hk_all_failed_at st',
      s_rehome := hk_rehome st', s_readers := run_restarts es (s_readers s) \<rparr>"
    using h by (simp add: run_housekeeping_def Let_def b_def [symmetric] st_def [symmetric] classic_def [symmetric])
  ultimately show ?thesis by (auto simp: sender_same_def run_restarts_set b_def)
qed

lemma stamp_link_keeps:
  assumes "\<And>sn. Mapping.lookup snaps (c_conn_id c) = Some sn \<Longrightarrow> snap_target_bps sn < 2 ^ 64"
  shows "link_keeps c (stamp_link per_link snaps c)"
proof -
  let ?d = "stamp_link per_link snaps c"
  have "link_ok ?d = link_ok c" by (simp add: stamp_link_def link_ok_def Let_def)
  moreover have "c_cc_target_bps ?d < 2 ^ 64" using assms by (simp add: stamp_link_def Let_def split: option.split)
  ultimately show ?thesis
    by (auto simp: link_keeps_def link_good_def status_ok_def) (simp_all add: stamp_link_def is_schedulable_def Let_def)
qed

lemma stamp_links_same: "sender_same s (stamp_links exp_f now s)"
proof -
  define cs where "cs = b_conns (s_bond s)"
  obtain cl f where c: "classify cs (cfg_negotiated_latency_ms (snapshot (b_config (s_bond s)))) (s_filter s) = (cl, f)" by fastforce
  obtain snaps cc where t: "tick_all exp_f now cs (s_cc s) = (snaps, cc)" by fastforce
  let ?b = "(s_bond s)\<lparr> b_conns := map (stamp_link (cr_per_link cl) snaps) cs \<rparr>"
  have "snap_target_bps sn < 2 ^ 64" if "Mapping.lookup snaps i = Some sn" for i sn
    using tick_all_result(3) [OF t that] by (auto simp: target_ok_def MAX_TARGET_BPS_def)
  then have "conns_keep cs (map (stamp_link (cr_per_link cl) snaps) cs)" by (intro conns_keep_map stamp_link_keeps)
  then have "bond_step (s_bond s) ?b"
    using last_ok_same [of "s_bond s" ?b] by (intro bond_stepI) (simp_all add: bond_keeps_def cs_def)
  then show ?thesis
    by (simp add: stamp_links_def Let_def cs_def [symmetric] c t sender_same_def)
qed

subsection \<open>Reloads\<close>

lemma sync_readers_set:
  "set (sync_readers conns io readers) = c_conn_id ` set conns \<inter> (Mapping.keys io \<union> set readers)"
proof -
  have "set (fold (\<lambda>c rs. case Mapping.lookup io (c_conn_id c) of
          Some _ \<Rightarrow> if c_conn_id c \<in> set rs then rs else c_conn_id c # rs | None \<Rightarrow> rs) cs rs) =
        set rs \<union> (c_conn_id ` set cs \<inter> Mapping.keys io)" for cs rs
    by (induction cs arbitrary: rs) (auto simp: keys_dom_lookup split: option.split)
  then show ?thesis by (auto simp: sync_readers_def Let_def)
qed

lemma new_uplink_good: "link_good (new_uplink k host port w x)" "c_conn_id (new_uplink k host port w x) = k_conn_id k (fst x)"
proof -
  obtain j ip where x: "x = (j, ip)" by fastforce
  let ?c = "new_registering (k_conn_id k j) (uplink_label (k_show_ip k) host port ip) ip (k_now k j)"
  have "link_ok ?c" by simp
  then have "link_ok (?c\<lparr> c_link_weight := w ip \<rparr>)" by (simp add: link_ok_def)
  moreover have "status_ok (?c\<lparr> c_link_weight := w ip \<rparr>)"
    by (simp add: status_ok_def new_registering_def is_schedulable_def phase_is_schedulable_def CachedQuality_default_def)
  ultimately show "link_good (new_uplink k host port w x)" by (simp add: x new_uplink_def link_good_def)
  show "c_conn_id (new_uplink k host port w x) = k_conn_id k (fst x)" by (simp add: x new_uplink_def)
qed

lemma reweight_good [simp]: "link_good (c\<lparr> c_link_weight := w \<rparr>) = link_good c"
  by (simp add: link_good_def link_ok_def status_ok_def is_schedulable_def)

lemma opened_ids:
  assumes "inj_on (k_conn_id k) {..<n}" "length ips \<le> n"
  shows "distinct (map (\<lambda>x. k_conn_id k (fst x)) (opened k 0 ips))" "fst ` set (opened k 0 ips) \<subseteq> {..<n}"
proof -
  have sub: "fst ` set (opened k 0 ips) \<subseteq> {..<length ips}"
    by (auto simp: opened_def in_set_enumerate_eq)
  then show n: "fst ` set (opened k 0 ips) \<subseteq> {..<n}" using assms(2) by force
  have "distinct (map fst (opened k 0 ips))"
    unfolding opened_def by (rule distinct_map_filter) simp
  moreover have "inj_on (k_conn_id k) (set (map fst (opened k 0 ips)))"
    using inj_on_subset [OF assms(1) n] by simp
  ultimately have "distinct (map (k_conn_id k) (map fst (opened k 0 ips)))" by (simp only: distinct_map)
  then show "distinct (map (\<lambda>x. k_conn_id k (fst x)) (opened k 0 ips))" by (simp add: comp_def)
qed

lemma first_seen_length: "length (first_seen seen xs) \<le> length xs"
  by (induction seen xs rule: first_seen.induct) auto

definition uplinks_ok :: "Uplinks \<Rightarrow> bool" where
  "uplinks_ok u \<longleftrightarrow> list_all link_good (ul_conns u) \<and> distinct (map c_conn_id (ul_conns u)) \<and>
     Mapping.keys (ul_io u) = c_conn_id ` set (ul_conns u) \<and> tracker_ok (ul_tracker u) \<and>
     (case ul_last_selected u of None \<Rightarrow> True | Some i \<Rightarrow> i < length (ul_conns u))"

lemma remove_stale_ok:
  assumes "uplinks_ok u"
  shows "uplinks_ok (remove_stale ls u)" "set (ul_conns (remove_stale ls u)) \<subseteq> set (ul_conns u)"
proof -
  let ?P = "\<lambda>c. c_label c \<in> set ls"
  have tr: "tracker_ok (ul_tracker u)" using assms by (simp add: uplinks_ok_def)
  note r = remove_stale_result [OF tr]
  have "inj_on c_conn_id (set (ul_conns u))" using assms by (simp add: uplinks_ok_def distinct_map)
  then have "c_conn_id ` set (ul_conns u) - c_conn_id ` {c \<in> set (ul_conns u). \<not> ?P c} = c_conn_id ` {c \<in> set (ul_conns u). ?P c}"
    by (auto dest: inj_onD)
  then have "Mapping.keys (ul_io (remove_stale ls u)) = c_conn_id ` set (ul_conns (remove_stale ls u))"
    using assms r(1,2) by (simp add: uplinks_ok_def stale_ids_def)
  moreover have "list_all link_good (ul_conns (remove_stale ls u))" "distinct (map c_conn_id (ul_conns (remove_stale ls u)))"
    using assms r(1) by (auto simp: uplinks_ok_def list_all_iff intro: distinct_map_filter)
  moreover have "stale_ids (set ls) (ul_conns u) = [] \<Longrightarrow> filter ?P (ul_conns u) = ul_conns u"
    by (auto simp: stale_ids_def filter_empty_conv intro: filter_True)
  ultimately show "uplinks_ok (remove_stale ls u)"
    using assms r(1,3,4) by (auto simp: uplinks_ok_def split: option.splits)
  show "set (ul_conns (remove_stale ls u)) \<subseteq> set (ul_conns u)" using r(1) by auto
qed

lemma apply_changes_ok:
  assumes "uplinks_ok u" "fresh_ids k (length ips) (ul_conns u)"
  shows "uplinks_ok (apply_connection_changes k ips weights host port u)"
proof -
  let ?label = "uplink_label (k_show_ip k) host port"
  define u1 where "u1 = remove_stale (map ?label ips) u"
  define needed where "needed = filter (\<lambda>ip. ?label ip \<notin> c_label ` set (ul_conns u)) (first_seen [] ips)"
  define new where "new = map (new_uplink k host port (weight_for ips weights)) (opened k 0 needed)"
  note r = apply_changes_result [where k = k and host = host and port = port and ips = ips and weights = weights and u = u,
      folded u1_def needed_def, folded new_def]
  have u1: "uplinks_ok u1" "set (ul_conns u1) \<subseteq> set (ul_conns u)" using remove_stale_ok [OF assms(1)] by (simp_all add: u1_def)
  have len: "length needed \<le> length ips"
    unfolding needed_def by (rule le_trans [OF length_filter_le first_seen_length])
  note o = opened_ids [OF _ len, of k] 
  have ids: "map c_conn_id new = map (\<lambda>x. k_conn_id k (fst x)) (opened k 0 needed)" by (simp add: new_def new_uplink_good comp_def)
  have "distinct (map c_conn_id new)" using o(1) assms(2) ids by (simp add: fresh_ids_def)
  moreover have "c_conn_id ` set new \<inter> c_conn_id ` set (ul_conns u1) = {}"
  proof -
    have "c_conn_id ` set new = k_conn_id k ` fst ` set (opened k 0 needed)"
      using arg_cong [OF ids, of set] by (simp add: image_image)
    moreover have "fst ` set (opened k 0 needed) \<subseteq> {..<length ips}" using o(2) assms(2) by (simp add: fresh_ids_def)
    ultimately show ?thesis using assms(2) u1(2) unfolding fresh_ids_def by blast
  qed
  moreover have "list_all link_good new" by (simp add: new_def list_all_iff new_uplink_good)
  moreover have "k_conn_id k ` fst ` set (opened k 0 needed) = c_conn_id ` set new"
    using arg_cong [OF ids, of set] by (simp add: image_image)
  ultimately show ?thesis
    using u1(1) unfolding uplinks_ok_def r list_all_append map_append set_append distinct_append
    by (simp add: list_all_iff comp_def image_Un image_image Int_commute trans_less_add1 split: option.splits)
qed

lemma apply_pending_ok:
  assumes "sender_ok s" "fresh_ids k (length (pending_ips s)) (b_conns (s_bond s))"
  shows "sender_ok (apply_pending k s)"
proof (cases "s_pending s")
  case None
  then show ?thesis using assms(1) by (simp add: apply_pending_def)
next
  case (Some ch)
  show ?thesis
  proof (cases "pc_new_ips ch")
    case None
    then show ?thesis using Some assms(1) by (simp add: apply_pending_def sender_ok_def)
  next
    case ips: (Some ips)
    define b where "b = s_bond s"
    define u where "u = \<lparr> ul_conns = b_conns b, ul_io = s_io s, ul_last_selected = b_last_selected b, ul_tracker = b_tracker b \<rparr>"
    define u' where "u' = apply_connection_changes k ips (pc_new_weights ch) (pc_receiver_host ch) (pc_receiver_port ch) u"
    have "uplinks_ok u"
      using assms(1) by (auto simp: sender_ok_def bond_ok_def last_ok_def uplinks_ok_def u_def b_def ids_of_def split: option.splits)
    then have u': "uplinks_ok u'" using apply_changes_ok assms(2) Some ips by (simp add: u'_def pending_ips_def u_def b_def)
    have "apply_pending k s = s\<lparr> s_pending := None, s_bond := b\<lparr> b_conns := ul_conns u', b_last_selected := ul_last_selected u',
        b_tracker := ul_tracker u' \<rparr>, s_io := ul_io u', s_readers := sync_readers (ul_conns u') (ul_io u') (s_readers s) \<rparr>"
      using Some ips by (simp add: apply_pending_def Let_def b_def [symmetric] u_def [symmetric] u'_def [symmetric])
    then show ?thesis
      using u' assms(1) by (auto simp: sender_ok_def bond_ok_def last_ok_def uplinks_ok_def ids_of_def b_def sync_readers_set split: option.splits)
  qed
qed

subsection \<open>Every step\<close>

lemma status_tick_bound: "e < STATUS_LOG_INTERVAL_MS \<Longrightarrow> status_tick e < STATUS_LOG_INTERVAL_MS"
  by (auto simp: status_tick_def Let_def STATUS_LOG_INTERVAL_MS_def HOUSEKEEPING_INTERVAL_MS_def u64_saturating_add_def)

lemma housekeeping_tick_ok:
  assumes "sender_ok s" "pass_ok x" "hk_env_ok h" "fresh_ids k (length (pending_ips s)) (b_conns (s_bond s))"
  shows "sender_ok (fst (on_housekeeping_tick x h k now_cc s))"
proof -
  obtain s1 es1 where h: "run_housekeeping h s = (s1, es1)" by fastforce
  define s1' where "s1' = stamp_links (e_exp (x_env x)) now_cc s1"
  define s2 where "s2 = apply_pending k s1'"
  have same: "sender_same s s1'"
    unfolding s1'_def using run_housekeeping_same [OF assms(3), of s] stamp_links_same h by (metis fst_conv sender_same_trans)
  then have "sender_ok s1'" using assms(1) by (rule sender_same_ok)
  moreover have "fresh_ids k (length (pending_ips s1')) (b_conns (s_bond s1'))"
  proof -
    have "set (ids_of (s_bond s1')) = set (ids_of (s_bond s))" "pending_ips s1' = pending_ips s"
      using same by (simp_all add: sender_same_def bond_step_def pending_ips_def)
    then show ?thesis using assms(4) by (simp add: fresh_ids_def ids_of_def)
  qed
  ultimately have s2: "sender_ok s2" unfolding s2_def by (rule apply_pending_ok)
  let ?s3 = "s2\<lparr> s_status_elapsed_ms := status_tick (s_status_elapsed_ms s2),
      s_readers := sync_readers (b_conns (s_bond s2)) (s_io s2) (s_readers s2) \<rparr>"
  have "sender_ok ?s3"
    using s2 status_tick_bound by (auto simp: sender_ok_def sync_readers_set ids_of_def)
  then have "sender_ok (fst (drain_channel x (snapshot (b_config (s_bond ?s3))) ?s3))"
    using sender_same_ok [OF drain_channel_same [OF assms(2)]] by blast
  then show ?thesis
    by (simp add: on_housekeeping_tick_def h Let_def s1'_def [symmetric] s2_def [symmetric] case_prod_beta)
qed

lemma pending_irrelevant: "sender_ok (s\<lparr> s_pending := x \<rparr>) = sender_ok s" "sender_ok (s\<lparr> s_queue := q \<rparr>) = sender_ok s"
  "sender_ok (s\<lparr> s_critical := w \<rparr>) = sender_ok s"
  by (simp_all add: sender_ok_def)

lemma sighup_ok: "sender_ok s \<Longrightarrow> pass_ok x \<Longrightarrow> sender_ok (fst (on_sighup p x file s))"
  unfolding on_sighup_def
  by (rule sender_same_ok [OF drain_channel_same]) (simp_all add: pending_irrelevant split: IpReload.split)

lemma control_ok: "sender_ok (s\<lparr> s_bond := (s_bond s)\<lparr> b_config := c \<rparr> \<rparr>) = sender_ok s"
  by (simp add: sender_ok_def bond_ok_def last_ok_def ids_of_def cong: option.case_cong)

lemma sender_step_ok: "sender_step p s s' \<Longrightarrow> sender_ok s \<Longrightarrow> sender_ok s'"
proof (induction rule: sender_step.cases)
  case (client_packet x res s s' effs)
  then show ?case using sender_same_ok [OF client_packet_same, of x s res] by simp
next
  case (uplink_packet x s packet queue s' effs)
  then show ?case using sender_same_ok [OF uplink_packet_same, of x "s\<lparr> s_queue := queue \<rparr>" packet] by (simp add: pending_irrelevant)
next
  case (housekeeping x h k s now_cc s' effs)
  then show ?case using housekeeping_tick_ok [of s x h k now_cc] by simp
next
  case (sighup x content s s' effs)
  then show ?case using sighup_ok [of s x p content] by simp
next
  case (batch_flush x s s' effs)
  then show ?case using sender_same_ok [OF batch_flush_same, of s x] by simp
qed (simp_all add: pending_irrelevant control_ok)

lemma sender_start_ok:
  assumes "hk_env_ok (z_housekeeping z)" "length (z_own_id z) = 256" "length (z_probe_id z) = 256"
    and "read_weighted_ip_list (p_parse_ip p) (z_file z) = Some (ips, weights)" "fresh_ids (z_connect z) (length ips) []"
    and "sender_start p z = Inr (s, effs)"
  shows "sender_ok s"
proof -
  obtain conns io where c: "create_loop (z_connect z) ips weights (p_receiver_host p) (p_receiver_port p) 0 ips Mapping.empty = (conns, io)"
    by fastforce
  obtain probes conns1 reg where pr: "start_probing conns (z_now z) (RegistrationManager_new (z_own_id z) (z_probe_id z)) =
      (probes, conns1, reg)" by (metis prod_cases3)
  define s0 where "s0 = \<lparr> s_bond = \<lparr> b_conns = conns1, b_reg = reg, b_tracker = SequenceTracker_new, b_dedup = ClientDedup_new,
      b_last_selected = None, b_client = None, b_config = z_config z \<rparr>,
    s_io = io, s_readers = sync_readers conns1 io [], s_queue = [], s_all_failed_at = None,
    s_rehome = RehomeGate_new (dc_rehome_on_failure (z_config z)), s_pending = None,
    s_filter = WeakLinkFilter_new, s_cc = Mapping.empty, s_status_elapsed_ms = 0, s_critical = CriticalWindow_new \<rparr>"
  have s: "s = fst (run_housekeeping (z_housekeeping z) s0)"
    using assms(4,6)
    by (auto simp: sender_start_def create_connections_from_ips_def c pr Let_def case_prod_beta s0_def split: if_splits option.splits)
  note r = create_loop_result [OF c]
  have o: "distinct (map (\<lambda>x. k_conn_id (z_connect z) (fst x)) (opened (z_connect z) 0 ips))"
    using opened_ids(1) [of "z_connect z" "length ips" ips] assms(5) by (simp add: fresh_ids_def)
  have ids: "map c_conn_id conns1 = map (\<lambda>x. k_conn_id (z_connect z) (fst x)) (opened (z_connect z) 0 ips)"
    using conns_keep_ids [OF start_probing_keeps [OF pr]] r by (simp add: new_uplink_good comp_def)
  have "list_all link_good conns" using r by (simp add: list_all_iff new_uplink_good)
  then have "list_all link_good conns1" using conns_keep_good [OF start_probing_keeps [OF pr]] by blast
  moreover have "reg_ok reg"
    using reg_ok_ops(5) [of "RegistrationManager_new (z_own_id z) (z_probe_id z)" conns "z_now z"] pr assms(2,3)
    by (simp add: reg_ok_def RegistrationManager_new_def SRTLA_ID_LEN_def)
  moreover have "Mapping.keys io = c_conn_id ` set conns1"
    using r arg_cong [OF ids, of set] by (simp add: image_image)
  moreover have "distinct (map c_conn_id conns1)" using o ids by simp
  ultimately have "sender_ok s0"
    using tracker.ok_empty
    by (auto simp: s0_def sender_ok_def bond_ok_def last_ok_def ids_of_def sync_readers_set STATUS_LOG_INTERVAL_MS_def)
  then show ?thesis unfolding s by (rule sender_same_ok [OF run_housekeeping_same [OF assms(1)]])
qed

section \<open>What the sender guarantees\<close>

lemma reachable_ok: "reachable p s \<Longrightarrow> sender_ok s"
  by (induction rule: reachable.induct) (auto intro: sender_start_ok sender_step_ok)

text \<open>
  C2: the state of the running sender. In every state the event loop can reach from a successful start, through any
  interleaving of client packets, uplink packets, housekeeping ticks with their reconnects and re-homes, reloads,
  flushes, priority datagrams and configuration changes: every link satisfies its invariant, link ids are
  distinct and are exactly the keys of the I/O map and of the table of reader tasks, the remembered selection is a
  position in the bond, the sequence ring has its size, the registration ids have theirs and no link holds two
  grants, and the status timer is below its interval.
\<close>

theorem reachable_invariant:
  assumes "reachable p s"
  shows "list_all link_good (b_conns (s_bond s)) \<and> distinct (map c_conn_id (b_conns (s_bond s))) \<and>
     Mapping.keys (s_io s) = c_conn_id ` set (b_conns (s_bond s)) \<and> set (s_readers s) = c_conn_id ` set (b_conns (s_bond s)) \<and>
     (case b_last_selected (s_bond s) of None \<Rightarrow> True | Some i \<Rightarrow> i < length (b_conns (s_bond s))) \<and>
     length (tr_entries (b_tracker (s_bond s))) = SEQ_TRACKING_SIZE \<and>
     length (rm_srtla_id (b_reg (s_bond s))) = SRTLA_ID_LEN \<and> distinct (rm_awaiting_reg3 (b_reg (s_bond s))) \<and>
     s_status_elapsed_ms s < STATUS_LOG_INTERVAL_MS"
proof -
  from reachable_ok [OF assms] show ?thesis by (simp add: sender_ok_def bond_ok_def ids_of_def last_ok_def tracker_ok_def reg_ok_def)
qed

text \<open>A start with one address in the file, whose socket opens.\<close>

definition demo_params :: Params where
  "demo_params = \<lparr> p_parse_ip = (\<lambda>t. if t = ''a'' then Some (V4 1) else None), p_receiver_host = ''h'', p_receiver_port = 5 \<rparr>"

definition demo_housekeeping :: HkEnv where
  "demo_housekeeping = \<lparr> h_now = 10, h_now_probing = 10, h_send = (\<lambda>_ _. SendOk), h_rebuild = (\<lambda>_. True), h_reader_dead = (\<lambda>_. False),
     h_resolve = (\<lambda>_. None), h_id_half = replicate 128 0, h_probe_id = replicate 256 0 \<rparr>"

definition demo_start :: StartEnv where
  "demo_start = \<lparr> z_local_srt_port = 5000, z_listener = (\<lambda>_. True), z_signal_error = None, z_ips_file = ''ips'', z_file = Some ''a'', z_config = DynamicConfig_new, z_connect = demo_connect,
     z_own_id = replicate 256 1, z_probe_id = replicate 256 2, z_now = 10, z_housekeeping = demo_housekeeping \<rparr>"

definition demo_sender :: Sender where
  "demo_sender = fst (projr (sender_start demo_params demo_start))"

lemma demo_ips: "read_weighted_ip_list (p_parse_ip demo_params) (z_file demo_start) = Some ([V4 1], [1])"
  by (simp add: demo_params_def demo_start_def read_weighted_ip_list_def analyze_ip_reload_text_def scan_lines_def
      str_lines_def scan_line_def trim_def is_whitespace_def parse_ip_line_def split_whitespace_def weight_of_field_def
      normalise_link_weights_def clamp_weight_def LINK_WEIGHT_MIN_def LINK_WEIGHT_MAX_def Let_def)

lemma demo_started: "\<exists>effs. sender_start demo_params demo_start = Inr (demo_sender, effs)"
  unfolding demo_sender_def sender_start_def demo_ips
  by (simp add: create_connections_from_ips_def connect_uplink_def demo_start_def demo_connect_def case_prod_beta Let_def)

lemma demo_reachable: "reachable demo_params demo_sender"
  using demo_started
  by (auto intro!: reachable.start [OF _ _ _ demo_ips] simp: demo_start_def demo_housekeeping_def hk_env_ok_def fresh_ids_def inj_on_def)

theorem reachable_invariant_witness:
  "reachable demo_params demo_sender \<and> set (s_readers demo_sender) = c_conn_id ` set (b_conns (s_bond demo_sender))"
  using demo_reachable reachable_invariant [OF demo_reachable] by simp

lemma classify_ids: "map lc_conn_id (cr_per_link (fst (classify conns latency f))) = map c_conn_id conns"
  using classify_loop_ids [OF classify_link_id]
  by (simp add: classify_def unclassified_def Let_def case_prod_beta comp_def)

text \<open>A link that carries what its controller and its entry of the classification say.\<close>

definition stamped_by :: "LinkCcController \<Rightarrow> LinkClassification list \<Rightarrow> SrtlaConnection \<Rightarrow> bool" where
  "stamped_by ctl per_link c \<longleftrightarrow> 100000 \<le> c_cc_target_bps c \<and> c_cc_target_bps c \<le> 200000000 \<and>
     (\<exists>cc. Mapping.lookup ctl (c_conn_id c) = Some cc \<and> c_cc_target_bps c = lcs_target_bps cc \<and>
        c_cc_backing_off c = (lcs_state cc = BackingOff) \<and> c_loss_degraded c = lcs_loss_degraded cc) \<and>
     (\<exists>e. e \<in> set per_link \<and> lc_conn_id e = c_conn_id c \<and> c_weak c = lc_weak e \<and> c_weak_reason c = lc_reason e)"

lemma stamp_link_id [simp]: "c_conn_id (stamp_link l m d) = c_conn_id d"
  by (simp add: stamp_link_def Let_def)

lemma stamp_link_stamped:
  assumes t: "tick_all exp_f now cs ctl = (snaps, ctl')" and d: "d \<in> set cs"
  shows "stamped_by ctl' (cr_per_link (fst (classify cs latency f))) (stamp_link (cr_per_link (fst (classify cs latency f))) snaps d)"
proof -
  let ?l = "cr_per_link (fst (classify cs latency f))"
  have "c_conn_id d \<in> Mapping.keys snaps" using tick_all_result(1) [OF t] d by simp
  then obtain sn where sn: "Mapping.lookup snaps (c_conn_id d) = Some sn" by (auto simp: keys_dom_lookup)
  from tick_all_result(3) [OF t sn] obtain st where st: "target_ok (snap_target_bps sn)" "Mapping.lookup ctl' (c_conn_id d) = Some st"
    "sn = cc_snapshot st" by blast
  have "c_conn_id d \<in> lc_conn_id ` set ?l"
    using d arg_cong [OF classify_ids [of cs latency f], of set] by simp
  then obtain e where e: "find (\<lambda>e. lc_conn_id e = c_conn_id d) ?l = Some e"
    by (cases "find (\<lambda>e. lc_conn_id e = c_conn_id d) ?l") (auto simp: find_None_iff)
  then have "e \<in> set ?l" "lc_conn_id e = c_conn_id d" by (auto simp: find_Some_iff)
  then show ?thesis
    using sn st e
    by (auto simp: stamped_by_def stamp_link_def Let_def target_ok_def MIN_TARGET_BPS_def MAX_TARGET_BPS_def cc_snapshot_def)
qed

lemma stamp_links_stamped:
  fixes exp_f now s
  defines "cs \<equiv> b_conns (s_bond s)" and "t \<equiv> stamp_links exp_f now s"
  defines "per_link \<equiv> cr_per_link (fst (classify cs (cfg_negotiated_latency_ms (snapshot (b_config (s_bond s)))) (s_filter s)))"
  shows "list_all (stamped_by (s_cc t) per_link) (b_conns (s_bond t))"
    and "map c_conn_id (b_conns (s_bond t)) = map c_conn_id cs" and "Mapping.keys (s_cc t) = c_conn_id ` set cs"
    and "s_pending t = s_pending s"
proof -
  obtain snaps ctl where tk: "tick_all exp_f now cs (s_cc s) = (snaps, ctl)" by fastforce
  have t: "b_conns (s_bond t) = map (stamp_link per_link snaps) cs" "s_cc t = ctl" "s_pending t = s_pending s"
    by (simp_all add: t_def stamp_links_def Let_def cs_def [symmetric] per_link_def tk case_prod_beta)
  show "list_all (stamped_by (s_cc t) per_link) (b_conns (s_bond t))"
    using stamp_link_stamped [OF tk] by (simp add: t list_all_iff per_link_def)
  show "map c_conn_id (b_conns (s_bond t)) = map c_conn_id cs" by (simp add: t comp_def)
  show "Mapping.keys (s_cc t) = c_conn_id ` set cs" using tick_all_result(2) [OF tk] by (simp add: t)
  show "s_pending t = s_pending s" by (simp add: t)
qed

lemma run_housekeeping_ids: "map c_conn_id (b_conns (s_bond (fst (run_housekeeping h s)))) = map c_conn_id (b_conns (s_bond s))"
proof -
  have "map c_conn_id (hk_conns (fst (snd (handle_housekeeping h classic st)))) = map c_conn_id (hk_conns st)" for classic st
    using housekeeping_keeps [of st h classic] by (simp add: hk_keeps_def conns_keep_ids)
  then show ?thesis by (simp add: run_housekeeping_def Let_def case_prod_beta)
qed

text \<open>What a pending reload does to the links: those named by the list stay, in order, with their new weight; behind them come the
  links opened for new addresses. Registration and congestion controllers are not touched.\<close>

lemma apply_pending_reload:
  fixes k
  assumes "tracker_ok (b_tracker (s_bond s))" "s_pending s = Some ch" "pc_new_ips ch = Some ips"
  defines "label \<equiv> uplink_label (k_show_ip k) (pc_receiver_host ch) (pc_receiver_port ch)"
  defines "weight \<equiv> weight_for ips (pc_new_weights ch)"
  obtains news where
    "b_conns (s_bond (apply_pending k s)) =
       map (\<lambda>c. c\<lparr> c_link_weight := weight (c_local_ip c) \<rparr>) (filter (\<lambda>c. c_label c \<in> label ` set ips) (b_conns (s_bond s))) @
       map (new_uplink k (pc_receiver_host ch) (pc_receiver_port ch) weight) news"
    "fst ` set news \<subseteq> {..<length ips}"
proof -
  define u where "u = \<lparr> ul_conns = b_conns (s_bond s), ul_io = s_io s, ul_last_selected = b_last_selected (s_bond s),
      ul_tracker = b_tracker (s_bond s) \<rparr>"
  define needed where "needed = filter (\<lambda>ip. label ip \<notin> c_label ` set (ul_conns u)) (first_seen [] ips)"
  have tr: "tracker_ok (ul_tracker u)" using assms(1) by (simp add: u_def)
  have "b_conns (s_bond (apply_pending k s)) =
      ul_conns (apply_connection_changes k ips (pc_new_weights ch) (pc_receiver_host ch) (pc_receiver_port ch) u)"
    by (simp add: apply_pending_def assms(2,3) Let_def u_def)
  also have "\<dots> = map (\<lambda>c. c\<lparr> c_link_weight := weight (c_local_ip c) \<rparr>) (filter (\<lambda>c. c_label c \<in> label ` set ips) (b_conns (s_bond s))) @
       map (new_uplink k (pc_receiver_host ch) (pc_receiver_port ch) weight) (opened k 0 needed)"
    unfolding apply_changes_result(1) remove_stale_result(1) [OF tr] by (simp add: u_def label_def weight_def needed_def)
  finally have eq: "b_conns (s_bond (apply_pending k s)) = \<dots>" .
  have "length needed \<le> length ips" unfolding needed_def by (rule le_trans [OF length_filter_le first_seen_length])
  then have "fst ` set (opened k 0 needed) \<subseteq> {..<length ips}" by (force simp: opened_def in_set_enumerate_eq)
  with eq show thesis by (rule that)
qed

lemma apply_pending_frame:
  "s_cc (apply_pending k s) = s_cc s" "b_reg (s_bond (apply_pending k s)) = b_reg (s_bond s)"
  "s_pending s = None \<or> (\<exists>ch. s_pending s = Some ch \<and> pc_new_ips ch = None) \<Longrightarrow> b_conns (s_bond (apply_pending k s)) = b_conns (s_bond s)"
  by (auto simp: apply_pending_def Let_def split: option.split)

lemma new_uplink_unstamped:
  "c_cc_target_bps (new_uplink k h q w x) = 0" "\<not> c_weak (new_uplink k h q w x)"
  "\<not> c_cc_backing_off (new_uplink k h q w x)" "\<not> c_loss_degraded (new_uplink k h q w x)" "\<not> c_connected (new_uplink k h q w x)"
  by (simp_all add: new_uplink_def new_registering_def case_prod_beta)

lemma stamped_weight [simp]: "stamped_by ctl l (c\<lparr> c_link_weight := w \<rparr>) = stamped_by ctl l c"
  by (simp add: stamped_by_def)

text \<open>
  C23: what the housekeeping tick tells the selection. Before it drains the uplink channel, the tick of any reachable state has served the
  links, run the classifier and the congestion controllers over them and applied a pending reload, if there is one. In that state there is exactly one
  controller for each link the tick began with; each of those links that is still there carries the verdict and the reason of its own entry of the
  classification, and a rate target between 100 kbit/s and 200 Mbit/s with the state and the loss verdict of its own
  controller; a link the reload has just opened is unmarked, with no target and no controller until the next tick. Without a
  pending reload the links are those the tick began with, so every one of them is stamped.
\<close>

theorem tick_stamps_every_link:
  assumes "reachable p s" "hk_env_ok h" "fresh_ids k (length (pending_ips s)) (b_conns (s_bond s))"
  shows "\<exists>t es1. on_housekeeping_tick x h k now_cc s =
       (case drain_channel x (snapshot (b_config (s_bond t))) t of (s', es2) \<Rightarrow> (s', es1 @ es2)) \<and>
     (let served = s_bond (fst (run_housekeeping h s));
          cl = fst (classify (b_conns served) (cfg_negotiated_latency_ms (snapshot (b_config served))) (s_filter s));
          ids = c_conn_id ` set (b_conns (s_bond s))
      in map lc_conn_id (cr_per_link cl) = map c_conn_id (b_conns (s_bond s)) \<and> Mapping.keys (s_cc t) = ids \<and>
         (\<forall>c \<in> set (b_conns (s_bond t)).
            if c_conn_id c \<in> ids then stamped_by (s_cc t) (cr_per_link cl) c
            else c_cc_target_bps c = 0 \<and> \<not> c_weak c \<and> \<not> c_cc_backing_off c \<and> \<not> c_loss_degraded c) \<and>
         (s_pending s = None \<longrightarrow> map c_conn_id (b_conns (s_bond t)) = map c_conn_id (b_conns (s_bond s))))"
proof -
  obtain s1 es1 where h: "run_housekeeping h s = (s1, es1)" by fastforce
  define s2 where "s2 = stamp_links (e_exp (x_env x)) now_cc s1"
  define s3 where "s3 = apply_pending k s2"
  define t where "t = s3\<lparr> s_status_elapsed_ms := status_tick (s_status_elapsed_ms s3),
      s_readers := sync_readers (b_conns (s_bond s3)) (s_io s3) (s_readers s3) \<rparr>"
  have "b_config (s_bond t) = b_config (s_bond s3)" by (simp add: t_def)
  then have tick: "on_housekeeping_tick x h k now_cc s =
      (case drain_channel x (snapshot (b_config (s_bond t))) t of (s', es2) \<Rightarrow> (s', es1 @ es2))"
    by (simp add: on_housekeeping_tick_def h Let_def s2_def [symmetric] s3_def [symmetric] t_def [symmetric])
  define cl where "cl = fst (classify (b_conns (s_bond s1)) (cfg_negotiated_latency_ms (snapshot (b_config (s_bond s1)))) (s_filter s))"
  have s1: "s_filter s1 = s_filter s" "s_pending s1 = s_pending s"
    using h by (auto simp: run_housekeeping_def Let_def split: prod.splits)
  have ids1: "map c_conn_id (b_conns (s_bond s1)) = map c_conn_id (b_conns (s_bond s))" using run_housekeeping_ids [of h s] h by simp
  then have ids: "c_conn_id ` set (b_conns (s_bond s1)) = c_conn_id ` set (b_conns (s_bond s))" by (metis list.set_map)
  note st = stamp_links_stamped [of "e_exp (x_env x)" now_cc s1, folded s2_def, unfolded s1, folded cl_def]
  have same: "sender_ok s2"
    using sender_same_ok [OF sender_same_trans [OF run_housekeeping_same [OF assms(2), of s] stamp_links_same] reachable_ok [OF assms(1)]]
    by (simp add: s2_def h)
  have old: "c_conn_id c \<in> c_conn_id ` set (b_conns (s_bond s)) \<and> stamped_by (s_cc s2) (cr_per_link cl) c" if "c \<in> set (b_conns (s_bond s2))" for c
  proof -
    have "c_conn_id ` set (b_conns (s_bond s2)) = c_conn_id ` set (b_conns (s_bond s))" using st(2) ids1 by (metis list.set_map)
    then show ?thesis using st(1) that by (auto simp: list_all_iff)
  qed
  have conns: "(\<forall>c \<in> set (b_conns (s_bond s3)). if c_conn_id c \<in> c_conn_id ` set (b_conns (s_bond s))
        then stamped_by (s_cc s2) (cr_per_link cl) c
        else c_cc_target_bps c = 0 \<and> \<not> c_weak c \<and> \<not> c_cc_backing_off c \<and> \<not> c_loss_degraded c)"
  proof (cases "\<exists>ch ips. s_pending s2 = Some ch \<and> pc_new_ips ch = Some ips")
    case True
    then obtain ch ips where ch: "s_pending s2 = Some ch" "pc_new_ips ch = Some ips" by blast
    have tr: "tracker_ok (b_tracker (s_bond s2))" using same by (simp add: sender_ok_def bond_ok_def)
    define P where "P = (\<lambda>c :: SrtlaConnection. c_label c \<in> uplink_label (k_show_ip k) (pc_receiver_host ch) (pc_receiver_port ch) ` set ips)"
    define g where "g = weight_for ips (pc_new_weights ch)"
    obtain news where r: "b_conns (s_bond s3) = map (\<lambda>c. c\<lparr> c_link_weight := g (c_local_ip c) \<rparr>) (filter P (b_conns (s_bond s2))) @
        map (new_uplink k (pc_receiver_host ch) (pc_receiver_port ch) g) news" "fst ` set news \<subseteq> {..<length ips}"
      by (rule apply_pending_reload [OF tr ch, of k]) (simp add: s3_def P_def g_def)
    have "pending_ips s = ips" using ch st(4) s1 by (simp add: pending_ips_def)
    then have "c_conn_id c \<notin> c_conn_id ` set (b_conns (s_bond s))"
      if "c \<in> set (map (new_uplink k (pc_receiver_host ch) (pc_receiver_port ch) g) news)" for c
      using that r(2) assms(3) by (fastforce simp: fresh_ids_def new_uplink_good)
    then show ?thesis
      using old by (auto simp: r(1) new_uplink_unstamped)
  next
    case False
    then have "s_pending s2 = None \<or> (\<exists>ch. s_pending s2 = Some ch \<and> pc_new_ips ch = None)" by (cases "s_pending s2") auto
    from apply_pending_frame(3) [OF this, of k] show ?thesis using old by (simp add: s3_def)
  qed
  have "s_pending s = None \<longrightarrow> map c_conn_id (b_conns (s_bond t)) = map c_conn_id (b_conns (s_bond s))"
    using apply_pending_frame(3) [of s2 k] st(2,4) ids1 s1 by (simp add: t_def s3_def)
  moreover have "map lc_conn_id (cr_per_link cl) = map c_conn_id (b_conns (s_bond s))"
    using classify_ids [of "b_conns (s_bond s1)"] ids1 by (simp add: cl_def)
  moreover have "Mapping.keys (s_cc t) = c_conn_id ` set (b_conns (s_bond s))" using st(3) ids by (simp add: t_def s3_def apply_pending_frame)
  ultimately show ?thesis
    using tick conns by (intro exI [of _ t] exI [of _ es1]) (simp add: h cl_def [symmetric] Let_def t_def s3_def apply_pending_frame(1))
qed

theorem tick_stamps_every_link_witness:
  "\<forall>x. \<exists>t es1. on_housekeeping_tick x demo_housekeeping demo_connect 20 demo_sender =
     (case drain_channel x (snapshot (b_config (s_bond t))) t of (s', es2) \<Rightarrow> (s', es1 @ es2)) \<and>
   Mapping.keys (s_cc t) = c_conn_id ` set (b_conns (s_bond demo_sender))"
proof -
  have "s_pending demo_sender = None"
    unfolding demo_sender_def sender_start_def demo_ips
    by (simp add: create_connections_from_ips_def connect_uplink_def demo_start_def demo_connect_def case_prod_beta Let_def run_housekeeping_def)
  then have "fresh_ids demo_connect (length (pending_ips demo_sender)) (b_conns (s_bond demo_sender))"
    by (simp add: pending_ips_def fresh_ids_def)
  moreover have "hk_env_ok demo_housekeeping" by (simp add: hk_env_ok_def demo_housekeeping_def)
  ultimately show ?thesis
    using tick_stamps_every_link [OF demo_reachable, of demo_housekeeping demo_connect _ 20] unfolding Let_def by metis
qed

section \<open>A reload and the grants\<close>

lemma position_unique:
  "distinct (map f xs) \<Longrightarrow> i < length xs \<Longrightarrow> position (\<lambda>x. f x = f (xs ! i)) (xs @ ys) = Some i"
proof (induction xs arbitrary: i)
  case (Cons x xs)
  then show ?case by (cases i) auto
qed simp

lemma filter_index:
  assumes "i < length xs" "P (xs ! i)"
  shows "filter P xs ! length (filter P (take i xs)) = xs ! i" "length (filter P (take i xs)) < length (filter P xs)"
proof -
  have xs: "filter P xs = filter P (take i xs) @ xs ! i # filter P (drop (Suc i) xs)"
    using id_take_nth_drop [OF assms(1)] assms(2) by (metis filter.simps(2) filter_append)
  show "filter P xs ! length (filter P (take i xs)) = xs ! i" "length (filter P (take i xs)) < length (filter P xs)"
    unfolding xs by simp_all
qed

text \<open>A REG3 on the link at position \<open>i\<close>: accepted if that position holds a grant, otherwise only counted.\<close>

lemma handle_uplink_reg3:
  assumes "get_packet_type (up_bytes packet) = Some SRTLA_TYPE_REG3"
    and "position (\<lambda>c. c_conn_id c = up_conn_id packet) (b_conns b) = Some i" "i < length (b_conns b)"
  shows "b_conns (fst (handle_uplink_packet env config packet b)) =
      (b_conns b)[i := if i \<in> set (rm_awaiting_reg3 (b_reg b)) then accept_reg3 (e_now env) (b_conns b ! i)
                      else refresh_liveness (e_now env) (b_conns b ! i)]"
    and "b_reg (fst (handle_uplink_packet env config packet b)) =
      snd (process_registration_packet i (up_bytes packet) (e_now env) (b_reg b))"
proof -
  have "up_bytes packet \<noteq> []" using assms(1) by (auto simp: get_packet_type_def)
  then show "b_conns (fst (handle_uplink_packet env config packet b)) =
      (b_conns b)[i := if i \<in> set (rm_awaiting_reg3 (b_reg b)) then accept_reg3 (e_now env) (b_conns b ! i)
                      else refresh_liveness (e_now env) (b_conns b ! i)]"
    "b_reg (fst (handle_uplink_packet env config packet b)) =
      snd (process_registration_packet i (up_bytes packet) (e_now env) (b_reg b))"
    using assms
    by (simp_all add: handle_uplink_packet_def process_uplink_packet_def process_reg3 send_immediate_reg1_def
        process_connection_events_def SrtlaIncoming_default_def protocol_consts Let_def)
qed

definition reload_keeps :: "ConnectEnv \<Rightarrow> PendingConnectionChanges \<Rightarrow> IpAddr list \<Rightarrow> SrtlaConnection \<Rightarrow> bool" where
  "reload_keeps k ch ips c \<longleftrightarrow> c_label c \<in> uplink_label (k_show_ip k) (pc_receiver_host ch) (pc_receiver_port ch) ` set ips"

text \<open>C39: registration grants are kept by position, and a reload does not move them. Take any bond with a reload pending in which one
  link alone waits for its REG3, and in which the reload keeps that link and removes one before it. Before the
  reload, the REG3 of that link completes its registration. Applied by the tick, the reload moves the link to an earlier position and leaves the grant
  where it was: the same REG3, arriving on the same link, is then refused and counted as out of phase, and the link stays unregistered.
\<close>

theorem reload_misplaces_grant:
  assumes "b_conns (s_bond s) = conns" "distinct (map c_conn_id conns)" "tracker_ok (b_tracker (s_bond s))"
    and "s_pending s = Some ch" "pc_new_ips ch = Some ips"
    and "i < length conns" "\<not> c_connected (conns ! i)" "reload_keeps k ch ips (conns ! i)" "j < i" "\<not> reload_keeps k ch ips (conns ! j)"
    and "set (rm_awaiting_reg3 (b_reg (s_bond s))) = {i}"
    and "up_conn_id packet = c_conn_id (conns ! i)" "get_packet_type (up_bytes packet) = Some SRTLA_TYPE_REG3"
  shows "c_connected (b_conns (fst (handle_uplink_packet env config packet (s_bond s))) ! i) \<and>
    (\<exists>i' < i. let b = s_bond (apply_pending k s); b' = fst (handle_uplink_packet env config packet b) in
       c_conn_id (b_conns b ! i') = c_conn_id (conns ! i) \<and> c_conn_id (b_conns b' ! i') = c_conn_id (conns ! i) \<and>
       \<not> c_connected (b_conns b' ! i') \<and>
       oop_reg3 (rm_out_of_phase (b_reg b')) = u64_saturating_add (oop_reg3 (rm_out_of_phase (b_reg (s_bond s)))) 1)"
proof -
  let ?P = "reload_keeps k ch ips"
  define b where "b = s_bond (apply_pending k s)"
  define i' where "i' = length (filter ?P (take i conns))"
  define w where "w = (\<lambda>c :: SrtlaConnection. weight_for ips (pc_new_weights ch) (c_local_ip c))"
  obtain news where bc: "b_conns b = map (\<lambda>c. c\<lparr> c_link_weight := w c \<rparr>) (filter ?P conns) @
      map (new_uplink k (pc_receiver_host ch) (pc_receiver_port ch) (weight_for ips (pc_new_weights ch))) news"
    by (rule apply_pending_reload [OF assms(3-5), of k]) (simp add: b_def w_def assms(1) reload_keeps_def [abs_def])
  let ?kept = "map (\<lambda>c. c\<lparr> c_link_weight := w c \<rparr>) (filter ?P conns)"
  note idx = filter_index [of i conns ?P, folded i'_def, OF assms(6,8)]
  have "conns ! j \<in> set (take i conns)" using assms(6,9) by (auto simp: in_set_conv_nth intro!: exI [of _ j])
  then have "i' < length (take i conns)" unfolding i'_def using assms(10) by (intro length_filter_less)
  then have less: "i' < i" using assms(6) by simp
  have at: "i' < length ?kept" "c_conn_id (?kept ! i') = c_conn_id (conns ! i)" "\<not> c_connected (?kept ! i')"
    using idx assms(7) by simp_all
  have ids: "map c_conn_id ?kept = map c_conn_id (filter ?P conns)" by simp
  then have dist: "distinct (map c_conn_id ?kept)" using assms(2) by (simp only: ids distinct_map_filter)
  have pos: "position (\<lambda>c. c_conn_id c = up_conn_id packet) (b_conns b) = Some i'"
    unfolding bc assms(12) at(2) [symmetric] by (rule position_unique [OF dist at(1)])
  have len: "i' < length (b_conns b)" using at(1) unfolding bc length_append by (rule trans_less_add1)
  have nth: "b_conns b ! i' = ?kept ! i'" unfolding bc nth_append using at(1) by simp
  have reg: "b_reg b = b_reg (s_bond s)" by (simp add: b_def apply_pending_frame)
  have "position (\<lambda>c. c_conn_id c = up_conn_id packet) (b_conns (s_bond s)) = Some i"
    using position_unique [OF assms(2,6), of "[]"] assms(12) by (simp add: assms(1))
  from handle_uplink_reg3 [OF assms(13) this] assms(1,6,11)
  have before: "c_connected (b_conns (fst (handle_uplink_packet env config packet (s_bond s))) ! i)"
    by (simp add: accept_reg3_def mark_reconnect_success_def Let_def)
  have "i' \<notin> set (rm_awaiting_reg3 (b_reg b))" using less by (simp add: reg assms(11))
  with handle_uplink_reg3 [OF assms(13) pos len, of env config]
  have "b_conns (fst (handle_uplink_packet env config packet b)) ! i' = refresh_liveness (e_now env) (?kept ! i')"
    "oop_reg3 (rm_out_of_phase (b_reg (fst (handle_uplink_packet env config packet b)))) =
       u64_saturating_add (oop_reg3 (rm_out_of_phase (b_reg (s_bond s)))) 1"
    using len by (simp_all add: nth process_reg3 [OF assms(13)] reg del: nth_map)
  then have "c_conn_id (b_conns (fst (handle_uplink_packet env config packet b)) ! i') = c_conn_id (conns ! i)"
    "\<not> c_connected (b_conns (fst (handle_uplink_packet env config packet b)) ! i')"
    using at(2,3) by (simp_all add: refresh_liveness_def del: nth_map)
  with before less nth at(2) \<open>oop_reg3 _ = _\<close> show ?thesis
    unfolding b_def [symmetric] Let_def by (intro conjI exI [of _ i']) simp_all
qed

text \<open>Two links; the second one has sent its REG2 and waits for the REG3, under its position 1, and a reload keeps that link only.\<close>

definition waiting_sender :: Sender where
  "waiting_sender = demo_sender\<lparr> s_bond := (s_bond demo_sender)
     \<lparr> b_conns := [new_registering 7 ''h:5 via a'' (V4 1) 0, new_registering 8 ''h:5 via b'' (V4 2) 0],
       b_reg := (RegistrationManager_new (replicate 256 1) (replicate 256 2))\<lparr> rm_awaiting_reg3 := [1] \<rparr> \<rparr>,
     s_pending := Some \<lparr> pc_new_ips = Some [V4 2], pc_new_weights = [1], pc_receiver_host = ''h'', pc_receiver_port = 5 \<rparr> \<rparr>"

lemma show_5: "show_nat 5 = ''5''"
  by (simp add: show_nat.simps char_of_def bit_Suc_0_iff)

theorem reload_misplaces_grant_witness:
  "\<forall>env config. c_connected (b_conns (fst (handle_uplink_packet env config
     \<lparr> up_conn_id = 8, up_bytes = reg3_reply \<rparr> (s_bond waiting_sender))) ! 1) \<and>
   \<not> c_connected (b_conns (fst (handle_uplink_packet env config
     \<lparr> up_conn_id = 8, up_bytes = reg3_reply \<rparr> (s_bond (apply_pending demo_connect waiting_sender)))) ! 0)"
proof -
  have "tracker_ok (b_tracker (s_bond waiting_sender))"
    using reachable_ok [OF demo_reachable] by (simp add: waiting_sender_def sender_ok_def bond_ok_def)
  note r = reload_misplaces_grant [OF refl _ this, of "\<lparr> pc_new_ips = Some [V4 2], pc_new_weights = [1], pc_receiver_host = ''h'', pc_receiver_port = 5 \<rparr>"
      "[V4 2]" 1 demo_connect 0 "\<lparr> up_conn_id = 8, up_bytes = reg3_reply \<rparr>"]
  show ?thesis
    using r by (simp add: waiting_sender_def reload_keeps_def demo_connect_def uplink_label_def show_5 Let_def
        new_registering_def RegistrationManager_new_def)
qed

section \<open>One pass is bounded\<close>

text \<open>Handling packets one after another, each with its surroundings and the configuration it is handled under.\<close>

fun handle_all :: "(Env \<times> ConfigSnapshot \<times> UplinkPacket) list \<Rightarrow> Bond \<Rightarrow> Bond \<times> effect list" where
  "handle_all [] b = (b, [])"
| "handle_all ((env, config, packet) # ps) b =
     (case handle_uplink_packet env config packet b of
        (b1, es1) \<Rightarrow> (case handle_all ps b1 of (b2, es2) \<Rightarrow> (b2, es1 @ es2)))"

lemma handle_all_append:
  "handle_all (ps @ qs) b = (case handle_all ps b of (b1, es1) \<Rightarrow> (case handle_all qs b1 of (b2, es2) \<Rightarrow> (b2, es1 @ es2)))"
proof (induction ps arbitrary: b)
  case (Cons a ps)
  then show ?case by (cases a) (simp add: case_prod_beta)
qed simp

text \<open>The surroundings one pass of the loop gives to the packets it drains.\<close>

definition pass_envs :: "IoMap \<Rightarrow> Pass \<times> ConfigSnapshot \<Rightarrow> (Env \<times> ConfigSnapshot) list" where
  "pass_envs io xc = map (\<lambda>i. (shell_env io (x_send (fst xc)) (x_drain (fst xc) i), snd xc)) [0..<64]"

definition with_envs :: "(Env \<times> ConfigSnapshot) list \<Rightarrow> UplinkPacket list \<Rightarrow> (Env \<times> ConfigSnapshot \<times> UplinkPacket) list" where
  "with_envs envs packets = map (\<lambda>((env, config), packet). (env, config, packet)) (zip envs packets)"

lemma drain_loop_handles:
  "drain_loop n config queue b =
     (case handle_all (map (\<lambda>(env, packet). (env, config, packet)) (take n queue)) b of (b', es) \<Rightarrow> (b', es, drop n queue))"
proof (induction n config queue b rule: drain_loop.induct)
  case (3 n config env packet queue b)
  obtain b1 es where h: "handle_uplink_packet env config packet b = (b1, es)" by fastforce
  show ?case using 3 [OF h [symmetric]] by (simp add: h case_prod_beta)
qed simp_all

lemma drain_items:
  "map (\<lambda>(env, packet). (env, config, packet)) (take 64 (zip (map f [0..<length queue]) queue)) =
   with_envs (map (\<lambda>i. (f i, config)) [0..<64]) (take 64 queue)"
  by (rule nth_equalityI) (auto simp: with_envs_def)

lemma drain_channel_handles:
  "drain_channel x config s =
     (case handle_all (with_envs (pass_envs (s_io s) (x, config)) (take 64 (s_queue s))) (s_bond s) of
        (b, es) \<Rightarrow> (s\<lparr> s_bond := b, s_queue := drop 64 (s_queue s) \<rparr>, es))"
  unfolding drain_channel_def drain_packet_queue_def drain_loop_handles MAX_DRAIN_PACKETS_def Let_def drain_items pass_envs_def
  by (simp add: case_prod_beta drop_map [symmetric] flip: drop_map)

text \<open>Successive drains of the channel, while nothing new arrives.\<close>

fun drain_passes :: "(Pass \<times> ConfigSnapshot) list \<Rightarrow> Sender \<Rightarrow> Sender \<times> effect list" where
  "drain_passes [] s = (s, [])"
| "drain_passes ((x, config) # xs) s =
     (case drain_channel x config s of (s1, es1) \<Rightarrow> (case drain_passes xs s1 of (s2, es2) \<Rightarrow> (s2, es1 @ es2)))"

lemma with_envs_append:
  "length envs = 64 \<Longrightarrow> with_envs (envs @ envs2) queue = with_envs envs (take 64 queue) @ with_envs envs2 (drop 64 queue)"
  by (simp add: with_envs_def zip_append1)

text \<open>
  C36: a pass of the loop cannot be held up by a flood of uplink packets, and loses none. Draining the channel once handles the first 64 packets in
  it, or all there are if fewer, one after another in the order of the channel, each with the effects and the state its handler gives, leaves the others queued, in order
  and untouched, and changes nothing else. Drained repeatedly, with any surroundings and configuration in each pass, a channel of any length is handled completely and in order:
  the state and the effects are those of handling its packets one by one, and it is empty after as many passes as its length
  divided by 64, rounded up.
\<close>

theorem drain_bounded:
  "drain_channel x config s =
     (case handle_all (with_envs (pass_envs (s_io s) (x, config)) (take 64 (s_queue s))) (s_bond s) of
        (b, es) \<Rightarrow> (s\<lparr> s_bond := b, s_queue := drop 64 (s_queue s) \<rparr>, es)) \<and>
   drain_passes xs s =
     (case handle_all (with_envs (concat (map (pass_envs (s_io s)) xs)) (s_queue s)) (s_bond s) of
        (b, es) \<Rightarrow> (s\<lparr> s_bond := b, s_queue := drop (64 * length xs) (s_queue s) \<rparr>, es))"
proof
  show "drain_passes xs s =
     (case handle_all (with_envs (concat (map (pass_envs (s_io s)) xs)) (s_queue s)) (s_bond s) of
        (b, es) \<Rightarrow> (s\<lparr> s_bond := b, s_queue := drop (64 * length xs) (s_queue s) \<rparr>, es))"
  proof (induction xs arbitrary: s)
    case Nil
    then show ?case by (simp add: with_envs_def)
  next
    case (Cons xc xs)
    obtain x config where xc: "xc = (x, config)" by fastforce
    have len: "length (pass_envs (s_io s) (x, config)) = 64" by (simp add: pass_envs_def)
    show ?case
      by (simp add: xc drain_channel_handles Cons with_envs_append [OF len] handle_all_append case_prod_beta add.commute)
  qed
qed (rule drain_channel_handles)

section \<open>The configuration\<close>

definition config_ok :: "DynamicConfig \<Rightarrow> bool" where
  "config_ok c \<longleftrightarrow> mode_as_u8 (mode_from_u8 (dc_mode c)) = dc_mode c \<and> CONN_TIMEOUT_MS_MIN \<le> dc_conn_timeout_ms c \<and>
     dc_conn_timeout_ms c \<le> CONN_TIMEOUT_MS_MAX"

interpretation config_machine: machine "\<lambda>c e. run_setter e c" "\<lambda>_. True" config_ok
proof
  fix c e
  assume "config_ok c"
  then show "config_ok (run_setter e c)"
    using clamp_conn_timeout_range
    by (cases e) (auto simp: config_ok_def set_mode_def set_quality_enabled_def set_stall_deselect_def set_conn_timeout_ms_def Let_def
        mode_u8_roundtrip CONN_TIMEOUT_MS_MIN_def CONN_TIMEOUT_MS_MAX_def)
qed

text \<open>The shared configuration stays well-formed. From the command line and through any sequence of runtime
  changes, the mode byte always decodes to the mode it encodes and the liveness timeout lies between one
  second and one minute, whatever values were asked for; what the data path reads after a change of the mode is that mode.
\<close>

theorem config_well_formed:
  "case foldl (\<lambda>c e. run_setter e c) (from_cli mode nq ns mif stale timeout nr) cmds of c \<Rightarrow>
     mode_as_u8 (cfg_mode (snapshot c)) = dc_mode c \<and> 1000 \<le> cfg_conn_timeout_ms (snapshot c) \<and>
     cfg_conn_timeout_ms (snapshot c) \<le> 60000 \<and> cfg_mode (snapshot (run_setter (SetMode m) c)) = m"
proof -
  have "config_ok (from_cli mode nq ns mif stale timeout nr)"
    using clamp_conn_timeout_range
    by (simp add: config_ok_def from_cli_def mode_u8_roundtrip CONN_TIMEOUT_MS_MIN_def CONN_TIMEOUT_MS_MAX_def)
  from config_machine.run_inv [OF this, of cmds] show ?thesis
    by (simp add: config_ok_def snapshot_def set_mode_def mode_u8_roundtrip CONN_TIMEOUT_MS_MIN_def CONN_TIMEOUT_MS_MAX_def
        list_all_iff)
qed

end
