(* ===== verification/Statistics.thy ===== *)
theory Statistics
  imports Sender_Invariant
begin

text \<open>
  The statistics snapshot (\<^verbatim>\<open>src/stats.rs\<close>): what the sender reports about each link and about the bond after every
  housekeeping tick, to control connections, subscribers and the metrics endpoint. The shared cell behind the lock is
  its last value; a lock is never poisoned, since no code panics while holding it.
\<close>

record LinkStats =
  lk_ip :: IpAddr
  lk_label :: string
  lk_connected :: bool
  lk_timed_out :: bool
  lk_window :: i32
  lk_in_flight :: i32
  lk_rtt_ms :: nat
  lk_nak_count :: i32
  lk_bitrate_bytes_per_sec :: nat
  lk_rtt_min_ms :: f64
  lk_rtt_velocity :: f64
  lk_base_score :: i32
  lk_quality_multiplier :: f64
  lk_weak :: bool
  lk_weak_reason :: string
  lk_weak_share_permille :: nat
  lk_weak_threshold_permille :: nat
  lk_cc_state :: string
  lk_cc_climb_mode :: string
  lk_cc_target_bps :: u64
  lk_cc_rtt_ewma_ms :: f64
  lk_cc_rtt_var_ms :: f64
  lk_cc_rtt_min_ms :: f64
  lk_cc_loss_permille :: nat
  lk_cc_loss_ewma :: f64
  lk_cc_loss_degraded :: bool
  lk_batch_regime :: string
  lk_stall_gated :: bool
  lk_stall_gate_events :: u64
  lk_weight :: u8
  lk_silence_pulls :: u64
  lk_sole_carrier :: bool
  lk_sole_carrier_excluded :: bool
  lk_sole_carrier_elections :: u64
  lk_in_flight_cap_packets :: nat
  lk_in_flight_cap_active :: bool

record StatsSnapshot =
  sn_mode :: string
  sn_quality_enabled :: bool
  sn_active_links :: nat
  sn_total_links :: nat
  sn_total_window :: i32
  sn_total_in_flight :: i32
  sn_weak_link_estimated_max_delay_ms :: nat
  sn_weak_link_selected_delay_ms :: nat
  sn_negotiated_latency_ms :: nat
  sn_links :: "LinkStats list"

definition StatsSnapshot_default :: StatsSnapshot where
  "StatsSnapshot_default =
     \<lparr> sn_mode = ''enhanced'', sn_quality_enabled = True, sn_active_links = 0, sn_total_links = 0, sn_total_window = 0,
       sn_total_in_flight = 0, sn_weak_link_estimated_max_delay_ms = 0, sn_weak_link_selected_delay_ms = 0,
       sn_negotiated_latency_ms = 0, sn_links = [] \<rparr>"

definition weak_reason_str :: "WeakReason \<Rightarrow> string" where
  "weak_reason_str reason =
     (case reason of Healthy \<Rightarrow> ''healthy'' | HighRtt \<Rightarrow> ''high_rtt'' | QueueBuilding \<Rightarrow> ''queue_building''
      | NoTraffic \<Rightarrow> ''no_traffic'' | LowShare \<Rightarrow> ''low_share'' | Bypassed \<Rightarrow> ''bypassed'')"

definition cc_state_str :: "CcState \<Rightarrow> string" where
  "cc_state_str st =
     (case st of Bootstrap \<Rightarrow> ''bootstrap'' | Climbing \<Rightarrow> ''climbing'' | Holding \<Rightarrow> ''holding''
      | BackingOff \<Rightarrow> ''backing_off'' | Drain \<Rightarrow> ''drain'')"

definition climb_mode_str :: "ClimbMode \<Rightarrow> string" where
  "climb_mode_str cm =
     (case cm of ClimbMode.Normal \<Rightarrow> ''normal'' | Hai \<Rightarrow> ''hai'' | FastRecovery \<Rightarrow> ''fast_recovery'')"

text \<open>The entry of one link. The exponential of the quality decay is an argument, as everywhere.\<close>

definition link_stats ::
  "(f64 \<Rightarrow> f64) \<Rightarrow> u64 \<Rightarrow> bool \<Rightarrow> ClassificationResult option \<Rightarrow> (u64, LinkCcSnapshot) mapping option \<Rightarrow>
   SrtlaConnection \<Rightarrow> LinkStats"
where
  "link_stats exp_f current_time_ms quality_enabled classification link_cc conn =
     (let weak_entry = Option.bind classification (\<lambda>c. find (\<lambda>e. lc_conn_id e = c_conn_id conn) (cr_per_link c));
          cc_entry = Option.bind link_cc (\<lambda>m. Mapping.lookup m (c_conn_id conn));
          cc_target = (case cc_entry of Some s \<Rightarrow> snap_target_bps s | None \<Rightarrow> 0);
          cap = in_flight_cap_packets cc_target (Rtt.rtt_min_ms (c_rtt conn))
      in \<lparr> lk_ip = c_local_ip conn, lk_label = c_label conn, lk_connected = c_connected conn,
           lk_timed_out = is_timed_out current_time_ms conn, lk_window = c_window conn,
           lk_in_flight = c_in_flight_packets conn, lk_rtt_ms = fl_to_u32 (get_smooth_rtt_ms conn),
           lk_nak_count = total_nak_count conn,
           lk_bitrate_bytes_per_sec =
             fl_to_u32 (f64_div (f64_mul (bitrate_mbps (c_bitrate conn)) (f64_of_rat 1000000)) (f64_of_rat 8)),
           lk_rtt_min_ms = Rtt.rtt_min_ms (c_rtt conn), lk_rtt_velocity = get_rtt_velocity conn, lk_base_score = get_score conn,
           lk_quality_multiplier =
             (if quality_enabled then calculate_quality_multiplier exp_f conn current_time_ms else Fin 1),
           lk_weak = (case weak_entry of Some e \<Rightarrow> lc_weak e | None \<Rightarrow> False),
           lk_weak_reason = (case weak_entry of Some e \<Rightarrow> weak_reason_str (lc_reason e) | None \<Rightarrow> ''unknown''),
           lk_weak_share_permille = (case weak_entry of Some e \<Rightarrow> lc_share_permille e | None \<Rightarrow> 0),
           lk_weak_threshold_permille = (case weak_entry of Some e \<Rightarrow> lc_threshold_permille e | None \<Rightarrow> 0),
           lk_cc_state = (case cc_entry of Some s \<Rightarrow> cc_state_str (snap_state s) | None \<Rightarrow> ''unknown''),
           lk_cc_climb_mode = (case cc_entry of Some s \<Rightarrow> climb_mode_str (snap_climb_mode s) | None \<Rightarrow> ''normal''),
           lk_cc_target_bps = cc_target,
           lk_cc_rtt_ewma_ms = (case cc_entry of Some s \<Rightarrow> snap_rtt_ewma_ms s | None \<Rightarrow> Fin 0),
           lk_cc_rtt_var_ms = (case cc_entry of Some s \<Rightarrow> snap_rtt_var_ms s | None \<Rightarrow> Fin 0),
           lk_cc_rtt_min_ms = (case cc_entry of Some s \<Rightarrow> snap_rtt_min_ms s | None \<Rightarrow> Fin 0),
           lk_cc_loss_permille = (case cc_entry of Some s \<Rightarrow> snap_loss_permille s | None \<Rightarrow> 0),
           lk_cc_loss_ewma = (case cc_entry of Some s \<Rightarrow> snap_loss_ewma s | None \<Rightarrow> Fin 0),
           lk_cc_loss_degraded = (case cc_entry of Some s \<Rightarrow> snap_loss_degraded s | None \<Rightarrow> False),
           lk_batch_regime = regime_as_str (bs_regime (c_batch_sender conn)), lk_stall_gated = stall_latched conn,
           lk_stall_gate_events = c_stall_gate_events conn, lk_weight = c_link_weight conn,
           lk_silence_pulls = c_silence_pulls conn, lk_sole_carrier = c_sole_carrier conn,
           lk_sole_carrier_excluded = c_sole_carrier_excluded conn,
           lk_sole_carrier_elections = c_sole_carrier_elections conn,
           lk_in_flight_cap_packets = nat (max (case cap of Some c \<Rightarrow> c | None \<Rightarrow> 0) 0),
           lk_in_flight_cap_active = (case cap of Some c \<Rightarrow> c_in_flight_packets conn > c | None \<Rightarrow> False) \<rparr>)"

definition add_link ::
  "(f64 \<Rightarrow> f64) \<Rightarrow> u64 \<Rightarrow> bool \<Rightarrow> ClassificationResult option \<Rightarrow> (u64, LinkCcSnapshot) mapping option \<Rightarrow>
   SrtlaConnection \<Rightarrow> StatsSnapshot \<Rightarrow> StatsSnapshot"
where
  "add_link exp_f current_time_ms quality_enabled classification link_cc conn snap =
     (let link = link_stats exp_f current_time_ms quality_enabled classification link_cc conn;
          snap1 = (if c_connected conn \<and> \<not> is_timed_out current_time_ms conn
                   then snap\<lparr> sn_active_links := sn_active_links snap + 1,
                              sn_total_window := i32_add (sn_total_window snap) (c_window conn),
                              sn_total_in_flight := i32_add (sn_total_in_flight snap) (c_in_flight_packets conn) \<rparr>
                   else snap)
      in snap1\<lparr> sn_links := sn_links snap1 @ [link] \<rparr>)"

definition stats_update ::
  "(f64 \<Rightarrow> f64) \<Rightarrow> u64 \<Rightarrow> SrtlaConnection list \<Rightarrow> ConfigSnapshot \<Rightarrow> ClassificationResult option \<Rightarrow>
   (u64, LinkCcSnapshot) mapping option \<Rightarrow> StatsSnapshot"
where
  "stats_update exp_f current_time_ms connections config classification link_cc =
     (let quality_enabled = (cfg_quality_enabled config \<and> \<not> is_classic (cfg_mode config));
          snapshot = StatsSnapshot_default\<lparr> sn_mode := mode_fmt (cfg_mode config), sn_quality_enabled := quality_enabled,
            sn_total_links := length connections,
            sn_weak_link_estimated_max_delay_ms := (case classification of Some c \<Rightarrow> cr_estimated_max_delay_ms c | None \<Rightarrow> 0),
            sn_weak_link_selected_delay_ms := (case classification of Some c \<Rightarrow> cr_selected_delay_ms c | None \<Rightarrow> 0),
            sn_negotiated_latency_ms := cfg_negotiated_latency_ms config \<rparr>
      in fold (add_link exp_f current_time_ms quality_enabled classification link_cc) connections snapshot)"

text \<open>The snapshot a housekeeping tick publishes: classification, controllers, stamping, then the update.\<close>

definition tick_stats :: "(f64 \<Rightarrow> f64) \<Rightarrow> u64 \<Rightarrow> u64 \<Rightarrow> Sender \<Rightarrow> StatsSnapshot" where
  "tick_stats exp_f now_cc now_stats s =
     (let conns = b_conns (s_bond s); config = snapshot (b_config (s_bond s)) in
      case classify conns (cfg_negotiated_latency_ms config) (s_filter s) of
        (classification, _) \<Rightarrow>
          (case tick_all exp_f now_cc conns (s_cc s) of
             (snaps, _) \<Rightarrow>
               stats_update exp_f now_stats (b_conns (s_bond (stamp_links exp_f now_cc s))) config (Some classification) (Some snaps)))"

section \<open>The report is what the scheduler acts on\<close>

definition reported_live :: "u64 \<Rightarrow> SrtlaConnection \<Rightarrow> bool" where
  "reported_live now c \<longleftrightarrow> c_connected c \<and> \<not> is_timed_out now c"

lemma i32_add_wrap: "i32_add (i32_wrap a) b = i32_wrap (a + b)"
proof -
  have "i32_add (i32_wrap a) b = ((a + 2 ^ 31) mod 2 ^ 32 + b) mod 2 ^ 32 - 2 ^ 31"
    by (simp add: i32_add_def i32_wrap_def)
  also have "\<dots> = i32_wrap (a + b)" unfolding i32_wrap_def mod_add_left_eq by (simp add: algebra_simps)
  finally show ?thesis .
qed

lemma add_link_live:
  "reported_live now c \<Longrightarrow> add_link exp_f now qe cl cc c snap =
     snap\<lparr> sn_active_links := sn_active_links snap + 1, sn_total_window := i32_add (sn_total_window snap) (c_window c),
           sn_total_in_flight := i32_add (sn_total_in_flight snap) (c_in_flight_packets c),
           sn_links := sn_links snap @ [link_stats exp_f now qe cl cc c] \<rparr>"
  by (simp add: add_link_def reported_live_def Let_def)

lemma add_link_idle:
  "\<not> reported_live now c \<Longrightarrow> add_link exp_f now qe cl cc c snap =
     snap\<lparr> sn_links := sn_links snap @ [link_stats exp_f now qe cl cc c] \<rparr>"
  by (auto simp: add_link_def reported_live_def Let_def)

lemma fold_add_link:
  "sn_total_window snap = i32_wrap w \<Longrightarrow> sn_total_in_flight snap = i32_wrap q \<Longrightarrow>
   fold (add_link exp_f now qe cl cc) conns snap =
     snap\<lparr> sn_active_links := sn_active_links snap + length (filter (reported_live now) conns),
           sn_total_window := i32_wrap (w + sum_list (map c_window (filter (reported_live now) conns))),
           sn_total_in_flight := i32_wrap (q + sum_list (map c_in_flight_packets (filter (reported_live now) conns))),
           sn_links := sn_links snap @ map (link_stats exp_f now qe cl cc) conns \<rparr>"
proof (induction conns arbitrary: snap w q)
  case Nil
  then show ?case by (cases snap) simp
next
  case (Cons c conns)
  show ?case
  proof (cases "reported_live now c")
    case True
    then show ?thesis
      using Cons.IH [of "add_link exp_f now qe cl cc c snap" "w + c_window c" "q + c_in_flight_packets c"] Cons.prems
      by (simp add: add_link_live i32_add_wrap add.assoc)
  next
    case False
    then show ?thesis
      using Cons.IH [of "add_link exp_f now qe cl cc c snap" w q] Cons.prems by (simp add: add_link_idle)
  qed
qed

lemma window_sum_bounds:
  "list_all (\<lambda>c. window_ok (c_window c)) conns \<Longrightarrow>
   0 \<le> sum_list (map c_window conns) \<and> sum_list (map c_window conns) \<le> 60000 * int (length conns)"
  by (induction conns) (auto simp: window_ok_iff)

lemma zero_wrap: "(0 :: int) = i32_wrap 0"
  by (simp add: i32_wrap_def)

lemma stats_update_result:
  assumes "list_all (\<lambda>c. window_ok (c_window c)) conns" "length conns \<le> 30000"
  shows "sn_total_links (stats_update exp_f now conns config cl cc) = length conns"
    and "sn_active_links (stats_update exp_f now conns config cl cc) = length (filter (reported_live now) conns)"
    and "sn_total_window (stats_update exp_f now conns config cl cc) = sum_list (map c_window (filter (reported_live now) conns))"
    and "sn_total_in_flight (stats_update exp_f now conns config cl cc) =
      i32_wrap (sum_list (map c_in_flight_packets (filter (reported_live now) conns)))"
    and "sn_links (stats_update exp_f now conns config cl cc) =
      map (link_stats exp_f now (cfg_quality_enabled config \<and> \<not> is_classic (cfg_mode config)) cl cc) conns"
proof -
  let ?live = "filter (reported_live now) conns"
  have "list_all (\<lambda>c. window_ok (c_window c)) ?live" using assms(1) by (simp add: list_all_iff)
  from window_sum_bounds [OF this] have sum: "i32_wrap (sum_list (map c_window ?live)) = sum_list (map c_window ?live)"
    using le_trans [OF length_filter_le assms(2), of "reported_live now"] by (intro i32_wrap_id) (simp add: in_i32_def)
  show "sn_total_links (stats_update exp_f now conns config cl cc) = length conns"
    "sn_active_links (stats_update exp_f now conns config cl cc) = length ?live"
    "sn_total_window (stats_update exp_f now conns config cl cc) = sum_list (map c_window ?live)"
    "sn_total_in_flight (stats_update exp_f now conns config cl cc) = i32_wrap (sum_list (map c_in_flight_packets ?live))"
    "sn_links (stats_update exp_f now conns config cl cc) =
      map (link_stats exp_f now (cfg_quality_enabled config \<and> \<not> is_classic (cfg_mode config)) cl cc) conns"
    by (simp_all add: stats_update_def Let_def fold_add_link [where w = 0 and q = 0] StatsSnapshot_default_def zero_wrap [symmetric] sum)
qed

lemma stamped_entry:
  assumes "classify conns latency f = (cl, f')" "tick_all exp_f now_cc conns m = (snaps, m')" "d \<in> set conns"
  obtains e sn where "find (\<lambda>e. lc_conn_id e = c_conn_id d) (cr_per_link cl) = Some e"
    "Mapping.lookup snaps (c_conn_id d) = Some sn"
proof -
  have "c_conn_id d \<in> Mapping.keys snaps" using tick_all_result(1) [OF assms(2)] assms(3) by simp
  then obtain sn where "Mapping.lookup snaps (c_conn_id d) = Some sn" by (auto simp: keys_dom_lookup)
  moreover have "c_conn_id d \<in> lc_conn_id ` set (cr_per_link cl)"
    using assms(3) arg_cong [OF classify_ids [of conns latency f], of set] unfolding assms(1) by simp
  then obtain e where "find (\<lambda>e. lc_conn_id e = c_conn_id d) (cr_per_link cl) = Some e"
    by (cases "find (\<lambda>e. lc_conn_id e = c_conn_id d) (cr_per_link cl)") (auto simp: find_None_iff)
  ultimately show thesis using that by blast
qed

text \<open>One link: the verdicts and the cap that are reported are the ones the link carries.\<close>

definition reports_link :: "u64 \<Rightarrow> LinkStats \<Rightarrow> SrtlaConnection \<Rightarrow> bool" where
  "reports_link now l c \<longleftrightarrow> lk_label l = c_label c \<and> lk_ip l = c_local_ip c \<and>
     (lk_connected l \<and> \<not> lk_timed_out l) = (c_connected c \<and> \<not> is_timed_out now c) \<and>
     lk_weak l = c_weak c \<and> lk_weak_reason l = weak_reason_str (c_weak_reason c) \<and>
     lk_cc_target_bps l = c_cc_target_bps c \<and> (lk_cc_state l = ''backing_off'') = c_cc_backing_off c \<and>
     lk_cc_loss_degraded l = c_loss_degraded c \<and> lk_in_flight_cap_active l = in_flight_cap_exceeded c \<and>
     lk_stall_gated l = stall_latched c"

lemma stamped_reported:
  assumes "classify conns latency f = (cl, f')" "tick_all exp_f now_cc conns m = (snaps, m')" "d \<in> set conns"
  shows "reports_link now (link_stats exp_f now qe (Some cl) (Some snaps) (stamp_link (cr_per_link cl) snaps d))
    (stamp_link (cr_per_link cl) snaps d)"
proof -
  obtain e sn where e: "find (\<lambda>e. lc_conn_id e = c_conn_id d) (cr_per_link cl) = Some e"
    and sn: "Mapping.lookup snaps (c_conn_id d) = Some sn" by (rule stamped_entry [OF assms])
  have "(cc_state_str st = ''backing_off'') = (st = BackingOff)" for st by (cases st) (simp_all add: cc_state_str_def)
  then show ?thesis
    by (simp add: reports_link_def link_stats_def stamp_link_def e sn Let_def in_flight_cap_exceeded_def is_timed_out_def stall_latched_def)
qed

lemma stamp_link_window: "c_window (stamp_link l m d) = c_window d"
  by (simp add: stamp_link_def Let_def)

lemma housekeeping_length: "length (b_conns (s_bond (fst (run_housekeeping h s)))) = length (b_conns (s_bond s))"
  using map_eq_imp_length_eq [OF run_housekeeping_ids] .

text \<open>C24: the statistics report what the scheduler acts on. For every reachable state with at most 30000 links, the snapshot a housekeeping tick
  publishes, after it has served the links and run the classifier and the controllers over them, has one entry per link, in order, whose
  verdicts, rate target, cap and stall flag are the values the link carries into selection; the number of active
  links is the number of entries that are connected and not timed out, the total window is the exact sum of their windows, without overflow, and the total
  in flight is the sum of their in-flight counts as a 32-bit number, which is the exact sum whenever that fits.
\<close>

theorem statistics_exact:
  assumes "reachable p s" "hk_env_ok h" "length (b_conns (s_bond s)) \<le> 30000"
  shows "let served = fst (run_housekeeping h s); conns = b_conns (s_bond (stamp_links exp_f now_cc served));
      snap = tick_stats exp_f now_cc now served; up = filter (\<lambda>l. lk_connected l \<and> \<not> lk_timed_out l) (sn_links snap) in
    list_all2 (reports_link now) (sn_links snap) conns \<and>
    sn_total_links snap = length conns \<and> sn_active_links snap = length up \<and> sn_total_window snap = sum_list (map lk_window up) \<and>
    sn_total_in_flight snap = i32_wrap (sum_list (map lk_in_flight up)) \<and>
    (in_i32 (sum_list (map lk_in_flight up)) \<longrightarrow> sn_total_in_flight snap = sum_list (map lk_in_flight up))"
proof -
  define s1 where "s1 = fst (run_housekeeping h s)"
  let ?cs = "b_conns (s_bond s1)"
  obtain cl f' where c: "classify ?cs (cfg_negotiated_latency_ms (snapshot (b_config (s_bond s1)))) (s_filter s1) = (cl, f')" by fastforce
  obtain snaps m' where t: "tick_all exp_f now_cc ?cs (s_cc s1) = (snaps, m')" by fastforce
  let ?conns = "map (stamp_link (cr_per_link cl) snaps) ?cs"
  have conns: "b_conns (s_bond (stamp_links exp_f now_cc s1)) = ?conns" by (simp add: stamp_links_def Let_def c t)
  have "sender_ok s1"
    unfolding s1_def by (rule sender_same_ok [OF run_housekeeping_same [OF assms(2)] reachable_ok [OF assms(1)]])
  then have "list_all link_good ?cs" by (simp add: sender_ok_def bond_ok_def)
  then have windows: "list_all (\<lambda>c. window_ok (c_window c)) ?conns"
    by (simp add: list_all_iff stamp_link_window link_good_def link_ok_def)
  let ?cfg = "snapshot (b_config (s_bond s1))"
  let ?L = "link_stats exp_f now (cfg_quality_enabled ?cfg \<and> \<not> is_classic (cfg_mode ?cfg)) (Some cl) (Some snaps)"
  have snap: "tick_stats exp_f now_cc now s1 = stats_update exp_f now ?conns ?cfg (Some cl) (Some snaps)"
    by (simp add: tick_stats_def Let_def c t conns)
  have "length ?cs \<le> 30000" using assms(3) by (simp add: s1_def housekeeping_length)
  note res = stats_update_result [OF windows, unfolded length_map, OF this]
  have up: "filter (\<lambda>l. lk_connected l \<and> \<not> lk_timed_out l) (map ?L ?conns) = map ?L (filter (reported_live now) ?conns)"
    by (simp add: filter_map comp_def link_stats_def reported_live_def Let_def)
  have "map lk_window (map ?L xs) = map c_window xs" "map lk_in_flight (map ?L xs) = map c_in_flight_packets xs" for xs
    by (simp_all add: link_stats_def Let_def)
  moreover have "list_all2 (reports_link now) (map ?L ?conns) ?conns"
    using stamped_reported [OF c t] by (auto simp: list_all2_conv_all_nth)
  ultimately show ?thesis by (simp add: s1_def [symmetric] snap res conns up Let_def i32_wrap_id del: map_map)
qed

lemma start_probing_length: "length (fst (snd (start_probing conns now m))) = length conns"
  by (cases "start_probing conns now m") (auto dest!: start_probing_keeps conns_keep_length)

lemma demo_links: "length (b_conns (s_bond demo_sender)) = 1"
  unfolding demo_sender_def sender_start_def demo_ips
  by (simp add: create_connections_from_ips_def connect_uplink_def demo_start_def demo_connect_def case_prod_beta Let_def
      housekeeping_length start_probing_length)

theorem statistics_exact_witness:
  "let served = fst (run_housekeeping demo_housekeeping demo_sender); snap = tick_stats (\<lambda>_. Fin (1 / 2)) 20 20 served in
   sn_total_links snap = length (b_conns (s_bond (stamp_links (\<lambda>_. Fin (1 / 2)) 20 served))) \<and>
   sn_active_links snap = length (filter (\<lambda>l. lk_connected l \<and> \<not> lk_timed_out l) (sn_links snap))"
proof -
  have "length (b_conns (s_bond demo_sender)) \<le> 30000" "hk_env_ok demo_housekeeping"
    by (simp_all add: demo_links hk_env_ok_def demo_housekeeping_def)
  from statistics_exact [OF demo_reachable this(2,1), of "\<lambda>_. Fin (1 / 2)" 20 20] show ?thesis by (simp add: Let_def)
qed

end
