(* ===== verification/Metrics.thy ===== *)
theory Metrics
  imports Statistics
begin

text \<open>
  The metrics endpoint (\<^verbatim>\<open>src/metrics.rs\<close>): the exposition text of a statistics snapshot and the hand-written HTTP answer.
  A string is the list of its bytes as characters. How an address and a floating-point number are printed are
  the arguments \<open>show_ip\<close> and \<open>show_f64\<close>. The bytes of a request arrive in pieces: a list of what the successive reads
  return, where the empty piece, and the end of the list, is the end of the stream.
\<close>

section \<open>Exposition text\<close>

definition show_int :: "int \<Rightarrow> string" where
  "show_int n = (if n < 0 then ''-'' @ show_nat (nat (- n)) else show_nat (nat n))"

definition show_flag :: "bool \<Rightarrow> string" where
  "show_flag b = (if b then ''1'' else ''0'')"

definition quoted :: "string \<Rightarrow> string" where
  "quoted t = [CHR 0x22] @ t @ [CHR 0x22]"

definition family_head :: "string \<Rightarrow> string \<Rightarrow> string \<Rightarrow> string list" where
  "family_head name help kind = [''# HELP '' @ name @ '' '' @ help, ''# TYPE '' @ name @ '' '' @ kind]"

definition link_sample :: "(IpAddr \<Rightarrow> string) \<Rightarrow> string \<Rightarrow> (LinkStats \<Rightarrow> string) \<Rightarrow> LinkStats \<Rightarrow> string" where
  "link_sample show_ip name v link = name @ ''{ip='' @ quoted (show_ip (lk_ip link)) @ ''} '' @ v link"

definition link_family ::
  "(IpAddr \<Rightarrow> string) \<Rightarrow> string \<Rightarrow> string \<Rightarrow> string \<Rightarrow> (LinkStats \<Rightarrow> string) \<Rightarrow> LinkStats list \<Rightarrow> string list" where
  "link_family show_ip name help kind v links = family_head name help kind @ map (link_sample show_ip name v) links"

definition bond_family :: "string \<Rightarrow> string \<Rightarrow> string \<Rightarrow> string \<Rightarrow> string list" where
  "bond_family name help kind v = family_head name help kind @ [name @ '' '' @ v]"

text \<open>The link families in the order they are written: name, help, kind and value.\<close>

definition link_families :: "(f64 \<Rightarrow> string) \<Rightarrow> (string \<times> string \<times> string \<times> (LinkStats \<Rightarrow> string)) list" where
  "link_families show_f64 =
     [(''srtla_send_link_up'', ''1 if the link is connected and not timed out'', ''gauge'',
         \<lambda>l. show_flag (lk_connected l \<and> \<not> lk_timed_out l)),
      (''srtla_send_link_rtt_ms'', ''smoothed RTT'', ''gauge'', \<lambda>l. show_nat (lk_rtt_ms l)),
      (''srtla_send_link_rtt_min_ms'', ''dual-window minimum RTT baseline'', ''gauge'', \<lambda>l. show_f64 (lk_rtt_min_ms l)),
      (''srtla_send_link_rtt_velocity'', ''Kalman RTT velocity, ms/sample (positive = rising)'', ''gauge'',
         \<lambda>l. show_f64 (lk_rtt_velocity l)),
      (''srtla_send_link_window'', ''congestion window size (packets)'', ''gauge'', \<lambda>l. show_int (lk_window l)),
      (''srtla_send_link_in_flight'', ''packets sent but not yet ACKed'', ''gauge'', \<lambda>l. show_int (lk_in_flight l)),
      (''srtla_send_link_nak_total'', ''cumulative NAK count'', ''counter'', \<lambda>l. show_int (lk_nak_count l)),
      (''srtla_send_link_bitrate_bytes_per_second'', ''measured send rate, bytes/sec'', ''gauge'',
         \<lambda>l. show_nat (lk_bitrate_bytes_per_sec l)),
      (''srtla_send_link_quality_multiplier'', ''scheduler quality multiplier in [0.35, 1.1]'', ''gauge'',
         \<lambda>l. show_f64 (lk_quality_multiplier l)),
      (''srtla_send_link_stall_gated'', ''link is stall-gated out of the payload rotation (0/1)'', ''gauge'',
         \<lambda>l. show_flag (lk_stall_gated l)),
      (''srtla_send_link_stall_gate_events'', ''cumulative stall-latch engagements'', ''counter'',
         \<lambda>l. show_nat (lk_stall_gate_events l)),
      (''srtla_send_link_sole_carrier'', ''link is the elected sole carrier while every link is quality gated (0/1)'', ''gauge'',
         \<lambda>l. show_flag (lk_sole_carrier l)),
      (''srtla_send_link_sole_carrier_elections'', ''cumulative sole-carrier handovers taken from another link'', ''counter'',
         \<lambda>l. show_nat (lk_sole_carrier_elections l)),
      (''srtla_send_link_silence_pulls'', ''cumulative fast silence-pull engagements'', ''counter'',
         \<lambda>l. show_nat (lk_silence_pulls l)),
      (''srtla_send_link_weight'', ''operator link weight from the ips file, normalised so the lowest link is 1 (classic mode only)'',
         ''gauge'', \<lambda>l. show_nat (unat (lk_weight l)))]"

definition bond_families :: "StatsSnapshot \<Rightarrow> DynamicConfig \<Rightarrow> CriticalWindow \<Rightarrow> (string \<times> string \<times> string \<times> string) list" where
  "bond_families snap config cw =
     [(''srtla_send_active_links'', ''links currently connected and live'', ''gauge'', show_nat (sn_active_links snap)),
      (''srtla_send_total_links'', ''configured link count'', ''gauge'', show_nat (sn_total_links snap)),
      (''srtla_send_total_window'', ''summed window across active links'', ''gauge'', show_int (sn_total_window snap)),
      (''srtla_send_total_in_flight'', ''summed in-flight across active links'', ''gauge'', show_int (sn_total_in_flight snap)),
      (''srtla_send_mode'', ''scheduling mode (0=classic,1=enhanced)'', ''gauge'',
         (case mode_from_u8 (dc_mode config) of Classic \<Rightarrow> ''0'' | Enhanced \<Rightarrow> ''1'')),
      (''srtla_send_critical_windows_total'', ''total keyframe-priority datagrams applied'', ''counter'',
         show_nat (cw_windows_received cw)),
      (''srtla_send_critical_malformed_datagrams_total'', ''malformed priority-sidecar datagrams'', ''counter'',
         show_nat (cw_malformed_datagrams cw))]"

definition render_lines ::
  "(IpAddr \<Rightarrow> string) \<Rightarrow> (f64 \<Rightarrow> string) \<Rightarrow> StatsSnapshot \<Rightarrow> DynamicConfig \<Rightarrow> CriticalWindow \<Rightarrow> string list" where
  "render_lines show_ip show_f64 snap config cw =
     concat (map (\<lambda>(name, help, kind, v). link_family show_ip name help kind v (sn_links snap)) (link_families show_f64)) @
     concat (map (\<lambda>(name, help, kind, v). bond_family name help kind v) (bond_families snap config cw))"

definition render ::
  "(IpAddr \<Rightarrow> string) \<Rightarrow> (f64 \<Rightarrow> string) \<Rightarrow> StatsSnapshot \<Rightarrow> DynamicConfig \<Rightarrow> CriticalWindow \<Rightarrow> string" where
  "render show_ip show_f64 snap config cw = concat (map (\<lambda>l. l @ [CHR 0x0A]) (render_lines show_ip show_f64 snap config cw))"

section \<open>The answer to a scrape\<close>

text \<open>\<^verbatim>\<open>std::str::from_utf8\<close>: the well-formed byte sequences.\<close>

definition cont_byte :: "u8 \<Rightarrow> bool" where
  "cont_byte b \<longleftrightarrow> 0x80 \<le> b \<and> b \<le> 0xBF"

fun valid_utf8 :: "bytes \<Rightarrow> bool" where
  "valid_utf8 [] = True"
| "valid_utf8 (b # bs) =
     (if b < 0x80 then valid_utf8 bs
      else case bs of
        [] \<Rightarrow> False
      | c1 # bs1 \<Rightarrow>
          if 0xC2 \<le> b \<and> b \<le> 0xDF then cont_byte c1 \<and> valid_utf8 bs1
          else case bs1 of
            [] \<Rightarrow> False
          | c2 # bs2 \<Rightarrow>
              if 0xE0 \<le> b \<and> b \<le> 0xEF then
                cont_byte c1 \<and> cont_byte c2 \<and> (b = 0xE0 \<longrightarrow> 0xA0 \<le> c1) \<and> (b = 0xED \<longrightarrow> c1 \<le> 0x9F) \<and> valid_utf8 bs2
              else case bs2 of
                [] \<Rightarrow> False
              | c3 # bs3 \<Rightarrow>
                  0xF0 \<le> b \<and> b \<le> 0xF4 \<and> cont_byte c1 \<and> cont_byte c2 \<and> cont_byte c3 \<and>
                  (b = 0xF0 \<longrightarrow> 0x90 \<le> c1) \<and> (b = 0xF4 \<longrightarrow> c1 \<le> 0x8F) \<and> valid_utf8 bs3)"

fun split_on :: "'a \<Rightarrow> 'a list \<Rightarrow> 'a list list" where
  "split_on d [] = [[]]"
| "split_on d (x # xs) =
     (if x = d then [] # split_on d xs
      else case split_on d xs of p # ps \<Rightarrow> (x # p) # ps | [] \<Rightarrow> [[x]])"

definition ascii_lower :: "u8 \<Rightarrow> u8" where
  "ascii_lower b = (if 0x41 \<le> b \<and> b \<le> 0x5A then b + 0x20 else b)"

definition eq_ignore_ascii_case :: "bytes \<Rightarrow> bytes \<Rightarrow> bool" where
  "eq_ignore_ascii_case a b \<longleftrightarrow> map ascii_lower a = map ascii_lower b"

definition ascii_bytes :: "string \<Rightarrow> bytes" where
  "ascii_bytes t = map of_char t"

definition request_path :: "bytes \<Rightarrow> bytes option" where
  "request_path request =
     (case position (\<lambda>b. b = 0x0D) request of
        None \<Rightarrow> None
      | Some first_line_end \<Rightarrow>
          let line = take first_line_end request in
          if \<not> valid_utf8 line then None
          else case split_on 0x20 line of
                 [] \<Rightarrow> None
               | meth # parts \<Rightarrow>
                   if \<not> eq_ignore_ascii_case meth (ascii_bytes ''GET'') then None
                   else case parts of [] \<Rightarrow> None | path # _ \<Rightarrow> Some path)"

definition REQUEST_CAP :: nat where "REQUEST_CAP = 4096"

fun has_header_end :: "bytes \<Rightarrow> bool" where
  "has_header_end (a # bs) \<longleftrightarrow> take 4 (a # bs) = [0x0D, 0x0A, 0x0D, 0x0A] \<or> has_header_end bs"
| "has_header_end [] \<longleftrightarrow> False"

fun read_request :: "bytes \<Rightarrow> (string + bytes) list \<Rightarrow> string + bytes" where
  "read_request buf [] = Inr buf"
| "read_request buf (r # reads) =
     (if length buf = REQUEST_CAP then Inr buf
      else case r of
             Inl e \<Rightarrow> Inl e
           | Inr data \<Rightarrow>
               if data = [] then Inr buf
               else let buf' = buf @ take (REQUEST_CAP - length buf) data in
                    if has_header_end buf' then Inr buf' else read_request buf' reads)"

definition crlf :: string where "crlf = [CHR 0x0D, CHR 0x0A]"

definition not_found :: string where
  "not_found = ''HTTP/1.1 404 Not Found'' @ crlf @ ''Content-Length: 0'' @ crlf @ ''Connection: close'' @ crlf @ crlf"

definition ok_response :: "string \<Rightarrow> string" where
  "ok_response body = ''HTTP/1.1 200 OK'' @ crlf @ ''Content-Type: text/plain; version=0.0.4'' @ crlf @
     ''Content-Length: '' @ show_nat (length body) @ crlf @ ''Connection: close'' @ crlf @ crlf @ body"

definition serve_one ::
  "(IpAddr \<Rightarrow> string) \<Rightarrow> (f64 \<Rightarrow> string) \<Rightarrow> StatsSnapshot \<Rightarrow> DynamicConfig \<Rightarrow> CriticalWindow \<Rightarrow> (string + bytes) list \<Rightarrow> string + string" where
  "serve_one show_ip show_f64 snap config cw reads =
     (case read_request [] reads of
        Inl e \<Rightarrow> Inl e
      | Inr request \<Rightarrow>
          Inr (if request_path request = Some (ascii_bytes ''/metrics'') \<or> request_path request = Some (ascii_bytes ''/'')
               then ok_response (render show_ip show_f64 snap config cw) else not_found))"

text \<open>The accept loop. Each accepted connection is a task of its own, which meets its own snapshot, configuration and critical window;
  an accept that fails is passed over, and nothing is served when the address cannot be bound.\<close>

definition spawn_server ::
  "(IpAddr \<Rightarrow> string) \<Rightarrow> (f64 \<Rightarrow> string) \<Rightarrow> bool \<Rightarrow> (string + StatsSnapshot \<times> DynamicConfig \<times> CriticalWindow \<times> (string + bytes) list) list \<Rightarrow>
   (string + string) list" where
  "spawn_server show_ip show_f64 bound accepts =
     (if \<not> bound then []
      else List.map_filter
        (\<lambda>accepted. case accepted of
             Inl e \<Rightarrow> None
           | Inr (snap, config, cw, reads) \<Rightarrow> Some (serve_one show_ip show_f64 snap config cw reads)) accepts)"

lemma spawn_server_append:
  "spawn_server show_ip show_f64 bound (xs @ ys) = spawn_server show_ip show_f64 bound xs @ spawn_server show_ip show_f64 bound ys"
  by (simp add: spawn_server_def List.map_filter_def)

section \<open>How a scrape is answered\<close>

lemma position_append: "position P xs = Some i \<Longrightarrow> position P (xs @ ys) = Some i"
  by (induction xs arbitrary: i) auto

lemma position_found: "x \<in> set xs \<Longrightarrow> P x \<Longrightarrow> \<exists>i. position P xs = Some i \<and> i < length xs"
  by (induction xs) auto

lemma header_end_cr: "has_header_end bs \<Longrightarrow> 0x0D \<in> set bs"
  by (induction bs rule: has_header_end.induct) (auto simp: take_Cons')

lemma request_path_prefix:
  assumes "0x0D \<in> set r"
  shows "request_path (r @ rest) = request_path r"
proof -
  obtain i where "position (\<lambda>b. b = 0x0D) r = Some i" "i < length r" using position_found [OF assms, of "\<lambda>b. b = 0x0D"] by auto
  then show ?thesis by (simp add: request_path_def position_append)
qed

lemma read_request_prefix:
  "list_all (\<lambda>c. c \<noteq> []) chunks \<Longrightarrow> length buf \<le> REQUEST_CAP \<Longrightarrow>
   \<exists>r rest. read_request buf (map Inr chunks) = Inr r \<and> r @ rest = take REQUEST_CAP (buf @ concat chunks) \<and> (rest = [] \<or> has_header_end r)"
proof (induction chunks arbitrary: buf)
  case Nil
  then show ?case by simp
next
  case (Cons c chunks)
  show ?case
  proof (cases "length buf = REQUEST_CAP")
    case True
    then show ?thesis by simp
  next
    case False
    let ?buf = "buf @ take (REQUEST_CAP - length buf) c"
    have step: "read_request buf (map Inr (c # chunks)) =
        (if has_header_end ?buf then Inr ?buf else read_request ?buf (map Inr chunks))"
      using False Cons.prems by (simp add: Let_def)
    have split: "take REQUEST_CAP (?buf @ concat chunks) = take REQUEST_CAP (buf @ concat (c # chunks))"
      using Cons.prems False by (cases "length c \<le> REQUEST_CAP - length buf") auto
    show ?thesis
    proof (cases "has_header_end ?buf")
      case True
      have "?buf @ take (REQUEST_CAP - length ?buf) (concat chunks) = take REQUEST_CAP (?buf @ concat chunks)"
        using Cons.prems by (simp only: take_append [of REQUEST_CAP ?buf]) simp
      then show ?thesis using True split step by metis
    next
      case False
      have "length ?buf \<le> REQUEST_CAP" using Cons.prems by simp
      from Cons.IH [OF _ this] Cons.prems False show ?thesis unfolding step split [symmetric] by simp
    qed
  qed
qed

text \<open>A scrape is answered by its request line alone. However the bytes of a request are cut into reads, what is answered
  depends on the first 4096 bytes only: the exposition text of the current snapshot, announced with its exact length, if
  their first line is a GET of the metrics path or of the root, in any case of letters, and Not Found otherwise.
\<close>

theorem scrape_answer:
  assumes "list_all (\<lambda>c. c \<noteq> []) chunks"
  shows "serve_one show_ip show_f64 snap config cw (map Inr chunks) =
    Inr (if request_path (take REQUEST_CAP (concat chunks)) \<in> {Some (ascii_bytes ''/metrics''), Some (ascii_bytes ''/'')}
         then ok_response (render show_ip show_f64 snap config cw) else not_found)"
proof -
  obtain r rest where r: "read_request [] (map Inr chunks) = Inr r" "r @ rest = take REQUEST_CAP (concat chunks)"
      "rest = [] \<or> has_header_end r" using read_request_prefix [OF assms, of "[]"] by auto
  have "request_path r = request_path (take REQUEST_CAP (concat chunks))"
    using r(3) request_path_prefix [OF header_end_cr, of r rest] by (auto simp: r(2) [symmetric])
  then show ?thesis by (auto simp: serve_one_def r(1))
qed

theorem scrape_answer_witness:
  "serve_one (\<lambda>_. ''10.0.0.1'') (\<lambda>_. ''0'') StatsSnapshot_default DynamicConfig_new CriticalWindow_new
     (map Inr [ascii_bytes ''get '', ascii_bytes ''/ HTTP/1.1'' @ [0x0D, 0x0A, 0x0D, 0x0A]]) =
   Inr (ok_response (render (\<lambda>_. ''10.0.0.1'') (\<lambda>_. ''0'') StatsSnapshot_default DynamicConfig_new CriticalWindow_new))"
  by (subst scrape_answer) (simp_all add: ascii_bytes_def request_path_def REQUEST_CAP_def eq_ignore_ascii_case_def ascii_lower_def Let_def)

section \<open>Families\<close>

text \<open>Every family is written once, with one sample per link or one for the bond.\<close>

lemma families_distinct: "distinct (map fst (link_families sf) @ map fst (bond_families snap config cw))"
  by (simp add: link_families_def bond_families_def)

lemma render_length: "length (render_lines show_ip sf snap config cw) = 15 * (length (sn_links snap) + 2) + 21"
  by (simp add: render_lines_def link_families_def bond_families_def link_family_def bond_family_def family_head_def)

end
