(* ===== verification/Status_Report.thy ===== *)
theory Status_Report
  imports Metrics
begin

text \<open>
  The periodic status report (\<^verbatim>\<open>src/sender/status.rs\<close>) as the list of its log lines with their levels. Printing a
  floating-point number with a given number of decimals is the argument \<open>fmt\<close>; whether informational logging is enabled is
  the argument \<open>info_enabled\<close>. The report re-reads the clock for the age of a round-trip sample (\<open>now_rtt\<close>).
\<close>

definition PKT_LOG_SIZE :: usize where "PKT_LOG_SIZE = 256"

datatype log_line = Info string | Warn string

text \<open>An \<^verbatim>\<open>i32\<close> cast to \<^verbatim>\<open>usize\<close>.\<close>

definition i32_as_usize :: "i32 \<Rightarrow> usize" where
  "i32_as_usize n = nat (n mod 2 ^ 64)"

definition show_bool :: "bool \<Rightarrow> string" where
  "show_bool b = (if b then ''true'' else ''false'')"

record status_totals =
  st_active :: usize
  st_bitrate_mbps :: f64
  st_in_flight :: usize

definition count_link :: "u64 \<Rightarrow> SrtlaConnection \<Rightarrow> status_totals \<Rightarrow> status_totals" where
  "count_link now conn t =
     t\<lparr> st_active := (if is_timed_out now conn then st_active t else st_active t + 1),
        st_bitrate_mbps := f64_add (st_bitrate_mbps t) (bitrate_mbps (c_bitrate conn)),
        st_in_flight := u64_add (st_in_flight t) (i32_as_usize (c_in_flight_packets conn)) \<rparr>"

definition status_totals_of :: "u64 \<Rightarrow> SrtlaConnection list \<Rightarrow> status_totals" where
  "status_totals_of now conns = fold (count_link now) conns \<lparr> st_active = 0, st_bitrate_mbps = Fin 0, st_in_flight = 0 \<rparr>"

definition percent :: "usize \<Rightarrow> usize \<Rightarrow> f64" where
  "percent part whole = (if whole > 0 then f64_mul (f64_div (u64_to_f64 part) (u64_to_f64 whole)) (f64_of_rat 100) else Fin 0)"

definition score_desc :: "i32 \<Rightarrow> string" where
  "score_desc score = (if score = -1 then ''DISCONNECTED'' else if score = 0 then ''AT_CAPACITY'' else show_int score)"

definition ago :: "(nat \<Rightarrow> f64 \<Rightarrow> string) \<Rightarrow> u64 \<Rightarrow> u64 option \<Rightarrow> string" where
  "ago fmt now stamp =
     (case stamp of Some t \<Rightarrow> fmt 1 (f64_div (u64_to_f64 (now - t)) (f64_of_rat 1000)) @ ''s ago'' | None \<Rightarrow> ''never'')"

definition link_report :: "(nat \<Rightarrow> f64 \<Rightarrow> string) \<Rightarrow> u64 \<Rightarrow> u64 \<Rightarrow> usize \<Rightarrow> SrtlaConnection \<Rightarrow> log_line list" where
  "link_report fmt now now_rtt i conn =
     [Info (''    ['' @ show_nat i @ ''] '' @ (if is_timed_out now conn then ''TIMED_OUT'' else ''ACTIVE'') @ '' '' @ c_label conn @
        '' - Score: '' @ score_desc (get_score conn) @ '' - Last recv/send: '' @ ago fmt now (c_last_received conn) @ ''/'' @
        ago fmt now (c_last_sent conn) @ '' - Window: '' @ show_int (c_window conn) @ '' - In-flight: '' @
        show_int (c_in_flight_packets conn) @ '' - Bitrate: '' @ fmt 2 (bitrate_mbps (c_bitrate conn)) @ '' Mbps'')] @
     (if fl_gt (estimated_rtt_ms (c_rtt conn)) (Fin 0)
      then [Info (''        RTT: kalman='' @ fmt 1 (get_smooth_rtt_ms conn) @ ''ms, velocity='' @ fmt 2 (get_rtt_velocity conn) @
             ''ms/s, jitter='' @ fmt 1 (rtt_jitter_ms (c_rtt conn)) @ ''ms, stable='' @ show_bool (rtt_is_stable (c_rtt conn)) @
             '' (last: '' @ fmt 1 (f64_div (u64_to_f64 (now_rtt - last_rtt_measurement_ms (c_rtt conn))) (f64_of_rat 1000)) @ ''s ago)'')]
      else [])"

definition selected_report :: "SrtlaConnection list \<Rightarrow> usize option \<Rightarrow> log_line" where
  "selected_report conns last_selected_idx =
     (case last_selected_idx of
        Some idx \<Rightarrow>
          if idx < length conns then Info (''  Last selected: '' @ c_label (conns ! idx))
          else Warn (''  Last selected index '' @ show_nat idx @ '' is out of bounds!'')
      | None \<Rightarrow> Info ''  Last selected: none'')"

definition warnings :: "usize \<Rightarrow> usize \<Rightarrow> log_line list" where
  "warnings active n_total =
     (if active = 0 then [Warn ''No active connections available!'']
      else if active < n_total div 2 then [Warn ''Less than half of connections are active'']
      else [])"

definition log_connection_status ::
  "bool \<Rightarrow> (nat \<Rightarrow> f64 \<Rightarrow> string) \<Rightarrow> u64 \<Rightarrow> u64 \<Rightarrow> SrtlaConnection list \<Rightarrow> usize option \<Rightarrow> DynamicConfig \<Rightarrow> log_line list" where
  "log_connection_status info_enabled fmt now now_rtt conns last_selected_idx config =
     (if \<not> info_enabled then []
      else
        let t = status_totals_of now conns;
            n_total = length conns;
            active = st_active t;
            timed_out = n_total - active;
            log_utilization = percent (st_in_flight t) (n_total * PKT_LOG_SIZE);
            snap = snapshot config
        in [Info ''Connection Status Report:'', Info (''  Total connections: '' @ show_nat n_total),
            Info (''  Total bitrate: '' @ fmt 2 (st_bitrate_mbps t) @ '' Mbps''),
            Info (''  Active connections: '' @ show_nat active @ '' ('' @ fmt 1 (percent active n_total) @ ''%)''),
            Info (''  Timed out connections: '' @ show_nat timed_out), Info (''  Mode: '' @ mode_fmt (cfg_mode snap)),
            (case cfg_mode snap of
               Classic \<Rightarrow> Info ''    (quality scoring not applicable)''
             | Enhanced \<Rightarrow> Info (''    Quality: '' @ (if cfg_quality_enabled snap then ''ON'' else ''OFF''))),
            Info (''  Packet log: '' @ show_nat (st_in_flight t) @ '' entries used ('' @ fmt 1 log_utilization @ ''% of capacity)''),
            selected_report conns last_selected_idx] @
           concat (map (\<lambda>(i, conn). link_report fmt now now_rtt i conn) (enumerate 0 conns)) @
           warnings active n_total)"

section \<open>What a report says\<close>

lemma status_totals_fold:
  "st_active (fold (count_link now) conns t) = st_active t + length (filter (\<lambda>c. \<not> is_timed_out now c) conns)"
  by (induction conns arbitrary: t) (simp_all add: count_link_def)

lemma report_lines_info: "l \<in> set (link_report fmt now now_rtt i conn) \<Longrightarrow> \<exists>t. l = Info t"
  by (auto simp: link_report_def split: if_splits)

text \<open>A report warns for a reason. In every reachable state the remembered selection it prints is a link of the bond, the active and
  the timed-out links it counts add up to all of them, and the only warnings it can contain are that no link is active or
  that fewer than half of them are, exactly when that is so.
\<close>

theorem status_warnings:
  assumes "reachable p s"
  shows "let conns = b_conns (s_bond s); active = length (filter (\<lambda>c. \<not> is_timed_out now c) conns);
      report = log_connection_status True fmt now now_rtt conns (b_last_selected (s_bond s)) (b_config (s_bond s)) in
    {l \<in> set report. \<exists>t. l = Warn t} =
      (if active = 0 then {Warn ''No active connections available!''}
       else if active < length conns div 2 then {Warn ''Less than half of connections are active''} else {}) \<and>
    Info (''  Active connections: '' @ show_nat active @ '' ('' @ fmt 1 (percent active (length conns)) @ ''%)'') \<in> set report \<and>
    Info (''  Timed out connections: '' @ show_nat (length (filter (is_timed_out now) conns))) \<in> set report"
proof -
  let ?conns = "b_conns (s_bond s)"
  let ?n = "length (filter (\<lambda>c. \<not> is_timed_out now c) ?conns)"
  have active: "st_active (status_totals_of now ?conns) = ?n" by (simp add: status_totals_of_def status_totals_fold)
  have rest: "length ?conns - ?n = length (filter (is_timed_out now) ?conns)"
    using sum_length_filter_compl [of "is_timed_out now" ?conns] by simp
  have "last_ok (s_bond s)" using reachable_ok [OF assms] by (simp add: sender_ok_def bond_ok_def)
  then obtain t where sel: "selected_report ?conns (b_last_selected (s_bond s)) = Info t"
    by (auto simp: last_ok_def selected_report_def split: option.splits)
  have links: "\<not> (\<exists>i c. (i, c) \<in> set (enumerate 0 ?conns) \<and> Warn t \<in> set (link_report fmt now now_rtt i c))" for t
    using report_lines_info by fastforce
  show ?thesis using links
    by (auto simp: log_connection_status_def Let_def active rest sel warnings_def split: SchedulingMode.splits)
qed

theorem status_warnings_witness:
  "Info (''  Timed out connections: '' @ show_nat (length (filter (is_timed_out 20) (b_conns (s_bond demo_sender))))) \<in>
     set (log_connection_status True (\<lambda>_ _. ''0'') 20 20 (b_conns (s_bond demo_sender)) (b_last_selected (s_bond demo_sender))
       (b_config (s_bond demo_sender)))"
  using status_warnings [OF demo_reachable, of 20 "\<lambda>_ _. ''0''" 20] by (simp only: Let_def)

end
