(* ===== verification/Startup.thy ===== *)
theory Startup
  imports Sender_Invariant
begin

text \<open>
  Before the event loop: the command line and the optional configuration file (\<^verbatim>\<open>src/main.rs\<close>, \<^verbatim>\<open>src/toml_config.rs\<close>), the
  version line (\<^verbatim>\<open>src/version.rs\<close>) and the process clock (\<^verbatim>\<open>crates/srtla-core/src/utils.rs\<close>).

  Parsing the command line and the file is done by packages: a command line is given as the record of its values, with the set
  of options that were typed, and the file parser is the argument \<open>toml\<close>, which gives the keys as the derived
  deserializer hands them on, the mode still a string. A started program is its listening port, its receiver, its
  address file, its configuration and the tasks it spawns beside the sender, in order.
\<close>

section \<open>Command line and file\<close>

record Cli =
  cl_print_version :: bool
  cl_local_srt_port :: "u16 option"
  cl_receiver_host :: "string option"
  cl_receiver_port :: "u16 option"
  cl_ips_file :: "string option"
  cl_config_file :: "string option"
  cl_mode :: SchedulingMode
  cl_no_quality :: bool
  cl_no_stall_deselect :: bool
  cl_stall_min_in_flight :: i32
  cl_stall_ack_stale_ms :: u64
  cl_conn_timeout_ms :: u64
  cl_no_rehome :: bool
  cl_control_socket :: "string option"
  cl_priority_bind :: "SocketAddr option"
  cl_metrics_bind :: "SocketAddr option"

record TomlConfig =
  tc_mode :: "SchedulingMode option"
  tc_no_quality :: "bool option"
  tc_no_stall_deselect :: "bool option"
  tc_stall_min_in_flight :: "i32 option"
  tc_stall_ack_stale_ms :: "u64 option"
  tc_conn_timeout_ms :: "u64 option"

definition TomlConfig_default :: TomlConfig where
  "TomlConfig_default = \<lparr> tc_mode = None, tc_no_quality = None, tc_no_stall_deselect = None, tc_stall_min_in_flight = None,
     tc_stall_ack_stale_ms = None, tc_conn_timeout_ms = None \<rparr>"

text \<open>What the file parser returns: the keys, with the mode as the text found; or its complaint.\<close>

type_synonym toml_parser = "string \<Rightarrow> string + (string option \<times> TomlConfig)"

definition deserialize_mode :: "string \<Rightarrow> string + SchedulingMode option" where
  "deserialize_mode t = (case mode_from_str t of Inl e \<Rightarrow> Inl e | Inr m \<Rightarrow> Inr (Some m))"

definition load :: "toml_parser \<Rightarrow> (string \<Rightarrow> string option) \<Rightarrow> string \<Rightarrow> string + TomlConfig" where
  "load toml read_to_string path =
     (case read_to_string path of
        None \<Rightarrow> Inl (''failed to read config file '' @ path)
      | Some content \<Rightarrow>
          (case toml content of
             Inl _ \<Rightarrow> Inl (''failed to parse config file '' @ path)
           | Inr (None, keys) \<Rightarrow> Inr (keys\<lparr> tc_mode := None \<rparr>)
           | Inr (Some t, keys) \<Rightarrow>
               (case deserialize_mode t of
                  Inl _ \<Rightarrow> Inl (''failed to parse config file '' @ path)
                | Inr m \<Rightarrow> Inr (keys\<lparr> tc_mode := m \<rparr>))))"

text \<open>One field: the value of the file replaces the value at hand unless the option was typed.\<close>

definition fill :: "(string \<Rightarrow> bool) \<Rightarrow> string \<Rightarrow> 'a option \<Rightarrow> 'a \<Rightarrow> 'a" where
  "fill typed field file_value value =
     (case file_value of Some v \<Rightarrow> if typed field then value else v | None \<Rightarrow> value)"

definition apply_config_file :: "(string \<Rightarrow> bool) \<Rightarrow> TomlConfig \<Rightarrow> Cli \<Rightarrow> Cli" where
  "apply_config_file typed f c =
     c\<lparr> cl_mode := fill typed ''mode'' (tc_mode f) (cl_mode c),
        cl_no_quality := fill typed ''no_quality'' (tc_no_quality f) (cl_no_quality c),
        cl_no_stall_deselect := fill typed ''no_stall_deselect'' (tc_no_stall_deselect f) (cl_no_stall_deselect c),
        cl_stall_min_in_flight := fill typed ''stall_min_in_flight'' (tc_stall_min_in_flight f) (cl_stall_min_in_flight c),
        cl_stall_ack_stale_ms := fill typed ''stall_ack_stale_ms'' (tc_stall_ack_stale_ms f) (cl_stall_ack_stale_ms c),
        cl_conn_timeout_ms := fill typed ''conn_timeout_ms'' (tc_conn_timeout_ms f) (cl_conn_timeout_ms c) \<rparr>"

section \<open>Version line\<close>

definition build_metadata :: "string \<Rightarrow> string \<Rightarrow> string \<Rightarrow> string option" where
  "build_metadata branch hash dirty =
     (if hash = [] then None
      else if branch = [] then Some (hash @ dirty)
      else Some (branch @ ''@'' @ hash @ dirty))"

definition compose_version_line :: "string \<Rightarrow> string \<Rightarrow> string \<Rightarrow> string \<Rightarrow> string \<Rightarrow> string" where
  "compose_version_line ver branch hash dirty package =
     (case build_metadata branch hash dirty of
        Some metadata \<Rightarrow> ver @ '' ('' @ metadata @ '') ['' @ package @ '']''
      | None \<Rightarrow> ver @ '' ['' @ package @ '']'')"

record BuildInfo =
  bi_version :: string
  bi_branch :: string
  bi_hash :: string
  bi_dirty :: string
  bi_package :: string

definition version_line :: "BuildInfo \<Rightarrow> string" where
  "version_line b = compose_version_line (bi_version b) (bi_branch b) (bi_hash b) (bi_dirty b) (bi_package b)"

section \<open>The program\<close>

definition is_loopback :: "IpAddr \<Rightarrow> bool" where
  "is_loopback ip = (case ip of V4 a \<Rightarrow> drop_bit 24 a = 127 | V6 a \<Rightarrow> a = 1)"

datatype task = NotLoopback string SocketAddr | PriorityListener SocketAddr | MetricsServer SocketAddr | StdinListener | ControlSocket string

definition warn_if_not_loopback :: "string \<Rightarrow> SocketAddr \<Rightarrow> task list" where
  "warn_if_not_loopback what addr = (if is_loopback (fst addr) then [] else [NotLoopback what addr])"

definition spawned :: "Cli \<Rightarrow> task list" where
  "spawned args =
     (case cl_priority_bind args of
        Some bind \<Rightarrow> warn_if_not_loopback ''priority sidecar (--priority-bind)'' bind @ [PriorityListener bind] | None \<Rightarrow> []) @
     (case cl_metrics_bind args of
        Some bind \<Rightarrow> warn_if_not_loopback ''metrics endpoint (--metrics-bind)'' bind @ [MetricsServer bind] | None \<Rightarrow> []) @
     [StdinListener] @
     (case cl_control_socket args of Some path \<Rightarrow> [ControlSocket path] | None \<Rightarrow> [])"

datatype main_outcome =
    Printed string
  | Failed string
  | Panicked
  | Started u16 string u16 string DynamicConfig "task list"

definition main ::
  "BuildInfo \<Rightarrow> toml_parser \<Rightarrow> (string \<Rightarrow> string option) \<Rightarrow> (string \<Rightarrow> bool) \<Rightarrow> Cli \<Rightarrow> main_outcome" where
  "main build toml read_to_string typed args0 =
     (if cl_print_version args0 then Printed (version_line build)
      else
        case (case cl_config_file args0 of
                None \<Rightarrow> Inr args0
              | Some path \<Rightarrow>
                  (case load toml read_to_string path of
                     Inl e \<Rightarrow> Inl e
                   | Inr f \<Rightarrow> Inr (apply_config_file typed f args0))) of
          Inl e \<Rightarrow> Failed e
        | Inr args \<Rightarrow>
            (case (cl_local_srt_port args, cl_receiver_host args, cl_receiver_port args, cl_ips_file args) of
               (Some port, Some host, Some rport, Some ips) \<Rightarrow>
                 Started port host rport ips
                   (from_cli (cl_mode args) (cl_no_quality args) (cl_no_stall_deselect args) (cl_stall_min_in_flight args)
                      (cl_stall_ack_stale_ms args) (cl_conn_timeout_ms args) (cl_no_rehome args))
                   (spawned args)
             | _ \<Rightarrow> Panicked))"

section \<open>Clock\<close>

text \<open>The anchor is set by the first reading; \<open>instant\<close> is the monotonic reading and \<open>wall\<close> the wall clock, none before 1970.\<close>

record Clock =
  ck_anchor :: u64
  ck_base_ms :: u64

definition clock :: "u64 \<Rightarrow> u64 option \<Rightarrow> Clock option \<Rightarrow> Clock" where
  "clock instant wall cell =
     (case cell of Some c \<Rightarrow> c
      | None \<Rightarrow> \<lparr> ck_anchor = instant, ck_base_ms = (case wall of Some ms \<Rightarrow> ms | None \<Rightarrow> 0) \<rparr>)"

definition now_ms :: "u64 \<Rightarrow> u64 option \<Rightarrow> Clock option \<Rightarrow> u64 \<times> Clock option" where
  "now_ms instant wall cell =
     (let c = clock instant wall cell in (u64_add (ck_base_ms c) (instant - ck_anchor c), Some c))"

section \<open>Where a setting comes from\<close>

text \<open>What was typed, else what the file says, else the default the command line carries.\<close>

definition setting :: "(string \<Rightarrow> bool) \<Rightarrow> string \<Rightarrow> 'a option \<Rightarrow> 'a \<Rightarrow> 'a" where
  "setting typed field file_value value = (if typed field then value else case file_value of Some v \<Rightarrow> v | None \<Rightarrow> value)"

lemma fill_setting: "fill typed field file_value value = setting typed field file_value value"
  by (simp add: fill_def setting_def split: option.split)

definition clap_ok :: "Cli \<Rightarrow> bool" where
  "clap_ok c \<longleftrightarrow> cl_print_version c \<or>
     cl_local_srt_port c \<noteq> None \<and> cl_receiver_host c \<noteq> None \<and> cl_receiver_port c \<noteq> None \<and> cl_ips_file c \<noteq> None"


definition demo_cli :: Cli where
  "demo_cli = \<lparr> cl_print_version = False, cl_local_srt_port = Some 5000, cl_receiver_host = Some ''h'', cl_receiver_port = Some 5001,
     cl_ips_file = Some ''ips'', cl_config_file = Some ''c.toml'', cl_mode = Enhanced, cl_no_quality = False, cl_no_stall_deselect = False,
     cl_stall_min_in_flight = 32, cl_stall_ack_stale_ms = 3000, cl_conn_timeout_ms = 5000, cl_no_rehome = False, cl_control_socket = None,
     cl_priority_bind = Some (V4 0x7F000001, 7000), cl_metrics_bind = None \<rparr>"

definition demo_toml :: toml_parser where
  "demo_toml t = (if t = ''x'' then Inr (Some ''classic'', TomlConfig_default\<lparr> tc_conn_timeout_ms := Some 90000 \<rparr>) else Inl ''bad'')"

definition demo_build :: BuildInfo where
  "demo_build = \<lparr> bi_version = ''3.2.0'', bi_branch = [], bi_hash = ''abc1234'', bi_dirty = [], bi_package = ''srtla_send'' \<rparr>"


text \<open>The version line names a commit exactly if the build knew one.\<close>

lemma version_line_metadata:
  "version_line b = (if bi_hash b = [] then bi_version b @ '' ['' @ bi_package b @ '']''
     else bi_version b @ '' ('' @ (if bi_branch b = [] then [] else bi_branch b @ ''@'') @ bi_hash b @ bi_dirty b @ '') ['' @ bi_package b @ '']'')"
  by (simp add: version_line_def compose_version_line_def build_metadata_def)

text \<open>The clock does not run backwards, whatever the wall clock does: successive readings with non-decreasing
  instants are non-decreasing, as long as the sum stays within 64 bits.\<close>

fun readings :: "(u64 \<times> u64 option) list \<Rightarrow> Clock option \<Rightarrow> u64 list" where
  "readings [] cell = []"
| "readings ((instant, wall) # rs) cell = (case now_ms instant wall cell of (t, cell') \<Rightarrow> t # readings rs cell')"

lemma readings_anchored: "readings rs (Some c) = map (\<lambda>(instant, _). u64_add (ck_base_ms c) (instant - ck_anchor c)) rs"
  by (induction rs) (auto simp: now_ms_def clock_def Let_def)

lemma clock_monotone:
  assumes "sorted (map fst rs)" "\<forall>(instant, _) \<in> set rs. ck_base_ms c + (instant - ck_anchor c) < 2 ^ 64"
  shows "sorted (readings rs (Some c))"
proof -
  have "readings rs (Some c) = map (\<lambda>i. ck_base_ms c + (i - ck_anchor c)) (map fst rs)"
    using assms(2) by (auto simp: readings_anchored u64_add_def)
  then show ?thesis using assms(1) by (auto simp: sorted_iff_nth_mono intro: diff_le_mono)
qed

end
