(* ===== verification/Provenance.thy ===== *)
theory Provenance
  imports Sender_Invariant
begin

text \<open>
  Where datagrams come from. The loop as a function of its events (\<open>loop_step\<close>, \<open>loop_run\<close>), with every datagram it hands to
  a socket; and the proof that the sender passes packets on and makes up none: what leaves on an uplink is a control packet of
  the protocol, a packet of the client, or the flagged copy of one, and what reaches the client came in on an uplink.
\<close>

section \<open>Queued packets\<close>

abbreviation queued :: "SrtlaConnection \<Rightarrow> bytes list" where
  "queued c \<equiv> bs_queue (c_batch_sender c)"

definition queued_ok :: "(bytes \<Rightarrow> bool) \<Rightarrow> SrtlaConnection \<Rightarrow> bool" where
  "queued_ok P c \<longleftrightarrow> list_all P (queued c)"

abbreviation all_queued :: "(bytes \<Rightarrow> bool) \<Rightarrow> SrtlaConnection list \<Rightarrow> bool" where
  "all_queued P conns \<equiv> list_all (queued_ok P) conns"

lemma queued_ack_ops [simp]:
  "queued (handle_srt_ack ack now owns c) = queued c" "queued (snd (handle_nak sq now c)) = queued c"
  "queued (snd (handle_srtla_ack_specific sq classic now c)) = queued c" "queued (handle_srtla_ack_global c) = queued c"
  by (simp_all add: handle_srt_ack_def handle_nak_def handle_srtla_ack_specific_def handle_srtla_ack_global_def
      case_prod_beta Let_def split: option.splits)

lemma queued_data_ops [simp]:
  "queued (note_sent now c) = queued c" "queued (snd (stall_probe_due c)) = queued c" "queued (snd (take_batch now c)) = []"
  "queued (mark_for_recovery c) = []" "queued (reset_for_reconnect now c) = []"
  "queued (snd (queue_data_packet pkt sq t c)) = queued c @ [pkt]"
  "queued (snd (queue_probe_packet pkt s t c)) = queued c @ [pkt]"
  by (simp_all add: note_sent_def stall_probe_due_def take_batch_def fold_register_batch mark_for_recovery_def
      reset_for_reconnect_def reset_core_state_def queue_data_packet_def queue_probe_packet_def queue_packet_def
      BatchSender_reset_def batch_drain_def case_prod_beta Let_def)

lemma queued_receive_ops [simp]:
  "queued (refresh_liveness now c) = queued c" "queued (handle_keepalive_echo data now c) = queued c"
  by (simp_all add: refresh_liveness_def handle_keepalive_echo_def record_rtt_probe_def case_prod_beta Let_def split: LinkPhase.split)

lemma queued_tick_ops [simp]:
  "queued (snd (keepalive_packet now c)) = queued c" "queued (perform_window_recovery now c) = queued c"
  "queued (update_phase now c) = queued c" "queued (calculate_bitrate now c) = queued c"
  "queued (recompute_batch_regime c) = queued c" "queued (record_reconnect_attempt now c) = queued c"
  "queued (stamp_link l m c) = queued c"
  by (simp_all add: keepalive_packet_def perform_window_recovery_def update_phase_def calculate_bitrate_def
      recompute_batch_regime_def record_reconnect_attempt_def stamp_link_def set_regime_def case_prod_beta Let_def
      split: LinkPhase.split option.split)

lemma queued_passes [simp]:
  "queued (release_sole_carrier now c) = queued c" "queued (elect_apply now keep handover i c) = queued c"
  "queued (update_exclusion now u sole i c) = queued c" "queued (clear_quality_gate_state c) = queued c"
  "queued (update_stall_latch now n ceil c) = queued c" "queued (update_silence_pull now n ceil c) = queued c"
  "queued (clear_stall_latch c) = queued c" "queued (snd (link_score exp_f now qe uu c)) = queued c"
  by (simp_all add: arm_rejoin_ramp_def release_sole_carrier_def elect_apply_def update_exclusion_def
      clear_quality_gate_state_def update_stall_latch_def update_silence_pull_def clear_stall_latch_def
      link_score_def get_cached_quality_multiplier_def case_prod_beta Let_def)

text \<open>A link after an operation that sends no payload: its queue is untouched or dropped.\<close>

definition kept :: "SrtlaConnection \<Rightarrow> SrtlaConnection \<Rightarrow> bool" where
  "kept c c' \<longleftrightarrow> queued c' = queued c \<or> queued c' = []"

abbreviation all_kept :: "SrtlaConnection list \<Rightarrow> SrtlaConnection list \<Rightarrow> bool" where
  "all_kept \<equiv> list_all2 kept"

lemma kept_refl [simp]: "kept c c"
  by (simp add: kept_def)

lemma all_kept_refl [simp]: "all_kept cs cs"
  by (simp add: list_all2_refl)

lemma all_kept_trans: "all_kept cs ds \<Longrightarrow> all_kept ds es \<Longrightarrow> all_kept cs es"
  by (rule list_all2_trans [of kept kept kept]) (auto simp: kept_def)

lemma all_kept_update: "kept (cs ! i) c \<Longrightarrow> all_kept cs (cs[i := c])"
  by (simp add: list_all2_conv_all_nth) (metis kept_refl nth_list_update_eq nth_list_update_neq)

lemma all_kept_map: "(\<And>c. kept c (f c)) \<Longrightarrow> all_kept cs (map f cs)"
  by (simp add: list_all2_conv_all_nth)

lemma same_kept: "map queued ds = map queued cs \<Longrightarrow> all_kept cs ds"
  by (auto simp: list_all2_conv_all_nth kept_def dest: map_eq_imp_length_eq) (metis nth_map map_eq_imp_length_eq)

lemma kept_queued: "all_kept cs ds \<Longrightarrow> all_queued P cs \<Longrightarrow> all_queued P ds"
  by (fastforce simp: list_all2_conv_all_nth list_all_length queued_ok_def kept_def)

section \<open>Datagrams with a source\<close>

definition control_frame :: "bytes \<Rightarrow> bool" where
  "control_frame data \<longleftrightarrow> get_packet_type data \<in> {Some SRTLA_TYPE_KEEPALIVE, Some SRTLA_TYPE_REG1, Some SRTLA_TYPE_REG2}"

text \<open>\<open>P\<close> holds of the payload accepted from the client, \<open>Q\<close> of the packets received on uplinks, \<open>A\<close> of the addresses of clients.\<close>

fun effect_ok :: "(bytes \<Rightarrow> bool) \<Rightarrow> (bytes \<Rightarrow> bool) \<Rightarrow> (SocketAddr \<Rightarrow> bool) \<Rightarrow> effect \<Rightarrow> bool" where
  "effect_ok P Q A (ToUplink _ data) \<longleftrightarrow> P data \<or> control_frame data"
| "effect_ok P Q A (ToClient addr data) \<longleftrightarrow> A addr \<and> Q data"
| "effect_ok P Q A (ToForwarder addr data) \<longleftrightarrow> A addr \<and> Q data"
| "effect_ok P Q A (RestartReader _) \<longleftrightarrow> True"

abbreviation effects_ok :: "(bytes \<Rightarrow> bool) \<Rightarrow> (bytes \<Rightarrow> bool) \<Rightarrow> (SocketAddr \<Rightarrow> bool) \<Rightarrow> effect list \<Rightarrow> bool" where
  "effects_ok P Q A effs \<equiv> list_all (effect_ok P Q A) effs"

lemma all_queued_update [simp]: "all_queued P cs \<Longrightarrow> queued_ok P c \<Longrightarrow> all_queued P (cs[i := c])"
  using set_update_subset_insert [of cs i c] by (auto simp: list_all_iff)

lemma all_queued_nth: "all_queued P cs \<Longrightarrow> i < length cs \<Longrightarrow> queued_ok P (cs ! i)"
  by (simp add: list_all_length)

lemma control_frames [simp]:
  "control_frame (create_reg1_packet sid)" "control_frame (create_reg2_packet sid)" "control_frame (fst (keepalive_packet now c))"
  by (simp_all add: control_frame_def create_reg1_packet_def create_reg2_packet_def keepalive_packet_def create_keepalive_packet_ext_def
      create_keepalive_packet_def case_prod_beta Let_def)

section \<open>Flushing and forwarding\<close>

lemma batch_data: "(data, sq, t) \<in> set (fst (take_batch now c)) \<Longrightarrow> data \<in> set (queued c)"
  by (auto simp: take_batch_def batch_drain_def case_prod_beta Let_def dest!: set_zip_leftD split: if_splits)

lemma flush_source:
  assumes "flush_connection outcome now c tr = (c', tr', es)" "queued_ok P c"
  shows "queued_ok P c'" "effects_ok P Q A es"
proof -
  obtain r d es1 where s: "send_connection_batch outcome now c = (r, d, es1)" by (metis prod_cases3)
  have d: "queued d = []" "effects_ok P Q A es1"
    using s assms(2) batch_data
    by (auto simp: send_connection_batch_def list_all_iff queued_ok_def case_prod_beta split: prod.splits if_splits SendOutcome.splits
        dest!: in_set_takeD)
  then show "queued_ok P c'" "effects_ok P Q A es"
    using assms(1) by (auto simp: flush_connection_def s recover_connection_def queued_ok_def split: SendOutcome.splits)
qed

lemma flush_loop_source:
  "flush_loop io clk now cs tr = (cs', tr', es) \<Longrightarrow> all_queued P cs \<Longrightarrow> all_queued P cs' \<and> effects_ok P Q A es"
proof (induction io clk now cs tr arbitrary: cs' tr' es rule: flush_loop.induct)
  case (2 io clk now c cs tr)
  let ?o = "if needs_batch_flush now c \<or> has_queued_packets (c_batch_sender c) then io (c_conn_id c) else None"
  show ?case
  proof (cases ?o)
    case None
    obtain ds tr1 es1 where "flush_loop io clk now cs tr = (ds, tr1, es1)" by (metis prod_cases3)
    then show ?thesis using 2(1) [OF None] 2(3,4) None by auto
  next
    case (Some outcome)
    obtain c1 tr1 es1 where f: "flush_connection outcome (clk (c_conn_id c)) c tr = (c1, tr1, es1)" by (metis prod_cases3)
    obtain ds tr2 es2 where l: "flush_loop io clk now cs tr1 = (ds, tr2, es2)" by (metis prod_cases3)
    have "all_queued P ds \<and> effects_ok P Q A es2" using 2(4) by (intro 2(2) [OF Some f [symmetric] refl l]) simp
    then show ?thesis using flush_source [OF f] 2(3,4) Some f l by auto
  qed
qed simp

lemma flush_all_source:
  "flush_all_batches io clk now cs tr = (cs', tr', es) \<Longrightarrow> all_queued P cs \<Longrightarrow> all_queued P cs' \<and> effects_ok P Q A es"
  by (auto simp: flush_all_batches_def dest: flush_loop_source split: if_splits)

lemma forward_source:
  assumes "forward_via_connection env i pkt sq t b = (b', es)" "all_queued P (b_conns b)" "P pkt"
  shows "all_queued P (b_conns b') \<and> effects_ok P Q A es \<and> b_client b' = b_client b"
proof (cases "i < length (b_conns b)")
  case True
  let ?c = "b_conns b ! i"
  let ?d = "snd (queue_data_packet pkt sq t ?c)"
  let ?tr = "case sq of Some s \<Rightarrow> tracker_insert s (c_conn_id ?c) t (b_tracker b) | None \<Rightarrow> b_tracker b"
  have d: "queued_ok P ?d" using all_queued_nth [OF assms(2) True] assms(3) by (simp add: queued_ok_def)
  obtain c' tr' es' where step: "(case (if fst (queue_data_packet pkt sq t ?c) then e_io env (c_conn_id ?c) else None) of
      Some outcome \<Rightarrow> flush_connection outcome (e_clk env (c_conn_id ?c)) ?d ?tr | None \<Rightarrow> (?d, ?tr, [])) = (c', tr', es')"
    by (metis prod_cases3)
  then have "queued_ok P c' \<and> effects_ok P Q A es'" using d flush_source [OF _ d] by (auto split: option.splits if_splits)
  then show ?thesis using assms(1,2) step True by (auto simp: forward_via_connection_def Let_def case_prod_beta)
next
  case False
  then show ?thesis using assms by (auto simp: forward_via_connection_def)
qed

lemma probe_source:
  assumes "stall_probe_link env pkt s t c tr = (c', tr', es)" "queued_ok P c" "P (set_srt_data_retransmit pkt)"
  shows "queued_ok P c' \<and> effects_ok P Q A es"
proof -
  let ?d = "snd (queue_probe_packet (set_srt_data_retransmit pkt) s t (snd (stall_probe_due c)))"
  have d: "queued_ok P ?d" "queued_ok P (snd (stall_probe_due c))" using assms(2,3) by (simp_all add: queued_ok_def)
  have "es = [] \<and> c' \<in> {c, snd (stall_probe_due c), ?d} \<or> (\<exists>outcome now. flush_connection outcome now ?d tr = (c', tr', es))"
    using assms(1) by (auto simp: stall_probe_link_def case_prod_beta split: prod.splits bool.splits option.splits if_splits)
  then show ?thesis using d assms(2) flush_source [OF _ d(1)] by fastforce
qed

lemma probe_loop_source:
  "stall_probe_loop env sel pkt s t i cs tr = (cs', tr', es) \<Longrightarrow> all_queued P cs \<Longrightarrow> P (set_srt_data_retransmit pkt) \<Longrightarrow>
   all_queued P cs' \<and> effects_ok P Q A es"
proof (induction env sel pkt s t i cs tr arbitrary: cs' tr' es rule: stall_probe_loop.induct)
  case (2 env sel pkt s t i c cs tr)
  then show ?case by (fastforce split: prod.splits if_splits dest: probe_source)
qed simp

lemma enumerate_queued: "(\<And>i c. queued (f i c) = queued c) \<Longrightarrow> map queued (map (\<lambda>(i, c). f i c) (enumerate n cs)) = map queued cs"
  by (rule nth_equalityI) (simp_all add: nth_enumerate_eq)

lemma select_queued: "map queued (snd (select_connection_idx exp_f last_idx now config cs)) = map queued cs"
proof -
  have gate: "map queued (apply_stall_gate now config ds) = map queued ds" for ds
    by (simp add: apply_stall_gate_def Let_def comp_def)
  have release: "map queued (map (release_sole_carrier now) ds) = map queued ds" for ds by (simp add: comp_def)
  have enhanced: "map queued (snd (enhanced_select_connection exp_f last_idx now qe ds)) = map queued ds" for qe ds
  proof -
    define u where "u = list_ex (unconstrained now) ds"
    obtain sole cs1 where el: "elect_sole_carrier now (list_ex (quality_ok_link now) ds) ds = (sole, cs1)" by fastforce
    define cs2 where "cs2 = map (\<lambda>(i, c). update_exclusion now u sole i c) (enumerate 0 cs1)"
    obtain r cs3 where sel: "enhanced_select_connection exp_f last_idx now qe ds = (r, cs3)" by fastforce
    have "map queued cs1 = map queued ds"
      using el enumerate_queued [of "elect_apply now k h" for k h] release
      by (auto simp: elect_sole_carrier_def Let_def simp del: map_map split: if_splits prod.splits)
    moreover have "map queued cs2 = map queued cs1" unfolding cs2_def by (rule enumerate_queued) simp
    moreover have "map queued cs3 = map queued cs2"
      unfolding conjunct1 [OF enhanced_outcome [OF sel u_def el cs2_def]] by simp
    ultimately show ?thesis by (simp add: sel)
  qed
  show ?thesis
    by (simp add: select_connection_idx_def gate enhanced Let_def comp_def split: SchedulingMode.split)
qed

lemma route_kept: "route_packet env config cw pkt sq b = (r, b1) \<Longrightarrow> map queued (b_conns b1) = map queued (b_conns b)"
  using select_queued [of "e_exp env" "b_last_selected b" "e_now env" config "b_conns b"]
  by (cases "select_connection_idx (e_exp env) (b_last_selected b) (e_now env) config (b_conns b)") (auto simp: route_packet_def)

section \<open>Acknowledgements and the receive path\<close>

lemma queued_specific: "handle_srtla_ack_specific sq classic now c = (r, c') \<Longrightarrow> queued c' = queued c"
  using queued_ack_ops(3) [of sq classic now c] by simp

lemma queued_nak: "handle_nak sq now c = (r, c') \<Longrightarrow> queued c' = queued c"
  using queued_ack_ops(2) [of sq now c] by simp

lemma queued_update: "queued c = queued (cs ! i) \<Longrightarrow> map queued (cs[i := c]) = map queued cs"
  by (cases "i < length cs") (simp_all add: map_update list_update_same_conv list_update_beyond)

lemma nak_scan_queued: "map queued (snd (nak_scan nak now cs)) = map queued cs"
proof (induction cs)
  case (Cons c cs)
  obtain r c' where "handle_nak nak now c = (r, c')" by fastforce
  then show ?case using Cons queued_nak [of nak now c r c'] by (cases r) (simp_all add: case_prod_beta)
qed simp

lemma srtla_scan_queued: "map queued (srtla_ack_scan sq classic now idx i cs) = map queued cs"
proof (induction cs arbitrary: i)
  case (Cons c cs)
  obtain r c' where "handle_srtla_ack_specific sq classic now c = (r, c')" by fastforce
  then show ?case using Cons queued_specific [of sq classic now c r c'] by (cases r) (simp_all add: case_prod_beta)
qed simp

lemma ack_events_queued:
  "map queued (apply_srt_ack tr now ack cs) = map queued cs" "map queued (apply_srtla_ack idx classic now sq cs) = map queued cs"
  "map queued (snd (attribute_nak tr nak now cs)) = map queued cs"
proof -
  show "map queued (apply_srt_ack tr now ack cs) = map queued cs" by (simp add: apply_srt_ack_def Let_def comp_def)
  show "map queued (snd (attribute_nak tr nak now cs)) = map queued cs"
    using nak_scan_queued queued_update by (auto simp: attribute_nak_def split: option.split prod.split dest!: queued_nak)
  have g: "map queued (map handle_srtla_ack_global ds) = map queued ds" for ds by (simp add: comp_def)
  show "map queued (apply_srtla_ack idx classic now sq cs) = map queued cs"
    unfolding apply_srtla_ack_def Let_def
    by (auto simp: g srtla_scan_queued queued_update simp del: map_map split: prod.split dest!: queued_specific)
qed

lemma fold_queued: "(\<And>x cs. map queued (f x cs) = map queued cs) \<Longrightarrow> map queued (fold f xs cs) = map queued cs"
  by (induction xs arbitrary: cs) simp_all

lemma process_events_source:
  assumes "process_connection_events idx client tr classic now inc cs = (cs', es)" "list_all Q (forward_to_client inc)" "pred_option A client"
  shows "map queued cs' = map queued cs" "effects_ok (\<lambda>_. False) Q A es"
proof -
  note fold_queued [of "apply_srt_ack tr now", OF ack_events_queued(1)]
    fold_queued [of "apply_srtla_ack idx classic now", OF ack_events_queued(2)]
    fold_queued [of "\<lambda>nak ds. snd (attribute_nak tr nak now ds)", OF ack_events_queued(3)]
  then show "map queued cs' = map queued cs" using assms(1) by (auto simp: process_connection_events_def Let_def split: if_splits)
  show "effects_ok (\<lambda>_. False) Q A es"
    using assms by (auto simp: process_connection_events_def Let_def list_all_iff split: if_splits option.splits)
qed

lemma queued_reg_err [simp]: "queued (reject_registration c) = queued c"
  by (simp add: reject_registration_def)

lemma queued_reg3 [simp]: "queued (accept_reg3 now c) = []"
  by (simp add: accept_reg3_def clear_pre_registration_state_def mark_reconnect_success_def BatchSender_reset_def Let_def)

lemma reg1_immediate_control: "reg1_if_ngp_immediate i now m = (Some pkt, m') \<Longrightarrow> control_frame pkt"
  by (auto simp: reg1_if_ngp_immediate_def build_reg1_for_def split: if_splits)

lemma process_uplink_source:
  assumes "process_uplink_packet hash_fn ts now idx client data c reg dedup = (inc, es, c', reg', dedup')"
    and "Q data" "pred_option A client"
  shows "kept c c'" "effects_ok (\<lambda>_. False) Q A es" "list_all Q (forward_to_client inc)" "pred_option control_frame (reg1_send inc)"
proof -
  show "kept c c'" using process_uplink_packet_conn [OF assms(1)] by (auto simp: kept_def)
  show "effects_ok (\<lambda>_. False) Q A es" "list_all Q (forward_to_client inc)" "pred_option control_frame (reg1_send inc)"
    using assms unfolding process_uplink_packet_def Let_def
    by (auto simp: SrtlaIncoming_default_def split: option.splits prod.splits RegistrationEvent.splits if_splits TrySendOutcome.splits
        dest: reg1_immediate_control)
qed

lemma send_reg1_source:
  assumes "send_immediate_reg1 env reg1 c = (c', es)" "pred_option control_frame reg1"
  shows "queued c' = queued c \<and> effects_ok (\<lambda>_. False) Q A es"
  using assms by (auto simp: send_immediate_reg1_def split: option.splits SendOutcome.splits)

lemma uplink_packet_source:
  assumes "handle_uplink_packet env config packet b = (b', es)" "Q (up_bytes packet)" "pred_option A (b_client b)"
  shows "all_kept (b_conns b) (b_conns b') \<and> b_client b' = b_client b \<and> effects_ok (\<lambda>_. False) Q A es"
proof (cases "up_bytes packet = [] \<or> position (\<lambda>c. c_conn_id c = up_conn_id packet) (b_conns b) = None")
  case True
  then have "b' = b \<and> es = []" using assms(1) by (auto simp: handle_uplink_packet_def split: if_splits)
  then show ?thesis by simp
next
  case False
  then obtain i where i: "position (\<lambda>c. c_conn_id c = up_conn_id packet) (b_conns b) = Some i" and ne: "up_bytes packet \<noteq> []" by blast
  obtain inc es1 c reg dedup where p: "process_uplink_packet (e_hash env) (e_try_send env) (e_now env) i (b_client b)
      (up_bytes packet) (b_conns b ! i) (b_reg b) (b_dedup b) = (inc, es1, c, reg, dedup)"
    by (metis prod_cases5)
  obtain c1 es2 where r: "send_immediate_reg1 env (reg1_send inc) c = (c1, es2)" by fastforce
  obtain cs es3 where e: "process_connection_events i (b_client b) (b_tracker b) (is_classic (cfg_mode config))
      (e_now_events env) inc ((b_conns b)[i := c1]) = (cs, es3)" by fastforce
  note u = process_uplink_source [OF p, of Q A, OF assms(2,3)]
  note s = send_reg1_source [OF r u(4), of Q A]
  note ev = process_events_source [OF e u(3) assms(3)]
  have "kept (b_conns b ! i) c1" using u(1) s by (simp add: kept_def)
  then have "all_kept (b_conns b) cs" using same_kept [OF ev(1)] all_kept_update all_kept_trans by blast
  then show ?thesis using assms(1) u(2) s ev(2) ne i p r e by (auto simp: handle_uplink_packet_def)
qed

lemma drain_source:
  "drain_loop n config queue b = (b', es, rest) \<Longrightarrow> list_all (\<lambda>(env, p). Q (up_bytes p)) queue \<Longrightarrow> pred_option A (b_client b) \<Longrightarrow>
   all_kept (b_conns b) (b_conns b') \<and> b_client b' = b_client b \<and> effects_ok (\<lambda>_. False) Q A es \<and> list_all (\<lambda>(env, p). Q (up_bytes p)) rest"
proof (induction n config queue b arbitrary: b' es rest rule: drain_loop.induct)
  case (3 n config env packet queue b)
  obtain b1 es1 where h: "handle_uplink_packet env config packet b = (b1, es1)" by fastforce
  obtain b2 es2 r2 where l: "drain_loop n config queue b1 = (b2, es2, r2)" by (metis prod_cases3)
  have "all_kept (b_conns b) (b_conns b1) \<and> b_client b1 = b_client b \<and> effects_ok (\<lambda>_. False) Q A es1"
    using uplink_packet_source [OF h] 3(3,4) by simp
  then show ?case using 3(1) [OF h [symmetric] l] 3(2-4) h l all_kept_trans by auto
qed auto

text \<open>What a handler must leave: links that queue only client payload, and a client address that is one.\<close>

definition bond_source :: "(bytes \<Rightarrow> bool) \<Rightarrow> (SocketAddr \<Rightarrow> bool) \<Rightarrow> Bond \<Rightarrow> bool" where
  "bond_source P A b \<longleftrightarrow> all_queued P (b_conns b) \<and> pred_option A (b_client b)"

lemma bond_source_kept: "all_kept (b_conns b) (b_conns b') \<Longrightarrow> b_client b' = b_client b \<Longrightarrow> bond_source P A b \<Longrightarrow> bond_source P A b'"
  using kept_queued by (auto simp: bond_source_def)

lemma client_packet_source:
  assumes "handle_srt_packet env res done config cw b = (b', es)" "bond_source P A b"
    "\<And>pkt src. res = Some (pkt, src) \<Longrightarrow> P pkt \<and> P (set_srt_data_retransmit pkt) \<and> A src"
  shows "bond_source P A b' \<and> effects_ok P Q A es"
proof (cases res)
  case None
  then show ?thesis using assms by (simp add: handle_srt_packet_def)
next
  case (Some r)
  obtain pkt src where r: "r = (pkt, src)" by (cases r)
  have P: "P pkt" "P (set_srt_data_retransmit pkt)" "A src" using assms(3) Some r by auto
  have q: "all_queued P (b_conns b)" "pred_option A (b_client b)" using assms(2) by (simp_all add: bond_source_def)
  have route: "all_queued P (b_conns b1)" if "route_packet env config cw pkt sq b = (i, b1)" for sq i b1
    using kept_queued [OF same_kept [OF route_kept [OF that]] q(1)] .
  have fwd: "all_queued P (b_conns b2) \<and> effects_ok P Q A es2"
    if "forward_via_connection env i pkt sq t b1 = (b2, es2)" "all_queued P (b_conns b1)" for i sq t b1 b2 es2
    using forward_source [OF that P(1), of Q A] by simp
  have probe: "all_queued P (b_conns b2) \<and> effects_ok P Q A es2"
    if "send_stall_probes env i pkt s t b1 = (b2, es2)" "all_queued P (b_conns b1)" for i s t b1 b2 es2
    using that probe_loop_source [OF _ that(2) P(2), of env i s t 0 "b_tracker b1" _ _ _ Q A]
    by (auto simp: send_stall_probes_def split: prod.splits)
  show ?thesis
    using assms(1,2) P q unfolding Some r handle_srt_packet_def Let_def bond_source_def
    by (auto split: if_splits option.splits prod.splits dest!: route fwd probe)
qed

section \<open>Housekeeping\<close>

lemma io_send_source:
  "queued (fst (io_send env io pkt c)) = queued c" "control_frame pkt \<Longrightarrow> effects_ok (\<lambda>_. False) Q A (snd (io_send env io pkt c))"
  "control_frame pkt \<Longrightarrow> effects_ok (\<lambda>_. False) Q A (io_send_unstamped env io pkt c)"
  by (auto simp: io_send_def io_send_unstamped_def split: option.split SendOutcome.split)

lemma rebuild_kept: "rebuild_uplink_socket env c tr = Some (c', tr') \<Longrightarrow> kept c c'"
  by (auto simp: rebuild_uplink_socket_def kept_def Let_def split: if_splits)

lemma recover_kept: "recover_connection c tr = (c', tr') \<Longrightarrow> kept c c'"
  by (auto simp: recover_connection_def kept_def)

lemma hk_reconnect_source: "hk_reconnect env io c tr = (c', tr', es) \<Longrightarrow> kept c c' \<and> effects_ok (\<lambda>_. False) Q A es"
  by (auto simp: hk_reconnect_def reconnect_uplink_def split: option.splits prod.splits dest!: rebuild_kept recover_kept)

lemma hk_timed_out_source:
  assumes "hk_timed_out env io i c reg tr = (c', reg', tr', es)"
  shows "kept c c' \<and> effects_ok (\<lambda>_. False) Q A es"
proof (cases "conn_should_attempt_reconnect (h_now env) c")
  case True
  obtain c1 tr1 es1 where r: "hk_reconnect env io (record_reconnect_attempt (h_now env) c) tr = (c1, tr1, es1)"
    by (metis prod_cases3)
  have "c' = c1 \<and> es = es1 \<or> (\<exists>pkt. control_frame pkt \<and> c' = fst (io_send env io pkt c1) \<and> es = es1 @ snd (io_send env io pkt c1))"
    using assms True
    by (auto simp: hk_timed_out_def r build_reg1_for_def build_reg2_def split: option.splits prod.splits if_splits) (metis control_frames fst_conv snd_conv)+
  then show ?thesis using hk_reconnect_source [OF r, of Q A] by (auto simp: kept_def io_send_source)
qed (use assms in \<open>simp add: hk_timed_out_def\<close>)

lemma hk_active_source: "queued (fst (hk_active env io classic c)) = queued c" "effects_ok (\<lambda>_. False) Q A (snd (hk_active env io classic c))"
proof -
  have ka: "queued (fst (hk_keepalive env io due d)) = queued d" "effects_ok (\<lambda>_. False) Q A (snd (hk_keepalive env io due d))" for due d
    by (simp_all add: hk_keepalive_def case_prod_beta io_send_source)
  show "queued (fst (hk_active env io classic c)) = queued c" "effects_ok (\<lambda>_. False) Q A (snd (hk_active env io classic c))"
    by (simp_all add: hk_active_def case_prod_beta Let_def ka)
qed

lemma hk_loop_source:
  "hk_loop env io classic i cs reg tr = (cs', reg', tr', es) \<Longrightarrow> all_kept cs cs' \<and> effects_ok (\<lambda>_. False) Q A es"
proof (induction env io classic i cs reg tr arbitrary: cs' reg' tr' es rule: hk_loop.induct)
  case (2 env io classic i c cs reg tr)
  let ?step = "if is_timed_out (h_now env) c then hk_timed_out env io i c reg tr
            else case hk_active env io classic c of (c', es) \<Rightarrow> (c', reg, tr, es)"
  obtain c1 reg1 tr1 es1 where s: "?step = (c1, reg1, tr1, es1)" by (metis prod_cases4)
  obtain ds reg2 tr2 es2 where l: "hk_loop env io classic (Suc i) cs reg1 tr1 = (ds, reg2, tr2, es2)" by (metis prod_cases4)
  have "kept c c1 \<and> effects_ok (\<lambda>_. False) Q A es1"
    using s hk_active_source(1) [of env io classic c] hk_active_source(2) [where env = env and io = io and classic = classic and c = c]
      hk_timed_out_source [of env io i c reg tr]
    by (cases "hk_active env io classic c") (auto simp: kept_def split: if_splits)
  then show ?case using 2(1) [OF s [symmetric] refl refl l] 2(2) s l by auto
qed simp

lemma hk_probing_kept: "all_kept (hk_conns st) (hk_conns (hk_probing env st))"
  by (auto simp: hk_probing_def Let_def kept_def split: option.split intro!: all_kept_update)

lemma concat_ok: "(\<And>x. x \<in> set xs \<Longrightarrow> effects_ok P Q A (f x)) \<Longrightarrow> effects_ok P Q A (concat (map f xs))"
  by (auto simp: list_all_iff)

lemma driver_sends_control:
  assumes "reg_driver_pending_sends n now m = (sends, m')"
  shows "pred_option (\<lambda>(i, pkt). control_frame pkt) (rs_reg1 sends)" "pred_option control_frame (rs_broadcast_reg2 sends)"
  using assms by (auto simp: reg_driver_pending_sends_def driver_reg1_def build_reg1_for_def Let_def split: prod.splits if_splits option.splits)

lemma hk_driver_sends_source:
  assumes "hk_driver_sends env io sends cs = (cs', es)"
    "pred_option (\<lambda>(i, pkt). control_frame pkt) (rs_reg1 sends)" "pred_option control_frame (rs_broadcast_reg2 sends)"
  shows "all_kept cs cs' \<and> effects_ok (\<lambda>_. False) Q A es"
proof -
  have all: "all_kept ds (map (\<lambda>c. fst (io_send env io pkt c)) ds)" for pkt ds
    by (rule all_kept_map) (simp add: kept_def io_send_source)
  have one: "all_kept cs (cs[i := fst (io_send env io pkt (cs ! i))])" for i pkt
    by (rule all_kept_update) (simp add: kept_def io_send_source)
  have each: "control_frame pkt \<Longrightarrow> effects_ok (\<lambda>_. False) Q A (concat (map (\<lambda>c. snd (io_send env io pkt c)) ds))" for pkt ds
    by (rule concat_ok) (rule io_send_source)
  show ?thesis
    using assms all one all_kept_trans [OF one all]
    by (auto simp: hk_driver_sends_def Let_def case_prod_beta each io_send_source split: option.splits if_splits)
qed

lemma rebuild_loop_source: "rebuild_loop env io cs tr = (cs', tr', es) \<Longrightarrow> all_kept cs cs' \<and> effects_ok (\<lambda>_. False) Q A es"
proof (induction env io cs tr arbitrary: cs' tr' es rule: rebuild_loop.induct)
  case (2 env io c cs tr)
  let ?step = "case Mapping.lookup io (c_conn_id c) of
      Some _ \<Rightarrow> (case rebuild_uplink_socket env c tr of Some (c', tr') \<Rightarrow> (c', tr', [RestartReader (c_conn_id c)])
        | None \<Rightarrow> (case recover_connection c tr of (c', tr') \<Rightarrow> (c', tr', [])))
    | None \<Rightarrow> (case recover_connection c tr of (c', tr') \<Rightarrow> (c', tr', []))"
  obtain c1 tr1 es1 where s: "?step = (c1, tr1, es1)" by (metis prod_cases3)
  obtain ds tr2 es2 where l: "rebuild_loop env io cs tr1 = (ds, tr2, es2)" by (metis prod_cases3)
  have "kept c c1 \<and> effects_ok (\<lambda>_. False) Q A es1"
    using s by (auto split: option.splits prod.splits dest!: rebuild_kept recover_kept)
  then show ?case using 2(1) [OF s [symmetric] refl l] 2(2) s l by auto
qed simp

lemma start_probing_source:
  assumes "start_probing cs now m = (probes, cs', m')"
  shows "map queued cs' = map queued cs" "list_all (\<lambda>(i, pkt). control_frame pkt) probes"
proof -
  show "map queued cs' = map queued cs" using start_probing_conns [OF assms] by (auto simp: comp_def)
  show "list_all (\<lambda>(i, pkt). control_frame pkt) probes"
    using assms
    by (auto simp: start_probing_def probe_reg2_packet_def Let_def comp_def list_all_iff split: if_splits dest!: set_zip_rightD)
qed

lemma probe_sends_source:
  "list_all (\<lambda>(i, pkt). control_frame pkt) probes \<Longrightarrow>
   effects_ok (\<lambda>_. False) Q A (concat (map (\<lambda>(i, pkt). if i < length cs then io_send_unstamped env io pkt (cs ! i) else []) probes))"
  unfolding list_all_iff [of "\<lambda>(i, pkt). control_frame pkt"] by (rule concat_ok) (auto simp: io_send_source)

lemma rehome_source:
  assumes "rehome_bond env a st = (st', es)"
  shows "all_kept (hk_conns st) (hk_conns st') \<and> effects_ok (\<lambda>_. False) Q A es"
proof -
  let ?io = "repoint a (hk_conns st) (hk_io st)"
  obtain cs tr es1 where r: "rebuild_loop env ?io (hk_conns st) (hk_tracker st) = (cs, tr, es1)" by (metis prod_cases3)
  obtain probes cs' reg where p: "start_probing cs (h_now env) (reset_for_rehome (h_id_half env) (h_probe_id env) (hk_reg st)) =
      (probes, cs', reg)" by (metis prod_cases3)
  note rebuild_loop_source [OF r, of Q A] same_kept [OF start_probing_source(1) [OF p]] start_probing_source(2) [OF p]
    probe_sends_source [of probes Q A cs' env ?io]
  then show ?thesis using assms all_kept_trans by (auto simp: rehome_bond_def Let_def r p)
qed

lemma hk_failure_source:
  assumes "hk_failure env st = (res, st', es)"
  shows "all_kept (hk_conns st) (hk_conns st') \<and> effects_ok (\<lambda>_. False) Q A es"
proof -
  have "all_kept (hk_conns st1) (hk_conns st1') \<and> effects_ok (\<lambda>_. False) Q A es1"
    if "try_rehome env st1 = (r, st1', es1)" for st1 r st1' es1
    using that by (auto simp: try_rehome_def Let_def split: list.splits prod.splits if_splits option.splits dest!: rehome_source [where Q = Q and A = A])
  then show ?thesis
    using assms by (fastforce simp: hk_failure_def Let_def split: if_splits prod.splits bool.splits option.splits)
qed

lemma housekeeping_source:
  assumes "handle_housekeeping env classic st = (res, st', es)"
  shows "all_kept (hk_conns st) (hk_conns st') \<and> effects_ok (\<lambda>_. False) Q A es"
proof -
  let ?st0 = "st\<lparr> hk_reg := snd (clear_pending_if_timed_out (h_now env) (hk_reg st)) \<rparr>"
  let ?st1 = "hk_probing env ?st0"
  obtain cs reg tr es1 where l: "hk_loop env (hk_io ?st1) classic 0 (hk_conns ?st1) (hk_reg ?st1) (hk_tracker ?st1) = (cs, reg, tr, es1)"
    by (metis prod_cases4)
  obtain sends reg1 where d: "reg_driver_pending_sends (length cs) (h_now env) (update_active_connections cs reg) = (sends, reg1)"
    by fastforce
  obtain cs1 es2 where s: "hk_driver_sends env (hk_io ?st1) sends cs = (cs1, es2)" by fastforce
  obtain res2 st2 es3 where f: "hk_failure env (?st1\<lparr> hk_conns := cs1, hk_reg := reg1, hk_tracker := tr \<rparr>) = (res2, st2, es3)"
    by (metis prod_cases3)
  note 0 = hk_probing_kept [of ?st0 env] and 1 = hk_loop_source [OF l, of Q A]
    and 2 = hk_driver_sends_source [OF s driver_sends_control [OF d], of Q A] and 3 = hk_failure_source [OF f, of Q A]
  have "all_kept (hk_conns st) (hk_conns st2)" using 0 1 2 3 by (auto intro: all_kept_trans)
  then show ?thesis using assms(1) 1 2 3 by (auto simp: handle_housekeeping_def hk_serve_def Let_def l d s f)
qed

section \<open>The loop as a function of its events\<close>

text \<open>What the surroundings offer to the loop: the arm that is ready, with what it meets, or an input of one of the
  other tasks. \<open>UplinkReady\<close> on an empty channel is a branch that is not ready and does nothing.\<close>

datatype loop_event =
  ClientPacket Pass "(bytes \<times> SocketAddr) option"
| UplinkReady Pass
| HousekeepingTick Pass HkEnv ConnectEnv u64
| Sighup Pass "string option"
| BatchFlush Pass
| Received UplinkPacket
| PriorityDatagram bytes u64
| ControlCommand setter

fun loop_step :: "Params \<Rightarrow> Sender \<Rightarrow> loop_event \<Rightarrow> Sender \<times> effect list" where
  "loop_step p s (ClientPacket x res) = on_client_packet x res s"
| "loop_step p s (UplinkReady x) =
     (case s_queue s of [] \<Rightarrow> (s, []) | packet # queue \<Rightarrow> on_uplink_packet x packet (s\<lparr> s_queue := queue \<rparr>))"
| "loop_step p s (HousekeepingTick x h k now_cc) = on_housekeeping_tick x h k now_cc s"
| "loop_step p s (Sighup x file) = on_sighup p x file s"
| "loop_step p s (BatchFlush x) = on_batch_flush x s"
| "loop_step p s (Received packet) = (s\<lparr> s_queue := s_queue s @ [packet] \<rparr>, [])"
| "loop_step p s (PriorityDatagram buf now) = (s\<lparr> s_critical := on_priority_datagram buf now (s_critical s) \<rparr>, [])"
| "loop_step p s (ControlCommand cmd) = (s\<lparr> s_bond := (s_bond s)\<lparr> b_config := run_setter cmd (b_config (s_bond s)) \<rparr> \<rparr>, [])"

definition loop_pass :: "Params \<Rightarrow> Sender \<times> effect list \<Rightarrow> loop_event \<Rightarrow> Sender \<times> effect list" where
  "loop_pass p r e = (case loop_step p (fst r) e of (s', effs) \<Rightarrow> (s', snd r @ effs))"

definition loop_run :: "Params \<Rightarrow> Sender \<Rightarrow> loop_event list \<Rightarrow> Sender \<times> effect list" where
  "loop_run p s events = foldl (loop_pass p) (s, []) events"

fun event_ok :: "Sender \<Rightarrow> loop_event \<Rightarrow> bool" where
  "event_ok s (ClientPacket x res) \<longleftrightarrow> pass_ok x"
| "event_ok s (UplinkReady x) \<longleftrightarrow> pass_ok x \<and> s_queue s \<noteq> []"
| "event_ok s (HousekeepingTick x h k now_cc) \<longleftrightarrow> pass_ok x \<and> hk_env_ok h \<and> fresh_ids k (length (pending_ips s)) (b_conns (s_bond s))"
| "event_ok s (Sighup x file) \<longleftrightarrow> pass_ok x"
| "event_ok s _ \<longleftrightarrow> True"

lemma sender_step_loop: "sender_step p s s' \<longleftrightarrow> (\<exists>e. event_ok s e \<and> fst (loop_step p s e) = s')"
proof
  assume "sender_step p s s'"
  then show "\<exists>e. event_ok s e \<and> fst (loop_step p s e) = s'"
  proof cases
    case (client_packet x res effs)
    then show ?thesis by (intro exI [of _ "ClientPacket x res"]) simp
  next
    case (uplink_packet x packet queue effs)
    then show ?thesis by (intro exI [of _ "UplinkReady x"]) simp
  next
    case (housekeeping x h k now_cc effs)
    then show ?thesis by (intro exI [of _ "HousekeepingTick x h k now_cc"]) simp
  next
    case (sighup x content effs)
    then show ?thesis by (intro exI [of _ "Sighup x content"]) simp
  next
    case (batch_flush x effs)
    then show ?thesis by (intro exI [of _ "BatchFlush x"]) simp
  next
    case (received packet)
    then show ?thesis by (intro exI [of _ "Received packet"]) simp
  next
    case (priority buf now)
    then show ?thesis by (intro exI [of _ "PriorityDatagram buf now"]) simp
  next
    case (control cmd)
    then show ?thesis by (intro exI [of _ "ControlCommand cmd"]) simp
  qed
next
  assume "\<exists>e. event_ok s e \<and> fst (loop_step p s e) = s'"
  then obtain e where e: "event_ok s e" "fst (loop_step p s e) = s'" by blast
  then obtain effs where step: "loop_step p s e = (s', effs)" by (metis prod.collapse)
  show "sender_step p s s'"
    using e(1) step by (cases e) (auto intro: sender_step.intros simp: neq_Nil_conv)
qed

section \<open>Every datagram has a source\<close>

definition state_source :: "(bytes \<Rightarrow> bool) \<Rightarrow> (bytes \<Rightarrow> bool) \<Rightarrow> (SocketAddr \<Rightarrow> bool) \<Rightarrow> Sender \<Rightarrow> bool" where
  "state_source P Q A s \<longleftrightarrow> bond_source P A (s_bond s) \<and> list_all (\<lambda>packet. Q (up_bytes packet)) (s_queue s)"

fun event_source :: "(bytes \<Rightarrow> bool) \<Rightarrow> (bytes \<Rightarrow> bool) \<Rightarrow> (SocketAddr \<Rightarrow> bool) \<Rightarrow> loop_event \<Rightarrow> bool" where
  "event_source P Q A (ClientPacket x (Some (pkt, src))) \<longleftrightarrow> P pkt \<and> P (set_srt_data_retransmit pkt) \<and> A src"
| "event_source P Q A (Received packet) \<longleftrightarrow> Q (up_bytes packet)"
| "event_source P Q A _ \<longleftrightarrow> True"

lemma no_payload: "effects_ok (\<lambda>_. False) Q A es \<Longrightarrow> effects_ok P Q A es"
  by (rule list.pred_mono_strong [of "effect_ok (\<lambda>_. False) Q A"]) (auto elim: effect_ok.elims)

abbreviation links :: "Sender \<Rightarrow> SrtlaConnection list" where
  "links s \<equiv> b_conns (s_bond s)"

lemma drain_channel_kept:
  assumes "drain_channel x config s = (s', es)" "list_all (\<lambda>packet. Q (up_bytes packet)) (s_queue s)" "pred_option A (b_client (s_bond s))"
  shows "all_kept (links s) (links s') \<and> b_client (s_bond s') = b_client (s_bond s) \<and> effects_ok (\<lambda>_. False) Q A es \<and>
    list_all (\<lambda>packet. Q (up_bytes packet)) (s_queue s')"
proof -
  let ?q = "zip (map (\<lambda>i. shell_env (s_io s) (x_send x) (x_drain x i)) [0..<length (s_queue s)]) (s_queue s)"
  obtain b es1 rest where d: "drain_loop MAX_DRAIN_PACKETS config ?q (s_bond s) = (b, es1, rest)" by (metis prod_cases3)
  have "list_all (\<lambda>(env, p). Q (up_bytes p)) ?q"
    using assms(2) by (auto simp: list_all_iff dest!: set_zip_rightD)
  note drain_source [OF d this assms(3)]
  moreover have "s' = s\<lparr> s_bond := b, s_queue := map snd rest \<rparr>" "es = es1"
    using assms(1) d by (simp_all add: drain_channel_def drain_packet_queue_def Let_def)
  ultimately show ?thesis by (simp add: list_all_iff case_prod_beta)
qed

lemma drain_channel_source:
  assumes "drain_channel x config s = (s', es)" "state_source P Q A s"
  shows "state_source P Q A s' \<and> effects_ok P Q A es"
  using drain_channel_kept [OF assms(1), of Q A] assms(2) bond_source_kept no_payload
  by (auto simp: state_source_def bond_source_def dest: kept_queued)

lemma run_housekeeping_kept:
  assumes "run_housekeeping h s = (s', es)"
  shows "all_kept (links s) (links s') \<and> b_client (s_bond s') = b_client (s_bond s) \<and> s_queue s' = s_queue s \<and>
    effects_ok (\<lambda>_. False) Q A es"
proof -
  let ?b = "s_bond s"
  obtain res st es1 where hk: "handle_housekeeping h (is_classic (mode_from_u8 (dc_mode (b_config ?b))))
      \<lparr> hk_conns = b_conns ?b, hk_io = s_io s, hk_reg = b_reg ?b, hk_tracker = b_tracker ?b,
        hk_all_failed_at = s_all_failed_at s, hk_rehome = s_rehome s \<rparr> = (res, st, es1)" by (metis prod_cases3)
  show ?thesis using assms housekeeping_source [OF hk, of Q A] by (auto simp: run_housekeeping_def Let_def hk)
qed

lemma run_housekeeping_source:
  assumes "run_housekeeping h s = (s', es)" "state_source P Q A s"
  shows "state_source P Q A s' \<and> effects_ok P Q A es"
  using run_housekeeping_kept [OF assms(1), of Q A] assms(2) bond_source_kept no_payload by (auto simp: state_source_def)

lemma new_uplinks_empty: "queued (new_uplink k host port w x) = []"
  by (simp add: new_uplink_def new_registering_def BatchSender_new_def case_prod_beta)

lemma apply_changes_queued:
  "\<exists>f n. map queued (ul_conns (apply_connection_changes k ips weights host port u)) =
     map queued (filter f (ul_conns u)) @ replicate n []"
proof -
  have stale: "ul_conns (remove_stale ls u) = filter (\<lambda>c. c_label c \<in> set ls) (ul_conns u)" for ls
    by (simp add: remove_stale_def Let_def)
  show ?thesis
    unfolding apply_changes_result(1) stale by (simp add: comp_def new_uplinks_empty map_replicate_const) blast
qed

lemma tick_queued: "map queued (links (stamp_links exp_f now s)) = map queued (links s)" "s_queue (stamp_links exp_f now s) = s_queue s"
  "b_client (s_bond (stamp_links exp_f now s)) = b_client (s_bond s)"
  by (simp_all add: stamp_links_def Let_def comp_def case_prod_beta)

lemma apply_pending_queued:
  "\<exists>f n. map queued (links (apply_pending k s)) = map queued (filter f (links s)) @ replicate n []"
  "s_queue (apply_pending k s) = s_queue s" "b_client (s_bond (apply_pending k s)) = b_client (s_bond s)"
proof -
  have same: "\<exists>f n. map queued cs = map queued (filter f cs) @ replicate n []" for cs
    by (intro exI [of _ "\<lambda>_. True"] exI [of _ 0]) simp
  show "\<exists>f n. map queued (links (apply_pending k s)) = map queued (filter f (links s)) @ replicate n []"
    using same apply_changes_queued [where u = "\<lparr> ul_conns = links s, ul_io = s_io s, ul_last_selected = b_last_selected (s_bond s), ul_tracker = b_tracker (s_bond s) \<rparr>"]
    by (simp add: apply_pending_def Let_def split: option.split)
qed (simp_all add: apply_pending_def Let_def split: option.split)

lemma all_queued_lists: "all_queued P cs \<longleftrightarrow> list_all (list_all P) (map queued cs)"
  by (simp add: list_all_iff queued_ok_def)

lemma tick_source:
  assumes "state_source P Q A s"
  shows "state_source P Q A (apply_pending k (stamp_links exp_f now s))"
proof -
  let ?t = "stamp_links exp_f now s"
  obtain f n where "map queued (links (apply_pending k ?t)) = map queued (filter f (links ?t)) @ replicate n []"
    using apply_pending_queued(1) by blast
  moreover have "all_queued P (links ?t)" using assms by (simp add: all_queued_lists tick_queued state_source_def bond_source_def del: list.pred_map)
  ultimately have "all_queued P (links (apply_pending k ?t))"
    by (simp add: all_queued_lists del: list.pred_map) (auto simp: list_all_iff queued_ok_def)
  then show ?thesis using assms by (simp add: state_source_def bond_source_def apply_pending_queued tick_queued)
qed

lemma loop_step_source:
  assumes "loop_step p s e = (s', es)" "state_source P Q A s" "event_source P Q A e"
  shows "state_source P Q A s' \<and> effects_ok P Q A es"
proof (cases e)
  case (ClientPacket x res)
  let ?env = "shell_env (s_io s) (x_send x) (x_env x)" and ?cfg = "snapshot (b_config (s_bond s))"
  obtain b es1 where h: "handle_srt_packet ?env res (rm_has_connected (b_reg (s_bond s))) ?cfg (s_critical s) (s_bond s) = (b, es1)" by fastforce
  obtain s2 es2 where d: "drain_channel x ?cfg (s\<lparr> s_bond := b \<rparr>) = (s2, es2)" by fastforce
  have "bond_source P A b \<and> effects_ok P Q A es1"
    by (rule client_packet_source [OF h]) (use assms(2,3) ClientPacket in \<open>auto simp: state_source_def\<close>)
  then show ?thesis
    using assms(1,2) ClientPacket h d drain_channel_source [OF d, of P Q A]
    by (auto simp: on_client_packet_def Let_def state_source_def)
next
  case (UplinkReady x)
  show ?thesis
  proof (cases "s_queue s")
    case Nil
    then show ?thesis using assms UplinkReady by simp
  next
    case (Cons packet queue)
    let ?env = "shell_env (s_io s) (x_send x) (x_env x)" and ?cfg = "snapshot (b_config (s_bond s))"
    obtain b es1 where h: "handle_uplink_packet ?env ?cfg packet (s_bond s) = (b, es1)" by fastforce
    obtain s2 es2 where d: "drain_channel x ?cfg (s\<lparr> s_queue := queue, s_bond := b \<rparr>) = (s2, es2)" by fastforce
    have "bond_source P A b \<and> effects_ok P Q A es1"
      using uplink_packet_source [OF h, of Q A] assms(2) Cons bond_source_kept no_payload by (auto simp: state_source_def bond_source_def dest: kept_queued)
    then show ?thesis
      using assms(1,2) UplinkReady Cons h d drain_channel_source [OF d, of P Q A]
      by (auto simp: on_uplink_packet_def Let_def state_source_def)
  qed
next
  case (HousekeepingTick x h k now_cc)
  obtain s1 es1 where r: "run_housekeeping h s = (s1, es1)" by fastforce
  let ?s2 = "apply_pending k (stamp_links (e_exp (x_env x)) now_cc s1)"
  let ?s3 = "?s2\<lparr> s_status_elapsed_ms := status_tick (s_status_elapsed_ms ?s2),
      s_readers := sync_readers (b_conns (s_bond ?s2)) (s_io ?s2) (s_readers ?s2) \<rparr>"
  obtain s4 es4 where d: "drain_channel x (snapshot (b_config (s_bond ?s3))) ?s3 = (s4, es4)" by fastforce
  note hk = run_housekeeping_source [OF r assms(2)]
  have "state_source P Q A ?s3" using tick_source [OF conjunct1 [OF hk]] by (simp add: state_source_def)
  note drain_channel_source [OF d this]
  then show ?thesis using assms(1) HousekeepingTick hk r d by (auto simp: on_housekeeping_tick_def Let_def)
next
  case (Sighup x content)
  have q: "state_source P Q A (s\<lparr> s_pending := c \<rparr>) = state_source P Q A s" for c by (simp add: state_source_def)
  show ?thesis
    using assms Sighup drain_channel_source [of x "snapshot (b_config (s_bond s))" _ s' es P Q A]
    by (auto simp: on_sighup_def q split: IpReload.splits)
next
  case (BatchFlush x)
  then show ?thesis
    using assms by (auto simp: on_batch_flush_def state_source_def bond_source_def split: prod.splits dest!: flush_all_source)
qed (use assms in \<open>auto simp: state_source_def bond_source_def\<close>)

interpretation source: machine "loop_pass p" "event_source P Q A" "\<lambda>r. state_source P Q A (fst r) \<and> effects_ok P Q A (snd r)"
  for p P Q A
proof
  fix r e
  assume "state_source P Q A (fst r) \<and> effects_ok P Q A (snd r)" "event_source P Q A e"
  then show "state_source P Q A (fst (loop_pass p r e)) \<and> effects_ok P Q A (snd (loop_pass p r e))"
    using loop_step_source [of p "fst r" e] by (auto simp: loop_pass_def split: prod.split)
qed

lemma start_source:
  assumes "sender_start p z = Inr (s, es)"
  shows "state_source P Q A s \<and> effects_ok P Q A es"
proof -
  obtain ips weights conns io where c: "create_connections_from_ips (z_connect z) ips weights (p_receiver_host p) (p_receiver_port p) Mapping.empty = (conns, io)"
    and s: "(case start_probing conns (z_now z) (RegistrationManager_new (z_own_id z) (z_probe_id z)) of
        (probes, conns1, reg) \<Rightarrow>
          let effs1 = concat (map (\<lambda>(idx, pkt). if idx < length conns1
                        then io_send_unstamped (z_housekeeping z) io pkt (conns1 ! idx) else []) probes);
              s = \<lparr> s_bond = \<lparr> b_conns = conns1, b_reg = reg, b_tracker = SequenceTracker_new,
                      b_dedup = ClientDedup_new, b_last_selected = None, b_client = None, b_config = z_config z \<rparr>,
                    s_io = io, s_readers = sync_readers conns1 io [], s_queue = [], s_all_failed_at = None,
                    s_rehome = RehomeGate_new (dc_rehome_on_failure (z_config z)), s_pending = None,
                    s_filter = WeakLinkFilter_new, s_cc = Mapping.empty, s_status_elapsed_ms = 0,
                    s_critical = CriticalWindow_new \<rparr>
          in case z_signal_error z of Some e \<Rightarrow> Inl e
             | None \<Rightarrow> (case run_housekeeping (z_housekeeping z) s of (s', effs2) \<Rightarrow> (Inr (s', effs1 @ effs2) :: string + _))) = Inr (s, es)"
    using assms by (auto simp: sender_start_def split: option.splits prod.splits if_splits)
  obtain probes conns1 reg where pr: "start_probing conns (z_now z) (RegistrationManager_new (z_own_id z) (z_probe_id z)) =
      (probes, conns1, reg)" by (metis prod_cases3)
  have "all_queued P conns"
    using create_loop_result [OF c [unfolded create_connections_from_ips_def]] by (simp add: list_all_iff queued_ok_def new_uplinks_empty)
  then have q: "all_queued P conns1" using kept_queued [OF same_kept [OF start_probing_source(1) [OF pr]]] by simp
  note no_payload [OF probe_sends_source [OF start_probing_source(2) [OF pr], of Q A conns1 "z_housekeeping z" io], of P]
  then show ?thesis
    using s q by (auto simp: pr Let_def split: prod.splits option.splits dest!: run_housekeeping_source [where P = P and Q = Q and A = A]
        simp: state_source_def bond_source_def)
qed

text \<open>What a run has taken in: the datagrams of the client with their senders, and those of the uplinks.\<close>

fun client_datagram :: "loop_event \<Rightarrow> (bytes \<times> SocketAddr) list" where
  "client_datagram (ClientPacket x (Some r)) = [r]"
| "client_datagram _ = []"

fun uplink_datagram :: "loop_event \<Rightarrow> bytes list" where
  "uplink_datagram (Received packet) = [up_bytes packet]"
| "uplink_datagram _ = []"

text \<open>C6: the sender passes packets on and makes up none. Whatever happens after a start, in any order and with any answers of
  sockets, clock and name lookup: a datagram handed to an uplink is a keepalive or a registration packet of the sender, or a
  datagram that the client sent before, as it was or with its retransmission flag set; a datagram handed to the local side
  came in on an uplink before, unchanged, and goes to an address from which the client has sent.
\<close>

theorem datagrams_have_a_source:
  assumes "sender_start p z = Inr (s0, effs0)" "loop_run p s0 events = (s, effs)"
  shows "list_all (\<lambda>eff. case eff of
      ToUplink _ data \<Rightarrow>
        get_packet_type data \<in> {Some SRTLA_TYPE_KEEPALIVE, Some SRTLA_TYPE_REG1, Some SRTLA_TYPE_REG2} \<or>
        (\<exists>(pkt, src) \<in> set (concat (map client_datagram events)). data = pkt \<or> data = set_srt_data_retransmit pkt)
    | ToClient addr data \<Rightarrow>
        addr \<in> snd ` set (concat (map client_datagram events)) \<and> data \<in> set (concat (map uplink_datagram events))
    | ToForwarder addr data \<Rightarrow>
        addr \<in> snd ` set (concat (map client_datagram events)) \<and> data \<in> set (concat (map uplink_datagram events))
    | RestartReader _ \<Rightarrow> True) (effs0 @ effs)"
proof -
  define ins where "ins = set (concat (map client_datagram events))"
  define ups where "ups = set (concat (map uplink_datagram events))"
  let ?P = "\<lambda>data. \<exists>(pkt, src) \<in> ins. data = pkt \<or> data = set_srt_data_retransmit pkt"
  let ?Q = "\<lambda>data. data \<in> ups" and ?A = "\<lambda>addr. addr \<in> snd ` ins"
  have ev: "event_source ?P ?Q ?A e" if "e \<in> set events" for e
  proof (cases e)
    case (ClientPacket x res)
    have "set (client_datagram e) \<subseteq> ins" using that by (auto simp: ins_def)
    then show ?thesis using ClientPacket by (cases res) force+
  next
    case (Received packet)
    have "set (uplink_datagram e) \<subseteq> ups" using that by (auto simp: ups_def)
    then show ?thesis using Received by simp
  qed simp_all
  note start = start_source [OF assms(1), of ?P ?Q ?A]
  have "state_source ?P ?Q ?A (fst (loop_run p s0 events)) \<and> effects_ok ?P ?Q ?A (snd (loop_run p s0 events))"
    unfolding loop_run_def by (rule source.run_inv) (use start ev in \<open>auto simp: list_all_iff\<close>)
  then have "effects_ok ?P ?Q ?A (effs0 @ effs)" using start assms(2) by simp
  then show ?thesis
    unfolding ins_def [symmetric] ups_def [symmetric]
    by (rule list.pred_mono_strong) (auto simp: control_frame_def split: effect.split)
qed

text \<open>A run of one client datagram and the flush after it.\<close>

definition demo_pass :: Pass where
  "demo_pass = \<lparr> x_send = (\<lambda>_. SendOk), x_env = quiet_env, x_drain = (\<lambda>_. quiet_env) \<rparr>"

definition demo_events :: "loop_event list" where
  "demo_events = [ClientPacket demo_pass (Some ([0, 0, 0, 5], (V4 9, 4000))), BatchFlush demo_pass]"

theorem datagrams_have_a_source_witness:
  "list_all (\<lambda>eff. case eff of
      ToUplink _ data \<Rightarrow>
        get_packet_type data \<in> {Some SRTLA_TYPE_KEEPALIVE, Some SRTLA_TYPE_REG1, Some SRTLA_TYPE_REG2} \<or>
        data = [0, 0, 0, 5] \<or> data = set_srt_data_retransmit [0, 0, 0, 5]
    | ToClient _ _ \<Rightarrow> False | ToForwarder _ _ \<Rightarrow> False | RestartReader _ \<Rightarrow> True)
   (snd (loop_run demo_params demo_sender demo_events))"
proof -
  obtain effs0 where start: "sender_start demo_params demo_start = Inr (demo_sender, effs0)" using demo_started by blast
  obtain s effs where run: "loop_run demo_params demo_sender demo_events = (s, effs)" by fastforce
  have "list_all P (as @ bs) \<Longrightarrow> list_all P bs" for P and as bs :: "effect list" by simp
  from this [OF datagrams_have_a_source [OF start run]] show ?thesis
    unfolding run snd_conv by (rule list.pred_mono_strong) (auto simp: demo_events_def split: effect.splits)
qed

end
