(* ===== verification/Program.thy ===== *)
theory Program
  imports Startup Provenance
begin

text \<open>
  The program from its command line to its event loop: \<^verbatim>\<open>main\<close> of \<^verbatim>\<open>src/main.rs\<close> hands what it has read to
  \<^verbatim>\<open>run_sender_with_config\<close> of \<^verbatim>\<open>src/sender/mod.rs\<close>, which starts the sender (\<open>sender_start\<close>: listener, addresses, uplinks, probes, signal
  handlers, first housekeeping) and enters the loop. A run of the program is given by its command line, its files, what the operating system
  answers, and the events the loop meets.
\<close>

record ProcessEnv =
  pe_parse_ip :: "string \<Rightarrow> IpAddr option"
  pe_start :: StartEnv

definition run_sender_with_config :: "Params \<Rightarrow> StartEnv \<Rightarrow> loop_event list \<Rightarrow> string + Sender \<times> effect list" where
  "run_sender_with_config p z events =
     (case sender_start p z of
        Inl e \<Rightarrow> Inl e
      | Inr (s, effs) \<Rightarrow> (case loop_run p s events of (s', effs') \<Rightarrow> Inr (s', effs @ effs')))"

definition params_of :: "ProcessEnv \<Rightarrow> string \<Rightarrow> u16 \<Rightarrow> Params" where
  "params_of env host port = \<lparr> p_parse_ip = pe_parse_ip env, p_receiver_host = host, p_receiver_port = port \<rparr>"

definition start_env_of :: "ProcessEnv \<Rightarrow> (string \<Rightarrow> string option) \<Rightarrow> u16 \<Rightarrow> string \<Rightarrow> DynamicConfig \<Rightarrow> StartEnv" where
  "start_env_of env read_to_string port ips config = (pe_start env)\<lparr> z_local_srt_port := port, z_ips_file := ips, z_file := read_to_string ips, z_config := config \<rparr>"

text \<open>What became of the program: it ended before the sender ran, the sender could not start, or it runs.\<close>

datatype program_state = Ended main_outcome | SenderFailed string | Running Params Sender "effect list"

definition program ::
  "BuildInfo \<Rightarrow> toml_parser \<Rightarrow> (string \<Rightarrow> string option) \<Rightarrow> ProcessEnv \<Rightarrow> (string \<Rightarrow> bool) \<Rightarrow> Cli \<Rightarrow> loop_event list \<Rightarrow> program_state" where
  "program build toml read_to_string env typed args events =
     (case main build toml read_to_string typed args of
        Started port host rport ips config tasks \<Rightarrow>
          (case run_sender_with_config (params_of env host rport) (start_env_of env read_to_string port ips config) events of
             Inl e \<Rightarrow> SenderFailed e
           | Inr (s, effs) \<Rightarrow> Running (params_of env host rport) s effs)
      | outcome \<Rightarrow> Ended outcome)"

section \<open>Start-up\<close>

text \<open>The links a start opens: one per usable address whose socket opens, in the order of the file.\<close>

definition start_links :: "Params \<Rightarrow> StartEnv \<Rightarrow> (usize \<times> IpAddr) list" where
  "start_links p z = (case z_file z of
      None \<Rightarrow> [] | Some content \<Rightarrow> opened (z_connect z) 0 (map fst (usable_entries (p_parse_ip p) (content_lines content))))"

lemma start_steps:
  assumes "z_listener z (z_local_srt_port z)" "z_file z = Some content" "usable_entries (p_parse_ip p) (content_lines content) \<noteq> []"
  shows "start_links p z = [] \<Longrightarrow> sender_start p z = Inl ''no uplinks available''"
    and "start_links p z \<noteq> [] \<Longrightarrow> z_signal_error z = Some e \<Longrightarrow> sender_start p z = Inl e"
    and "start_links p z \<noteq> [] \<Longrightarrow> z_signal_error z = None \<Longrightarrow> \<exists>s effs. sender_start p z = Inr (s, effs) \<and>
      map c_conn_id (b_conns (s_bond s)) = map (\<lambda>(i, ip). k_conn_id (z_connect z) i) (start_links p z)"
proof -
  let ?us = "usable_entries (p_parse_ip p) (content_lines content)"
  let ?ips = "map fst ?us" and ?ws = "normalise_link_weights (map snd ?us)"
  obtain conns io where c: "create_loop (z_connect z) ?ips ?ws (p_receiver_host p) (p_receiver_port p) 0 ?ips Mapping.empty = (conns, io)"
    by fastforce
  note r = create_loop_result [OF c]
  obtain probes conns1 reg where pr: "start_probing conns (z_now z) (RegistrationManager_new (z_own_id z) (z_probe_id z)) =
      (probes, conns1, reg)" by (metis prod_cases3)
  have links: "start_links p z = opened (z_connect z) 0 ?ips" using assms(2) by (simp add: start_links_def)
  have ids: "map c_conn_id conns1 = map (\<lambda>(i, ip). k_conn_id (z_connect z) i) (start_links p z)"
    using conns_keep_ids [OF start_probing_keeps [OF pr]] r by (simp add: links new_uplink_good comp_def case_prod_beta)
  have "conns = [] \<longleftrightarrow> start_links p z = []" using r by (simp add: links)
  note unf = sender_start_def read_weighted_ip_list_def analyze_entries create_connections_from_ips_def c pr run_housekeeping_ids this
    case_prod_beta Let_def ids
  show "start_links p z = [] \<Longrightarrow> sender_start p z = Inl ''no uplinks available''"
    and "start_links p z \<noteq> [] \<Longrightarrow> z_signal_error z = Some e \<Longrightarrow> sender_start p z = Inl e"
    using assms by (simp_all add: unf)
  show "start_links p z \<noteq> [] \<Longrightarrow> z_signal_error z = None \<Longrightarrow> \<exists>s effs. sender_start p z = Inr (s, effs) \<and>
      map c_conn_id (b_conns (s_bond s)) = map (\<lambda>(i, ip). k_conn_id (z_connect z) i) (start_links p z)"
    using assms by (simp add: unf)
qed

lemma start_failures:
  "\<not> z_listener z (z_local_srt_port z) \<Longrightarrow> sender_start p z = Inl ''bind local SRT UDP listener''"
  "z_listener z (z_local_srt_port z) \<Longrightarrow> z_file z = None \<Longrightarrow> sender_start p z = Inl ''read IPs file''"
  "z_listener z (z_local_srt_port z) \<Longrightarrow> z_file z = Some content \<Longrightarrow> usable_entries (p_parse_ip p) (content_lines content) = [] \<Longrightarrow>
     sender_start p z = Inl (''no IPs in list: '' @ z_ips_file z)"
  by (simp_all add: sender_start_def read_weighted_ip_list_def analyze_entries)

text \<open>
  C22: the sender starts exactly if the listening port can be bound, the address file can be read and has a usable line, a socket opens for at
  least one usable address and the signal handlers can be installed; the first of these that fails, in this order, is the error the
  sender ends with, each with its own message. Otherwise it enters the loop with one link per usable address whose socket opened, in
  the order of the file, and what it does is the start followed by the run of the loop.
\<close>

theorem start_outcome:
  "case run_sender_with_config p z events of
     Inl msg \<Rightarrow>
       (if \<not> z_listener z (z_local_srt_port z) then msg = ''bind local SRT UDP listener''
        else case z_file z of
          None \<Rightarrow> msg = ''read IPs file''
        | Some content \<Rightarrow>
            if usable_entries (p_parse_ip p) (content_lines content) = [] then msg = ''no IPs in list: '' @ z_ips_file z
            else if start_links p z = [] then msg = ''no uplinks available''
            else z_signal_error z = Some msg)
   | Inr (s, effs) \<Rightarrow>
       z_listener z (z_local_srt_port z) \<and> z_signal_error z = None \<and> start_links p z \<noteq> [] \<and>
       (\<exists>s0 effs0. sender_start p z = Inr (s0, effs0) \<and> map c_conn_id (b_conns (s_bond s0)) = map (\<lambda>(i, ip). k_conn_id (z_connect z) i) (start_links p z) \<and>
          fst (loop_run p s0 events) = s \<and> effs = effs0 @ snd (loop_run p s0 events))"
proof (cases "z_listener z (z_local_srt_port z)")
  case False
  then show ?thesis by (simp add: run_sender_with_config_def start_failures)
next
  case l: True
  show ?thesis
  proof (cases "z_file z")
    case None
    with l show ?thesis by (simp add: run_sender_with_config_def start_failures)
  next
    case (Some content)
    show ?thesis
    proof (cases "usable_entries (p_parse_ip p) (content_lines content) = []")
      case True
      with l Some show ?thesis by (simp add: run_sender_with_config_def start_failures)
    next
      case False
      note st = start_steps [OF l Some False]
      show ?thesis
      proof (cases "start_links p z = []")
        case True
        with st(1) l Some False show ?thesis by (simp add: run_sender_with_config_def)
      next
        case links: False
        show ?thesis
        proof (cases "z_signal_error z")
          case None
          from st(3) [OF links this] obtain s0 effs0 where s0: "sender_start p z = Inr (s0, effs0)"
            "map c_conn_id (b_conns (s_bond s0)) = map (\<lambda>(i, ip). k_conn_id (z_connect z) i) (start_links p z)" by blast
          then show ?thesis using l links None by (auto simp: run_sender_with_config_def case_prod_beta)
        next
          case sig: (Some e)
          with st(2) [OF links sig] l Some False links show ?thesis by (simp add: run_sender_with_config_def)
        qed
      qed
    qed
  qed
qed

section \<open>Runs and reachable states\<close>

fun events_ok :: "Params \<Rightarrow> Sender \<Rightarrow> loop_event list \<Rightarrow> bool" where
  "events_ok p s [] \<longleftrightarrow> True"
| "events_ok p s (e # es) \<longleftrightarrow> event_ok s e \<and> events_ok p (fst (loop_step p s e)) es"

lemma loop_fold: "fst (foldl (loop_pass p) (s, effs) events) = fst (foldl (loop_pass p) (s, effs') events)"
proof (induction events arbitrary: s effs effs')
  case (Cons e es)
  then show ?case by (simp add: loop_pass_def case_prod_beta)
qed simp

lemma loop_run_Cons: "fst (loop_run p s (e # es)) = fst (loop_run p (fst (loop_step p s e)) es)"
  using loop_fold [of p "fst (loop_step p s e)" "snd (loop_step p s e)" es "[]"] by (simp add: loop_run_def loop_pass_def case_prod_beta)

text \<open>What every state has that admissible events lead to from a state with a property the steps keep.\<close>

lemma loop_run_keeps:
  assumes "\<And>s s'. I s \<Longrightarrow> sender_step p s s' \<Longrightarrow> I s'"
  shows "I s \<Longrightarrow> events_ok p s events \<Longrightarrow> I (fst (loop_run p s events))"
proof (induction events arbitrary: s)
  case Nil
  then show ?case by (simp add: loop_run_def)
next
  case (Cons e es)
  have "sender_step p s (fst (loop_step p s e))" using Cons.prems(2) by (auto simp: sender_step_loop)
  then show ?case using Cons assms by (simp add: loop_run_Cons)
qed

lemma loop_run_reachable: "reachable p s \<Longrightarrow> events_ok p s events \<Longrightarrow> reachable p (fst (loop_run p s events))"
  by (rule loop_run_keeps [of "reachable p"]) (auto intro: reachable.step)

section \<open>The configuration along a run\<close>

abbreviation config_of :: "Sender \<Rightarrow> DynamicConfig" where
  "config_of s \<equiv> b_config (s_bond s)"

lemma client_packet_config: "b_config (fst (handle_srt_packet env res done config cw b)) = b_config b"
proof -
  have "b_config (fst (forward_via_connection env i pkt sq t d)) = b_config d" for i pkt sq t d
    by (simp add: forward_via_connection_def Let_def case_prod_beta)
  moreover have "b_config (fst (send_stall_probes env i pkt sq t d)) = b_config d" for i pkt sq t d
    by (simp add: send_stall_probes_def case_prod_beta)
  moreover have "b_config (snd (route_packet env config cw pkt sq d)) = b_config d" for pkt sq d
    by (simp add: route_packet_def case_prod_beta)
  ultimately show ?thesis
    by (simp add: handle_srt_packet_def Let_def case_prod_beta split: option.split)
qed

lemma config_ok_latency: "config_ok c \<Longrightarrow> config_ok (store_negotiated_latency ms c)"
  by (simp add: store_negotiated_latency_def set_negotiated_latency_ms_def config_ok_def Let_def case_prod_beta split: option.split)

lemma uplink_packet_config: "config_ok (b_config b) \<Longrightarrow> config_ok (b_config (fst (handle_uplink_packet env config packet b)))"
  by (simp add: handle_uplink_packet_def case_prod_beta config_ok_latency split: option.split)

lemma drain_config: "config_ok (b_config b) \<Longrightarrow> config_ok (b_config (fst (drain_loop n config queue b)))"
proof (induction n config queue b rule: drain_loop.induct)
  case (3 n config env packet queue b)
  obtain b1 es where h: "handle_uplink_packet env config packet b = (b1, es)" by fastforce
  then have "config_ok (b_config b1)" using uplink_packet_config [OF 3(2), of env config packet] by simp
  then show ?case using 3(1) [OF h [symmetric]] by (simp add: h case_prod_beta)
qed simp_all

lemma drain_channel_config: "config_ok (config_of s) \<Longrightarrow> config_ok (config_of (fst (drain_channel x config s)))"
  using drain_config by (simp add: drain_channel_def drain_packet_queue_def Let_def case_prod_beta)

lemma config_step: "config_ok (config_of s) \<Longrightarrow> sender_step p s s' \<Longrightarrow> config_ok (config_of s')"
  unfolding sender_step_loop
proof (elim exE conjE)
  fix e
  assume ok: "config_ok (config_of s)" and e: "fst (loop_step p s e) = s'"
  have hk: "config_of (apply_pending k (stamp_links exp_f now (fst (run_housekeeping h s)))) = config_of s" for k exp_f now h
    by (simp add: apply_pending_def stamp_links_def run_housekeeping_def Let_def case_prod_beta split: option.split)
  show "config_ok (config_of s')"
  proof (cases e)
    case (UplinkReady x)
    then show ?thesis using ok e
      by (auto simp: on_uplink_packet_def Let_def case_prod_beta split: list.splits intro!: drain_channel_config uplink_packet_config)
  next
    case (ControlCommand cmd)
    then show ?thesis using ok e config_machine.step_inv [of "config_of s" cmd] by auto
  qed (use ok e in \<open>auto simp: on_client_packet_def on_housekeeping_tick_def on_sighup_def on_batch_flush_def Let_def case_prod_beta hk
      client_packet_config intro!: drain_channel_config split: IpReload.split\<close>)
qed

lemma start_config: "sender_start p z = Inr (s, effs) \<Longrightarrow> config_of s = z_config z"
  by (auto simp: sender_start_def run_housekeeping_def Let_def case_prod_beta split: option.splits if_splits)

section \<open>From the command line to the loop\<close>

lemma from_cli_ok: "config_ok (from_cli mode nq ns mif stale timeout nr)"
  using clamp_conn_timeout_range
  by (simp add: config_ok_def from_cli_def mode_u8_roundtrip CONN_TIMEOUT_MS_MIN_def CONN_TIMEOUT_MS_MAX_def)

lemma main_config: "main build toml fs typed args = Started port host rport ips config tasks \<Longrightarrow> config_ok config"
  by (auto simp: main_def from_cli_ok split: if_splits sum.splits option.splits)

lemma start_file: "sender_start p z = Inr (s, effs) \<Longrightarrow> \<exists>ips weights. read_weighted_ip_list (p_parse_ip p) (z_file z) = Some (ips, weights)"
  by (auto simp: sender_start_def split: option.splits if_splits)

text \<open>A program that runs has a start; the events only drive the loop from there.\<close>

lemma program_start:
  assumes "program build toml fs env typed args [] = Running p s0 effs0"
  obtains port host rport ips config tasks where
    "main build toml fs typed args = Started port host rport ips config tasks" "p = params_of env host rport"
    "sender_start p (start_env_of env fs port ips config) = Inr (s0, effs0)"
    "\<And>events. program build toml fs env typed args events = Running p (fst (loop_run p s0 events)) (effs0 @ snd (loop_run p s0 events))"
proof -
  obtain port host rport ips config tasks where m: "main build toml fs typed args = Started port host rport ips config tasks"
    using assms by (auto simp: program_def split: main_outcome.splits)
  let ?p = "params_of env host rport" and ?z = "start_env_of env fs port ips config"
  have r: "run_sender_with_config ?p ?z [] = Inr (s0, effs0)" "p = ?p"
    using assms by (auto simp: program_def m split: sum.splits)
  then have b: "sender_start p ?z = Inr (s0, effs0)"
    by (auto simp: run_sender_with_config_def loop_run_def split: sum.splits)
  have "program build toml fs env typed args events = Running p (fst (loop_run p s0 events)) (effs0 @ snd (loop_run p s0 events))" for events
    using b r(2) by (simp add: program_def m run_sender_with_config_def case_prod_beta)
  with m r(2) b show ?thesis using that by blast
qed

end
