(* ===== verification/Batch_IO.thy ===== *)
theory Batch_IO
  imports Forwarding
begin

text \<open>
  The batched socket layer: sending a batch (\<^verbatim>\<open>src/net/mod.rs\<close>, \<^verbatim>\<open>src/net/batch_recv.rs\<close>), the receive buffer and its
  iterator, and the reader task that feeds the uplink channel (\<^verbatim>\<open>spawn_reader\<close> of \<^verbatim>\<open>src/sender/uplink.rs\<close>).

  The kernel is a script: the list of what the successive waits and system calls return, one entry per turn of a
  retry loop. A loop that has used up its script is still waiting, which is the value \<open>None\<close>. An entry that accepts
  \<open>k\<close> datagrams of \<open>n\<close> offered accepts at most \<open>n\<close>, and a received datagram is cut at the size of its buffer, as
  \<^verbatim>\<open>sendmmsg\<close> and \<^verbatim>\<open>recvmmsg\<close> document.
\<close>

section \<open>Sending\<close>

definition MTU :: nat where "MTU = 1500"
definition BATCH_RECV_SIZE :: nat where "BATCH_RECV_SIZE = 32"

datatype ErrorKind = Interrupted | WouldBlock | WriteZero | OtherKind nat

datatype send_event = SendWait ErrorKind | SendCall "ErrorKind + nat"

record BatchSendError =
  be_sent :: nat
  be_total :: nat
  be_source :: ErrorKind

type_synonym datagram = "SocketAddr \<times> bytes"

text \<open>One \<^verbatim>\<open>sendmmsg\<close>: the result and the datagrams that left, each with the peer as destination.\<close>

definition try_send_batch :: "SocketAddr \<Rightarrow> ErrorKind + nat \<Rightarrow> bytes list \<Rightarrow> (ErrorKind + nat) \<times> datagram list" where
  "try_send_batch peer ret bufs =
     (let n = min (length bufs) BATCH_SEND_SIZE in
      if n = 0 then (Inr 0, [])
      else case ret of
             Inl e \<Rightarrow> (Inl e, [])
           | Inr k \<Rightarrow> (Inr (min k n), map (Pair peer) (take (min k n) bufs)))"

fun send_batch_loop ::
  "SocketAddr \<Rightarrow> send_event list \<Rightarrow> bytes list \<Rightarrow> ((ErrorKind + nat) \<times> datagram list \<times> send_event list) option" where
  "send_batch_loop peer [] bufs = None"
| "send_batch_loop peer (SendWait e # script) bufs = Some (Inl e, [], script)"
| "send_batch_loop peer (SendCall ret # script) bufs =
     (case try_send_batch peer ret bufs of
        (Inr n, out) \<Rightarrow> Some (Inr n, out, script)
      | (Inl e, out) \<Rightarrow>
          if e = WouldBlock then send_batch_loop peer script bufs
          else if e = Interrupted then send_batch_loop peer script bufs
          else Some (Inl e, [], script))"

definition send_batch ::
  "SocketAddr \<Rightarrow> send_event list \<Rightarrow> bytes list \<Rightarrow> ((ErrorKind + nat) \<times> datagram list \<times> send_event list) option" where
  "send_batch peer script bufs = (if bufs = [] then Some (Inr 0, [], script) else send_batch_loop peer script bufs)"

text \<open>Sending one datagram, as the keepalives and registration packets are sent: only a full buffer is waited for.\<close>

fun send_one :: "SocketAddr \<Rightarrow> send_event list \<Rightarrow> bytes \<Rightarrow> ((ErrorKind + nat) \<times> datagram list \<times> send_event list) option" where
  "send_one peer [] buf = None"
| "send_one peer (SendWait e # script) buf = Some (Inl e, [], script)"
| "send_one peer (SendCall (Inr n) # script) buf = Some (Inr (length buf), [(peer, buf)], script)"
| "send_one peer (SendCall (Inl e) # script) buf =
     (if e = WouldBlock then send_one peer script buf else Some (Inl e, [], script))"

text \<open>The loop over a batch works with either implementation of the socket, given as \<open>sb\<close>; \<open>'s\<close> is its script.\<close>

type_synonym 's batch_sender_fn = "SocketAddr \<Rightarrow> 's \<Rightarrow> bytes list \<Rightarrow> ((ErrorKind + nat) \<times> datagram list \<times> 's) option"

function send_all_loop ::
  "'s batch_sender_fn \<Rightarrow> SocketAddr \<Rightarrow> 's \<Rightarrow> bytes list \<Rightarrow> nat \<Rightarrow> ((BatchSendError + unit) \<times> datagram list \<times> 's) option" where
  "send_all_loop sb peer script bufs sent =
     (if sent < length bufs then
        (case sb peer script (take (min (length bufs - sent) BATCH_SEND_SIZE) (drop sent bufs)) of
           None \<Rightarrow> None
         | Some (Inr n, out, script') \<Rightarrow>
             if n = 0 then Some (Inl \<lparr> be_sent = sent, be_total = length bufs, be_source = WriteZero \<rparr>, out, script')
             else map_option (\<lambda>(r, out', rest). (r, out @ out', rest)) (send_all_loop sb peer script' bufs (sent + n))
         | Some (Inl e, out, script') \<Rightarrow>
             Some (Inl \<lparr> be_sent = sent, be_total = length bufs, be_source = e \<rparr>, out, script'))
      else Some (Inr (), [], script))"
  by pat_completeness auto
termination by (relation "measure (\<lambda>(_, _, _, bufs, sent). length bufs - sent)") auto

declare send_all_loop.simps [simp del]

definition send_all_datagrams ::
  "'s batch_sender_fn \<Rightarrow> SocketAddr \<Rightarrow> 's \<Rightarrow> bytes list \<Rightarrow> ((BatchSendError + unit) \<times> datagram list \<times> 's) option" where
  "send_all_datagrams sb peer script bufs = send_all_loop sb peer script bufs 0"

section \<open>Receiving\<close>

datatype RecvAction = Retry | WaitReady | Hard

fun recv_retry_action :: "ErrorKind \<Rightarrow> RecvAction" where
  "recv_retry_action Interrupted = Retry"
| "recv_retry_action WouldBlock = WaitReady"
| "recv_retry_action _ = Hard"

text \<open>A stored socket address by family: port and address as the bytes in memory, the rest as numbers.\<close>

datatype sockaddr_storage = SaIn bytes bytes | SaIn6 bytes bytes u32 u32 | SaOther

datatype PeerAddr = PeerV4 "32 word" u16 | PeerV6 "128 word" u16 u32 u32

definition be_nat :: "bytes \<Rightarrow> nat" where
  "be_nat bs = foldl (\<lambda>a b. 256 * a + unat b) 0 bs"

fun sockaddr_storage_to_socket_addr :: "sockaddr_storage \<Rightarrow> PeerAddr option" where
  "sockaddr_storage_to_socket_addr (SaIn port addr) = Some (PeerV4 (of_nat (be_nat addr)) (of_nat (be_nat port)))"
| "sockaddr_storage_to_socket_addr (SaIn6 port addr flowinfo scope_id) =
     Some (PeerV6 (of_nat (be_nat addr)) (of_nat (be_nat port)) flowinfo scope_id)"
| "sockaddr_storage_to_socket_addr SaOther = None"

record RecvMmsgBuffer =
  rb_addr_storage :: "sockaddr_storage list"
  rb_msg_len :: "nat list"
  rb_buffers :: "bytes list"
  rb_nrecv :: nat

definition RecvMmsgBuffer_new :: RecvMmsgBuffer where
  "RecvMmsgBuffer_new =
     \<lparr> rb_addr_storage = replicate BATCH_RECV_SIZE SaOther, rb_msg_len = replicate BATCH_RECV_SIZE 0,
       rb_buffers = replicate BATCH_RECV_SIZE (replicate MTU 0), rb_nrecv = 0 \<rparr>"

datatype recv_event = RecvWait ErrorKind | RecvCall "ErrorKind + (sockaddr_storage \<times> bytes) list"

text \<open>The kernel writes a datagram over the start of its buffer; what lay behind it stays.\<close>

definition write_slot :: "bytes \<Rightarrow> bytes \<Rightarrow> bytes" where
  "write_slot data old = take MTU data @ drop (length data) old"

definition recvmmsg :: "ErrorKind + (sockaddr_storage \<times> bytes) list \<Rightarrow> RecvMmsgBuffer \<Rightarrow> (ErrorKind + nat) \<times> RecvMmsgBuffer" where
  "recvmmsg result b =
     (case result of
        Inr ds \<Rightarrow>
          (Inr (length ds),
           b\<lparr> rb_addr_storage := map fst ds @ drop (length ds) (rb_addr_storage b),
              rb_msg_len := map (\<lambda>(_, d). min (length d) MTU) ds @ drop (length ds) (rb_msg_len b),
              rb_buffers := map2 write_slot (map snd ds) (rb_buffers b) @ drop (length ds) (rb_buffers b),
              rb_nrecv := length ds \<rparr>)
      | Inl e \<Rightarrow> (Inl e, b\<lparr> rb_nrecv := 0 \<rparr>))"

fun recv_batch :: "recv_event list \<Rightarrow> RecvMmsgBuffer \<Rightarrow> ((ErrorKind + nat) \<times> RecvMmsgBuffer \<times> recv_event list) option" where
  "recv_batch [] b = None"
| "recv_batch (RecvWait e # script) b = Some (Inl e, b, script)"
| "recv_batch (RecvCall result # script) b =
     (case recvmmsg result b of
        (Inr count, b') \<Rightarrow> Some (Inr count, b', script)
      | (Inl e, b') \<Rightarrow>
          (case recv_retry_action e of
             Retry \<Rightarrow> recv_batch script b'
           | WaitReady \<Rightarrow> recv_batch script b'
           | Hard \<Rightarrow> Some (Inl e, b', script)))"

text \<open>The iterator over the received packets.\<close>

definition recv_item :: "RecvMmsgBuffer \<Rightarrow> nat \<Rightarrow> PeerAddr option \<times> bytes" where
  "recv_item b idx =
     (sockaddr_storage_to_socket_addr (rb_addr_storage b ! idx),
      take (min (rb_msg_len b ! idx) MTU) (rb_buffers b ! idx))"

definition recv_iter :: "RecvMmsgBuffer \<Rightarrow> (PeerAddr option \<times> bytes) list" where
  "recv_iter b = map (recv_item b) [0..<rb_nrecv b]"

section \<open>The reader task\<close>

text \<open>
  \<open>chan k\<close> says whether the channel accepts the \<open>k\<close>-th packet of the task; the first refusal ends the task. The state
  is what has been sent.
\<close>

fun deliver :: "(nat \<Rightarrow> bool) \<Rightarrow> u64 \<Rightarrow> bytes list \<Rightarrow> UplinkPacket list \<Rightarrow> bool \<times> UplinkPacket list" where
  "deliver chan conn_id [] sent = (True, sent)"
| "deliver chan conn_id (data # ds) sent =
     (if data = [] then deliver chan conn_id ds sent
      else if chan (length sent) then deliver chan conn_id ds (sent @ [\<lparr> up_conn_id = conn_id, up_bytes = data \<rparr>])
      else (False, sent))"

lemma recv_batch_shorter: "recv_batch script b = Some (r, b', rest) \<Longrightarrow> length rest < length script"
  by (induction script b rule: recv_batch.induct)
    (auto split: prod.splits sum.splits RecvAction.splits intro: less_SucI)

function reader :: "(nat \<Rightarrow> bool) \<Rightarrow> u64 \<Rightarrow> recv_event list \<Rightarrow> RecvMmsgBuffer \<Rightarrow> UplinkPacket list \<Rightarrow> UplinkPacket list" where
  "reader chan conn_id script b sent =
     (case recv_batch script b of
        None \<Rightarrow> sent
      | Some (Inr count, b', rest) \<Rightarrow>
          if 0 < count then
            (case deliver chan conn_id (map snd (recv_iter b')) sent of
               (go_on, sent') \<Rightarrow> if go_on then reader chan conn_id rest b' sent' else sent')
          else reader chan conn_id rest b' sent
      | Some (Inl err, b', rest) \<Rightarrow>
          if chan (length sent) then reader chan conn_id rest b' (sent @ [\<lparr> up_conn_id = conn_id, up_bytes = [] \<rparr>])
          else sent)"
  by pat_completeness auto
termination by (relation "measure (\<lambda>(_, _, script, _, _). length script)") (auto dest: recv_batch_shorter)

declare reader.simps [simp del]

section \<open>What sending a batch does\<close>

text \<open>The entries of a script that end a wait.\<close>

fun settles :: "send_event \<Rightarrow> bool" where
  "settles (SendCall (Inl e)) = (e \<noteq> WouldBlock \<and> e \<noteq> Interrupted)"
| "settles _ = True"

lemma try_send_batch_result:
  assumes "bufs \<noteq> []"
  shows "try_send_batch peer ret bufs =
    (case ret of Inl e \<Rightarrow> (Inl e, [])
     | Inr k \<Rightarrow> (let n = min k (min (length bufs) BATCH_SEND_SIZE) in (Inr n, map (Pair peer) (take n bufs))))"
  using assms by (auto simp: try_send_batch_def BATCH_SEND_SIZE_def Let_def split: sum.split)

lemma send_batch_loop_result:
  "bufs \<noteq> [] \<Longrightarrow> send_batch_loop peer script bufs = Some (r, out, rest) \<Longrightarrow>
   Suc (length (filter settles rest)) = length (filter settles script) \<and>
   (case r of Inl _ \<Rightarrow> out = [] | Inr n \<Rightarrow> n \<le> length bufs \<and> out = map (Pair peer) (take n bufs))"
proof (induction peer script bufs rule: send_batch_loop.induct)
  case (3 peer ret script bufs)
  then show ?case
    by (cases ret) (auto simp: try_send_batch_result Let_def split: if_splits)
qed auto

lemma send_batch_loop_returns:
  "bufs \<noteq> [] \<Longrightarrow> 0 < length (filter settles script) \<Longrightarrow> \<exists>y. send_batch_loop peer script bufs = Some y"
proof (induction peer script bufs rule: send_batch_loop.induct)
  case (3 peer ret script bufs)
  then show ?case
    by (cases ret) (auto simp: try_send_batch_result Let_def split: if_splits)
qed auto

text \<open>The promise of the loop from position \<open>sent\<close> on.\<close>

definition sent_from :: "SocketAddr \<Rightarrow> bytes list \<Rightarrow> nat \<Rightarrow> BatchSendError + unit \<Rightarrow> datagram list \<Rightarrow> bool" where
  "sent_from peer bufs sent r out \<longleftrightarrow>
     (case r of Inr _ \<Rightarrow> out = map (Pair peer) (drop sent bufs)
      | Inl e \<Rightarrow> be_total e = length bufs \<and> sent \<le> be_sent e \<and> be_sent e < length bufs \<and>
          out = map (Pair peer) (take (be_sent e - sent) (drop sent bufs)))"

lemma sent_from_step:
  assumes "sent_from peer bufs (sent + n) r out"
  shows "sent_from peer bufs sent r (map (Pair peer) (take n (drop sent bufs)) @ out)"
proof (cases r)
  case (Inl e)
  moreover have "take n (drop sent bufs) @ take (be_sent e - (sent + n)) (drop (sent + n) bufs) = take (be_sent e - sent) (drop sent bufs)"
    if "sent + n \<le> be_sent e" using that take_add [of n "be_sent e - (sent + n)" "drop sent bufs"] by (simp add: add.commute)
  ultimately show ?thesis using assms by (auto simp: sent_from_def simp flip: map_append)
next
  case (Inr u)
  moreover have "take n (drop sent bufs) @ drop (sent + n) bufs = drop sent bufs" by (metis append_take_drop_id drop_drop add.commute)
  ultimately show ?thesis using assms by (simp add: sent_from_def flip: map_append)
qed

text \<open>
  What an implementation of the batched socket promises: a call reports a prefix of what it was given as sent, in order, or an
  error with nothing sent; it returns when the script holds two answers per datagram offered, and uses up at most two for each
  datagram that it gets away.
\<close>

locale batch_socket =
  fixes sb :: "'s batch_sender_fn"
    and budget :: "'s \<Rightarrow> nat"
  assumes sends_prefix: "bufs \<noteq> [] \<Longrightarrow> sb peer script bufs = Some (r, out, rest) \<Longrightarrow>
      case r of Inl _ \<Rightarrow> out = [] | Inr n \<Rightarrow> n \<le> length bufs \<and> out = map (Pair peer) (take n bufs)"
    and spends: "bufs \<noteq> [] \<Longrightarrow> sb peer script bufs = Some (Inr n, out, rest) \<Longrightarrow> n \<noteq> 0 \<Longrightarrow> budget script \<le> budget rest + 2 * n"
    and answers: "bufs \<noteq> [] \<Longrightarrow> 2 * length bufs \<le> budget script \<Longrightarrow> \<exists>y. sb peer script bufs = Some y"
begin

lemma send_all_loop_result:
  "sent \<le> length bufs \<Longrightarrow> 2 * (length bufs - sent) \<le> budget script \<Longrightarrow>
   \<exists>r out rest. send_all_loop sb peer script bufs sent = Some (r, out, rest) \<and> sent_from peer bufs sent r out"
proof (induction "length bufs - sent" arbitrary: script sent rule: less_induct)
  case less
  show ?case
  proof (cases "sent < length bufs")
    case False
    then show ?thesis by (simp add: send_all_loop.simps [of sb peer script bufs sent] sent_from_def)
  next
    case True
    let ?chunk = "take (min (length bufs - sent) BATCH_SEND_SIZE) (drop sent bufs)"
    have ne: "?chunk \<noteq> []" using True by (simp add: BATCH_SEND_SIZE_def)
    have "2 * length ?chunk \<le> budget script" using less.prems(2) by simp
    then obtain r out rest where s: "sb peer script ?chunk = Some (r, out, rest)" using answers [OF ne] by (metis prod_cases3)
    have res: "case r of Inl _ \<Rightarrow> out = [] | Inr n \<Rightarrow> n \<le> length bufs - sent \<and> out = map (Pair peer) (take n (drop sent bufs))"
      using sends_prefix [OF ne s] by (auto simp: min_absorb1 split: sum.splits)
    note step = send_all_loop.simps [of sb peer script bufs sent, unfolded s]
    show ?thesis
    proof (cases "case r of Inl _ \<Rightarrow> True | Inr n \<Rightarrow> n = 0")
      case stop: True
      then show ?thesis using True res by (auto simp: step sent_from_def split: sum.splits)
    next
      case False
      then obtain n where n: "r = Inr n" "n \<noteq> 0" by (auto split: sum.splits)
      have "budget script \<le> budget rest + 2 * n" by (rule spends [OF ne s [unfolded n(1)] n(2)])
      then have "\<exists>r out rest'. send_all_loop sb peer rest bufs (sent + n) = Some (r, out, rest') \<and> sent_from peer bufs (sent + n) r out"
        using True less.prems(2) res n by (intro less.hyps) auto
      then show ?thesis using True n res sent_from_step by (fastforce simp: step)
    qed
  qed
qed

lemma send_all_exact:
  assumes "2 * length bufs \<le> budget script"
  shows "\<exists>r out rest. send_all_datagrams sb peer script bufs = Some (r, out, rest) \<and> sent_from peer bufs 0 r out"
  using send_all_loop_result [of 0 bufs script peer] assms by (simp add: send_all_datagrams_def)

end

interpretation linux: batch_socket send_batch "\<lambda>script. 2 * length (filter settles script)"
proof
  fix bufs :: "bytes list" and peer script
  assume ne: "bufs \<noteq> []"
  then have sb: "send_batch peer script bufs = send_batch_loop peer script bufs" by (simp add: send_batch_def)
  show "case r of Inl _ \<Rightarrow> out = [] | Inr n \<Rightarrow> n \<le> length bufs \<and> out = map (Pair peer) (take n bufs)"
    if "send_batch peer script bufs = Some (r, out, rest)" for r out rest
    using send_batch_loop_result [OF ne that [unfolded sb]] by simp
  show "2 * length (filter settles script) \<le> 2 * length (filter settles rest) + 2 * n"
    if "send_batch peer script bufs = Some (Inr n, out, rest)" "n \<noteq> 0" for n out rest
    using send_batch_loop_result [OF ne that(1) [unfolded sb]] that(2) by simp
  show "\<exists>y. send_batch peer script bufs = Some y" if "2 * length bufs \<le> 2 * length (filter settles script)"
  proof -
    have "0 < length bufs" using ne by simp
    then show ?thesis unfolding sb using that by (intro send_batch_loop_returns [OF ne]) linarith
  qed
qed

text \<open>How the outcome of the socket reaches the data path.\<close>

definition socket_outcome :: "BatchSendError + unit \<Rightarrow> SendOutcome" where
  "socket_outcome r = (case r of Inr _ \<Rightarrow> SendOk | Inl e \<Rightarrow> SendErr (be_sent e))"

lemma flush_effects:
  assumes "link_ok c" "bs_queue (c_batch_sender c) \<noteq> []"
  shows "snd (snd (flush_connection outcome now c tr)) =
    map (ToUplink (c_conn_id c)) (case outcome of SendOk \<Rightarrow> bs_queue (c_batch_sender c) | SendErr n \<Rightarrow> take n (bs_queue (c_batch_sender c)))"
proof -
  have ok: "batch_ok (c_batch_sender c)" using assms(1) by (simp add: link_ok_def)
  have b: "fst (take_batch now c) = batch_abs (c_batch_sender c)" by (rule take_batch_batch [OF assms(1)])
  have data: "map (\<lambda>(data, _, _). ToUplink (c_conn_id c) data) (batch_abs (c_batch_sender c)) =
      map (ToUplink (c_conn_id c)) (bs_queue (c_batch_sender c))"
    using map_data [of "ToUplink (c_conn_id c)" "batch_abs (c_batch_sender c)"] by (simp only: batch_abs_data [OF ok])
  have "batch_abs (c_batch_sender c) \<noteq> []" using batch_abs_length [OF ok] assms(2) by auto
  then show ?thesis
    using b data by (auto simp: flush_connection_def send_connection_batch_def recover_connection_def take_map [symmetric]
        split: prod.splits SendOutcome.split)
qed

lemma flush_accounts:
  assumes "link_ok c" "bs_queue (c_batch_sender c) \<noteq> []" "sent_from peer (bs_queue (c_batch_sender c)) 0 r out"
  shows "snd (snd (flush_connection (socket_outcome r) now c tr)) = map (\<lambda>(_, data). ToUplink (c_conn_id c) data) out"
  using assms(3) by (auto simp: flush_effects [OF assms(1,2)] socket_outcome_def sent_from_def split: sum.splits)

text \<open>C14: a batch goes out in order, or its exact prefix is reported. Whatever the socket does, however it cuts the batch and
  however often it makes the sender wait, as long as it settles once per datagram: sending the queue of a link
  returns; on success every queued datagram has left for the peer once and in order, on failure exactly the reported number
  of them, short of the whole batch; and the flush of that link accounts for precisely the datagrams that left.
\<close>

theorem batch_send_exact:
  assumes "link_ok c" "bs_queue (c_batch_sender c) \<noteq> []" "length (bs_queue (c_batch_sender c)) \<le> length (filter settles script)"
  shows "\<exists>r out rest. send_all_datagrams send_batch peer script (bs_queue (c_batch_sender c)) = Some (r, out, rest) \<and>
     (case r of Inr _ \<Rightarrow> out = map (Pair peer) (bs_queue (c_batch_sender c))
      | Inl e \<Rightarrow> be_total e = length (bs_queue (c_batch_sender c)) \<and> be_sent e < be_total e \<and>
          out = map (Pair peer) (take (be_sent e) (bs_queue (c_batch_sender c)))) \<and>
     snd (snd (flush_connection (socket_outcome r) now c tr)) = map (\<lambda>(_, data). ToUplink (c_conn_id c) data) out"
proof -
  obtain r out rest where s: "send_all_datagrams send_batch peer script (bs_queue (c_batch_sender c)) = Some (r, out, rest)"
    and r: "sent_from peer (bs_queue (c_batch_sender c)) 0 r out"
    using linux.send_all_exact [of "bs_queue (c_batch_sender c)" script peer] assms(3) by auto
  then show ?thesis using s r flush_accounts [OF assms(1,2) r] by (auto simp: sent_from_def split: sum.splits)
qed

text \<open>A socket that is full, is interrupted, takes the one datagram.\<close>

theorem batch_send_exact_witness:
  "\<exists>r out rest. send_all_datagrams send_batch (V4 1, 9) [SendCall (Inl WouldBlock), SendCall (Inl Interrupted), SendCall (Inr 4)] [[0, 0, 0, 5]] =
     Some (r, out, rest) \<and>
   snd (snd (flush_connection (socket_outcome r) 30 queued_link SequenceTracker_new)) = map (\<lambda>(_, data). ToUplink 7 data) out"
proof -
  have "length (bs_queue (c_batch_sender queued_link)) \<le> length (filter settles
      [SendCall (Inl WouldBlock), SendCall (Inl Interrupted), SendCall (Inr 4)])" by (simp add: queued_link_ok)
  from batch_send_exact [OF queued_link_ok(1) _ this, of "(V4 1, 9)" 30 SequenceTracker_new] show ?thesis
    by (auto simp: queued_link_ok)
qed

section \<open>What the reader delivers\<close>

definition uplink_packet :: "u64 \<Rightarrow> bytes \<Rightarrow> UplinkPacket" where
  "uplink_packet conn_id data = \<lparr> up_conn_id = conn_id, up_bytes = data \<rparr>"

fun reader_event :: "u64 \<Rightarrow> recv_event \<Rightarrow> UplinkPacket list" where
  "reader_event conn_id (RecvWait e) = [uplink_packet conn_id []]"
| "reader_event conn_id (RecvCall (Inl e)) = (if recv_retry_action e = Hard then [uplink_packet conn_id []] else [])"
| "reader_event conn_id (RecvCall (Inr ds)) = map (\<lambda>(_, d). uplink_packet conn_id (take MTU d)) (filter (\<lambda>(_, d). d \<noteq> []) ds)"

definition buffer_ok :: "RecvMmsgBuffer \<Rightarrow> bool" where
  "buffer_ok b \<longleftrightarrow> length (rb_addr_storage b) = BATCH_RECV_SIZE \<and> length (rb_msg_len b) = BATCH_RECV_SIZE \<and>
     length (rb_buffers b) = BATCH_RECV_SIZE \<and> list_all (\<lambda>x. length x = MTU) (rb_buffers b)"

lemma write_slot_length [simp]: "length old = MTU \<Longrightarrow> length (write_slot data old) = MTU"
  by (simp add: write_slot_def)

lemma recvmmsg_got:
  assumes "buffer_ok b" "length ds \<le> BATCH_RECV_SIZE" "recvmmsg (Inr ds) b = (r, b')"
  shows "r = Inr (length ds)" "buffer_ok b'" "map snd (recv_iter b') = map (\<lambda>(_, d). take MTU d) ds"
proof -
  show "r = Inr (length ds)" using assms(3) by (simp add: recvmmsg_def)
  have slots: "\<forall>x \<in> set (map2 write_slot (map snd ds) (rb_buffers b)). length x = MTU"
    using assms(1) by (auto simp: buffer_ok_def list_all_iff dest!: set_zip_rightD)
  have "set (rb_buffers b') \<subseteq> set (map2 write_slot (map snd ds) (rb_buffers b)) \<union> set (rb_buffers b)"
    using assms(3) set_drop_subset [of "length ds" "rb_buffers b"] by (auto simp: recvmmsg_def)
  then have "\<forall>x \<in> set (rb_buffers b'). length x = MTU" using slots assms(1) unfolding buffer_ok_def list_all_iff by blast
  then show "buffer_ok b'" using assms by (auto simp: recvmmsg_def buffer_ok_def list_all_iff)
  show "map snd (recv_iter b') = map (\<lambda>(_, d). take MTU d) ds"
    using assms
    by (intro nth_equalityI) (auto simp: recvmmsg_def recv_iter_def recv_item_def buffer_ok_def write_slot_def nth_append
        case_prod_beta)
qed

lemma recvmmsg_err: "recvmmsg (Inl e) b = (Inl e, b\<lparr> rb_nrecv := 0 \<rparr>)"
  by (simp add: recvmmsg_def)

lemma buffer_ok_nrecv [simp]: "buffer_ok (b\<lparr> rb_nrecv := n \<rparr>) = buffer_ok b"
  by (simp add: buffer_ok_def)

lemma deliver_open: "deliver (\<lambda>_. True) conn_id ds sent = (True, sent @ map (uplink_packet conn_id) (filter (\<lambda>d. d \<noteq> []) ds))"
  by (induction ds arbitrary: sent) (auto simp: uplink_packet_def)

lemma reader_run:
  "buffer_ok b \<Longrightarrow> list_all (\<lambda>ev. case ev of RecvCall (Inr ds) \<Rightarrow> length ds \<le> BATCH_RECV_SIZE | _ \<Rightarrow> True) script \<Longrightarrow>
   reader (\<lambda>_. True) conn_id script b sent = sent @ concat (map (reader_event conn_id) script)"
proof (induction script arbitrary: b sent)
  case Nil
  then show ?case by (simp add: reader.simps [of "\<lambda>_. True" conn_id "[]"])
next
  case (Cons ev script)
  note unfold = reader.simps [of "\<lambda>_. True" conn_id "e # script" b sent for e]
  consider (RecvWait) e where "ev = RecvWait e" | (RecvErr) e where "ev = RecvCall (Inl e)" | (RecvGot) ds where "ev = RecvCall (Inr ds)"
    by (metis recv_event.exhaust sum.exhaust)
  then show ?case
  proof cases
    case (RecvWait e)
    then show ?thesis using Cons by (simp add: unfold uplink_packet_def)
  next
    case (RecvErr e)
    have "reader (\<lambda>_. True) conn_id (ev # script) b sent = reader (\<lambda>_. True) conn_id script (b\<lparr> rb_nrecv := 0 \<rparr>) sent"
      if "recv_retry_action e \<noteq> Hard"
      unfolding unfold reader.simps [of "\<lambda>_. True" conn_id script]
      using that by (cases "recv_retry_action e") (simp_all add: RecvErr recvmmsg_err)
    then show ?thesis using Cons RecvErr
      by (cases "recv_retry_action e = Hard") (simp_all add: unfold recvmmsg_err uplink_packet_def)
  next
    case (RecvGot ds)
    obtain r b' where g: "recvmmsg (Inr ds) b = (r, b')" by fastforce
    have "length ds \<le> BATCH_RECV_SIZE" using Cons(3) RecvGot by simp
    note got = recvmmsg_got [OF Cons(2) this g]
    have packets: "map (uplink_packet conn_id) (filter (\<lambda>d. d \<noteq> []) (map (\<lambda>(_, d). take MTU d) ds)) = reader_event conn_id ev"
      unfolding RecvGot reader_event.simps by (induction ds) (auto simp: MTU_def)
    have "reader (\<lambda>_. True) conn_id (ev # script) b sent = reader (\<lambda>_. True) conn_id script b' (sent @ reader_event conn_id ev)"
      using packets by (auto simp: unfold RecvGot g got deliver_open simp del: map_map)
    then show ?thesis using Cons got(2) by simp
  qed
qed

text \<open>C25: the reader task loses, invents and reorders nothing. Over any script of waits, interruptions, errors and batches of
  at most 32 datagrams, starting with a fresh buffer, the packets it puts on the channel are exactly the received
  non-empty datagrams in order, each cut at 1500 bytes and free of bytes of earlier packets, and one empty packet for each hard
  error; an interrupted or empty read leaves no trace.
\<close>

theorem reader_exact:
  assumes "list_all (\<lambda>ev. case ev of RecvCall (Inr ds) \<Rightarrow> length ds \<le> BATCH_RECV_SIZE | _ \<Rightarrow> True) script"
  shows "reader (\<lambda>_. True) conn_id script RecvMmsgBuffer_new [] = concat (map (reader_event conn_id) script)"
  using reader_run [OF _ assms, of RecvMmsgBuffer_new] by (simp add: buffer_ok_def RecvMmsgBuffer_new_def list_all_iff)

theorem reader_exact_witness:
  "reader (\<lambda>_. True) 7 [RecvCall (Inr [(SaOther, [1, 2, 3]), (SaOther, [])]), RecvCall (Inl Interrupted), RecvCall (Inr [(SaOther, [9])]),
     RecvCall (Inl (OtherKind 5))]
     RecvMmsgBuffer_new [] =
   [uplink_packet 7 [1, 2, 3], uplink_packet 7 [9], uplink_packet 7 []]"
  by (subst reader_exact) (simp_all add: BATCH_RECV_SIZE_def MTU_def)

end
