(* ===== verification/Sockets.thy ===== *)
theory Sockets
  imports Batch_IO Uplinks
begin

unbundle bit_operations_syntax

text \<open>
  Opening the socket of an uplink (\<^verbatim>\<open>src/net/socket.rs\<close>, \<^verbatim>\<open>src/net/apple.rs\<close>, and the part of \<^verbatim>\<open>src/sender/connections.rs\<close> that
  puts them together). A socket is the record of the options the program sets on it; what the operating system
  answers is the record \<open>Os\<close>. The trait of the egress binders is the locale \<open>uplink_binder\<close>: a bound socket has the uplink's
  address as its source. Both binders of the program are instances; the third delegates to a function of the embedding host.
\<close>

section \<open>Sockets and the operating system\<close>

record LocalAddr =
  la_ip :: IpAddr
  la_port :: u16
  la_scope :: u32

record Sock =
  so_v6 :: bool
  so_nonblocking :: bool
  so_send_buf :: "usize option"
  so_recv_buf :: "usize option"
  so_bound_if :: "(bool \<times> u32) option"
  so_local :: "LocalAddr option"

text \<open>An entry of the interface list: the address, absent for a null pointer, and the name, absent if it is not text.\<close>

type_synonym ifaddr = "sockaddr_storage option \<times> string option"

record Os =
  os_socket :: bool
  os_nonblocking :: bool
  os_send_buffer :: bool
  os_recv_buffer :: bool
  os_bind :: "Sock \<Rightarrow> LocalAddr \<Rightarrow> bool"
  os_setsockopt :: bool
  os_getifaddrs :: "ifaddr list option"
  os_if_nametoindex :: "string \<Rightarrow> u32"
  os_nonblocking_again :: bool
  os_register :: bool

definition is_v6 :: "IpAddr \<Rightarrow> bool" where
  "is_v6 ip = (case ip of V4 _ \<Rightarrow> False | V6 _ \<Rightarrow> True)"

definition SEND_BUF_SIZE :: usize where "SEND_BUF_SIZE = 100 * 1024 * 1024"
definition RECV_BUF_SIZE :: usize where "RECV_BUF_SIZE = 100 * 1024 * 1024"

definition create_uplink_socket :: "Os \<Rightarrow> IpAddr \<Rightarrow> string + Sock" where
  "create_uplink_socket os domain_for =
     (if \<not> os_socket os then Inl ''create socket''
      else if \<not> os_nonblocking os then Inl ''set nonblocking''
      else Inr \<lparr> so_v6 = is_v6 domain_for, so_nonblocking = True,
                 so_send_buf = (if os_send_buffer os then Some SEND_BUF_SIZE else None),
                 so_recv_buf = (if os_recv_buffer os then Some RECV_BUF_SIZE else None), so_bound_if = None, so_local = None \<rparr>)"

definition sock_bind :: "Os \<Rightarrow> LocalAddr \<Rightarrow> string \<Rightarrow> Sock \<Rightarrow> string + Sock" where
  "sock_bind os addr msg sock = (if os_bind os sock addr then Inr (sock\<lparr> so_local := Some addr \<rparr>) else Inl msg)"

section \<open>Binders\<close>

definition source_ip_bind :: "Os \<Rightarrow> Sock \<Rightarrow> IpAddr \<Rightarrow> string + Sock" where
  "source_ip_bind os sock ip = sock_bind os \<lparr> la_ip = ip, la_port = 0, la_scope = 0 \<rparr> ''bind socket'' sock"

definition sockaddr_to_ip :: "sockaddr_storage option \<Rightarrow> IpAddr option" where
  "sockaddr_to_ip sa =
     (case sa of
        None \<Rightarrow> None
      | Some (SaIn _ addr) \<Rightarrow> Some (V4 (of_nat (be_nat addr)))
      | Some (SaIn6 _ addr _ _) \<Rightarrow> Some (V6 (of_nat (be_nat addr)))
      | Some SaOther \<Rightarrow> None)"

fun interface_scan :: "IpAddr \<Rightarrow> ifaddr list \<Rightarrow> string option option" where
  "interface_scan ip [] = None"
| "interface_scan ip ((sa, name) # rest) = (if sockaddr_to_ip sa \<noteq> Some ip then interface_scan ip rest else Some name)"

definition interface_name_for_ip :: "Os \<Rightarrow> (IpAddr \<Rightarrow> string) \<Rightarrow> IpAddr \<Rightarrow> string + string" where
  "interface_name_for_ip os show_ip ip =
     (case os_getifaddrs os of
        None \<Rightarrow> Inl ''getifaddrs''
      | Some entries \<Rightarrow>
          (case interface_scan ip entries of
             None \<Rightarrow> Inl (''address '' @ show_ip ip @ '' is not assigned to any interface'')
           | Some None \<Rightarrow> Inl (''interface name for '' @ show_ip ip @ '' is not valid UTF-8'')
           | Some (Some name) \<Rightarrow> Inr name))"

definition interface_index :: "Os \<Rightarrow> string \<Rightarrow> string + u32" where
  "interface_index os ifname =
     (if CHR 0x00 \<in> set ifname then Inl ''interface name contains a NUL byte''
      else let index = os_if_nametoindex os ifname in
           if index = 0 then Inl ''if_nametoindex'' else Inr index)"

definition bind_to_interface_index :: "Os \<Rightarrow> Sock \<Rightarrow> IpAddr \<Rightarrow> u32 \<Rightarrow> string + Sock" where
  "bind_to_interface_index os sock ip index =
     (if os_setsockopt os then Inr (sock\<lparr> so_bound_if := Some (is_v6 ip, index) \<rparr>) else Inl ''setsockopt BOUND_IF'')"

definition is_unicast_link_local :: "128 word \<Rightarrow> bool" where
  "is_unicast_link_local addr \<longleftrightarrow> (ucast (drop_bit 112 addr) :: 16 word) AND 0xFFC0 = 0xFE80"

type_synonym AppleInterfaceBinder = "(IpAddr, string) mapping"

definition with_interface :: "IpAddr \<Rightarrow> string \<Rightarrow> AppleInterfaceBinder \<Rightarrow> AppleInterfaceBinder" where
  "with_interface ip ifname overrides = Mapping.update ip ifname overrides"

text \<open>The error that is kept is the outermost context.\<close>

definition apple_local :: "IpAddr \<Rightarrow> u32 \<Rightarrow> LocalAddr" where
  "apple_local ip index =
     \<lparr> la_ip = ip, la_port = 0,
       la_scope = (case ip of V6 v6 \<Rightarrow> if is_unicast_link_local v6 then index else 0 | V4 _ \<Rightarrow> 0) \<rparr>"

definition apple_bind :: "AppleInterfaceBinder \<Rightarrow> (IpAddr \<Rightarrow> string) \<Rightarrow> Os \<Rightarrow> Sock \<Rightarrow> IpAddr \<Rightarrow> string + Sock" where
  "apple_bind overrides show_ip os sock ip =
     (case (case Mapping.lookup overrides ip of Some name \<Rightarrow> Inr name | None \<Rightarrow> interface_name_for_ip os show_ip ip) of
        Inl _ \<Rightarrow> Inl (''no interface carries uplink address '' @ show_ip ip)
      | Inr ifname \<Rightarrow>
          (case interface_index os ifname of
             Inl _ \<Rightarrow> Inl (''resolve interface index for '' @ ifname)
           | Inr index \<Rightarrow>
               (case bind_to_interface_index os sock ip index of
                  Inl _ \<Rightarrow> Inl (''bind uplink '' @ show_ip ip @ '' to '' @ ifname @ '' (index '' @ show_nat (unat index) @ '')'')
                | Inr sock1 \<Rightarrow> sock_bind os (apple_local ip index) (''bind socket to source address '' @ show_ip ip) sock1)))"

definition callback_bind :: "(Sock \<Rightarrow> IpAddr \<Rightarrow> Sock option) \<Rightarrow> Sock \<Rightarrow> IpAddr \<Rightarrow> string + Sock" where
  "callback_bind f sock ip = (case f sock ip of Some sock' \<Rightarrow> Inr sock' | None \<Rightarrow> Inl ''host bindSocket callback'')"

section \<open>Opening an uplink\<close>

text \<open>The socket work shared by a new uplink and a reconnect: create, bind, register with the runtime.\<close>

definition open_socket :: "(Os \<Rightarrow> Sock \<Rightarrow> IpAddr \<Rightarrow> string + Sock) \<Rightarrow> Os \<Rightarrow> IpAddr \<Rightarrow> SocketAddr \<Rightarrow> string + Sock \<times> SocketAddr" where
  "open_socket bind os ip remote =
     (case create_uplink_socket os ip of
        Inl e \<Rightarrow> Inl e
      | Inr sock \<Rightarrow>
          (case bind os sock ip of
             Inl e \<Rightarrow> Inl e
           | Inr sock1 \<Rightarrow>
               if \<not> os_nonblocking_again os then Inl ''set nonblocking''
               else if \<not> os_register os then Inl ''register''
               else Inr (sock1\<lparr> so_nonblocking := True \<rparr>, remote)))"

text \<open>Name resolution: the answer of the resolver, in order, or its failure; a lookup for a re-home may time out.\<close>

datatype lookup = Answers "SocketAddr list" | LookupFailed | LookupTimedOut

definition resolve_remote_all :: "lookup \<Rightarrow> SocketAddr list option" where
  "resolve_remote_all l = (case l of Answers as \<Rightarrow> Some as | _ \<Rightarrow> None)"

definition resolve_remote :: "lookup \<Rightarrow> SocketAddr option" where
  "resolve_remote l = (case resolve_remote_all l of Some (a # _) \<Rightarrow> Some a | _ \<Rightarrow> None)"

definition dns_resolve :: "lookup \<Rightarrow> SocketAddr list option" where
  "dns_resolve l =
     (case l of
        LookupTimedOut \<Rightarrow> None
      | _ \<Rightarrow> (case resolve_remote_all l of Some as \<Rightarrow> if as \<noteq> [] then Some as else None | None \<Rightarrow> None))"

text \<open>\<^verbatim>\<open>connect_uplink\<close> and \<^verbatim>\<open>rebuild_uplink_socket\<close> down to the socket: what the operating system, the resolver, the random generator
  and the clock answer are arguments.\<close>

definition connect_socket ::
  "(Os \<Rightarrow> Sock \<Rightarrow> IpAddr \<Rightarrow> string + Sock) \<Rightarrow> Os \<Rightarrow> lookup \<Rightarrow> u64 \<Rightarrow> u64 \<Rightarrow> (IpAddr \<Rightarrow> string) \<Rightarrow> IpAddr \<Rightarrow> string \<Rightarrow> u16 \<Rightarrow>
   (SrtlaConnection \<times> Sock \<times> ConnIo) option" where
  "connect_socket bind os l conn_id now show_ip ip receiver_host receiver_port =
     (case resolve_remote l of
        None \<Rightarrow> None
      | Some remote \<Rightarrow>
          (case open_socket bind os ip remote of
             Inl _ \<Rightarrow> None
           | Inr (sock, peer) \<Rightarrow>
               Some (new_registering conn_id (uplink_label show_ip receiver_host receiver_port ip) ip now, sock, \<lparr> io_remote = peer \<rparr>)))"

definition rebuild_socket ::
  "(Os \<Rightarrow> Sock \<Rightarrow> IpAddr \<Rightarrow> string + Sock) \<Rightarrow> Os \<Rightarrow> u64 \<Rightarrow> ConnIo \<Rightarrow> SrtlaConnection \<Rightarrow> SequenceTracker \<Rightarrow>
   (Sock \<times> SrtlaConnection \<times> SequenceTracker) option" where
  "rebuild_socket bind os now io conn tr =
     (case open_socket bind os (c_local_ip conn) (io_remote io) of
        Inl _ \<Rightarrow> None
      | Inr (sock, _) \<Rightarrow>
          let conn1 = reset_for_reconnect now conn
          in Some (sock, conn1\<lparr> c_reconnection := reset_startup_grace now (c_reconnection conn1) \<rparr>,
                   remove_connection (c_conn_id conn1) tr))"

text \<open>The detached check after a reconnect: whether it warns, and the time of the last warning.\<close>

definition receiver_dns_drift_check :: "lookup \<Rightarrow> SocketAddr \<Rightarrow> u64 \<Rightarrow> u64 \<Rightarrow> bool \<times> u64" where
  "receiver_dns_drift_check l cached now last_warn =
     (case resolve_remote_all l of
        Some fresh \<Rightarrow> if dns_drift_detected cached fresh then claim_dns_drift_warning now last_warn else (False, last_warn)
      | None \<Rightarrow> (False, last_warn))"

text \<open>The surroundings of the model of the sender, with \<open>k_open\<close> computed: the socket opens.\<close>

definition socket_env ::
  "(Os \<Rightarrow> Sock \<Rightarrow> IpAddr \<Rightarrow> string + Sock) \<Rightarrow> (usize \<Rightarrow> Os) \<Rightarrow> (usize \<Rightarrow> lookup) \<Rightarrow> (usize \<Rightarrow> u64) \<Rightarrow> (usize \<Rightarrow> u64) \<Rightarrow>
   (IpAddr \<Rightarrow> string) \<Rightarrow> IpAddr list \<Rightarrow> ConnectEnv" where
  "socket_env bind os l ids clk show_ip ips = \<lparr> k_show_ip = show_ip, k_resolve = (\<lambda>i. resolve_remote (l i)),
     k_open = (\<lambda>i. case resolve_remote (l i) of
                 None \<Rightarrow> False
               | Some remote \<Rightarrow> (case open_socket bind (os i) (ips ! i) remote of Inl _ \<Rightarrow> False | Inr _ \<Rightarrow> True)),
     k_conn_id = ids, k_now = clk \<rparr>"

definition connect_sockets ::
  "(Os \<Rightarrow> Sock \<Rightarrow> IpAddr \<Rightarrow> string + Sock) \<Rightarrow> (usize \<Rightarrow> Os) \<Rightarrow> (usize \<Rightarrow> lookup) \<Rightarrow> (usize \<Rightarrow> u64) \<Rightarrow> (usize \<Rightarrow> u64) \<Rightarrow>
   (IpAddr \<Rightarrow> string) \<Rightarrow> IpAddr list \<Rightarrow> u8 list \<Rightarrow> string \<Rightarrow> u16 \<Rightarrow> (SrtlaConnection \<times> Sock \<times> ConnIo) list" where
  "connect_sockets bind os l ids clk show_ip ips weights host port =
     List.map_filter (\<lambda>(i, ip). map_option (\<lambda>(c, r). (c\<lparr> c_link_weight := weight_for ips weights ip \<rparr>, r))
       (connect_socket bind (os i) (l i) (ids i) (clk i) show_ip ip host port)) (enumerate 0 ips)"

lemma peer_remote: "open_socket bind os ip remote = Inr (sock, peer) \<Longrightarrow> peer = remote"
  by (auto simp: open_socket_def split: sum.splits if_splits)

lemma connect_refines:
  "i < length ips \<Longrightarrow> connect_uplink (socket_env bind os l ids clk show_ip ips) i (ips ! i) host port =
     map_option (\<lambda>(c, sock, cio). (c, cio)) (connect_socket bind (os i) (l i) (ids i) (clk i) show_ip (ips ! i) host port)"
  by (auto simp: connect_uplink_def connect_socket_def socket_env_def split: option.split sum.split dest: peer_remote)

lemma rebuild_refines:
  assumes "h_rebuild env (c_conn_id c) = (case open_socket bind os (c_local_ip c) (io_remote io) of Inl _ \<Rightarrow> False | Inr _ \<Rightarrow> True)"
  shows "rebuild_uplink_socket env c tr = map_option snd (rebuild_socket bind os (h_now env) io c tr)"
  using assms by (simp add: rebuild_uplink_socket_def rebuild_socket_def Let_def split: sum.split)

lemma map_filter_filter: "List.map_filter f xs = map (\<lambda>x. the (f x)) (filter (\<lambda>x. f x \<noteq> None) xs)"
  by (induction xs) (auto simp: List.map_filter_simps split: option.split)

lemma create_refines:
  "fst (create_connections_from_ips (socket_env bind os l ids clk show_ip ips) ips weights host port io) =
     map fst (connect_sockets bind os l ids clk show_ip ips weights host port)"
proof -
  let ?k = "socket_env bind os l ids clk show_ip ips"
  let ?f = "\<lambda>(i, ip). map_option (\<lambda>(c, r). (c\<lparr> c_link_weight := weight_for ips weights ip \<rparr>, r))
       (connect_socket bind (os i) (l i) (ids i) (clk i) show_ip ip host port)"
  obtain cs io' where c: "create_loop ?k ips weights host port 0 ips io = (cs, io')" by fastforce
  have one: "(?f (i, ip) \<noteq> None) = (k_resolve ?k i \<noteq> None \<and> k_open ?k i)"
    "?f (i, ip) \<noteq> None \<Longrightarrow> fst (the (?f (i, ip))) = new_uplink ?k host port (weight_for ips weights) (i, ip)"
    if "(i, ip) \<in> set (enumerate 0 ips)" for i ip
    using that by (auto simp: in_set_enumerate_eq connect_socket_def socket_env_def new_uplink_def split: option.splits sum.splits)
  have "filter (\<lambda>x. ?f x \<noteq> None) (enumerate 0 ips) = opened ?k 0 ips"
    unfolding opened_def by (rule filter_cong [OF refl]) (use one(1) in fastforce)
  moreover have "map (\<lambda>x. fst (the (?f x))) (filter (\<lambda>x. ?f x \<noteq> None) (enumerate 0 ips)) =
      map (new_uplink ?k host port (weight_for ips weights)) (filter (\<lambda>x. ?f x \<noteq> None) (enumerate 0 ips))"
    by (rule map_cong [OF refl]) (use one(2) in fastforce)
  ultimately show ?thesis
    using create_loop_result [OF c]
    by (simp add: create_connections_from_ips_def c connect_sockets_def map_filter_filter comp_def)
qed

lemma connect_sockets_member:
  assumes "(c, sock, cio) \<in> set (connect_sockets bind os l ids clk show_ip ips weights host port)"
  obtains i d where "i < length ips" "connect_socket bind (os i) (l i) (ids i) (clk i) show_ip (ips ! i) host port = Some (d, sock, cio)"
    "c_local_ip c = c_local_ip d"
  using assms by (auto simp: connect_sockets_def map_filter_filter in_set_enumerate_eq)

section \<open>What a binder promises\<close>

locale uplink_binder =
  fixes bind :: "Os \<Rightarrow> Sock \<Rightarrow> IpAddr \<Rightarrow> string + Sock"
  assumes bound_source: "bind os sock ip = Inr sock' \<Longrightarrow> \<exists>a. so_local sock' = Some a \<and> la_ip a = ip \<and> la_port a = 0"
    and keeps_options: "bind os sock ip = Inr sock' \<Longrightarrow>
      so_v6 sock' = so_v6 sock \<and> so_send_buf sock' = so_send_buf sock \<and> so_recv_buf sock' = so_recv_buf sock"
begin

lemma open_socket_bound:
  assumes "open_socket bind os ip remote = Inr (sock, peer)"
  shows "peer = remote \<and> so_nonblocking sock \<and> so_v6 sock = is_v6 ip \<and>
    (\<exists>a. so_local sock = Some a \<and> la_ip a = ip \<and> la_port a = 0)"
proof -
  obtain s0 s1 where c: "create_uplink_socket os ip = Inr s0" and b: "bind os s0 ip = Inr s1"
    and s: "sock = s1\<lparr> so_nonblocking := True \<rparr>" "peer = remote"
    using assms by (auto simp: open_socket_def split: sum.splits if_splits)
  have "so_v6 s0 = is_v6 ip" using c by (auto simp: create_uplink_socket_def Let_def split: if_splits)
  then show ?thesis using bound_source [OF b] keeps_options [OF b] by (simp add: s)
qed

lemma connect_socket_bound:
  assumes "connect_socket bind os l conn_id now show_ip ip host port = Some (c, sock, cio)"
  shows "c_local_ip c = ip \<and> resolve_remote l = Some (io_remote cio) \<and> so_nonblocking sock \<and> so_v6 sock = is_v6 ip \<and>
    map_option (\<lambda>a. (la_ip a, la_port a)) (so_local sock) = Some (ip, 0)"
proof -
  obtain remote peer where "resolve_remote l = Some remote" "open_socket bind os ip remote = Inr (sock, peer)"
    "c_local_ip c = ip" "cio = \<lparr> io_remote = peer \<rparr>"
    using assms by (auto simp: connect_socket_def new_registering_def split: option.splits sum.splits)
  then show ?thesis using open_socket_bound [of os ip remote sock peer] by auto
qed

end

interpretation source_ip: uplink_binder source_ip_bind
  by unfold_locales (auto simp: source_ip_bind_def sock_bind_def split: if_splits)

interpretation apple: uplink_binder "apple_bind overrides show_ip" for overrides show_ip
  by unfold_locales
    (auto simp: apple_bind_def sock_bind_def bind_to_interface_index_def apple_local_def split: sum.splits if_splits option.splits)

text \<open>C20: every link of the bond leaves from its own address. The links that the sender creates for a list of addresses are the ones
  whose name lookup and socket succeed, in order, each with its weight; and the socket of each, opened by either binder, is
  non-blocking, of the family of the link's own address, bound to that address on an ephemeral port, and paired with the
  first address the lookup gave.
\<close>

theorem created_uplinks_bound:
  "list_all (\<lambda>bind.
     fst (create_connections_from_ips (socket_env bind os l ids clk show_ip ips) ips weights host port io) =
       map fst (connect_sockets bind os l ids clk show_ip ips weights host port) \<and>
     list_all (\<lambda>(c, sock, cio). c_local_ip c \<in> set ips \<and> so_nonblocking sock \<and> so_v6 sock = is_v6 (c_local_ip c) \<and>
         map_option (\<lambda>a. (la_ip a, la_port a)) (so_local sock) = Some (c_local_ip c, 0) \<and>
         Some (io_remote cio) \<in> (resolve_remote \<circ> l) ` {..<length ips})
       (connect_sockets bind os l ids clk show_ip ips weights host port))
   [source_ip_bind, apple_bind overrides show_ip]"
proof -
  have "c_local_ip c \<in> set ips \<and> so_nonblocking sock \<and> so_v6 sock = is_v6 (c_local_ip c) \<and>
      map_option (\<lambda>a. (la_ip a, la_port a)) (so_local sock) = Some (c_local_ip c, 0) \<and>
      Some (io_remote cio) \<in> (resolve_remote \<circ> l) ` {..<length ips}"
    if b: "uplink_binder bind" and m: "(c, sock, cio) \<in> set (connect_sockets bind os l ids clk show_ip ips weights host port)"
    for bind c sock cio
  proof -
    obtain i d where i: "i < length ips" and "connect_socket bind (os i) (l i) (ids i) (clk i) show_ip (ips ! i) host port = Some (d, sock, cio)"
      and c: "c_local_ip c = c_local_ip d"
      using connect_sockets_member [OF m] .
    note d = uplink_binder.connect_socket_bound [OF b this(2)]
    then have "Some (io_remote cio) \<in> (resolve_remote \<circ> l) ` {..<length ips}" using i by (intro image_eqI [of _ _ i]) simp_all
    then show ?thesis using d i c by simp
  qed
  note this [OF source_ip.uplink_binder_axioms] this [OF apple.uplink_binder_axioms]
  then show ?thesis by (auto simp: create_refines list_all_iff)
qed

text \<open>The first interface that carries an address.\<close>

lemma interface_scan_dropWhile:
  "interface_scan ip entries =
     (case dropWhile (\<lambda>(sa, _). sockaddr_to_ip sa \<noteq> Some ip) entries of [] \<Rightarrow> None | (sa, name) # _ \<Rightarrow> Some name)"
  by (induction ip entries rule: interface_scan.induct) auto

lemma interface_scan_carries:
  "interface_scan ip entries = Some name \<Longrightarrow> \<exists>sa. (sa, name) \<in> set entries \<and> sockaddr_to_ip sa = Some ip"
  by (induction ip entries rule: interface_scan.induct) (auto split: if_splits)

text \<open>An opened uplink leaves from its own address. Whatever the operating system answers and whichever of the program's
  binders is used, a socket that opens is non-blocking, of the family of the uplink's address, bound to that address on
  an ephemeral port, and sends to the given receiver; on Darwin it is also pinned to a real interface, the one
  registered for the address or else one that carries it.
\<close>

theorem opened_uplink_bound:
  "(case open_socket source_ip_bind os ip remote of
      Inl _ \<Rightarrow> True
    | Inr (sock, peer) \<Rightarrow> peer = remote \<and> so_nonblocking sock \<and> so_v6 sock = is_v6 ip \<and>
        map_option (\<lambda>a. (la_ip a, la_port a)) (so_local sock) = Some (ip, 0)) \<and>
   (case open_socket (apple_bind overrides show_ip) os ip remote of
      Inl _ \<Rightarrow> True
    | Inr (sock, peer) \<Rightarrow> peer = remote \<and> so_nonblocking sock \<and> so_v6 sock = is_v6 ip \<and>
        map_option (\<lambda>a. (la_ip a, la_port a)) (so_local sock) = Some (ip, 0) \<and>
        (\<exists>ifname index. so_bound_if sock = Some (is_v6 ip, index) \<and> index \<noteq> 0 \<and> os_if_nametoindex os ifname = index \<and>
          (case Mapping.lookup overrides ip of
             Some name \<Rightarrow> ifname = name
           | None \<Rightarrow> \<exists>entries sa. os_getifaddrs os = Some entries \<and> (sa, Some ifname) \<in> set entries \<and> sockaddr_to_ip sa = Some ip)))"
proof -
  have pinned: "\<exists>ifname index. so_bound_if sock' = Some (is_v6 ip, index) \<and> index \<noteq> 0 \<and> os_if_nametoindex os ifname = index \<and>
      (case Mapping.lookup overrides ip of
         Some name \<Rightarrow> ifname = name
       | None \<Rightarrow> \<exists>entries sa. os_getifaddrs os = Some entries \<and> (sa, Some ifname) \<in> set entries \<and> sockaddr_to_ip sa = Some ip)"
    if "apple_bind overrides show_ip os sock ip = Inr sock'" for sock sock'
    using that
    by (auto simp: apple_bind_def interface_name_for_ip_def interface_index_def bind_to_interface_index_def sock_bind_def
        Let_def split: sum.splits option.splits if_splits dest!: interface_scan_carries)
  have "\<exists>ifname index. so_bound_if sock = Some (is_v6 ip, index) \<and> index \<noteq> 0 \<and> os_if_nametoindex os ifname = index \<and>
      (case Mapping.lookup overrides ip of
         Some name \<Rightarrow> ifname = name
       | None \<Rightarrow> \<exists>entries sa. os_getifaddrs os = Some entries \<and> (sa, Some ifname) \<in> set entries \<and> sockaddr_to_ip sa = Some ip)"
    if "open_socket (apple_bind overrides show_ip) os ip remote = Inr (sock, peer)" for sock peer
    using that pinned by (auto simp: open_socket_def split: sum.splits if_splits)
  then show ?thesis
    using source_ip.open_socket_bound [of os ip remote] apple.open_socket_bound [of overrides show_ip os ip remote]
    by (fastforce split: sum.splits)
qed

end
