(* ===== verification/Fallback_IO.thy ===== *)
theory Fallback_IO
  imports Batch_IO
begin

text \<open>
  The socket layer on systems without \<^verbatim>\<open>sendmmsg\<close> and \<^verbatim>\<open>recvmmsg\<close> (module \<^verbatim>\<open>fallback_impl\<close> of \<^verbatim>\<open>src/net/batch_recv.rs\<close>): one datagram
  per call, over an asynchronous socket that waits by itself. Its script holds the answers to the awaited calls. The module is the
  second instance of \<open>batch_socket\<close>, so a flush keeps the same contract; its reader delivers what the Linux reader
  delivers for reads of one datagram, except that it reports a call interrupted by a signal as an error.
\<close>

section \<open>Sending\<close>

fun fallback_send_loop :: "SocketAddr \<Rightarrow> (ErrorKind + nat) list \<Rightarrow> nat \<Rightarrow> bytes list \<Rightarrow>
  ((ErrorKind + nat) \<times> datagram list \<times> (ErrorKind + nat) list) option" where
  "fallback_send_loop peer script sent [] = Some (Inr sent, [], script)"
| "fallback_send_loop peer [] sent (buf # bufs) = None"
| "fallback_send_loop peer (Inr _ # script) sent (buf # bufs) =
     map_option (\<lambda>(r, out, rest). (r, (peer, buf) # out, rest)) (fallback_send_loop peer script (sent + 1) bufs)"
| "fallback_send_loop peer (Inl e # script) sent (buf # bufs) =
     (if sent > 0 then Some (Inr sent, [], script) else Some (Inl e, [], script))"

definition fallback_send_batch :: "(ErrorKind + nat) list batch_sender_fn" where
  "fallback_send_batch peer script bufs = fallback_send_loop peer script 0 bufs"

fun fallback_send :: "SocketAddr \<Rightarrow> (ErrorKind + nat) list \<Rightarrow> bytes \<Rightarrow> ((ErrorKind + nat) \<times> datagram list \<times> (ErrorKind + nat) list) option" where
  "fallback_send peer [] buf = None"
| "fallback_send peer (Inr _ # script) buf = Some (Inr (length buf), [(peer, buf)], script)"
| "fallback_send peer (Inl e # script) buf = Some (Inl e, [], script)"

section \<open>Receiving\<close>

record FallbackBuffer =
  fb_buffer :: bytes
  fb_len :: nat
  fb_addr :: "SocketAddr option"
  fb_has_packet :: bool

definition FallbackBuffer_new :: FallbackBuffer where
  "FallbackBuffer_new = \<lparr> fb_buffer = replicate MTU 0, fb_len = 0, fb_addr = None, fb_has_packet = False \<rparr>"

definition fallback_recv_batch :: "ErrorKind + bytes \<times> SocketAddr \<Rightarrow> FallbackBuffer \<Rightarrow> (ErrorKind + nat) \<times> FallbackBuffer" where
  "fallback_recv_batch result b =
     (case result of
        Inr (data, addr) \<Rightarrow>
          (Inr 1, b\<lparr> fb_buffer := write_slot data (fb_buffer b), fb_len := min (length data) MTU, fb_addr := Some addr,
                     fb_has_packet := True \<rparr>)
      | Inl e \<Rightarrow> (Inl e, b\<lparr> fb_has_packet := False \<rparr>))"

definition fallback_iter :: "FallbackBuffer \<Rightarrow> (SocketAddr option \<times> bytes) list" where
  "fallback_iter b = (if \<not> fb_has_packet b then [] else [(fb_addr b, take (fb_len b) (fb_buffer b))])"

fun fallback_reader ::
  "(nat \<Rightarrow> bool) \<Rightarrow> u64 \<Rightarrow> (ErrorKind + bytes \<times> SocketAddr) list \<Rightarrow> FallbackBuffer \<Rightarrow> UplinkPacket list \<Rightarrow> UplinkPacket list" where
  "fallback_reader chan conn_id [] b sent = sent"
| "fallback_reader chan conn_id (result # script) b sent =
     (case fallback_recv_batch result b of
        (Inr count, b') \<Rightarrow>
          if 0 < count then
            (case deliver chan conn_id (map snd (fallback_iter b')) sent of
               (go_on, sent') \<Rightarrow> if go_on then fallback_reader chan conn_id script b' sent' else sent')
          else fallback_reader chan conn_id script b' sent
      | (Inl err, b') \<Rightarrow>
          if chan (length sent) then fallback_reader chan conn_id script b' (sent @ [\<lparr> up_conn_id = conn_id, up_bytes = [] \<rparr>])
          else sent)"

section \<open>The second instance of the socket\<close>

lemma fallback_send_loop_result:
  "fallback_send_loop peer script sent bufs = Some (r, out, rest) \<Longrightarrow>
   (case r of
      Inl _ \<Rightarrow> sent = 0 \<and> out = []
    | Inr n \<Rightarrow> sent \<le> n \<and> n - sent \<le> length bufs \<and> out = map (Pair peer) (take (n - sent) bufs) \<and>
        length script \<le> length rest + (n - sent) + 1 \<and> (sent = 0 \<longrightarrow> n = 0 \<longrightarrow> bufs = []))"
proof (induction peer script sent bufs arbitrary: r out rest rule: fallback_send_loop.induct)
  case (3 peer k script sent buf bufs)
  then obtain out' where s: "fallback_send_loop peer script (sent + 1) bufs = Some (r, out', rest)" "out = (peer, buf) # out'" by auto
  note 3(1) [OF s(1)]
  then show ?case using s(2) by (cases r) (auto simp: take_Cons' Suc_diff_le split: sum.splits)
qed (auto split: if_splits)

lemma fallback_send_loop_returns: "length bufs \<le> length script \<Longrightarrow> \<exists>y. fallback_send_loop peer script sent bufs = Some y"
  by (induction peer script sent bufs rule: fallback_send_loop.induct) auto

interpretation fallback: batch_socket fallback_send_batch length
proof
  fix bufs :: "bytes list" and peer script
  assume ne: "bufs \<noteq> []"
  show "case r of Inl _ \<Rightarrow> out = [] | Inr n \<Rightarrow> n \<le> length bufs \<and> out = map (Pair peer) (take n bufs)"
    if "fallback_send_batch peer script bufs = Some (r, out, rest)" for r out rest
    using fallback_send_loop_result [OF that [unfolded fallback_send_batch_def]] by (auto split: sum.splits)
  show "length script \<le> length rest + 2 * n" if "fallback_send_batch peer script bufs = Some (Inr n, out, rest)" "n \<noteq> 0" for n out rest
    using fallback_send_loop_result [OF that(1) [unfolded fallback_send_batch_def]] that(2) by auto
  show "\<exists>y. fallback_send_batch peer script bufs = Some y" if "2 * length bufs \<le> length script"
    unfolding fallback_send_batch_def using that by (intro fallback_send_loop_returns) simp
qed

section \<open>How the platforms differ\<close>

text \<open>The result of a receive call, as the Linux reader meets it; the address bytes do not matter to the reader.\<close>

fun as_linux :: "ErrorKind + bytes \<times> SocketAddr \<Rightarrow> recv_event" where
  "as_linux (Inr (data, _)) = RecvCall (Inr [(SaOther, data)])"
| "as_linux (Inl e) = RecvCall (Inl e)"

text \<open>The results the Linux reader goes on from without telling anybody, by \<^verbatim>\<open>recv_retry_action\<close>.\<close>

fun transient :: "ErrorKind + bytes \<times> SocketAddr \<Rightarrow> bool" where
  "transient (Inl e) = (e = Interrupted \<or> e = WouldBlock)"
| "transient (Inr _) = False"

definition fallback_event :: "u64 \<Rightarrow> ErrorKind + bytes \<times> SocketAddr \<Rightarrow> UplinkPacket list" where
  "fallback_event conn_id res = (case res of
     Inl _ \<Rightarrow> [uplink_packet conn_id []] | Inr _ \<Rightarrow> reader_event conn_id (as_linux res))"

lemma retry_transient: "recv_retry_action e = Hard \<longleftrightarrow> \<not> transient (Inl e)"
  by (cases e) simp_all

lemma linux_event: "reader_event conn_id (as_linux res) = (if transient res then [] else fallback_event conn_id res)"
  by (cases res) (auto simp: fallback_event_def retry_transient simp del: transient.simps(1))

lemma fallback_reader_run:
  "length (fb_buffer b) = MTU \<Longrightarrow> fallback_reader (\<lambda>_. True) conn_id results b sent = sent @ concat (map (fallback_event conn_id) results)"
proof (induction results arbitrary: b sent)
  case (Cons res results)
  show ?case
  proof (cases res)
    case (Inl e)
    then show ?thesis using Cons by (simp add: fallback_recv_batch_def uplink_packet_def fallback_event_def)
  next
    case (Inr da)
    obtain data addr where da: "da = (data, addr)" by (cases da)
    have "take (min (length data) MTU) (write_slot data (fb_buffer b)) = take MTU data"
      using Cons(2) by (simp add: write_slot_def min_def)
    moreover have "take MTU data = [] \<longleftrightarrow> data = []" by (auto simp: MTU_def)
    ultimately show ?thesis
      using Cons Inr da by (auto simp: fallback_recv_batch_def fallback_iter_def deliver_open fallback_event_def)
  qed
qed simp

lemma linux_reader_run:
  "reader (\<lambda>_. True) conn_id (map as_linux results) RecvMmsgBuffer_new [] =
     concat (map (fallback_event conn_id) (filter (\<lambda>res. \<not> transient res) results))"
proof -
  have one: "case as_linux res of RecvCall (Inr ds) \<Rightarrow> length ds \<le> BATCH_RECV_SIZE | _ \<Rightarrow> True" for res
    by (cases res rule: as_linux.cases) (simp_all add: BATCH_RECV_SIZE_def)
  have "concat (map (reader_event conn_id \<circ> as_linux) results) = concat (map (fallback_event conn_id) (filter (\<lambda>res. \<not> transient res) results))"
    by (induction results) (simp_all add: linux_event)
  then show ?thesis
    using reader_run [of RecvMmsgBuffer_new "map as_linux results" conn_id "[]"] one
    by (simp add: buffer_ok_def RecvMmsgBuffer_new_def list_all_iff)
qed

lemma fallback_excess:
  "length (concat (map (fallback_event conn_id) results)) =
     length (concat (map (fallback_event conn_id) (filter (\<lambda>res. \<not> transient res) results))) + length (filter transient results)"
proof (induction results)
  case (Cons res results)
  then show ?case by (cases res) (auto simp: fallback_event_def)
qed simp

text \<open>
  C26: how far the program behaves alike on every platform. On systems that send and receive one datagram per call, flushing a link's queue
  over a socket that answers twice per datagram returns, with the whole queue or exactly the reported prefix of it sent in
  order, which is what the flush accounts for. Given the same results of its receive calls, one datagram at a time, the reader puts on the channel
  what the Linux reader does, except for each call that was interrupted by a signal or would have blocked: the Linux reader goes on in silence, and this one reports
  an error to the sender, as an empty packet. Without such calls the two channels are equal.
\<close>

theorem platforms_agree:
  assumes "link_ok c" "bs_queue (c_batch_sender c) \<noteq> []" "2 * length (bs_queue (c_batch_sender c)) \<le> length script"
  shows "(\<exists>r out rest. send_all_datagrams fallback_send_batch peer script (bs_queue (c_batch_sender c)) = Some (r, out, rest) \<and>
      (case r of Inr _ \<Rightarrow> out = map (Pair peer) (bs_queue (c_batch_sender c))
       | Inl e \<Rightarrow> be_sent e < length (bs_queue (c_batch_sender c)) \<and> out = map (Pair peer) (take (be_sent e) (bs_queue (c_batch_sender c)))) \<and>
      snd (snd (flush_connection (socket_outcome r) now c tr)) = map (\<lambda>(_, data). ToUplink (c_conn_id c) data) out) \<and>
     (let linux = reader (\<lambda>_. True) conn_id (map as_linux results) RecvMmsgBuffer_new [];
          here = \<lambda>rs. fallback_reader (\<lambda>_. True) conn_id rs FallbackBuffer_new []
      in linux = here (filter (\<lambda>res. \<not> transient res) results) \<and>
         length (here results) = length linux + length (filter transient results) \<and>
         (list_all (\<lambda>res. \<not> transient res) results \<longrightarrow> here results = linux))"
proof -
  obtain r out rest where s: "send_all_datagrams fallback_send_batch peer script (bs_queue (c_batch_sender c)) = Some (r, out, rest)"
    and r: "sent_from peer (bs_queue (c_batch_sender c)) 0 r out"
    using fallback.send_all_exact [OF assms(3)] by blast
  have here: "fallback_reader (\<lambda>_. True) conn_id rs FallbackBuffer_new [] = concat (map (fallback_event conn_id) rs)" for rs
    using fallback_reader_run [of FallbackBuffer_new] by (simp add: FallbackBuffer_new_def)
  have "list_all (\<lambda>res. \<not> transient res) results \<Longrightarrow> filter (\<lambda>res. \<not> transient res) results = results"
    by (simp add: list_all_iff)
  then show ?thesis
    using s r flush_accounts [OF assms(1,2) r] fallback_excess [of conn_id results]
    by (auto simp: sent_from_def here linux_reader_run Let_def split: sum.splits)
qed

text \<open>A datagram, a signal during the next call, and a hard error: three packets on the channel here, two on Linux.\<close>

theorem platforms_agree_witness:
  "(\<exists>r out rest. send_all_datagrams fallback_send_batch (V4 1, 9) [Inr 4, Inr 0] [[0, 0, 0, 5]] = Some (r, out, rest) \<and>
     snd (snd (flush_connection (socket_outcome r) 30 queued_link SequenceTracker_new)) = map (\<lambda>(_, data). ToUplink 7 data) out) \<and>
   length (fallback_reader (\<lambda>_. True) 7 [Inr ([1, 2], (V4 1, 9)), Inl Interrupted, Inl (OtherKind 9)] FallbackBuffer_new []) =
     length (reader (\<lambda>_. True) 7 [RecvCall (Inr [(SaOther, [1, 2])]), RecvCall (Inl Interrupted), RecvCall (Inl (OtherKind 9))] RecvMmsgBuffer_new []) + 1"
  using platforms_agree [OF queued_link_ok(1), of "[Inr 4, Inr 0]" "(V4 1, 9)" 30 SequenceTracker_new 7
    "[Inr ([1, 2], (V4 1, 9)), Inl Interrupted, Inl (OtherKind 9)]"]
  by (auto simp: queued_link_ok Let_def simp del: reader.simps fallback_reader.simps)

end
