(* ===== verification/Duplication.thy ===== *)
theory Duplication
  imports Provenance
begin

text \<open>
  The sender does not multiply payload. Every copy of a client packet that is queued on a link or has left on one is
  accounted for by a time the client sent it; only the duplicates that probe a gated link go beyond that, and these carry the
  retransmission flag. The count of queued copies is the potential that pays for each datagram that leaves.
\<close>

section \<open>Counting copies\<close>

fun to_uplink :: "effect \<Rightarrow> bytes list" where
  "to_uplink (ToUplink _ data) = [data]"
| "to_uplink _ = []"

definition sent_copies :: "bytes \<Rightarrow> effect list \<Rightarrow> nat" where
  "sent_copies d es = count_list (concat (map to_uplink es)) d"

definition queued_copies :: "bytes \<Rightarrow> SrtlaConnection list \<Rightarrow> nat" where
  "queued_copies d cs = sum_list (map (\<lambda>q. count_list q d) (map queued cs))"

lemma sent_copies_simps [simp]:
  "sent_copies d [] = 0" "sent_copies d (es @ fs) = sent_copies d es + sent_copies d fs"
  "sent_copies d (e # es) = count_list (to_uplink e) d + sent_copies d es"
  by (simp_all add: sent_copies_def)

lemma sent_copies_data: "sent_copies d (map (ToUplink i) xs) = count_list xs d"
  by (induction xs) simp_all

lemma queued_copies_simps [simp]:
  "queued_copies d [] = 0" "queued_copies d (c # cs) = count_list (queued c) d + queued_copies d cs"
  by (simp_all add: queued_copies_def)

lemma control_not_sent: "effects_ok (\<lambda>_. False) (\<lambda>_. True) (\<lambda>_. True) es \<Longrightarrow> \<not> control_frame d \<Longrightarrow> sent_copies d es = 0"
proof (induction es)
  case (Cons e es)
  then show ?case by (cases e) auto
qed simp

lemma copies_kept: "all_kept cs ds \<Longrightarrow> queued_copies d ds \<le> queued_copies d cs"
  by (induction rule: list_all2_induct) (auto simp: kept_def)

lemma copies_same: "map queued ds = map queued cs \<Longrightarrow> queued_copies d ds = queued_copies d cs"
  by (simp only: queued_copies_def)

lemma copies_update:
  assumes "i < length cs"
  shows "queued_copies d (cs[i := c]) + count_list (queued (cs ! i)) d = queued_copies d cs + count_list (queued c) d"
  using assms
proof (induction cs arbitrary: i)
  case (Cons a cs)
  then show ?case by (cases i) auto
qed simp

lemma count_take: "count_list (take n xs) d \<le> count_list xs d"
  using count_list_append [of "take n xs" "drop n xs" d] by simp

section \<open>Flushing and forwarding\<close>

lemma batch_prefix: "\<exists>k. map (\<lambda>(data, _, _). data) (fst (take_batch now c)) = take k (queued c)"
proof -
  let ?b = "c_batch_sender c"
  let ?z = "zip (zip (bs_queue ?b) (bs_sequences ?b)) (bs_queue_times ?b)"
  have "map (\<lambda>x. fst (fst x)) ?z = map fst (map fst ?z)" by simp
  also have "\<dots> = take (min (length (zip (bs_queue ?b) (bs_sequences ?b))) (length (bs_queue_times ?b)))
      (take (min (length (bs_queue ?b)) (length (bs_sequences ?b))) (bs_queue ?b))"
    by (simp only: map_fst_zip_take take_map [symmetric])
  finally have "\<exists>k. map (\<lambda>x. fst (fst x)) ?z = take k (queued c)" by (metis take_take)
  moreover have "map (\<lambda>(data, _, _). data) (fst (take_batch now c)) = (if queued c = [] then [] else map (\<lambda>x. fst (fst x)) ?z)"
    by (simp add: take_batch_def batch_drain_def case_prod_beta' comp_def)
  ultimately show ?thesis by (metis take0)
qed

lemma flush_count:
  assumes "flush_connection outcome now c tr = (c', tr', es)"
  shows "sent_copies d es + count_list (queued c') d \<le> count_list (queued c) d"
proof -
  obtain batch c1 where t: "take_batch now c = (batch, c1)" by fastforce
  obtain k where k: "map (\<lambda>(data, _, _). data) batch = take k (queued c)" using batch_prefix [of now c] t by auto
  have c1: "queued c1 = []" using queued_data_ops(3) [of now c] t by simp
  have e: "queued c' = []" "es = map (\<lambda>(data, _, _). ToUplink (c_conn_id c) data)
      (case outcome of SendOk \<Rightarrow> batch | SendErr n \<Rightarrow> take n batch)"
    using assms c1 by (auto simp: flush_connection_def send_connection_batch_def t recover_connection_def
        split: SendOutcome.splits if_splits)
  have "sent_copies d (map (\<lambda>(data, _, _). ToUplink (c_conn_id c) data) (take n batch)) \<le> count_list (queued c) d" for n
  proof -
    have "map (\<lambda>(data, _, _). ToUplink (c_conn_id c) data) (take n batch) = map (ToUplink (c_conn_id c)) (take n (take k (queued c)))"
      unfolding k [symmetric] take_map by (rule map_data)
    then show ?thesis using count_take [of n "take k (queued c)" d] count_take [of k "queued c" d] by (simp add: sent_copies_data)
  qed
  from this [of "length batch"] this show ?thesis using e by (simp split: SendOutcome.split)
qed

lemma flush_loop_count:
  "flush_loop io clk now cs tr = (cs', tr', es) \<Longrightarrow> sent_copies d es + queued_copies d cs' \<le> queued_copies d cs"
proof (induction io clk now cs tr arbitrary: cs' tr' es rule: flush_loop.induct)
  case (2 io clk now c cs tr)
  let ?o = "if needs_batch_flush now c \<or> has_queued_packets (c_batch_sender c) then io (c_conn_id c) else None"
  show ?case
  proof (cases ?o)
    case None
    obtain ds tr1 es1 where "flush_loop io clk now cs tr = (ds, tr1, es1)" by (metis prod_cases3)
    then show ?thesis using 2(1) [OF None] 2(3) None by fastforce
  next
    case (Some outcome)
    obtain c1 tr1 es1 where f: "flush_connection outcome (clk (c_conn_id c)) c tr = (c1, tr1, es1)" by (metis prod_cases3)
    obtain ds tr2 es2 where l: "flush_loop io clk now cs tr1 = (ds, tr2, es2)" by (metis prod_cases3)
    have "sent_copies d es2 + queued_copies d ds \<le> queued_copies d cs" by (rule 2(2) [OF Some f [symmetric] refl l])
    then show ?thesis using flush_count [OF f, of d] 2(3) Some f l by auto
  qed
qed simp

lemma flush_all_count:
  "flush_all_batches io clk now cs tr = (cs', tr', es) \<Longrightarrow> sent_copies d es + queued_copies d cs' \<le> queued_copies d cs"
  by (auto simp: flush_all_batches_def dest: flush_loop_count split: if_splits)

lemma forward_count:
  assumes "forward_via_connection env i pkt sq t b = (b', es)"
  shows "sent_copies d es + queued_copies d (b_conns b') \<le> queued_copies d (b_conns b) + (if pkt = d then 1 else 0)"
proof (cases "i < length (b_conns b)")
  case True
  let ?c = "b_conns b ! i"
  let ?d = "snd (queue_data_packet pkt sq t ?c)"
  let ?tr = "case sq of Some s \<Rightarrow> tracker_insert s (c_conn_id ?c) t (b_tracker b) | None \<Rightarrow> b_tracker b"
  obtain c' tr' es' where step: "(case (if fst (queue_data_packet pkt sq t ?c) then e_io env (c_conn_id ?c) else None) of
      Some outcome \<Rightarrow> flush_connection outcome (e_clk env (c_conn_id ?c)) ?d ?tr | None \<Rightarrow> (?d, ?tr, [])) = (c', tr', es')"
    by (metis prod_cases3)
  then have "sent_copies d es' + count_list (queued c') d \<le> count_list (queued ?d) d"
    using flush_count [of _ _ ?d ?tr c' tr' es' d] by (auto split: option.splits if_splits)
  moreover have "count_list (queued ?d) d = count_list (queued ?c) d + (if pkt = d then 1 else 0)" by simp
  moreover have "b_conns b' = (b_conns b)[i := c']" "es = es'"
    using assms step True by (auto simp: forward_via_connection_def Let_def case_prod_beta)
  ultimately show ?thesis using copies_update [OF True, of d c'] by simp
next
  case False
  then show ?thesis using assms by (simp add: forward_via_connection_def)
qed

lemma probe_count:
  assumes "stall_probe_link env pkt s t c tr = (c', tr', es)" "set_srt_data_retransmit pkt \<noteq> d"
  shows "sent_copies d es + count_list (queued c') d \<le> count_list (queued c) d"
proof -
  let ?d = "snd (queue_probe_packet (set_srt_data_retransmit pkt) s t (snd (stall_probe_due c)))"
  have n: "count_list (queued ?d) d = count_list (queued c) d" using assms(2) by simp
  have "es = [] \<and> c' \<in> {c, snd (stall_probe_due c), ?d} \<or> (\<exists>outcome now. flush_connection outcome now ?d tr = (c', tr', es))"
    using assms(1) by (auto simp: stall_probe_link_def case_prod_beta split: prod.splits bool.splits option.splits if_splits)
  then show ?thesis using n flush_count [of _ _ ?d tr c' tr' es d] by auto
qed

lemma probe_loop_count:
  "stall_probe_loop env sel pkt s t i cs tr = (cs', tr', es) \<Longrightarrow> set_srt_data_retransmit pkt \<noteq> d \<Longrightarrow>
   sent_copies d es + queued_copies d cs' \<le> queued_copies d cs"
proof (induction env sel pkt s t i cs tr arbitrary: cs' tr' es rule: stall_probe_loop.induct)
  case (2 env sel pkt s t i c cs tr)
  let ?step = "if i = sel then (c, tr, []) else stall_probe_link env pkt s t c tr"
  obtain c1 tr1 es1 where st: "?step = (c1, tr1, es1)" by (metis prod_cases3)
  obtain ds tr2 es2 where l: "stall_probe_loop env sel pkt s t (Suc i) cs tr1 = (ds, tr2, es2)" by (metis prod_cases3)
  have "sent_copies d es1 + count_list (queued c1) d \<le> count_list (queued c) d"
    using st probe_count [OF _ 2(3), of env s t c tr] by (auto split: if_splits)
  then show ?case using 2(1) [OF st [symmetric] refl l 2(3)] 2(2) st l by auto
qed simp

section \<open>The probes are told apart by their flag\<close>

lemma from_be_top:
  fixes a b c e :: u8
  shows "(from_be [a, b, c, e] :: u32) AND 0x80000000 = 0 \<longleftrightarrow> a AND 0x80 = 0"
proof -
  have "(w :: u32) AND 0x80000000 = 0 \<longleftrightarrow> \<not> bit w 31" for w
    using and_exp_eq_0_iff_not_bit [of w 31] by simp
  moreover have "(v :: u8) AND 0x80 = 0 \<longleftrightarrow> \<not> bit v 7" for v
    using and_exp_eq_0_iff_not_bit [of v 7] by simp
  moreover have "bit (from_be [a, b, c, e] :: u32) 31 \<longleftrightarrow> bit a 7"
    by (auto simp: from_be_def bit_simps dest: bit_imp_le_length)
  ultimately show ?thesis by simp
qed

lemma probe_flagged:
  assumes "get_srt_sequence_number pkt = Some s" "8 \<le> length d" "\<not> is_srt_data_retransmit d"
  shows "set_srt_data_retransmit pkt \<noteq> d"
proof
  assume eq: "set_srt_data_retransmit pkt = d"
  then have "8 \<le> length pkt" using assms(2) by (auto simp: set_srt_data_retransmit_def split: if_splits)
  then obtain a b c e rest where p: "pkt = a # b # c # e # rest" by (auto simp: neq_Nil_conv Suc_le_length_iff numeral_eq_Suc)
  have "(from_be [a, b, c, e] :: u32) AND 0x80000000 = 0" using assms(1) p by (simp add: get_srt_sequence_number_def slice_def Let_def split: if_splits)
  then have "(pkt ! 0) AND 0x80 = 0" using p by (simp add: from_be_top)
  then show False using assms(3) eq \<open>8 \<le> length pkt\<close> set_retransmit_effect [of pkt] by auto
qed

lemma client_packet_count:
  assumes "handle_srt_packet env res done config cw b = (b', es)" "8 \<le> length d" "\<not> is_srt_data_retransmit d"
  shows "sent_copies d es + queued_copies d (b_conns b') \<le>
    queued_copies d (b_conns b) + (case res of Some (pkt, _) \<Rightarrow> if pkt = d then 1 else 0 | None \<Rightarrow> 0)"
proof (cases res)
  case None
  then show ?thesis using assms(1) by (simp add: handle_srt_packet_def)
next
  case (Some r)
  obtain pkt src where r: "r = (pkt, src)" by (cases r)
  define new where "new = (if pkt = d then 1 else (0 :: nat))"
  have fwd: "sent_copies d es1 + queued_copies d (b_conns b2) \<le> queued_copies d (b_conns b1) + new"
    if "forward_via_connection env i pkt sq t b1 = (b2, es1)" for i sq t b1 b2 es1
    unfolding new_def by (rule forward_count [OF that])
  have route: "queued_copies d (b_conns b1) = queued_copies d (b_conns b)" if "route_packet env config cw pkt sq b = (i, b1)" for sq i b1
    by (rule copies_same [OF route_kept [OF that]])
  have probe: "sent_copies d es2 + queued_copies d (b_conns b2) \<le> queued_copies d (b_conns b1)"
    if "send_stall_probes env i pkt s t b1 = (b2, es2)" "get_srt_sequence_number pkt = Some s'" for i s s' t b1 b2 es2
    using that(1) probe_loop_count [OF _ probe_flagged [OF that(2) assms(2,3)]] by (auto simp: send_stall_probes_def split: prod.splits)
  have after: "sent_copies d (es1 @ es2) + queued_copies d (b_conns b3) \<le> queued_copies d (b_conns b) + new"
    if "route_packet env config cw pkt sq b = (i, b1)" "forward_via_connection env j pkt sq' t b1 = (b2, es1)"
      "send_stall_probes env k pkt s t' b2 = (b3, es2)" "get_srt_sequence_number pkt = Some s'" for sq sq' i j k t t' s s' b1 b2 b3 es1 es2
    using route [OF that(1)] fwd [OF that(2)] probe [OF that(3,4)] by simp
  have plain: "sent_copies d es1 + queued_copies d (b_conns b2) \<le> queued_copies d (b_conns b) + new"
    if "route_packet env config cw pkt sq b = (i, b1)" "forward_via_connection env j pkt sq' t b1 = (b2, es1)" for sq sq' i j t b1 b2 es1
    using route [OF that(1)] fwd [OF that(2)] by simp
  have "sent_copies d es + queued_copies d (b_conns b') \<le> queued_copies d (b_conns b) + new"
    using assms(1) unfolding Some r handle_srt_packet_def Let_def option.case prod.case
    by (auto split: if_split_asm prod.split_asm option.split_asm dest: fwd route plain after simp del: sent_copies_simps(2))
  then show ?thesis by (simp add: Some r new_def)
qed

section \<open>Passes of the loop\<close>

abbreviation entered :: "bytes \<Rightarrow> loop_event \<Rightarrow> nat" where
  "entered d e \<equiv> count_list (map fst (client_datagram e)) d"

text \<open>A step that sends no payload: queues are untouched or dropped, what leaves are control packets.\<close>

lemma kept_count:
  "all_kept cs ds \<Longrightarrow> effects_ok (\<lambda>_. False) (\<lambda>_. True) (\<lambda>_. True) es \<Longrightarrow> \<not> control_frame d \<Longrightarrow>
   sent_copies d es + queued_copies d ds \<le> queued_copies d cs"
  using copies_kept [of cs ds d] control_not_sent [of es d] by simp

lemma drain_count:
  assumes "drain_channel x config s = (s', es)" "\<not> control_frame d"
  shows "sent_copies d es + queued_copies d (links s') \<le> queued_copies d (links s)"
  using drain_channel_kept [OF assms(1), of "\<lambda>_. True" "\<lambda>_. True"]
  by (intro kept_count [OF _ _ assms(2)]) (simp_all add: list_all_iff option.pred_True)

lemma copies_filter: "queued_copies d (filter f cs) \<le> queued_copies d cs"
  by (induction cs) simp_all

lemma pending_count: "queued_copies d (links (apply_pending k (stamp_links exp_f now s))) \<le> queued_copies d (links s)"
proof -
  let ?t = "stamp_links exp_f now s"
  obtain f n where "map queued (links (apply_pending k ?t)) = map queued (filter f (links ?t)) @ replicate n []"
    using apply_pending_queued(1) by blast
  then have "queued_copies d (links (apply_pending k ?t)) = queued_copies d (filter f (links ?t))"
    by (simp add: queued_copies_def sum_list_replicate)
  also have "\<dots> \<le> queued_copies d (links ?t)" by (rule copies_filter)
  finally show ?thesis using copies_same [OF tick_queued(1)] by simp
qed

lemma loop_step_count:
  assumes "loop_step p s e = (s', es)" "\<not> control_frame d" "8 \<le> length d" "\<not> is_srt_data_retransmit d"
  shows "sent_copies d es + queued_copies d (links s') \<le> queued_copies d (links s) + entered d e"
proof (cases e)
  case (ClientPacket x res)
  let ?env = "shell_env (s_io s) (x_send x) (x_env x)" and ?cfg = "snapshot (b_config (s_bond s))"
  obtain b es1 where h: "handle_srt_packet ?env res (rm_has_connected (b_reg (s_bond s))) ?cfg (s_critical s) (s_bond s) = (b, es1)" by fastforce
  obtain s2 es2 where d: "drain_channel x ?cfg (s\<lparr> s_bond := b \<rparr>) = (s2, es2)" by fastforce
  have "entered d e = (case res of Some (pkt, _) \<Rightarrow> if pkt = d then 1 else 0 | None \<Rightarrow> 0)"
    by (simp add: ClientPacket split: option.split prod.split)
  then show ?thesis
    using assms(1) client_packet_count [OF h assms(3,4)] drain_count [OF d assms(2)] ClientPacket h d
    by (auto simp: on_client_packet_def Let_def)
next
  case (UplinkReady x)
  show ?thesis
  proof (cases "s_queue s")
    case Nil
    then show ?thesis using assms(1) UplinkReady by simp
  next
    case (Cons packet queue)
    let ?env = "shell_env (s_io s) (x_send x) (x_env x)" and ?cfg = "snapshot (b_config (s_bond s))"
    obtain b es1 where h: "handle_uplink_packet ?env ?cfg packet (s_bond s) = (b, es1)" by fastforce
    obtain s2 es2 where d: "drain_channel x ?cfg (s\<lparr> s_queue := queue, s_bond := b \<rparr>) = (s2, es2)" by fastforce
    have "sent_copies d es1 + queued_copies d (b_conns b) \<le> queued_copies d (links s)"
      using uplink_packet_source [OF h, of "\<lambda>_. True" "\<lambda>_. True"]
      by (intro kept_count [OF _ _ assms(2)]) (simp_all add: option.pred_True)
    then show ?thesis
      using assms(1) UplinkReady Cons h d drain_count [OF d assms(2)] by (auto simp: on_uplink_packet_def Let_def)
  qed
next
  case (HousekeepingTick x h k now_cc)
  obtain s1 es1 where r: "run_housekeeping h s = (s1, es1)" by fastforce
  let ?s2 = "apply_pending k (stamp_links (e_exp (x_env x)) now_cc s1)"
  let ?s3 = "?s2\<lparr> s_status_elapsed_ms := status_tick (s_status_elapsed_ms ?s2),
      s_readers := sync_readers (b_conns (s_bond ?s2)) (s_io ?s2) (s_readers ?s2) \<rparr>"
  obtain s4 es4 where d: "drain_channel x (snapshot (b_config (s_bond ?s3))) ?s3 = (s4, es4)" by fastforce
  have "sent_copies d es1 + queued_copies d (links s1) \<le> queued_copies d (links s)"
    using run_housekeeping_kept [OF r, of "\<lambda>_. True" "\<lambda>_. True"] by (intro kept_count [OF _ _ assms(2)]) simp_all
  then show ?thesis
    using assms(1) HousekeepingTick r d drain_count [OF d assms(2)] pending_count [of d k "e_exp (x_env x)" now_cc s1]
    by (auto simp: on_housekeeping_tick_def Let_def)
next
  case (Sighup x content)
  then show ?thesis using assms(1) by (auto simp: on_sighup_def split: IpReload.splits dest!: drain_count [OF _ assms(2)])
next
  case (BatchFlush x)
  then show ?thesis using assms(1) by (auto simp: on_batch_flush_def split: prod.splits dest: flush_all_count)
qed (use assms(1) in auto)

lemma loop_run_count:
  assumes "\<not> control_frame d" "8 \<le> length d" "\<not> is_srt_data_retransmit d"
  shows "foldl (loop_pass p) (s, es) events = (s', es') \<Longrightarrow>
    sent_copies d es' + queued_copies d (links s') \<le> sent_copies d es + queued_copies d (links s) + sum_list (map (entered d) events)"
proof (induction events arbitrary: s es)
  case (Cons e events)
  obtain s1 es1 where st: "loop_step p s e = (s1, es1)" by fastforce
  have "foldl (loop_pass p) (s1, es @ es1) events = (s', es')" using Cons.prems by (simp add: loop_pass_def [of p "(s, es)"] st)
  from Cons.IH [OF this] show ?case using loop_step_count [OF st assms] by simp
qed simp

lemma start_count:
  assumes "sender_start p z = Inr (s, es)" "\<not> control_frame d"
  shows "sent_copies d es = 0" "queued_copies d (links s) = 0"
proof -
  have src: "state_source (\<lambda>_. False) (\<lambda>_. True) (\<lambda>_. True) s \<and> effects_ok (\<lambda>_. False) (\<lambda>_. True) (\<lambda>_. True) es"
    by (rule start_source [OF assms(1)])
  then show "sent_copies d es = 0" using control_not_sent assms(2) by blast
  have "count_list (queued c) d = 0" if "c \<in> set (links s)" for c
    using src that by (simp add: state_source_def bond_source_def queued_ok_def list_all_iff)
  then show "queued_copies d (links s) = 0" by (simp add: queued_copies_def)
qed

text \<open>C7: the sender does not multiply payload. Whatever happens after a start, in any order and with any answers of
  sockets, clock and name lookup: an SRT datagram without the retransmission flag (and not a keepalive or a registration packet)
  is handed to uplinks at most as often as the client has sent it, and the copies that still wait in the batches of the links
  are part of that count. In particular a failed flush, a link that is reset or removed, a reload of the addresses and the
  probes of gated links never send a datagram a second time.
\<close>

theorem payload_not_multiplied:
  assumes "sender_start p z = Inr (s0, effs0)" "loop_run p s0 events = (s, effs)"
    "8 \<le> length d" "\<not> is_srt_data_retransmit d"
    "get_packet_type d \<notin> {Some SRTLA_TYPE_KEEPALIVE, Some SRTLA_TYPE_REG1, Some SRTLA_TYPE_REG2}"
  shows "sent_copies d (effs0 @ effs) + queued_copies d (b_conns (s_bond s)) \<le>
    count_list (map fst (concat (map client_datagram events))) d"
proof -
  have d: "\<not> control_frame d" using assms(5) by (simp add: control_frame_def)
  have "sum_list (map (entered d) events) = count_list (map fst (concat (map client_datagram events))) d"
    by (induction events) simp_all
  then show ?thesis
    using loop_run_count [OF d assms(3,4) assms(2) [unfolded loop_run_def]] start_count [OF assms(1) d] by simp
qed

text \<open>The client sends one data packet, which waits in a batch until the flush.\<close>

theorem payload_not_multiplied_witness:
  "sent_copies [0, 0, 0, 5, 0, 0, 0, 0] (snd (loop_run demo_params demo_sender
     [ClientPacket demo_pass (Some ([0, 0, 0, 5, 0, 0, 0, 0], (V4 9, 4000))), BatchFlush demo_pass])) \<le> 1"
proof -
  obtain effs0 where start: "sender_start demo_params demo_start = Inr (demo_sender, effs0)" using demo_started by blast
  show ?thesis
    using payload_not_multiplied [OF start prod.collapse [symmetric], of "[0, 0, 0, 5, 0, 0, 0, 0]"
        "[ClientPacket demo_pass (Some ([0, 0, 0, 5, 0, 0, 0, 0], (V4 9, 4000))), BatchFlush demo_pass]"]
    by (simp add: is_srt_data_retransmit_def get_packet_type_def from_be_def slice_def SRTLA_TYPE_KEEPALIVE_def SRTLA_TYPE_REG1_def SRTLA_TYPE_REG2_def)
qed

end
