(* ===== verification/Delivery.thy ===== *)
theory Delivery
  imports Duplication
begin

text \<open>
  The sender delivers. A client packet that was queued on a link waits there, through any other traffic of the loop, until the
  batch of the link goes out; so it leaves at the latest with the next flush, as long as the sockets take what they are given. With
  \<open>Provenance\<close> (nothing is made up) and \<open>Duplication\<close> (nothing is multiplied) this completes the account of what passes through.
\<close>

section \<open>Packets that wait\<close>

text \<open>A packet that has left, or waits on a link.\<close>

definition on_the_way :: "bytes \<Rightarrow> SrtlaConnection list \<Rightarrow> effect list \<Rightarrow> bool" where
  "on_the_way pkt cs es \<longleftrightarrow> (\<exists>c \<in> set cs. pkt \<in> set (queued c)) \<or> (\<exists>i. ToUplink i pkt \<in> set es)"

lemma on_the_way_lists: "on_the_way pkt cs es \<longleftrightarrow> (\<exists>q \<in> set (map queued cs). pkt \<in> set q) \<or> (\<exists>i. ToUplink i pkt \<in> set es)"
  by (simp add: on_the_way_def)

lemma on_the_way_same: "map queued ds = map queued cs \<Longrightarrow> on_the_way pkt ds es = on_the_way pkt cs es"
  by (simp only: on_the_way_lists)

lemma on_the_way_more: "on_the_way pkt cs es \<Longrightarrow> on_the_way pkt cs (es @ fs)" "on_the_way pkt cs fs \<Longrightarrow> on_the_way pkt cs (es @ fs)"
  by (auto simp: on_the_way_def)

lemma flush_moves:
  assumes "link_ok c" "flush_connection SendOk now c tr = (c', tr', es)" "pkt \<in> set (queued c)"
  shows "ToUplink (c_conn_id c) pkt \<in> set es"
  using flush_sent [OF assms(1,3,2)] .

text \<open>Replacing a link by one that has its packets, or whose packets have left.\<close>

lemma on_the_way_update:
  assumes "on_the_way pkt cs es" "pkt \<in> set (queued (cs ! i)) \<Longrightarrow> pkt \<in> set (queued c) \<or> (\<exists>k. ToUplink k pkt \<in> set fs)"
  shows "on_the_way pkt (cs[i := c]) (es @ fs)"
proof (cases "\<exists>k. ToUplink k pkt \<in> set es")
  case False
  then obtain j where j: "j < length cs" "pkt \<in> set (queued (cs ! j))" using assms(1) by (auto simp: on_the_way_def) (metis in_set_conv_nth)
  show ?thesis
  proof (cases "i = j")
    case True
    then show ?thesis using assms(2) j by (auto simp: on_the_way_def set_update_memI)
  next
    case False
    then have "cs[i := c] ! j = cs ! j" by simp
    then show ?thesis using j by (metis on_the_way_def length_list_update nth_mem)
  qed
qed (auto simp: on_the_way_def)

section \<open>Every arm but the tick keeps packets on their way\<close>

lemma forward_on_the_way:
  assumes "forward_via_connection env i pkt' sq t b = (b', es')" "list_all link_ok (b_conns b)" "seqs_ok [sq]"
    "\<And>k. e_io env k \<in> {None, Some SendOk}" "on_the_way pkt (b_conns b) es"
  shows "on_the_way pkt (b_conns b') (es @ es')"
proof (cases "i < length (b_conns b)")
  case True
  let ?c = "b_conns b ! i"
  let ?d = "snd (queue_data_packet pkt' sq t ?c)"
  let ?tr = "case sq of Some s \<Rightarrow> tracker_insert s (c_conn_id ?c) t (b_tracker b) | None \<Rightarrow> b_tracker b"
  have d: "link_ok ?d" using assms(2,3) True by (intro link_ok_queue_data) (simp_all add: list_all_length)
  obtain c' tr' fs where step: "(case (if fst (queue_data_packet pkt' sq t ?c) then e_io env (c_conn_id ?c) else None) of
      Some outcome \<Rightarrow> flush_connection outcome (e_clk env (c_conn_id ?c)) ?d ?tr | None \<Rightarrow> (?d, ?tr, [])) = (c', tr', fs)"
    by (metis prod_cases3)
  have "b_conns b' = (b_conns b)[i := c']" "es' = fs"
    using assms(1) step True by (auto simp: forward_via_connection_def Let_def case_prod_beta)
  moreover have "pkt \<in> set (queued c') \<or> (\<exists>k. ToUplink k pkt \<in> set fs)" if "pkt \<in> set (queued ?c)"
  proof -
    have q: "pkt \<in> set (queued ?d)" using that by simp
    show ?thesis
    proof (cases "if fst (queue_data_packet pkt' sq t ?c) then e_io env (c_conn_id ?c) else None")
      case None
      then show ?thesis using step q by simp
    next
      case (Some outcome)
      then have "outcome = SendOk" using assms(4) [of "c_conn_id ?c"] by (auto split: if_splits)
      then have "flush_connection SendOk (e_clk env (c_conn_id ?c)) ?d ?tr = (c', tr', fs)" using step Some by simp
      then show ?thesis using flush_moves [OF d _ q] by blast
    qed
  qed
  ultimately show ?thesis using on_the_way_update [OF assms(5)] by simp
next
  case False
  then show ?thesis using assms(1,5) by (simp add: forward_via_connection_def)
qed

lemma probe_on_the_way:
  assumes "stall_probe_link env pkt' s t c tr = (c', tr', es)" "link_ok c"
    "\<And>k. e_io env k \<in> {None, Some SendOk}" "pkt \<in> set (queued c)"
  shows "pkt \<in> set (queued c') \<or> (\<exists>k. ToUplink k pkt \<in> set es)"
proof -
  let ?d = "snd (queue_probe_packet (set_srt_data_retransmit pkt') s t (snd (stall_probe_due c)))"
  have q: "pkt \<in> set (queued ?d)" using assms(4) by simp
  have d: "link_ok ?d" using assms(2) by (intro link_ok_queue_probe) (simp add: link_ok_def stall_probe_due_def Let_def)
  have "es = [] \<and> c' \<in> {c, snd (stall_probe_due c), ?d} \<or>
      (\<exists>outcome now k. e_io env k = Some outcome \<and> flush_connection outcome now ?d tr = (c', tr', es))"
    using assms(1) by (auto simp: stall_probe_link_def case_prod_beta split: prod.splits bool.splits option.splits if_splits)
  then show ?thesis
  proof (elim disjE exE conjE)
    fix outcome now k
    assume io: "e_io env k = Some outcome" and f: "flush_connection outcome now ?d tr = (c', tr', es)"
    have "outcome = SendOk" using assms(3) [of k] io by auto
    then show ?thesis using flush_moves [OF d _ q] f by blast
  qed (use q assms(4) in auto)
qed

lemma probe_loop_on_the_way:
  "stall_probe_loop env sel pkt' s t i cs tr = (cs', tr', es) \<Longrightarrow> list_all link_ok cs \<Longrightarrow>
   (\<And>k. e_io env k \<in> {None, Some SendOk}) \<Longrightarrow> on_the_way pkt cs fs \<Longrightarrow> on_the_way pkt cs' (fs @ es)"
proof (induction env sel pkt' s t i cs tr arbitrary: cs' tr' es rule: stall_probe_loop.induct)
  case (2 env sel pkt' s t i c cs tr)
  let ?step = "if i = sel then (c, tr, []) else stall_probe_link env pkt' s t c tr"
  obtain c1 tr1 es1 where st: "?step = (c1, tr1, es1)" by (metis prod_cases3)
  obtain ds tr2 es2 where l: "stall_probe_loop env sel pkt' s t (Suc i) cs tr1 = (ds, tr2, es2)" by (metis prod_cases3)
  have r: "cs' = c1 # ds" "es = es1 @ es2" using 2(2) st l by auto
  have head: "pkt \<in> set (queued c1) \<or> (\<exists>k. ToUplink k pkt \<in> set es1)" if "pkt \<in> set (queued c)"
    using st that probe_on_the_way [OF _ _ 2(4) that, of pkt' s t tr c1 tr1 es1] 2(3) by (auto split: if_splits)
  have tail: "on_the_way pkt ds (fs @ es2)" if "on_the_way pkt cs fs"
    using 2(1) [OF st [symmetric] refl l _ 2(4) that] 2(3) by simp
  show ?case
  proof (cases "pkt \<in> set (queued c)")
    case True
    then show ?thesis using head by (auto simp: r on_the_way_def)
  next
    case False
    then have "on_the_way pkt cs fs" using 2(5) by (auto simp: on_the_way_def)
    then show ?thesis using tail by (auto simp: r on_the_way_def)
  qed
qed simp

lemma client_packet_on_the_way:
  assumes "handle_srt_packet env res done config cw b = (b', es')" "list_all link_good (b_conns b)"
    "\<And>k. e_io env k \<in> {None, Some SendOk}" "on_the_way pkt (b_conns b) es" "decay_fn (e_exp env)" "e_now env < 2 ^ 64"
  shows "on_the_way pkt (b_conns b') (es @ es')"
proof (cases res)
  case None
  then show ?thesis using assms(1,4) by (simp add: handle_srt_packet_def)
next
  case (Some r)
  obtain pkt' src where r: "r = (pkt', src)" by (cases r)
  have ok: "list_all link_ok cs" if "list_all link_good cs" for cs using that by (simp add: list_all_iff link_good_def)
  have route: "on_the_way pkt (b_conns b1) es \<and> list_all link_good (b_conns b1)" if "route_packet env config cw pkt' sq b = (i, b1)" for sq i b1
    using on_the_way_same [OF route_kept [OF that]] conns_keep_good [OF route_result(1) [OF that assms(5,6)] assms(2)] assms(4) by simp
  have fwd: "on_the_way pkt (b_conns b2) (es @ es1) \<and> list_all link_good (b_conns b2)"
    if "forward_via_connection env i pkt' sq t b1 = (b2, es1)" "get_srt_sequence_number pkt' = sq" "on_the_way pkt (b_conns b1) es"
      "list_all link_good (b_conns b1)" for i sq t b1 b2 es1
  proof -
    have sq: "seqs_ok [sq]" using packet_seqs_ok that(2) by blast
    show ?thesis
      using forward_on_the_way [OF that(1) ok [OF that(4)] sq assms(3) that(3)] conns_keep_good [OF forward_keeps(1) [OF that(1) sq] that(4)] by simp
  qed
  have probe: "on_the_way pkt (b_conns b2) (fs @ es2)"
    if "send_stall_probes env i pkt' s t b1 = (b2, es2)" "on_the_way pkt (b_conns b1) fs" "list_all link_good (b_conns b1)" for i s t b1 b2 es2 fs
    using that(1) probe_loop_on_the_way [OF _ ok [OF that(3)] assms(3) that(2)] by (auto simp: send_stall_probes_def split: prod.splits)
  have routed: "on_the_way pkt (b_conns b2) (es @ es1) \<and> list_all link_good (b_conns b2)"
    if "route_packet env config cw pkt' sq b = (i, b1)" "forward_via_connection env j pkt' sq t b1 = (b2, es1)"
      "get_srt_sequence_number pkt' = sq" for i j sq t b1 b2 es1
    using fwd [OF that(2,3)] route [OF that(1)] by simp
  have probed: "on_the_way pkt (b_conns b3) (es @ es1 @ es2)"
    if "route_packet env config cw pkt' sq b = (i, b1)" "forward_via_connection env j pkt' sq t b1 = (b2, es1)"
      "get_srt_sequence_number pkt' = sq" "send_stall_probes env k pkt' s t' b2 = (b3, es2)" for i j k sq s t t' b1 b2 b3 es1 es2
    using probe [OF that(4), of "es @ es1"] routed [OF that(1-3)] by simp
  note early = fwd [OF _ refl assms(4,2)]
  show ?thesis
    using assms(1,4) unfolding Some r handle_srt_packet_def Let_def option.case prod.case
    by (auto split: if_split_asm prod.split_asm option.split_asm dest: early route routed probed)
qed

abbreviation not_reg3 :: "UplinkPacket \<Rightarrow> bool" where
  "not_reg3 packet \<equiv> get_packet_type (up_bytes packet) \<noteq> Some SRTLA_TYPE_REG3"

lemma process_uplink_queued:
  assumes "process_uplink_packet hash_fn ts now idx client data c reg dedup = (inc, es, c', reg', dedup')"
    "get_packet_type data \<noteq> Some SRTLA_TYPE_REG3"
  shows "queued c' = queued c"
proof -
  have "fst (process_registration_packet idx data now reg) \<noteq> Some Reg3"
    using assms(2) by (auto simp: process_registration_packet_def split: option.split prod.split if_splits)
  then show ?thesis
    using assms(1) unfolding process_uplink_packet_def Let_def
    by (auto split: option.splits prod.splits RegistrationEvent.splits if_splits)
qed

lemma uplink_packet_queued:
  assumes "handle_uplink_packet env config packet b = (b', es)" "not_reg3 packet"
  shows "map queued (b_conns b') = map queued (b_conns b)"
proof (cases "up_bytes packet = [] \<or> position (\<lambda>c. c_conn_id c = up_conn_id packet) (b_conns b) = None")
  case True
  then show ?thesis using assms(1) by (auto simp: handle_uplink_packet_def split: if_splits)
next
  case False
  then obtain i where i: "position (\<lambda>c. c_conn_id c = up_conn_id packet) (b_conns b) = Some i" and ne: "up_bytes packet \<noteq> []" by blast
  obtain inc es1 c reg dedup where p: "process_uplink_packet (e_hash env) (e_try_send env) (e_now env) i (b_client b)
      (up_bytes packet) (b_conns b ! i) (b_reg b) (b_dedup b) = (inc, es1, c, reg, dedup)"
    by (metis prod_cases5)
  obtain c1 es2 where r: "send_immediate_reg1 env (reg1_send inc) c = (c1, es2)" by fastforce
  obtain cs es3 where e: "process_connection_events i (b_client b) (b_tracker b) (is_classic (cfg_mode config))
      (e_now_events env) inc ((b_conns b)[i := c1]) = (cs, es3)" by fastforce
  have "queued c1 = queued (b_conns b ! i)"
    using r process_uplink_queued [OF p assms(2)] by (auto simp: send_immediate_reg1_def split: option.splits SendOutcome.splits)
  then have "map queued cs = map queued (b_conns b)"
    using process_events_source(1) [OF e, of "\<lambda>_. True" "\<lambda>_. True"] queued_update by (simp add: list_all_iff option.pred_True)
  then show ?thesis using assms(1) ne i p r e by (auto simp: handle_uplink_packet_def)
qed

lemma drain_loop_queued:
  "drain_loop n config queue b = (b', es, rest) \<Longrightarrow> list_all (\<lambda>(env, p). not_reg3 p) queue \<Longrightarrow>
   map queued (b_conns b') = map queued (b_conns b) \<and> list_all (\<lambda>(env, p). not_reg3 p) rest"
proof (induction n config queue b arbitrary: b' es rest rule: drain_loop.induct)
  case (3 n config env packet queue b)
  obtain b1 es1 where h: "handle_uplink_packet env config packet b = (b1, es1)" by fastforce
  obtain b2 es2 r2 where l: "drain_loop n config queue b1 = (b2, es2, r2)" by (metis prod_cases3)
  show ?case using uplink_packet_queued [OF h] 3(1) [OF h [symmetric] l] 3(2,3) h l by auto
qed auto

lemma drain_channel_queued:
  assumes "drain_channel x config s = (s', es)" "list_all not_reg3 (s_queue s)"
  shows "map queued (links s') = map queued (links s) \<and> list_all not_reg3 (s_queue s')"
proof -
  let ?q = "zip (map (\<lambda>i. shell_env (s_io s) (x_send x) (x_drain x i)) [0..<length (s_queue s)]) (s_queue s)"
  obtain b es1 rest where d: "drain_loop MAX_DRAIN_PACKETS config ?q (s_bond s) = (b, es1, rest)" by (metis prod_cases3)
  have "list_all (\<lambda>(env, p). not_reg3 p) ?q" using assms(2) by (auto simp: list_all_iff dest!: set_zip_rightD)
  note drain_loop_queued [OF d this]
  moreover have "s' = s\<lparr> s_bond := b, s_queue := map snd rest \<rparr>"
    using assms(1) d by (simp add: drain_channel_def drain_packet_queue_def Let_def)
  ultimately show ?thesis by (simp add: list_all_iff case_prod_beta)
qed

section \<open>A flush sends everything\<close>

lemma flush_loop_sends:
  "flush_loop io clk now cs tr = (cs', tr', es) \<Longrightarrow> list_all link_ok cs \<Longrightarrow> (\<And>c. c \<in> set cs \<Longrightarrow> io (c_conn_id c) = Some SendOk) \<Longrightarrow>
   c \<in> set cs \<Longrightarrow> pkt \<in> set (queued c) \<Longrightarrow> ToUplink (c_conn_id c) pkt \<in> set es"
proof (induction io clk now cs tr arbitrary: cs' tr' es rule: flush_loop.induct)
  case (2 io clk now d cs tr)
  let ?o = "if needs_batch_flush now d \<or> has_queued_packets (c_batch_sender d) then io (c_conn_id d) else None"
  show ?case
  proof (cases ?o)
    case None
    obtain ds tr1 es1 where l: "flush_loop io clk now cs tr = (ds, tr1, es1)" by (metis prod_cases3)
    have "queued d = []" using None 2(5) [of d] by (auto simp: has_queued_packets_def split: if_splits)
    then have "c \<in> set cs" using 2(6,7) by auto
    then show ?thesis using 2(1) [OF None l] 2(3-7) None l by auto
  next
    case (Some outcome)
    then have o: "outcome = SendOk" using 2(5) [of d] by (auto split: if_splits)
    obtain c1 tr1 es1 where f: "flush_connection outcome (clk (c_conn_id d)) d tr = (c1, tr1, es1)" by (metis prod_cases3)
    obtain ds tr2 es2 where l: "flush_loop io clk now cs tr1 = (ds, tr2, es2)" by (metis prod_cases3)
    have es: "es = es1 @ es2" using 2(3) Some f l by simp
    show ?thesis
    proof (cases "c = d")
      case True
      then show ?thesis using flush_sent [of c pkt "clk (c_conn_id d)" tr c1 tr1 es1] f o 2(4,7) es by simp
    next
      case False
      then show ?thesis using 2(2) [OF Some f [symmetric] refl l] 2(4-7) es by auto
    qed
  qed
qed simp

lemma flush_all_sends:
  assumes "flush_all_batches io clk now cs tr = (cs', tr', es)" "list_all link_ok cs" "\<And>c. c \<in> set cs \<Longrightarrow> io (c_conn_id c) = Some SendOk"
    "c \<in> set cs" "pkt \<in> set (queued c)"
  shows "ToUplink (c_conn_id c) pkt \<in> set es"
proof -
  have "has_queued_packets (c_batch_sender c)" using assms(5) by (auto simp: has_queued_packets_def)
  then have "flush_loop io clk now cs tr = (cs', tr', es)" using assms(1,4) by (auto simp: flush_all_batches_def list_ex_iff split: if_splits)
  from flush_loop_sends [OF this assms(2) _ assms(4,5)] show ?thesis using assms(3) by blast
qed

section \<open>Until the next flush\<close>

text \<open>The events of a stretch without a housekeeping tick, in which the sockets take what they are given and no REG3 comes in.\<close>

fun smooth :: "loop_event \<Rightarrow> bool" where
  "smooth (ClientPacket x res) \<longleftrightarrow> pass_ok x \<and> x_send x = (\<lambda>_. SendOk)"
| "smooth (BatchFlush x) \<longleftrightarrow> pass_ok x \<and> x_send x = (\<lambda>_. SendOk)"
| "smooth (UplinkReady x) \<longleftrightarrow> pass_ok x"
| "smooth (Sighup x content) \<longleftrightarrow> pass_ok x"
| "smooth (HousekeepingTick x h k now_cc) \<longleftrightarrow> False"
| "smooth (Received packet) \<longleftrightarrow> not_reg3 packet"
| "smooth _ \<longleftrightarrow> True"

lemma step_sender_ok:
  assumes "loop_step p s e = (s', es)" "smooth e" "sender_ok s"
  shows "sender_ok s'"
proof (cases "event_ok s e")
  case True
  then have "sender_step p s s'" using assms(1) sender_step_loop by (metis fst_conv)
  then show ?thesis using assms(3) by (rule sender_step_ok)
next
  case False
  then have "s' = s" using assms(1,2) by (cases e) auto
  then show ?thesis using assms(3) by simp
qed

lemma shell_ok: "x_send x = (\<lambda>_. SendOk) \<Longrightarrow> e_io (shell_env io (x_send x) env) k \<in> {None, Some SendOk}"
  by (simp add: shell_env_def shell_io_def split: option.split)

lemma shell_flush: "sender_ok s \<Longrightarrow> c \<in> set (links s) \<Longrightarrow> shell_io (s_io s) (\<lambda>_. SendOk) (c_conn_id c) = Some SendOk"
  by (auto simp: sender_ok_def ids_of_def shell_io_def keys_dom_lookup dom_def split: option.split)

lemma sender_links_ok: "sender_ok s \<Longrightarrow> list_all link_ok (links s)" "sender_ok s \<Longrightarrow> list_all link_good (links s)"
  by (simp_all add: sender_ok_def bond_ok_def list_all_iff link_good_def)

lemma flush_arm_sends:
  assumes "on_batch_flush x s = (s', es)" "sender_ok s" "x_send x = (\<lambda>_. SendOk)" "on_the_way pkt (links s) fs"
  shows "\<exists>i. ToUplink i pkt \<in> set (fs @ es)"
proof -
  obtain cs tr es1 where f: "flush_all_batches (shell_io (s_io s) (x_send x)) (e_clk (x_env x)) (e_now (x_env x)) (links s) (b_tracker (s_bond s)) = (cs, tr, es1)"
    by (metis prod_cases3)
  then have "es = es1" using assms(1) by (simp add: on_batch_flush_def)
  then show ?thesis
    using flush_all_sends [OF f sender_links_ok(1) [OF assms(2)], where pkt = pkt] shell_flush [OF assms(2)] assms(3,4)
    by (auto simp: on_the_way_def)
qed

lemma smooth_step:
  assumes "loop_step p s e = (s', es')" "smooth e" "sender_ok s" "list_all not_reg3 (s_queue s)" "on_the_way pkt (links s) es"
  shows "on_the_way pkt (links s') (es @ es')"
proof (cases e)
  case (ClientPacket x res)
  let ?env = "shell_env (s_io s) (x_send x) (x_env x)" and ?cfg = "snapshot (b_config (s_bond s))"
  obtain b es1 where h: "handle_srt_packet ?env res (rm_has_connected (b_reg (s_bond s))) ?cfg (s_critical s) (s_bond s) = (b, es1)" by fastforce
  obtain s2 es2 where d: "drain_channel x ?cfg (s\<lparr> s_bond := b \<rparr>) = (s2, es2)" by fastforce
  have x: "x_send x = (\<lambda>_. SendOk)" "pass_ok x" using assms(2) ClientPacket by simp_all
  have "on_the_way pkt (b_conns b) (es @ es1)"
    by (rule client_packet_on_the_way [OF h sender_links_ok(2) [OF assms(3)] shell_ok [OF x(1)] assms(5)])
      (use x(2) in \<open>simp_all add: pass_ok_def shell_env_def\<close>)
  then have "on_the_way pkt (links s2) (es @ es1)"
    using on_the_way_same [of "links s2" "b_conns b"] drain_channel_queued [OF d] assms(4) by simp
  moreover have "s' = s2" "es' = es1 @ es2" using assms(1) ClientPacket h d by (simp_all add: on_client_packet_def Let_def)
  ultimately show ?thesis using on_the_way_more(1) [of pkt "links s2" "es @ es1" es2] by simp
next
  case (UplinkReady x)
  show ?thesis
  proof (cases "s_queue s")
    case Nil
    then show ?thesis using assms(1,5) UplinkReady by simp
  next
    case (Cons packet queue)
    let ?env = "shell_env (s_io s) (x_send x) (x_env x)" and ?cfg = "snapshot (b_config (s_bond s))"
    obtain b es1 where h: "handle_uplink_packet ?env ?cfg packet (s_bond s) = (b, es1)" by fastforce
    obtain s2 es2 where d: "drain_channel x ?cfg (s\<lparr> s_queue := queue, s_bond := b \<rparr>) = (s2, es2)" by fastforce
    have "map queued (links s2) = map queued (links s)"
      using uplink_packet_queued [OF h] drain_channel_queued [OF d] assms(4) Cons by simp
    then have "on_the_way pkt (links s2) es" using on_the_way_same assms(5) by blast
    moreover have "s' = s2" "es' = es1 @ es2" using assms(1) UplinkReady Cons h d by (simp_all add: on_uplink_packet_def Let_def)
    ultimately show ?thesis using on_the_way_more(1) by blast
  qed
next
  case (Sighup x content)
  then have "map queued (links s') = map queued (links s)"
    using assms(1,4) drain_channel_queued [of x "snapshot (b_config (s_bond s))" _ s' es'] by (auto simp: on_sighup_def split: IpReload.splits)
  then show ?thesis using assms(5) on_the_way_same on_the_way_more(1) by blast
next
  case (BatchFlush x)
  have "\<exists>i. ToUplink i pkt \<in> set (es @ es')" using flush_arm_sends [OF _ assms(3) _ assms(5)] assms(1,2) BatchFlush by simp
  then show ?thesis by (auto simp: on_the_way_def)
qed (use assms in \<open>auto simp: on_the_way_def\<close>)

lemma smooth_queue:
  assumes "loop_step p s e = (s', es')" "smooth e" "list_all not_reg3 (s_queue s)"
  shows "list_all not_reg3 (s_queue s')"
proof (cases e)
  case (ClientPacket x res)
  then show ?thesis using assms by (auto simp: on_client_packet_def Let_def split: prod.splits dest!: drain_channel_queued)
next
  case (UplinkReady x)
  then show ?thesis using assms by (auto simp: on_uplink_packet_def Let_def split: prod.splits list.splits dest!: drain_channel_queued)
next
  case (Sighup x content)
  then show ?thesis using assms by (auto simp: on_sighup_def split: IpReload.splits dest!: drain_channel_queued)
next
  case (BatchFlush x)
  then show ?thesis using assms by (auto simp: on_batch_flush_def split: prod.splits)
qed (use assms in auto)

lemma client_arm_on_the_way:
  assumes "on_client_packet x (Some (pkt, src)) s = (s', es)" "sender_ok s" "list_all not_reg3 (s_queue s)" "pass_ok x"
    "x_send x = (\<lambda>_. SendOk)" "rm_has_connected (b_reg (s_bond s))" "pkt \<noteq> []"
    "list_ex (\<lambda>c. carries (e_now (x_env x)) (with_config (snapshot (b_config (s_bond s))) c)) (links s)"
  shows "on_the_way pkt (links s') es"
proof -
  let ?env = "shell_env (s_io s) (x_send x) (x_env x)" and ?cfg = "snapshot (b_config (s_bond s))"
  obtain b es1 where h: "handle_srt_packet ?env (Some (pkt, src)) True ?cfg (s_critical s) (s_bond s) = (b, es1)" by fastforce
  obtain es2 where d: "drain_channel x ?cfg (s\<lparr> s_bond := b \<rparr>) = (s', es2)" and es: "es = es1 @ es2"
    using assms(1,6) h by (auto simp: on_client_packet_def Let_def split: prod.splits)
  have env: "decay_fn (e_exp ?env)" "e_now ?env < 2 ^ 64" "e_now ?env = e_now (x_env x)"
    using assms(4) by (simp_all add: pass_ok_def shell_env_def)
  have "\<not> e_io ?env k \<in> Some ` range SendErr" for k using shell_ok [OF assms(5), of "s_io s" "x_env x" k] by auto
  then obtain i where "i < length (links s)"
      "pkt \<in> set (bs_queue (c_batch_sender (b_conns b ! i))) \<or> ToUplink (c_conn_id (links s ! i)) pkt \<in> set es1"
    using client_packet_placed [OF sender_links_ok(2) [OF assms(2)] env(1,2) assms(7) h] assms(8) env(3)
    by (auto split: option.splits if_splits)
  moreover have "length (b_conns b) = length (links s)"
    using srt_packet_step [OF env(1,2), of "s_bond s" "Some (pkt, src)" True ?cfg "s_critical s"] h
    by (metis bond_step_def fst_conv ids_of_def length_map)
  ultimately have "on_the_way pkt (b_conns b) es1" by (auto simp: on_the_way_def intro: nth_mem)
  then show ?thesis
    using on_the_way_same [of "links s'" "b_conns b"] drain_channel_queued [OF d] assms(3) on_the_way_more(1) by (simp add: es)
qed

lemma smooth_run:
  "foldl (loop_pass p) (s, es) mid = (s', es') \<Longrightarrow> list_all smooth mid \<Longrightarrow> sender_ok s \<Longrightarrow> list_all not_reg3 (s_queue s) \<Longrightarrow>
   on_the_way pkt (links s) es \<Longrightarrow> sender_ok s' \<and> on_the_way pkt (links s') es'"
proof (induction mid arbitrary: s es)
  case (Cons e mid)
  obtain s1 es1 where st: "loop_step p s e = (s1, es1)" by fastforce
  have e: "smooth e" using Cons.prems by simp
  show ?case
    using Cons.IH [of s1 "es @ es1"] Cons.prems smooth_step [OF st e] smooth_queue [OF st e] step_sender_ok [OF st e]
    by (simp add: loop_pass_def st)
qed simp

section \<open>Delivery\<close>

text \<open>C5: The sender delivers. When a client packet comes in at a registered sender with a link that can carry it, and the
  sockets take what they are given, the packet has left on an uplink by the time the next flush tick has been served, whatever else the
  loop does in between: other client packets, answers of the receiver, reloads of the address list, commands. Only a
  housekeeping tick (which may tear a link down) and a new REG3 (which resets its link) are excluded.\<close>

theorem packet_leaves_by_next_flush:
  assumes "sender_ok s" "list_all not_reg3 (s_queue s)" "rm_has_connected (b_reg (s_bond s))" "pkt \<noteq> []"
    and "list_ex (\<lambda>c. carries (e_now (x_env x)) (with_config (snapshot (b_config (s_bond s))) c)) (b_conns (s_bond s))"
    and "list_all smooth (ClientPacket x (Some (pkt, src)) # mid @ [BatchFlush y])"
    and "loop_run p s (ClientPacket x (Some (pkt, src)) # mid @ [BatchFlush y]) = (s', effs)"
  shows "\<exists>i. ToUplink i pkt \<in> set effs"
proof -
  let ?e = "ClientPacket x (Some (pkt, src))"
  obtain s1 es1 where first: "loop_step p s ?e = (s1, es1)" by fastforce
  obtain s2 es2 where mid: "foldl (loop_pass p) (s1, es1) mid = (s2, es2)" by fastforce
  obtain s3 es3 where last: "on_batch_flush y s2 = (s3, es3)" by fastforce
  have e: "smooth ?e" "list_all smooth mid" "x_send y = (\<lambda>_. SendOk)" using assms(6) by simp_all
  have "on_the_way pkt (links s1) es1" by (rule client_arm_on_the_way) (use first e assms in auto)
  then have "sender_ok s2" "on_the_way pkt (links s2) es2"
    using smooth_run [OF mid e(2)] step_sender_ok [OF first e(1) assms(1)] smooth_queue [OF first e(1) assms(2)] by simp_all
  moreover have "effs = es2 @ es3" using assms(7) first mid last by (simp add: loop_run_def loop_pass_def)
  ultimately show ?thesis using flush_arm_sends [OF last _ e(3)] by simp
qed

text \<open>A registered sender with one live link, and a stretch of traffic in which a datagram of the receiver and an empty client
  datagram come in before the flush.\<close>

definition live_sender :: Sender where
  "live_sender = \<lparr> s_bond = live_bond\<lparr> b_reg := (RegistrationManager_new (replicate 256 1) (replicate 256 2))\<lparr> rm_has_connected := True \<rparr> \<rparr>,
     s_io = Mapping.update 7 \<lparr> io_remote = (V4 1, 5) \<rparr> Mapping.empty, s_readers = [7], s_queue = [], s_all_failed_at = None,
     s_rehome = RehomeGate_new True, s_pending = None, s_filter = WeakLinkFilter_new, s_cc = Mapping.empty,
     s_status_elapsed_ms = 0, s_critical = CriticalWindow_new \<rparr>"

lemma live_sender_ok: "sender_ok live_sender"
  by (simp add: live_sender_def live_bond_def sender_ok_def bond_ok_def ids_of_def last_ok_def reg_ok_def live_link_good
      RegistrationManager_new_def SRTLA_ID_LEN_def STATUS_LOG_INTERVAL_MS_def tracker.ok_empty)
    (simp add: live_link_def new_registering_def)

definition quiet_stretch :: "loop_event list" where
  "quiet_stretch = [Received \<lparr> up_conn_id = 7, up_bytes = [0x80, 2] \<rparr>, UplinkReady demo_pass, ClientPacket demo_pass (Some ([], (V4 2, 9000)))]"

theorem packet_leaves_by_next_flush_witness:
  "\<exists>i. ToUplink i [0, 0, 0, 5] \<in> set (snd (loop_run demo_params live_sender
      (ClientPacket demo_pass (Some ([0, 0, 0, 5], (V4 2, 9000))) # quiet_stretch @ [BatchFlush demo_pass])))"
proof -
  have "pass_ok demo_pass" by (simp add: pass_ok_def demo_pass_def quiet_env_def decay_fn_def)
  moreover have "list_ex (\<lambda>c. carries (e_now (x_env demo_pass)) (with_config (snapshot (b_config (s_bond live_sender))) c))
      (b_conns (s_bond live_sender))"
    using live_link_carries by (simp add: demo_pass_def quiet_env_def live_sender_def live_bond_def snapshot_default)
  moreover have "get_packet_type [0x80, 2] \<noteq> Some SRTLA_TYPE_REG3" by code_simp
  moreover have "s_queue live_sender = []" "rm_has_connected (b_reg (s_bond live_sender))" "x_send demo_pass = (\<lambda>_. SendOk)"
    by (simp_all add: live_sender_def demo_pass_def)
  ultimately show ?thesis
    using packet_leaves_by_next_flush [OF live_sender_ok, where mid = quiet_stretch and x = demo_pass and y = demo_pass and
        pkt = "[0, 0, 0, 5]" and src = "(V4 2, 9000)" and p = demo_params, OF _ _ _ _ _ prod.collapse [symmetric]]
    by (simp add: quiet_stretch_def)
qed

end
