(* ===== verification/Sim_Scenario.thy ===== *)
theory Sim_Scenario
  imports Floats
begin

text \<open>
  The scenario generator of the network simulator (\<^verbatim>\<open>crates/network-sim/src/scenario.rs\<close>): from a seed it draws, for each link, a
  clamped random walk of rate, delay and loss, one frame per time step, with which the end-to-end tests of the sender impair their
  links. A generator of the \<^verbatim>\<open>rand\<close> package is a parameter. A panic is \<open>None\<close>; the crate
  is built for tests, where an overflowing addition of integers is one. A \<^verbatim>\<open>Duration\<close> is its number of nanoseconds.
\<close>

section \<open>Durations and casts of the standard library\<close>

type_synonym Duration = nat

definition NANOS_PER_SEC :: nat where "NANOS_PER_SEC = 10 ^ 9"

definition as_secs_f64 :: "Duration \<Rightarrow> f64" where
  "as_secs_f64 d =
     f64_add (u64_to_f64 (d div NANOS_PER_SEC)) (f64_div (u64_to_f64 (d mod NANOS_PER_SEC)) (u64_to_f64 NANOS_PER_SEC))"

text \<open>To the nearest nanosecond, ties to even; a negative, infinite or too long time panics.\<close>

fun from_secs_f64 :: "f64 \<Rightarrow> Duration option" where
  "from_secs_f64 (Fin x) =
     (if x < 0 then None
      else let n = nat (round_half_even (x * of_nat NANOS_PER_SEC)) in
           if n < 2 ^ 64 * NANOS_PER_SEC then Some n else None)"
| "from_secs_f64 _ = None"

definition mul_f64 :: "Duration \<Rightarrow> f64 \<Rightarrow> Duration option" where
  "mul_f64 d rhs = from_secs_f64 (f64_mul rhs (as_secs_f64 d))"

fun fl_ceil :: "fval \<Rightarrow> fval" where
  "fl_ceil (Fin a) = Fin (of_int \<lceil>a\<rceil>)"
| "fl_ceil x = x"

fun f64_to_f32 :: "f64 \<Rightarrow> f32" where
  "f64_to_f32 (Fin a) = f32_of_rat a"
| "f64_to_f32 x = x"

text \<open>\<^verbatim>\<open>clamp\<close> panics when the bounds are out of order or not numbers.\<close>

definition f64_clamp :: "f64 \<Rightarrow> f64 \<Rightarrow> f64 \<Rightarrow> f64 option" where
  "f64_clamp x lo hi = (if fl_le lo hi then Some (fl_clamp lo hi x) else None)"

section \<open>Configuration\<close>

record GemodelConfig =
  ge_p :: f32
  ge_r :: f32
  ge_one_h :: f32
  ge_one_k :: f32

record ImpairmentConfig =
  im_delay_ms :: "nat option"
  im_jitter_ms :: "nat option"
  im_loss_percent :: "f32 option"
  im_loss_correlation :: "f32 option"
  im_gemodel :: "GemodelConfig option"
  im_rate_kbit :: "u64 option"
  im_duplicate_percent :: "f32 option"
  im_reorder_percent :: "f32 option"
  im_corrupt_percent :: "f32 option"
  im_tbf_shaping :: bool

definition ImpairmentConfig_default :: ImpairmentConfig where
  "ImpairmentConfig_default =
     \<lparr> im_delay_ms = None, im_jitter_ms = None, im_loss_percent = None, im_loss_correlation = None, im_gemodel = None,
       im_rate_kbit = None, im_duplicate_percent = None, im_reorder_percent = None, im_corrupt_percent = None,
       im_tbf_shaping = False \<rparr>"

record LinkScenarioConfig =
  min_rate_kbit :: u64
  max_rate_kbit :: u64
  rate_step_kbit :: u64
  base_delay_ms :: nat
  delay_jitter_ms :: nat
  delay_step_ms :: nat
  max_loss_percent :: f32
  loss_step_percent :: f32

record ScenarioConfig =
  sc_seed :: u64
  sc_duration :: Duration
  sc_step :: Duration
  sc_links :: "LinkScenarioConfig list"

record ScenarioFrame =
  fr_t :: Duration
  fr_configs :: "ImpairmentConfig list"

record LinkState =
  ls_rate_kbit :: f64
  ls_delay_ms :: f64
  ls_loss_percent :: f64

text \<open>A random number generator: seeding, a float and a coin.\<close>

record 'g Rng =
  rng_seed :: "u64 \<Rightarrow> 'g"
  rng_f64 :: "'g \<Rightarrow> f64 \<times> 'g"
  rng_bool :: "'g \<Rightarrow> bool \<times> 'g"

record 'g Scenario =
  scn_cfg :: ScenarioConfig
  scn_rng :: 'g
  scn_states :: "LinkState list"

section \<open>The random walk\<close>

fun initial_states :: "'g Rng \<Rightarrow> LinkScenarioConfig list \<Rightarrow> 'g \<Rightarrow> LinkState list \<times> 'g" where
  "initial_states R [] g = ([], g)"
| "initial_states R (link # links) g =
     (let range = u64_to_f64 (max_rate_kbit link - min_rate_kbit link);
          (r1, g1) = rng_f64 R g;
          (r2, g2) = rng_f64 R g1;
          st = \<lparr> ls_rate_kbit = f64_add (u64_to_f64 (min_rate_kbit link)) (f64_mul r1 range),
                 ls_delay_ms = u64_to_f64 (base_delay_ms link),
                 ls_loss_percent = f64_mul (f64_mul r2 (max_loss_percent link)) (f64_of_rat (1 / 5)) \<rparr>;
          (sts, g3) = initial_states R links g2
      in (st # sts, g3))"

definition Scenario_new :: "'g Rng \<Rightarrow> ScenarioConfig \<Rightarrow> 'g Scenario" where
  "Scenario_new R cfg =
     (case initial_states R (sc_links cfg) (rng_seed R (sc_seed cfg)) of
        (states, g) \<Rightarrow> \<lparr> scn_cfg = cfg, scn_rng = g, scn_states = states \<rparr>)"

definition rand_signed :: "'g Rng \<Rightarrow> f64 \<Rightarrow> 'g \<Rightarrow> f64 \<times> 'g" where
  "rand_signed R max_step g =
     (if fl_le max_step (Fin 0) then (Fin 0, g)
      else let (r, g1) = rng_f64 R g;
               mag = f64_mul r max_step;
               (heads, g2) = rng_bool R g1
           in (if heads then mag else fl_neg mag, g2))"

definition step_link ::
  "'g Rng \<Rightarrow> LinkScenarioConfig \<Rightarrow> LinkState \<Rightarrow> 'g \<Rightarrow> (ImpairmentConfig \<times> LinkState \<times> 'g) option" where
  "step_link R link_cfg state g =
     (let (r, g1) = rand_signed R (u64_to_f64 (rate_step_kbit link_cfg)) g in
      case f64_clamp (f64_add (ls_rate_kbit state) r) (u64_to_f64 (min_rate_kbit link_cfg)) (u64_to_f64 (max_rate_kbit link_cfg)) of
        None \<Rightarrow> None
      | Some rate \<Rightarrow>
          if 2 ^ 32 \<le> base_delay_ms link_cfg + delay_jitter_ms link_cfg then None
          else
          let max_delay = u64_to_f64 (base_delay_ms link_cfg + delay_jitter_ms link_cfg);
              (d, g2) = rand_signed R (u64_to_f64 (delay_step_ms link_cfg)) g1
          in case f64_clamp (f64_add (ls_delay_ms state) d) (Fin 1) max_delay of
               None \<Rightarrow> None
             | Some delay \<Rightarrow>
                 let (l, g3) = rand_signed R (loss_step_percent link_cfg) g2 in
                 (case f64_clamp (f64_add (ls_loss_percent state) l) (Fin 0) (max_loss_percent link_cfg) of
                    None \<Rightarrow> None
                  | Some loss \<Rightarrow>
                      Some (ImpairmentConfig_default\<lparr>
                              im_rate_kbit := Some (fl_to_u64 (fl_max rate (Fin 1))),
                              im_delay_ms := Some (fl_to_u32 (fl_max delay (Fin 1))),
                              im_jitter_ms := (if delay_jitter_ms link_cfg > 0 then Some (delay_jitter_ms link_cfg) else None),
                              im_loss_percent := Some (f64_to_f32 loss) \<rparr>,
                            \<lparr> ls_rate_kbit = rate, ls_delay_ms = delay, ls_loss_percent = loss \<rparr>, g3)))"

fun step_links ::
  "'g Rng \<Rightarrow> (LinkScenarioConfig \<times> LinkState) list \<Rightarrow> 'g \<Rightarrow> (ImpairmentConfig list \<times> LinkState list \<times> 'g) option" where
  "step_links R [] g = Some ([], [], g)"
| "step_links R ((link_cfg, state) # rest) g =
     (case step_link R link_cfg state g of
        None \<Rightarrow> None
      | Some (config, state', g1) \<Rightarrow>
          (case step_links R rest g1 of
             None \<Rightarrow> None
           | Some (configs, states, g2) \<Rightarrow> Some (config # configs, state' # states, g2)))"

definition next_frame :: "'g Rng \<Rightarrow> nat \<Rightarrow> 'g Scenario \<Rightarrow> (ScenarioFrame \<times> 'g Scenario) option" where
  "next_frame R step_idx s =
     (case mul_f64 (sc_step (scn_cfg s)) (u64_to_f64 step_idx) of
        None \<Rightarrow> None
      | Some t \<Rightarrow>
          (case step_links R (zip (sc_links (scn_cfg s)) (scn_states s)) (scn_rng s) of
             None \<Rightarrow> None
           | Some (configs, states, g) \<Rightarrow>
               Some (\<lparr> fr_t = t, fr_configs = configs \<rparr>, s\<lparr> scn_rng := g, scn_states := states \<rparr>)))"

fun frames_loop :: "'g Rng \<Rightarrow> nat list \<Rightarrow> 'g Scenario \<Rightarrow> (ScenarioFrame list \<times> 'g Scenario) option" where
  "frames_loop R [] s = Some ([], s)"
| "frames_loop R (step_idx # idxs) s =
     (case next_frame R step_idx s of
        None \<Rightarrow> None
      | Some (frame, s1) \<Rightarrow>
          (case frames_loop R idxs s1 of None \<Rightarrow> None | Some (rest, s2) \<Rightarrow> Some (frame # rest, s2)))"

definition total_steps :: "ScenarioConfig \<Rightarrow> u64" where
  "total_steps cfg = fl_to_u64 (fl_ceil (f64_div (as_secs_f64 (sc_duration cfg)) (as_secs_f64 (sc_step cfg))))"

definition frames :: "'g Rng \<Rightarrow> 'g Scenario \<Rightarrow> (ScenarioFrame list \<times> 'g Scenario) option" where
  "frames R s =
     (if sc_step (scn_cfg s) = 0 then None else frames_loop R [0..<Suc (total_steps (scn_cfg s))] s)"

section \<open>Times of the frames\<close>

lemma rnd64_pow2: "rnd64 (2 ^ k) = 2 ^ k"
  using fl_round_pow2 [of "-1074" "int k" 53] by (simp add: rnd64_def)

lemma as_secs_range:
  assumes "d \<le> 2 ^ 31 * NANOS_PER_SEC"
  obtains x where "as_secs_f64 d = Fin x" "0 \<le> x" "x \<le> 2 ^ 31" "rnd64 x = x" "d \<noteq> 0 \<Longrightarrow> 1 / 2 ^ 30 \<le> x"
proof -
  define q r where "q = d div NANOS_PER_SEC" and "r = d mod NANOS_PER_SEC"
  have d: "d = q * NANOS_PER_SEC + r" by (simp add: q_def r_def)
  have r: "r < NANOS_PER_SEC" by (simp add: r_def NANOS_PER_SEC_def)
  have q: "q \<le> 2 ^ 31" "r \<noteq> 0 \<Longrightarrow> q < 2 ^ 31"
    using assms unfolding d NANOS_PER_SEC_def by simp_all
  define y where "y = rnd64 (of_nat r / 10 ^ 9)"
  have small: "(of_nat r :: rat) < 10 ^ 9"
  proof -
    have "(of_nat r :: rat) < of_nat (10 ^ 9)" using r by (simp only: of_nat_less_iff NANOS_PER_SEC_def)
    then show ?thesis by simp
  qed
  have y: "0 \<le> y" "y \<le> 1" "r = 0 \<Longrightarrow> y = 0"
    unfolding y_def using small by (auto intro!: b64.rnd_nonneg b64.rnd_le)
  have ylow: "1 / 2 ^ 30 \<le> y" if "r \<noteq> 0"
  proof -
    have "(1 :: rat) / 2 ^ 30 \<le> 1 / 10 ^ 9" by simp
    also have "\<dots> \<le> of_nat r / 10 ^ 9" using that by (simp add: divide_right_mono)
    finally show ?thesis unfolding y_def using rnd64_dyadic [of 1 30] by (intro b64.rnd_ge) simp_all
  qed
  have fr: "f64_div (u64_to_f64 r) (u64_to_f64 NANOS_PER_SEC) = Fin y"
    using r small by (simp add: u64_to_f64_exact NANOS_PER_SEC_def y_def f64_val)
  have qr: "(of_nat q :: rat) \<le> 2 ^ 31"
  proof -
    have "(of_nat q :: rat) \<le> of_nat (2 ^ 31)" using q(1) by (simp only: of_nat_le_iff)
    then show ?thesis by simp
  qed
  have sum: "of_nat q + y \<le> (2 ^ 31 :: rat)"
  proof (cases "r = 0")
    case True
    then show ?thesis using y(3) qr by simp
  next
    case False
    then have "(of_nat (Suc q) :: rat) \<le> of_nat (2 ^ 31)" using q(2) [OF False] by (simp only: of_nat_le_iff Suc_le_eq)
    then show ?thesis using y(2) by simp
  qed
  have "as_secs_f64 d = Fin (rnd64 (of_nat q + y))"
    unfolding as_secs_f64_def q_def [symmetric] r_def [symmetric] fr
    using q(1) sum y(1) by (simp add: u64_to_f64_exact f64_val)
  moreover have "0 \<le> rnd64 (of_nat q + y)" "rnd64 (of_nat q + y) \<le> 2 ^ 31"
    using y(1) sum rnd64_pow2 [of 31] by (auto intro: b64.rnd_nonneg b64.rnd_le)
  moreover have "1 / 2 ^ 30 \<le> rnd64 (of_nat q + y)" if "d \<noteq> 0"
  proof -
    have "1 / 2 ^ 30 \<le> of_nat q + y"
    proof (cases "r = 0")
      case True
      then have "1 \<le> q" using that d by (cases q) auto
      then show ?thesis using y(1) by simp
    qed (use ylow in simp)
    then show ?thesis using rnd64_dyadic [of 1 30] by (intro b64.rnd_ge) simp_all
  qed
  ultimately show ?thesis using that b64.rnd_idem by blast
qed

lemma u64_to_f64_val: "n \<le> 2 ^ 64 \<Longrightarrow> u64_to_f64 n = Fin (rnd64 (of_nat n))"
proof -
  assume "n \<le> 2 ^ 64"
  then have "(of_nat n :: rat) \<le> of_nat (2 ^ 64)" by (simp only: of_nat_le_iff)
  then show ?thesis unfolding u64_to_f64_def by (intro f64_val) simp
qed

text \<open>The time of a frame: its index times the step, rounded three times.\<close>

lemma frame_time:
  assumes "sc_step cfg \<noteq> 0" "sc_step cfg \<le> 2 ^ 31 * NANOS_PER_SEC" "sc_duration cfg \<le> 2 ^ 31 * NANOS_PER_SEC"
  obtains s where "0 \<le> s" "\<And>k. k \<le> total_steps cfg \<Longrightarrow>
    mul_f64 (sc_step cfg) (u64_to_f64 k) = Some (nat (round_half_even (rnd64 (rnd64 (of_nat k) * s) * of_nat NANOS_PER_SEC)))"
proof -
  obtain s where s: "as_secs_f64 (sc_step cfg) = Fin s" "0 \<le> s" "s \<le> 2 ^ 31" "1 / 2 ^ 30 \<le> s"
    using as_secs_range [OF assms(2)] assms(1) by metis
  obtain u where u: "as_secs_f64 (sc_duration cfg) = Fin u" "0 \<le> u" "u \<le> 2 ^ 31" using as_secs_range [OF assms(3)] by metis
  have pos: "0 < s" using s(4) by (rule less_le_trans [rotated]) simp
  define b where "b = (if 1 \<le> s then 31 else 61 :: nat)"
  have "u / s \<le> 2 ^ b"
  proof (cases "1 \<le> s")
    case True
    then have "u / s \<le> u / 1" using u(2) by (intro divide_left_mono) simp_all
    then show ?thesis using True u(3) by (simp add: b_def)
  next
    case False
    have "u / s \<le> 2 ^ 31 / (1 / 2 ^ 30)" using u s(4) by (intro frac_le) simp_all
    then show ?thesis using False by (simp add: b_def)
  qed
  then have x: "rnd64 (u / s) \<le> 2 ^ b" "0 \<le> rnd64 (u / s)"
    using rnd64_pow2 [of b] u(2) pos by (auto intro: b64.rnd_le b64.rnd_nonneg)
  have "(2 :: rat) ^ b \<le> 2 ^ 61" by (simp add: b_def)
  then have "\<bar>u / s\<bar> \<le> 2 ^ 64" using \<open>u / s \<le> 2 ^ b\<close> u(2) pos by simp
  then have "total_steps cfg = fl_to_u64 (Fin (of_int \<lceil>rnd64 (u / s)\<rceil>))" using pos by (simp add: total_steps_def u(1) s(1) f64_val)
  moreover have "\<lceil>rnd64 (u / s)\<rceil> \<le> 2 ^ b" using x(1) by (simp add: ceiling_le_iff)
  ultimately have tot: "total_steps cfg \<le> 2 ^ b" by (simp add: fl_to_u64_def b_def split: if_splits)
  have "mul_f64 (sc_step cfg) (u64_to_f64 k) = Some (nat (round_half_even (rnd64 (rnd64 (of_nat k) * s) * of_nat NANOS_PER_SEC)))"
    if "k \<le> total_steps cfg" for k
  proof -
    have "k \<le> 2 ^ b" using that tot by simp
    then have "(of_nat k :: rat) \<le> of_nat (2 ^ b)" by (simp only: of_nat_le_iff)
    then have k: "rnd64 (of_nat k) \<le> 2 ^ b" using rnd64_pow2 [of b] by (intro b64.rnd_le) simp_all
    have "rnd64 (of_nat k) * s \<le> 2 ^ b * (if 1 \<le> s then 2 ^ 31 else 1)" using k s(2,3) by (intro mult_mono) auto
    also have "\<dots> \<le> 2 ^ 62" by (simp add: b_def)
    finally have p: "rnd64 (of_nat k) * s \<le> 2 ^ 62" .
    have p0: "0 \<le> rnd64 (of_nat k) * s" using s(2) by (simp add: b64.rnd_nonneg)
    define t where "t = rnd64 (rnd64 (of_nat k) * s)"
    have t: "0 \<le> t" "t \<le> 2 ^ 62" unfolding t_def using p p0 rnd64_pow2 [of 62] by (auto intro: b64.rnd_nonneg b64.rnd_le)
    have "k \<le> 2 ^ 64" using \<open>k \<le> 2 ^ b\<close> by (simp add: b_def split: if_splits)
    then have "f64_mul (u64_to_f64 k) (as_secs_f64 (sc_step cfg)) = Fin t"
      using p p0 by (simp add: u64_to_f64_val s(1) t_def f64_val)
    moreover have "round_half_even (t * of_nat NANOS_PER_SEC) < 2 ^ 64 * int NANOS_PER_SEC"
    proof -
      have "t * of_nat NANOS_PER_SEC \<le> of_int (2 ^ 62 * int NANOS_PER_SEC)" using t by (simp add: NANOS_PER_SEC_def)
      from round_half_even_mono [OF this] show ?thesis
        unfolding round_half_even_of_int by (simp add: NANOS_PER_SEC_def)
    qed
    then have "nat (round_half_even (t * of_nat NANOS_PER_SEC)) < 2 ^ 64 * NANOS_PER_SEC" by (simp add: nat_less_iff NANOS_PER_SEC_def)
    ultimately show ?thesis using t(1) by (simp add: mul_f64_def t_def [symmetric] Let_def)
  qed
  then show ?thesis using that s(2) by blast
qed

section \<open>One step of the walk\<close>

definition rng_ok :: "'g Rng \<Rightarrow> bool" where
  "rng_ok R \<longleftrightarrow> (\<forall>g. fl_in 0 1 (fst (rng_f64 R g)))"

text \<open>The fields of a configuration as the types have them, with rates below \<open>2 ^ 53\<close>, a loss limit that is not a number or
  below \<open>2 ^ 32\<close>, and a finite loss step.\<close>

definition link_sane :: "LinkScenarioConfig \<Rightarrow> bool" where
  "link_sane l \<longleftrightarrow> min_rate_kbit l < 2 ^ 53 \<and> max_rate_kbit l < 2 ^ 53 \<and> rate_step_kbit l < 2 ^ 64 \<and> delay_step_ms l < 2 ^ 32 \<and>
     base_delay_ms l < 2 ^ 32 \<and> delay_jitter_ms l < 2 ^ 32 \<and>
     (max_loss_percent l = NaN \<or> (\<exists>m. max_loss_percent l = Fin m \<and> rnd32 m = m \<and> \<bar>m\<bar> < 2 ^ 32)) \<and>
     (\<exists>m. loss_step_percent l = Fin m)"

text \<open>What a clamp of the walk does not accept, and the addition that does not fit its type.\<close>

definition link_panics :: "LinkScenarioConfig \<Rightarrow> bool" where
  "link_panics l \<longleftrightarrow> max_rate_kbit l < min_rate_kbit l \<or> base_delay_ms l + delay_jitter_ms l = 0 \<or>
     2 ^ 32 \<le> base_delay_ms l + delay_jitter_ms l \<or> \<not> fl_le (Fin 0) (max_loss_percent l)"

lemma sane_loss:
  assumes "link_sane l" "\<not> link_panics l"
  obtains m n where "max_loss_percent l = Fin m" "rnd32 m = m" "\<bar>m\<bar> < 2 ^ 32" "0 \<le> m" "loss_step_percent l = Fin n"
  using assms by (auto simp: link_sane_def link_panics_def fl_le_def fl_eq_def)

definition state_sane :: "LinkState \<Rightarrow> bool" where
  "state_sane st \<longleftrightarrow> (\<exists>a b c. st = \<lparr> ls_rate_kbit = Fin a, ls_delay_ms = Fin b, ls_loss_percent = Fin c \<rparr>)"

text \<open>What a frame may say of a link.\<close>

definition link_in_bounds :: "LinkScenarioConfig \<Rightarrow> ImpairmentConfig \<Rightarrow> bool" where
  "link_in_bounds l c \<longleftrightarrow>
     (\<exists>rate delay loss. c = ImpairmentConfig_default\<lparr> im_rate_kbit := Some rate, im_delay_ms := Some delay,
          im_jitter_ms := (if delay_jitter_ms l = 0 then None else Some (delay_jitter_ms l)), im_loss_percent := Some (Fin loss) \<rparr> \<and>
        min_rate_kbit l \<le> rate \<and> (if max_rate_kbit l = 0 then rate = 1 else 1 \<le> rate \<and> rate \<le> max_rate_kbit l) \<and>
        1 \<le> delay \<and> delay \<le> base_delay_ms l + delay_jitter_ms l \<and> 0 \<le> loss \<and> fl_le (Fin loss) (max_loss_percent l))"

lemma rand_signed_number:
  assumes "rng_ok R"
  shows "fst (rand_signed R (Fin m) g) \<noteq> NaN"
proof -
  obtain r where r: "fst (rng_f64 R g) = Fin r" using assms by (auto simp: rng_ok_def elim: fl_inE)
  have "fl_neg x \<noteq> NaN" if "x \<noteq> NaN" for x using that by (cases x) simp_all
  then show ?thesis using r by (simp add: rand_signed_def case_prod_beta Let_def)
qed

lemma f64_add_number: "y \<noteq> NaN \<Longrightarrow> f64_add (Fin a) y \<noteq> NaN"
  by (cases y) simp_all

lemma clamped:
  assumes "rng_ok R" "lo \<le> hi"
  obtains x where "f64_clamp (f64_add (Fin a) (fst (rand_signed R (Fin m) g))) (Fin lo) (Fin hi) = Some (Fin x)" "lo \<le> x" "x \<le> hi"
  using fl_clamp_in [OF f64_add_number [OF rand_signed_number [OF assms(1), of m g], of a] assms(2)] assms(2) that
  by (auto simp: f64_clamp_def elim!: fl_inE)

lemma fl_to_u64_between: "of_nat a \<le> x \<Longrightarrow> x \<le> of_nat b \<Longrightarrow> b < 2 ^ 64 \<Longrightarrow> a \<le> fl_to_u64 (Fin x) \<and> fl_to_u64 (Fin x) \<le> b"
proof -
  assume x: "of_nat a \<le> x" "x \<le> of_nat b" and b: "b < 2 ^ 64"
  have "0 \<le> x" using x(1) by (rule order_trans [rotated]) simp
  then have "trunc x = \<lfloor>x\<rfloor>" by (simp add: trunc_def)
  moreover have "int a \<le> \<lfloor>x\<rfloor>" using x(1) by (simp add: le_floor_iff)
  moreover have "\<lfloor>x\<rfloor> \<le> int b" using x(2) floor_mono [of x "of_nat b"] by simp
  ultimately show ?thesis using b by (simp add: fl_to_u64_def min_def max_def nat_le_iff le_nat_iff) linarith
qed

lemma fl_to_u32_u64: "fl_to_u64 x < 2 ^ 32 \<Longrightarrow> fl_to_u32 x = fl_to_u64 x"
  by (cases x) (auto simp: fl_to_u32_def fl_to_u64_def)

lemma f32_loss: "rnd32 m = m \<Longrightarrow> \<bar>m\<bar> < 2 ^ 64 \<Longrightarrow> 0 \<le> x \<Longrightarrow> x \<le> m \<Longrightarrow> \<exists>y. f64_to_f32 (Fin x) = Fin y \<and> 0 \<le> y \<and> y \<le> m"
  using b32.rnd_nonneg [of x] b32.rnd_le [of m x] by (simp add: f32_val)

lemma step_link_ok:
  assumes "rng_ok R" "link_sane l" "state_sane st" "\<not> link_panics l"
  shows "\<exists>c st' g'. step_link R l st g = Some (c, st', g') \<and> link_in_bounds l c \<and> state_sane st'"
proof -
  obtain a b c where st: "st = \<lparr> ls_rate_kbit = Fin a, ls_delay_ms = Fin b, ls_loss_percent = Fin c \<rparr>"
    using assms(3) by (auto simp: state_sane_def)
  obtain m n where m: "max_loss_percent l = Fin m" "rnd32 m = m" "\<bar>m\<bar> < 2 ^ 32" "0 \<le> m" "loss_step_percent l = Fin n"
    by (rule sane_loss [OF assms(2,4)])
  then have loss: "max_loss_percent l = Fin m" "rnd32 m = m" "\<bar>m\<bar> < 2 ^ 64" "loss_step_percent l = Fin n" by simp_all
  have ok: "min_rate_kbit l \<le> max_rate_kbit l" "1 \<le> base_delay_ms l + delay_jitter_ms l" "0 \<le> m"
    using assms(4) m(4) by (auto simp: link_panics_def)
  have sane: "min_rate_kbit l < 2 ^ 53" "max_rate_kbit l < 2 ^ 53" "rate_step_kbit l < 2 ^ 64" "delay_step_ms l < 2 ^ 32"
    "base_delay_ms l + delay_jitter_ms l < 2 ^ 32" using assms(2,4) by (auto simp: link_sane_def link_panics_def)
  let ?D = "base_delay_ms l + delay_jitter_ms l"
  have D: "\<not> 4294967296 \<le> ?D" "u64_to_f64 ?D = Fin (of_nat ?D)"
    using sane(5) by (simp_all add: u64_to_f64_exact del: of_nat_add)
  obtain r g1 where r: "rand_signed R (u64_to_f64 (rate_step_kbit l)) g = (r, g1)" by fastforce
  obtain d g2 where d: "rand_signed R (u64_to_f64 (delay_step_ms l)) g1 = (d, g2)" by fastforce
  obtain e g3 where e: "rand_signed R (loss_step_percent l) g2 = (e, g3)" by fastforce
  obtain x where x: "f64_clamp (f64_add (Fin a) r) (u64_to_f64 (min_rate_kbit l)) (u64_to_f64 (max_rate_kbit l)) = Some (Fin x)"
    "of_nat (min_rate_kbit l) \<le> x" "x \<le> of_nat (max_rate_kbit l)"
    using clamped [OF assms(1), of "of_nat (min_rate_kbit l)" "of_nat (max_rate_kbit l)" a "rnd64 (of_nat (rate_step_kbit l))" g]
      ok(1) sane(1-3) r by (auto simp: u64_to_f64_exact u64_to_f64_val)
  obtain y where y: "f64_clamp (f64_add (Fin b) d) (Fin 1) (u64_to_f64 ?D) = Some (Fin y)" "1 \<le> y" "y \<le> of_nat ?D"
  proof (rule clamped [OF assms(1), of 1 "of_nat ?D" b "of_nat (delay_step_ms l)" g1])
    have "(of_nat 1 :: rat) \<le> of_nat ?D" using ok(2) by (simp only: of_nat_le_iff)
    then show "(1 :: rat) \<le> of_nat ?D" by simp
  qed (use that d sane(4) D in \<open>auto simp: u64_to_f64_exact\<close>)
  obtain z where z: "f64_clamp (f64_add (Fin c) e) (Fin 0) (Fin m) = Some (Fin z)" "0 \<le> z" "z \<le> m"
    using clamped [OF assms(1) ok(3), of c n g2] e loss(4) by auto
  obtain w where w: "f64_to_f32 (Fin z) = Fin w" "0 \<le> w" "w \<le> m" using f32_loss [OF loss(2,3) z(2,3)] by blast
  have rate: "1 \<le> fl_to_u64 (fl_max (Fin x) (Fin 1))" "min_rate_kbit l \<le> fl_to_u64 (fl_max (Fin x) (Fin 1))"
    "fl_to_u64 (fl_max (Fin x) (Fin 1)) \<le> max 1 (max_rate_kbit l)"
  proof -
    have "fl_max (Fin x) (Fin 1) = Fin (max x 1)" by (simp add: fl_max_def max_def)
    moreover have "of_nat (max 1 (min_rate_kbit l)) \<le> max x 1" "max x 1 \<le> of_nat (max 1 (max_rate_kbit l))" "max 1 (max_rate_kbit l) < 2 ^ 64"
      using x(2,3) sane(2) by (auto simp: max_def)
    ultimately show "1 \<le> fl_to_u64 (fl_max (Fin x) (Fin 1))" "min_rate_kbit l \<le> fl_to_u64 (fl_max (Fin x) (Fin 1))"
      "fl_to_u64 (fl_max (Fin x) (Fin 1)) \<le> max 1 (max_rate_kbit l)"
      using fl_to_u64_between [of "max 1 (min_rate_kbit l)" "max x 1" "max 1 (max_rate_kbit l)"] by auto
  qed
  have delay: "1 \<le> fl_to_u32 (fl_max (Fin y) (Fin 1))" "fl_to_u32 (fl_max (Fin y) (Fin 1)) \<le> ?D"
    using fl_to_u64_between [of 1 y ?D] y(2,3) sane(5) fl_to_u32_u64 [of "Fin y"] by (auto simp: fl_max_def)
  have rate': "if max_rate_kbit l = 0 then fl_to_u64 (fl_max (Fin x) (Fin 1)) = 1
      else 1 \<le> fl_to_u64 (fl_max (Fin x) (Fin 1)) \<and> fl_to_u64 (fl_max (Fin x) (Fin 1)) \<le> max_rate_kbit l"
    using rate by (auto simp: max_def split: if_splits)
  have "step_link R l st g = Some (ImpairmentConfig_default\<lparr> im_rate_kbit := Some (fl_to_u64 (fl_max (Fin x) (Fin 1))),
      im_delay_ms := Some (fl_to_u32 (fl_max (Fin y) (Fin 1))),
      im_jitter_ms := (if delay_jitter_ms l > 0 then Some (delay_jitter_ms l) else None), im_loss_percent := Some (Fin w) \<rparr>,
      \<lparr> ls_rate_kbit = Fin x, ls_delay_ms = Fin y, ls_loss_percent = Fin z \<rparr>, g3)"
    by (simp add: step_link_def st r d e x(1) y(1) z(1) w(1) D(1) loss(1) del: f64_to_f32.simps)
  moreover have "link_in_bounds l (ImpairmentConfig_default\<lparr> im_rate_kbit := Some (fl_to_u64 (fl_max (Fin x) (Fin 1))),
      im_delay_ms := Some (fl_to_u32 (fl_max (Fin y) (Fin 1))),
      im_jitter_ms := (if delay_jitter_ms l > 0 then Some (delay_jitter_ms l) else None), im_loss_percent := Some (Fin w) \<rparr>)"
    unfolding link_in_bounds_def
    by (intro exI [of _ "fl_to_u64 (fl_max (Fin x) (Fin 1))"] exI [of _ "fl_to_u32 (fl_max (Fin y) (Fin 1))"] exI [of _ w])
      (use rate(2) rate' delay w loss(1) in simp)
  ultimately show ?thesis by (auto simp: state_sane_def)
qed

lemma step_link_panics:
  assumes "link_sane l" "link_panics l"
  shows "step_link R l st g = None"
proof -
  have sane: "min_rate_kbit l < 2 ^ 53" "max_rate_kbit l < 2 ^ 53" using assms(1) by (auto simp: link_sane_def)
  consider "max_rate_kbit l < min_rate_kbit l" | "base_delay_ms l + delay_jitter_ms l = 0" | "2 ^ 32 \<le> base_delay_ms l + delay_jitter_ms l"
    | "\<not> fl_le (Fin 0) (max_loss_percent l)"
    using assms(2) by (auto simp: link_panics_def)
  then show ?thesis
  proof cases
    case 1
    then show ?thesis using sane by (simp add: step_link_def f64_clamp_def u64_to_f64_exact case_prod_beta Let_def)
  next
    case 2
    then show ?thesis
      by (simp add: step_link_def f64_clamp_def u64_to_f64_exact case_prod_beta Let_def split: option.split)
  next
    case 3
    then show ?thesis by (simp add: step_link_def case_prod_beta Let_def split: option.split)
  next
    case 4
    then have "f64_clamp x (Fin 0) (max_loss_percent l) = None" for x by (simp add: f64_clamp_def)
    then show ?thesis by (simp add: step_link_def case_prod_beta Let_def split: option.split)
  qed
qed

section \<open>The whole scenario\<close>

lemma step_links_ok:
  assumes "rng_ok R"
  shows "list_all link_sane (map fst ls) \<Longrightarrow> list_all state_sane (map snd ls) \<Longrightarrow> list_all (\<lambda>l. \<not> link_panics l) (map fst ls) \<Longrightarrow>
    \<exists>cs sts g'. step_links R ls g = Some (cs, sts, g') \<and> list_all2 link_in_bounds (map fst ls) cs \<and>
      length sts = length ls \<and> list_all state_sane sts"
proof (induction ls arbitrary: g)
  case (Cons x ls)
  obtain l st where x: "x = (l, st)" by (cases x)
  obtain c st' g1 where st: "step_link R l st g = Some (c, st', g1)" "link_in_bounds l c" "state_sane st'"
    using step_link_ok [OF assms, of l st g] Cons.prems x by auto
  obtain cs sts g2 where "step_links R ls g1 = Some (cs, sts, g2)" "list_all2 link_in_bounds (map fst ls) cs" "length sts = length ls"
    "list_all state_sane sts" using Cons.IH [of g1] Cons.prems by auto
  then show ?case using st x by simp
qed simp

lemma step_links_panics:
  "list_all link_sane (map fst ls) \<Longrightarrow> list_ex link_panics (map fst ls) \<Longrightarrow> step_links R ls g = None"
proof (induction ls arbitrary: g)
  case (Cons x ls)
  obtain l st where x: "x = (l, st)" by (cases x)
  show ?case
  proof (cases "link_panics l")
    case True
    then show ?thesis using Cons.prems x step_link_panics [of l R st g] by simp
  next
    case False
    then show ?thesis using Cons x by (auto split: option.split)
  qed
qed simp

definition scenario_ok :: "'g Scenario \<Rightarrow> bool" where
  "scenario_ok s \<longleftrightarrow> length (scn_states s) = length (sc_links (scn_cfg s)) \<and> list_all state_sane (scn_states s)"

lemma f64_fin:
  assumes "\<bar>x\<bar> \<le> 2 ^ n" "n \<le> 64"
  shows "\<exists>y. f64_of_rat x = Fin y \<and> \<bar>y\<bar> \<le> 2 ^ n"
proof -
  have "rnd64 (- (2 ^ n)) = - (2 ^ n)" using rnd64_pow2 [of n] by (simp only: rnd64_def fl_round_minus)
  then have "- (2 ^ n) \<le> rnd64 x \<and> rnd64 x \<le> 2 ^ n" using rnd64_pow2 [of n] assms(1) by (intro b64.rnd_between) linarith+
  moreover have "(2 :: rat) ^ n \<le> 2 ^ 64" using assms(2) by (intro power_increasing) simp_all
  then have "\<bar>x\<bar> \<le> 2 ^ 64" using assms(1) by linarith
  ultimately show ?thesis using f64_val [of x] by (intro exI [of _ "rnd64 x"]) (auto simp: abs_le_iff)
qed

lemma initial_length: "initial_states R links g = (sts, g') \<Longrightarrow> length sts = length links"
  by (induction links arbitrary: g sts g') (auto simp: Let_def split: prod.splits)

lemma initial_ok:
  assumes "rng_ok R"
  shows "list_all (\<lambda>l. link_sane l \<and> \<not> link_panics l) links \<Longrightarrow> initial_states R links g = (sts, g') \<Longrightarrow> list_all state_sane sts"
proof (induction links arbitrary: g sts g')
  case (Cons l links)
  have draw: "\<exists>r. fst (rng_f64 R h) = Fin r \<and> 0 \<le> r \<and> r \<le> 1" for h
    using assms by (auto simp: rng_ok_def elim: fl_inE)
  obtain r1 g1 where 1: "rng_f64 R g = (Fin r1, g1)" "0 \<le> r1" "r1 \<le> 1" using draw [of g] by (metis prod.collapse)
  obtain r2 g2 where 2: "rng_f64 R g1 = (Fin r2, g2)" "0 \<le> r2" "r2 \<le> 1" using draw [of g1] by (metis prod.collapse)
  obtain sts' g3 where 3: "initial_states R links g2 = (sts', g3)" by fastforce
  obtain m where m: "max_loss_percent l = Fin m" "\<bar>m\<bar> < 2 ^ 32" using Cons.prems(1) by (auto elim: sane_loss)
  have lim: "max_rate_kbit l - min_rate_kbit l < 2 ^ 53" "min_rate_kbit l < 2 ^ 53" "base_delay_ms l < 2 ^ 53"
    using Cons.prems by (auto simp: link_sane_def)
  let ?range = "of_nat (max_rate_kbit l - min_rate_kbit l) :: rat"
  have range: "?range \<le> 2 ^ 53" "(of_nat (min_rate_kbit l) :: rat) \<le> 2 ^ 53"
    using lim(1,2) of_nat_le_iff [of _ "2 ^ 53", where ?'a = rat] by (simp_all add: less_imp_le)
  have "\<bar>r1 * ?range\<bar> \<le> 1 * 2 ^ 53" unfolding abs_mult using 1 range by (intro mult_mono) simp_all
  then obtain p where p: "f64_of_rat (r1 * ?range) = Fin p" "\<bar>p\<bar> \<le> 2 ^ 53" using f64_fin [of _ 53] by auto
  then have "\<bar>of_nat (min_rate_kbit l) + p\<bar> \<le> 2 ^ 54" using range(2) by simp
  then obtain q where q: "f64_of_rat (of_nat (min_rate_kbit l) + p) = Fin q" using f64_fin [of _ 54] by auto
  have "\<bar>r2 * m\<bar> \<le> 1 * 2 ^ 32" unfolding abs_mult using 2 m by (intro mult_mono) simp_all
  then obtain u where u: "f64_of_rat (r2 * m) = Fin u" "\<bar>u\<bar> \<le> 2 ^ 32" using f64_fin [of _ 32] by auto
  obtain k where k: "f64_of_rat (1 / 5) = Fin k" "\<bar>k\<bar> \<le> 2 ^ 0" using f64_fin [of "1 / 5" 0] by auto
  have "\<bar>u * k\<bar> \<le> 2 ^ 32 * 2 ^ 0" unfolding abs_mult using u k by (intro mult_mono) simp_all
  then obtain v where v: "f64_of_rat (u * k) = Fin v" using f64_fin [of _ 32] by auto
  have "state_sane (hd sts)" "tl sts = sts'" "sts \<noteq> []"
    using Cons.prems(2) 1 2 3 p(1) q u(1) k(1) v lim m(1) by (auto simp: state_sane_def u64_to_f64_exact)
  then show ?case using Cons.IH [OF _ 3] Cons.prems(1) by (cases sts) auto
qed simp

lemma frames_loop_ok:
  assumes "rng_ok R" "list_all link_sane (sc_links (scn_cfg s))" "list_all (\<lambda>l. \<not> link_panics l) (sc_links (scn_cfg s))"
  shows "scenario_ok s \<Longrightarrow> scn_cfg s = cfg \<Longrightarrow> list_all (\<lambda>k. mul_f64 (sc_step cfg) (u64_to_f64 k) = Some (time k)) ks \<Longrightarrow>
    \<exists>fs s'. frames_loop R ks s = Some (fs, s') \<and> map fr_t fs = map time ks \<and>
      list_all (\<lambda>f. list_all2 link_in_bounds (sc_links cfg) (fr_configs f)) fs"
  using assms(2,3)
proof (induction ks arbitrary: s)
  case (Cons k ks)
  let ?ls = "zip (sc_links (scn_cfg s)) (scn_states s)"
  have z: "map fst ?ls = sc_links (scn_cfg s)" "map snd ?ls = scn_states s" using Cons.prems(1) by (simp_all add: scenario_ok_def)
  obtain cs sts g where st: "step_links R ?ls (scn_rng s) = Some (cs, sts, g)" "list_all2 link_in_bounds (sc_links cfg) cs"
    "length sts = length (scn_states s)" "list_all state_sane sts"
    using step_links_ok [OF assms(1), of ?ls "scn_rng s"] z Cons.prems by (auto simp: scenario_ok_def)
  let ?s1 = "s\<lparr> scn_rng := g, scn_states := sts \<rparr>"
  obtain fs s' where "frames_loop R ks ?s1 = Some (fs, s')" "map fr_t fs = map time ks"
    "list_all (\<lambda>f. list_all2 link_in_bounds (sc_links cfg) (fr_configs f)) fs"
    using Cons.IH [of ?s1] Cons.prems st(3,4) by (auto simp: scenario_ok_def)
  then show ?case using st(1,2) Cons.prems(2,3) by (simp add: next_frame_def)
qed simp

lemma frames_loop_panics:
  assumes "length (scn_states s) = length (sc_links (scn_cfg s))" "list_all link_sane (sc_links (scn_cfg s))" "list_ex link_panics (sc_links (scn_cfg s))"
  shows "frames_loop R (k # ks) s = None"
  using assms step_links_panics [of "zip (sc_links (scn_cfg s)) (scn_states s)" R "scn_rng s"]
  by (simp add: next_frame_def split: option.split)

text \<open>
  C28: generating a scenario. For rates below \<open>2 ^ 53\<close>, a loss limit that is not a number or of less than \<open>2 ^ 32\<close> percent, a finite loss step and times up to
  \<open>2 ^ 31\<close> seconds, with a generator that draws from the unit interval: it panics exactly when the step is zero or some link has its rates out of order, no delay at
  all, a base delay and jitter whose sum does not fit 32 bits, or a loss limit that is negative or not a number. Otherwise it returns, with one
  frame per step in the order of time, the first at zero; and in every frame every link has its rate between its limits (and 1 kbit/s
  if its upper limit is zero), its delay between 1 ms and base plus jitter, its jitter if it has any, and its loss between zero and its limit, although every
  step of the walk is rounded, the loss twice.
\<close>

theorem scenario_frames:
  assumes "rng_ok R" "list_all link_sane (sc_links cfg)"
    "sc_step cfg \<le> 2 ^ 31 * NANOS_PER_SEC" "sc_duration cfg \<le> 2 ^ 31 * NANOS_PER_SEC"
  shows "case frames R (Scenario_new R cfg) of
      None \<Rightarrow> sc_step cfg = 0 \<or> list_ex link_panics (sc_links cfg)
    | Some (fs, _) \<Rightarrow> sc_step cfg \<noteq> 0 \<and> \<not> list_ex link_panics (sc_links cfg) \<and>
        length fs = total_steps cfg + 1 \<and> fr_t (hd fs) = 0 \<and> sorted (map fr_t fs) \<and>
        list_all (\<lambda>f. list_all2 link_in_bounds (sc_links cfg) (fr_configs f)) fs"
proof (cases "sc_step cfg = 0")
  case True
  then show ?thesis by (simp add: frames_def Scenario_new_def case_prod_beta)
next
  case step: False
  let ?s = "Scenario_new R cfg"
  have cfg: "scn_cfg ?s = cfg" by (simp add: Scenario_new_def case_prod_beta)
  obtain sts g where init: "initial_states R (sc_links cfg) (rng_seed R (sc_seed cfg)) = (sts, g)" by fastforce
  have sts: "scn_states ?s = sts" by (simp add: Scenario_new_def init)
  have len: "length (scn_states ?s) = length (sc_links (scn_cfg ?s))" using initial_length [OF init] by (simp add: sts cfg)
  show ?thesis
  proof (cases "list_ex link_panics (sc_links cfg)")
    case True
    then have "frames R ?s = None"
      using frames_loop_panics [OF len, of R 0] assms(2) cfg step by (simp add: frames_def upt_conv_Cons del: upt_Suc)
    then show ?thesis using True by simp
  next
    case False
    have "list_all (\<lambda>l. link_sane l \<and> \<not> link_panics l) (sc_links cfg)" using False assms(2) by (auto simp: list_all_iff list_ex_iff)
    from initial_ok [OF assms(1) this init] have ok: "scenario_ok ?s" using len by (simp add: scenario_ok_def sts)
    obtain a where a: "0 \<le> a" and t: "\<And>k. k \<le> total_steps cfg \<Longrightarrow> mul_f64 (sc_step cfg) (u64_to_f64 k) =
        Some (nat (round_half_even (rnd64 (rnd64 (of_nat k) * a) * of_nat NANOS_PER_SEC)))"
      using frame_time [OF step assms(3,4)] by metis
    define time where "time k = nat (round_half_even (rnd64 (rnd64 (of_nat k) * a) * of_nat NANOS_PER_SEC))" for k
    have mono: "time j \<le> time k" if "j \<le> k" for j k
      unfolding time_def using that a by (intro nat_mono round_half_even_mono mult_right_mono b64.rnd_mono) simp_all
    have zero: "time 0 = 0" using round_half_even_of_int [of 0] by (simp add: time_def)
    let ?ks = "[0..<Suc (total_steps cfg)]"
    obtain fs s' where fs: "frames_loop R ?ks ?s = Some (fs, s')" "map fr_t fs = map time ?ks"
      "list_all (\<lambda>f. list_all2 link_in_bounds (sc_links cfg) (fr_configs f)) fs"
      using frames_loop_ok [OF assms(1) _ _ ok cfg, of time ?ks] assms(2) cfg False t
      by (auto simp: list_all_iff list_ex_iff time_def simp del: upt_Suc)
    have "length fs = total_steps cfg + 1" using arg_cong [OF fs(2), of length] by simp
    moreover have "fr_t (hd fs) = time 0"
      using fs(2) by (cases fs) (simp_all add: upt_conv_Cons del: upt_Suc)
    moreover have "sorted (map fr_t fs)" unfolding fs(2) using mono by (auto simp: sorted_iff_nth_mono simp del: upt_Suc)
    ultimately show ?thesis using fs False step zero cfg by (simp add: frames_def del: upt_Suc)
  qed
qed

definition demo_rng :: "bool Rng" where
  "demo_rng = \<lparr> rng_seed = even, rng_f64 = (\<lambda>b. (Fin (if b then 1 / 2 else 0), \<not> b)), rng_bool = (\<lambda>b. (b, b)) \<rparr>"

definition demo_scenario :: ScenarioConfig where
  "demo_scenario = \<lparr> sc_seed = 42, sc_duration = 5 * NANOS_PER_SEC, sc_step = NANOS_PER_SEC,
     sc_links = [\<lparr> min_rate_kbit = 500, max_rate_kbit = 1500, rate_step_kbit = 150, base_delay_ms = 30, delay_jitter_ms = 20,
       delay_step_ms = 5, max_loss_percent = Fin 10, loss_step_percent = Fin 2 \<rparr>] \<rparr>"

text \<open>The scenario of the tests with one link: frames exist and stay in bounds.\<close>

theorem scenario_frames_witness:
  "\<exists>fs s'. frames demo_rng (Scenario_new demo_rng demo_scenario) = Some (fs, s') \<and> sorted (map fr_t fs) \<and>
     list_all (\<lambda>f. list_all2 link_in_bounds (sc_links demo_scenario) (fr_configs f)) fs"
proof -
  have "rng_ok demo_rng" by (simp add: rng_ok_def demo_rng_def)
  moreover have "list_all link_sane (sc_links demo_scenario)" by (simp add: demo_scenario_def link_sane_def)
  moreover have "\<not> list_ex link_panics (sc_links demo_scenario)" "sc_step demo_scenario \<noteq> 0"
    by (simp_all add: demo_scenario_def link_panics_def NANOS_PER_SEC_def)
  ultimately show ?thesis
    using scenario_frames [of demo_rng demo_scenario] by (auto simp: demo_scenario_def split: option.splits)
qed

end
