(* ===== verification/Sim_Network.thy ===== *)
theory Sim_Network
  imports Sim_Scenario Control "HOL-Library.State_Monad"
begin

text \<open>
  The network simulator: namespaces (\<^verbatim>\<open>crates/network-sim/src/topology.rs\<close>), impairments (\<^verbatim>\<open>impairment.rs\<close>) and unique names
  (\<^verbatim>\<open>test_util.rs\<close>). The simulator works by running commands, so an operation is a state transformer over the trace of what has been
  done, with an error or a value as its result; the host that answers the commands is a parameter. A failure of \<^verbatim>\<open>anyhow\<close> is
  the list of its messages, the outermost context first. Printing of \<^verbatim>\<open>f32\<close> values is a parameter.
\<close>

section \<open>Commands and their answers\<close>

type_synonym command = "string list"

datatype sim_event = Ran command | Spawned command | Slept Duration | Killed nat | Wrote string string

type_synonym trace = "sim_event list"
type_synonym anyhow = "string list"

record Output =
  out_success :: bool
  out_stdout :: string
  out_stderr :: string

text \<open>Starting and finishing a command, starting it only, asking whether a child has exited and with which code, what it has
  printed so far on its two outputs, writing a file (an error or nothing), making a directory, and the clock, each after a trace.\<close>

record Host =
  h_run :: "trace \<Rightarrow> command \<Rightarrow> string + Output"
  h_spawn :: "trace \<Rightarrow> command \<Rightarrow> string + nat"
  h_exited :: "trace \<Rightarrow> nat \<Rightarrow> int option option"
  h_lines :: "trace \<Rightarrow> nat \<Rightarrow> string list \<times> string list"
  h_write :: "trace \<Rightarrow> string \<Rightarrow> string option"
  h_tempdir :: "trace \<Rightarrow> string + string"
  h_clock :: "trace \<Rightarrow> Duration"

type_synonym 'a act = "(trace, anyhow + 'a) state"

definition cmd_output :: "Host \<Rightarrow> command \<Rightarrow> Output act" where
  "cmd_output h cmd = do {
     log \<leftarrow> State_Monad.get;
     State_Monad.set (log @ [Ran cmd]);
     State_Monad.return (case h_run h log cmd of Inl e \<Rightarrow> Inl [e] | Inr out \<Rightarrow> Inr out)
   }"

definition sleep :: "Duration \<Rightarrow> (trace, unit) state" where
  "sleep d = do { log \<leftarrow> State_Monad.get; State_Monad.set (log @ [Slept d]) }"

definition write_file :: "Host \<Rightarrow> string \<Rightarrow> string \<Rightarrow> unit act" where
  "write_file h path content = do {
     log \<leftarrow> State_Monad.get;
     State_Monad.set (log @ [Wrote path content]);
     State_Monad.return (case h_write h log path of Some e \<Rightarrow> Inl [e] | None \<Rightarrow> Inr ())
   }"

text \<open>The operator \<^verbatim>\<open>?\<close>, a result that is not looked at, a value that is dropped, a context, and statements one after the other.\<close>

definition ok_or_return :: "'a act \<Rightarrow> ('a \<Rightarrow> 'b act) \<Rightarrow> 'b act" where
  "ok_or_return m f = do { r \<leftarrow> m; case r of Inl e \<Rightarrow> State_Monad.return (Inl e) | Inr x \<Rightarrow> f x }"

definition ignored :: "'a act \<Rightarrow> unit act" where
  "ignored m = do { r \<leftarrow> m; State_Monad.return (Inr ()) }"

definition discard :: "'a act \<Rightarrow> unit act" where
  "discard m = ok_or_return m (\<lambda>_. State_Monad.return (Inr ()))"

definition with_context :: "string \<Rightarrow> 'a act \<Rightarrow> 'a act" where
  "with_context c m = do { r \<leftarrow> m; State_Monad.return (case r of Inl e \<Rightarrow> Inl (c # e) | Inr x \<Rightarrow> Inr x) }"

fun in_order :: "'a act list \<Rightarrow> unit act" where
  "in_order [] = State_Monad.return (Inr ())"
| "in_order (m # ms) = ok_or_return m (\<lambda>_. in_order ms)"

fun join :: "string \<Rightarrow> string list \<Rightarrow> string" where
  "join sep [] = []"
| "join sep [s] = s"
| "join sep (s # t # ss) = s @ sep @ join sep (t # ss)"

definition in_quotes :: "string \<Rightarrow> string" where
  "in_quotes s = CHR 0x27 # s @ [CHR 0x27]"

abbreviation newline :: string where
  "newline \<equiv> [CHR 0x0A]"

section \<open>Namespaces\<close>

record Namespace =
  ns_name :: string

definition sudo :: "Host \<Rightarrow> string list \<Rightarrow> Output act" where
  "sudo h args = with_context (''sudo '' @ join '' '' args) (cmd_output h (''sudo'' # args))"

definition sudo_checked :: "Host \<Rightarrow> string list \<Rightarrow> Output act" where
  "sudo_checked h args =
     ok_or_return (sudo h args) (\<lambda>out.
       State_Monad.return
         (if \<not> out_success out
          then Inl [''command failed: sudo '' @ join '' '' args @ newline @ trim (out_stderr out)]
          else Inr out))"

definition Namespace_new :: "Host \<Rightarrow> string \<Rightarrow> Namespace act" where
  "Namespace_new h name =
     ok_or_return (ignored (sudo h [''ip'', ''netns'', ''del'', name])) (\<lambda>_.
     ok_or_return (with_context (''create netns '' @ in_quotes name) (sudo_checked h [''ip'', ''netns'', ''add'', name])) (\<lambda>_.
     ok_or_return (ignored (sudo h [''ip'', ''netns'', ''exec'', name, ''ip'', ''link'', ''set'', ''lo'', ''up''])) (\<lambda>_.
     State_Monad.return (Inr \<lparr> ns_name = name \<rparr>))))"

definition Namespace_drop :: "Host \<Rightarrow> Namespace \<Rightarrow> unit act" where
  "Namespace_drop h ns = ignored (sudo h [''ip'', ''netns'', ''del'', ns_name ns])"

definition exec :: "Host \<Rightarrow> Namespace \<Rightarrow> string \<Rightarrow> string list \<Rightarrow> Output act" where
  "exec h ns cmd args =
     with_context (''exec '' @ in_quotes cmd @ '' in ns '' @ in_quotes (ns_name ns))
       (sudo h ([''ip'', ''netns'', ''exec'', ns_name ns, cmd] @ args))"

definition exec_checked :: "Host \<Rightarrow> Namespace \<Rightarrow> string \<Rightarrow> string list \<Rightarrow> Output act" where
  "exec_checked h ns cmd args =
     with_context (''exec '' @ in_quotes cmd @ '' in ns '' @ in_quotes (ns_name ns))
       (sudo_checked h ([''ip'', ''netns'', ''exec'', ns_name ns, cmd] @ args))"

definition add_veth_link ::
  "Host \<Rightarrow> Namespace \<Rightarrow> Namespace \<Rightarrow> string \<Rightarrow> string \<Rightarrow> string \<Rightarrow> string \<Rightarrow> unit act" where
  "add_veth_link h ns peer local_iface peer_iface local_ip peer_ip =
     ok_or_return (ignored (sudo h [''ip'', ''link'', ''del'', local_iface])) (\<lambda>_.
     in_order
       [with_context ''create veth pair''
          (sudo_checked h [''ip'', ''link'', ''add'', local_iface, ''type'', ''veth'', ''peer'', ''name'', peer_iface]),
        with_context ''move local veth'' (sudo_checked h [''ip'', ''link'', ''set'', local_iface, ''netns'', ns_name ns]),
        with_context ''move peer veth'' (sudo_checked h [''ip'', ''link'', ''set'', peer_iface, ''netns'', ns_name peer]),
        with_context ''set local IP'' (exec_checked h ns ''ip'' [''addr'', ''add'', local_ip, ''dev'', local_iface]),
        with_context ''bring local link up'' (exec_checked h ns ''ip'' [''link'', ''set'', local_iface, ''up'']),
        with_context ''set peer IP'' (exec_checked h peer ''ip'' [''addr'', ''add'', peer_ip, ''dev'', peer_iface]),
        with_context ''bring peer link up'' (exec_checked h peer ''ip'' [''link'', ''set'', peer_iface, ''up''])])"

section \<open>Impairments\<close>

definition im_is_empty :: "ImpairmentConfig \<Rightarrow> bool" where
  "im_is_empty c \<longleftrightarrow> im_delay_ms c = None \<and> im_loss_percent c = None \<and> im_rate_kbit c = None \<and> im_gemodel c = None \<and>
     im_duplicate_percent c = None \<and> im_reorder_percent c = None \<and> im_corrupt_percent c = None"

definition has_netem_params :: "ImpairmentConfig \<Rightarrow> bool" where
  "has_netem_params c \<longleftrightarrow> im_delay_ms c \<noteq> None \<or> im_loss_percent c \<noteq> None \<or> im_gemodel c \<noteq> None \<or>
     im_duplicate_percent c \<noteq> None \<or> im_reorder_percent c \<noteq> None \<or> im_corrupt_percent c \<noteq> None"

definition show_percent :: "(f32 \<Rightarrow> string) \<Rightarrow> f32 \<Rightarrow> string" where
  "show_percent show_f32 x = show_f32 x @ ''%''"

definition netem_args :: "(f32 \<Rightarrow> string) \<Rightarrow> bool \<Rightarrow> ImpairmentConfig \<Rightarrow> string list" where
  "netem_args show_f32 include_rate c =
     (case im_delay_ms c of
        None \<Rightarrow> []
      | Some delay \<Rightarrow>
          [''delay'', show_nat delay @ ''ms''] @
          (case im_jitter_ms c of Some jitter \<Rightarrow> if jitter > 0 then [show_nat jitter @ ''ms''] else [] | None \<Rightarrow> [])) @
     (case (im_gemodel c, im_loss_percent c) of
        (Some ge, _) \<Rightarrow>
          [''loss'', ''gemodel'', show_percent show_f32 (ge_p ge), show_percent show_f32 (ge_r ge), show_percent show_f32 (ge_one_h ge),
           show_percent show_f32 (ge_one_k ge)]
      | (None, Some loss) \<Rightarrow>
          [''loss'', show_percent show_f32 loss] @
          (case im_loss_correlation c of Some corr \<Rightarrow> [show_percent show_f32 corr] | None \<Rightarrow> [])
      | _ \<Rightarrow> []) @
     (case im_duplicate_percent c of Some dup \<Rightarrow> [''duplicate'', show_percent show_f32 dup] | None \<Rightarrow> []) @
     (case im_reorder_percent c of Some reorder \<Rightarrow> [''reorder'', show_percent show_f32 reorder] | None \<Rightarrow> []) @
     (case im_corrupt_percent c of Some corrupt \<Rightarrow> [''corrupt'', show_percent show_f32 corrupt] | None \<Rightarrow> []) @
     (if include_rate then (case im_rate_kbit c of Some rate \<Rightarrow> [''rate'', show_nat rate @ ''kbit''] | None \<Rightarrow> []) else [])"

definition tc_checked :: "Host \<Rightarrow> Namespace \<Rightarrow> string list \<Rightarrow> string \<Rightarrow> unit act" where
  "tc_checked h ns args ctx =
     ok_or_return (exec h ns ''tc'' args) (\<lambda>out.
       State_Monad.return
         (if \<not> out_success out then Inl [ctx @ '': tc '' @ join '' '' args @ newline @ trim (out_stderr out)] else Inr ()))"

definition tbf_burst :: "u64 \<Rightarrow> u64" where
  "tbf_burst rate = max ((rate * 1000) mod 2 ^ 64 div 8) 15400 div 10"

definition apply_tbf_with_netem :: "Host \<Rightarrow> (f32 \<Rightarrow> string) \<Rightarrow> Namespace \<Rightarrow> string \<Rightarrow> ImpairmentConfig \<Rightarrow> unit act" where
  "apply_tbf_with_netem h show_f32 ns iface c =
     (case im_rate_kbit c of
        None \<Rightarrow> State_Monad.return (Inl [''tbf_shaping requires rate_kbit''])
      | Some rate \<Rightarrow>
          ok_or_return
            (tc_checked h ns
               [''qdisc'', ''add'', ''dev'', iface, ''root'', ''handle'', ''1:'', ''tbf'', ''rate'', show_nat rate @ ''kbit'',
                ''burst'', show_nat (tbf_burst rate), ''latency'', ''1s'']
               ''apply TBF qdisc'')
            (\<lambda>_. if has_netem_params c
                 then tc_checked h ns
                        ([''qdisc'', ''add'', ''dev'', iface, ''parent'', ''1:1'', ''handle'', ''10:'', ''netem''] @
                         netem_args show_f32 False c)
                        ''apply netem child qdisc''
                 else State_Monad.return (Inr ())))"

definition apply_netem_root :: "Host \<Rightarrow> (f32 \<Rightarrow> string) \<Rightarrow> Namespace \<Rightarrow> string \<Rightarrow> ImpairmentConfig \<Rightarrow> unit act" where
  "apply_netem_root h show_f32 ns iface c =
     tc_checked h ns ([''qdisc'', ''add'', ''dev'', iface, ''root'', ''netem''] @ netem_args show_f32 True c) ''apply netem qdisc''"

definition apply_impairment :: "Host \<Rightarrow> (f32 \<Rightarrow> string) \<Rightarrow> Namespace \<Rightarrow> string \<Rightarrow> ImpairmentConfig \<Rightarrow> unit act" where
  "apply_impairment h show_f32 ns interface config =
     ok_or_return (ignored (exec h ns ''tc'' [''qdisc'', ''del'', ''dev'', interface, ''root''])) (\<lambda>_.
       if im_is_empty config then State_Monad.return (Inr ())
       else if im_tbf_shaping config then apply_tbf_with_netem h show_f32 ns interface config
       else apply_netem_root h show_f32 ns interface config)"

section \<open>Privileges and names\<close>

definition succeeds :: "Host \<Rightarrow> command \<Rightarrow> (trace, bool) state" where
  "succeeds h cmd = do { r \<leftarrow> cmd_output h cmd; State_Monad.return (case r of Inr out \<Rightarrow> out_success out | Inl _ \<Rightarrow> False) }"

definition check_privileges :: "Host \<Rightarrow> (trace, bool) state" where
  "check_privileges h = do {
     has_ip \<leftarrow> succeeds h [''ip'', ''netns''];
     if has_ip then succeeds h [''sudo'', ''-n'', ''ip'', ''netns'', ''list''] else State_Monad.return False
   }"

fun show_hex :: "nat \<Rightarrow> string" where
  "show_hex n =
     (let d = (\<lambda>k. char_of (if k < 10 then 48 + k else 87 + k)) in
      if n < 16 then [d n] else show_hex (n div 16) @ [d (n mod 16)])"

declare show_hex.simps [simp del]

text \<open>The name and the counter after it.\<close>

definition unique_ns_name :: "nat \<Rightarrow> string \<Rightarrow> nat \<Rightarrow> string \<times> nat" where
  "unique_ns_name process_id prefix ns_counter =
     (let pid = process_id mod 0xffff;
          suffix = ''_'' @ show_hex pid @ ''_'' @ show_nat ns_counter;
          max_prefix = 15 - length suffix
      in (take (min (length prefix) max_prefix) prefix @ suffix, (ns_counter + 1) mod 2 ^ 32))"

section \<open>Running operations\<close>

named_theorems act_runs \<open>what an operation answers and adds to the trace\<close>

lemma run_acts [act_runs]:
  "run_state (ok_or_return m f) tr = (case run_state m tr of (Inl e, tr1) \<Rightarrow> (Inl e, tr1) | (Inr x, tr1) \<Rightarrow> run_state (f x) tr1)"
  "run_state (ignored m) tr = (Inr (), snd (run_state m tr))"
  "run_state (discard m) tr = (case run_state m tr of (Inl e, tr1) \<Rightarrow> (Inl e, tr1) | (Inr _, tr1) \<Rightarrow> (Inr (), tr1))"
  "run_state (with_context c m) tr = (case run_state m tr of (Inl e, tr1) \<Rightarrow> (Inl (c # e), tr1) | (Inr x, tr1) \<Rightarrow> (Inr x, tr1))"
  "run_state (cmd_output h cmd) tr = ((case h_run h tr cmd of Inl e \<Rightarrow> Inl [e] | Inr out \<Rightarrow> Inr out), tr @ [Ran cmd])"
  "run_state (sleep d) tr = ((), tr @ [Slept d])"
  "run_state (write_file h path content) tr = ((case h_write h tr path of Some e \<Rightarrow> Inl [e] | None \<Rightarrow> Inr ()), tr @ [Wrote path content])"
  by (auto simp: ok_or_return_def ignored_def discard_def with_context_def cmd_output_def sleep_def write_file_def split: prod.splits sum.splits)

text \<open>Whether a command succeeds at this point of the trace.\<close>

definition cmd_ok :: "Host \<Rightarrow> trace \<Rightarrow> command \<Rightarrow> bool" where
  "cmd_ok h tr cmd \<longleftrightarrow> (case h_run h tr cmd of Inr out \<Rightarrow> out_success out | Inl _ \<Rightarrow> False)"

text \<open>A checked command adds itself to the trace and fails exactly when it does not succeed.\<close>

definition runs_one :: "Host \<Rightarrow> command \<Rightarrow> 'a act \<Rightarrow> bool" where
  "runs_one h cmd m \<longleftrightarrow> (\<forall>tr. snd (run_state m tr) = tr @ [Ran cmd] \<and> (isl (fst (run_state m tr)) \<longleftrightarrow> \<not> cmd_ok h tr cmd))"

abbreviation in_ns :: "Namespace \<Rightarrow> string list \<Rightarrow> command" where
  "in_ns ns args \<equiv> [''sudo'', ''ip'', ''netns'', ''exec'', ns_name ns] @ args"

lemma runs_oneI:
  "(\<And>tr r tr1. run_state m tr = (r, tr1) \<Longrightarrow> tr1 = tr @ [Ran cmd] \<and> (isl r \<longleftrightarrow> \<not> cmd_ok h tr cmd)) \<Longrightarrow> runs_one h cmd m"
  by (simp add: runs_one_def) (metis prod.collapse)

lemma runs_oneD: "runs_one h cmd m \<Longrightarrow> run_state m tr = (r, tr1) \<Longrightarrow> tr1 = tr @ [Ran cmd] \<and> (isl r \<longleftrightarrow> \<not> cmd_ok h tr cmd)"
  by (metis runs_one_def fst_conv snd_conv)

lemma runs_one_wrapped:
  assumes "runs_one h cmd m"
  shows "runs_one h cmd (with_context c m)" "runs_one h cmd (discard m)"
  by (rule runs_oneI; auto simp: act_runs split: prod.splits sum.splits dest: runs_oneD [OF assms])+

lemma runs_sudo_checked: "runs_one h (''sudo'' # args) (sudo_checked h args)"
  by (auto simp: runs_one_def sudo_checked_def sudo_def act_runs cmd_ok_def split: sum.splits)

lemma runs_exec_checked: "runs_one h (in_ns ns (cmd # args)) (exec_checked h ns cmd args)"
  unfolding exec_checked_def using runs_sudo_checked [of h "[''ip'', ''netns'', ''exec'', ns_name ns, cmd] @ args"]
  by (intro runs_one_wrapped) simp

lemma runs_tc_checked: "runs_one h (in_ns ns (''tc'' # args)) (tc_checked h ns args ctx)"
  by (auto simp: runs_one_def tc_checked_def exec_def sudo_def act_runs cmd_ok_def split: sum.splits)

text \<open>A sequence of checked commands runs the commands up to the first that fails.\<close>

fun run_until_failure :: "Host \<Rightarrow> trace \<Rightarrow> command list \<Rightarrow> command list \<times> bool" where
  "run_until_failure h tr [] = ([], True)"
| "run_until_failure h tr (cmd # cmds) =
     (if cmd_ok h tr cmd then (case run_until_failure h (tr @ [Ran cmd]) cmds of (done, all_ok) \<Rightarrow> (cmd # done, all_ok))
      else ([cmd], False))"

lemma run_in_order:
  assumes "list_all2 (runs_one h) cmds ms"
  shows "snd (run_state (in_order ms) tr) = tr @ map Ran (fst (run_until_failure h tr cmds)) \<and>
    (isl (fst (run_state (in_order ms) tr)) \<longleftrightarrow> \<not> snd (run_until_failure h tr cmds))"
  using assms
proof (induction arbitrary: tr rule: list_all2_induct)
  case (Cons cmd cmds m ms)
  obtain r tr1 where m: "run_state m tr = (r, tr1)" by fastforce
  then have "tr1 = tr @ [Ran cmd]" "isl r \<longleftrightarrow> \<not> cmd_ok h tr cmd"
    using runs_oneD [OF Cons(1)] by auto
  then show ?case using Cons(3) [of "tr @ [Ran cmd]"] m by (cases r) (auto simp: act_runs split: prod.splits)
qed simp

section \<open>Impairing an interface\<close>

lemma netem_args_none: "netem_args show_f32 False c = [] \<longleftrightarrow> \<not> has_netem_params c" "netem_args show_f32 True c = [] \<longleftrightarrow> im_is_empty c"
  by (auto simp: netem_args_def has_netem_params_def im_is_empty_def split: option.splits)

lemma show_nat_nonempty [simp]: "show_nat n \<noteq> []"
  by (subst show_nat.simps) simp

lemma netem_args_last: "netem_args show_f32 b c \<noteq> [] \<Longrightarrow> last (netem_args show_f32 b c) \<noteq> ''netem''"
  by (auto simp: netem_args_def show_percent_def split: option.splits if_splits dest!: arg_cong [of _ _ last])

text \<open>The \<^verbatim>\<open>tc\<close> commands an impairment needs after the old one is cleared.\<close>

definition qdisc_plan :: "(f32 \<Rightarrow> string) \<Rightarrow> string \<Rightarrow> ImpairmentConfig \<Rightarrow> string list list" where
  "qdisc_plan show_f32 iface c =
     (if im_is_empty c then []
      else if im_tbf_shaping c then
        (case im_rate_kbit c of
           None \<Rightarrow> []
         | Some rate \<Rightarrow>
             [''qdisc'', ''add'', ''dev'', iface, ''root'', ''handle'', ''1:'', ''tbf'', ''rate'', show_nat rate @ ''kbit'',
              ''burst'', show_nat (tbf_burst rate), ''latency'', ''1s''] #
             (if has_netem_params c
              then [[''qdisc'', ''add'', ''dev'', iface, ''parent'', ''1:1'', ''handle'', ''10:'', ''netem''] @ netem_args show_f32 False c]
              else []))
      else [[''qdisc'', ''add'', ''dev'', iface, ''root'', ''netem''] @ netem_args show_f32 True c])"

lemma run_two:
  assumes "runs_one h c1 (m1 :: unit act)" "runs_one h c2 m2"
  shows "snd (run_state (ok_or_return m1 (\<lambda>_. m2)) tr) = tr @ map Ran (fst (run_until_failure h tr [c1, c2])) \<and>
    (isl (fst (run_state (ok_or_return m1 (\<lambda>_. m2)) tr)) \<longleftrightarrow> \<not> snd (run_until_failure h tr [c1, c2]))"
proof -
  obtain r tr1 where 1: "run_state m1 tr = (r, tr1)" by fastforce
  obtain q tr2 where 2: "run_state m2 tr1 = (q, tr2)" by fastforce
  show ?thesis using runs_oneD [OF assms(1) 1] runs_oneD [OF assms(2) 2] 1 2 by (cases r) (auto simp: act_runs)
qed

text \<open>
  Impairing an interface first clears what was there and then runs the commands of the plan up to the first that fails; it
  answers with an error exactly if one fails or if shaping is asked for without a rate. No \<^verbatim>\<open>netem\<close> is ever added without a
  parameter, and the bucket of a shaper always holds a full packet.
\<close>

theorem impairment_applied:
  "snd (run_state (apply_impairment h show_f32 ns iface c) tr) =
     (let tr1 = tr @ [Ran (in_ns ns [''tc'', ''qdisc'', ''del'', ''dev'', iface, ''root''])]
      in tr1 @ map Ran (fst (run_until_failure h tr1 (map (\<lambda>args. in_ns ns (''tc'' # args)) (qdisc_plan show_f32 iface c))))) \<and>
   (isl (fst (run_state (apply_impairment h show_f32 ns iface c) tr)) \<longleftrightarrow>
      \<not> snd (run_until_failure h (tr @ [Ran (in_ns ns [''tc'', ''qdisc'', ''del'', ''dev'', iface, ''root''])])
             (map (\<lambda>args. in_ns ns (''tc'' # args)) (qdisc_plan show_f32 iface c))) \<or>
      im_tbf_shaping c \<and> \<not> im_is_empty c \<and> im_rate_kbit c = None) \<and>
   list_all (\<lambda>args. last args \<noteq> ''netem'') (qdisc_plan show_f32 iface c) \<and> 1540 \<le> tbf_burst rate"
proof -
  let ?clear = "in_ns ns [''tc'', ''qdisc'', ''del'', ''dev'', iface, ''root'']"
  have clear: "snd (run_state (exec h ns ''tc'' [''qdisc'', ''del'', ''dev'', iface, ''root'']) tr) = tr @ [Ran ?clear]"
    by (simp add: exec_def sudo_def act_runs split: prod.splits sum.splits)
  have one: "runs_one h (in_ns ns (''tc'' # args)) (tc_checked h ns args ctx)" for args ctx by (rule runs_tc_checked)
  have single: "snd (run_state m u) = u @ map Ran (fst (run_until_failure h u [cmd])) \<and>
      (isl (fst (run_state m u)) \<longleftrightarrow> \<not> snd (run_until_failure h u [cmd]))" if "runs_one h cmd m" for m :: "unit act" and cmd u
    using runs_oneD [OF that] by (cases "run_state m u") auto
  let ?inner = "if im_is_empty c then State_Monad.return (Inr ()) else if im_tbf_shaping c then apply_tbf_with_netem h show_f32 ns iface c
    else apply_netem_root h show_f32 ns iface c"
  let ?cmds = "map (\<lambda>args. in_ns ns (''tc'' # args)) (qdisc_plan show_f32 iface c)"
  have inner: "snd (run_state ?inner u) = u @ map Ran (fst (run_until_failure h u ?cmds)) \<and>
      (isl (fst (run_state ?inner u)) \<longleftrightarrow> \<not> snd (run_until_failure h u ?cmds) \<or> im_tbf_shaping c \<and> \<not> im_is_empty c \<and> im_rate_kbit c = None)" for u
  proof (cases "im_is_empty c \<or> \<not> im_tbf_shaping c")
    case True
    then show ?thesis using single [OF one] by (auto simp: qdisc_plan_def apply_netem_root_def)
  next
    case False
    show ?thesis
    proof (cases "im_rate_kbit c")
      case None
      then show ?thesis using False by (simp add: qdisc_plan_def apply_tbf_with_netem_def)
    next
      case (Some rate)
      have "run_state (ok_or_return m (\<lambda>_. State_Monad.return (Inr ()))) v = run_state m v" for m :: "unit act" and v
        by (auto simp: act_runs split: prod.splits sum.splits)
      then show ?thesis
        using False Some run_two [OF one one] single [OF one]
        by (cases "has_netem_params c") (simp_all add: qdisc_plan_def apply_tbf_with_netem_def del: run_until_failure.simps)
    qed
  qed
  have "list_all (\<lambda>args. last args \<noteq> ''netem'') (qdisc_plan show_f32 iface c)"
    using netem_args_none netem_args_last [of show_f32 _ c] by (simp add: qdisc_plan_def split: option.split)
  moreover have "1540 \<le> tbf_burst rate" by (simp add: tbf_burst_def)
  moreover have "run_state (apply_impairment h show_f32 ns iface c) tr = run_state ?inner (tr @ [Ran ?clear])"
    unfolding apply_impairment_def run_acts(1,2) clear by simp
  ultimately show ?thesis using inner unfolding Let_def by metis
qed

section \<open>Names are unique\<close>

lemma show_nat_length: "n < 10 ^ Suc k \<Longrightarrow> length (show_nat n) \<le> Suc k"
proof (induction k arbitrary: n)
  case (Suc k)
  have "n div 10 < 10 ^ Suc k" using Suc.prems by (simp add: div_less_iff_less_mult)
  then show ?case using Suc.IH [of "n div 10"] by (subst show_nat.simps) simp
qed (simp add: show_nat.simps)

lemma show_hex_length: "n < 16 ^ Suc k \<Longrightarrow> length (show_hex n) \<le> Suc k"
proof (induction k arbitrary: n)
  case (Suc k)
  have "n div 16 < 16 ^ Suc k" using Suc.prems by (simp add: div_less_iff_less_mult)
  then show ?case using Suc.IH [of "n div 16"] by (subst show_hex.simps) (simp add: Let_def)
qed (simp add: show_hex.simps Let_def)

lemma show_nat_digits: "list_all is_digit (show_nat n)"
proof (induction n rule: show_nat.induct)
  case (1 n)
  have "is_digit (char_of (48 + k))" if "k < 10" for k :: nat using digit_char [OF that] that by (simp add: is_digit_def Let_def)
  then show ?case using 1 by (subst show_nat.simps) auto
qed

lemma not_digit: "\<not> is_digit CHR ''_''" "\<not> is_digit CHR ''.''" "\<not> is_digit CHR 0x0A"
  by (simp_all add: is_digit_def)

lemma split_at_digits:
  assumes "xs @ d # show_nat m = ys @ d # show_nat n" "\<not> is_digit d"
  shows "xs = ys \<and> m = n"
proof -
  have t: "takeWhile is_digit (rev (zs @ d # show_nat k)) = rev (show_nat k)" for zs k
    using assms(2) show_nat_digits [of k] takeWhile_append2 [of "rev (show_nat k)" is_digit "d # rev zs"] by (simp add: list_all_iff)
  have "rev (show_nat m) = rev (show_nat n)" using arg_cong [OF assms(1), of "\<lambda>zs. takeWhile is_digit (rev zs)"] unfolding t .
  then show ?thesis using assms(1) by simp
qed

text \<open>
  Names taken one after the other in a process differ, whatever their prefixes, and fit the limit of fifteen characters as long as
  fewer than \<open>10 ^ 9\<close> have been taken.
\<close>

theorem ns_names_unique:
  "(fst (unique_ns_name process_id prefix1 m) = fst (unique_ns_name process_id prefix2 n) \<longrightarrow> m = n) \<and>
   (n < 10 ^ 9 \<longrightarrow> length (fst (unique_ns_name process_id prefix2 n)) \<le> 15)"
proof (intro conjI impI)
  let ?p = "process_id mod 0xffff"
  have name: "fst (unique_ns_name process_id prefix k) =
      (take (min (length prefix) (15 - length (''_'' @ show_hex ?p @ ''_'' @ show_nat k))) prefix @ ''_'' @ show_hex ?p) @ CHR ''_'' # show_nat k"
    for prefix k by (simp add: unique_ns_name_def Let_def)
  show "m = n" if "fst (unique_ns_name process_id prefix1 m) = fst (unique_ns_name process_id prefix2 n)"
    using split_at_digits [OF that [unfolded name] not_digit(1)] by blast
  show "length (fst (unique_ns_name process_id prefix2 n)) \<le> 15" if "n < 10 ^ 9"
  proof -
    have "length (show_hex ?p) \<le> Suc 3" by (rule show_hex_length) simp
    moreover have "length (show_nat n) \<le> Suc 8" using that by (intro show_nat_length) simp
    ultimately show ?thesis by (simp add: name)
  qed
qed

end
