(* ===== verification/Sim_Harness.thy ===== *)
theory Sim_Harness
  imports Sim_Network
begin

text \<open>
  The end-to-end harness of the simulator (\<^verbatim>\<open>crates/network-sim/src/harness.rs\<close>): what the tests need of the machine, processes in
  namespaces and their teardown, the topology of one bond (a veth pair per uplink, per-source routes to one receiver
  address), waiting for listeners. A loop that polls takes the number of polls it may make; the properties show how many are enough
  when the clock keeps up with the sleeps.
\<close>

section \<open>What the tests need\<close>

definition check_binary :: "Host \<Rightarrow> string \<Rightarrow> (trace, string option) state" where
  "check_binary h name = do {
     r \<leftarrow> cmd_output h [''sh'', ''-c'', ''command -v '' @ name];
     State_Monad.return (case r of Inr out \<Rightarrow> if out_success out then Some (trim (out_stdout out)) else None | Inl _ \<Rightarrow> None)
   }"

datatype SkipReason = NotRoot | MissingBinary string | MissingTool string | NoNetem

fun SkipReason_display :: "SkipReason \<Rightarrow> string" where
  "SkipReason_display NotRoot = ''requires root / passwordless sudo''"
| "SkipReason_display (MissingBinary b) = b @ '' not found in PATH''"
| "SkipReason_display (MissingTool t) = ''system tool '' @ in_quotes t @ '' not found''"
| "SkipReason_display NoNetem = ''sch_netem kernel module not available (try: sudo modprobe sch_netem)''"

fun require_binaries :: "Host \<Rightarrow> (string \<Rightarrow> SkipReason) \<Rightarrow> string list \<Rightarrow> (trace, SkipReason option) state" where
  "require_binaries h reason [] = State_Monad.return None"
| "require_binaries h reason (bin # bins) = do {
     found \<leftarrow> check_binary h bin;
     if found = None then State_Monad.return (Some (reason bin)) else require_binaries h reason bins
   }"

text \<open>The reason to skip, if there is one.\<close>

definition check_integration_deps :: "Host \<Rightarrow> (trace, SkipReason option) state" where
  "check_integration_deps h = do {
     privileged \<leftarrow> check_privileges h;
     if \<not> privileged then State_Monad.return (Some NotRoot)
     else do {
       r \<leftarrow> require_binaries h MissingBinary [''srtla_rec'', ''srt-live-transmit''];
       if r \<noteq> None then State_Monad.return r else require_binaries h MissingTool [''ip'', ''tc'', ''ss'']
     }
   }"

definition check_adaptive_sender_deps :: "Host \<Rightarrow> (trace, SkipReason option) state" where
  "check_adaptive_sender_deps h = do {
     cc \<leftarrow> check_binary h ''cc'';
     if cc = None then State_Monad.return (Some (MissingTool ''cc''))
     else do {
       srt_dev \<leftarrow> succeeds h [''pkg-config'', ''--exists'', ''srt''];
       State_Monad.return (if \<not> srt_dev then Some (MissingBinary ''libsrt dev (pkg-config srt)'') else None)
     }
   }"

definition check_impairment_deps :: "Host \<Rightarrow> (trace, SkipReason option) state" where
  "check_impairment_deps h = do {
     r \<leftarrow> check_integration_deps h;
     if r \<noteq> None then State_Monad.return r
     else do {
       modprobe_ok \<leftarrow> succeeds h [''sudo'', ''modprobe'', ''sch_netem''];
       State_Monad.return (if \<not> modprobe_ok then Some NoNetem else None)
     }
   }"

definition find_srtla_send_binary :: "Host \<Rightarrow> (string \<Rightarrow> bool) \<Rightarrow> string \<Rightarrow> string act" where
  "find_srtla_send_binary h path_exists workspace =
     (let candidates = [workspace @ ''/target/debug/srtla_send'', workspace @ ''/target/release/srtla_send''] in
      case find path_exists candidates of
        Some path \<Rightarrow> State_Monad.return (Inr path)
      | None \<Rightarrow> do {
          r \<leftarrow> check_binary h ''srtla_send'';
          State_Monad.return
            (case r of
               Some path \<Rightarrow> Inr path
             | None \<Rightarrow> Inl [''srtla_send binary not found. Run `cargo build` first. Checked: ['' @ join '', '' (map (\<lambda>c. CHR 0x22 # c @ [CHR 0x22]) candidates) @ '']''])
        })"

section \<open>Processes in a namespace\<close>

record NamespaceProcess =
  np_child :: nat
  np_label :: string
  np_scope :: string
  np_reaped :: bool

abbreviation millis :: "nat \<Rightarrow> Duration" where
  "millis n \<equiv> n * 1000000"

definition spawn_with_env :: "Host \<Rightarrow> Namespace \<Rightarrow> string \<Rightarrow> string list \<Rightarrow> (string \<times> string) list \<Rightarrow> NamespaceProcess act" where
  "spawn_with_env h ns binary args env = do {
     let label = binary @ '' in ns:'' @ ns_name ns;
     let cmd = [''sudo'', ''ip'', ''netns'', ''exec'', ns_name ns] @
       (if env = [] then [] else ''env'' # map (\<lambda>(k, v). k @ ''='' @ v) env) @ [binary] @ args;
     log \<leftarrow> State_Monad.get;
     State_Monad.set (log @ [Spawned cmd]);
     State_Monad.return
       (case h_spawn h log cmd of
          Inl e \<Rightarrow> Inl [''spawn '' @ label, e]
        | Inr child \<Rightarrow> Inr \<lparr> np_child = child, np_label = label, np_scope = ns_name ns, np_reaped = False \<rparr>)
   }"

definition spawn :: "Host \<Rightarrow> Namespace \<Rightarrow> string \<Rightarrow> string list \<Rightarrow> NamespaceProcess act" where
  "spawn h ns binary args = spawn_with_env h ns binary args []"

definition is_alive :: "Host \<Rightarrow> NamespaceProcess \<Rightarrow> (trace, bool) state" where
  "is_alive h p = do { log \<leftarrow> State_Monad.get; State_Monad.return (h_exited h log (np_child p) = None) }"

definition parse_u32 :: "string \<Rightarrow> nat option" where
  "parse_u32 s = (case parse_u64 s of Some n \<Rightarrow> if n < 2 ^ 32 then Some n else None | None \<Rightarrow> None)"

definition scope_pids :: "Host \<Rightarrow> NamespaceProcess \<Rightarrow> (trace, nat list) state" where
  "scope_pids h p = do {
     r \<leftarrow> cmd_output h [''sudo'', ''-n'', ''ip'', ''netns'', ''pids'', np_scope p];
     State_Monad.return
       (case r of
          Inl _ \<Rightarrow> []
        | Inr out \<Rightarrow> if \<not> out_success out then [] else List.map_filter parse_u32 (split_whitespace (out_stdout out)))
   }"

definition signal_scope :: "Host \<Rightarrow> NamespaceProcess \<Rightarrow> string \<Rightarrow> (trace, unit) state" where
  "signal_scope h p signal = do {
     pids \<leftarrow> scope_pids h p;
     if pids = [] then State_Monad.return ()
     else do {
       r \<leftarrow> cmd_output h ([''sudo'', ''-n'', ''kill'', signal, ''--''] @ map show_nat pids);
       State_Monad.return ()
     }
   }"

definition try_wait :: "Host \<Rightarrow> trace \<Rightarrow> NamespaceProcess \<Rightarrow> NamespaceProcess" where
  "try_wait h tr p = (if h_exited h tr (np_child p) \<noteq> None then p\<lparr> np_reaped := True \<rparr> else p)"

text \<open>None: the polls have run out.\<close>

fun wait_stopped_loop :: "Host \<Rightarrow> Duration \<Rightarrow> nat \<Rightarrow> NamespaceProcess \<Rightarrow> (trace, (bool \<times> NamespaceProcess) option) state" where
  "wait_stopped_loop h deadline 0 p = State_Monad.return None"
| "wait_stopped_loop h deadline (Suc polls) p = do {
     log \<leftarrow> State_Monad.get;
     let p1 = try_wait h log p;
     pids \<leftarrow> (if np_reaped p1 then do { pids \<leftarrow> scope_pids h p1; State_Monad.return (Some pids) } else State_Monad.return None);
     if pids = Some [] then State_Monad.return (Some (True, p1))
     else do {
       log1 \<leftarrow> State_Monad.get;
       if h_clock h log1 \<ge> deadline then State_Monad.return (Some (False, p1))
       else do { _ \<leftarrow> sleep (millis 100); wait_stopped_loop h deadline polls p1 }
     }
   }"

definition wait_until_stopped :: "Host \<Rightarrow> Duration \<Rightarrow> nat \<Rightarrow> NamespaceProcess \<Rightarrow> (trace, (bool \<times> NamespaceProcess) option) state" where
  "wait_until_stopped h timeout polls p = do {
     log \<leftarrow> State_Monad.get;
     wait_stopped_loop h (h_clock h log + timeout) polls p
   }"

definition kill_now :: "Host \<Rightarrow> nat \<Rightarrow> NamespaceProcess \<Rightarrow> (trace, NamespaceProcess option) state" where
  "kill_now h polls p = do {
     _ \<leftarrow> signal_scope h p ''-TERM'';
     w1 \<leftarrow> wait_until_stopped h (2 * NANOS_PER_SEC) polls p;
     (case w1 of
        None \<Rightarrow> State_Monad.return None
      | Some (True, p1) \<Rightarrow> State_Monad.return (Some p1)
      | Some (False, p1) \<Rightarrow> do {
          _ \<leftarrow> signal_scope h p1 ''-KILL'';
          log \<leftarrow> State_Monad.get;
          State_Monad.set (log @ [Killed (np_child p1)]);
          w2 \<leftarrow> wait_until_stopped h (2 * NANOS_PER_SEC) polls p1;
          State_Monad.return (map_option snd w2)
        })
   }"

definition kill :: "Host \<Rightarrow> nat \<Rightarrow> NamespaceProcess \<Rightarrow> (trace, NamespaceProcess option) state" where
  "kill h polls p =
     (if np_reaped p then do {
        pids \<leftarrow> scope_pids h p;
        if pids = [] then State_Monad.return (Some p) else kill_now h polls p
      }
      else kill_now h polls p)"

section \<open>The topology\<close>

definition SRTLA_RECEIVER_SERVICE_IP :: string where "SRTLA_RECEIVER_SERVICE_IP = ''10.99.0.1''"

record SrtlaTestTopology =
  tp_sender_ns :: Namespace
  tp_receiver_ns :: Namespace
  tp_sender_ips :: "string list"
  tp_receiver_ip :: string
  tp_sender_ifaces :: "string list"
  tp_receiver_ifaces :: "string list"

definition disable_rp_filter :: "Host \<Rightarrow> Namespace \<Rightarrow> string list \<Rightarrow> unit act" where
  "disable_rp_filter h ns ifaces =
     in_order (map (\<lambda>key. ignored (exec h ns ''sysctl'' [''-w'', ''net.ipv4.conf.'' @ key @ ''.rp_filter=0'']))
       ([''all'', ''default''] @ ifaces))"

definition link_ip :: "nat \<Rightarrow> string \<Rightarrow> string" where
  "link_ip i host = ''10.10.'' @ show_nat (i + 1) @ ''.'' @ host"

definition wire_uplink :: "Host \<Rightarrow> SrtlaTestTopology \<Rightarrow> nat \<Rightarrow> string \<Rightarrow> string \<Rightarrow> string \<Rightarrow> unit act" where
  "wire_uplink h topo i s_ip s_iface r_iface =
     in_order
       [with_context ''sender per-uplink route''
          (exec_checked h (tp_sender_ns topo) ''ip''
             [''route'', ''add'', SRTLA_RECEIVER_SERVICE_IP @ ''/32'', ''via'', link_ip i ''2'', ''dev'', s_iface,
              ''table'', show_nat (i + 1)]),
        with_context ''sender per-uplink rule''
          (exec_checked h (tp_sender_ns topo) ''ip'' [''rule'', ''add'', ''from'', s_ip, ''lookup'', show_nat (i + 1)]),
        with_context ''receiver return route''
          (exec_checked h (tp_receiver_ns topo) ''ip''
             [''route'', ''add'', s_ip @ ''/32'', ''dev'', r_iface, ''src'', SRTLA_RECEIVER_SERVICE_IP])]"

definition wire_bonding_routes :: "Host \<Rightarrow> SrtlaTestTopology \<Rightarrow> unit act" where
  "wire_bonding_routes h topo =
     in_order
       ([disable_rp_filter h (tp_sender_ns topo) (tp_sender_ifaces topo),
         disable_rp_filter h (tp_receiver_ns topo) (tp_receiver_ifaces topo),
         discard (with_context ''add receiver service IP''
           (exec_checked h (tp_receiver_ns topo) ''ip'' [''addr'', ''add'', SRTLA_RECEIVER_SERVICE_IP @ ''/32'', ''dev'', ''lo'']))] @
        map (\<lambda>(i, s_ip, s_iface). wire_uplink h topo i s_ip s_iface (tp_receiver_ifaces topo ! i))
          (enumerate 0 (zip (tp_sender_ips topo) (tp_sender_ifaces topo))))"

definition link_iface :: "string \<Rightarrow> nat \<Rightarrow> nat \<Rightarrow> string" where
  "link_iface kind pid i = take 15 (kind @ show_hex pid @ ''_'' @ show_nat i)"

definition add_uplink :: "Host \<Rightarrow> Namespace \<Rightarrow> Namespace \<Rightarrow> nat \<Rightarrow> nat \<Rightarrow> unit act" where
  "add_uplink h sender_ns receiver_ns pid i =
     add_veth_link h sender_ns receiver_ns (link_iface ''vs'' pid i) (link_iface ''vr'' pid i)
       (link_ip i ''1'' @ ''/24'') (link_ip i ''2'' @ ''/24'')"

text \<open>What goes out of scope on an error is dropped: locals in reverse order, then the fields of the topology in their order.\<close>

definition or_drop :: "Host \<Rightarrow> Namespace list \<Rightarrow> 'a act \<Rightarrow> 'a act" where
  "or_drop h nss m = do {
     r \<leftarrow> m;
     (case r of
        Inr x \<Rightarrow> State_Monad.return (Inr x)
      | Inl e \<Rightarrow> do { _ \<leftarrow> in_order (map (Namespace_drop h) nss); State_Monad.return (Inl e) })
   }"

definition build_topology :: "Host \<Rightarrow> nat \<Rightarrow> nat \<Rightarrow> Namespace \<Rightarrow> Namespace \<Rightarrow> SrtlaTestTopology act" where
  "build_topology h process_id num_links sender_ns receiver_ns =
     (let pid = process_id mod 0xffff;
          topo = \<lparr> tp_sender_ns = sender_ns, tp_receiver_ns = receiver_ns,
                   tp_sender_ips = map (\<lambda>i. link_ip i ''1'') [0..<num_links], tp_receiver_ip = SRTLA_RECEIVER_SERVICE_IP,
                   tp_sender_ifaces = map (link_iface ''vs'' pid) [0..<num_links],
                   tp_receiver_ifaces = map (link_iface ''vr'' pid) [0..<num_links] \<rparr>
      in ok_or_return (or_drop h [receiver_ns, sender_ns] (in_order (map (add_uplink h sender_ns receiver_ns pid) [0..<num_links]))) (\<lambda>_.
         ok_or_return (or_drop h [sender_ns, receiver_ns] (wire_bonding_routes h topo)) (\<lambda>_.
         State_Monad.return (Inr topo))))"

text \<open>The result and the counter of names after it. A topology without links panics: None.\<close>

definition SrtlaTestTopology_new ::
  "Host \<Rightarrow> nat \<Rightarrow> nat \<Rightarrow> string \<Rightarrow> nat \<Rightarrow> (trace, ((anyhow + SrtlaTestTopology) \<times> nat) option) state" where
  "SrtlaTestTopology_new h process_id ns_counter test_name num_links =
     (if num_links = 0 then State_Monad.return None
      else
        let (sender_name, c1) = unique_ns_name process_id (test_name @ ''_s'') ns_counter;
            (receiver_name, c2) = unique_ns_name process_id (test_name @ ''_r'') c1
        in do {
          sender \<leftarrow> Namespace_new h sender_name;
          (case sender of
             Inl e \<Rightarrow> State_Monad.return (Some (Inl e, c1))
           | Inr sender_ns \<Rightarrow> do {
               r \<leftarrow> ok_or_return (or_drop h [sender_ns] (Namespace_new h receiver_name))
                      (\<lambda>receiver_ns. build_topology h process_id num_links sender_ns receiver_ns);
               State_Monad.return (Some (r, c2))
             })
        })"

definition SrtlaTestTopology_drop :: "Host \<Rightarrow> SrtlaTestTopology \<Rightarrow> unit act" where
  "SrtlaTestTopology_drop h topo = in_order (map (Namespace_drop h) [tp_sender_ns topo, tp_receiver_ns topo])"

definition impair_link :: "Host \<Rightarrow> (f32 \<Rightarrow> string) \<Rightarrow> SrtlaTestTopology \<Rightarrow> nat \<Rightarrow> ImpairmentConfig \<Rightarrow> unit act" where
  "impair_link h show_f32 topo idx config =
     (if idx < length (tp_sender_ifaces topo)
      then apply_impairment h show_f32 (tp_sender_ns topo) (tp_sender_ifaces topo ! idx) config
      else State_Monad.return (Inl [''link index '' @ show_nat idx @ '' out of range'']))"

text \<open>The text of the address file.\<close>

definition ip_list_text :: "SrtlaTestTopology \<Rightarrow> string" where
  "ip_list_text topo = join newline (tp_sender_ips topo) @ newline"

definition write_ip_list :: "Host \<Rightarrow> SrtlaTestTopology \<Rightarrow> string act" where
  "write_ip_list h topo = do {
     log \<leftarrow> State_Monad.get;
     (case h_tempdir h log of
        Inl e \<Rightarrow> State_Monad.return (Inl [''create temp dir for IP list'', e])
      | Inr dir \<Rightarrow>
          let path = dir @ ''/srtla_ips.txt'' in
          ok_or_return (with_context ''write IP list'' (write_file h path (ip_list_text topo))) (\<lambda>_. State_Monad.return (Inr path)))
   }"

section \<open>Waiting\<close>

definition str_contains :: "string \<Rightarrow> string \<Rightarrow> bool" where
  "str_contains pat s \<longleftrightarrow> list_ex (\<lambda>i. take (length pat) (drop i s) = pat) [0..<Suc (length s)]"

fun poll_until ::
  "Host \<Rightarrow> Namespace \<Rightarrow> string list \<Rightarrow> (string \<Rightarrow> bool) \<Rightarrow> (string \<Rightarrow> anyhow) \<Rightarrow> Duration \<Rightarrow> Duration \<Rightarrow> nat \<Rightarrow>
   (trace, (anyhow + unit) option) state" where
  "poll_until h ns args seen failure start timeout 0 = State_Monad.return None"
| "poll_until h ns args seen failure start timeout (Suc polls) = do {
     r \<leftarrow> exec h ns ''ss'' args;
     (case r of
        Inl e \<Rightarrow> State_Monad.return (Some (Inl e))
      | Inr out \<Rightarrow>
          if seen (out_stdout out) then State_Monad.return (Some (Inr ()))
          else do {
            log \<leftarrow> State_Monad.get;
            if h_clock h log - start > timeout then State_Monad.return (Some (Inl (failure (out_stdout out))))
            else do { _ \<leftarrow> sleep (millis 200); poll_until h ns args seen failure start timeout polls }
          })
   }"

definition listener_seen :: "nat \<Rightarrow> string \<Rightarrow> bool" where
  "listener_seen port stdout \<longleftrightarrow> list_ex (str_contains ('':'' @ show_nat port)) (str_lines stdout)"

definition wait_for_udp_listener :: "Host \<Rightarrow> nat \<Rightarrow> Namespace \<Rightarrow> nat \<Rightarrow> Duration \<Rightarrow> (trace, (anyhow + unit) option) state" where
  "wait_for_udp_listener h polls ns port timeout = do {
     log \<leftarrow> State_Monad.get;
     poll_until h ns [''-uln''] (listener_seen port)
       (\<lambda>last_ss_output. [''timeout waiting for UDP listener on port '' @ show_nat port @ '' in ns '' @ ns_name ns @ newline @
          ''last ss -uln output:'' @ newline @ last_ss_output])
       (h_clock h log) timeout polls
   }"

definition connected_count :: "string \<Rightarrow> string \<Rightarrow> nat" where
  "connected_count peer stdout = length (filter (str_contains peer) (str_lines stdout))"

definition wait_for_connected_uplinks ::
  "Host \<Rightarrow> nat \<Rightarrow> Namespace \<Rightarrow> string \<Rightarrow> nat \<Rightarrow> nat \<Rightarrow> Duration \<Rightarrow> (trace, (anyhow + unit) option) state" where
  "wait_for_connected_uplinks h polls ns peer_ip peer_port min_count timeout = do {
     log \<leftarrow> State_Monad.get;
     let peer = peer_ip @ '':'' @ show_nat peer_port;
     poll_until h ns [''-uan''] (\<lambda>stdout. connected_count peer stdout \<ge> min_count)
       (\<lambda>last_ss_output. [''timeout waiting for '' @ show_nat min_count @ '' connected uplink(s) to '' @ peer @ '' in ns '' @ ns_name ns @
          '' (saw '' @ show_nat (connected_count peer last_ss_output) @ '')'' @ newline @
          ''last ss -uan output:'' @ newline @ last_ss_output])
       (h_clock h log) timeout polls
   }"

section \<open>Teardown is bounded\<close>

text \<open>The clock never goes back and a sleep takes at least its time.\<close>

definition clock_ok :: "Host \<Rightarrow> bool" where
  "clock_ok h \<longleftrightarrow> (\<forall>tr e. h_clock h tr + (case e of Slept d \<Rightarrow> d | _ \<Rightarrow> 0) \<le> h_clock h (tr @ [e]))"

definition slept :: "trace \<Rightarrow> Duration" where
  "slept tr = sum_list (map (\<lambda>e. case e of Slept d \<Rightarrow> d | _ \<Rightarrow> 0) tr)"

lemma slept_simps [simp]: "slept (tr @ tr') = slept tr + slept tr'" "slept [Ran cmd] = 0" "slept [Killed k] = 0" "slept [Slept d] = d"
  by (simp_all add: slept_def)

lemma clock_mono: "clock_ok h \<Longrightarrow> h_clock h tr \<le> h_clock h (tr @ [e])"
  unfolding clock_ok_def by (meson add_leD1)

lemma clock_sleep: "clock_ok h \<Longrightarrow> h_clock h tr + d \<le> h_clock h (tr @ [Slept d])"
  unfolding clock_ok_def by (drule spec [of _ tr], drule spec [of _ "Slept d"]) simp

text \<open>The processes of a namespace, as far as they can be asked for.\<close>

abbreviation pids_command :: "string \<Rightarrow> command" where
  "pids_command scope \<equiv> [''sudo'', ''-n'', ''ip'', ''netns'', ''pids'', scope]"

definition pids_in :: "Host \<Rightarrow> string \<Rightarrow> trace \<Rightarrow> nat list" where
  "pids_in h scope tr =
     (case h_run h tr (pids_command scope) of
        Inl _ \<Rightarrow> []
      | Inr out \<Rightarrow> if \<not> out_success out then [] else List.map_filter parse_u32 (split_whitespace (out_stdout out)))"

lemma run_scope_pids: "run_state (scope_pids h p) tr = (pids_in h (np_scope p) tr, tr @ [Ran (pids_command (np_scope p))])"
  by (simp add: scope_pids_def pids_in_def act_runs split: sum.split)

text \<open>One pass of the wait: the child, then, once it has exited, the processes of its namespace, then the clock.\<close>

definition asked :: "NamespaceProcess \<Rightarrow> trace \<Rightarrow> trace" where
  "asked p tr = (if np_reaped p then tr @ [Ran (pids_command (np_scope p))] else tr)"

lemma wait_loop_step:
  "run_state (wait_stopped_loop h deadline (Suc polls) p) tr =
     (let p1 = try_wait h tr p; tr1 = asked p1 tr in
      if np_reaped p1 \<and> pids_in h (np_scope p1) tr = [] then (Some (True, p1), tr1)
      else if deadline \<le> h_clock h tr1 then (Some (False, p1), tr1)
      else run_state (wait_stopped_loop h deadline polls p1) (tr1 @ [Slept (millis 100)]))"
  by (cases "np_reaped (try_wait h tr p)") (simp_all add: Let_def act_runs run_scope_pids asked_def)

lemma wait_loop_pass:
  assumes "clock_ok h"
  obtains b p1 tr1 where "run_state (wait_stopped_loop h deadline (Suc polls) p) tr =
      (if b then (Some (True, p1), tr1) else if deadline \<le> h_clock h tr1 then (Some (False, p1), tr1)
       else run_state (wait_stopped_loop h deadline polls p1) (tr1 @ [Slept (millis 100)]))"
    "b \<longrightarrow> np_reaped p1" "slept tr1 = slept tr" "h_clock h tr \<le> h_clock h tr1"
  by (rule that [OF wait_loop_step [unfolded Let_def]]) (simp_all add: asked_def clock_mono [OF assms])

lemma wait_loop_returns:
  assumes "clock_ok h"
  shows "deadline \<le> h_clock h tr + millis 100 * polls \<Longrightarrow>
    \<exists>b p' tr'. run_state (wait_stopped_loop h deadline (Suc polls) p) tr = (Some (b, p'), tr') \<and>
      slept tr' \<le> slept tr + millis 100 * polls \<and> (b \<longrightarrow> np_reaped p')"
proof (induction polls arbitrary: tr p)
  case 0
  show ?case by (rule wait_loop_pass [OF assms, of deadline 0 p tr]) (use 0 in \<open>auto simp del: wait_stopped_loop.simps\<close>)
next
  case (Suc polls)
  obtain b p1 tr1 where st: "run_state (wait_stopped_loop h deadline (Suc (Suc polls)) p) tr =
      (if b then (Some (True, p1), tr1) else if deadline \<le> h_clock h tr1 then (Some (False, p1), tr1)
       else run_state (wait_stopped_loop h deadline (Suc polls) p1) (tr1 @ [Slept (millis 100)]))"
    "b \<longrightarrow> np_reaped p1" "slept tr1 = slept tr" "h_clock h tr \<le> h_clock h tr1"
    by (rule wait_loop_pass [OF assms])
  have "deadline \<le> h_clock h (tr1 @ [Slept (millis 100)]) + millis 100 * polls"
    using Suc.prems st(4) clock_sleep [OF assms, of tr1 "millis 100"] by simp
  from Suc.IH [OF this, of p1] show ?case using st by (auto simp del: wait_stopped_loop.simps)
qed

lemma wait_returns:
  assumes "clock_ok h"
  obtains b p' tr' where "run_state (wait_until_stopped h (2 * NANOS_PER_SEC) 21 p) tr = (Some (b, p'), tr')"
    "slept tr' \<le> slept tr + 2 * NANOS_PER_SEC" "b \<Longrightarrow> np_reaped p'"
  using wait_loop_returns [OF assms, of "h_clock h tr + 2 * NANOS_PER_SEC" tr 20 p]
  by (auto simp: wait_until_stopped_def NANOS_PER_SEC_def simp del: wait_stopped_loop.simps)

lemma run_signal: "fst (run_state (signal_scope h p signal) tr) = ()" "slept (snd (run_state (signal_scope h p signal) tr)) = slept tr"
  by (simp_all add: signal_scope_def act_runs run_scope_pids) (simp add: slept_def)

text \<open>The two phases of a teardown: the request to end, and the kill when that was not enough.\<close>

lemma kill_now_runs:
  assumes "clock_ok h"
  obtains p1 p' tr1 tr2 tr' b where "run_state (kill_now h 21 p) tr = (Some p', tr')"
    "run_state (signal_scope h p ''-TERM'') tr = ((), tr1)"
    "run_state (wait_until_stopped h (2 * NANOS_PER_SEC) 21 p) tr1 = (Some (b, p1), tr2)"
    "if b then p' = p1 \<and> tr' = tr2
     else (\<exists>tr3 c. run_state (signal_scope h p1 ''-KILL'') tr2 = ((), tr3) \<and>
       run_state (wait_until_stopped h (2 * NANOS_PER_SEC) 21 p1) (tr3 @ [Killed (np_child p1)]) = (Some (c, p'), tr'))"
    "slept tr' \<le> slept tr + 4 * NANOS_PER_SEC"
proof -
  obtain u1 where s1: "run_state (signal_scope h p ''-TERM'') tr = ((), u1)" "slept u1 = slept tr"
    using run_signal [of h p "''-TERM''" tr] by (metis prod.collapse)
  obtain b p1 u2 where w1: "run_state (wait_until_stopped h (2 * NANOS_PER_SEC) 21 p) u1 = (Some (b, p1), u2)"
    "slept u2 \<le> slept u1 + 2 * NANOS_PER_SEC" by (rule wait_returns [OF assms])
  obtain u3 where s2: "run_state (signal_scope h p1 ''-KILL'') u2 = ((), u3)" "slept u3 = slept u2"
    using run_signal [of h p1 "''-KILL''" u2] by (metis prod.collapse)
  obtain b2 p2 u4 where w2: "run_state (wait_until_stopped h (2 * NANOS_PER_SEC) 21 p1) (u3 @ [Killed (np_child p1)]) = (Some (b2, p2), u4)"
    "slept u4 \<le> slept (u3 @ [Killed (np_child p1)]) + 2 * NANOS_PER_SEC" by (rule wait_returns [OF assms])
  show ?thesis
  proof (cases b)
    case True
    have bound: "slept u2 \<le> slept tr + 4 * NANOS_PER_SEC" using s1(2) w1(2) by linarith
    show ?thesis by (rule that [OF _ s1(1) w1(1) _ bound]) (use True s1 w1 in \<open>simp_all add: kill_now_def\<close>)
  next
    case False
    have bound: "slept u4 \<le> slept tr + 4 * NANOS_PER_SEC" using s1(2) w1(2) s2(2) w2(2) by simp
    show ?thesis by (rule that [OF _ s1(1) w1(1) _ bound]) (use False s1 w1 s2 w2 in \<open>simp_all add: kill_now_def\<close>)
  qed
qed

lemma kill_runs:
  assumes "clock_ok h"
  obtains p' tr' where "run_state (kill h 21 p) tr = (Some p', tr')" "slept tr' \<le> slept tr + 4 * NANOS_PER_SEC"
    "\<not> np_reaped p \<Longrightarrow> run_state (kill_now h 21 p) tr = (Some p', tr')"
proof -
  have now: "\<exists>p' tr'. run_state (kill_now h 21 p) u = (Some p', tr') \<and> slept tr' \<le> slept u + 4 * NANOS_PER_SEC" for u
    by (rule kill_now_runs [OF assms]) blast
  show ?thesis using that now [of tr] now [of "tr @ [Ran (pids_command (np_scope p))]"]
    by (cases "np_reaped p"; cases "pids_in h (np_scope p) tr = []") (auto simp: kill_def run_scope_pids)
qed

text \<open>
  Tearing a process down always returns. Given a clock that keeps up with the sleeps, 21 polls of each wait are enough: \<open>kill\<close>
  returns after sleeping at most four seconds, whatever the processes do; and for a process that is gone and a namespace without
  processes it only asks for the processes, so that it can be called again.
\<close>

theorem teardown_bounded:
  assumes "clock_ok h"
  shows "(\<exists>p' tr'. run_state (kill h 21 p) tr = (Some p', tr') \<and> slept tr' \<le> slept tr + 4 * NANOS_PER_SEC) \<and>
    (np_reaped p \<longrightarrow> fst (run_state (scope_pids h p) tr) = [] \<longrightarrow>
       run_state (kill h 21 p) tr = (Some p, tr @ [Ran [''sudo'', ''-n'', ''ip'', ''netns'', ''pids'', np_scope p]]))"
proof -
  have "\<exists>p' tr'. run_state (kill h 21 p) tr = (Some p', tr') \<and> slept tr' \<le> slept tr + 4 * NANOS_PER_SEC"
    by (rule kill_runs [OF assms]) blast
  then show ?thesis by (auto simp: kill_def run_scope_pids)
qed

section \<open>Waiting is bounded\<close>

lemma exec_trace: "\<exists>r. run_state (exec h ns cmd args) tr = (r, tr @ [Ran (in_ns ns (cmd # args))])"
  by (simp add: exec_def sudo_def act_runs split: sum.split)

lemma poll_returns:
  assumes "clock_ok h" "start \<le> h_clock h tr" "start + timeout < h_clock h tr + millis 200 * polls"
  shows "\<exists>r tr'. run_state (poll_until h ns args seen failure start timeout (Suc polls)) tr = (Some r, tr')"
  using assms(2,3)
proof (induction polls arbitrary: tr)
  case 0
  obtain r where r: "run_state (exec h ns ''ss'' args) tr = (r, tr @ [Ran (in_ns ns (''ss'' # args))])" using exec_trace by blast
  have "start + timeout < h_clock h (tr @ [Ran (in_ns ns (''ss'' # args))])" using 0 clock_mono [OF assms(1)] by (simp add: less_le_trans)
  then have "timeout < h_clock h (tr @ [Ran (in_ns ns (''ss'' # args))]) - start" by linarith
  then show ?case using r by (cases r) simp_all
next
  case (Suc polls)
  obtain r where r: "run_state (exec h ns ''ss'' args) tr = (r, tr @ [Ran (in_ns ns (''ss'' # args))])" using exec_trace by blast
  let ?tr1 = "tr @ [Ran (in_ns ns (''ss'' # args))]"
  have "h_clock h tr \<le> h_clock h ?tr1" by (rule clock_mono [OF assms(1)])
  moreover have "h_clock h ?tr1 + millis 200 \<le> h_clock h (?tr1 @ [Slept (millis 200)])" by (rule clock_sleep [OF assms(1)])
  ultimately have "\<exists>r tr'. run_state (poll_until h ns args seen failure start timeout (Suc polls)) (?tr1 @ [Slept (millis 200)]) = (Some r, tr')"
    using Suc.prems by (intro Suc.IH) simp_all
  then show ?case using r by (subst poll_until.simps) (cases r, simp_all add: act_runs del: poll_until.simps)
qed

text \<open>Waiting for a listener returns within its time, in polls of 200 ms.\<close>

theorem wait_for_listener_returns:
  assumes "clock_ok h" "timeout < millis 200 * polls"
  shows "\<exists>r. fst (run_state (wait_for_udp_listener h (Suc polls) ns port timeout) tr) = Some r"
  using poll_returns [OF assms(1) order_refl, of tr timeout polls ns "[''-uln'']" "listener_seen port"] assms(2)
  by (simp add: wait_for_udp_listener_def del: poll_until.simps) (metis fst_conv)

section \<open>Namespaces do not outlive a failure\<close>

text \<open>What has become of a namespace: it is not there, it is there, or it is there although a deletion was run, which failed.\<close>

datatype NsState = Gone | Present | DeletionFailed

fun ns_change :: "bool \<Rightarrow> sim_event \<Rightarrow> (string \<Rightarrow> NsState) \<Rightarrow> string \<Rightarrow> NsState" where
  "ns_change success (Ran cmd) N =
     (case cmd of
        [a, b, c, d, n] \<Rightarrow>
          if [a, b, c] = [''sudo'', ''ip'', ''netns''] then
            (if d = ''add'' \<and> success then N(n := Present)
             else if d = ''del'' then N(n := (if success \<or> N n = Gone then Gone else DeletionFailed))
             else N)
          else N
      | _ \<Rightarrow> N)"
| "ns_change success _ N = N"

fun ns_state_rev :: "Host \<Rightarrow> trace \<Rightarrow> string \<Rightarrow> NsState" where
  "ns_state_rev h [] = (\<lambda>_. Gone)"
| "ns_state_rev h (e # es) = ns_change (case e of Ran cmd \<Rightarrow> cmd_ok h (rev es) cmd | _ \<Rightarrow> False) e (ns_state_rev h es)"

definition ns_state :: "Host \<Rightarrow> trace \<Rightarrow> string \<Rightarrow> NsState" where
  "ns_state h tr = ns_state_rev h (rev tr)"

text \<open>The namespaces nobody has tried to delete since they were added.\<close>

definition held :: "Host \<Rightarrow> trace \<Rightarrow> string set" where
  "held h tr = {n. ns_state h tr n = Present}"

fun held_change :: "bool \<Rightarrow> sim_event \<Rightarrow> string set \<Rightarrow> string set" where
  "held_change success (Ran cmd) N =
     (case cmd of
        [a, b, c, d, n] \<Rightarrow>
          if [a, b, c] = [''sudo'', ''ip'', ''netns''] then
            (if d = ''add'' \<and> success then insert n N else if d = ''del'' then N - {n} else N)
          else N
      | _ \<Rightarrow> N)"
| "held_change success _ N = N"

lemma held_step: "held h (tr @ [e]) = held_change (case e of Ran cmd \<Rightarrow> cmd_ok h tr cmd | _ \<Rightarrow> False) e (held h tr)"
proof -
  have "{n. ns_change b e N n = Present} = held_change b e {n. N n = Present}" for b N
    by (cases "(b, e, N)" rule: ns_change.cases) (auto split: list.split)
  then show ?thesis by (cases e) (simp_all add: held_def ns_state_def)
qed

lemma held_snoc: "held h (tr @ [Ran cmd]) = held_change (cmd_ok h tr cmd) (Ran cmd) (held h tr)"
  by (simp add: held_step)

text \<open>Where deleting a namespace that is there does not fail, only the ones nobody has tried to delete are there.\<close>

definition deletions_work :: "Host \<Rightarrow> bool" where
  "deletions_work h \<longleftrightarrow> (\<forall>tr n. ns_state h tr n \<noteq> Gone \<longrightarrow> cmd_ok h tr [''sudo'', ''ip'', ''netns'', ''del'', n])"

lemma deletions_work_held: "deletions_work h \<Longrightarrow> {n. ns_state h tr n \<noteq> Gone} = held h tr"
proof -
  assume ok: "deletions_work h"
  have "ns_state h tr n \<noteq> DeletionFailed" for n
  proof (induction tr arbitrary: n rule: rev_induct)
    case (snoc e es)
    show ?case
    proof (cases e)
      case (Ran cmd)
      have "ns_state h (es @ [Ran cmd]) = ns_change (cmd_ok h es cmd) (Ran cmd) (ns_state h es)" by (simp add: ns_state_def)
      then show ?thesis using Ran snoc ok by (auto simp: deletions_work_def split: list.split)
    qed (use snoc in \<open>simp_all add: ns_state_def\<close>)
  qed (simp add: ns_state_def)
  then have "ns_state h tr n \<noteq> Gone \<longleftrightarrow> ns_state h tr n = Present" for n
    by (metis NsState.distinct(1) NsState.exhaust)
  then show ?thesis by (simp add: held_def)
qed

definition keeps_held :: "Host \<Rightarrow> 'a act \<Rightarrow> bool" where
  "keeps_held h m \<longleftrightarrow> (\<forall>tr. held h (snd (run_state m tr)) = held h tr)"

lemma keeps_held_in_order: "list_all (keeps_held h) ms \<Longrightarrow> keeps_held h (in_order ms)"
proof (induction ms)
  case (Cons m ms)
  show ?case unfolding keeps_held_def
  proof
    fix tr
    obtain r tr1 where m: "run_state m tr = (r, tr1)" by fastforce
    have "held h tr1 = held h tr" using Cons.prems m by (simp add: keeps_held_def) (metis snd_conv)
    then show "held h (snd (run_state (in_order (m # ms)) tr)) = held h tr"
      using Cons m by (cases r) (simp_all add: keeps_held_def act_runs)
  qed
qed (simp add: keeps_held_def)

lemma keeps_held_runs:
  assumes "runs_one h cmd m" "\<And>success N. held_change success (Ran cmd) N = N"
  shows "keeps_held h m"
  unfolding keeps_held_def using runs_oneD [OF assms(1)] assms(2) by (metis held_snoc prod.collapse)

lemma keeps_held_then: "keeps_held h m \<Longrightarrow> (\<And>x. keeps_held h (f x)) \<Longrightarrow> keeps_held h (ok_or_return m f)"
  unfolding keeps_held_def by (auto simp: act_runs split: prod.split sum.split) (metis snd_conv)+

lemma keeps_held_ignored: "keeps_held h m \<Longrightarrow> keeps_held h (ignored m)"
  by (simp add: keeps_held_def act_runs)

lemma held_sudo: "held h (snd (run_state (sudo h args) tr)) = held_change (cmd_ok h tr (''sudo'' # args)) (Ran (''sudo'' # args)) (held h tr)"
  by (simp add: sudo_def act_runs held_snoc split: sum.split)

lemma keeps_held_exec: "keeps_held h (exec h ns cmd args)" "keeps_held h (with_context c (exec_checked h ns cmd args))"
proof -
  show "keeps_held h (exec h ns cmd args)"
    unfolding keeps_held_def
  proof
    fix tr
    obtain r where "run_state (exec h ns cmd args) tr = (r, tr @ [Ran (in_ns ns (cmd # args))])" using exec_trace by blast
    then show "held h (snd (run_state (exec h ns cmd args) tr)) = held h tr" by (simp add: held_snoc)
  qed
  show "keeps_held h (with_context c (exec_checked h ns cmd args))"
    by (rule keeps_held_runs [OF runs_one_wrapped(1) [OF runs_exec_checked]]) simp
qed

lemma keeps_held_link: "keeps_held h (add_veth_link h ns peer local_iface peer_iface local_ip peer_ip)"
proof -
  have sudo: "keeps_held h (with_context c (sudo_checked h (''ip'' # ''link'' # args)))" for c args
    by (rule keeps_held_runs [OF runs_one_wrapped(1) [OF runs_sudo_checked]]) (simp split: list.split)
  have "keeps_held h (ignored (sudo h [''ip'', ''link'', ''del'', local_iface]))" by (simp add: keeps_held_def act_runs held_sudo)
  then show ?thesis unfolding add_veth_link_def using sudo keeps_held_exec(2)
    by (intro keeps_held_then keeps_held_in_order) (simp_all del: in_order.simps)
qed

lemma keeps_held_discard: "keeps_held h m \<Longrightarrow> keeps_held h (discard m)"
  unfolding discard_def by (rule keeps_held_then) (simp_all add: keeps_held_def)

lemma keeps_held_routes: "keeps_held h (wire_bonding_routes h topo)"
proof -
  have "keeps_held h (disable_rp_filter h ns ifaces)" for ns ifaces
    unfolding disable_rp_filter_def by (intro keeps_held_in_order) (auto simp: list_all_iff intro!: keeps_held_ignored keeps_held_exec)
  moreover have "keeps_held h (wire_uplink h topo i s_ip s_iface r_iface)" for i s_ip s_iface r_iface
    unfolding wire_uplink_def by (intro keeps_held_in_order) (simp add: keeps_held_exec)
  ultimately show ?thesis
    unfolding wire_bonding_routes_def by (intro keeps_held_in_order) (auto simp: list_all_iff intro!: keeps_held_discard keeps_held_exec)
qed

lemma held_drop: "held h (snd (run_state (Namespace_drop h ns) tr)) = held h tr - {ns_name ns}" "fst (run_state (Namespace_drop h ns) tr) = Inr ()"
  by (simp_all add: Namespace_drop_def act_runs held_sudo)

lemma held_drops: "held h (snd (run_state (in_order (map (Namespace_drop h) nss)) tr)) = held h tr - ns_name ` set nss"
proof (induction nss arbitrary: tr)
  case (Cons ns nss)
  obtain tr1 where "run_state (Namespace_drop h ns) tr = (Inr (), tr1)" "held h tr1 = held h tr - {ns_name ns}"
    using held_drop [of h ns tr] by (metis prod.collapse)
  then show ?case using Cons [of tr1] by (simp add: act_runs) blast
qed simp

lemma held_or_drop:
  assumes "run_state (or_drop h nss m) tr = (r, tr')"
  obtains tr1 where "run_state m tr = (r, tr1)" "held h tr' = (if isl r then held h tr1 - ns_name ` set nss else held h tr1)"
proof -
  obtain q tr1 where m: "run_state m tr = (q, tr1)" by fastforce
  show ?thesis using that assms m held_drops [of h nss tr1] by (cases q) (auto simp: or_drop_def split: prod.splits)
qed

lemma held_new:
  assumes "run_state (Namespace_new h name) tr = (r, tr')"
  shows "case r of Inl _ \<Rightarrow> held h tr' = held h tr - {name} | Inr ns \<Rightarrow> ns_name ns = name \<and> held h tr' = insert name (held h tr)"
proof -
  define del add up where "del = sudo h [''ip'', ''netns'', ''del'', name]"
    and "add = with_context (''create netns '' @ in_quotes name) (sudo_checked h [''ip'', ''netns'', ''add'', name])"
    and "up = sudo h [''ip'', ''netns'', ''exec'', name, ''ip'', ''link'', ''set'', ''lo'', ''up'']"
  have del: "held h (snd (run_state del u)) = held h u - {name}" for u by (simp add: del_def held_sudo)
  have up: "held h (snd (run_state up u)) = held h u" for u by (simp add: up_def held_sudo)
  have one: "runs_one h (''sudo'' # [''ip'', ''netns'', ''add'', name]) add"
    unfolding add_def by (rule runs_one_wrapped(1) [OF runs_sudo_checked])
  have add: "held h u1 = (if isl q then held h u else insert name (held h u))" if "run_state add u = (q, u1)" for u q u1
    using runs_oneD [OF one that] by (auto simp: held_snoc)
  obtain tr1 where 1: "snd (run_state del tr) = tr1" "held h tr1 = held h tr - {name}" using del by blast
  obtain q tr2 where 2: "run_state add tr1 = (q, tr2)" by fastforce
  obtain tr3 where 3: "snd (run_state up tr2) = tr3" "held h tr3 = held h tr2" using up by blast
  have "(r, tr') = (case q of Inl e \<Rightarrow> (Inl e, tr2) | Inr _ \<Rightarrow> (Inr \<lparr> ns_name = name \<rparr>, tr3))"
    using assms unfolding Namespace_new_def del_def [symmetric] add_def [symmetric] up_def [symmetric]
    by (cases q) (simp_all add: run_acts(1,2) 1(1) 2 3(1))
  then show ?thesis using add [OF 2] 1(2) 3(2) by (cases q) auto
qed

lemma build_held:
  assumes "run_state (build_topology h process_id num_links sender_ns receiver_ns) tr = (r, tr')"
  shows "held h tr' = (if isl r then held h tr - {ns_name sender_ns, ns_name receiver_ns} else held h tr)"
    and "r = Inr topo \<Longrightarrow> topo = \<lparr> tp_sender_ns = sender_ns, tp_receiver_ns = receiver_ns,
      tp_sender_ips = map (\<lambda>i. link_ip i ''1'') [0..<num_links], tp_receiver_ip = SRTLA_RECEIVER_SERVICE_IP,
      tp_sender_ifaces = map (link_iface ''vs'' (process_id mod 0xffff)) [0..<num_links],
      tp_receiver_ifaces = map (link_iface ''vr'' (process_id mod 0xffff)) [0..<num_links] \<rparr>"
proof -
  define t where "t = \<lparr> tp_sender_ns = sender_ns, tp_receiver_ns = receiver_ns,
      tp_sender_ips = map (\<lambda>i. link_ip i ''1'') [0..<num_links], tp_receiver_ip = SRTLA_RECEIVER_SERVICE_IP,
      tp_sender_ifaces = map (link_iface ''vs'' (process_id mod 0xffff)) [0..<num_links],
      tp_receiver_ifaces = map (link_iface ''vr'' (process_id mod 0xffff)) [0..<num_links] \<rparr>"
  define adds where "adds = in_order (map (add_uplink h sender_ns receiver_ns (process_id mod 0xffff)) [0..<num_links])"
  have "keeps_held h adds" unfolding adds_def
    by (rule keeps_held_in_order) (simp add: list_all_iff add_uplink_def keeps_held_link del: upt_Suc)
  then have adds: "held h u1 = held h u" if "run_state adds u = (q, u1)" for q u u1
    using that unfolding keeps_held_def by (metis snd_conv)
  have routes: "held h u1 = held h u" if "run_state (wire_bonding_routes h t) u = (q, u1)" for q u u1
    using that keeps_held_routes [of h t] unfolding keeps_held_def by (metis snd_conv)
  obtain q tr1 where 1: "run_state (or_drop h [receiver_ns, sender_ns] adds) tr = (q, tr1)" by fastforce
  obtain p tr2 where 2: "run_state (or_drop h [sender_ns, receiver_ns] (wire_bonding_routes h t)) tr1 = (p, tr2)" by fastforce
  have h1: "held h tr1 = (if isl q then held h tr - {ns_name sender_ns, ns_name receiver_ns} else held h tr)"
    using held_or_drop [OF 1] adds by (metis empty_set image_empty image_insert insert_commute list.simps(15))
  have h2: "held h tr2 = (if isl p then held h tr1 - {ns_name sender_ns, ns_name receiver_ns} else held h tr1)"
    using held_or_drop [OF 2] routes by (metis empty_set image_empty image_insert list.simps(15))
  have run: "(r, tr') = (case q of Inl e \<Rightarrow> (Inl e, tr1) | Inr _ \<Rightarrow> (case p of Inl e \<Rightarrow> (Inl e, tr2) | Inr _ \<Rightarrow> (Inr t, tr2)))"
    using assms 1 2 unfolding build_topology_def Let_def t_def [symmetric] adds_def [symmetric]
    by (cases q; cases p) (simp_all add: run_acts(1))
  show "held h tr' = (if isl r then held h tr - {ns_name sender_ns, ns_name receiver_ns} else held h tr)"
    using run h1 h2 by (cases q; cases p) auto
  show "r = Inr topo \<Longrightarrow> topo = t" using run by (cases q; cases p) auto
qed

lemma link_names: "link_ip i host = link_ip j host \<longleftrightarrow> i = j"
  "length kind = 2 \<Longrightarrow> i < 10 ^ 8 \<Longrightarrow> j < 10 ^ 8 \<Longrightarrow>
   link_iface kind (process_id mod 0xffff) i = link_iface kind (process_id mod 0xffff) j \<longleftrightarrow> i = j"
proof -
  show "link_ip i host = link_ip j host \<longleftrightarrow> i = j" by (simp add: link_ip_def)
  assume *: "length kind = 2" "i < 10 ^ 8" "j < 10 ^ 8"
  have "length (show_hex (process_id mod 0xffff)) \<le> Suc 3" by (rule show_hex_length) simp
  moreover have "length (show_nat k) \<le> Suc 7" if "k < 10 ^ 8" for k using that by (intro show_nat_length) simp
  ultimately have "link_iface kind (process_id mod 0xffff) k = kind @ show_hex (process_id mod 0xffff) @ ''_'' @ show_nat k" if "k < 10 ^ 8" for k
    using *(1) that unfolding link_iface_def by (intro take_all) (fastforce intro: order_trans)
  then show "link_iface kind (process_id mod 0xffff) i = link_iface kind (process_id mod 0xffff) j \<longleftrightarrow> i = j" using *(2,3) by simp
qed

lemma topology_links:
  assumes "run_state (SrtlaTestTopology_new h process_id ns_counter test_name num_links) tr = (Some (Inr topo, c'), tr')"
  shows "num_links \<noteq> 0" "tp_sender_ips topo = map (\<lambda>i. link_ip i ''1'') [0..<num_links]"
proof -
  show n: "num_links \<noteq> 0"
  proof
    assume "num_links = 0"
    then show False using assms by (simp add: SrtlaTestTopology_new_def)
  qed
  obtain S c1 where S: "unique_ns_name process_id (test_name @ ''_s'') ns_counter = (S, c1)" by fastforce
  obtain R c2 where R: "unique_ns_name process_id (test_name @ ''_r'') c1 = (R, c2)" by fastforce
  obtain ns ns2 tr2 where "run_state (build_topology h process_id num_links ns ns2) tr2 = (Inr topo, tr')"
    using assms n by (auto simp: SrtlaTestTopology_new_def S R run_acts(1) split: prod.splits sum.splits)
  from build_held(2) [OF this] show "tp_sender_ips topo = map (\<lambda>i. link_ip i ''1'') [0..<num_links]" by simp
qed

text \<open>A topology is there completely or not at all. Whatever the commands answer: if building it fails, each namespace it has
  added is deleted again, so that none is left unless its deletion fails; if it succeeds, exactly its two namespaces are new, their names differ, and every link
  has an address and interface names of its own.
\<close>

theorem topology_all_or_nothing:
  assumes "run_state (SrtlaTestTopology_new h process_id ns_counter test_name num_links) tr = (Some (r, c'), tr')"
    "num_links \<le> 254" "ns_counter < 2 ^ 32"
  shows "case r of
      Inl _ \<Rightarrow> held h tr' \<subseteq> held h tr
    | Inr topo \<Rightarrow>
        held h tr' = held h tr \<union> {ns_name (tp_sender_ns topo), ns_name (tp_receiver_ns topo)} \<and>
        ns_name (tp_sender_ns topo) \<noteq> ns_name (tp_receiver_ns topo) \<and>
        length (tp_sender_ips topo) = num_links \<and> distinct (tp_sender_ips topo) \<and>
        length (tp_sender_ifaces topo) = num_links \<and> distinct (tp_sender_ifaces topo) \<and>
        length (tp_receiver_ifaces topo) = num_links \<and> distinct (tp_receiver_ifaces topo)"
proof -
  obtain S c1 where S: "unique_ns_name process_id (test_name @ ''_s'') ns_counter = (S, c1)" by fastforce
  obtain R c2 where R: "unique_ns_name process_id (test_name @ ''_r'') c1 = (R, c2)" by fastforce
  have c1: "c1 = (ns_counter + 1) mod 2 ^ 32" using S by (simp add: unique_ns_name_def Let_def)
  have "ns_counter \<noteq> c1" using assms(3) unfolding c1 by (cases "ns_counter + 1 = 2 ^ 32") simp_all
  then have ne: "S \<noteq> R" using ns_names_unique [of process_id "test_name @ ''_s''" ns_counter "test_name @ ''_r''" c1] S R by auto
  obtain q tr1 where 1: "run_state (Namespace_new h S) tr = (q, tr1)" by fastforce
  note h1 = held_new [OF 1]
  have n: "num_links \<noteq> 0"
  proof
    assume "num_links = 0"
    then show False using assms(1) by (simp add: SrtlaTestTopology_new_def)
  qed
  show ?thesis
  proof (cases q)
    case (Inl e)
    then have "r = Inl e" "tr' = tr1" using assms(1) n 1 by (simp_all add: SrtlaTestTopology_new_def S R)
    then show ?thesis using h1 Inl by auto
  next
    case (Inr ns)
    obtain p tr2 where 2: "run_state (or_drop h [ns] (Namespace_new h R)) tr1 = (p, tr2)" by fastforce
    have ns: "ns_name ns = S" using h1 Inr by simp
    obtain tr3 where 3: "run_state (Namespace_new h R) tr1 = (p, tr3)" "held h tr2 = (if isl p then held h tr3 - ns_name ` set [ns] else held h tr3)"
      by (rule held_or_drop [OF 2])
    note h2 = held_new [OF 3(1)]
    show ?thesis
    proof (cases p)
      case (Inl e)
      then have "r = Inl e" "tr' = tr2" using assms(1) n 1 2 Inr by (simp_all add: SrtlaTestTopology_new_def S R run_acts(1))
      then show ?thesis using h1 h2 3(2) Inl Inr ns by auto
    next
      case R2: (Inr ns2)
      have b: "run_state (build_topology h process_id num_links ns ns2) tr2 = (r, tr')"
        using assms(1) n 1 2 Inr R2 by (auto simp: SrtlaTestTopology_new_def S R run_acts(1) split: prod.splits)
      have h3: "held h tr2 = insert R (insert S (held h tr))" using h1 h2 3(2) Inr R2 by simp
      show ?thesis
      proof (cases r)
        case (Inl e)
        then show ?thesis using build_held(1) [OF b] h1 h2 h3 Inr R2 by auto
      next
        case r: (Inr topo)
        note t = build_held(2) [OF b r]
        have "distinct (map (\<lambda>i. link_ip i ''1'') [0..<num_links])" by (simp add: distinct_map inj_on_def link_names(1))
        moreover have "distinct (map (link_iface kind (process_id mod 0xffff)) [0..<num_links])" if "length kind = 2" for kind
          using assms(2) link_names(2) [OF that, of _ _ process_id] by (auto simp: distinct_map inj_on_def)
        ultimately show ?thesis using build_held(1) [OF b] h1 h2 h3 Inr R2 r ne by (auto simp: t)
      qed
    qed
  qed
qed

section \<open>The address file is what the sender reads\<close>

definition plain :: "string \<Rightarrow> bool" where
  "plain l \<longleftrightarrow> l \<noteq> [] \<and> list_all (\<lambda>ch. \<not> is_whitespace ch) l"

lemma plain_no_newline: "plain l \<Longrightarrow> CHR 0x0A \<notin> set l" "plain l \<Longrightarrow> strip_cr l = l"
proof -
  have w: "is_whitespace CHR 0x0A" "is_whitespace CHR 0x0D" by (simp_all add: is_whitespace_def)
  assume p: "plain l"
  then show "CHR 0x0A \<notin> set l" using w(1) by (auto simp: plain_def list_all_iff)
  have "last l \<noteq> CHR 0x0D" using p w(2) last_in_set [of l] by (metis plain_def list_all_iff)
  then show "strip_cr l = l" by (simp add: strip_cr_def)
qed

lemma lines_loop_line: "CHR 0x0A \<notin> set l \<Longrightarrow> lines_loop acc (l @ CHR 0x0A # rest) = strip_cr (rev acc @ l) # lines_loop [] rest"
  by (induction l arbitrary: acc) auto

lemma str_lines_join: "list_all plain ls \<Longrightarrow> ls \<noteq> [] \<Longrightarrow> str_lines (join newline ls @ newline) = ls"
  unfolding str_lines_def
proof (induction newline ls rule: join.induct)
  case (2 l)
  then show ?case using lines_loop_line [OF plain_no_newline(1), of l "[]" "[]"] by (simp add: plain_no_newline(2))
next
  case (3 l l' ls)
  then show ?case using lines_loop_line [OF plain_no_newline(1), of l "[]"] by (simp add: plain_no_newline(2))
qed simp

lemma trim_plain: "plain l \<Longrightarrow> trim l = l"
proof -
  assume "plain l"
  then have "\<not> is_whitespace (hd l)" "\<not> is_whitespace (last l)" "l \<noteq> []" by (auto simp: plain_def list_all_iff)
  then have "dropWhile is_whitespace l = l" "dropWhile is_whitespace (rev l) = rev l"
    by (metis dropWhile.simps(2) list.collapse, metis dropWhile_eq_self_iff hd_rev)
  then show ?thesis by (simp add: trim_def)
qed

lemma fields_plain: "list_all (\<lambda>ch. \<not> is_whitespace ch) l \<Longrightarrow> fields_loop acc l = (if rev acc @ l = [] then [] else [rev acc @ l])"
  by (induction l arbitrary: acc) auto

lemma parse_plain: "plain l \<Longrightarrow> parse_ip l = Some ip \<Longrightarrow> parse_ip_line parse_ip l = Some (ip, 1)"
  using fields_plain [of l "[]"] by (simp add: parse_ip_line_def split_whitespace_def plain_def weight_of_field_def LINK_WEIGHT_MIN_def)

lemma normalise_ones: "normalise_link_weights (replicate n 1) = replicate n 1"
proof -
  have "fold min (replicate k (1 :: u8)) 1 = 1" for k by (induction k) simp_all
  then show ?thesis by (cases n) (simp_all add: normalise_link_weights_def clamp_weight_def LINK_WEIGHT_MIN_def LINK_WEIGHT_MAX_def)
qed

lemma link_ip_plain: "plain (link_ip i ''1'')"
proof -
  have "\<not> is_whitespace ch" if "is_digit ch" for ch using that by (auto simp: is_digit_def is_whitespace_def Let_def)
  then show ?thesis using show_nat_digits [of "i + 1"]
    by (simp add: plain_def link_ip_def list_all_iff is_whitespace_def Let_def)
qed

lemma content_plain:
  "list_all plain ls \<Longrightarrow> map snd (filter (\<lambda>(n, l). l \<noteq> []) (map (\<lambda>(i, l). (i + 1, trim l)) (enumerate k ls))) = ls"
  by (induction ls arbitrary: k) (auto simp: trim_plain plain_def)

text \<open>Harness and sender agree on the address file. The file that is written for a topology is read by the sender as exactly the
  addresses of its links, in their order, each with weight one, for every address parser that accepts those addresses.
\<close>

theorem ip_list_read:
  assumes "run_state (SrtlaTestTopology_new h process_id ns_counter test_name num_links) tr = (Some (Inr topo, c'), tr')"
    and "\<And>i. i < num_links \<Longrightarrow> parse_ip (link_ip i ''1'') = Some (addr i)"
  shows "read_weighted_ip_list parse_ip (Some (ip_list_text topo)) = Some (map addr [0..<num_links], replicate num_links 1)"
proof -
  let ?ips = "map (\<lambda>i. link_ip i ''1'') [0..<num_links]"
  have n: "num_links \<noteq> 0" and t: "tp_sender_ips topo = ?ips" using topology_links [OF assms(1)] by simp_all
  have p: "list_all plain ?ips" by (simp add: list_all_iff link_ip_plain)
  have "str_lines (ip_list_text topo) = ?ips"
    unfolding ip_list_text_def t using p n by (intro str_lines_join) simp_all
  then have c: "map snd (content_lines (ip_list_text topo)) = ?ips"
    unfolding content_lines_def by (simp only: content_plain [OF p])
  have "usable_entries parse_ip (content_lines (ip_list_text topo)) = List.map_filter (parse_ip_line parse_ip) ?ips"
    unfolding usable_entries_def c [symmetric] by (simp add: List.map_filter_def filter_map comp_def case_prod_beta)
  also have "\<dots> = map (\<lambda>i. (addr i, 1)) [0..<num_links]"
  proof -
    have "parse_ip_line parse_ip (link_ip i ''1'') = Some (addr i, 1)" if "i < num_links" for i
      using parse_plain [OF link_ip_plain, of parse_ip i] assms(2) [OF that] by simp
    then show ?thesis by (simp add: List.map_filter_def filter_map comp_def cong: filter_cong)
  qed
  finally have u: "usable_entries parse_ip (content_lines (ip_list_text topo)) = map (\<lambda>i. (addr i, 1)) [0..<num_links]" .
  then show ?thesis
    using n by (simp add: read_weighted_ip_list_def analyze_entries comp_def map_replicate_const normalise_ones)
qed

text \<open>A host on which every command succeeds and only sleeping takes time.\<close>

definition demo_host :: Host where
  "demo_host = \<lparr> h_run = (\<lambda>_ _. Inr \<lparr> out_success = True, out_stdout = [], out_stderr = [] \<rparr>), h_spawn = (\<lambda>_ _. Inr 7),
     h_exited = (\<lambda>_ _. None), h_lines = (\<lambda>_ _. ([], [])), h_write = (\<lambda>_ _. None),
     h_tempdir = (\<lambda>_. Inr ''/tmp/d''), h_clock = slept \<rparr>"

definition demo_child :: NamespaceProcess where
  "demo_child = \<lparr> np_child = 7, np_label = ''p'', np_scope = ''n'', np_reaped = True \<rparr>"

lemma demo_clock: "clock_ok demo_host"
  by (simp add: clock_ok_def demo_host_def slept_def split: sim_event.split)

theorem teardown_bounded_witness:
  "\<exists>p' tr'. run_state (kill demo_host 21 demo_child) [] = (Some p', tr') \<and> slept tr' \<le> 4 * NANOS_PER_SEC"
  using teardown_bounded [OF demo_clock, of demo_child "[]"] by (simp add: slept_def)

lemma demo_runs:
  "run_state (sudo demo_host args) tr = (Inr \<lparr> out_success = True, out_stdout = [], out_stderr = [] \<rparr>, tr @ [Ran (''sudo'' # args)])"
  "run_state (sudo_checked demo_host args) tr = (Inr \<lparr> out_success = True, out_stdout = [], out_stderr = [] \<rparr>, tr @ [Ran (''sudo'' # args)])"
  by (simp_all add: sudo_def sudo_checked_def act_runs demo_host_def)

lemma demo_topology: "\<exists>topo c' tr'. run_state (SrtlaTestTopology_new demo_host 4660 0 ''t'' 1) [] = (Some (Inr topo, c'), tr')"
  by (simp add: SrtlaTestTopology_new_def case_prod_beta Let_def Namespace_new_def build_topology_def or_drop_def add_uplink_def
      add_veth_link_def wire_bonding_routes_def disable_rp_filter_def wire_uplink_def exec_def exec_checked_def act_runs demo_runs)

text \<open>One link.\<close>

theorem topology_all_or_nothing_witness:
  "\<exists>topo c' tr'. run_state (SrtlaTestTopology_new demo_host 4660 0 ''t'' 1) [] = (Some (Inr topo, c'), tr') \<and>
     held demo_host tr' = {ns_name (tp_sender_ns topo), ns_name (tp_receiver_ns topo)} \<and> length (tp_sender_ips topo) = 1"
proof -
  obtain topo c' tr' where run: "run_state (SrtlaTestTopology_new demo_host 4660 0 ''t'' 1) [] = (Some (Inr topo, c'), tr')"
    using demo_topology by blast
  then show ?thesis using topology_all_or_nothing [OF run] by (auto simp: held_def ns_state_def)
qed

theorem ip_list_read_witness:
  "\<exists>topo c' tr'. run_state (SrtlaTestTopology_new demo_host 4660 0 ''t'' 1) [] = (Some (Inr topo, c'), tr') \<and>
     read_weighted_ip_list (\<lambda>s. if s = ''10.10.1.1'' then Some (V4 0x0A0A0101) else None) (Some (ip_list_text topo)) = Some ([V4 0x0A0A0101], [1])"
proof -
  obtain topo c' tr' where run: "run_state (SrtlaTestTopology_new demo_host 4660 0 ''t'' 1) [] = (Some (Inr topo, c'), tr')"
    using demo_topology by blast
  have "char_of (49 :: nat) = CHR ''1''" by code_simp
  then have "link_ip 0 ''1'' = ''10.10.1.1''" by (simp add: link_ip_def show_nat.simps)
  then show ?thesis
    using run ip_list_read [OF run, of "\<lambda>s. if s = ''10.10.1.1'' then Some (V4 0x0A0A0101) else None" "\<lambda>_. V4 0x0A0A0101"] by simp
qed

end
