(* ===== verification/Sim_Stack.thy ===== *)
theory Sim_Stack
  imports Sim_Harness Metrics "HOL-Library.Sublist"
begin

text \<open>
  The process stack of the simulator (rest of \<^verbatim>\<open>crates/network-sim/src/harness.rs\<close>): the SRT server, the receiver and the sender in
  their namespaces, SRT callers in front of the sender, queries, traffic, and stopping it all. A process or a namespace that goes
  out of scope is torn down, so that is written out where an error leaves a function. As in \<open>Sim_Harness\<close>, waits take the number of
  polls they may make, and None is the answer when these have run out.
\<close>

section \<open>Processes that must come up\<close>

type_synonym 'a pact = "(trace, (anyhow + 'a) option) state"

definition polled :: "'a act \<Rightarrow> 'a pact" where
  "polled m = do { r \<leftarrow> m; State_Monad.return (Some r) }"

definition then_ok :: "'a pact \<Rightarrow> ('a \<Rightarrow> 'b pact) \<Rightarrow> 'b pact" where
  "then_ok m f = do {
     r \<leftarrow> m;
     (case r of
        None \<Rightarrow> State_Monad.return None
      | Some (Inl e) \<Rightarrow> State_Monad.return (Some (Inl e))
      | Some (Inr x) \<Rightarrow> f x)
   }"

definition in_context :: "string \<Rightarrow> 'a pact \<Rightarrow> 'a pact" where
  "in_context c m = do { r \<leftarrow> m; State_Monad.return (map_option (map_sum ((#) c) id) r) }"

text \<open>Processes and namespaces that are dropped when an error leaves the scope.\<close>

fun kill_all :: "Host \<Rightarrow> nat \<Rightarrow> NamespaceProcess list \<Rightarrow> (trace, NamespaceProcess list option) state" where
  "kill_all h k [] = State_Monad.return (Some [])"
| "kill_all h k (p # ps) = do {
     r \<leftarrow> kill h k p;
     (case r of
        None \<Rightarrow> State_Monad.return None
      | Some p' \<Rightarrow> do { rs \<leftarrow> kill_all h k ps; State_Monad.return (map_option ((#) p') rs) })
   }"

definition or_kill :: "Host \<Rightarrow> nat \<Rightarrow> NamespaceProcess list \<Rightarrow> 'a pact \<Rightarrow> 'a pact" where
  "or_kill h k ps m = do {
     r \<leftarrow> m;
     (case r of
        Some (Inl e) \<Rightarrow> do { rs \<leftarrow> kill_all h k ps; State_Monad.return (if rs = None then None else Some (Inl e)) }
      | _ \<Rightarrow> State_Monad.return r)
   }"

definition stdout_lines :: "Host \<Rightarrow> trace \<Rightarrow> NamespaceProcess \<Rightarrow> string list" where
  "stdout_lines h tr p = fst (h_lines h tr (np_child p))"

definition stderr_lines :: "Host \<Rightarrow> trace \<Rightarrow> NamespaceProcess \<Rightarrow> string list" where
  "stderr_lines h tr p = snd (h_lines h tr (np_child p))"

definition check_exit :: "Host \<Rightarrow> trace \<Rightarrow> NamespaceProcess \<Rightarrow> (int option \<times> string) option" where
  "check_exit h tr p =
     (case h_exited h tr (np_child p) of
        Some code \<Rightarrow> Some (code, join newline (stderr_lines h tr p))
      | None \<Rightarrow> None)"

definition show_code :: "int option \<Rightarrow> string" where
  "show_code code = (case code of Some n \<Rightarrow> ''Some('' @ show_int n @ '')'' | None \<Rightarrow> ''None'')"

text \<open>Starting a process, giving it some time, and making sure that it is still there and, where that is asked for, listens.\<close>

definition still_up :: "Host \<Rightarrow> string \<Rightarrow> Duration \<Rightarrow> NamespaceProcess \<Rightarrow> unit act" where
  "still_up h name pause p = do {
     _ \<leftarrow> sleep pause;
     log \<leftarrow> State_Monad.get;
     State_Monad.return
       (case check_exit h log p of
          Some (code, stderr) \<Rightarrow>
            Inl [name @ '' exited immediately (code: '' @ show_code code @ '')'' @ newline @ ''stderr:'' @ newline @ stderr]
        | None \<Rightarrow> Inr ())
   }"

definition start_process ::
  "Host \<Rightarrow> nat \<Rightarrow> nat \<Rightarrow> Namespace \<Rightarrow> string \<Rightarrow> string list \<Rightarrow> string \<Rightarrow> Duration \<Rightarrow> string \<Rightarrow> (nat \<times> string) option \<Rightarrow>
   NamespaceProcess pact" where
  "start_process h k n ns binary args ctx pause name listener =
     then_ok (polled (with_context ctx (spawn h ns binary args))) (\<lambda>p.
     then_ok (or_kill h k [p]
       (then_ok (polled (still_up h name pause p)) (\<lambda>_.
          case listener of
            None \<Rightarrow> State_Monad.return (Some (Inr ()))
          | Some (port, wait_ctx) \<Rightarrow> in_context wait_ctx (wait_for_udp_listener h n ns port (5 * NANOS_PER_SEC))))) (\<lambda>_.
     State_Monad.return (Some (Inr p))))"

section \<open>The stack\<close>

record SrtlaTestStack =
  st_topo :: SrtlaTestTopology
  st_srt_server :: "NamespaceProcess option"
  st_srtla_rec :: "NamespaceProcess option"
  st_srtla_send :: "NamespaceProcess option"
  st_srt_caller :: "NamespaceProcess option"
  st_ip_list_path :: string

definition SRT_CALLER_INGEST_PORT :: nat where "SRT_CALLER_INGEST_PORT = 6000"
definition SRT_SERVER_PORT :: nat where "SRT_SERVER_PORT = 4001"
definition SRTLA_REC_PORT :: nat where "SRTLA_REC_PORT = 5000"
definition SRTLA_SEND_SRT_PORT :: nat where "SRTLA_SEND_SRT_PORT = 5555"

definition start_srt_server :: "Host \<Rightarrow> nat \<Rightarrow> nat \<Rightarrow> SrtlaTestTopology \<Rightarrow> NamespaceProcess pact" where
  "start_srt_server h k n topo =
     start_process h k n (tp_receiver_ns topo) ''srt-live-transmit''
       [''srt://:'' @ show_nat SRT_SERVER_PORT @ ''?mode=listener'', ''udp://127.0.0.1:9999'']
       ''start srt-live-transmit'' (millis 500) ''srt-live-transmit'' (Some (SRT_SERVER_PORT, ''wait for srt-live-transmit''))"

definition start_srtla_rec :: "Host \<Rightarrow> nat \<Rightarrow> nat \<Rightarrow> SrtlaTestTopology \<Rightarrow> NamespaceProcess pact" where
  "start_srtla_rec h k n topo =
     start_process h k n (tp_receiver_ns topo) ''srtla_rec''
       [''--srtla_port'', show_nat SRTLA_REC_PORT, ''--srt_hostname'', ''127.0.0.1'', ''--srt_port'', show_nat SRT_SERVER_PORT]
       ''start srtla_rec'' (millis 500) ''srtla_rec'' (Some (SRTLA_REC_PORT, ''wait for srtla_rec''))"

definition start_srtla_send ::
  "Host \<Rightarrow> (string \<Rightarrow> bool) \<Rightarrow> string \<Rightarrow> SrtlaTestTopology \<Rightarrow> string \<Rightarrow> string list \<Rightarrow> NamespaceProcess act" where
  "start_srtla_send h path_exists workspace topo ip_list_path sender_extra_args =
     ok_or_return (find_srtla_send_binary h path_exists workspace) (\<lambda>bin.
       with_context ''start srtla_send''
         (spawn_with_env h (tp_sender_ns topo) bin
           ([show_nat SRTLA_SEND_SRT_PORT, tp_receiver_ip topo, show_nat SRTLA_REC_PORT, ip_list_path] @ sender_extra_args)
           [(''RUST_LOG'', ''debug'')]))"

text \<open>The processes of the stack above a topology that is there.\<close>

definition start_processes ::
  "Host \<Rightarrow> nat \<Rightarrow> nat \<Rightarrow> (string \<Rightarrow> bool) \<Rightarrow> string \<Rightarrow> SrtlaTestTopology \<Rightarrow> string list \<Rightarrow> SrtlaTestStack pact" where
  "start_processes h k n path_exists workspace topo sender_extra_args =
     then_ok (polled (write_ip_list h topo)) (\<lambda>ip_list_path.
     then_ok (start_srt_server h k n topo) (\<lambda>srt_server.
     then_ok (or_kill h k [srt_server] (start_srtla_rec h k n topo)) (\<lambda>srtla_rec.
     then_ok (or_kill h k [srtla_rec, srt_server]
       (polled (start_srtla_send h path_exists workspace topo ip_list_path sender_extra_args))) (\<lambda>srtla_send.
     State_Monad.return (Some (Inr \<lparr> st_topo = topo, st_srt_server = Some srt_server, st_srtla_rec = Some srtla_rec,
       st_srtla_send = Some srtla_send, st_srt_caller = None, st_ip_list_path = ip_list_path \<rparr>))))))"

text \<open>A start panics without links. Otherwise it answers, with the counter of names after it; None: the polls have run out.\<close>

datatype 'a ending = Panicked | Unfinished | Finished 'a

definition SrtlaTestStack_start ::
  "Host \<Rightarrow> nat \<Rightarrow> nat \<Rightarrow> (string \<Rightarrow> bool) \<Rightarrow> string \<Rightarrow> nat \<Rightarrow> nat \<Rightarrow> string \<Rightarrow> nat \<Rightarrow> string list \<Rightarrow>
   (trace, ((anyhow + SrtlaTestStack) \<times> nat) ending) state" where
  "SrtlaTestStack_start h k n path_exists workspace process_id ns_counter test_name num_links sender_extra_args = do {
     t \<leftarrow> SrtlaTestTopology_new h process_id ns_counter test_name num_links;
     (case t of
        None \<Rightarrow> State_Monad.return Panicked
      | Some (Inl e, c) \<Rightarrow> State_Monad.return (Finished (Inl e, c))
      | Some (Inr topo, c) \<Rightarrow> do {
          r \<leftarrow> start_processes h k n path_exists workspace topo sender_extra_args;
          (case r of
             None \<Rightarrow> State_Monad.return Unfinished
           | Some (Inl e) \<Rightarrow> do { _ \<leftarrow> SrtlaTestTopology_drop h topo; State_Monad.return (Finished (Inl e, c)) }
           | Some (Inr st) \<Rightarrow> State_Monad.return (Finished (Inr st, c)))
        })
   }"

section \<open>Callers in front of the sender\<close>

text \<open>Storing a new caller drops the one that was there.\<close>

definition set_caller :: "Host \<Rightarrow> nat \<Rightarrow> NamespaceProcess \<Rightarrow> SrtlaTestStack \<Rightarrow> SrtlaTestStack pact" where
  "set_caller h k caller st = do {
     r \<leftarrow> kill_all h k (case st_srt_caller st of None \<Rightarrow> [] | Some old \<Rightarrow> [old]);
     State_Monad.return (if r = None then None else Some (Inr (st\<lparr> st_srt_caller := Some caller \<rparr>)))
   }"

definition start_srt_caller :: "Host \<Rightarrow> nat \<Rightarrow> nat \<Rightarrow> SrtlaTestStack \<Rightarrow> SrtlaTestStack pact" where
  "start_srt_caller h k n st =
     then_ok (start_process h k n (tp_sender_ns (st_topo st)) ''srt-live-transmit''
       [''udp://:'' @ show_nat SRT_CALLER_INGEST_PORT, ''srt://127.0.0.1:'' @ show_nat SRTLA_SEND_SRT_PORT @ ''?mode=caller&latency=2000'']
       ''start srt-live-transmit caller'' (millis 750) ''srt caller'' (Some (SRT_CALLER_INGEST_PORT, ''wait for srt caller udp ingest'')))
     (\<lambda>caller. set_caller h k caller st)"

definition start_adaptive_sender :: "Host \<Rightarrow> nat \<Rightarrow> nat \<Rightarrow> string \<Rightarrow> nat \<Rightarrow> nat \<Rightarrow> SrtlaTestStack \<Rightarrow> SrtlaTestStack pact" where
  "start_adaptive_sender h k n sender_bin min_kbps max_kbps st =
     then_ok (start_process h k n (tp_sender_ns (st_topo st)) sender_bin
       [''127.0.0.1'', show_nat SRTLA_SEND_SRT_PORT, show_nat min_kbps, show_nat max_kbps, ''2000'']
       ''start adaptive SRT sender'' (millis 1500) ''adaptive sender'' None)
     (\<lambda>sender. set_caller h k sender st)"

text \<open>The compiler run for the adaptive sender; \<open>source_text\<close> is the text of its C file.\<close>

definition build_adaptive_sender :: "Host \<Rightarrow> string \<Rightarrow> string \<Rightarrow> string act" where
  "build_adaptive_sender h temp_dir source_text =
     (let src = temp_dir @ ''/network_sim_adaptive_srt_send.c''; bin = temp_dir @ ''/network_sim_adaptive_srt_send'' in
      ok_or_return (with_context ''write adaptive sender source'' (write_file h src source_text)) (\<lambda>_.
      ok_or_return (with_context ''pkg-config srt'' (cmd_output h [''pkg-config'', ''--cflags'', ''--libs'', ''srt''])) (\<lambda>flags_out.
      if \<not> out_success flags_out then State_Monad.return (Inl [''pkg-config srt failed: '' @ trim (out_stderr flags_out)])
      else
        ok_or_return (with_context ''cc adaptive sender''
          (cmd_output h ([''cc'', src, ''-O2'', ''-o'', bin] @ split_whitespace (out_stdout flags_out)))) (\<lambda>out.
        State_Monad.return
          (if \<not> out_success out then Inl [''compiling adaptive sender failed:'' @ newline @ trim (out_stderr out)] else Inr bin)))))"

section \<open>Queries and traffic\<close>

text \<open>The Python scripts, line by line: \<open>dq\<close> and \<open>bs\<close> are the double quote and the backslash.\<close>

abbreviation dq :: string where "dq \<equiv> [CHR 0x22]"
abbreviation bs :: string where "bs \<equiv> [CHR 0x5C]"

definition get_stats_request :: string where
  "get_stats_request =
     ''{'' @ dq @ ''jsonrpc'' @ dq @ '':'' @ dq @ ''2.0'' @ dq @ '','' @ dq @ ''id'' @ dq @ '':1,'' @ dq @ ''method'' @ dq @ '':'' @
     dq @ ''get_stats'' @ dq @ '','' @ dq @ ''params'' @ dq @ '':{}}''"

definition get_stats_script :: "string \<Rightarrow> string" where
  "get_stats_script socket_path =
     join newline
       [''import socket,sys'',
        ''s=socket.socket(socket.AF_UNIX,socket.SOCK_STREAM)'',
        ''s.settimeout(5)'',
        ''s.connect('' @ in_quotes socket_path @ '')'',
        ''s.sendall(b'' @ in_quotes (get_stats_request @ bs @ ''n'') @ '')'',
        ''buf=b'' @ in_quotes [],
        ''while not buf.endswith(b'' @ in_quotes (bs @ ''n'') @ ''):'',
        ''  c=s.recv(65536)'',
        ''  if not c: break'',
        ''  buf+=c'',
        ''s.close()'',
        ''sys.stdout.write(buf.decode())'']"

text \<open>Reading JSON, taking a member of an object and printing a value are parameters.\<close>

definition get_stats ::
  "Host \<Rightarrow> (string \<Rightarrow> string + 'v) \<Rightarrow> (string \<Rightarrow> 'v \<Rightarrow> 'v option) \<Rightarrow> ('v \<Rightarrow> string) \<Rightarrow> SrtlaTestStack \<Rightarrow> string \<Rightarrow> 'v act" where
  "get_stats h from_str get_member show_json st socket_path =
     ok_or_return (with_context ''query control socket''
       (exec_checked h (tp_sender_ns (st_topo st)) ''python3'' [''-c'', get_stats_script socket_path])) (\<lambda>out.
     State_Monad.return
       (case from_str (trim (out_stdout out)) of
          Inl e \<Rightarrow> Inl [''parse stats reply: '' @ out_stdout out, e]
        | Inr resp \<Rightarrow> (case get_member ''result'' resp of
              Some v \<Rightarrow> Inr v | None \<Rightarrow> Inl [''no result in stats reply: '' @ show_json resp])))"

definition inject_udp_packets :: "Host \<Rightarrow> Namespace \<Rightarrow> string \<Rightarrow> nat \<Rightarrow> nat \<Rightarrow> unit act" where
  "inject_udp_packets h ns target_ip port count =
     discard (with_context (''inject '' @ show_nat count @ '' UDP packets to '' @ target_ip @ '':'' @ show_nat port)
       (exec_checked h ns ''python3''
         [''-c'', ''import socket; s=socket.socket(socket.AF_INET,socket.SOCK_DGRAM); [s.sendto(b'' @ in_quotes (bs @ ''x00'') @ ''*188,('' @
            in_quotes target_ip @ '','' @ show_nat port @ '')) for _ in range('' @ show_nat count @ '')]; s.close()'']))"

definition TS_PACKET_BYTES :: nat where "TS_PACKET_BYTES = 188"
definition SRT_PAYLOAD_BYTES :: nat where "SRT_PAYLOAD_BYTES = 1316"

definition udp_stream_script :: "(f64 \<Rightarrow> string) \<Rightarrow> string \<Rightarrow> nat \<Rightarrow> nat \<Rightarrow> nat \<Rightarrow> Duration \<Rightarrow> anyhow + string" where
  "udp_stream_script show_f64 target_ip port packets_per_sec payload_bytes duration =
     (if packets_per_sec = 0 then Inl [''packets_per_sec must be > 0'']
      else if payload_bytes = 0 then Inl [''payload_bytes must be > 0'']
      else
        let interval = f64_div (Fin 1) (u64_to_f64 packets_per_sec); dur_secs = as_secs_f64 duration
        in Inr (join newline
             [''import socket,time'',
              ''s=socket.socket(socket.AF_INET,socket.SOCK_DGRAM)'',
              ''d=b'' @ in_quotes (bs @ ''xb8'') @ ''*'' @ show_nat payload_bytes,
              ''start=time.time(); i=0'',
              ''while True:'',
              ''    now=time.time()'',
              ''    if now-start>='' @ show_f64 dur_secs @ '': break'',
              ''    s.sendto(d,('' @ in_quotes target_ip @ '','' @ show_nat port @ ''))'',
              ''    i+=1'',
              ''    nxt=start+i*'' @ show_f64 interval,
              ''    slp=nxt-time.time()'',
              ''    if slp>0: time.sleep(slp)'',
              ''s.close()'',
              ''print(f'' @ in_quotes ''sent {i} packets'' @ '')'']))"

definition inject_udp_stream ::
  "Host \<Rightarrow> (f64 \<Rightarrow> string) \<Rightarrow> Namespace \<Rightarrow> string \<Rightarrow> nat \<Rightarrow> nat \<Rightarrow> nat \<Rightarrow> Duration \<Rightarrow> unit act" where
  "inject_udp_stream h show_f64 ns target_ip port packets_per_sec payload_bytes duration =
     (case udp_stream_script show_f64 target_ip port packets_per_sec payload_bytes duration of
        Inl e \<Rightarrow> State_Monad.return (Inl e)
      | Inr script \<Rightarrow> discard (with_context ''inject UDP stream'' (exec_checked h ns ''python3'' [''-c'', script])))"

definition spawn_udp_stream ::
  "Host \<Rightarrow> (f64 \<Rightarrow> string) \<Rightarrow> Namespace \<Rightarrow> string \<Rightarrow> nat \<Rightarrow> nat \<Rightarrow> nat \<Rightarrow> Duration \<Rightarrow> NamespaceProcess act" where
  "spawn_udp_stream h show_f64 ns target_ip port packets_per_sec payload_bytes duration =
     (case udp_stream_script show_f64 target_ip port packets_per_sec payload_bytes duration of
        Inl e \<Rightarrow> State_Monad.return (Inl e)
      | Inr script \<Rightarrow> with_context ''spawn UDP stream'' (spawn h ns ''python3'' [''-c'', script]))"

section \<open>Stopping\<close>

record StackOutput =
  so_srt_server_stdout :: "string list"
  so_srt_server_stderr :: "string list"
  so_srtla_rec_stdout :: "string list"
  so_srtla_rec_stderr :: "string list"
  so_srtla_send_stdout :: "string list"
  so_srtla_send_stderr :: "string list"
  so_srt_caller_stdout :: "string list"
  so_srt_caller_stderr :: "string list"

text \<open>A process is killed, its output is taken, and it is killed again when it goes out of scope.\<close>

definition stop_process :: "Host \<Rightarrow> nat \<Rightarrow> NamespaceProcess option \<Rightarrow> (trace, (string list \<times> string list) option) state" where
  "stop_process h k slot =
     (case slot of
        None \<Rightarrow> State_Monad.return (Some ([], []))
      | Some p \<Rightarrow> do {
          r \<leftarrow> kill h k p;
          (case r of
             None \<Rightarrow> State_Monad.return None
           | Some p' \<Rightarrow> do {
               log \<leftarrow> State_Monad.get;
               dropped \<leftarrow> kill h k p';
               State_Monad.return (map_option (\<lambda>_. (stdout_lines h log p', stderr_lines h log p')) dropped)
             })
        })"

fun stop_in_order :: "Host \<Rightarrow> nat \<Rightarrow> NamespaceProcess option list \<Rightarrow> (trace, (string list \<times> string list) list option) state" where
  "stop_in_order h k [] = State_Monad.return (Some [])"
| "stop_in_order h k (slot # slots) = do {
     r \<leftarrow> stop_process h k slot;
     (case r of
        None \<Rightarrow> State_Monad.return None
      | Some out \<Rightarrow> do { rs \<leftarrow> stop_in_order h k slots; State_Monad.return (map_option ((#) out) rs) })
   }"

text \<open>From the caller to the server: the reverse of the order in which they were started.\<close>

definition kill_order :: "SrtlaTestStack \<Rightarrow> NamespaceProcess option list" where
  "kill_order st = [st_srt_caller st, st_srtla_send st, st_srtla_rec st, st_srt_server st]"

definition taken :: "SrtlaTestStack \<Rightarrow> SrtlaTestStack" where
  "taken st = st\<lparr> st_srt_server := None, st_srtla_rec := None, st_srtla_send := None, st_srt_caller := None \<rparr>"

definition SrtlaTestStack_stop :: "Host \<Rightarrow> nat \<Rightarrow> SrtlaTestStack \<Rightarrow> (trace, (StackOutput \<times> SrtlaTestStack) option) state" where
  "SrtlaTestStack_stop h k st = do {
     outs \<leftarrow> stop_in_order h k (kill_order st);
     State_Monad.return
       (case outs of
          Some [caller_out, send_out, rec_out, srt_out] \<Rightarrow>
            Some (\<lparr> so_srt_server_stdout = fst srt_out, so_srt_server_stderr = snd srt_out,
                    so_srtla_rec_stdout = fst rec_out, so_srtla_rec_stderr = snd rec_out,
                    so_srtla_send_stdout = fst send_out, so_srtla_send_stderr = snd send_out,
                    so_srt_caller_stdout = fst caller_out, so_srt_caller_stderr = snd caller_out \<rparr>, taken st)
        | _ \<Rightarrow> None)
   }"

text \<open>Dropping the stack: the processes that have not been taken, then the namespaces of the topology.\<close>

definition SrtlaTestStack_drop :: "Host \<Rightarrow> nat \<Rightarrow> SrtlaTestStack \<Rightarrow> (trace, unit option) state" where
  "SrtlaTestStack_drop h k st = do {
     r \<leftarrow> kill_all h k (List.map_filter id (kill_order st));
     (case r of
        None \<Rightarrow> State_Monad.return None
      | Some _ \<Rightarrow> do { _ \<leftarrow> SrtlaTestTopology_drop h (st_topo st); State_Monad.return (Some ()) })
   }"

section \<open>What operations leave behind\<close>

text \<open>Operations that only append events of a kind.\<close>

definition emits :: "(sim_event \<Rightarrow> bool) \<Rightarrow> (trace, 'a) state \<Rightarrow> bool" where
  "emits P m \<longleftrightarrow> (\<forall>tr. \<exists>es. snd (run_state m tr) = tr @ es \<and> list_all P es)"

named_theorems emits_intros \<open>operations that only append events of a kind\<close>

lemma emitsD: "emits P m \<Longrightarrow> run_state m tr = (r, tr') \<Longrightarrow> \<exists>es. tr' = tr @ es \<and> list_all P es"
  unfolding emits_def by (metis snd_conv)

lemma emits_basic [emits_intros]:
  "emits P (State_Monad.return x)" "emits P State_Monad.get" "P (Ran cmd) \<Longrightarrow> emits P (cmd_output h cmd)" "P (Slept d) \<Longrightarrow> emits P (sleep d)"
  "P (Wrote path content) \<Longrightarrow> emits P (write_file h path content)"
  by (simp_all add: emits_def act_runs)

lemma emits_bind [emits_intros]: "emits P m \<Longrightarrow> (\<And>x. emits P (f x)) \<Longrightarrow> emits P (State_Monad.bind m f)"
  unfolding emits_def
proof
  fix tr
  assume m: "\<forall>tr. \<exists>es. snd (run_state m tr) = tr @ es \<and> list_all P es"
    and f: "\<And>x. \<forall>tr. \<exists>es. snd (run_state (f x) tr) = tr @ es \<and> list_all P es"
  obtain x tr1 where r: "run_state m tr = (x, tr1)" by fastforce
  obtain es where "tr1 = tr @ es" "list_all P es" using m r by (metis snd_conv)
  moreover obtain fs where "snd (run_state (f x) tr1) = tr1 @ fs" "list_all P fs" using f by blast
  ultimately show "\<exists>es. snd (run_state (State_Monad.bind m f) tr) = tr @ es \<and> list_all P es"
    using r by (intro exI [of _ "es @ fs"]) simp
qed

lemma emits_cases [emits_intros]:
  "(b \<Longrightarrow> emits P m) \<Longrightarrow> (\<not> b \<Longrightarrow> emits P m') \<Longrightarrow> emits P (if b then m else m')"
  "(\<And>e. emits P (f e)) \<Longrightarrow> (\<And>x. emits P (g x)) \<Longrightarrow> emits P (case r of Inl e \<Rightarrow> f e | Inr x \<Rightarrow> g x)"
  "emits P m \<Longrightarrow> (\<And>x. emits P (k x)) \<Longrightarrow> emits P (case q of None \<Rightarrow> m | Some x \<Rightarrow> k x)"
  "(\<And>x y. emits P (w x y)) \<Longrightarrow> emits P (case z of (x, y) \<Rightarrow> w x y)"
  "emits P (v t) \<Longrightarrow> emits P (let u = t in v u)"
  by (auto split: sum.split option.split prod.split)

lemma emits_wrappers [emits_intros]:
  "emits P m \<Longrightarrow> emits P (ignored m)" "emits P m \<Longrightarrow> emits P (with_context c m)" "emits P m \<Longrightarrow> emits P (discard m)"
  "emits P m \<Longrightarrow> (\<And>x. emits P (f x)) \<Longrightarrow> emits P (ok_or_return m f)" "emits P m \<Longrightarrow> emits P (polled m)"
  "emits P q \<Longrightarrow> emits P (in_context c q)"
  unfolding ignored_def with_context_def discard_def ok_or_return_def polled_def in_context_def
  by (intro emits_intros; assumption)+

lemma emits_in_order [emits_intros]: "(\<And>m. m \<in> set ms \<Longrightarrow> emits P m) \<Longrightarrow> emits P (in_order ms)"
  by (induction ms) (auto intro: emits_intros)

lemma emits_commands [emits_intros]:
  assumes "\<And>args. P (Ran (''sudo'' # args))"
  shows "emits P (sudo h args)" "emits P (sudo_checked h args)" "emits P (exec h ns cmd args)" "emits P (exec_checked h ns cmd args)"
  unfolding sudo_def sudo_checked_def exec_def exec_checked_def
  by (intro emits_intros assms)+

text \<open>Events that start no process, and those that moreover neither add nor delete a namespace.\<close>

fun no_spawn :: "sim_event \<Rightarrow> bool" where
  "no_spawn (Spawned cmd) \<longleftrightarrow> False"
| "no_spawn _ \<longleftrightarrow> True"

fun calm :: "sim_event \<Rightarrow> bool" where
  "calm (Spawned cmd) \<longleftrightarrow> False"
| "calm (Ran cmd) \<longleftrightarrow> \<not> (length cmd = 5 \<and> take 3 cmd = [''sudo'', ''ip'', ''netns''])"
| "calm _ \<longleftrightarrow> True"

lemma held_calm: "list_all calm es \<Longrightarrow> held h (tr @ es) = held h tr"
proof (induction es rule: rev_induct)
  case (snoc e es)
  have "held_change b e N = N" if "calm e" for b e N
    using that by (cases "(b, e, N)" rule: held_change.cases) (auto split: list.splits)
  then have "held h ((tr @ es) @ [e]) = held h (tr @ es)" using snoc.prems by (simp only: held_step) simp
  then show ?case using snoc by simp
qed simp

lemma calm_no_spawn: "calm e \<Longrightarrow> no_spawn e"
  by (cases e) simp_all

lemma emits_prefix: "emits P m \<Longrightarrow> run_state m tr = (r, tr') \<Longrightarrow> prefix tr tr'"
  using emitsD [of P m tr r tr'] by auto

lemma calm_held: "emits calm m \<Longrightarrow> run_state m tr = (r, tr') \<Longrightarrow> held h tr' = held h tr"
  using emitsD [of calm m tr r tr'] held_calm by blast

section \<open>The end of a process\<close>

text \<open>Between two moments \<open>u\<close> and \<open>u'\<close> of a trace. A signal sent to a namespace: its processes are asked for, and each of them is sent it.\<close>

definition signalled :: "Host \<Rightarrow> string \<Rightarrow> string \<Rightarrow> trace \<Rightarrow> trace \<Rightarrow> bool" where
  "signalled h scope signal u u' \<longleftrightarrow>
     u' = u @ Ran (pids_command scope) #
       (if pids_in h scope u = [] then [] else [Ran ([''sudo'', ''-n'', ''kill'', signal, ''--''] @ map show_nat (pids_in h scope u))])"

text \<open>The child has been seen to have exited, and after that its namespace to have no process.\<close>

definition exited :: "Host \<Rightarrow> nat \<Rightarrow> trace \<Rightarrow> trace \<Rightarrow> bool" where
  "exited h child u u' \<longleftrightarrow> (\<exists>v. prefix u v \<and> prefix v u' \<and> h_exited h v child \<noteq> None)"

definition stopped :: "Host \<Rightarrow> nat \<Rightarrow> string \<Rightarrow> trace \<Rightarrow> trace \<Rightarrow> bool" where
  "stopped h child scope u u' \<longleftrightarrow>
     (\<exists>w. exited h child u w \<and> prefix (w @ [Ran (pids_command scope)]) u' \<and> pids_in h scope w = [])"

text \<open>Everything that can be done has been done: the processes of the namespace were sent TERM and had two seconds, then they were sent KILL,
  the child was killed too, and they had two seconds more.\<close>

definition killed_hard :: "Host \<Rightarrow> nat \<Rightarrow> string \<Rightarrow> trace \<Rightarrow> trace \<Rightarrow> bool" where
  "killed_hard h child scope u u' \<longleftrightarrow>
     (\<exists>u1 u2 u3 u4 u5. prefix u u1 \<and> signalled h scope ''-TERM'' u1 u2 \<and>
        prefix u2 u3 \<and> h_clock h u2 + 2 * NANOS_PER_SEC \<le> h_clock h u3 \<and> signalled h scope ''-KILL'' u3 u4 \<and>
        prefix (u4 @ [Killed child]) u5 \<and> h_clock h (u4 @ [Killed child]) + 2 * NANOS_PER_SEC \<le> h_clock h u5 \<and> prefix u5 u')"

definition ended :: "Host \<Rightarrow> nat \<Rightarrow> string \<Rightarrow> trace \<Rightarrow> trace \<Rightarrow> bool" where
  "ended h child scope u u' \<longleftrightarrow> stopped h child scope u u' \<or> killed_hard h child scope u u'"

lemma exited_mono: "exited h child u u' \<Longrightarrow> prefix t u \<Longrightarrow> prefix u' t' \<Longrightarrow> exited h child t t'"
  unfolding exited_def by (meson prefix_order.trans)

lemma ended_mono: "ended h child scope u u' \<Longrightarrow> prefix t u \<Longrightarrow> prefix u' t' \<Longrightarrow> ended h child scope t t'"
  unfolding ended_def stopped_def killed_hard_def by (meson exited_mono prefix_order.refl prefix_order.trans)

text \<open>The processes started between two moments: the child, its namespace, and the moment of its start.\<close>

definition started :: "Host \<Rightarrow> trace \<Rightarrow> trace \<Rightarrow> (nat \<times> string \<times> trace) set" where
  "started h u u' = {(child, scope, v). \<exists>cmd. prefix u v \<and> prefix (v @ [Spawned cmd]) u' \<and> h_spawn h v cmd = Inr child \<and> scope = cmd ! 4}"

lemma started_split:
  assumes "prefix w u'"
  shows "started h u u' \<subseteq> started h u w \<union> started h w u'"
proof -
  have "prefix (v @ [Spawned cmd]) w \<or> prefix w v" if "prefix (v @ [Spawned cmd]) u'" for v cmd
    using prefix_same_cases [OF that assms] by (auto simp: prefix_snoc)
  then show ?thesis unfolding started_def by fastforce
qed

lemma started_none: "list_all no_spawn es \<Longrightarrow> started h tr (tr @ es) = {}"
  by (fastforce simp: started_def prefix_def list_all_iff)

lemma started_one: "started h tr (tr @ [Spawned cmd]) = {(child, scope, v). v = tr \<and> h_spawn h tr cmd = Inr child \<and> scope = cmd ! 4}"
  by (auto simp: started_def prefix_def Cons_eq_append_conv)

lemma no_spawn_started: "emits no_spawn m \<Longrightarrow> run_state m tr = (r, tr') \<Longrightarrow> started h tr tr' = {}"
  using emitsD [of no_spawn m tr r tr'] started_none by blast

lemma calm_started: "emits calm m \<Longrightarrow> run_state m tr = (r, tr') \<Longrightarrow> started h tr tr' = {}"
  using emitsD [of calm m tr r tr'] started_none calm_no_spawn by (metis list.pred_mono_strong)

section \<open>Teardown reaches the child\<close>

lemma emits_exec [emits_intros]: "emits calm (exec h ns cmd args)"
  unfolding exec_def sudo_def by (intro emits_intros) simp

lemma emits_scope [emits_intros]: "emits calm (scope_pids h p)" "emits calm (signal_scope h p signal)"
  unfolding scope_pids_def signal_scope_def by (intro emits_intros; simp)+

lemma emits_wait [emits_intros]: "emits calm (wait_stopped_loop h deadline polls p)"
  by (induction polls arbitrary: p) (auto simp: Let_def intro!: emits_intros)

lemma emits_wait_until [emits_intros]: "emits calm (wait_until_stopped h timeout polls p)"
  unfolding wait_until_stopped_def by (intro emits_intros)

lemma emits_append:
  "P e \<Longrightarrow> (\<And>tr u. emits P (f tr u)) \<Longrightarrow>
   emits P (State_Monad.bind State_Monad.get (\<lambda>tr. State_Monad.bind (State_Monad.set (tr @ [e])) (f tr)))"
  unfolding emits_def
proof
  fix tr
  assume P: "P e" and f: "\<And>tr u. \<forall>tr1. \<exists>es. snd (run_state (f tr u) tr1) = tr1 @ es \<and> list_all P es"
  obtain es where "snd (run_state (f tr ()) (tr @ [e])) = (tr @ [e]) @ es" "list_all P es" using f by blast
  then show "\<exists>es. snd (run_state (State_Monad.bind State_Monad.get (\<lambda>tr. State_Monad.bind (State_Monad.set (tr @ [e])) (f tr))) tr) = tr @ es \<and>
      list_all P es"
    using P by (intro exI [of _ "e # es"]) simp
qed

lemma emits_kill [emits_intros]: "emits calm (kill h k p)"
proof -
  define killed where "killed = (\<lambda>p1. do {
      _ \<leftarrow> signal_scope h p1 ''-KILL'';
      tr \<leftarrow> State_Monad.get;
      State_Monad.set (tr @ [Killed (np_child p1)]);
      w2 \<leftarrow> wait_until_stopped h (2 * NANOS_PER_SEC) k p1;
      State_Monad.return (map_option snd w2)
    })"
  have "emits calm (killed p1)" for p1
    unfolding killed_def by (rule emits_bind [OF emits_scope(2)], rule emits_append, simp, intro emits_intros)
  then have "emits calm (case w1 of None \<Rightarrow> State_Monad.return None | Some (True, p1) \<Rightarrow> State_Monad.return (Some p1)
      | Some (False, p1) \<Rightarrow> killed p1)" for w1
    by (auto intro: emits_intros split: option.split bool.split)
  then have "emits calm (kill_now h k p)" unfolding kill_now_def killed_def by (intro emits_bind emits_scope emits_wait_until)
  then show ?thesis unfolding kill_def by (intro emits_intros)
qed

lemma wait_loop_outcome:
  "run_state (wait_stopped_loop h deadline polls p) tr = (Some (b, p1), tr1) \<Longrightarrow> prefix u tr \<Longrightarrow> (np_reaped p \<longrightarrow> exited h (np_child p) u tr) \<Longrightarrow>
   np_child p1 = np_child p \<and> np_scope p1 = np_scope p \<and> prefix tr tr1 \<and>
   (if b then stopped h (np_child p) (np_scope p) u tr1 else deadline \<le> h_clock h tr1) \<and> (np_reaped p1 \<longrightarrow> exited h (np_child p) u tr1)"
proof (induction polls arbitrary: p tr)
  case (Suc polls)
  define q where "q = try_wait h tr p"
  let ?tr2 = "asked q tr"
  have pre: "prefix tr ?tr2" "prefix u ?tr2" using Suc.prems(2) by (auto simp: asked_def)
  have q: "np_child q = np_child p" "np_scope q = np_scope p" "np_reaped q \<longrightarrow> exited h (np_child p) u tr"
    using Suc.prems(2,3) by (auto simp: q_def try_wait_def exited_def)
  have later: "np_reaped q \<longrightarrow> exited h (np_child p) u v" if "prefix tr v" for v
    using q(3) that exited_mono by (metis prefix_order.refl)
  have stop: "stopped h (np_child p) (np_scope p) u ?tr2" if "np_reaped q" "pids_in h (np_scope q) tr = []"
    unfolding stopped_def using that q by (intro exI [of _ tr]) (simp add: asked_def)
  have IH: "run_state (wait_stopped_loop h deadline polls q) (?tr2 @ [Slept (millis 100)]) = (Some (b, p1), tr1) \<Longrightarrow> ?case"
    using Suc.IH [of q "?tr2 @ [Slept (millis 100)]"] later [of "?tr2 @ [Slept (millis 100)]"] pre q(1,2) by (auto dest: append_prefixD)
  show ?case using Suc.prems(1) q stop later [OF pre(1)] pre IH
    unfolding wait_loop_step Let_def q_def [symmetric] by (auto split: if_splits)
qed simp

lemma wait_until_outcome:
  assumes "run_state (wait_until_stopped h timeout polls p) tr = (Some (b, p1), tr1)" "prefix u tr" "np_reaped p \<longrightarrow> exited h (np_child p) u tr"
  shows "np_child p1 = np_child p" "np_scope p1 = np_scope p" "prefix tr tr1"
    "if b then stopped h (np_child p) (np_scope p) u tr1 else h_clock h tr + timeout \<le> h_clock h tr1"
    "np_reaped p1 \<longrightarrow> exited h (np_child p) u tr1"
  using wait_loop_outcome [OF _ assms(2,3), of "h_clock h tr + timeout" polls b p1 tr1] assms(1) by (simp_all add: wait_until_stopped_def)

lemma signal_runs: "run_state (signal_scope h p signal) tr = ((), tr1) \<Longrightarrow> signalled h (np_scope p) signal tr tr1"
  by (auto simp: signal_scope_def signalled_def act_runs run_scope_pids split: if_splits)

lemma kill_ends:
  assumes "clock_ok h" "\<not> np_reaped p"
  obtains p' tr' where "run_state (kill h 21 p) tr = (Some p', tr')" "ended h (np_child p) (np_scope p) tr tr'"
proof -
  obtain p' tr' where k: "run_state (kill h 21 p) tr = (Some p', tr')" "run_state (kill_now h 21 p) tr = (Some p', tr')"
    using kill_runs [OF assms(1)] assms(2) by metis
  have "ended h (np_child p) (np_scope p) tr tr'"
  proof (rule kill_now_runs [OF assms(1), of p tr])
    fix p1 q tr1 tr2 u b
    assume run: "run_state (kill_now h 21 p) tr = (Some q, u)" and s: "run_state (signal_scope h p ''-TERM'') tr = ((), tr1)"
      and w: "run_state (wait_until_stopped h (2 * NANOS_PER_SEC) 21 p) tr1 = (Some (b, p1), tr2)"
      and e: "if b then q = p1 \<and> u = tr2
        else (\<exists>tr3 c. run_state (signal_scope h p1 ''-KILL'') tr2 = ((), tr3) \<and>
          run_state (wait_until_stopped h (2 * NANOS_PER_SEC) 21 p1) (tr3 @ [Killed (np_child p1)]) = (Some (c, q), u))"
    note s = signal_runs [OF s]
    have pre: "prefix tr tr1" using s by (simp add: signalled_def)
    have "np_reaped p \<longrightarrow> exited h (np_child p) tr tr1" using assms(2) by simp
    note r = wait_until_outcome [OF w pre this]
    show ?thesis
    proof (cases b)
      case False
      then obtain tr3 c where 3: "run_state (signal_scope h p1 ''-KILL'') tr2 = ((), tr3)"
          "run_state (wait_until_stopped h (2 * NANOS_PER_SEC) 21 p1) (tr3 @ [Killed (np_child p1)]) = (Some (c, q), u)"
        using e by auto
      note s2 = signal_runs [OF 3(1)]
      have pre2: "prefix tr2 (tr3 @ [Killed (np_child p1)])" using s2 by (auto simp: signalled_def)
      then have "np_reaped p1 \<longrightarrow> exited h (np_child p1) tr (tr3 @ [Killed (np_child p1)])" "prefix tr (tr3 @ [Killed (np_child p1)])"
        using r(1,3,5) pre exited_mono by (metis prefix_order.refl, metis prefix_order.trans)
      note o = wait_until_outcome(3,4) [OF 3(2) this(2,1)]
      have "killed_hard h (np_child p) (np_scope p) tr u" if "\<not> c"
        unfolding killed_hard_def using s s2 r False o that
        by (intro exI [of _ tr] exI [of _ tr1] exI [of _ tr2] exI [of _ tr3] exI [of _ u]) simp
      then show ?thesis using o(2) r(1,2) run k(2) by (cases c) (auto simp: ended_def)
    qed (use e r run k(2) in \<open>auto simp: ended_def\<close>)
  qed
  then show ?thesis using that [OF k(1)] by blast
qed

section \<open>Nothing outlives a failure\<close>

text \<open>Every process that was started is in a set, or has come to its end since.\<close>

definition accounted :: "Host \<Rightarrow> NamespaceProcess set \<Rightarrow> trace \<Rightarrow> trace \<Rightarrow> bool" where
  "accounted h S u u' \<longleftrightarrow>
     (\<forall>(child, scope, v) \<in> started h u u'. (\<exists>p \<in> S. np_child p = child \<and> np_scope p = scope) \<or> ended h child scope v u')"

lemma accounted_none: "started h u u' = {} \<Longrightarrow> accounted h S u u'"
  by (simp add: accounted_def)

lemma accounted_trans:
  assumes "accounted h S u w" "accounted h T w u'" "prefix u w" "prefix w u'"
    "\<And>p. p \<in> S \<Longrightarrow> p \<in> T \<or> ended h (np_child p) (np_scope p) w u'"
  shows "accounted h T u u'"
  unfolding accounted_def
proof (safe)
  fix child scope v
  assume new: "(child, scope, v) \<in> started h u u'" and no: "\<not> ended h child scope v u'"
  show "\<exists>p \<in> T. np_child p = child \<and> np_scope p = scope"
  proof (cases "(child, scope, v) \<in> started h w u'")
    case True
    then show ?thesis using assms(2) no by (auto simp: accounted_def)
  next
    case False
    then have "(child, scope, v) \<in> started h u w" using new started_split [OF assms(4)] by blast
    moreover from this have "prefix v w" by (auto simp: started_def dest: append_prefixD)
    ultimately show ?thesis using assms(1,4,5) no unfolding accounted_def by (fastforce intro: ended_mono)
  qed
qed

text \<open>Where the processes \<open>S\<close> are running: a step ends; when it fails, they and all it has started have come to their end; when it succeeds,
  they are among the processes of its result, and what else it has started has come to its end.\<close>

definition tidy_outcome :: "Host \<Rightarrow> NamespaceProcess set \<Rightarrow> ('a \<Rightarrow> NamespaceProcess set) \<Rightarrow> anyhow + 'a \<Rightarrow> trace \<Rightarrow> trace \<Rightarrow> bool" where
  "tidy_outcome h S F r tr tr' \<longleftrightarrow> prefix tr tr' \<and> held h tr' = held h tr \<and>
     (case r of
        Inl _ \<Rightarrow> accounted h {} tr tr' \<and> (\<forall>p \<in> S. ended h (np_child p) (np_scope p) tr tr')
      | Inr x \<Rightarrow> S \<subseteq> F x \<and> (\<forall>p \<in> F x. \<not> np_reaped p) \<and> accounted h (F x) tr tr')"

definition tidy :: "Host \<Rightarrow> NamespaceProcess set \<Rightarrow> ('a \<Rightarrow> NamespaceProcess set) \<Rightarrow> 'a pact \<Rightarrow> bool" where
  "tidy h S F m \<longleftrightarrow> (\<forall>tr. \<exists>r tr'. run_state m tr = (Some r, tr') \<and> tidy_outcome h S F r tr tr')"

lemma tidyE:
  assumes "tidy h S F m"
  obtains (failed) e tr' where "run_state m tr = (Some (Inl e), tr')" "tidy_outcome h S F (Inl e) tr tr'"
    | (came_up) x tr' where "run_state m tr = (Some (Inr x), tr')" "tidy_outcome h S F (Inr x) tr tr'"
proof -
  obtain r tr' where "run_state m tr = (Some r, tr')" "tidy_outcome h S F r tr tr'" using assms unfolding tidy_def by blast
  then show ?thesis using that by (cases r) simp_all
qed

lemma tidy_outcome_trans:
  assumes "tidy_outcome h S F (Inr x) tr tr1" "tidy_outcome h (F x) G r tr1 tr2"
  shows "tidy_outcome h S G r tr tr2"
proof -
  note a = assms [unfolded tidy_outcome_def]
  show ?thesis
  proof (cases r)
    case (Inl e)
    have "accounted h {} tr tr2" by (rule accounted_trans [of h "F x" tr tr1 "{}" tr2]) (use a Inl in auto)
    moreover have "ended h (np_child p) (np_scope p) tr tr2" if "p \<in> S" for p
    proof -
      have "ended h (np_child p) (np_scope p) tr1 tr2" using a that Inl by auto
      then show ?thesis using a by (auto intro: ended_mono)
    qed
    moreover have "prefix tr tr2" using a by (auto intro: prefix_order.trans)
    ultimately show ?thesis using a Inl by (simp add: tidy_outcome_def)
  next
    case (Inr y)
    have "accounted h (G y) tr tr2" by (rule accounted_trans [of h "F x" tr tr1 "G y" tr2]) (use a Inr in auto)
    moreover have "prefix tr tr2" using a by (auto intro: prefix_order.trans)
    ultimately show ?thesis using a Inr by (auto simp: tidy_outcome_def)
  qed
qed

lemma kill_all_ends:
  assumes "clock_ok h"
  shows "\<forall>p \<in> set ps. \<not> np_reaped p \<Longrightarrow> \<exists>qs tr'. run_state (kill_all h 21 ps) tr = (Some qs, tr') \<and> prefix tr tr' \<and> held h tr' = held h tr \<and>
    accounted h {} tr tr' \<and> (\<forall>p \<in> set ps. ended h (np_child p) (np_scope p) tr tr')"
proof (induction ps arbitrary: tr)
  case Nil
  show ?case using started_none [of "[]" h tr] by (simp add: accounted_none)
next
  case (Cons p ps)
  then have "\<not> np_reaped p" by simp
  then obtain p' tr1 where k: "run_state (kill h 21 p) tr = (Some p', tr1)" "ended h (np_child p) (np_scope p) tr tr1"
    using kill_ends [OF assms] by metis
  note calm = calm_held [OF emits_kill k(1), of h] emits_prefix [OF emits_kill k(1)] accounted_none [OF calm_started [OF emits_kill k(1)], of h "{}"]
  obtain qs tr2 where rest: "run_state (kill_all h 21 ps) tr1 = (Some qs, tr2)" "prefix tr1 tr2" "held h tr2 = held h tr1" "accounted h {} tr1 tr2"
    "\<forall>p \<in> set ps. ended h (np_child p) (np_scope p) tr1 tr2"
    using Cons.IH [of tr1] Cons.prems by auto
  have "accounted h {} tr tr2" by (rule accounted_trans [OF calm(3) rest(4) calm(2) rest(2)]) simp
  moreover have "ended h (np_child q) (np_scope q) tr tr2" if "q \<in> set (p # ps)" for q
    using that k(2) rest(2,5) calm(2) by (auto intro: ended_mono)
  moreover have "prefix tr tr2" using calm(2) rest(2) by (rule prefix_order.trans)
  ultimately show ?case using k(1) rest(1,3) calm(1) by simp
qed

lemma tidy_calm:
  assumes "emits calm m" "\<And>tr. \<exists>r. fst (run_state m tr) = Some r"
  shows "tidy h {} (\<lambda>_. {}) m"
  unfolding tidy_def
proof
  fix tr
  obtain r where r: "run_state m tr = (Some r, snd (run_state m tr))" using assms(2) [of tr] by (metis prod.collapse)
  then show "\<exists>r tr'. run_state m tr = (Some r, tr') \<and> tidy_outcome h {} (\<lambda>_. {}) r tr tr'"
    using calm_held [OF assms(1) r, of h] emits_prefix [OF assms(1) r] accounted_none [OF calm_started [OF assms(1) r], of h]
    by (intro exI [of _ r] exI [of _ "snd (run_state m tr)"]) (simp add: tidy_outcome_def split: sum.split)
qed

lemma tidy_then:
  assumes "tidy h S F m" "\<And>x. S \<subseteq> F x \<Longrightarrow> \<forall>p \<in> F x. \<not> np_reaped p \<Longrightarrow> tidy h (F x) G (k x)"
  shows "tidy h S G (then_ok m k)"
  unfolding tidy_def
proof
  fix tr
  show "\<exists>r tr'. run_state (then_ok m k) tr = (Some r, tr') \<and> tidy_outcome h S G r tr tr'"
    using assms(1)
  proof (cases rule: tidyE [where tr = tr])
    case (failed e tr1)
    then show ?thesis by (simp add: then_ok_def tidy_outcome_def)
  next
    case (came_up x tr1)
    then have "tidy h (F x) G (k x)" by (intro assms(2)) (simp_all add: tidy_outcome_def)
    then obtain r tr2 where "run_state (k x) tr1 = (Some r, tr2)" "tidy_outcome h (F x) G r tr1 tr2" unfolding tidy_def by blast
    then show ?thesis using came_up tidy_outcome_trans by (fastforce simp: then_ok_def)
  qed
qed

lemma tidy_or_kill:
  assumes "clock_ok h" "tidy h {} F m" "\<forall>p \<in> set ps. \<not> np_reaped p"
  shows "tidy h (set ps) (\<lambda>x. F x \<union> set ps) (or_kill h 21 ps m)"
  unfolding tidy_def
proof
  fix tr
  show "\<exists>r tr'. run_state (or_kill h 21 ps m) tr = (Some r, tr') \<and> tidy_outcome h (set ps) (\<lambda>x. F x \<union> set ps) r tr tr'"
    using assms(2)
  proof (cases rule: tidyE [where tr = tr])
    case (failed e tr1)
    note a = failed(2) [unfolded tidy_outcome_def]
    obtain qs tr2 where k: "run_state (kill_all h 21 ps) tr1 = (Some qs, tr2)" "prefix tr1 tr2" "held h tr2 = held h tr1" "accounted h {} tr1 tr2"
      "\<forall>p \<in> set ps. ended h (np_child p) (np_scope p) tr1 tr2"
      using kill_all_ends [OF assms(1,3), of tr1] by blast
    have "accounted h {} tr tr2" by (rule accounted_trans [of h "{}" tr tr1]) (use a k in simp_all)
    moreover have "\<forall>p \<in> set ps. ended h (np_child p) (np_scope p) tr tr2" using a k(5) by (auto intro: ended_mono)
    moreover have "prefix tr tr2" using a k(2) by (auto intro: prefix_order.trans)
    ultimately have "tidy_outcome h (set ps) (\<lambda>x. F x \<union> set ps) (Inl e) tr tr2" using a k(3) by (simp add: tidy_outcome_def)
    then show ?thesis using failed(1) k(1) by (simp add: or_kill_def)
  next
    case (came_up x tr1)
    then have "tidy_outcome h (set ps) (\<lambda>x. F x \<union> set ps) (Inr x) tr tr1"
      using assms(3) by (fastforce simp: tidy_outcome_def accounted_def)
    then show ?thesis using came_up(1) by (simp add: or_kill_def)
  qed
qed

lemma tidy_return: "S \<subseteq> F x \<Longrightarrow> \<forall>p \<in> F x. \<not> np_reaped p \<Longrightarrow> tidy h S F (State_Monad.return (Some (Inr x)))"
  using started_none [of "[]"] by (auto simp: tidy_def tidy_outcome_def accounted_def)

lemma tidy_polled_calm: "emits calm m \<Longrightarrow> tidy h {} (\<lambda>_. {}) (polled m)"
  by (rule tidy_calm) (auto intro: emits_intros simp: polled_def split: prod.split)

text \<open>Spawning, after other commands that leave nothing.\<close>

lemma tidy_spawn:
  assumes "emits calm m"
  shows "tidy h {} (\<lambda>p. {p}) (polled (ok_or_return m (\<lambda>x. with_context c (spawn_with_env h ns (bin x) (args x) env))))"
  unfolding tidy_def
proof
  fix tr
  obtain q tr1 where m: "run_state m tr = (q, tr1)" by fastforce
  note calm = calm_held [OF assms m, of h] emits_prefix [OF assms m] calm_started [OF assms m, of h]
  show "\<exists>r tr'. run_state (polled (ok_or_return m (\<lambda>x. with_context c (spawn_with_env h ns (bin x) (args x) env)))) tr = (Some r, tr') \<and>
      tidy_outcome h {} (\<lambda>p. {p}) r tr tr'"
  proof (cases q)
    case (Inl e)
    then show ?thesis using m calm by (simp add: polled_def act_runs tidy_outcome_def accounted_none)
  next
    case (Inr x)
    define cmd where "cmd = [''sudo'', ''ip'', ''netns'', ''exec'', ns_name ns] @
       (if env = [] then [] else ''env'' # map (\<lambda>(k, v). k @ ''='' @ v) env) @ [bin x] @ args x"
    have held: "held h (tr1 @ [Spawned cmd]) = held h tr1" by (simp add: held_step)
    have new: "started h tr (tr1 @ [Spawned cmd]) \<subseteq> {(child, scope, v). h_spawn h tr1 cmd = Inr child \<and> scope = ns_name ns}"
      using started_split [of tr1 "tr1 @ [Spawned cmd]" h tr] calm(3) by (auto simp: started_one cmd_def)
    have pre: "prefix tr (tr1 @ [Spawned cmd])" using calm(2) by (rule prefix_prefix)
    have run: "run_state (polled (ok_or_return m (\<lambda>x. with_context c (spawn_with_env h ns (bin x) (args x) env)))) tr =
        (Some (case h_spawn h tr1 cmd of Inl e \<Rightarrow> Inl [c, ''spawn '' @ bin x @ '' in ns:'' @ ns_name ns, e]
           | Inr k \<Rightarrow> Inr \<lparr> np_child = k, np_label = bin x @ '' in ns:'' @ ns_name ns, np_scope = ns_name ns, np_reaped = False \<rparr>), tr1 @ [Spawned cmd])"
      using m Inr by (simp add: polled_def act_runs spawn_with_env_def cmd_def Let_def split: sum.split)
    show ?thesis
      unfolding run using held pre new calm(1)
      by (cases "h_spawn h tr1 cmd") (auto simp: tidy_outcome_def accounted_def)
  qed
qed

lemma tidy_or_kill_one:
  assumes "clock_ok h" "tidy h {} (\<lambda>_. {}) m" "\<not> np_reaped p"
  shows "tidy h {p} (\<lambda>p. {p}) (then_ok (or_kill h 21 [p] m) (\<lambda>_. State_Monad.return (Some (Inr p))))"
  by (rule tidy_then [where F = "\<lambda>_. {p}"]) (use tidy_or_kill [OF assms(1,2), of "[p]"] assms(3) in \<open>auto intro: tidy_return\<close>)

lemma tidy_listener:
  assumes "clock_ok h"
  shows "tidy h {} (\<lambda>_. {}) (in_context c (wait_for_udp_listener h 27 ns port (5 * NANOS_PER_SEC)))"
proof (rule tidy_calm)
  have "emits calm (poll_until h ns a seen failure s t n)" for a seen failure s t n
    by (induction n) (auto intro!: emits_intros)
  then show "emits calm (in_context c (wait_for_udp_listener h 27 ns port (5 * NANOS_PER_SEC)))"
    unfolding wait_for_udp_listener_def by (intro emits_intros)
  show "\<exists>r. fst (run_state (in_context c (wait_for_udp_listener h 27 ns port (5 * NANOS_PER_SEC))) tr) = Some r" for tr
    using wait_for_listener_returns [OF assms, of "5 * NANOS_PER_SEC" 26 ns port tr]
    by (auto simp: in_context_def NANOS_PER_SEC_def split: prod.split)
qed

lemma tidy_start_process:
  assumes "clock_ok h"
  shows "tidy h {} (\<lambda>p. {p}) (start_process h 21 27 ns binary args ctx pause name listener)"
proof -
  have "emits calm (still_up h name pause p)" for p unfolding still_up_def by (intro emits_intros) simp
  then have "tidy h {} (\<lambda>_. {}) (polled (still_up h name pause p))" for p by (rule tidy_polled_calm)
  moreover have "tidy h {} (\<lambda>_. {}) (case listener of None \<Rightarrow> State_Monad.return (Some (Inr ()))
      | Some (port, wait_ctx) \<Rightarrow> in_context wait_ctx (wait_for_udp_listener h 27 ns port (5 * NANOS_PER_SEC)))"
    using tidy_listener [OF assms] by (auto split: option.split intro: tidy_return)
  ultimately have "tidy h {} (\<lambda>_. {}) (then_ok (polled (still_up h name pause p)) (\<lambda>_.
      case listener of None \<Rightarrow> State_Monad.return (Some (Inr ()))
      | Some (port, wait_ctx) \<Rightarrow> in_context wait_ctx (wait_for_udp_listener h 27 ns port (5 * NANOS_PER_SEC))))" for p
    by (intro tidy_then [where F = "\<lambda>_. {}"])
  note guarded = tidy_or_kill_one [OF assms this]
  have "emits calm (State_Monad.return (Inr ()))" by (rule emits_basic(1))
  from tidy_spawn [OF this, of h ctx ns "\<lambda>_. binary" "\<lambda>_. args" "[]"]
  have "tidy h {} (\<lambda>p. {p}) (polled (with_context ctx (spawn h ns binary args)))"
    by (simp add: spawn_def ok_or_return_def)
  then show ?thesis
    unfolding start_process_def by (rule tidy_then [where F = "\<lambda>p. {p}"]) (rule guarded, simp)
qed

text \<open>The processes of a stack, each in its slot.\<close>

definition stack_processes :: "SrtlaTestStack \<Rightarrow> NamespaceProcess set" where
  "stack_processes st = set (List.map_filter id (kill_order st))"

lemma tidy_start_processes:
  assumes "clock_ok h"
  shows "tidy h {} stack_processes (start_processes h 21 27 path_exists workspace topo sender_extra_args)"
proof -
  have "emits calm (write_ip_list h topo)" unfolding write_ip_list_def by (intro emits_intros) simp
  then have ips: "tidy h {} (\<lambda>_. {}) (polled (write_ip_list h topo))" by (rule tidy_polled_calm)
  have server: "tidy h {} (\<lambda>p. {p}) (start_srt_server h 21 27 topo)"
    unfolding start_srt_server_def by (rule tidy_start_process [OF assms])
  have receiver: "tidy h {s} (\<lambda>p. {p, s}) (or_kill h 21 [s] (start_srtla_rec h 21 27 topo))" if "\<not> np_reaped s" for s
    using tidy_or_kill [OF assms tidy_start_process [OF assms], of "[s]"] that unfolding start_srtla_rec_def by (simp add: insert_commute)
  have "emits calm (find_srtla_send_binary h path_exists workspace)"
    unfolding find_srtla_send_binary_def check_binary_def Let_def by (intro emits_intros) simp
  then have "tidy h {} (\<lambda>p. {p}) (polled (start_srtla_send h path_exists workspace topo path sender_extra_args))" for path
    unfolding start_srtla_send_def by (rule tidy_spawn)
  from tidy_or_kill [OF assms this]
  have sender: "tidy h {r, s} (\<lambda>p. {p} \<union> {r, s})
      (or_kill h 21 [r, s] (polled (start_srtla_send h path_exists workspace topo path sender_extra_args)))"
    if "\<not> np_reaped r" "\<not> np_reaped s" for r s path
    using that by (metis empty_set list.simps(15) set_ConsD singletonD)
  show ?thesis
    unfolding start_processes_def
    by (intro tidy_then [OF ips] tidy_then [OF server] tidy_then [OF receiver] tidy_then [OF sender] tidy_return)
      (auto simp: stack_processes_def kill_order_def List.map_filter_def)
qed

lemma emits_topology: "emits no_spawn (SrtlaTestTopology_new h process_id ns_counter test_name num_links)" "emits no_spawn (SrtlaTestTopology_drop h topo)"
proof -
  have drop: "emits no_spawn (Namespace_drop h ns)" for ns unfolding Namespace_drop_def by (intro emits_intros) simp
  then have or_drop: "emits no_spawn (or_drop h nss m)" if "emits no_spawn m" for nss and m :: "'b act"
    unfolding or_drop_def by (intro emits_intros that) auto
  have new: "emits no_spawn (Namespace_new h name)" for name unfolding Namespace_new_def by (intro emits_intros) simp_all
  have veth: "emits no_spawn (add_uplink h ns1 ns2 pid i)" for ns1 ns2 pid i
    unfolding add_uplink_def add_veth_link_def by (intro emits_intros) (auto intro!: emits_intros)
  have routes: "emits no_spawn (wire_bonding_routes h t)" for t
    unfolding wire_bonding_routes_def disable_rp_filter_def wire_uplink_def by (rule emits_in_order) (auto intro!: emits_intros)
  have build: "emits no_spawn (build_topology h process_id num_links ns1 ns2)" for ns1 ns2
    unfolding build_topology_def Let_def by (intro emits_intros or_drop routes) (auto intro: veth)
  show "emits no_spawn (SrtlaTestTopology_new h process_id ns_counter test_name num_links)"
    unfolding SrtlaTestTopology_new_def Let_def by (intro emits_intros new build or_drop)
  show "emits no_spawn (SrtlaTestTopology_drop h topo)"
    unfolding SrtlaTestTopology_drop_def by (rule emits_in_order) (auto intro: drop)
qed

text \<open>Nothing is left of what came to be between two moments, as far as it can be removed: every process has come to its end, and for every
  namespace a deletion has been run, so that none is there where deletions work.\<close>

definition nothing_left :: "Host \<Rightarrow> trace \<Rightarrow> trace \<Rightarrow> bool" where
  "nothing_left h u u' \<longleftrightarrow> (\<forall>(child, scope, v) \<in> started h u u'. ended h child scope v u') \<and> held h u' \<subseteq> held h u \<and>
     (deletions_work h \<longrightarrow> {n. ns_state h u' n \<noteq> Gone} \<subseteq> {n. ns_state h u n \<noteq> Gone})"

lemma nothing_leftI: "accounted h {} u u' \<Longrightarrow> held h u' \<subseteq> held h u \<Longrightarrow> nothing_left h u u'"
  by (simp add: nothing_left_def accounted_def deletions_work_held)

lemma topology_drop_runs:
  assumes "run_state (SrtlaTestTopology_drop h topo) u = (x, u2)"
  shows "held h u2 = held h u - {ns_name (tp_sender_ns topo), ns_name (tp_receiver_ns topo)}" "prefix u u2" "accounted h S u u2"
proof -
  show "held h u2 = held h u - {ns_name (tp_sender_ns topo), ns_name (tp_receiver_ns topo)}"
    using held_drops [of h "[tp_sender_ns topo, tp_receiver_ns topo]" u] assms by (simp add: SrtlaTestTopology_drop_def)
  show "prefix u u2" "accounted h S u u2"
    using emits_prefix [OF emits_topology(2) assms] accounted_none [OF no_spawn_started [OF emits_topology(2) assms]] .
qed

text \<open>C31: nothing outlives the stack, as far as it can be removed. With a clock that keeps up with the sleeps, 21 polls for each teardown and
  27 for each listener are enough for a start to come to an end. When it fails, at whatever step, every process it has started has come to its end:
  it has been seen to have exited and its namespace to list no process, or everything in the namespace has been sent TERM and, two seconds
  later, KILL, the child has been killed as well, and two more seconds have passed; and a deletion of every namespace added has been run,
  so that none is there if deletions work. When it succeeds, the processes that have not come to their end are those in the slots, and dropping
  the stack leaves as little.
\<close>

theorem stack_leaves_nothing:
  assumes "clock_ok h" "0 < num_links" "num_links \<le> 254" "ns_counter < 2 ^ 32"
  shows "\<exists>r c tr'. run_state (SrtlaTestStack_start h 21 27 path_exists workspace process_id ns_counter test_name num_links sender_extra_args) tr =
      (Finished (r, c), tr') \<and>
    (case r of
       Inl _ \<Rightarrow> nothing_left h tr tr'
     | Inr st \<Rightarrow>
         accounted h (stack_processes st) tr tr' \<and>
         (\<exists>tr2. run_state (SrtlaTestStack_drop h 21 st) tr' = (Some (), tr2) \<and> nothing_left h tr tr2))"
proof -
  obtain t tr1 where t: "run_state (SrtlaTestTopology_new h process_id ns_counter test_name num_links) tr = (t, tr1)" by fastforce
  have "t \<noteq> None" using t assms(2)
    by (auto simp: SrtlaTestTopology_new_def Let_def split: prod.splits sum.splits)
  then obtain q c where q: "t = Some (q, c)" by auto
  note h1 = topology_all_or_nothing [OF t [unfolded q] assms(3,4)]
  have a1: "accounted h S tr tr1" for S by (rule accounted_none [OF no_spawn_started [OF emits_topology(1) t]])
  have p1: "prefix tr tr1" by (rule emits_prefix [OF emits_topology(1) t])
  show ?thesis
  proof (cases q)
    case (Inl e)
    then show ?thesis using t q h1 a1 by (simp add: SrtlaTestStack_start_def nothing_leftI)
  next
    case topo: (Inr topo)
    have clean: "nothing_left h tr u2" if "run_state (SrtlaTestTopology_drop h topo) u = (x, u2)" "held h u = held h tr1" "accounted h {} tr u"
      "prefix tr u" for u x u2
    proof -
      note d = topology_drop_runs [OF that(1)]
      have "accounted h {} tr u2" by (rule accounted_trans [OF that(3) d(3) that(4) d(2)]) simp
      then show ?thesis using d(1) that(2) h1 topo by (intro nothing_leftI) auto
    qed
    from tidy_start_processes [OF assms(1), of path_exists workspace topo sender_extra_args] show ?thesis
    proof (cases rule: tidyE [where tr = tr1])
      case (failed e tr2)
      obtain x tr3 where d: "run_state (SrtlaTestTopology_drop h topo) tr2 = (x, tr3)" by fastforce
      have run: "run_state (SrtlaTestStack_start h 21 27 path_exists workspace process_id ns_counter test_name num_links sender_extra_args) tr =
          (Finished (Inl e, c), tr3)"
        using t q topo failed(1) d by (simp add: SrtlaTestStack_start_def)
      note f = failed(2) [unfolded tidy_outcome_def]
      have "accounted h {} tr tr2" by (rule accounted_trans [OF a1 [of "{}"] _ p1]) (use f in simp_all)
      moreover have "prefix tr tr2" using p1 f by (auto intro: prefix_order.trans)
      ultimately show ?thesis using run clean [OF d] f by simp
    next
      case (came_up st tr2)
      have run: "run_state (SrtlaTestStack_start h 21 27 path_exists workspace process_id ns_counter test_name num_links sender_extra_args) tr =
          (Finished (Inr st, c), tr2)"
        using t q topo came_up(1) by (simp add: SrtlaTestStack_start_def)
      note f = came_up(2) [unfolded tidy_outcome_def]
      have acc: "accounted h (stack_processes st) tr tr2" by (rule accounted_trans [OF a1 [of "{}"] _ p1]) (use f in simp_all)
      have pre: "prefix tr tr2" using p1 f by (auto intro: prefix_order.trans)
      have st: "st_topo st = topo"
        using came_up(1) by (auto simp: start_processes_def then_ok_def split: prod.splits option.splits sum.splits)
      obtain qs tr3 where k: "run_state (kill_all h 21 (List.map_filter id (kill_order st))) tr2 = (Some qs, tr3)" "prefix tr2 tr3"
          "held h tr3 = held h tr2" "accounted h {} tr2 tr3" "\<forall>p \<in> stack_processes st. ended h (np_child p) (np_scope p) tr2 tr3"
        using kill_all_ends [OF assms(1), of "List.map_filter id (kill_order st)" tr2] f unfolding stack_processes_def by auto
      obtain x tr4 where d: "run_state (SrtlaTestTopology_drop h topo) tr3 = (x, tr4)" by fastforce
      have drop: "run_state (SrtlaTestStack_drop h 21 st) tr2 = (Some (), tr4)"
        using k(1) d st by (simp add: SrtlaTestStack_drop_def)
      have "accounted h {} tr tr3" by (rule accounted_trans [OF acc k(4) pre k(2)]) (use k(5) in blast)
      moreover have "prefix tr tr3" using pre k(2) by (rule prefix_order.trans)
      ultimately have "nothing_left h tr tr4" using clean [OF d] k(3) f by simp
      then show ?thesis using run drop acc by auto
    qed
  qed
qed

text \<open>One link, on a machine on which every command works.\<close>

theorem stack_leaves_nothing_witness:
  "\<exists>r c tr'. run_state (SrtlaTestStack_start demo_host 21 27 (\<lambda>_. True) ''/w'' 4660 0 ''t'' 1 []) [] = (Finished (r, c), tr') \<and>
    (case r of Inl _ \<Rightarrow> nothing_left demo_host [] tr' \<and> (\<forall>n. ns_state demo_host tr' n = Gone)
     | Inr st \<Rightarrow> \<exists>tr2. run_state (SrtlaTestStack_drop demo_host 21 st) tr' = (Some (), tr2) \<and>
         nothing_left demo_host [] tr2 \<and> (\<forall>n. ns_state demo_host tr2 n = Gone))"
proof -
  obtain r c tr' where run: "run_state (SrtlaTestStack_start demo_host 21 27 (\<lambda>_. True) ''/w'' 4660 0 ''t'' 1 []) [] = (Finished (r, c), tr')"
    "case r of Inl _ \<Rightarrow> nothing_left demo_host [] tr'
     | Inr st \<Rightarrow> accounted demo_host (stack_processes st) [] tr' \<and>
        (\<exists>tr2. run_state (SrtlaTestStack_drop demo_host 21 st) tr' = (Some (), tr2) \<and> nothing_left demo_host [] tr2)"
    using stack_leaves_nothing [OF demo_clock, of 1 0 "\<lambda>_. True" "''/w''" 4660 "''t''" "[]" "[]"] by auto
  have "deletions_work demo_host" by (simp add: deletions_work_def cmd_ok_def demo_host_def)
  then have "ns_state demo_host u n = Gone" if "nothing_left demo_host [] u" for u n
    using that by (auto simp: nothing_left_def ns_state_def)
  then show ?thesis using run by (auto split: sum.splits)
qed

definition demo_stack :: SrtlaTestStack where
  "demo_stack = \<lparr> st_topo = \<lparr> tp_sender_ns = \<lparr> ns_name = ''s'' \<rparr>, tp_receiver_ns = \<lparr> ns_name = ''r'' \<rparr>, tp_sender_ips = [''10.10.1.1''],
       tp_receiver_ip = SRTLA_RECEIVER_SERVICE_IP, tp_sender_ifaces = [''vs''], tp_receiver_ifaces = [''vr''] \<rparr>,
     st_srt_server = None, st_srtla_rec = None, st_srtla_send = Some demo_child, st_srt_caller = None, st_ip_list_path = ''/tmp/d/srtla_ips.txt'' \<rparr>"

section \<open>Stopping is bounded\<close>

lemma stop_in_order_returns:
  assumes "clock_ok h"
  shows "\<exists>outs tr'. run_state (stop_in_order h 21 slots) tr = (Some outs, tr') \<and> length outs = length slots \<and>
    list_all2 (\<lambda>slot out. slot = None \<longrightarrow> out = ([], [])) slots outs \<and> slept tr' \<le> slept tr + length slots * (8 * NANOS_PER_SEC)"
proof (induction slots arbitrary: tr)
  case (Cons slot slots)
  have "\<exists>out tr1. run_state (stop_process h 21 slot) tr = (Some out, tr1) \<and> (slot = None \<longrightarrow> out = ([], [])) \<and>
      slept tr1 \<le> slept tr + 8 * NANOS_PER_SEC"
  proof (cases slot)
    case (Some p)
    obtain p1 u where k1: "run_state (kill h 21 p) tr = (Some p1, u)" "slept u \<le> slept tr + 4 * NANOS_PER_SEC"
      using kill_runs [OF assms] by metis
    obtain p2 v where k2: "run_state (kill h 21 p1) u = (Some p2, v)" "slept v \<le> slept u + 4 * NANOS_PER_SEC"
      using kill_runs [OF assms] by metis
    have "slept v \<le> slept tr + 8 * NANOS_PER_SEC" using k1(2) k2(2) by simp
    then show ?thesis using k1(1) k2(1) by (simp add: stop_process_def Some)
  qed (simp add: stop_process_def)
  then obtain out tr1 where 1: "run_state (stop_process h 21 slot) tr = (Some out, tr1)" "slot = None \<longrightarrow> out = ([], [])"
    "slept tr1 \<le> slept tr + 8 * NANOS_PER_SEC" by blast
  obtain outs tr2 where 2: "run_state (stop_in_order h 21 slots) tr1 = (Some outs, tr2)" "length outs = length slots"
    "list_all2 (\<lambda>slot out. slot = None \<longrightarrow> out = ([], [])) slots outs" "slept tr2 \<le> slept tr1 + length slots * (8 * NANOS_PER_SEC)"
    using Cons.IH [of tr1] by blast
  have "slept tr2 \<le> slept tr + length (slot # slots) * (8 * NANOS_PER_SEC)" using 1(3) 2(4) by simp
  then show ?case using 1(1,2) 2(1-3) by (intro exI [of _ "out # outs"] exI [of _ tr2]) simp
qed simp

lemma run_drop: "run_state (Namespace_drop h ns) tr = (Inr (), tr @ [Ran [''sudo'', ''ip'', ''netns'', ''del'', ns_name ns]])"
  by (simp add: Namespace_drop_def sudo_def act_runs split: sum.split)

text \<open>Stopping the stack always returns, having slept at most thirty-two seconds, four for each of the two
  teardowns of a process. The output of a process that was not
  started is empty. No process is left in its slot, so that dropping the stack afterwards only deletes the two namespaces.
\<close>

theorem stop_bounded:
  assumes "clock_ok h"
  shows "\<exists>out tr'. run_state (SrtlaTestStack_stop h 21 st) tr = (Some (out, taken st), tr') \<and>
    slept tr' \<le> slept tr + 32 * NANOS_PER_SEC \<and>
    (st_srt_caller st = None \<longrightarrow> so_srt_caller_stdout out = [] \<and> so_srt_caller_stderr out = []) \<and>
    run_state (SrtlaTestStack_drop h 21 (taken st)) tr' =
      (Some (), tr' @ [Ran [''sudo'', ''ip'', ''netns'', ''del'', ns_name (tp_sender_ns (st_topo st))],
                       Ran [''sudo'', ''ip'', ''netns'', ''del'', ns_name (tp_receiver_ns (st_topo st))]])"
proof -
  obtain outs tr' where o: "run_state (stop_in_order h 21 (kill_order st)) tr = (Some outs, tr')" "length outs = length (kill_order st)"
      "list_all2 (\<lambda>slot out. slot = None \<longrightarrow> out = ([], [])) (kill_order st) outs"
      "slept tr' \<le> slept tr + length (kill_order st) * (8 * NANOS_PER_SEC)"
    using stop_in_order_returns [OF assms, of "kill_order st" tr] by blast
  obtain a b c d where outs: "outs = [a, b, c, d]"
    using o(2) by (auto simp: kill_order_def length_Suc_conv eval_nat_numeral)
  have "slept tr' \<le> slept tr + 32 * NANOS_PER_SEC" using o(4) by (simp add: kill_order_def)
  moreover have "st_srt_caller st = None \<longrightarrow> a = ([], [])" using o(3) outs by (simp add: kill_order_def)
  moreover have "run_state (SrtlaTestStack_drop h 21 (taken st)) tr' =
      (Some (), tr' @ [Ran [''sudo'', ''ip'', ''netns'', ''del'', ns_name (tp_sender_ns (st_topo st))],
                       Ran [''sudo'', ''ip'', ''netns'', ''del'', ns_name (tp_receiver_ns (st_topo st))]])"
    by (simp add: SrtlaTestStack_drop_def taken_def kill_order_def List.map_filter_def SrtlaTestTopology_drop_def run_drop act_runs)
  ultimately show ?thesis using o(1) by (simp add: SrtlaTestStack_stop_def outs)
qed

theorem stop_bounded_witness:
  "\<exists>out tr'. run_state (SrtlaTestStack_stop demo_host 21 demo_stack) [] = (Some (out, taken demo_stack), tr') \<and> slept tr' \<le> 32 * NANOS_PER_SEC \<and>
    so_srt_caller_stdout out = []"
  using stop_bounded [OF demo_clock, of demo_stack "[]"] by (auto simp: demo_stack_def slept_def)

end
