(* ===== verification/Spec2Isabelle.thy ===== *)
theory Spec2Isabelle
  imports Sidecars Status_Report Program Sockets Fallback_IO Delivery Sim_Stack
begin

text \<open>
  \<^bold>\<open>The SRTLA sender, verified.\<close> \<^verbatim>\<open>srtla_send\<close> takes one SRT stream from a local client and spreads its packets over several
  uplinks to one receiver. This library models the sender, and the network simulator its tests run on, and proves what makes them correct. Paths below are relative to
  the repository; a definition keeps the name of the Rust item it translates, with the type or the module in front where the
  bare name is taken (\<^verbatim>\<open>CongestionControl::reset\<close> is \<open>CongestionControl_reset\<close>).

  \<^bold>\<open>How the program works.\<close> Two crates, a shell and a simulator. \<^verbatim>\<open>crates/srtla-protocol\<close> is the wire format. \<^verbatim>\<open>crates/srtla-core\<close> is the pure
  core: the state of one link (\<^verbatim>\<open>connection\<close>), registration with the receiver (\<^verbatim>\<open>registration\<close>), the choice of a link for a packet
  (\<^verbatim>\<open>selection\<close>), the estimators behind them. The shell in \<^verbatim>\<open>src/\<close> owns sockets and tasks: the event loop of
  \<^verbatim>\<open>src/sender/mod.rs\<close> waits for a client packet, an uplink packet, a timer or a signal, calls the handler in \<^verbatim>\<open>src/sender\<close>, and drains
  the uplink channel that the reader tasks fill. A client packet is queued on the selected link and leaves in a batch; an
  uplink packet registers a link, acknowledges packets (removed from the log of the link that carries them), reports losses
  (charged to the link the sequence tracker names), or is passed to the client. Once a second housekeeping times links out,
  reconnects them, sends keepalives, runs the weak-link classifier and the rate controllers, re-homes a dead bond, publishes
  statistics and applies a reload. Beside the loop run the control socket, the priority sidecar, the metrics endpoint and the
  command reader, which share the configuration, the critical window, the statistics and the subscription hub. Apart from all this,
  \<^verbatim>\<open>crates/network-sim\<close> builds a bond in network namespaces for end-to-end tests: it generates impairments over time, runs \<^verbatim>\<open>ip\<close> and \<^verbatim>\<open>tc\<close>,
  and starts and tears down the processes of an SRTLA connection.

  \<^bold>\<open>Theories, in the order of their dependence.\<close>
  \<^item> \<open>Prelude\<close>: fixed-width arithmetic, shared list facts, and the interfaces \<open>machine\<close> (a step function with an invariant; its runs keep
    it), \<open>monotone_machine\<close>, \<open>scan_order\<close> and \<open>scan_total\<close> (the first best element of a scan). \<open>Floats\<close>: binary64 and binary32 as
    rationals with infinities and NaN, rounded to nearest even (\<open>rounding\<close>, interpreted for both widths).
  \<^item> \<open>Protocol\<close> (\<^verbatim>\<open>srtla-protocol\<close>): packet types, builders, parsers, round trips. \<open>Seq_Arith\<close> (\<^verbatim>\<open>seq.rs\<close>): 31-bit serial numbers
    (\<open>serial\<close>). \<open>Core_Config\<close> (\<^verbatim>\<open>mode.rs\<close>, \<^verbatim>\<open>config_snapshot.rs\<close>, \<^verbatim>\<open>src/config.rs\<close>).
  \<^item> \<open>Estimators\<close> (\<^verbatim>\<open>ewma.rs\<close>, \<^verbatim>\<open>kalman.rs\<close>, \<^verbatim>\<open>windowed_min.rs\<close>), \<open>Rtt\<close>, \<open>Congestion\<close>, \<open>Link_Parts\<close> (batch queue, bitrate, reconnect
    pacing; \<open>drain_queue\<close>), \<open>Connection\<close>, \<open>Ack_Nak\<close>, \<open>Link_Machine\<close>: the link of \<^verbatim>\<open>connection/\<close>, a record with one function per method, and
    its invariant \<open>link_ok\<close> under every sequence of operations, the arms of a receive that change a link (\<open>accept_reg3\<close>, \<open>reject_registration\<close>,
    \<open>refresh_liveness\<close>) among them. \<open>Stall_Latch\<close>: the stall guard's latch, pull and ramps.
  \<^item> \<open>Selection\<close>, \<open>Enhanced\<close>, \<open>Classifier\<close>, \<open>Link_CC\<close> (\<^verbatim>\<open>selection/\<close>): stall gate, both modes, sole-carrier election, quality score,
    weak-link filter, per-link rate control.
  \<^item> \<open>Tracking\<close> (\<^verbatim>\<open>sequence.rs\<close>, \<^verbatim>\<open>client_dedup.rs\<close>, \<^verbatim>\<open>priority.rs\<close>; \<open>owner_cache\<close>), \<open>Registration\<close> (\<^verbatim>\<open>registration/\<close>).
  \<^item> \<open>Data_Path\<close> (\<^verbatim>\<open>uplink_recv.rs\<close>, \<^verbatim>\<open>packet_handler.rs\<close>): the record \<open>Bond\<close> and its handlers, whose sends are the list of effects they
    return. \<open>Bond_Invariant\<close> and \<open>Forwarding\<close>: the handlers keep the invariant; where a packet goes; a flush is all or nothing.
  \<^item> \<open>Batch_IO\<close> (\<^verbatim>\<open>net/mod.rs\<close>, \<^verbatim>\<open>net/batch_recv.rs\<close>, reader of \<^verbatim>\<open>uplink.rs\<close>): batched sends and receives against a kernel that cuts, blocks
    and fails; a socket is the locale \<open>batch_socket\<close>, which \<open>Fallback_IO\<close> interprets again for systems without batched calls,
    whose reader differs from the Linux one in what it makes of an interrupted call. \<open>Sockets\<close> (\<^verbatim>\<open>net/socket.rs\<close>, \<^verbatim>\<open>net/apple.rs\<close>, \<^verbatim>\<open>connections.rs\<close>): opening a link; the trait \<^verbatim>\<open>UplinkBinder\<close> is the locale
    \<open>uplink_binder\<close>, interpreted for both binders of the program.
  \<^item> \<open>Housekeeping\<close> (\<^verbatim>\<open>housekeeping.rs\<close>, \<^verbatim>\<open>rehome.rs\<close>): a tick serves the links (\<open>hk_serve\<close>) and then checks for total failure (\<open>hk_failure\<close>); \<open>Reload\<close> (\<^verbatim>\<open>reload.rs\<close>), \<open>Uplinks\<close> (\<^verbatim>\<open>connections.rs\<close>, \<^verbatim>\<open>uplink.rs\<close>).
  \<^item> \<open>Event_Loop\<close> (\<^verbatim>\<open>sender/mod.rs\<close>): the record \<open>Sender\<close>, one function per arm, the step relation \<open>sender_step\<close> and the states
    \<open>reachable\<close> from a start. \<open>Sender_Invariant\<close>: the invariant \<open>sender_ok\<close> of every reachable state, start-up, reload, bounded passes.
    \<open>Provenance\<close>: the loop as a function of its events with all datagrams it sends; where each comes from. \<open>Duplication\<close>: how often each leaves.
    \<open>Delivery\<close>: that it leaves, at the latest with the next flush.
  \<^item> \<open>Control\<close> (\<^verbatim>\<open>control.rs\<close>, \<^verbatim>\<open>subscriptions.rs\<close>, \<^verbatim>\<open>control_socket.rs\<close>) and \<open>Sidecars\<close> (\<^verbatim>\<open>priority_listener.rs\<close>, command reader).
  \<^item> \<open>Statistics\<close> (\<^verbatim>\<open>stats.rs\<close>), \<open>Metrics\<close> (\<^verbatim>\<open>metrics.rs\<close>), \<open>Status_Report\<close> (\<^verbatim>\<open>sender/status.rs\<close>).
  \<^item> \<open>Sim_Scenario\<close> (\<^verbatim>\<open>network-sim/src/scenario.rs\<close>): the random walk of rates, delays and losses in rounded arithmetic. \<open>Sim_Network\<close>
    (\<^verbatim>\<open>topology.rs\<close>, \<^verbatim>\<open>impairment.rs\<close>, \<^verbatim>\<open>test_util.rs\<close>): operations as state transformers over the trace of commands that have been run, with an
    error or a value as result. \<open>Sim_Harness\<close> and \<open>Sim_Stack\<close> (\<^verbatim>\<open>harness.rs\<close>): processes, topology and waits; the stack of processes.
  \<^item> \<open>Startup\<close> (\<^verbatim>\<open>main.rs\<close>, \<^verbatim>\<open>toml_config.rs\<close>, \<^verbatim>\<open>version.rs\<close>, \<^verbatim>\<open>utils.rs\<close>) and \<open>Program\<close>: from the command line to the loop, and how
    the sender starts (listener, address file, uplinks, signals, first housekeeping, in this order); this theory has
    the property of the whole program.

  \<^bold>\<open>What is shown.\<close> \<^emph>\<open>No packet is left behind\<close>: selection answers with a live, ungated link whenever a link is live, the guards
  never gate the last one, a registered sender queues a client packet on a live link, and with sockets that take their datagrams it
  has left when the next flush has been served. \<^emph>\<open>None is made up\<close>: every datagram the
  loop hands to a socket is control traffic, a client packet, its flagged copy, or comes from an uplink; and no unflagged packet leaves more often than the client sent it. \<^emph>\<open>Accounting is
  exact\<close>: what an acknowledgement clears is stated number by number, across the wrap and on both removal paths; a loss is charged to at most one link;
  a flush logs what left and nothing else, however the kernel cuts it; the sequence tracker refines the map from numbers to last
  owners with expiry. \<^emph>\<open>State machines\<close>: link, registration, congestion window, rate control, configuration and subscription hub
  keep their invariants under every sequence of operations, and the sender under every interleaving of its events; a REG3 is
  accepted exactly once per grant and otherwise counted; registration completes on every uplink the receiver answers. \<^emph>\<open>Failure\<close>: housekeeping fails exactly after ten dead
  seconds without a re-home; the bond is re-homed exactly after such a failure, at most once a minute, and to a moved receiver; an unusable address file is
  refused; start-up ends for stated reasons only, checked in a stated order. \<^emph>\<open>Numbers\<close>: rate targets, windows and multipliers stay in range in rounded
  arithmetic, and the float tick of the rate controller equals its integer specification. \<^emph>\<open>What is reported is what is used\<close>:
  statistics, metrics and status agree with the state the scheduler acts on. \<^emph>\<open>The simulator\<close>: scenarios stay within their
  limits and panic for stated reasons only; an impairment is applied completely or reports the command that failed; a start that fails, and the
  drop of a stack, have brought every process to its end, with KILL and the time for it as the last resort, and have run a deletion of every namespace; teardown always ends; the address file it writes is what the sender reads.

  \<^bold>\<open>Conventions.\<close> \<open>u64\<close>, \<open>usize\<close> and \<open>i32\<close> values are numbers with the wrap or saturation written out (\<open>u64_add\<close>,
  \<open>u64_saturating_add\<close>, \<open>i32_add\<close>; subtraction of naturals is \<^verbatim>\<open>saturating_sub\<close>); packets, sequence numbers and addresses are words. Errors
  are \<open>Inl\<close> or \<open>None\<close>. A task or loop that never ends is a fold over its inputs. Atomics are single stores, locks are one step.

  \<^bold>\<open>What is a parameter.\<close> The clock at each point where the code reads it; random ids; outcomes of socket operations and
  name lookup; the hash of the duplicate filter; the exponential of the standard library, used under \<open>decay_fn\<close> (between zero and one on
  arguments up to zero); address parsing and printing, printing of floats; the JSON and TOML packages and
  the command-line parser, used only through what their derived readers return; the random generator of the simulator (\<open>rng_ok\<close>: values
  from zero to one) and the host that answers its commands (\<open>clock_ok\<close>: the clock keeps up with the sleeps). Hypotheses on surroundings are \<open>pass_ok\<close>,
  \<open>hk_env_ok\<close>, \<open>fresh_ids\<close> and \<open>event_ok\<close>; each property with a hypothesis has a witness.

  \<^bold>\<open>Bounds and termination.\<close> Loops are structural recursions or \<open>function\<close>s with a measure (buffer offsets, remaining datagrams, packets left
  in a drain); there is no fuel except the code's own bounds (64 packets per drain, 1000 expanded losses per NAK, 32 datagrams per
  receive), and the polls of the simulator's waits, which end by the clock: 21 polls are enough for a teardown and 27 for a listener. Sending over a blocking socket is a function of the socket's script and returns \<open>None\<close> when that ends; the property
  states how long a script is enough.

  \<^bold>\<open>Not modelled.\<close> The test helpers, which are fixtures; \<^verbatim>\<open>AsymmetricEwma\<close>, which is compiled for tests only; of the simulator, the thread that
  copies the output of a child and the C program of the adaptive sender; the walk over the C list of
  interfaces and the memory layout of the receive headers; log output other than the status report; \<^verbatim>\<open>lib.rs\<close> and \<^verbatim>\<open>build.rs\<close>, which
  declare modules and call git; preemption between the loop's arms, which the single-threaded loop does not have, and real time:
  nothing says when a timer fires, only what happens when it does.
\<close>

section \<open>The program as a whole\<close>

text \<open>
  C3: the running program stays well-formed. Start it from any command line and any files; if it comes up, then whatever events the
  loop then meets, in any order, it keeps running, and at every moment its links have distinct ids and are
  each in good state with a window between 1000 and 60000, the sockets and the reader tasks are those of the links, the remembered
  selection is a link, the mode byte decodes to the mode it encodes and the liveness timeout is between one second and one minute.
\<close>

theorem program_well_formed:
  assumes "program build toml fs env typed args [] = Running p s0 effs0" "events_ok p s0 events"
    and "hk_env_ok (z_housekeeping (pe_start env))" "length (z_own_id (pe_start env)) = 256" "length (z_probe_id (pe_start env)) = 256"
    and "inj (k_conn_id (z_connect (pe_start env)))"
  shows "case program build toml fs env typed args events of
      Running p' s effs \<Rightarrow>
        (let b = s_bond s; conns = b_conns b; ids = c_conn_id ` set conns in
         distinct (map c_conn_id conns) \<and> list_all link_good conns \<and> list_all (\<lambda>c. 1000 \<le> c_window c \<and> c_window c \<le> 60000) conns \<and>
         Mapping.keys (s_io s) = ids \<and> set (s_readers s) = ids \<and>
         (case b_last_selected b of None \<Rightarrow> True | Some i \<Rightarrow> i < length conns) \<and>
         mode_as_u8 (mode_from_u8 (dc_mode (b_config b))) = dc_mode (b_config b) \<and>
         1000 \<le> dc_conn_timeout_ms (b_config b) \<and> dc_conn_timeout_ms (b_config b) \<le> 60000)
    | _ \<Rightarrow> False"
proof -
  obtain port host rport ips config tasks where m: "main build toml fs typed args = Started port host rport ips config tasks"
    and start: "sender_start p (start_env_of env fs port ips config) = Inr (s0, effs0)"
    and run: "program build toml fs env typed args events = Running p (fst (loop_run p s0 events)) (effs0 @ snd (loop_run p s0 events))"
    using program_start [OF assms(1)] by metis
  let ?s = "fst (loop_run p s0 events)"
  obtain as ws where f: "read_weighted_ip_list (p_parse_ip p) (z_file (start_env_of env fs port ips config)) = Some (as, ws)"
    using start_file [OF start] by blast
  have "reachable p s0"
    by (rule reachable.start [OF _ _ _ f _ start])
      (use assms(3-6) in \<open>auto simp: start_env_of_def fresh_ids_def intro: inj_on_subset\<close>)
  then have "sender_ok ?s" using assms(2) by (rule reachable_ok [OF loop_run_reachable])
  moreover have "config_ok (config_of s0)" using start_config [OF start] main_config [OF m] by (simp add: start_env_of_def)
  then have "config_ok (config_of ?s)" 
    using loop_run_keeps [of "\<lambda>s. config_ok (config_of s)" p s0 events] config_step assms(2) by blast
  ultimately show ?thesis
    unfolding run
    by (auto simp: sender_ok_def bond_ok_def ids_of_def last_ok_def config_ok_def CONN_TIMEOUT_MS_MIN_def CONN_TIMEOUT_MS_MAX_def Let_def
        link_good_def link_ok_def window_ok_def protocol_consts list_all_iff)
qed

text \<open>A command line with a configuration file and one uplink address; the timeout is then set below its limit.\<close>

definition demo_files :: "string \<Rightarrow> string option" where
  "demo_files path = (if path = ''c.toml'' then Some ''x'' else if path = ''ips'' then Some ''a'' else None)"

definition demo_process :: ProcessEnv where
  "demo_process = \<lparr> pe_parse_ip = p_parse_ip demo_params, pe_start = demo_start \<rparr>"

lemma demo_program: "\<exists>p s0 effs0. program demo_build demo_toml demo_files demo_process (\<lambda>_. False) demo_cli [] = Running p s0 effs0"
proof -
  obtain config tasks where m: "main demo_build demo_toml demo_files (\<lambda>_. False) demo_cli = Started 5000 ''h'' 5001 ''ips'' config tasks"
    by (simp add: main_def demo_cli_def load_def demo_files_def demo_toml_def deserialize_mode_def mode_from_str_def apply_config_file_def)
  have "\<exists>r. sender_start (params_of demo_process ''h'' 5001) (start_env_of demo_process demo_files 5000 ''ips'' config) = Inr r"
    using demo_ips
    by (simp add: sender_start_def params_of_def start_env_of_def demo_process_def demo_files_def demo_start_def
        create_connections_from_ips_def connect_uplink_def demo_connect_def case_prod_beta Let_def)
  then show ?thesis
    by (auto simp: program_def m run_sender_with_config_def demo_process_def loop_run_def)
qed

theorem program_well_formed_witness:
  "case program demo_build demo_toml demo_files demo_process (\<lambda>_. False) demo_cli [ControlCommand (SetConnTimeout 5)] of
     Running _ s _ \<Rightarrow> 1000 \<le> dc_conn_timeout_ms (b_config (s_bond s)) | _ \<Rightarrow> False"
proof -
  obtain p s0 effs0 where run: "program demo_build demo_toml demo_files demo_process (\<lambda>_. False) demo_cli [] = Running p s0 effs0"
    using demo_program by blast
  have "events_ok p s0 [ControlCommand (SetConnTimeout 5)]" "hk_env_ok (z_housekeeping (pe_start demo_process))"
    "length (z_own_id (pe_start demo_process)) = 256" "length (z_probe_id (pe_start demo_process)) = 256"
    "inj (k_conn_id (z_connect (pe_start demo_process)))"
    by (simp_all add: demo_process_def demo_start_def demo_housekeeping_def hk_env_ok_def demo_connect_def inj_on_def)
  from program_well_formed [OF run this] show ?thesis by (auto simp: Let_def split: program_state.splits)
qed

end
